(* ===== verification/War3Prelude.thy ===== *)
theory War3Prelude
  imports Main "HOL-Library.Word"
begin

section \<open>Prelude: machine integers, alignment and intervals\<close>

text \<open>
  What every component shares: the names of the C++ integer types, the
  collection \<open>word_nat\<close> of rules that move comparisons, subtraction and
  division of machine words to natural numbers, the power-of-two rounding the
  allocators use, and half-open byte intervals.
  The program is a 32-bit Windows library: \<open>size_t\<close> and \<open>uintptr_t\<close> are 32 bits.
\<close>

unbundle bit_operations_syntax

type_synonym u8 = "8 word"
type_synonym u16 = "16 word"
type_synonym u32 = "32 word"
type_synonym u64 = "64 word"

abbreviation UINT32_MAX :: u32 where "UINT32_MAX \<equiv> - 1"
abbreviation UINT64_MAX :: u64 where "UINT64_MAX \<equiv> - 1"

named_theorems word_nat "moves word comparisons and arithmetic to natural numbers"

lemmas word_to_nat [word_nat] =
  word_le_nat_alt word_less_nat_alt unat_sub_if' unat_plus_if' unat_div unat_mod

subsection \<open>Words\<close>

lemma unat_min [word_nat]: "unat (min a b) = min (unat a) (unat b)"
  by (simp add: min_def word_le_nat_alt)

lemma unat_max [word_nat]: "unat (max a b) = max (unat a) (unat b)"
  by (simp add: max_def word_le_nat_alt)

lemma unat_eq_iff: "(a = b) = (unat a = unat b)"
  by (rule word_unat_eq_iff)

lemma unat_u32_bound [simp]: "unat (x :: u32) < 4294967296"
  using unsigned_less [of x] by simp

lemma unat_u64_bound [simp]: "unat (x :: u64) < 18446744073709551616"
  using unsigned_less [of x] by simp

lemma unat_UINT64_MAX [simp]: "unat UINT64_MAX = 18446744073709551615"
  by (simp add: unsigned_minus_1_eq_mask mask_eq_exp_minus_1)

lemma unat_UINT32_MAX [simp]: "unat UINT32_MAX = 4294967295"
  by (simp add: unsigned_minus_1_eq_mask mask_eq_exp_minus_1)

lemma unat_add_le_sub:
  fixes a b c :: "'a::len word"
  assumes "b \<le> c" and "a \<le> c - b"
  shows "unat a + unat b \<le> unat c"
  using assms by (simp add: word_le_nat_alt unat_sub_if')

lemma unat_add_no_wrap:
  fixes a b c :: "'a::len word"
  assumes "unat a + unat b \<le> unat c"
  shows "unat (a + b) = unat a + unat b"
proof -
  have "unat a + unat b < 2 ^ LENGTH('a)"
    using assms unsigned_less [of c] by (rule order_le_less_trans)
  then show ?thesis by (simp add: unat_plus_if')
qed

text \<open>A 32-bit value widened to 64 bits keeps its value.\<close>

lemma unat_ucast_32_64 [simp]: "unat (ucast (x :: u32) :: u64) = unat x"
  by (simp add: unsigned_ucast_eq take_bit_nat_eq_self_iff order_less_trans [OF unat_u32_bound])

lemma unat_add_below_max:
  fixes a b :: u64
  assumes "a \<le> UINT64_MAX - b"
  shows "unat a + unat b < 2 ^ 64"
  using unat_add_le_sub [of b UINT64_MAX a] assms by simp

lemma unat_of_nat_u32: "n < 2 ^ 32 \<Longrightarrow> unat (of_nat n :: u32) = n"
  by (simp add: unat_of_nat take_bit_nat_eq_self)

subsection \<open>Lists updated by index\<close>

text \<open>Reading an updated list inside its bounds; the index of the update may be outside.\<close>

lemma nth_update_if: "j < length xs \<Longrightarrow> xs[i := x] ! j = (if i = j then x else xs ! j)"
  by (cases "i < length xs") (auto simp: nth_list_update)

lemma map_le_some: "m \<subseteq>\<^sub>m m' \<Longrightarrow> m a = Some b \<Longrightarrow> m' a = Some b"
  unfolding map_le_def by (metis domI)

lemma map_le_ran: "m \<subseteq>\<^sub>m m' \<Longrightarrow> ran m \<subseteq> ran m'"
proof
  fix x assume m: "m \<subseteq>\<^sub>m m'" and "x \<in> ran m"
  then obtain a where "m a = Some x" by (auto simp: ran_def)
  from map_le_some [OF m this] show "x \<in> ran m'" by (rule ranI)
qed

lemma ran_upd_all: "\<forall>x \<in> ran m. P x \<Longrightarrow> P y \<Longrightarrow> \<forall>x \<in> ran (m(k \<mapsto> y)). P x"
  by (auto simp: ran_def)

subsection \<open>Rounding to a power of two\<close>

text \<open>
  The allocators round up with \<open>(x + mask) & ~mask\<close>. Clearing the low \<open>k\<close> bits of
  a word subtracts its remainder modulo \<open>2 ^ k\<close>.
\<close>

lemma word_and_not_mask_unat:
  fixes x :: "'a::len word"
  shows "unat (x AND NOT (mask k)) = unat x - unat x mod 2 ^ k"
proof -
  have "x AND NOT (mask k) = push_bit k (drop_bit k x)"
    by (rule bit_word_eqI) (auto simp: bit_simps)
  also have "\<dots> = x - take_bit k x"
    using bits_ident [of k x] by (simp only: eq_diff_eq)
  finally have eq: "x AND NOT (mask k) = x - take_bit k x" .
  have le: "take_bit k x \<le> x"
    by (simp add: word_le_nat_alt unsigned_take_bit_eq take_bit_nat_less_eq_self)
  show ?thesis
    unfolding eq unat_sub [OF le] unsigned_take_bit_eq
    by (simp add: take_bit_eq_mod)
qed

lemma round_up_nat:
  fixes v m :: nat
  assumes "0 < m"
  shows "v \<le> (v + (m - 1)) - (v + (m - 1)) mod m"
    and "(v + (m - 1)) - (v + (m - 1)) mod m < v + m"
    and "m dvd (v + (m - 1)) - (v + (m - 1)) mod m"
proof -
  have "(v + (m - 1)) mod m < m" using assms by simp
  then show "v \<le> (v + (m - 1)) - (v + (m - 1)) mod m" by linarith
  show "(v + (m - 1)) - (v + (m - 1)) mod m < v + m" using assms by linarith
  show "m dvd (v + (m - 1)) - (v + (m - 1)) mod m" by (simp add: minus_mod_eq_mult_div)
qed

subsection \<open>Byte intervals\<close>

text \<open>A half-open interval of byte offsets, as (begin, end).\<close>

type_synonym interval = "nat \<times> nat"

definition disjoint_iv :: "interval \<Rightarrow> interval \<Rightarrow> bool" where
  "disjoint_iv p q \<longleftrightarrow> snd p \<le> fst q \<or> snd q \<le> fst p"

lemma disjoint_iv_sym: "disjoint_iv p q = disjoint_iv q p"
  by (auto simp: disjoint_iv_def)

lemma disjoint_iv_no_common_byte:
  "disjoint_iv p q \<Longrightarrow> {fst p..<snd p} \<inter> {fst q..<snd q} = {}"
  by (auto simp: disjoint_iv_def)

lemma common_byte_of_overlap:
  "\<not> disjoint_iv p q \<Longrightarrow> fst p < snd p \<Longrightarrow> fst q < snd q \<Longrightarrow>
    {fst p..<snd p} \<inter> {fst q..<snd q} \<noteq> {}"
  by (rule notI, drule equals0D [of _ "max (fst p) (fst q)"]) (auto simp: disjoint_iv_def)

end
