(* ===== verification/AdaptiveBudget.thy ===== *)
theory AdaptiveBudget
  imports War3Prelude
begin

section \<open>Adaptive memory budget\<close>

text \<open>
  \<open>src/src/d3d9/war3/memory/war3_adaptive_memory_budget.h\<close>, \<open>war3_shadow_arena_budget.h\<close>
  and \<open>war3_shadow_arena_lifecycle.h\<close>: how much a shadow pool may grow, the
  per-frame negative cache of refused growth, the gradual shrinking of a retired
  arena generation and the lease that keeps a generation out of reuse until the
  GPU has completed it. The sample of the driver's heap and of the address space
  (\<open>SampleShadowMemoryBudget\<close>) is an input record.
\<close>

subsection \<open>The interface: growth under a limit\<close>

text \<open>
  Every pool asks one question before it grows: may \<open>bytes\<close> be added to
  \<open>resident\<close>? What a caller needs of the answer is that the sum is within the
  limit, so that the 64-bit addition it then performs cannot wrap.
\<close>

locale growth_admission =
  fixes admits :: "'b \<Rightarrow> u64 \<Rightarrow> u64 \<Rightarrow> bool"
    and limit :: "'b \<Rightarrow> u64"
  assumes admits_within: "admits b r n \<Longrightarrow> unat r + unat n \<le> unat (limit b)"
begin

lemma grown_exact: "admits b r n \<Longrightarrow> unat (r + n) = unat r + unat n"
  by (rule unat_add_no_wrap) (rule admits_within)

lemma grown_within: "admits b r n \<Longrightarrow> r + n \<le> limit b"
  using admits_within [of b r n] by (simp add: word_le_nat_alt grown_exact)

lemma grow_run_within:
  "r \<le> limit b \<Longrightarrow> foldl (\<lambda>r n. if admits b r n then r + n else r) r ns \<le> limit b"
  by (induction ns arbitrary: r) (auto simp: grown_within)

end

subsection \<open>The retry gate\<close>

record BudgetGrowthRetryGate =
  gate_valid :: bool
  gate_frame :: u64
  gate_minimumBytes :: u64

definition gate_init :: BudgetGrowthRetryGate where
  "gate_init = \<lparr>gate_valid = False, gate_frame = 0, gate_minimumBytes = 0\<rparr>"

definition gate_refused :: "BudgetGrowthRetryGate \<Rightarrow> u64 \<Rightarrow> u64 \<Rightarrow> bool" where
  "gate_refused g f bytes \<longleftrightarrow>
     gate_valid g \<and> gate_frame g = f \<and> bytes \<ge> gate_minimumBytes g"

definition gate_refuse :: "BudgetGrowthRetryGate \<Rightarrow> u64 \<Rightarrow> u64 \<Rightarrow> BudgetGrowthRetryGate" where
  "gate_refuse g f bytes =
     \<lparr>gate_valid = True, gate_frame = f,
      gate_minimumBytes =
        (if gate_valid g \<and> gate_frame g = f then min (gate_minimumBytes g) bytes else bytes)\<rparr>"

definition gate_reset :: "BudgetGrowthRetryGate \<Rightarrow> BudgetGrowthRetryGate" where
  "gate_reset g = g\<lparr>gate_valid := False, gate_frame := 0, gate_minimumBytes := 0\<rparr>"

lemma gate_reset_init: "gate_reset g = gate_init"
  by (simp add: gate_reset_def gate_init_def)

lemma gate_init_refuses_nothing: "\<not> gate_refused gate_init f bytes"
  by (simp add: gate_refused_def gate_init_def)

text \<open>
  The gate after a history of refusals (newest first): the refusals of the newest
  frame that no other frame interrupts.
\<close>

fun gate_after :: "(u64 \<times> u64) list \<Rightarrow> BudgetGrowthRetryGate" where
  "gate_after [] = gate_init"
| "gate_after ((f, bytes) # rs) = gate_refuse (gate_after rs) f bytes"

lemma gate_after_valid: "gate_valid (gate_after rs) \<longleftrightarrow> rs \<noteq> []"
  by (cases rs) (auto simp: gate_init_def gate_refuse_def)

lemma gate_after_frame: "rs \<noteq> [] \<Longrightarrow> gate_frame (gate_after rs) = fst (hd rs)"
  by (cases rs) (auto simp: gate_refuse_def)

lemma gate_after_refused:
  "gate_refused (gate_after rs) f bytes \<longleftrightarrow>
    (\<exists>p \<in> set (takeWhile (\<lambda>p. fst p = f) rs). snd p \<le> bytes)"
proof (induction rs)
  case Nil
  then show ?case by (simp add: gate_init_refuses_nothing)
next
  case (Cons p rs)
  obtain f' b' where p: "p = (f', b')" by (cases p)
  show ?case
  proof (cases "f' = f")
    case False
    then show ?thesis by (simp add: p gate_refused_def gate_refuse_def)
  next
    case True
    have "gate_refused (gate_after (p # rs)) f bytes \<longleftrightarrow>
        b' \<le> bytes \<or> gate_refused (gate_after rs) f bytes"
      by (auto simp: p True gate_refused_def gate_refuse_def min_le_iff_disj)
    then show ?thesis unfolding Cons.IH by (auto simp: p True)
  qed
qed

subsection \<open>The budget decision\<close>

definition MemoryMiB :: u64 where
  "MemoryMiB = 1024 * 1024"

record AdaptiveBudgetInput =
  in_supported :: bool
  in_heapValid :: bool
  in_vaValid :: bool
  in_heapSize :: u64
  in_budget :: u64
  in_committed :: u64
  in_availableVA :: u64
  in_resident :: u64
  in_hardCap :: u64
  in_fallbackCap :: u64
  in_pageBytes :: u64
  in_quotaEighths :: u32

record AdaptiveBudgetDecision =
  bd_trusted :: bool
  bd_vaPressure :: bool
  bd_target :: u64
  bd_headroom :: u64
  bd_reserve :: u64

definition canGrow :: "AdaptiveBudgetDecision \<Rightarrow> u64 \<Rightarrow> u64 \<Rightarrow> bool" where
  "canGrow d resident bytes \<longleftrightarrow>
     bytes \<noteq> 0 \<and> \<not> bd_vaPressure d \<and> bytes \<le> bd_headroom d \<and>
     bytes \<le> bd_target d \<and> resident \<le> bd_target d - bytes"

text \<open>The default-constructed decision: pressure, nothing granted.\<close>

definition refused_decision :: AdaptiveBudgetDecision where
  "refused_decision =
     \<lparr>bd_trusted = False, bd_vaPressure = True, bd_target = 0, bd_headroom = 0, bd_reserve = 0\<rparr>"

definition budget_trusted :: "AdaptiveBudgetInput \<Rightarrow> bool" where
  "budget_trusted i \<longleftrightarrow>
     in_supported i \<and> in_heapValid i \<and> in_heapSize i \<noteq> 0 \<and> in_budget i \<noteq> 0 \<and>
     in_budget i \<le> in_heapSize i"

definition DecideAdaptiveMemoryBudget :: "AdaptiveBudgetInput \<Rightarrow> AdaptiveBudgetDecision" where
  "DecideAdaptiveMemoryBudget i =
    (if in_pageBytes i = 0 \<or> in_quotaEighths i = 0 \<or> in_quotaEighths i > 8
     then refused_decision
     else
       let vaPressure = (\<not> in_vaValid i \<or> in_availableVA i < 256 * MemoryMiB);
           trusted = budget_trusted i;
           (reserve, headroom, target) =
             (if trusted then
                let reserve = max (512 * MemoryMiB) (in_budget i div 8);
                    free = (if in_budget i > in_committed i
                            then in_budget i - in_committed i else 0);
                    headroom = (if free > reserve then free - reserve else 0);
                    target = min (in_hardCap i) ((in_budget i div 8) * ucast (in_quotaEighths i))
                in (reserve, headroom, if headroom = 0 then 0 else target)
              else
                let target = min (in_fallbackCap i) (in_hardCap i)
                in (0, if target > in_resident i then target - in_resident i else 0, target));
           target = target - target mod in_pageBytes i
       in if vaPressure
          then \<lparr>bd_trusted = trusted, bd_vaPressure = True, bd_target = 0, bd_headroom = 0,
                bd_reserve = reserve\<rparr>
          else \<lparr>bd_trusted = trusted, bd_vaPressure = False, bd_target = target,
                bd_headroom = headroom, bd_reserve = reserve\<rparr>)"

text \<open>
  \<open>SampleShadowMemoryBudget\<close> of \<open>war3_memory_budget_sample.h\<close>: what the operating system
  and the driver report, as a record. \<open>ms_availVirtual\<close> is None when
  \<open>GlobalMemoryStatusEx\<close> fails; a heap is (device local, size, budget, committed).
\<close>

record MemorySample =
  ms_availVirtual :: "u64 option"
  ms_device :: bool
  ms_extMemoryBudget :: bool
  ms_heaps :: "(bool \<times> u64 \<times> u64 \<times> u64) list"

definition SampleShadowMemoryBudget ::
  "MemorySample \<Rightarrow> u32 \<Rightarrow> u64 \<Rightarrow> u64 \<Rightarrow> u64 \<Rightarrow> u64 \<Rightarrow> u32 \<Rightarrow> AdaptiveBudgetInput" where
  "SampleShadowMemoryBudget m heapIndex resident hardCap fallbackCap pageBytes quotaEighths =
    (let supported = ms_device m \<and> ms_extMemoryBudget m;
         (heapValid, heapSize, budget, committed) =
           (if supported \<and> heapIndex \<noteq> UINT32_MAX \<and> unat heapIndex < length (ms_heaps m)
            then ms_heaps m ! unat heapIndex else (False, 0, 0, 0))
     in \<lparr>in_supported = supported, in_heapValid = heapValid,
         in_vaValid = (ms_availVirtual m \<noteq> None),
         in_heapSize = heapSize, in_budget = budget, in_committed = committed,
         in_availableVA = (case ms_availVirtual m of None \<Rightarrow> 0 | Some va \<Rightarrow> va),
         in_resident = resident, in_hardCap = hardCap, in_fallbackCap = fallbackCap,
         in_pageBytes = pageBytes, in_quotaEighths = quotaEighths\<rparr>)"

lemma sample_fields [simp]:
  "in_resident (SampleShadowMemoryBudget m h r hc fc pb q) = r"
  "in_hardCap (SampleShadowMemoryBudget m h r hc fc pb q) = hc"
  "in_fallbackCap (SampleShadowMemoryBudget m h r hc fc pb q) = fc"
  "in_pageBytes (SampleShadowMemoryBudget m h r hc fc pb q) = pb"
  by (simp_all add: SampleShadowMemoryBudget_def Let_def split: prod.splits)

lemma word_minus_mod_le: "(x :: u64) - x mod p \<le> x"
  by (simp add: word_le_nat_alt unat_sub_if' unat_mod)

lemma word_minus_mod_unat: "unat ((x :: u64) - x mod p) = unat x - unat x mod unat p"
  by (simp add: unat_sub_if' unat_mod)

lemma decide_target_le_hardCap: "bd_target (DecideAdaptiveMemoryBudget i) \<le> in_hardCap i"
  by (auto simp: DecideAdaptiveMemoryBudget_def refused_decision_def Let_def
        intro: order_trans [OF word_minus_mod_le])

lemma decide_untrusted_target:
  "\<not> bd_trusted (DecideAdaptiveMemoryBudget i) \<Longrightarrow>
    bd_target (DecideAdaptiveMemoryBudget i) \<le> in_fallbackCap i"
  by (auto simp: DecideAdaptiveMemoryBudget_def refused_decision_def Let_def
        intro: order_trans [OF word_minus_mod_le] split: if_splits)

lemma word_minus_mod_pages: "unat ((x :: u64) - x mod p) mod unat p = 0"
  by (simp only: word_minus_mod_unat) (simp add: minus_mod_eq_mult_div)

lemma decide_target_shape:
  "\<exists>x. bd_target (DecideAdaptiveMemoryBudget i) \<in> {0, x - x mod in_pageBytes i}"
  by (auto simp: DecideAdaptiveMemoryBudget_def refused_decision_def Let_def)

lemma decide_target_pages:
  "unat (bd_target (DecideAdaptiveMemoryBudget i)) mod unat (in_pageBytes i) = 0"
proof -
  obtain x where "bd_target (DecideAdaptiveMemoryBudget i) \<in> {0, x - x mod in_pageBytes i}"
    using decide_target_shape by blast
  then show ?thesis
  proof
    assume "bd_target (DecideAdaptiveMemoryBudget i) \<in> {x - x mod in_pageBytes i}"
    then show ?thesis by (simp only: singleton_iff word_minus_mod_pages)
  qed simp
qed

lemma decide_pressure_target:
  "bd_vaPressure (DecideAdaptiveMemoryBudget i) \<Longrightarrow> bd_target (DecideAdaptiveMemoryBudget i) = 0"
  by (auto simp: DecideAdaptiveMemoryBudget_def refused_decision_def Let_def split: if_splits)

lemma decide_no_pressure:
  "\<not> bd_vaPressure (DecideAdaptiveMemoryBudget i) \<Longrightarrow>
    in_vaValid i \<and> 256 * MemoryMiB \<le> in_availableVA i"
  by (auto simp: DecideAdaptiveMemoryBudget_def refused_decision_def Let_def not_less
        split: if_splits)

lemma decide_trusted_headroom:
  assumes "bd_trusted (DecideAdaptiveMemoryBudget i)"
    and "bytes \<noteq> 0" and "bytes \<le> bd_headroom (DecideAdaptiveMemoryBudget i)"
  shows "unat (in_committed i) + unat bytes + max (512 * 1048576) (unat (in_budget i) div 8)
     \<le> unat (in_budget i)"
proof -
  let ?reserve = "max (512 * MemoryMiB) (in_budget i div 8)"
  have res: "unat ?reserve = max (512 * 1048576) (unat (in_budget i) div 8)"
    by (simp add: unat_max unat_div MemoryMiB_def)
  have h: "bytes \<le> in_budget i - in_committed i - ?reserve \<and> in_committed i < in_budget i \<and>
      ?reserve < in_budget i - in_committed i"
    using assms unat_0_iff
    by (auto simp: DecideAdaptiveMemoryBudget_def refused_decision_def Let_def
          split: if_splits)
  then have "unat bytes \<le> unat (in_budget i) - unat (in_committed i) - unat ?reserve"
    and "unat (in_committed i) < unat (in_budget i)"
    and "unat ?reserve < unat (in_budget i) - unat (in_committed i)"
    by (simp_all add: word_le_nat_alt word_less_nat_alt unat_sub_if' split: if_splits)
  then show ?thesis unfolding res by linarith
qed

lemma canGrow_within:
  "canGrow d resident bytes \<Longrightarrow> unat resident + unat bytes \<le> unat (bd_target d)"
  by (auto simp: canGrow_def intro: unat_add_le_sub)

interpretation adaptive: growth_admission canGrow bd_target
  by unfold_locales (rule canGrow_within)

lemma decide_pressure_no_growth:
  "bd_vaPressure (DecideAdaptiveMemoryBudget i) \<Longrightarrow>
    \<not> canGrow (DecideAdaptiveMemoryBudget i) resident bytes"
  by (simp add: canGrow_def)

text \<open>
  C27. A pool that the budget decision lets grow stays inside its hard cap with a
  sum that does not wrap, only grows with at least 256 MiB of address space left,
  leaves the driver's heap its reserve when the sample is trusted, and stays below
  the fixed fallback cap when it is not.
\<close>

theorem growth_is_safe:
  assumes "canGrow (DecideAdaptiveMemoryBudget i) resident bytes"
  shows "unat (resident + bytes) = unat resident + unat bytes \<and>
    unat resident + unat bytes \<le> unat (in_hardCap i) \<and>
    in_vaValid i \<and> 256 * MemoryMiB \<le> in_availableVA i \<and>
    (if bd_trusted (DecideAdaptiveMemoryBudget i)
     then unat (in_committed i) + unat bytes + max (512 * 1048576) (unat (in_budget i) div 8)
            \<le> unat (in_budget i)
     else unat resident + unat bytes \<le> unat (in_fallbackCap i))"
proof -
  let ?d = "DecideAdaptiveMemoryBudget i"
  have sum: "unat resident + unat bytes \<le> unat (bd_target ?d)"
    using assms by (rule adaptive.admits_within)
  have b: "bytes \<noteq> 0" "bytes \<le> bd_headroom ?d" "\<not> bd_vaPressure ?d"
    using assms by (simp_all add: canGrow_def)
  have "unat (bd_target ?d) \<le> unat (in_hardCap i)"
    using decide_target_le_hardCap [of i] by (simp add: word_le_nat_alt)
  moreover have "\<not> bd_trusted ?d \<Longrightarrow> unat (bd_target ?d) \<le> unat (in_fallbackCap i)"
    using decide_untrusted_target [of i] by (simp add: word_le_nat_alt)
  ultimately show ?thesis
    using sum adaptive.grown_exact [OF assms] decide_no_pressure [OF b(3)]
      decide_trusted_headroom [OF _ b(1,2)] by auto
qed

definition example_input :: AdaptiveBudgetInput where
  "example_input =
    \<lparr>in_supported = True, in_heapValid = True, in_vaValid = True,
     in_heapSize = 8192 * MemoryMiB, in_budget = 8192 * MemoryMiB,
     in_committed = 1024 * MemoryMiB, in_availableVA = 1024 * MemoryMiB,
     in_resident = 64 * MemoryMiB, in_hardCap = 512 * MemoryMiB,
     in_fallbackCap = 128 * MemoryMiB, in_pageBytes = 16 * MemoryMiB, in_quotaEighths = 1\<rparr>"

lemma growth_is_safe_witness:
  "canGrow (DecideAdaptiveMemoryBudget example_input) (64 * MemoryMiB) (16 * MemoryMiB) \<and>
   unat (64 * MemoryMiB) + unat (16 * MemoryMiB) \<le> unat (in_hardCap example_input)"
proof -
  have g: "canGrow (DecideAdaptiveMemoryBudget example_input) (64 * MemoryMiB) (16 * MemoryMiB)"
    by code_simp
  then show ?thesis using growth_is_safe [OF g] by blast
qed

text \<open>
  The per-frame negative cache refuses a request exactly when a request of at
  most its size was refused since the last refusal of another frame.
\<close>

theorem retry_gate_characterised:
  "gate_refused (gate_after rs) f bytes \<longleftrightarrow>
    (\<exists>p \<in> set (takeWhile (\<lambda>p. fst p = f) rs). snd p \<le> bytes)"
  by (rule gate_after_refused)

subsection \<open>The resident limit of the arena\<close>

definition kShadowArenaFixedResidentLimitBytes :: u64 where
  "kShadowArenaFixedResidentLimitBytes = 1152 * 1024 * 1024"

record ShadowArenaMemoryBudgetPolicy =
  pol_supported :: bool
  pol_trusted :: bool
  pol_heapSizeBytes :: u64
  pol_heapBudgetBytes :: u64
  pol_heapAllocatedBytes :: u64
  pol_availableBytes :: u64
  pol_proportionalLimitBytes :: u64
  pol_reserveLimitBytes :: u64
  pol_fixedResidentLimitBytes :: u64
  pol_effectiveResidentLimitBytes :: u64

definition ResolveShadowArenaMemoryBudget ::
  "AdaptiveBudgetInput \<Rightarrow> ShadowArenaMemoryBudgetPolicy" where
  "ResolveShadowArenaMemoryBudget i =
    (let adaptive = DecideAdaptiveMemoryBudget i;
         growthLimit =
           (if in_resident i > UINT64_MAX - bd_headroom adaptive then UINT64_MAX
            else in_resident i + bd_headroom adaptive)
     in \<lparr>pol_supported = in_supported i,
         pol_trusted = bd_trusted adaptive,
         pol_heapSizeBytes = in_heapSize i,
         pol_heapBudgetBytes = in_budget i,
         pol_heapAllocatedBytes = in_committed i,
         pol_availableBytes =
           (if in_budget i > in_committed i then in_budget i - in_committed i else 0),
         pol_proportionalLimitBytes =
           (if bd_trusted adaptive then (in_budget i div 8) * ucast (in_quotaEighths i) else 0),
         pol_reserveLimitBytes = bd_headroom adaptive,
         pol_fixedResidentLimitBytes = in_hardCap i,
         pol_effectiveResidentLimitBytes = min (bd_target adaptive) growthLimit\<rparr>)"

definition ShadowArenaCanGrowResident :: "u64 \<Rightarrow> u64 \<Rightarrow> u64 \<Rightarrow> bool" where
  "ShadowArenaCanGrowResident residentBytes growthBytes effectiveResidentLimitBytes \<longleftrightarrow>
     growthBytes \<le> effectiveResidentLimitBytes \<and>
     residentBytes \<le> effectiveResidentLimitBytes - growthBytes"

definition ShadowArenaGrowthHeadroom :: "u64 \<Rightarrow> u64 \<Rightarrow> u64" where
  "ShadowArenaGrowthHeadroom residentBytes effectiveResidentLimitBytes =
     (if residentBytes < effectiveResidentLimitBytes
      then effectiveResidentLimitBytes - residentBytes else 0)"

lemma ShadowArenaCanGrowResident_nat:
  "ShadowArenaCanGrowResident r g l \<longleftrightarrow> unat r + unat g \<le> unat l"
  by (auto simp: ShadowArenaCanGrowResident_def word_le_nat_alt unat_sub_if')

interpretation arena_resident: growth_admission "\<lambda>l r g. ShadowArenaCanGrowResident r g l" "\<lambda>l. l"
  by unfold_locales (simp add: ShadowArenaCanGrowResident_nat)

lemma headroom_admits:
  "g \<noteq> 0 \<Longrightarrow> ShadowArenaCanGrowResident r g l \<longleftrightarrow> g \<le> ShadowArenaGrowthHeadroom r l"
  by (auto simp: ShadowArenaCanGrowResident_nat ShadowArenaGrowthHeadroom_def word_le_nat_alt
        word_less_nat_alt unat_sub_if' unat_eq_iff)

lemma saturated_limit:
  fixes r h :: u64
  shows "unat (if r > UINT64_MAX - h then UINT64_MAX else r + h) =
    min (unat UINT64_MAX) (unat r + unat h)"
  using unat_u64_bound [of r] unat_u64_bound [of h]
  by (auto simp: word_nat simp del: unat_u64_bound split: if_splits)

text \<open>
  The limit the arena publishes admits exactly the growth the budget decision
  admits at the sampled residency.
\<close>

theorem arena_limit_admits_what_the_decision_admits:
  assumes "growth \<noteq> 0"
  shows "ShadowArenaCanGrowResident (in_resident i) growth
      (pol_effectiveResidentLimitBytes (ResolveShadowArenaMemoryBudget i)) \<longleftrightarrow>
    canGrow (DecideAdaptiveMemoryBudget i) (in_resident i) growth"
proof -
  let ?d = "DecideAdaptiveMemoryBudget i"
  let ?l = "pol_effectiveResidentLimitBytes (ResolveShadowArenaMemoryBudget i)"
  have limit: "unat ?l =
      min (unat (bd_target ?d)) (min (unat UINT64_MAX) (unat (in_resident i) + unat (bd_headroom ?d)))"
    by (simp only: ResolveShadowArenaMemoryBudget_def Let_def
          ShadowArenaMemoryBudgetPolicy.simps unat_min saturated_limit)
  have "canGrow ?d (in_resident i) growth \<longleftrightarrow>
      \<not> bd_vaPressure ?d \<and> unat growth \<le> unat (bd_headroom ?d) \<and>
      unat (in_resident i) + unat growth \<le> unat (bd_target ?d)"
    using assms by (auto simp: canGrow_def word_le_nat_alt unat_sub_if')
  moreover have "bd_vaPressure ?d \<Longrightarrow> unat (bd_target ?d) = 0"
    by (simp add: decide_pressure_target)
  moreover have "unat growth \<noteq> 0" using assms by (simp add: unat_eq_iff)
  moreover have "unat (bd_target ?d) \<le> unat UINT64_MAX"
    using unat_u64_bound [of "bd_target ?d"] unfolding unat_UINT64_MAX by linarith
  ultimately show ?thesis
    unfolding ShadowArenaCanGrowResident_nat limit by auto
qed

lemma arena_limit_admits_what_the_decision_admits_witness:
  "ShadowArenaCanGrowResident (in_resident example_input) MemoryMiB
      (pol_effectiveResidentLimitBytes (ResolveShadowArenaMemoryBudget example_input))"
proof -
  have "canGrow (DecideAdaptiveMemoryBudget example_input) (in_resident example_input) MemoryMiB"
    by code_simp
  moreover have "MemoryMiB \<noteq> 0" by code_simp
  ultimately show ?thesis
    using arena_limit_admits_what_the_decision_admits [of MemoryMiB example_input] by blast
qed

subsection \<open>Shrinking a retired generation\<close>

record ArenaTrimHistory =
  trim_windowStart :: u64
  trim_peak :: u64

definition trim_init :: ArenaTrimHistory where
  "trim_init = \<lparr>trim_windowStart = 0, trim_peak = 0\<rparr>"

definition ArenaTrimHistory_target ::
  "ArenaTrimHistory \<Rightarrow> u64 \<Rightarrow> u64 \<Rightarrow> u64 \<Rightarrow> u64 \<Rightarrow> bool \<Rightarrow> u64 \<times> ArenaTrimHistory" where
  "ArenaTrimHistory_target h f used capacity pageBytes pressure =
    (let peak = max (trim_peak h) used;
         windowStart = (if trim_windowStart h = 0 \<or> f < trim_windowStart h then f
                        else trim_windowStart h)
     in if \<not> pressure \<and> f - windowStart < 120
        then (capacity, \<lparr>trim_windowStart = windowStart, trim_peak = peak\<rparr>)
        else
          let demand = (if pressure then used else peak);
              pages = demand div pageBytes + (if demand mod pageBytes \<noteq> 0 then 1 else 0);
              keep = min capacity ((pages + 1) * pageBytes);
              h' = (if f - windowStart \<ge> 120 then \<lparr>trim_windowStart = f, trim_peak = 0\<rparr>
                    else \<lparr>trim_windowStart = windowStart, trim_peak = peak\<rparr>)
          in (if keep < capacity then max keep (capacity - pageBytes) else capacity, h'))"

lemma ceil_pages_nat:
  fixes d p :: nat
  assumes "0 < p"
  shows "d \<le> (d div p + (if d mod p \<noteq> 0 then 1 else 0)) * p"
    and "(d div p + (if d mod p \<noteq> 0 then 1 else 0)) * p < d + p"
proof -
  define q r where "q = d div p" and "r = d mod p"
  have "d = q * p + r" "r < p" using assms by (simp_all add: q_def r_def)
  then show "d \<le> (d div p + (if d mod p \<noteq> 0 then 1 else 0)) * p"
    and "(d div p + (if d mod p \<noteq> 0 then 1 else 0)) * p < d + p"
    unfolding q_def [symmetric] r_def [symmetric] by auto
qed

text \<open>The pages kept, rounded up with one page to spare, do not wrap for a demand below the bound.\<close>

lemma trim_keep_unat:
  fixes d p :: u64
  assumes "p \<noteq> 0" and "unat d + 2 * unat p < 2 ^ 64"
  shows "unat ((d div p + (if d mod p \<noteq> 0 then 1 else 0) + 1) * p) =
    (unat d div unat p + (if unat d mod unat p \<noteq> 0 then 1 else 0) + 1) * unat p"
proof -
  let ?n = "unat d div unat p + (if unat d mod unat p \<noteq> 0 then 1 else 0) + 1"
  have p: "0 < unat p" using assms(1) by (simp add: unat_eq_iff)
  have "?n * unat p < unat d + 2 * unat p"
    using ceil_pages_nat(2) [OF p, of "unat d"] by (simp only: add_mult_distrib mult_1)
  then have small: "?n * unat p < 2 ^ 64" using assms(2) by linarith
  have "?n * 1 \<le> ?n * unat p" using p by (intro mult_le_mono) auto
  then have n: "?n < 2 ^ 64" using small unfolding mult_1_right by (rule order_le_less_trans)
  then have n': "?n < 2 ^ LENGTH(64)" by simp
  have "d div p + (if d mod p \<noteq> 0 then 1 else 0) + 1 = word_of_nat ?n"
    by (auto simp: unat_eq_iff [of "d mod p"] unat_mod word_arith_nat_div)
  then have x: "unat (d div p + (if d mod p \<noteq> 0 then 1 else 0) + 1) = ?n"
    by (simp only: unat_of_nat mod_less [OF n'])
  show ?thesis
    using small unat_mult_lem [of "d div p + (if d mod p \<noteq> 0 then 1 else 0) + 1" p]
    unfolding x by simp
qed

lemma trim_target_bounds:
  fixes d p c :: u64
  assumes "p \<noteq> 0" and "unat d + 2 * unat p < 2 ^ 64"
  defines "keep \<equiv> min c ((d div p + (if d mod p \<noteq> 0 then 1 else 0) + 1) * p)"
  defines "t \<equiv> if keep < c then max keep (c - p) else c"
  shows "unat t \<le> unat c" and "unat c \<le> unat t + unat p" and "min (unat c) (unat d) \<le> unat t"
    and "min (unat c) (unat d + unat p) \<le> unat t"
proof -
  have p: "0 < unat p" using assms(1) by (simp add: unat_eq_iff)
  let ?k = "(unat d div unat p + (if unat d mod unat p \<noteq> 0 then 1 else 0) + 1) * unat p"
  have k: "unat keep = min (unat c) ?k"
    unfolding keep_def by (simp only: unat_min trim_keep_unat [OF assms(1,2)])
  have dk: "unat d + unat p \<le> ?k"
    using ceil_pages_nat(1) [OF p, of "unat d"] by (simp only: add_mult_distrib mult_1)
  have t: "unat t = (if unat keep < unat c then max (unat keep) (unat c - unat p) else unat c)"
  proof (cases "keep < c")
    case True
    then have "p \<le> c" using k dk by (auto simp: word_less_nat_alt word_le_nat_alt)
    then show ?thesis using True
      by (simp add: t_def unat_max unat_sub word_less_nat_alt)
  qed (simp add: t_def word_less_nat_alt)
  show "unat t \<le> unat c" "unat c \<le> unat t + unat p" "min (unat c) (unat d) \<le> unat t"
      "min (unat c) (unat d + unat p) \<le> unat t"
    unfolding t using k dk by auto
qed

text \<open>Observations without pressure inside one window only accumulate the peak.\<close>

fun trim_observe ::
  "ArenaTrimHistory \<Rightarrow> u64 \<Rightarrow> u64 \<Rightarrow> (u64 \<times> u64) list \<Rightarrow> u64 list \<times> ArenaTrimHistory" where
  "trim_observe h capacity pageBytes [] = ([], h)"
| "trim_observe h capacity pageBytes ((f, used) # os) =
    (let (t, h') = ArenaTrimHistory_target h f used capacity pageBytes False;
         (ts, h'') = trim_observe h' capacity pageBytes os
     in (t # ts, h''))"

lemma trim_observe_window:
  assumes "trim_windowStart h = w" and "w \<noteq> 0"
    and "\<forall>(f, used) \<in> set os. w \<le> f \<and> f - w < 120"
  shows "trim_observe h c p os =
    (replicate (length os) c,
     \<lparr>trim_windowStart = w, trim_peak = fold (\<lambda>(f, used) m. max m used) os (trim_peak h)\<rparr>)"
  using assms
proof (induction os arbitrary: h)
  case (Cons o1 os)
  obtain f used where o1: "o1 = (f, used)" by (cases o1)
  have t: "ArenaTrimHistory_target h f used c p False =
      (c, \<lparr>trim_windowStart = w, trim_peak = max (trim_peak h) used\<rparr>)"
    using Cons.prems by (auto simp: ArenaTrimHistory_target_def Let_def o1)
  show ?case
    using Cons.prems Cons.IH [of "\<lparr>trim_windowStart = w, trim_peak = max (trim_peak h) used\<rparr>"]
    by (simp add: o1 t)
qed (cases h, simp)

lemma fold_max_ge: "m \<le> fold (\<lambda>(f, used) m. max m used) os (m :: u64)"
proof (induction os arbitrary: m)
  case (Cons o1 os)
  then show ?case
    using order_trans [OF max.cobounded1 Cons.IH] by (cases o1) simp
qed simp

lemma fold_max_upper:
  "(f, used) \<in> set os \<Longrightarrow> used \<le> fold (\<lambda>(f, used) m. max m used) os (m :: u64)"
proof (induction os arbitrary: m)
  case (Cons o1 os)
  then show ?case
    using order_trans [OF max.cobounded2 fold_max_ge] by (cases o1) auto
qed simp

lemma fold_max_mem:
  "fold (\<lambda>(f, used) m. max m used) os (m :: u64) \<in> insert m (snd ` set os)"
proof (induction os arbitrary: m)
  case (Cons o1 os)
  then show ?case using Cons.IH [of "max m (snd o1)"] by (cases o1) (auto simp: max_def)
qed simp

lemma trim_target_late:
  assumes "trim_windowStart h \<noteq> 0" and "trim_windowStart h \<le> g" and "120 \<le> g - trim_windowStart h"
  shows "ArenaTrimHistory_target h g now c p False =
    (let peak = max (trim_peak h) now;
         keep = min c ((peak div p + (if peak mod p \<noteq> 0 then 1 else 0) + 1) * p)
     in (if keep < c then max keep (c - p) else c, \<lparr>trim_windowStart = g, trim_peak = 0\<rparr>))"
proof -
  have "\<not> g < trim_windowStart h" "\<not> g - trim_windowStart h < 120"
    using assms(2,3) by (simp_all add: not_less)
  then show ?thesis
    using assms by (simp only: ArenaTrimHistory_target_def Let_def simp_thms if_False if_True)
qed

text \<open>
  Without pressure a window of 120 frames keeps the whole capacity; the first
  decision after it gives back at most one page and never less than the demand of
  any frame of the window (or the capacity, if that is smaller).
\<close>

theorem trim_keeps_window_demand:
  assumes "trim_windowStart h = w" and "w \<noteq> 0" and "p \<noteq> 0"
    and "\<forall>(f, used) \<in> set os. w \<le> f \<and> f - w < 120"
    and "w \<le> g" and "120 \<le> g - w"
    and "\<forall>x \<in> {now, trim_peak h} \<union> snd ` set os. unat x + 2 * unat p < 2 ^ 64"
  shows "fst (trim_observe h c p os) = replicate (length os) c \<and>
    (let (t, h') = ArenaTrimHistory_target (snd (trim_observe h c p os)) g now c p False
     in unat t \<le> unat c \<and> unat c \<le> unat t + unat p \<and>
        (\<forall>used \<in> insert now (snd ` set os). min (unat c) (unat used) \<le> unat t) \<and>
        h' = \<lparr>trim_windowStart = g, trim_peak = 0\<rparr>)"
proof -
  define m where "m = fold (\<lambda>(f, used) m. max m used) os (trim_peak h)"
  let ?peak = "max m now"
  have obs: "trim_observe h c p os =
      (replicate (length os) c, \<lparr>trim_windowStart = w, trim_peak = m\<rparr>)"
    unfolding m_def using assms(1,2,4) by (rule trim_observe_window)
  have small: "unat ?peak + 2 * unat p < 2 ^ 64"
    using assms(7) fold_max_mem [of os "trim_peak h"] by (auto simp: m_def max_def)
  note b = trim_target_bounds [OF assms(3) small, of c]
  have ups: "unat used \<le> unat ?peak" if "used \<in> insert now (snd ` set os)" for used
    using that fold_max_upper [of _ used os "trim_peak h"]
    by (auto simp: m_def unat_max word_le_nat_alt le_max_iff_disj)
  have t: "ArenaTrimHistory_target (snd (trim_observe h c p os)) g now c p False =
      (let keep = min c ((?peak div p + (if ?peak mod p \<noteq> 0 then 1 else 0) + 1) * p)
       in (if keep < c then max keep (c - p) else c, \<lparr>trim_windowStart = g, trim_peak = 0\<rparr>))"
    unfolding obs snd_conv
    by (rule trim_target_late [THEN trans])
      (simp_all only: ArenaTrimHistory.simps assms(2,5,6) Let_def not_False_eq_True)
  show ?thesis
    unfolding t unfolding Let_def prod.case obs fst_conv
    by (intro conjI ballI refl b(1,2) order_trans [OF min.mono [OF order_refl ups] b(3)])
qed

lemma trim_keeps_window_demand_witness:
  "let (t, h') = ArenaTrimHistory_target
      (snd (trim_observe \<lparr>trim_windowStart = 1, trim_peak = 0\<rparr> 64 16 [(1, 20), (2, 5)])) 121 3 64 16 False
   in t = 48 \<and> min 64 20 \<le> unat t"
  using trim_keeps_window_demand [of "\<lparr>trim_windowStart = 1, trim_peak = 0\<rparr>" 1 16
      "[(1, 20), (2, 5)]" 121 3 64]
  by (simp add: ArenaTrimHistory_target_def)

subsection \<open>The lease of an arena generation\<close>

record ShadowArenaGenerationLease =
  lease_frameSerial :: u64
  lease_retireSerial :: u64
  lease_allocatable :: bool

definition lease_init :: ShadowArenaGenerationLease where
  "lease_init = \<lparr>lease_frameSerial = 0, lease_retireSerial = 0, lease_allocatable = False\<rparr>"

definition ShadowArenaGenerationCanBeReused :: "u64 \<Rightarrow> u64 \<Rightarrow> bool" where
  "ShadowArenaGenerationCanBeReused retireSerial completedSerial \<longleftrightarrow>
     retireSerial \<le> completedSerial"

definition ShadowArenaQuarantineGeneration ::
  "ShadowArenaGenerationLease \<Rightarrow> u64 \<Rightarrow> bool \<times> ShadowArenaGenerationLease" where
  "ShadowArenaQuarantineGeneration l retireSerial =
    (if \<not> lease_allocatable l \<or> lease_frameSerial l = 0 \<or> retireSerial = 0 then (False, l)
     else (True, l\<lparr>lease_retireSerial := retireSerial, lease_allocatable := False\<rparr>))"

definition ShadowArenaTryAcquireGeneration ::
  "ShadowArenaGenerationLease \<Rightarrow> u64 \<Rightarrow> u64 \<Rightarrow> bool \<times> ShadowArenaGenerationLease" where
  "ShadowArenaTryAcquireGeneration l frameSerial completedSerial =
    (if frameSerial = 0 \<or> lease_allocatable l \<or>
        \<not> ShadowArenaGenerationCanBeReused (lease_retireSerial l) completedSerial
     then (False, l)
     else (True, l\<lparr>lease_frameSerial := frameSerial, lease_retireSerial := 0,
                    lease_allocatable := True\<rparr>))"

datatype lease_event = Acquire u64 u64 | Quarantine u64

inductive lease_step ::
  "ShadowArenaGenerationLease \<Rightarrow> lease_event \<Rightarrow> ShadowArenaGenerationLease \<Rightarrow> bool" where
  acquired: "ShadowArenaTryAcquireGeneration l f c = (r, l') \<Longrightarrow> lease_step l (Acquire f c) l'"
| quarantined: "ShadowArenaQuarantineGeneration l s = (r, l') \<Longrightarrow> lease_step l (Quarantine s) l'"

inductive_cases lease_step_cases: "lease_step l e l'"

inductive lease_steps ::
  "ShadowArenaGenerationLease \<Rightarrow> lease_event list \<Rightarrow> ShadowArenaGenerationLease \<Rightarrow> bool" where
  lease_none: "lease_steps l [] l"
| lease_more: "lease_step l e l' \<Longrightarrow> lease_steps l' es l'' \<Longrightarrow> lease_steps l (e # es) l''"

lemma lease_step_quarantined:
  assumes "lease_step l e l'" and "\<not> lease_allocatable l"
    and "\<And>f c. e = Acquire f c \<Longrightarrow> c < lease_retireSerial l"
  shows "l' = l"
  using assms
  by (auto elim!: lease_step_cases simp: ShadowArenaTryAcquireGeneration_def
      ShadowArenaQuarantineGeneration_def ShadowArenaGenerationCanBeReused_def split: if_splits)

lemma lease_steps_quarantined:
  assumes "lease_steps l es l'" and "\<not> lease_allocatable l"
    and "\<And>f c. Acquire f c \<in> set es \<Longrightarrow> c < lease_retireSerial l"
  shows "l' = l"
  using assms
proof (induction rule: lease_steps.induct)
  case (lease_more l e l' es l'')
  have "l' = l" 
    by (rule lease_step_quarantined [OF lease_more.hyps(1) lease_more.prems(1)])
      (metis lease_more.prems(2) list.set_intros(1))
  then show ?case using lease_more.IH lease_more.prems by auto
qed simp

text \<open>
  A generation quarantined behind a submission serial is handed out again only
  by an acquisition that presents a completed serial at least as large: until then
  every attempt, and every further quarantine, leaves the lease as it is.
\<close>

theorem quarantined_generation_waits_for_completion:
  assumes "ShadowArenaQuarantineGeneration l0 s = (True, l1)"
    and "lease_steps l1 es l2"
    and "\<forall>f c. Acquire f c \<in> set es \<longrightarrow> c < s"
    and "ShadowArenaTryAcquireGeneration l2 f c = (ok, l3)"
  shows "l2 = l1 \<and> (ok \<longleftrightarrow> f \<noteq> 0 \<and> s \<le> c) \<and> (\<not> ok \<longrightarrow> l3 = l1)"
proof -
  have l1: "\<not> lease_allocatable l1" "lease_retireSerial l1 = s"
    using assms(1) by (auto simp: ShadowArenaQuarantineGeneration_def split: if_splits)
  have l2: "l2 = l1" using lease_steps_quarantined [OF assms(2)] assms(3) l1 by auto
  then show ?thesis
    using assms(4) l1 by (auto simp: ShadowArenaTryAcquireGeneration_def
        ShadowArenaGenerationCanBeReused_def split: if_splits)
qed

lemma quarantined_generation_waits_for_completion_witness:
  "fst (ShadowArenaTryAcquireGeneration
      \<lparr>lease_frameSerial = 4, lease_retireSerial = 9, lease_allocatable = False\<rparr> 5 9)"
  (is "fst (ShadowArenaTryAcquireGeneration ?l 5 9)")
proof -
  let ?held = "\<lparr>lease_frameSerial = 4, lease_retireSerial = 0, lease_allocatable = True\<rparr>"
  have q: "ShadowArenaQuarantineGeneration ?held 9 = (True, ?l)"
    by code_simp
  have "lease_step ?l (Acquire 5 8) ?l"
    by (rule acquired [where r = False]) code_simp
  then have s: "lease_steps ?l [Acquire 5 8] ?l" by (rule lease_more [OF _ lease_none])
  obtain ok l3 where t: "ShadowArenaTryAcquireGeneration ?l 5 9 = (ok, l3)"
    by (cases "ShadowArenaTryAcquireGeneration ?l 5 9")
  have a: "\<forall>f c. Acquire f c \<in> set [Acquire 5 8] \<longrightarrow> c < 9" by simp
  show ?thesis
    using quarantined_generation_waits_for_completion [OF q s a t] unfolding t by simp
qed

end
