(* ===== verification/Allocators.thy ===== *)
theory Allocators
  imports War3Prelude
begin

section \<open>The interface of the bump allocators\<close>

text \<open>
  Snapshot pages and arena generations both hand out storage by moving a cursor.
  The interface is one planning function over (cursor, capacity, request); what its
  callers need is that a granted slice starts at or behind the cursor, that the new
  cursor is its end, and that the end is within the capacity. Everything about
  sequences of grants follows from that, once, here.
\<close>

fun bump_run ::
  "(u64 \<Rightarrow> u64 \<Rightarrow> 'r \<Rightarrow> (u64 \<times> u64 \<times> u64) option) \<Rightarrow> u64 \<Rightarrow> u64 \<Rightarrow> 'r list \<Rightarrow> interval list \<times> u64"
where
  "bump_run plan capacity used [] = ([], used)"
| "bump_run plan capacity used (r # rs) =
    (case plan used capacity r of
       None \<Rightarrow> bump_run plan capacity used rs
     | Some (offset, bytes, nextUsed) \<Rightarrow>
         (let (ivs, used') = bump_run plan capacity nextUsed rs
          in ((unat offset, unat offset + unat bytes) # ivs, used')))"

locale bump_allocator =
  fixes plan :: "u64 \<Rightarrow> u64 \<Rightarrow> 'r \<Rightarrow> (u64 \<times> u64 \<times> u64) option"
  assumes plan_bounds: "plan used capacity r = Some (offset, bytes, nextUsed) \<Longrightarrow>
    unat used \<le> unat offset \<and> unat offset + unat bytes = unat nextUsed \<and>
    unat nextUsed \<le> unat capacity"
begin

lemma run_cursor:
  "bump_run plan capacity used rs = (ivs, used') \<Longrightarrow> unat used \<le> unat used'"
proof (induction rs arbitrary: used ivs)
  case (Cons r rs)
  then show ?case
    by (fastforce split: option.splits prod.splits dest: plan_bounds intro: order_trans)
qed simp

lemma run_capacity:
  "bump_run plan capacity used rs = (ivs, used') \<Longrightarrow> unat used \<le> unat capacity \<Longrightarrow>
    unat used' \<le> unat capacity"
proof (induction rs arbitrary: used ivs)
  case (Cons r rs)
  then show ?case
    by (fastforce split: option.splits prod.splits dest: plan_bounds)
qed simp

lemma run_within:
  "bump_run plan capacity used rs = (ivs, used') \<Longrightarrow> iv \<in> set ivs \<Longrightarrow>
    unat used \<le> fst iv \<and> fst iv \<le> snd iv \<and> snd iv \<le> unat used'"
proof (induction rs arbitrary: used ivs)
  case (Cons r rs)
  show ?case
  proof (cases "plan used capacity r")
    case None
    then show ?thesis using Cons by simp
  next
    case (Some p)
    obtain offset bytes nextUsed where p: "p = (offset, bytes, nextUsed)" by (cases p)
    obtain ivs' where run: "bump_run plan capacity nextUsed rs = (ivs', used')"
      and ivs: "ivs = (unat offset, unat offset + unat bytes) # ivs'"
      using Cons.prems(1) by (auto simp: Some p split: prod.splits)
    have b: "unat used \<le> unat offset" "unat offset + unat bytes = unat nextUsed"
      using plan_bounds Some p by auto
    show ?thesis
      using Cons.prems(2) Cons.IH [OF run] b run_cursor [OF run] by (auto simp: ivs)
  qed
qed simp

lemma run_ordered:
  "bump_run plan capacity used rs = (ivs, used') \<Longrightarrow> sorted_wrt (\<lambda>p q. snd p \<le> fst q) ivs"
proof (induction rs arbitrary: used ivs)
  case (Cons r rs)
  show ?case
  proof (cases "plan used capacity r")
    case None
    then show ?thesis using Cons by simp
  next
    case (Some p)
    obtain offset bytes nextUsed where p: "p = (offset, bytes, nextUsed)" by (cases p)
    obtain ivs' where run: "bump_run plan capacity nextUsed rs = (ivs', used')"
      and ivs: "ivs = (unat offset, unat offset + unat bytes) # ivs'"
      using Cons.prems(1) by (auto simp: Some p split: prod.splits)
    show ?thesis
      using Cons.IH [OF run] run_within [OF run] plan_bounds Some p by (auto simp: ivs)
  qed
qed simp

lemma run_disjoint:
  assumes "bump_run plan capacity used rs = (ivs, used')" and "i < j" and "j < length ivs"
  shows "disjoint_iv (ivs ! i) (ivs ! j)"
  using sorted_wrt_nth_less [OF run_ordered [OF assms(1)] assms(2,3)]
  by (simp add: disjoint_iv_def)

end

subsection \<open>A log of slices\<close>

text \<open>
  An allocator whose slices do not lie in one page still hands them out in the order of
  some linear address. The interface is where a slice was placed, the address of the
  cursor, and the relation by which the allocator grows without moving what it placed.
\<close>

definition log_ok ::
  "('g \<Rightarrow> 'a \<Rightarrow> interval \<Rightarrow> bool) \<Rightarrow> ('g \<Rightarrow> nat) \<Rightarrow> 'g \<Rightarrow> 'a list \<Rightarrow> bool" where
  "log_ok placed pos g as \<longleftrightarrow>
     (\<exists>ivs. list_all2 (placed g) as ivs \<and> sorted_wrt (\<lambda>p q. snd p \<le> fst q) ivs \<and>
        (\<forall>iv \<in> set ivs. snd iv \<le> pos g))"

locale slice_log =
  fixes placed :: "'g \<Rightarrow> 'a \<Rightarrow> interval \<Rightarrow> bool"
    and pos :: "'g \<Rightarrow> nat"
    and grows :: "'g \<Rightarrow> 'g \<Rightarrow> bool"
  assumes placed_grows: "grows g g' \<Longrightarrow> placed g a iv \<Longrightarrow> placed g' a iv"
begin

lemma log_empty: "log_ok placed pos g []"
  by (simp add: log_ok_def)

lemma log_grow:
  assumes "log_ok placed pos g as" and "grows g g'" and "pos g \<le> pos g'"
  shows "log_ok placed pos g' as"
  using assms(1) list_all2_mono [of "placed g" as _ "placed g'"] placed_grows [OF assms(2)] assms(3)
  unfolding log_ok_def by (meson order_trans)

lemma log_grant:
  assumes "log_ok placed pos g as" and "grows g g'" and "placed g' a iv"
    and "pos g \<le> fst iv" and "fst iv \<le> snd iv" and "snd iv \<le> pos g'"
  shows "log_ok placed pos g' (as @ [a])"
proof -
  obtain ivs where ivs: "list_all2 (placed g) as ivs" "sorted_wrt (\<lambda>p q. snd p \<le> fst q) ivs"
      "\<forall>iv \<in> set ivs. snd iv \<le> pos g"
    using assms(1) by (auto simp: log_ok_def)
  have "list_all2 (placed g') (as @ [a]) (ivs @ [iv])"
    using list_all2_mono [OF ivs(1)] placed_grows [OF assms(2)] assms(3)
    by (auto intro!: list_all2_appendI)
  moreover have "sorted_wrt (\<lambda>p q. snd p \<le> fst q) (ivs @ [iv])"
    using ivs(2,3) assms(4) by (auto simp: sorted_wrt_append intro: order_trans)
  moreover have "\<forall>iv \<in> set (ivs @ [iv]). snd iv \<le> pos g'"
    using ivs(3) assms(4-6) by (auto intro: order_trans)
  ultimately show ?thesis unfolding log_ok_def by blast
qed

lemma log_disjoint:
  assumes "log_ok placed pos g as" and "i < j" and "j < length as"
  shows "\<exists>p q. placed g (as ! i) p \<and> placed g (as ! j) q \<and> disjoint_iv p q"
proof -
  obtain ivs where ivs: "list_all2 (placed g) as ivs" "sorted_wrt (\<lambda>p q. snd p \<le> fst q) ivs"
    using assms(1) by (auto simp: log_ok_def)
  have "placed g (as ! i) (ivs ! i)" "placed g (as ! j) (ivs ! j)"
    using ivs(1) assms(2,3) by (simp_all add: list_all2_conv_all_nth)
  moreover have "disjoint_iv (ivs ! i) (ivs ! j)"
    using sorted_wrt_nth_less [OF ivs(2) assms(2)] assms(3) list_all2_lengthD [OF ivs(1)]
    by (simp add: disjoint_iv_def)
  ultimately show ?thesis by blast
qed

lemma log_placed:
  assumes "log_ok placed pos g as" and "a \<in> set as"
  shows "\<exists>iv. placed g a iv \<and> snd iv \<le> pos g"
  using assms unfolding log_ok_def
  by (metis in_set_conv_nth list_all2_conv_all_nth)

end

end
