(* ===== verification/SnapshotPages.thy ===== *)
theory SnapshotPages
  imports Allocators AdaptiveBudget
begin

section \<open>Snapshot pages: sizes, suballocation, publication\<close>

text \<open>
  \<open>src/src/d3d9/war3/render/war3_stage11_snapshot_page_policy.h\<close>: the alignment and
  page arithmetic of the snapshot pool, the planning of a tail suballocation, the
  admission of a new page under the resident cap and the transaction that publishes
  one. The process environment and the factory of the page are inputs.
\<close>

subsection \<open>Constants and the configurable cap\<close>

definition kWar3Stage11SnapshotAlignment :: u64 where
  "kWar3Stage11SnapshotAlignment = 256"

definition kWar3Stage11SnapshotResidentCapBytes :: u64 where
  "kWar3Stage11SnapshotResidentCapBytes = push_bit 20 384"

definition kWar3Stage11SnapshotPageBytes :: u64 where
  "kWar3Stage11SnapshotPageBytes = push_bit 20 16"

definition kWar3Stage11SnapshotResidentCapMinBytes :: u64 where
  "kWar3Stage11SnapshotResidentCapMinBytes = push_bit 20 128"

definition kWar3Stage11SnapshotResidentCapMaxBytes :: u64 where
  "kWar3Stage11SnapshotResidentCapMaxBytes = push_bit 20 512"

text \<open>
  \<open>std::atol\<close>: white space, an optional sign, decimal digits; the value is
  limited to the 32-bit \<open>long\<close> of the platform.
\<close>

definition is_digit :: "char \<Rightarrow> bool" where
  "is_digit c \<longleftrightarrow> of_char c \<ge> (48 :: nat) \<and> of_char c \<le> (57 :: nat)"

definition is_space :: "char \<Rightarrow> bool" where
  "is_space c \<longleftrightarrow> of_char c = (32 :: nat) \<or> (of_char c \<ge> (9 :: nat) \<and> of_char c \<le> (13 :: nat))"

definition digits_value :: "string \<Rightarrow> int" where
  "digits_value s = foldl (\<lambda>n c. 10 * n + (int (of_char c) - 48)) 0 (takeWhile is_digit s)"

definition atol :: "string \<Rightarrow> int" where
  "atol s =
    (let t = dropWhile is_space s;
         n = (case t of
                [] \<Rightarrow> 0
              | c # cs \<Rightarrow> if c = CHR ''-'' then - digits_value cs
                          else if c = CHR ''+'' then digits_value cs else digits_value t)
     in max (- (2 ^ 31)) (min (2 ^ 31 - 1) n))"

text \<open>The argument is \<open>getenv("DXVK_WAR3_SNAPSHOT_RESIDENT_CAP_MB")\<close>; None when unset.\<close>

definition War3Stage11SnapshotResidentCapBytes :: "string option \<Rightarrow> u64" where
  "War3Stage11SnapshotResidentCapBytes env =
    (case env of
       None \<Rightarrow> kWar3Stage11SnapshotResidentCapBytes
     | Some s \<Rightarrow>
         (let mb = atol s
          in if mb \<le> 0 then kWar3Stage11SnapshotResidentCapBytes
             else
               let bytes = word_of_int mb * 1024 * 1024;
                   bytes = (if bytes < kWar3Stage11SnapshotResidentCapMinBytes
                            then kWar3Stage11SnapshotResidentCapMinBytes else bytes)
               in if bytes > kWar3Stage11SnapshotResidentCapMaxBytes
                  then kWar3Stage11SnapshotResidentCapMaxBytes else bytes))"

definition War3Stage11SnapshotAdaptiveHardCapBytes :: "string option \<Rightarrow> u64" where
  "War3Stage11SnapshotAdaptiveHardCapBytes env =
    (if env \<noteq> None then War3Stage11SnapshotResidentCapBytes env
     else kWar3Stage11SnapshotResidentCapMaxBytes)"

lemmas snapshot_constants =
  kWar3Stage11SnapshotAlignment_def kWar3Stage11SnapshotResidentCapBytes_def
  kWar3Stage11SnapshotPageBytes_def kWar3Stage11SnapshotResidentCapMinBytes_def
  kWar3Stage11SnapshotResidentCapMaxBytes_def

lemma snapshot_hard_cap_range:
  "kWar3Stage11SnapshotResidentCapMinBytes \<le> War3Stage11SnapshotAdaptiveHardCapBytes env \<and>
   War3Stage11SnapshotAdaptiveHardCapBytes env \<le> kWar3Stage11SnapshotResidentCapMaxBytes"
  by (auto simp: War3Stage11SnapshotAdaptiveHardCapBytes_def Let_def
        War3Stage11SnapshotResidentCapBytes_def snapshot_constants push_bit_eq_mult
        split: option.splits)

subsection \<open>Alignment\<close>

definition War3TryAlignStage11SnapshotBytes :: "u64 \<Rightarrow> bool \<times> u64" where
  "War3TryAlignStage11SnapshotBytes v =
    (let mask = kWar3Stage11SnapshotAlignment - 1
     in if v = 0 \<or> v > UINT64_MAX - mask then (False, 0)
        else let aligned = (v + mask) AND NOT mask in (aligned \<ge> v, aligned))"

text \<open>The mathematical rounding to the next multiple of 256.\<close>

definition align256 :: "nat \<Rightarrow> nat" where
  "align256 n = (n + 255) - (n + 255) mod 256"

lemma align256_props:
  "n \<le> align256 n" "align256 n < n + 256" "256 dvd align256 n"
  using round_up_nat [of 256 n] by (simp_all add: align256_def)

lemma align256_0 [simp]: "align256 0 = 0"
  by (simp add: align256_def)

lemma align256_fixed: "256 dvd n \<Longrightarrow> align256 n = n"
  by (auto simp: align256_def elim!: dvdE)

lemma mask8: "(255 :: u64) = mask 8"
  by (simp add: mask_eq_exp_minus_1)

lemma try_align_unat:
  assumes "unat v + 255 < 2 ^ 64"
  shows "unat ((v + 255) AND NOT (255 :: u64)) = align256 (unat v)"
proof -
  have "unat (v + 255) = unat v + 255"
    using assms by (simp add: unat_plus_if')
  then show ?thesis
    unfolding mask8 word_and_not_mask_unat by (simp add: align256_def mask8 [symmetric])
qed

lemma try_align_cases:
  obtains (refused) "War3TryAlignStage11SnapshotBytes v = (False, 0)"
      "v = 0 \<or> 2 ^ 64 \<le> unat v + 255"
    | (aligned) w where "War3TryAlignStage11SnapshotBytes v = (True, w)"
      "v \<noteq> 0" "unat w = align256 (unat v)"
proof (cases "v = 0 \<or> 2 ^ 64 \<le> unat v + 255")
  case True
  then have "War3TryAlignStage11SnapshotBytes v = (False, 0)"
    by (auto simp: War3TryAlignStage11SnapshotBytes_def Let_def snapshot_constants word_less_nat_alt)
  then show ?thesis using True that(1) by blast
next
  case False
  let ?w = "(v + 255) AND NOT (255 :: u64)"
  have u: "unat ?w = align256 (unat v)"
    using False by (intro try_align_unat) simp
  then have "v \<le> ?w"
    using align256_props(1) [of "unat v"] by (simp add: word_le_nat_alt)
  then have "War3TryAlignStage11SnapshotBytes v = (True, ?w)"
    using False
    by (auto simp: War3TryAlignStage11SnapshotBytes_def Let_def snapshot_constants word_less_nat_alt)
  then show ?thesis using False u that(2) by blast
qed

text \<open>An evaluation rule for concrete runs: the mask as a remainder.\<close>

lemma try_align_code [code]:
  "War3TryAlignStage11SnapshotBytes v =
    (if v = 0 \<or> v > UINT64_MAX - 255 then (False, 0) else (True, v + 255 - (v + 255) mod 256))"
proof (cases rule: try_align_cases [of v])
  case refused
  then have "v = 0 \<or> v > UINT64_MAX - 255" by (auto simp: word_less_nat_alt)
  then show ?thesis using refused by auto
next
  case (aligned w)
  have big: "\<not> v > UINT64_MAX - 255"
    using aligned(1) by (auto simp: War3TryAlignStage11SnapshotBytes_def Let_def snapshot_constants)
  then have "unat (v + 255) = unat v + 255"
    using unat_add_below_max [of v 255] by (simp add: not_less unat_plus_if')
  then have "unat (v + 255 - (v + 255) mod 256) = unat w"
    by (simp only: word_minus_mod_unat aligned(3) align256_def) simp
  then have "v + 255 - (v + 255) mod 256 = w" by (simp only: unat_eq_iff)
  then show ?thesis using aligned(1,2) big by simp
qed

subsection \<open>The capacity of a page\<close>

definition War3Stage11SnapshotPageCapacity :: "u64 \<Rightarrow> u64 \<Rightarrow> u64" where
  "War3Stage11SnapshotPageCapacity requiredBytes capBytes =
    (let (ok, aligned) = War3TryAlignStage11SnapshotBytes requiredBytes
     in if \<not> ok \<or> aligned > capBytes then 0
        else if aligned \<le> kWar3Stage11SnapshotPageBytes then kWar3Stage11SnapshotPageBytes
        else
          let pages = (aligned + kWar3Stage11SnapshotPageBytes - 1) div kWar3Stage11SnapshotPageBytes
          in if pages > capBytes div kWar3Stage11SnapshotPageBytes then 0
             else pages * kWar3Stage11SnapshotPageBytes)"

lemma page_bytes_unat [simp]: "unat kWar3Stage11SnapshotPageBytes = 16777216"
  by (simp add: snapshot_constants push_bit_eq_mult)

lemma page_capacity_large:
  assumes "War3TryAlignStage11SnapshotBytes n = (True, w)" and "w \<le> cap"
    and "unat cap + 16777216 \<le> 2 ^ 64" and "16777216 < unat w"
    and "War3Stage11SnapshotPageCapacity n cap \<noteq> 0"
  defines "k \<equiv> (unat w + 16777215) div 16777216"
  shows "unat (War3Stage11SnapshotPageCapacity n cap) = k * 16777216" and "k * 16777216 \<le> unat cap"
proof -
  let ?P = kWar3Stage11SnapshotPageBytes
  let ?pages = "(w + ?P - 1) div ?P"
  have w: "unat w \<le> unat cap" using assms(2) by (simp add: word_le_nat_alt)
  have "unat (w + ?P - 1) = unat w + 16777215"
    using w assms(3) by (simp add: unat_sub_if' unat_plus_if')
  then have pages: "unat ?pages = k" by (simp add: unat_div k_def)
  have "\<not> w \<le> ?P" using assms(4) by (simp add: word_le_nat_alt)
  then have c: "War3Stage11SnapshotPageCapacity n cap = ?pages * ?P" "?pages \<le> cap div ?P"
    using assms(1,2,5)
    by (auto simp: War3Stage11SnapshotPageCapacity_def Let_def not_less split: if_splits)
  have "k \<le> unat cap div 16777216"
    using c(2) by (simp add: word_le_nat_alt unat_div pages [symmetric])
  then show le: "k * 16777216 \<le> unat cap"
    by (metis mult_le_mono1 div_times_less_eq_dividend order_trans)
  have "unat ?pages * unat ?P < 2 ^ LENGTH(64)"
    using le assms(3) by (simp add: pages)
  then show "unat (War3Stage11SnapshotPageCapacity n cap) = k * 16777216"
    unfolding c(1) unat_mult_lem by (simp only: pages page_bytes_unat)
qed

text \<open>
  A planned page holds the request, is a whole number of 16 MiB pages and, when it is
  larger than one, is within the cap.
\<close>

lemma page_capacity_sound:
  assumes "War3Stage11SnapshotPageCapacity n cap \<noteq> 0" and "unat cap + 16777216 \<le> 2 ^ 64"
  shows "align256 (unat n) \<le> unat (War3Stage11SnapshotPageCapacity n cap) \<and>
    align256 (unat n) \<le> unat cap \<and>
    16777216 dvd unat (War3Stage11SnapshotPageCapacity n cap) \<and>
    (16777216 < unat (War3Stage11SnapshotPageCapacity n cap) \<longrightarrow>
      unat (War3Stage11SnapshotPageCapacity n cap) \<le> unat cap)"
proof (cases rule: try_align_cases [of n])
  case refused
  then show ?thesis using assms by (simp add: War3Stage11SnapshotPageCapacity_def)
next
  case (aligned w)
  have w: "w \<le> cap" using assms(1) aligned(1)
    by (auto simp: War3Stage11SnapshotPageCapacity_def split: if_splits)
  show ?thesis
  proof (cases "unat w \<le> 16777216")
    case True
    then have "w \<le> kWar3Stage11SnapshotPageBytes" by (simp add: word_le_nat_alt)
    then have "War3Stage11SnapshotPageCapacity n cap = kWar3Stage11SnapshotPageBytes"
      using aligned(1) leD [OF w] by (simp add: War3Stage11SnapshotPageCapacity_def)
    then show ?thesis using True w aligned by (simp add: word_le_nat_alt)
  next
    case False
    have "unat w \<le> (unat w + 16777215) div 16777216 * 16777216"
      using div_mult_mod_eq [of "unat w + 16777215" 16777216]
        mod_less_divisor [of 16777216 "unat w + 16777215"] by linarith
    then show ?thesis
      using page_capacity_large [OF aligned(1) w assms(2) _ assms(1)] False w aligned(3)
      by (simp add: word_le_nat_alt)
  qed
qed

subsection \<open>Tail suballocation\<close>

record War3Stage11SnapshotSuballocation =
  sub_valid :: bool
  sub_offset :: u64
  sub_capacity :: u64
  sub_nextUsed :: u64

definition no_suballocation :: War3Stage11SnapshotSuballocation where
  "no_suballocation =
    \<lparr>sub_valid = False, sub_offset = 0, sub_capacity = 0, sub_nextUsed = 0\<rparr>"

definition War3PlanStage11SnapshotSuballocation ::
  "u64 \<Rightarrow> u64 \<Rightarrow> u64 \<Rightarrow> War3Stage11SnapshotSuballocation" where
  "War3PlanStage11SnapshotSuballocation used capacity requiredBytes =
    (let (ok1, alignedUsed) = War3TryAlignStage11SnapshotBytes
           (if used = 0 then kWar3Stage11SnapshotAlignment else used);
         (ok2, alignedBytes) = War3TryAlignStage11SnapshotBytes requiredBytes
     in if used > capacity \<or> \<not> ok1 \<or> \<not> ok2 then no_suballocation
        else
          let alignedUsed = (if used = 0 then 0 else alignedUsed)
          in if alignedUsed > capacity \<or> alignedBytes > capacity - alignedUsed
             then no_suballocation
             else \<lparr>sub_valid = True, sub_offset = alignedUsed, sub_capacity = alignedBytes,
                   sub_nextUsed = alignedUsed + alignedBytes\<rparr>)"

lemma align_used:
  assumes "War3TryAlignStage11SnapshotBytes (if used = 0 then kWar3Stage11SnapshotAlignment else used)
    = (True, w)"
  shows "unat (if used = 0 then 0 else w) = align256 (unat used)"
  using assms by (cases rule: try_align_cases [of used]) auto

lemma suballocation_cases:
  obtains (refused) "War3PlanStage11SnapshotSuballocation used capacity n = no_suballocation"
      "n = 0 \<or> unat capacity < unat used \<or>
       unat capacity < align256 (unat used) + align256 (unat n)"
    | (granted) s where "War3PlanStage11SnapshotSuballocation used capacity n = s"
      "sub_valid s" "n \<noteq> 0" "unat used \<le> unat capacity"
      "unat (sub_offset s) = align256 (unat used)" "unat (sub_capacity s) = align256 (unat n)"
      "unat (sub_nextUsed s) = align256 (unat used) + align256 (unat n)"
      "align256 (unat used) + align256 (unat n) \<le> unat capacity"
proof -
  let ?used = "if used = 0 then kWar3Stage11SnapshotAlignment else used"
  have big: "unat capacity < align256 (unat v)" if "2 ^ 64 \<le> unat v + 255" for v :: u64
  proof -
    obtain q where q: "align256 (unat v) = 256 * q"
      using align256_props(3) [of "unat v"] by (rule dvdE)
    then have "18446744073709551361 \<le> 256 * q"
      using that align256_props(1) [of "unat v"] by simp
    then have "72057594037927936 \<le> q" by presburger
    then show ?thesis using unat_u64_bound [of capacity] q by linarith
  qed
  show ?thesis
  proof (cases "used \<le> capacity")
    case False
    then show ?thesis
      by (intro refused) (auto simp: War3PlanStage11SnapshotSuballocation_def not_le
          word_less_nat_alt split: prod.splits)
  next
    case used: True
    show ?thesis
    proof (cases rule: try_align_cases [of ?used])
      case refused1: refused
      then have "2 ^ 64 \<le> unat used + 255"
        by (auto simp: snapshot_constants split: if_splits)
      then show ?thesis
        using big [of used] refused1(1)
        by (intro refused) (auto simp: War3PlanStage11SnapshotSuballocation_def split: prod.splits)
    next
      case aligned1: (aligned w1)
      have w1: "unat (if used = 0 then 0 else w1) = align256 (unat used)"
        using aligned1(1) by (rule align_used)
      show ?thesis
      proof (cases rule: try_align_cases [of n])
        case refused2: refused
        then have "n = 0 \<or> unat capacity < align256 (unat n)" using big [of n] by auto
        then show ?thesis
          using aligned1(1) refused2(1)
          by (intro refused) (auto simp: War3PlanStage11SnapshotSuballocation_def)
      next
        case aligned2: (aligned w2)
        let ?off = "if used = 0 then 0 else w1"
        have plan: "War3PlanStage11SnapshotSuballocation used capacity n =
            (if ?off > capacity \<or> w2 > capacity - ?off then no_suballocation
             else \<lparr>sub_valid = True, sub_offset = ?off, sub_capacity = w2,
                   sub_nextUsed = ?off + w2\<rparr>)"
          using used
          by (simp only: War3PlanStage11SnapshotSuballocation_def aligned1(1) aligned2(1)
              Let_def prod.case not_less [symmetric] simp_thms if_False)
        have fits: "(?off > capacity \<or> w2 > capacity - ?off) \<longleftrightarrow>
            unat capacity < align256 (unat used) + align256 (unat n)"
          unfolding w1 [symmetric] aligned2(3) [symmetric]
          by (auto simp: word_less_nat_alt unat_sub_if')
        show ?thesis
        proof (cases "unat capacity < align256 (unat used) + align256 (unat n)")
          case True
          then show ?thesis using plan fits by (intro refused) simp_all
        next
          case False
          have "unat (?off + w2) = align256 (unat used) + align256 (unat n)"
            unfolding w1 [symmetric] aligned2(3) [symmetric]
            by (rule unat_add_no_wrap [of _ _ capacity])
              (use False in \<open>simp add: w1 aligned2(3)\<close>)
          then show ?thesis
            using plan fits False w1 aligned2 used
            by (intro granted [OF plan]) (simp_all add: word_le_nat_alt)
        qed
      qed
    qed
  qed
qed

text \<open>The planner as the interface of \<^theory_text>\<open>Allocators\<close> sees it.\<close>

definition snapshot_plan :: "u64 \<Rightarrow> u64 \<Rightarrow> u64 \<Rightarrow> (u64 \<times> u64 \<times> u64) option" where
  "snapshot_plan used capacity n =
    (let s = War3PlanStage11SnapshotSuballocation used capacity n
     in if sub_valid s then Some (sub_offset s, sub_capacity s, sub_nextUsed s) else None)"

lemma snapshot_plan_bounds:
  "snapshot_plan used capacity n = Some (off, c, nxt) \<Longrightarrow>
    unat used \<le> unat off \<and> unat off + unat c = unat nxt \<and> unat nxt \<le> unat capacity"
  by (cases rule: suballocation_cases [of used capacity n])
    (auto simp: snapshot_plan_def Let_def no_suballocation_def align256_props(1) split: if_splits)

interpretation snapshot_tail: bump_allocator snapshot_plan
  by unfold_locales (rule snapshot_plan_bounds)

text \<open>
  A tail suballocation is granted exactly when the request, rounded up to 256
  bytes, fits behind the rounded cursor; it then starts there, spans the rounded
  request and moves the cursor to its end. No addition wraps.
\<close>

theorem suballocation_granted_iff_it_fits:
  "let s = War3PlanStage11SnapshotSuballocation used capacity n
   in (sub_valid s \<longleftrightarrow> n \<noteq> 0 \<and> unat used \<le> unat capacity \<and>
         align256 (unat used) + align256 (unat n) \<le> unat capacity) \<and>
      (if sub_valid s
       then unat (sub_offset s) = align256 (unat used) \<and>
            unat (sub_capacity s) = align256 (unat n) \<and>
            unat (sub_nextUsed s) = align256 (unat used) + align256 (unat n)
       else s = no_suballocation)"
  by (cases rule: suballocation_cases [of used capacity n]) (auto simp: no_suballocation_def)

text \<open>
  The slices that any sequence of requests gets from one page, each at the cursor
  the previous one left, lie inside the page and no two of them share a byte.
\<close>

theorem page_slices_disjoint:
  assumes "bump_run snapshot_plan capacity 0 ns = (ivs, used)" and "i < j" and "j < length ivs"
  shows "{fst (ivs ! i)..<snd (ivs ! i)} \<inter> {fst (ivs ! j)..<snd (ivs ! j)} = {} \<and>
    snd (ivs ! j) \<le> unat used \<and> unat used \<le> unat capacity"
  using disjoint_iv_no_common_byte [OF snapshot_tail.run_disjoint [OF assms]]
    snapshot_tail.run_within [OF assms(1), of "ivs ! j"]
    snapshot_tail.run_capacity [OF assms(1)] nth_mem [OF assms(3)]
  by auto

lemma page_slices_disjoint_witness:
  "bump_run snapshot_plan 1024 0 [100, 2000, 300] = ([(0, 256), (256, 768)], 768) \<and>
   {0..<256::nat} \<inter> {256..<768} = {}"
proof -
  have r: "bump_run snapshot_plan 1024 0 [100, 2000, 300] = ([(0, 256), (256, 768)], 768)"
    by code_simp
  show ?thesis using page_slices_disjoint [OF r, of 0 1] r by simp
qed

subsection \<open>Admission and publication of a page\<close>

definition War3Stage11SnapshotCanAddPage :: "u64 \<Rightarrow> u64 \<Rightarrow> u64 \<Rightarrow> bool" where
  "War3Stage11SnapshotCanAddPage residentBytes pageBytes capBytes \<longleftrightarrow>
     pageBytes \<noteq> 0 \<and> residentBytes \<le> capBytes \<and> pageBytes \<le> capBytes - residentBytes"

lemma can_add_page_nat:
  "War3Stage11SnapshotCanAddPage r n cap \<longleftrightarrow> n \<noteq> 0 \<and> unat r + unat n \<le> unat cap"
  by (auto simp: War3Stage11SnapshotCanAddPage_def word_le_nat_alt unat_sub_if')

interpretation snapshot_cap: growth_admission
  "\<lambda>cap r n. War3Stage11SnapshotCanAddPage r n cap" "\<lambda>cap. cap"
  by unfold_locales (simp add: can_add_page_nat)

datatype War3Stage11PagePublication = PubSuccess | InvalidState | NullPage | HostAllocationFailure

text \<open>What the page factory does: a page, a null pointer, \<open>std::bad_alloc\<close>, or another exception.\<close>

datatype 'p page_factory = Made 'p | MadeNull | ThrowsBadAlloc | ThrowsOther

text \<open>
  The transaction. \<open>setId\<close> assigns \<open>page->id\<close>; \<open>pushThrows\<close> says whether
  \<open>push_back\<close> runs out of memory, in which case the vector is as before. The result
  None is an exception that leaves the function.
\<close>

definition War3PublishStage11SnapshotPage ::
  "(u64 \<Rightarrow> 'p \<Rightarrow> 'p) \<Rightarrow> 'p page_factory \<Rightarrow> bool \<Rightarrow> 'p list \<Rightarrow> u64 \<Rightarrow> u64 \<Rightarrow> u64 \<Rightarrow> u64 \<Rightarrow>
    War3Stage11PagePublication option \<times> 'p list \<times> u64 \<times> u64" where
  "War3PublishStage11SnapshotPage setId made pushThrows pages nextId residentBytes pageBytes capBytes =
    (if nextId = 0 \<or> nextId = UINT64_MAX \<or>
        \<not> War3Stage11SnapshotCanAddPage residentBytes pageBytes capBytes
     then (Some InvalidState, pages, nextId, residentBytes)
     else case made of
       MadeNull \<Rightarrow> (Some NullPage, pages, nextId, residentBytes)
     | ThrowsBadAlloc \<Rightarrow> (Some HostAllocationFailure, pages, nextId, residentBytes)
     | ThrowsOther \<Rightarrow> (None, pages, nextId, residentBytes)
     | Made page \<Rightarrow>
         if pushThrows then (Some HostAllocationFailure, pages, nextId, residentBytes)
         else (Some PubSuccess, pages @ [setId nextId page], nextId + 1, residentBytes + pageBytes))"

lemma publish_no_change:
  "War3PublishStage11SnapshotPage setId made pt pages nid r n cap = (res, pages', nid', r') \<Longrightarrow>
    res \<noteq> Some PubSuccess \<Longrightarrow> pages' = pages \<and> nid' = nid \<and> r' = r"
  by (auto simp: War3PublishStage11SnapshotPage_def split: if_splits page_factory.splits)

lemma publish_success:
  assumes "War3PublishStage11SnapshotPage setId made pt pages nid r n cap =
    (Some PubSuccess, pages', nid', r')"
  obtains page where "made = Made page" "pages' = pages @ [setId nid page]"
    "n \<noteq> 0" "nid \<noteq> 0" "unat nid' = unat nid + 1" "unat r' = unat r + unat n"
    "unat r + unat n \<le> unat cap"
proof -
  have h: "nid \<noteq> 0" "nid \<noteq> UINT64_MAX" "War3Stage11SnapshotCanAddPage r n cap"
    and nid': "nid' = nid + 1" and r': "r' = r + n"
    using assms
    by (auto simp: War3PublishStage11SnapshotPage_def split: if_splits page_factory.splits)
  obtain page where "made = Made page" "pages' = pages @ [setId nid page]"
    using assms
    by (auto simp: War3PublishStage11SnapshotPage_def split: if_splits page_factory.splits)
  moreover have "unat (nid + 1) = unat nid + 1"
    using h(2) unatSuc [of nid] by (metis Suc_eq_plus1 add.commute add_eq_0_iff2)
  ultimately show ?thesis
    using that h nid' r' snapshot_cap.grown_exact [OF h(3)] by (auto simp: can_add_page_nat)
qed

text \<open>
  Publication is a transaction: with any outcome but Success (an exception
  included) the page list, the next id and the resident bytes are unchanged; Success
  appends exactly the made page under the old id, charges its bytes within the cap
  and neither counter wraps.
\<close>

theorem publication_is_all_or_nothing:
  assumes "War3PublishStage11SnapshotPage setId made pt pages nid r n cap = (res, pages', nid', r')"
  shows "if res = Some PubSuccess
    then (\<exists>page. made = Made page \<and> pages' = pages @ [setId nid page]) \<and>
      unat nid' = unat nid + 1 \<and> unat r' = unat r + unat n \<and> unat r' \<le> unat cap
    else pages' = pages \<and> nid' = nid \<and> r' = r"
proof (cases "res = Some PubSuccess")
  case True
  then show ?thesis
    using assms by (auto elim!: publish_success)
next
  case False
  then show ?thesis using publish_no_change [OF assms] by simp
qed

lemma publication_is_all_or_nothing_witness:
  "War3PublishStage11SnapshotPage (\<lambda>i p. i) (Made (0 :: u64)) False [] 7 16 32 64 =
    (Some PubSuccess, [7], 8, 48) \<and> unat (48 :: u64) = unat (16 :: u64) + unat (32 :: u64)"
proof -
  have p: "War3PublishStage11SnapshotPage (\<lambda>i p. i) (Made (0 :: u64)) False [] 7 16 32 64 =
      (Some PubSuccess, [7], 8, 48)"
    by (simp add: War3PublishStage11SnapshotPage_def War3Stage11SnapshotCanAddPage_def)
  show ?thesis using publication_is_all_or_nothing [OF p] p by simp
qed

end
