(* ===== verification/LifetimePages.thy ===== *)
theory LifetimePages
  imports SnapshotPages
begin

section \<open>Lifetime-grouped page selection\<close>

text \<open>
  \<open>src/src/d3d9/war3/render/war3_stage11_lifetime_page_policy.h\<close>: which page a new
  snapshot slice goes to. The view of the page vector, a pointer with a count in the
  source, is an optional list with a count; the candidate with its \<open>valid\<close> flag is an
  option.
\<close>

subsection \<open>Enumerations\<close>

datatype War3Stage11PageLifetime = Unknown | ShortLived | LongLived | LifetimeCount

datatype War3Stage11PageOwnerState = Active | RetirePending | Retired | OwnerStateCount

datatype War3Stage11LifetimePagePlanKind = ExistingPage | NewPage | NoSafeSelection

datatype War3Stage11LifetimePagePlanReason =
    NoReason | SameLifetime | ConservativeUnknownPage | MixedLifetimeBorrow | NewPageForLifetime
  | InvalidRequest | InvalidEpoch | InvalidPageMetadata | PageIdentityConflict
  | ResidentMismatch | SharedCapOutOfRange | SharedCapReached | PageVectorLimit
  | CreateGateClosed | NoActiveTail | ReasonCount

primrec lifetime_index :: "War3Stage11PageLifetime \<Rightarrow> nat" where
  "lifetime_index Unknown = 0"
| "lifetime_index ShortLived = 1"
| "lifetime_index LongLived = 2"
| "lifetime_index LifetimeCount = 3"

primrec owner_index :: "War3Stage11PageOwnerState \<Rightarrow> nat" where
  "owner_index Active = 0"
| "owner_index RetirePending = 1"
| "owner_index Retired = 2"
| "owner_index OwnerStateCount = 3"

instantiation War3Stage11PageLifetime :: linorder
begin

definition less_eq_War3Stage11PageLifetime ::
  "War3Stage11PageLifetime \<Rightarrow> War3Stage11PageLifetime \<Rightarrow> bool" where
  "a \<le> b \<longleftrightarrow> lifetime_index a \<le> lifetime_index b"

definition less_War3Stage11PageLifetime ::
  "War3Stage11PageLifetime \<Rightarrow> War3Stage11PageLifetime \<Rightarrow> bool" where
  "a < b \<longleftrightarrow> lifetime_index a < lifetime_index b"

instance
proof
  fix a b :: War3Stage11PageLifetime
  show "a \<le> b \<Longrightarrow> b \<le> a \<Longrightarrow> a = b"
    by (cases a; cases b) (auto simp: less_eq_War3Stage11PageLifetime_def)
qed (auto simp: less_eq_War3Stage11PageLifetime_def less_War3Stage11PageLifetime_def)

end

instantiation War3Stage11PageOwnerState :: linorder
begin

definition less_eq_War3Stage11PageOwnerState ::
  "War3Stage11PageOwnerState \<Rightarrow> War3Stage11PageOwnerState \<Rightarrow> bool" where
  "a \<le> b \<longleftrightarrow> owner_index a \<le> owner_index b"

definition less_War3Stage11PageOwnerState ::
  "War3Stage11PageOwnerState \<Rightarrow> War3Stage11PageOwnerState \<Rightarrow> bool" where
  "a < b \<longleftrightarrow> owner_index a < owner_index b"

instance
proof
  fix a b :: War3Stage11PageOwnerState
  show "a \<le> b \<Longrightarrow> b \<le> a \<Longrightarrow> a = b"
    by (cases a; cases b) (auto simp: less_eq_War3Stage11PageOwnerState_def)
qed (auto simp: less_eq_War3Stage11PageOwnerState_def less_War3Stage11PageOwnerState_def)

end

definition War3Stage11PageLifetimeName :: "War3Stage11PageLifetime \<Rightarrow> string" where
  "War3Stage11PageLifetimeName l =
    (case l of
       Unknown \<Rightarrow> ''unknown'' | ShortLived \<Rightarrow> ''shortLived'' | LongLived \<Rightarrow> ''longLived''
     | LifetimeCount \<Rightarrow> ''invalid'')"

definition War3Stage11NormalizePageLifetime ::
  "War3Stage11PageLifetime \<Rightarrow> War3Stage11PageLifetime" where
  "War3Stage11NormalizePageLifetime l = (if l < LifetimeCount then l else Unknown)"

lemma normalize_lifetime: "War3Stage11NormalizePageLifetime l = (if l = LifetimeCount then Unknown else l)"
  by (cases l)
    (simp_all add: War3Stage11NormalizePageLifetime_def less_War3Stage11PageLifetime_def)

definition War3Stage11ClassifyPageLifetime ::
  "bool \<Rightarrow> bool \<Rightarrow> bool \<Rightarrow> War3Stage11PageLifetime" where
  "War3Stage11ClassifyPageLifetime hasDynamicPoseOrUnitIdentity generationBackedStaticCandidate
      captureFailedOrUnproven =
    (if captureFailedOrUnproven then Unknown
     else if hasDynamicPoseOrUnitIdentity then ShortLived
     else if generationBackedStaticCandidate then LongLived
     else Unknown)"

definition War3Stage11LifetimeClassesMaySharePage ::
  "War3Stage11PageLifetime \<Rightarrow> War3Stage11PageLifetime \<Rightarrow> bool" where
  "War3Stage11LifetimeClassesMaySharePage pageLifetime requestedLifetime =
    (let p = War3Stage11NormalizePageLifetime pageLifetime;
         r = War3Stage11NormalizePageLifetime requestedLifetime
     in p = r \<or> p = Unknown \<or> r = Unknown)"

subsection \<open>Views, requests and plans\<close>

record War3Stage11LifetimePageView =
  pv_id :: u64
  pv_capacity :: u64
  pv_used :: u64
  pv_lifetime :: War3Stage11PageLifetime
  pv_ownerState :: War3Stage11PageOwnerState
  pv_mapEpoch :: u64
  pv_deviceEpoch :: u64

record War3Stage11LifetimePageRequest =
  rq_requiredBytes :: u64
  rq_residentBytes :: u64
  rq_capBytes :: u64
  rq_mapEpoch :: u64
  rq_deviceEpoch :: u64
  rq_maxPages :: u32
  rq_pageCreateGateOpen :: bool
  rq_sameRetentionIntentOnly :: bool
  rq_lifetime :: War3Stage11PageLifetime

record War3Stage11LifetimePagePlan =
  pl_kind :: War3Stage11LifetimePagePlanKind
  pl_reason :: War3Stage11LifetimePagePlanReason
  pl_pageId :: u64
  pl_offset :: u64
  pl_sliceBytes :: u64
  pl_nextUsed :: u64
  pl_pageBytes :: u64
  pl_residentBytesAfter :: u64
  pl_pageLifetime :: War3Stage11PageLifetime
  pl_mixedLifetimeBorrow :: bool
  pl_conservativeUnknownPage :: bool

definition empty_plan :: War3Stage11LifetimePagePlan where
  "empty_plan =
    \<lparr>pl_kind = NoSafeSelection, pl_reason = InvalidRequest, pl_pageId = 0, pl_offset = 0,
     pl_sliceBytes = 0, pl_nextUsed = 0, pl_pageBytes = 0, pl_residentBytesAfter = 0,
     pl_pageLifetime = Unknown, pl_mixedLifetimeBorrow = False,
     pl_conservativeUnknownPage = False\<rparr>"

definition createsPage :: "War3Stage11LifetimePagePlan \<Rightarrow> bool" where
  "createsPage p \<longleftrightarrow> pl_kind p = NewPage"

definition usesExistingPage :: "War3Stage11LifetimePagePlan \<Rightarrow> bool" where
  "usesExistingPage p \<longleftrightarrow> pl_kind p = ExistingPage"

definition safeToUse :: "War3Stage11LifetimePagePlan \<Rightarrow> bool" where
  "safeToUse p \<longleftrightarrow> pl_kind p \<noteq> NoSafeSelection"

subsection \<open>Candidates\<close>

record War3Stage11LifetimePageCandidate =
  cd_page :: War3Stage11LifetimePageView
  cd_offset :: u64
  cd_nextUsed :: u64
  cd_slack :: u64

definition War3Stage11BetterPageCandidate ::
  "War3Stage11LifetimePageCandidate \<Rightarrow> War3Stage11LifetimePageCandidate option \<Rightarrow> bool" where
  "War3Stage11BetterPageCandidate candidate current =
    (case current of
       None \<Rightarrow> True
     | Some cur \<Rightarrow>
         if cd_slack candidate \<noteq> cd_slack cur then cd_slack candidate < cd_slack cur
         else if cd_nextUsed candidate \<noteq> cd_nextUsed cur then cd_nextUsed candidate > cd_nextUsed cur
         else pv_id (cd_page candidate) < pv_id (cd_page cur))"

definition considerCandidate ::
  "War3Stage11LifetimePageCandidate option \<Rightarrow> War3Stage11LifetimePageCandidate \<Rightarrow>
    War3Stage11LifetimePageCandidate option" where
  "considerCandidate target candidate =
    (if War3Stage11BetterPageCandidate candidate target then Some candidate else target)"

text \<open>The metadata check of one page, and the loop over all of them with the identity check.\<close>

definition invalidPageMetadata :: "War3Stage11LifetimePageView \<Rightarrow> bool" where
  "invalidPageMetadata p \<longleftrightarrow>
     pv_id p = 0 \<or> pv_capacity p = 0 \<or>
     pv_capacity p > kWar3Stage11SnapshotResidentCapMaxBytes \<or> pv_used p > pv_capacity p \<or>
     pv_capacity p AND (kWar3Stage11SnapshotAlignment - 1) \<noteq> 0 \<or>
     pv_used p AND (kWar3Stage11SnapshotAlignment - 1) \<noteq> 0 \<or>
     pv_lifetime p \<ge> LifetimeCount \<or> pv_ownerState p \<ge> OwnerStateCount"

fun validatePages ::
  "War3Stage11LifetimePageView list \<Rightarrow> u64 \<Rightarrow> War3Stage11LifetimePageView list \<Rightarrow>
    War3Stage11LifetimePagePlanReason + u64" where
  "validatePages seen activeViewCapacity [] = Inr activeViewCapacity"
| "validatePages seen activeViewCapacity (p # ps) =
    (if invalidPageMetadata p then Inl InvalidPageMetadata
     else if list_ex (\<lambda>q. pv_id q = pv_id p) seen then Inl PageIdentityConflict
     else validatePages (seen @ [p])
            (if pv_ownerState p = Active then activeViewCapacity + pv_capacity p
             else activeViewCapacity) ps)"

text \<open>The candidate a page offers, if the loop body does not \<open>continue\<close> before building one.\<close>

definition pageCandidate ::
  "War3Stage11LifetimePageRequest \<Rightarrow> u64 \<Rightarrow> War3Stage11LifetimePageView \<Rightarrow>
    War3Stage11LifetimePageCandidate option" where
  "pageCandidate request alignedBytes p =
    (if pv_id p = 0 \<or> pv_ownerState p \<noteq> Active then None
     else if pv_mapEpoch p \<noteq> rq_mapEpoch request \<or> pv_deviceEpoch p \<noteq> rq_deviceEpoch request then None
     else if pv_capacity p = 0 \<or> pv_used p > pv_capacity p then None
     else if pv_capacity p AND (kWar3Stage11SnapshotAlignment - 1) \<noteq> 0 \<or>
             pv_used p AND (kWar3Stage11SnapshotAlignment - 1) \<noteq> 0 then None
     else
       let sub = War3PlanStage11SnapshotSuballocation (pv_used p) (pv_capacity p) alignedBytes
       in if \<not> sub_valid sub then None
          else Some \<lparr>cd_page = p, cd_offset = sub_offset sub, cd_nextUsed = sub_nextUsed sub,
                     cd_slack = pv_capacity p - sub_nextUsed sub\<rparr>)"

subsection \<open>The plan\<close>

text \<open>The three best candidates of the selection loop: same class, compatible class, any other.\<close>

type_synonym candidates =
  "War3Stage11LifetimePageCandidate option \<times> War3Stage11LifetimePageCandidate option \<times>
   War3Stage11LifetimePageCandidate option"

definition considerPage ::
  "War3Stage11LifetimePageRequest \<Rightarrow> War3Stage11PageLifetime \<Rightarrow> u64 \<Rightarrow>
    candidates \<Rightarrow> War3Stage11LifetimePageView \<Rightarrow> candidates" where
  "considerPage request requested alignedBytes cs p =
    (let (sameLifetime, conservative, mixedBorrow) = cs
     in case pageCandidate request alignedBytes p of
          None \<Rightarrow> cs
        | Some candidate \<Rightarrow>
            (let pageLifetime = War3Stage11NormalizePageLifetime (pv_lifetime p)
             in if pageLifetime = requested
                then (considerCandidate sameLifetime candidate, conservative, mixedBorrow)
                else if \<not> rq_sameRetentionIntentOnly request \<and>
                        War3Stage11LifetimeClassesMaySharePage pageLifetime requested
                then (sameLifetime, considerCandidate conservative candidate, mixedBorrow)
                else (sameLifetime, conservative, considerCandidate mixedBorrow candidate)))"

definition fillExisting ::
  "War3Stage11LifetimePageRequest \<Rightarrow> War3Stage11LifetimePagePlan \<Rightarrow>
    War3Stage11LifetimePageCandidate \<Rightarrow> War3Stage11LifetimePagePlanReason \<Rightarrow> bool \<Rightarrow> bool \<Rightarrow>
    War3Stage11LifetimePagePlan" where
  "fillExisting request plan candidate reason mixed conservativePage =
    plan\<lparr>pl_kind := ExistingPage, pl_reason := reason, pl_pageId := pv_id (cd_page candidate),
         pl_offset := cd_offset candidate, pl_nextUsed := cd_nextUsed candidate,
         pl_pageBytes := 0, pl_residentBytesAfter := rq_residentBytes request,
         pl_pageLifetime := War3Stage11NormalizePageLifetime (pv_lifetime (cd_page candidate)),
         pl_mixedLifetimeBorrow := mixed, pl_conservativeUnknownPage := conservativePage\<rparr>"

text \<open>\<open>createPage\<close>: the updated plan, a new-page plan or the reason creation is blocked.\<close>

definition createPage ::
  "War3Stage11LifetimePageRequest \<Rightarrow> War3Stage11PageLifetime \<Rightarrow> u64 \<Rightarrow> u32 \<Rightarrow>
    War3Stage11LifetimePagePlan \<Rightarrow> bool \<times> War3Stage11LifetimePagePlan" where
  "createPage request requested alignedBytes pageCount plan =
    (if \<not> rq_pageCreateGateOpen request then (False, plan\<lparr>pl_reason := CreateGateClosed\<rparr>)
     else if pageCount \<ge> rq_maxPages request then (False, plan\<lparr>pl_reason := PageVectorLimit\<rparr>)
     else
       let pageBytes = War3Stage11SnapshotPageCapacity alignedBytes (rq_capBytes request)
       in if pageBytes = 0 \<or>
             \<not> War3Stage11SnapshotCanAddPage (rq_residentBytes request) pageBytes (rq_capBytes request)
          then (False, plan\<lparr>pl_reason := SharedCapReached\<rparr>)
          else (True,
            plan\<lparr>pl_kind := NewPage, pl_reason := NewPageForLifetime, pl_pageId := 0,
                 pl_offset := 0, pl_nextUsed := alignedBytes, pl_pageBytes := pageBytes,
                 pl_residentBytesAfter := rq_residentBytes request + pageBytes,
                 pl_pageLifetime := requested, pl_mixedLifetimeBorrow := False,
                 pl_conservativeUnknownPage := False\<rparr>))"

text \<open>The hard page limit, \<open>uint32_t(max cap / page bytes)\<close>.\<close>

definition kHardMaxPages :: u32 where
  "kHardMaxPages = ucast (kWar3Stage11SnapshotResidentCapMaxBytes div kWar3Stage11SnapshotPageBytes)"

text \<open>The early returns, in the order of the source: a reason, or the aligned size.\<close>

definition checkRequest ::
  "War3Stage11LifetimePageRequest \<Rightarrow> War3Stage11LifetimePageView list option \<Rightarrow> u32 \<Rightarrow>
    War3Stage11LifetimePagePlanReason + u64" where
  "checkRequest request pages pageCount =
    (let (ok, alignedBytes) = War3TryAlignStage11SnapshotBytes (rq_requiredBytes request)
     in if \<not> ok \<or> alignedBytes = 0 \<or> (pageCount \<noteq> 0 \<and> pages = None) then Inl InvalidRequest
        else if rq_mapEpoch request = 0 \<or> rq_deviceEpoch request = 0 then Inl InvalidEpoch
        else if rq_capBytes request < kWar3Stage11SnapshotResidentCapMinBytes \<or>
                rq_capBytes request > kWar3Stage11SnapshotResidentCapMaxBytes
             then Inl SharedCapOutOfRange
        else if rq_residentBytes request > rq_capBytes request then Inl ResidentMismatch
        else if rq_maxPages request = 0 \<or> rq_maxPages request > kHardMaxPages \<or>
                pageCount > rq_maxPages request
             then Inl PageVectorLimit
        else Inr alignedBytes)"

definition viewedPages ::
  "War3Stage11LifetimePageView list option \<Rightarrow> u32 \<Rightarrow> War3Stage11LifetimePageView list" where
  "viewedPages pages pageCount = (case pages of None \<Rightarrow> [] | Some ps \<Rightarrow> take (unat pageCount) ps)"

definition War3PlanStage11LifetimePage ::
  "War3Stage11LifetimePageRequest \<Rightarrow> War3Stage11LifetimePageView list option \<Rightarrow> u32 \<Rightarrow>
    War3Stage11LifetimePagePlan" where
  "War3PlanStage11LifetimePage request pages pageCount =
    (let requested = War3Stage11NormalizePageLifetime (rq_lifetime request);
         plan = empty_plan\<lparr>pl_pageLifetime := requested\<rparr>;
         views = viewedPages pages pageCount
     in case checkRequest request pages pageCount of
          Inl reason \<Rightarrow> plan\<lparr>pl_reason := reason\<rparr>
        | Inr alignedBytes \<Rightarrow>
            (case validatePages [] 0 views of
               Inl reason \<Rightarrow> plan\<lparr>pl_reason := reason\<rparr>
             | Inr activeViewCapacity \<Rightarrow>
                 if activeViewCapacity \<noteq> rq_residentBytes request
                 then plan\<lparr>pl_reason := ResidentMismatch\<rparr>
                 else
                   let plan = plan\<lparr>pl_sliceBytes := alignedBytes,
                                   pl_residentBytesAfter := rq_residentBytes request\<rparr>;
                       (sameLifetime, conservative, mixedBorrow) =
                         foldl (considerPage request requested alignedBytes) (None, None, None) views
                   in (case sameLifetime of
                         Some c \<Rightarrow> fillExisting request plan c SameLifetime False False
                       | None \<Rightarrow>
                      (case conservative of
                         Some c \<Rightarrow> fillExisting request plan c ConservativeUnknownPage False True
                       | None \<Rightarrow>
                         (let (created, plan') =
                                createPage request requested alignedBytes pageCount plan
                          in if created then plan'
                             else case mixedBorrow of
                               Some c \<Rightarrow> fillExisting request plan' c MixedLifetimeBorrow True False
                             | None \<Rightarrow> plan')))))"

subsection \<open>Validation\<close>

lemma validate_ok:
  "validatePages seen acc ps = Inr sumCap \<Longrightarrow>
    (\<forall>p \<in> set ps. \<not> invalidPageMetadata p) \<and> distinct (map pv_id ps) \<and>
    pv_id ` set seen \<inter> pv_id ` set ps = {}"
proof (induction ps arbitrary: seen acc)
  case (Cons p ps)
  have rest: "validatePages (seen @ [p])
      (if pv_ownerState p = Active then acc + pv_capacity p else acc) ps = Inr sumCap"
    and p: "\<not> invalidPageMetadata p" "\<not> list_ex (\<lambda>q. pv_id q = pv_id p) seen"
    using Cons.prems by (auto split: if_splits)
  show ?case
    using Cons.IH [OF rest] p by (auto simp: list_ex_iff)
qed simp

lemma validate_total:
  "validatePages seen acc ps = Inr sumCap \<Longrightarrow>
    sumCap = acc + (\<Sum>p \<leftarrow> filter (\<lambda>p. pv_ownerState p = Active) ps. pv_capacity p)"
proof (induction ps arbitrary: seen acc)
  case (Cons p ps)
  then show ?case by (fastforce split: if_splits)
qed simp

text \<open>Aligned means divisible: a masked word is zero exactly when 256 divides it.\<close>

lemma masked_zero: "(x :: u64) AND (kWar3Stage11SnapshotAlignment - 1) = 0 \<longleftrightarrow> 256 dvd unat x"
proof -
  have "(kWar3Stage11SnapshotAlignment - 1 :: u64) = mask 8"
    by (simp add: snapshot_constants mask_eq_exp_minus_1)
  then have "x AND (kWar3Stage11SnapshotAlignment - 1) = take_bit 8 x"
    by (simp add: take_bit_eq_mask)
  then show ?thesis
    by (simp add: unat_eq_iff unsigned_take_bit_eq take_bit_eq_mod unat_mod dvd_eq_mod_eq_0)
qed

lemma valid_page:
  assumes "\<not> invalidPageMetadata p"
  shows "pv_id p \<noteq> 0" "pv_capacity p \<noteq> 0" "unat (pv_used p) \<le> unat (pv_capacity p)"
    "256 dvd unat (pv_capacity p)" "256 dvd unat (pv_used p)"
  using assms
  by (auto simp: invalidPageMetadata_def masked_zero not_less word_le_nat_alt)

subsection \<open>What a candidate is\<close>

lemma candidate_some:
  assumes "pageCandidate request w p = Some c" and "\<not> invalidPageMetadata p" and "256 dvd unat w"
  shows "cd_page c = p" "pv_ownerState p = Active"
    "pv_mapEpoch p = rq_mapEpoch request" "pv_deviceEpoch p = rq_deviceEpoch request"
    "cd_offset c = pv_used p" "unat (cd_nextUsed c) = unat (pv_used p) + unat w"
    "unat (cd_nextUsed c) \<le> unat (pv_capacity p)"
    "cd_slack c = pv_capacity p - cd_nextUsed c"
proof -
  let ?s = "War3PlanStage11SnapshotSuballocation (pv_used p) (pv_capacity p) w"
  have v: "sub_valid ?s" and c: "c = \<lparr>cd_page = p, cd_offset = sub_offset ?s,
      cd_nextUsed = sub_nextUsed ?s, cd_slack = pv_capacity p - sub_nextUsed ?s\<rparr>"
    using assms(1) by (auto simp: pageCandidate_def Let_def split: if_splits)
  have s: "unat (sub_offset ?s) = unat (pv_used p)"
    "unat (sub_nextUsed ?s) = unat (pv_used p) + unat w"
    "unat (pv_used p) + unat w \<le> unat (pv_capacity p)"
    using v valid_page(5) [OF assms(2)] assms(3)
    by (cases rule: suballocation_cases [of "pv_used p" "pv_capacity p" w];
        simp add: no_suballocation_def align256_fixed)+
  show "cd_offset c = pv_used p" using s(1) by (simp add: c unat_eq_iff)
  show "cd_page c = p" "cd_slack c = pv_capacity p - cd_nextUsed c"
    "unat (cd_nextUsed c) = unat (pv_used p) + unat w"
    "unat (cd_nextUsed c) \<le> unat (pv_capacity p)"
    using s by (simp_all add: c)
  show "pv_ownerState p = Active"
    "pv_mapEpoch p = rq_mapEpoch request" "pv_deviceEpoch p = rq_deviceEpoch request"
    using assms(1) by (auto simp: pageCandidate_def split: if_splits)
qed

lemma candidate_none:
  assumes "pageCandidate request w p = None" and "\<not> invalidPageMetadata p"
    and "256 dvd unat w" and "w \<noteq> 0"
    and "pv_ownerState p = Active"
    and "pv_mapEpoch p = rq_mapEpoch request" and "pv_deviceEpoch p = rq_deviceEpoch request"
  shows "unat (pv_capacity p) < unat (pv_used p) + unat w"
proof -
  have "\<not> sub_valid (War3PlanStage11SnapshotSuballocation (pv_used p) (pv_capacity p) w)"
    using assms(1,2,5-7)
    by (auto simp: pageCandidate_def invalidPageMetadata_def Let_def split: if_splits)
  then show ?thesis
    using valid_page(3,5) [OF assms(2)] assms(3,4)
    by (cases rule: suballocation_cases [of "pv_used p" "pv_capacity p" w])
      (auto simp: align256_fixed)
qed

subsection \<open>The selection loop\<close>

text \<open>Among the candidates considered so far the target is one of them and none is better.\<close>

lemma better_trans:
  "War3Stage11BetterPageCandidate c (Some b) \<Longrightarrow> War3Stage11BetterPageCandidate b (Some a) \<Longrightarrow>
    War3Stage11BetterPageCandidate c (Some a)"
  by (auto simp: War3Stage11BetterPageCandidate_def split: if_splits)

lemma not_better_trans:
  "\<not> War3Stage11BetterPageCandidate c (Some a) \<Longrightarrow> \<not> War3Stage11BetterPageCandidate a (Some b) \<Longrightarrow>
    \<not> War3Stage11BetterPageCandidate c (Some b)"
  by (auto simp: War3Stage11BetterPageCandidate_def split: if_splits)

lemma not_better_self: "\<not> War3Stage11BetterPageCandidate c (Some c)"
  by (simp add: War3Stage11BetterPageCandidate_def)

definition best_of ::
  "War3Stage11LifetimePageCandidate option \<Rightarrow> War3Stage11LifetimePageCandidate list \<Rightarrow>
    War3Stage11LifetimePageCandidate option" where
  "best_of = foldl considerCandidate"

lemma best_of_is_best:
  "best_of t cs = Some b \<Longrightarrow>
    b \<in> set_option t \<union> set cs \<and>
    (\<forall>c \<in> set_option t \<union> set cs. \<not> War3Stage11BetterPageCandidate c (Some b))"
proof (induction cs arbitrary: t)
  case Nil
  then show ?case by (simp add: best_of_def not_better_self)
next
  case (Cons c cs)
  have IH: "b \<in> set_option (considerCandidate t c) \<union> set cs"
    "\<forall>d \<in> set_option (considerCandidate t c) \<union> set cs. \<not> War3Stage11BetterPageCandidate d (Some b)"
    using Cons.IH [of "considerCandidate t c"] Cons.prems by (simp_all add: best_of_def)
  show ?case
  proof (cases t)
    case None
    then show ?thesis
      using IH by (auto simp: considerCandidate_def War3Stage11BetterPageCandidate_def)
  next
    case (Some a)
    show ?thesis
    proof (cases "War3Stage11BetterPageCandidate c (Some a)")
      case True
      then have "\<not> War3Stage11BetterPageCandidate c (Some b)"
        using IH(2) by (simp add: considerCandidate_def Some)
      then have "\<not> War3Stage11BetterPageCandidate a (Some b)"
        using better_trans [OF True] by blast
      then show ?thesis using IH True by (auto simp: considerCandidate_def Some)
    next
      case False
      then have "\<not> War3Stage11BetterPageCandidate a (Some b)"
        using IH(2) by (simp add: considerCandidate_def Some)
      then have "\<not> War3Stage11BetterPageCandidate c (Some b)"
        using not_better_trans [OF False] by blast
      then show ?thesis using IH False by (auto simp: considerCandidate_def Some)
    qed
  qed
qed

lemma best_of_none: "best_of None cs = None \<longleftrightarrow> cs = []"
proof -
  have "best_of (Some a) cs \<noteq> None" for a cs
    by (induction cs arbitrary: a) (auto simp: best_of_def considerCandidate_def)
  then show ?thesis
    by (cases cs) (auto simp: best_of_def considerCandidate_def War3Stage11BetterPageCandidate_def)
qed

datatype page_class = Same | Compatible | Other

definition page_class_of ::
  "War3Stage11LifetimePageRequest \<Rightarrow> War3Stage11LifetimePageView \<Rightarrow> page_class" where
  "page_class_of request p =
    (let l = War3Stage11NormalizePageLifetime (pv_lifetime p);
         r = War3Stage11NormalizePageLifetime (rq_lifetime request)
     in if l = r then Same
        else if \<not> rq_sameRetentionIntentOnly request \<and> (l = Unknown \<or> r = Unknown)
        then Compatible else Other)"

definition candidates_of ::
  "War3Stage11LifetimePageRequest \<Rightarrow> u64 \<Rightarrow> page_class \<Rightarrow> War3Stage11LifetimePageView list \<Rightarrow>
    War3Stage11LifetimePageCandidate list" where
  "candidates_of request w k ps =
    List.map_filter (\<lambda>p. if page_class_of request p = k then pageCandidate request w p else None) ps"

lemma normalize_idem [simp]:
  "War3Stage11NormalizePageLifetime (War3Stage11NormalizePageLifetime l) =
    War3Stage11NormalizePageLifetime l"
  by (simp add: normalize_lifetime)

lemma selection_loop:
  "foldl (considerPage request (War3Stage11NormalizePageLifetime (rq_lifetime request)) w) (a, b, c) ps =
    (best_of a (candidates_of request w Same ps),
     best_of b (candidates_of request w Compatible ps),
     best_of c (candidates_of request w Other ps))"
proof (induction ps arbitrary: a b c)
  case Nil
  then show ?case by (simp add: best_of_def candidates_of_def map_filter_simps)
next
  case (Cons p ps)
  then show ?case
    by (auto simp: considerPage_def Let_def candidates_of_def map_filter_simps best_of_def
        page_class_of_def War3Stage11LifetimeClassesMaySharePage_def split: option.splits)
qed

lemma candidates_member:
  "c \<in> set (candidates_of request w k ps) \<longleftrightarrow>
    (\<exists>p \<in> set ps. page_class_of request p = k \<and> pageCandidate request w p = Some c)"
  by (induction ps) (auto simp: candidates_of_def map_filter_simps split: option.splits)

subsection \<open>What a plan promises\<close>

text \<open>
  The specification: a page has room when it is active, of the requested map and
  device epoch and its tail holds the rounded request; creation is allowed when the
  gate is open, the vector is not full and the new page fits under the cap.
\<close>

definition page_has_room ::
  "War3Stage11LifetimePageRequest \<Rightarrow> War3Stage11LifetimePageView \<Rightarrow> bool" where
  "page_has_room request p \<longleftrightarrow>
     pv_ownerState p = Active \<and> pv_mapEpoch p = rq_mapEpoch request \<and>
     pv_deviceEpoch p = rq_deviceEpoch request \<and>
     unat (pv_used p) + align256 (unat (rq_requiredBytes request)) \<le> unat (pv_capacity p)"

definition creation_allowed :: "War3Stage11LifetimePageRequest \<Rightarrow> u64 \<Rightarrow> u32 \<Rightarrow> bool" where
  "creation_allowed request w pageCount \<longleftrightarrow>
     (let bytes = War3Stage11SnapshotPageCapacity w (rq_capBytes request)
      in rq_pageCreateGateOpen request \<and> pageCount < rq_maxPages request \<and> bytes \<noteq> 0 \<and>
         unat (rq_residentBytes request) + unat bytes \<le> unat (rq_capBytes request))"

definition accepted ::
  "War3Stage11LifetimePageRequest \<Rightarrow> War3Stage11LifetimePageView list option \<Rightarrow> u32 \<Rightarrow> u64 \<Rightarrow> bool"
where
  "accepted request pages pageCount w \<longleftrightarrow>
     checkRequest request pages pageCount = Inr w \<and>
     validatePages [] 0 (viewedPages pages pageCount) = Inr (rq_residentBytes request)"

lemma created_iff: "fst (createPage request requested w n plan) \<longleftrightarrow> creation_allowed request w n"
  by (auto simp: createPage_def creation_allowed_def can_add_page_nat Let_def not_le)

lemma check_ok:
  assumes "checkRequest request pages n = Inr w"
  shows "unat w = align256 (unat (rq_requiredBytes request))" "w \<noteq> 0" "256 dvd unat w"
    "rq_mapEpoch request \<noteq> 0" "rq_deviceEpoch request \<noteq> 0"
    "unat (rq_residentBytes request) \<le> unat (rq_capBytes request)"
    "unat (rq_capBytes request) \<le> 536870912"
proof -
  have c: "War3TryAlignStage11SnapshotBytes (rq_requiredBytes request) = (True, w)" "w \<noteq> 0"
    "rq_mapEpoch request \<noteq> 0 \<and> rq_deviceEpoch request \<noteq> 0"
    "rq_capBytes request \<le> kWar3Stage11SnapshotResidentCapMaxBytes"
    "rq_residentBytes request \<le> rq_capBytes request"
    using assms by (auto simp: checkRequest_def not_less split: if_splits prod.splits)
  then show "w \<noteq> 0" "rq_mapEpoch request \<noteq> 0" "rq_deviceEpoch request \<noteq> 0"
    "unat (rq_residentBytes request) \<le> unat (rq_capBytes request)"
    "unat (rq_capBytes request) \<le> 536870912"
    by (simp_all add: word_le_nat_alt snapshot_constants push_bit_eq_mult)
  show u: "unat w = align256 (unat (rq_requiredBytes request))"
    using c(1) by (cases rule: try_align_cases [of "rq_requiredBytes request"]) auto
  show "256 dvd unat w" by (simp add: u align256_props)
qed

lemma room_iff_candidate:
  assumes "checkRequest request pages n = Inr w" and "\<not> invalidPageMetadata p"
  shows "page_has_room request p \<longleftrightarrow> pageCandidate request w p \<noteq> None"
proof
  note w = check_ok [OF assms(1)]
  {
    assume "page_has_room request p"
    then show "pageCandidate request w p \<noteq> None"
      using candidate_none [OF _ assms(2) w(3,2)] by (auto simp: page_has_room_def w(1))
  next
    assume "pageCandidate request w p \<noteq> None"
    then show "page_has_room request p"
      using candidate_some [OF _ assms(2) w(3)] by (fastforce simp: page_has_room_def w(1))
  }
qed

lemma candidates_empty_iff:
  assumes "accepted request pages n w"
  shows "candidates_of request w k (viewedPages pages n) = [] \<longleftrightarrow>
    (\<forall>p \<in> set (viewedPages pages n). page_class_of request p = k \<longrightarrow> \<not> page_has_room request p)"
proof -
  have ok: "checkRequest request pages n = Inr w"
    "\<forall>p \<in> set (viewedPages pages n). \<not> invalidPageMetadata p"
    using assms validate_ok by (auto simp: accepted_def)
  have "candidates_of request w k (viewedPages pages n) = [] \<longleftrightarrow>
      (\<forall>c. c \<notin> set (candidates_of request w k (viewedPages pages n)))"
    by (metis list.set_intros(1) neq_Nil_conv empty_iff list.set(1))
  then show ?thesis
    using ok(2) room_iff_candidate [OF ok(1)] unfolding candidates_member
    by (metis not_Some_eq)
qed

lemma plan_rejected:
  assumes "\<not> (\<exists>w. accepted request pages n w)"
  shows "pl_kind (War3PlanStage11LifetimePage request pages n) = NoSafeSelection"
  using assms
  by (auto simp: War3PlanStage11LifetimePage_def accepted_def Let_def empty_plan_def
      split: sum.splits)

definition base_plan :: "War3Stage11LifetimePageRequest \<Rightarrow> u64 \<Rightarrow> War3Stage11LifetimePagePlan" where
  "base_plan request w =
    empty_plan\<lparr>pl_pageLifetime := War3Stage11NormalizePageLifetime (rq_lifetime request),
      pl_sliceBytes := w, pl_residentBytesAfter := rq_residentBytes request\<rparr>"

lemma plan_accepted:
  assumes "accepted request pages n w"
  defines "views \<equiv> viewedPages pages n"
  defines "requested \<equiv> War3Stage11NormalizePageLifetime (rq_lifetime request)"
  shows "War3PlanStage11LifetimePage request pages n =
    (case best_of None (candidates_of request w Same views) of
       Some c \<Rightarrow> fillExisting request (base_plan request w) c SameLifetime False False
     | None \<Rightarrow>
    (case best_of None (candidates_of request w Compatible views) of
       Some c \<Rightarrow> fillExisting request (base_plan request w) c ConservativeUnknownPage False True
     | None \<Rightarrow>
       (let (created, plan') = createPage request requested w n (base_plan request w)
        in if created then plan'
           else case best_of None (candidates_of request w Other views) of
             Some c \<Rightarrow> fillExisting request plan' c MixedLifetimeBorrow True False
           | None \<Rightarrow> plan')))"
  unfolding War3PlanStage11LifetimePage_def views_def requested_def Let_def base_plan_def
    selection_loop
  using assms(1) by (simp add: accepted_def)

lemma create_failed:
  "createPage request requested w n plan = (False, plan') \<Longrightarrow>
    pl_sliceBytes plan' = pl_sliceBytes plan \<and> pl_kind plan' = pl_kind plan"
  by (auto simp: createPage_def Let_def split: if_splits)

lemma plan_outcome:
  assumes "accepted request pages n w"
  defines "views \<equiv> viewedPages pages n"
  defines "plan \<equiv> War3PlanStage11LifetimePage request pages n"
  obtains
    (existing) k c q reason where
      "best_of None (candidates_of request w k views) = Some c"
      "plan = fillExisting request q c reason (k = Other) (k = Compatible)"
      "pl_sliceBytes q = w"
      "k \<noteq> Same \<Longrightarrow> candidates_of request w Same views = []"
      "k = Other \<Longrightarrow> candidates_of request w Compatible views = [] \<and> \<not> creation_allowed request w n"
  | (new) "creation_allowed request w n"
      "createPage request (War3Stage11NormalizePageLifetime (rq_lifetime request)) w n
         (base_plan request w) = (True, plan)"
      "candidates_of request w Same views = []" "candidates_of request w Compatible views = []"
  | (none) "\<not> creation_allowed request w n" "pl_kind plan = NoSafeSelection"
      "\<And>k. candidates_of request w k views = []"
proof -
  note unfold = plan_accepted [OF assms(1), folded views_def plan_def]
  have base: "pl_sliceBytes (base_plan request w) = w"
    "pl_kind (base_plan request w) = NoSafeSelection"
    by (simp_all add: base_plan_def empty_plan_def)
  show ?thesis
  proof (cases "best_of None (candidates_of request w Same views)")
    case (Some c)
    then show ?thesis using unfold base by (intro existing [of Same c]) simp_all
  next
    case None
    note same = None
    then have e1: "candidates_of request w Same views = []" by (simp only: best_of_none)
    show ?thesis
    proof (cases "best_of None (candidates_of request w Compatible views)")
      case (Some c)
      then show ?thesis
        using unfold base e1 same by (intro existing [of Compatible c]) simp_all
    next
      case None
      note compat = None
      then have e2: "candidates_of request w Compatible views = []" by (simp only: best_of_none)
      obtain created plan' where cp: "createPage request
          (War3Stage11NormalizePageLifetime (rq_lifetime request)) w n (base_plan request w)
          = (created, plan')" by (cases "createPage request
          (War3Stage11NormalizePageLifetime (rq_lifetime request)) w n (base_plan request w)")
      have cr: "creation_allowed request w n \<longleftrightarrow> created"
        using created_iff [of request _ w n "base_plan request w"] cp by (metis fst_conv)
      show ?thesis
      proof (cases created)
        case True
        then show ?thesis using unfold cp cr e1 e2 same compat by (intro new) simp_all
      next
        case False
        then have cp': "createPage request
            (War3Stage11NormalizePageLifetime (rq_lifetime request)) w n (base_plan request w)
            = (False, plan')" using cp by simp
        note failed = create_failed [OF cp']
        show ?thesis
        proof (cases "best_of None (candidates_of request w Other views)")
          case (Some c)
          then show ?thesis
            using unfold cp' cr False e1 e2 same compat base failed
            by (intro existing [of Other c plan' MixedLifetimeBorrow]) simp_all
        next
          case None
          then have e3: "candidates_of request w Other views = []" by (simp only: best_of_none)
          have "candidates_of request w k views = []" for k
            by (cases k) (simp_all add: e1 e2 e3)
          then show ?thesis
            using unfold cp' cr False same compat base failed None by (intro none) simp_all
        qed
      qed
    qed
  qed
qed

lemma created_plan:
  "createPage request requested w n plan = (True, plan') \<Longrightarrow>
    pl_kind plan' = NewPage \<and> pl_sliceBytes plan' = pl_sliceBytes plan \<and> pl_offset plan' = 0 \<and>
    pl_nextUsed plan' = w \<and> pl_mixedLifetimeBorrow plan' = False \<and>
    pl_pageBytes plan' = War3Stage11SnapshotPageCapacity w (rq_capBytes request) \<and>
    pl_residentBytesAfter plan' = rq_residentBytes request + pl_pageBytes plan'"
  by (auto simp: createPage_def Let_def split: if_splits)

lemma accepted_views:
  assumes "accepted request pages n w"
  shows "\<forall>p \<in> set (viewedPages pages n). \<not> invalidPageMetadata p"
    and "distinct (map pv_id (viewedPages pages n))"
  using assms validate_ok by (auto simp: accepted_def)

lemma existing_plan_page:
  assumes "usesExistingPage (War3PlanStage11LifetimePage request pages n)"
  obtains w c k where "accepted request pages n w"
    "best_of None (candidates_of request w k (viewedPages pages n)) = Some c"
    "cd_page c \<in> set (viewedPages pages n)" "page_class_of request (cd_page c) = k"
    "pageCandidate request w (cd_page c) = Some c"
    "pl_pageId (War3PlanStage11LifetimePage request pages n) = pv_id (cd_page c)"
    "pl_offset (War3PlanStage11LifetimePage request pages n) = cd_offset c"
    "pl_nextUsed (War3PlanStage11LifetimePage request pages n) = cd_nextUsed c"
    "pl_sliceBytes (War3PlanStage11LifetimePage request pages n) = w"
    "pl_mixedLifetimeBorrow (War3PlanStage11LifetimePage request pages n) \<longleftrightarrow> k = Other"
    "k \<noteq> Same \<Longrightarrow> candidates_of request w Same (viewedPages pages n) = []"
    "k = Other \<Longrightarrow> candidates_of request w Compatible (viewedPages pages n) = [] \<and>
      \<not> creation_allowed request w n"
proof -
  obtain w where acc: "accepted request pages n w"
    using plan_rejected [of request pages n] assms by (auto simp: usesExistingPage_def)
  show ?thesis
  proof (cases rule: plan_outcome [OF acc])
    case (1 k c q reason)
    have mem: "c \<in> set (candidates_of request w k (viewedPages pages n))"
      using best_of_is_best [OF 1(1)] by simp
    then obtain p where p: "p \<in> set (viewedPages pages n)" "page_class_of request p = k"
      "pageCandidate request w p = Some c" by (auto simp: candidates_member)
    have "cd_page c = p"
      using candidate_some(1) [OF p(3)] accepted_views(1) [OF acc] p(1) check_ok(3) acc
      by (auto simp: accepted_def)
    then show ?thesis
      using that [OF acc 1(1)] p 1 by (simp add: fillExisting_def)
  next
    case 2
    then show ?thesis using assms created_plan [OF 2(2)] by (simp add: usesExistingPage_def)
  next
    case 3
    then show ?thesis using assms by (simp add: usesExistingPage_def)
  qed
qed

text \<open>
  A plan on an existing page names exactly one page of the view; that page is
  active, of the requested epochs, the slice starts at its cursor, spans the request
  rounded to 256 bytes and ends inside it; and no page of the same class leaves less
  free space.
\<close>

theorem existing_page_plan_sound:
  assumes "usesExistingPage (War3PlanStage11LifetimePage request pages n)"
  defines "plan \<equiv> War3PlanStage11LifetimePage request pages n"
  shows "\<exists>p \<in> set (viewedPages pages n).
    {q \<in> set (viewedPages pages n). pv_id q = pl_pageId plan} = {p} \<and>
    page_has_room request p \<and>
    pl_offset plan = pv_used p \<and>
    unat (pl_sliceBytes plan) = align256 (unat (rq_requiredBytes request)) \<and>
    unat (pl_nextUsed plan) = unat (pv_used p) + unat (pl_sliceBytes plan) \<and>
    unat (pl_nextUsed plan) \<le> unat (pv_capacity p) \<and>
    (\<forall>q \<in> set (viewedPages pages n).
       page_class_of request q = page_class_of request p \<longrightarrow> page_has_room request q \<longrightarrow>
       unat (pv_capacity p) - unat (pv_used p) \<le> unat (pv_capacity q) - unat (pv_used q))"
proof -
  obtain w c k where e: "accepted request pages n w"
    "best_of None (candidates_of request w k (viewedPages pages n)) = Some c"
    "cd_page c \<in> set (viewedPages pages n)" "page_class_of request (cd_page c) = k"
    "pageCandidate request w (cd_page c) = Some c"
    "pl_pageId plan = pv_id (cd_page c)" "pl_offset plan = cd_offset c"
    "pl_nextUsed plan = cd_nextUsed c" "pl_sliceBytes plan = w"
    by (rule existing_plan_page [OF assms(1), folded plan_def])
  let ?p = "cd_page c"
  have chk: "checkRequest request pages n = Inr w" using e(1) by (simp add: accepted_def)
  note w = check_ok [OF chk]
  have valid: "\<not> invalidPageMetadata q" if "q \<in> set (viewedPages pages n)" for q
    using accepted_views(1) [OF e(1)] that by blast
  note c = candidate_some [OF e(5) valid [OF e(3)] w(3)]
  have uniq: "{q \<in> set (viewedPages pages n). pv_id q = pl_pageId plan} = {?p}"
    using accepted_views(2) [OF e(1)] e(3,6) by (auto simp: distinct_map dest: inj_onD)
  have best: "unat (pv_capacity ?p) - unat (pv_used ?p) \<le> unat (pv_capacity q) - unat (pv_used q)"
    if q: "q \<in> set (viewedPages pages n)" "page_class_of request q = k" "page_has_room request q" for q
  proof -
    obtain d where d: "pageCandidate request w q = Some d"
      using room_iff_candidate [OF chk valid [OF q(1)]] q(3) by auto
    have "\<not> War3Stage11BetterPageCandidate d (Some c)"
      using best_of_is_best [OF e(2)] q d by (auto simp: candidates_member)
    then have "cd_slack c \<le> cd_slack d"
      by (auto simp: War3Stage11BetterPageCandidate_def split: if_splits)
    then show ?thesis
      using c(6-8) candidate_some(6-8) [OF d valid [OF q(1)] w(3)]
      by (simp add: word_le_nat_alt unat_sub_if')
  qed
  have "page_has_room request ?p"
    using room_iff_candidate [OF chk valid [OF e(3)]] e(5) by simp
  then show ?thesis
    using uniq e c w(1) best by (intro bexI [of _ ?p]) auto
qed

lemma new_page_plan_facts:
  assumes "createsPage (War3PlanStage11LifetimePage request pages n)"
  defines "plan \<equiv> War3PlanStage11LifetimePage request pages n"
  shows "rq_pageCreateGateOpen request \<and> n < rq_maxPages request \<and>
    unat (pl_sliceBytes plan) = align256 (unat (rq_requiredBytes request)) \<and>
    pl_offset plan = 0 \<and> pl_nextUsed plan = pl_sliceBytes plan \<and>
    unat (pl_sliceBytes plan) \<le> unat (pl_pageBytes plan) \<and>
    16777216 dvd unat (pl_pageBytes plan) \<and>
    unat (pl_residentBytesAfter plan) = unat (rq_residentBytes request) + unat (pl_pageBytes plan) \<and>
    unat (pl_residentBytesAfter plan) \<le> unat (rq_capBytes request) \<and>
    (\<forall>p \<in> set (viewedPages pages n). page_has_room request p \<longrightarrow> page_class_of request p = Other)"
proof -
  obtain w where acc: "accepted request pages n w"
    using plan_rejected [of request pages n] assms(1) by (auto simp: createsPage_def)
  then have chk: "checkRequest request pages n = Inr w" by (simp add: accepted_def)
  note w = check_ok [OF chk]
  show ?thesis
  proof (cases rule: plan_outcome [OF acc])
    case (1 k c q reason)
    then show ?thesis using assms(1) by (simp add: createsPage_def fillExisting_def)
  next
    case 2
    let ?b = "War3Stage11SnapshotPageCapacity w (rq_capBytes request)"
    have allowed: "rq_pageCreateGateOpen request" "n < rq_maxPages request" "?b \<noteq> 0"
      "unat (rq_residentBytes request) + unat ?b \<le> unat (rq_capBytes request)"
      using 2(1) by (simp_all add: creation_allowed_def Let_def)
    have plan: "pl_sliceBytes plan = w" "pl_offset plan = 0" "pl_nextUsed plan = w"
      "pl_pageBytes plan = ?b" "pl_residentBytesAfter plan = rq_residentBytes request + ?b"
      using created_plan [OF 2(2)] unfolding plan_def by (simp_all add: base_plan_def)
    have cap: "align256 (unat w) \<le> unat ?b" "16777216 dvd unat ?b"
      using page_capacity_sound [OF allowed(3)] w(7) by simp_all
    have other: "page_class_of request p = Other"
      if "p \<in> set (viewedPages pages n)" "page_has_room request p" for p
      using 2(3,4) that candidates_empty_iff [OF acc] by (cases "page_class_of request p") auto
    show ?thesis
      unfolding plan
      using allowed cap w(1,3) other unat_add_no_wrap [OF allowed(4)] by (simp add: align256_fixed)
  next
    case 3
    then show ?thesis using assms(1) by (simp add: createsPage_def)
  qed
qed

text \<open>
  A plan that creates a page does so only with the create gate open, below the
  page limit and within the cap, for a page that holds the rounded request, and only
  when no page of the same or a compatible lifetime class has room.
\<close>

theorem new_page_plan_sound:
  assumes "createsPage (War3PlanStage11LifetimePage request pages n)"
  defines "plan \<equiv> War3PlanStage11LifetimePage request pages n"
  shows "rq_pageCreateGateOpen request \<and> n < rq_maxPages request \<and>
    unat (pl_sliceBytes plan) = align256 (unat (rq_requiredBytes request)) \<and>
    pl_offset plan = 0 \<and> pl_nextUsed plan = pl_sliceBytes plan \<and>
    unat (pl_sliceBytes plan) \<le> unat (pl_pageBytes plan) \<and>
    16777216 dvd unat (pl_pageBytes plan) \<and>
    unat (pl_residentBytesAfter plan) = unat (rq_residentBytes request) + unat (pl_pageBytes plan) \<and>
    unat (pl_residentBytesAfter plan) \<le> unat (rq_capBytes request) \<and>
    (\<forall>p \<in> set (viewedPages pages n). page_has_room request p \<longrightarrow> page_class_of request p = Other)"
  using new_page_plan_facts [OF assms(1)] unfolding plan_def .

text \<open>
  A slice shares a page of another proven lifetime only as a last resort: no page
  of the same or a compatible class has room, and creating a page is not allowed.
\<close>

theorem mixed_lifetime_only_when_blocked:
  assumes "pl_mixedLifetimeBorrow (War3PlanStage11LifetimePage request pages n)"
    and "usesExistingPage (War3PlanStage11LifetimePage request pages n)"
  shows "\<exists>w. unat w = align256 (unat (rq_requiredBytes request)) \<and>
    \<not> creation_allowed request w n \<and>
    (\<forall>p \<in> set (viewedPages pages n). page_has_room request p \<longrightarrow> page_class_of request p = Other)"
proof -
  obtain w c k where e: "accepted request pages n w"
    "pl_mixedLifetimeBorrow (War3PlanStage11LifetimePage request pages n) \<longleftrightarrow> k = Other"
    "k \<noteq> Same \<Longrightarrow> candidates_of request w Same (viewedPages pages n) = []"
    "k = Other \<Longrightarrow> candidates_of request w Compatible (viewedPages pages n) = [] \<and>
      \<not> creation_allowed request w n"
    by (rule existing_plan_page [OF assms(2)]) (rule that; blast)
  have k: "k = Other" using e(2) assms(1) by simp
  have w: "unat w = align256 (unat (rq_requiredBytes request))"
    using e(1) check_ok(1) by (auto simp: accepted_def)
  have "page_class_of request p = Other"
    if "p \<in> set (viewedPages pages n)" "page_has_room request p" for p
    using e(3,4) k that candidates_empty_iff [OF e(1)] by (cases "page_class_of request p") auto
  then show ?thesis using w e(4) k by auto
qed

text \<open>
  The planner never omits a slice it could place: for a request and a view that
  pass validation it reports no safe selection exactly when no viewed page has room
  and no page may be created.
\<close>

theorem no_selection_iff_no_place:
  assumes "accepted request pages n w"
  shows "\<not> safeToUse (War3PlanStage11LifetimePage request pages n) \<longleftrightarrow>
    \<not> creation_allowed request w n \<and>
    (\<forall>p \<in> set (viewedPages pages n). \<not> page_has_room request p)"
proof -
  let ?plan = "War3PlanStage11LifetimePage request pages n"
  show ?thesis
  proof (cases rule: plan_outcome [OF assms])
    case (1 k c q reason)
    have "c \<in> set (candidates_of request w k (viewedPages pages n))"
      using best_of_is_best [OF 1(1)] by simp
    then have "candidates_of request w k (viewedPages pages n) \<noteq> []" by auto
    then have "\<exists>p \<in> set (viewedPages pages n). page_has_room request p"
      using candidates_empty_iff [OF assms] by blast
    moreover have "safeToUse ?plan" by (simp add: safeToUse_def 1(2) fillExisting_def)
    ultimately show ?thesis by blast
  next
    case 2
    then show ?thesis using created_plan [OF 2(2)] by (simp add: safeToUse_def)
  next
    case 3
    then show ?thesis
      using candidates_empty_iff [OF assms] by (auto simp: safeToUse_def)
  qed
qed

subsection \<open>Concrete plans\<close>

definition example_request :: "bool \<Rightarrow> War3Stage11LifetimePageRequest" where
  "example_request gate =
    \<lparr>rq_requiredBytes = 1000000, rq_residentBytes = 33554432,
     rq_capBytes = kWar3Stage11SnapshotResidentCapBytes, rq_mapEpoch = 3, rq_deviceEpoch = 2,
     rq_maxPages = 32, rq_pageCreateGateOpen = gate, rq_sameRetentionIntentOnly = True,
     rq_lifetime = ShortLived\<rparr>"

definition example_page :: "u64 \<Rightarrow> u64 \<Rightarrow> War3Stage11PageLifetime \<Rightarrow> War3Stage11LifetimePageView" where
  "example_page i used l =
    \<lparr>pv_id = i, pv_capacity = 16777216, pv_used = used, pv_lifetime = l, pv_ownerState = Active,
     pv_mapEpoch = 3, pv_deviceEpoch = 2\<rparr>"

definition example_full :: "War3Stage11LifetimePageView list" where
  "example_full = [example_page 1 8388608 LongLived, example_page 2 16777216 ShortLived]"

definition example_tail :: "War3Stage11LifetimePageView list" where
  "example_tail = [example_page 1 8388608 LongLived, example_page 2 4194304 ShortLived]"

lemma existing_page_plan_sound_witness:
  "usesExistingPage (War3PlanStage11LifetimePage (example_request True) (Some example_tail) 2) \<and>
   (\<exists>p \<in> set (viewedPages (Some example_tail) 2). page_has_room (example_request True) p)"
proof -
  have u: "usesExistingPage (War3PlanStage11LifetimePage (example_request True) (Some example_tail) 2)"
    by code_simp
  show ?thesis using existing_page_plan_sound [OF u] u by blast
qed

lemma new_page_plan_sound_witness:
  "createsPage (War3PlanStage11LifetimePage (example_request True) (Some example_full) 2) \<and>
   2 < rq_maxPages (example_request True)"
proof -
  have u: "createsPage (War3PlanStage11LifetimePage (example_request True) (Some example_full) 2)"
    by code_simp
  show ?thesis using new_page_plan_sound [OF u] u by blast
qed

lemma mixed_lifetime_only_when_blocked_witness:
  "pl_mixedLifetimeBorrow (War3PlanStage11LifetimePage (example_request False) (Some example_full) 2) \<and>
   (\<exists>w. \<not> creation_allowed (example_request False) w 2)"
proof -
  have u: "pl_mixedLifetimeBorrow (War3PlanStage11LifetimePage (example_request False) (Some example_full) 2)"
    "usesExistingPage (War3PlanStage11LifetimePage (example_request False) (Some example_full) 2)"
    by code_simp+
  show ?thesis using mixed_lifetime_only_when_blocked [OF u] u by blast
qed

lemma no_selection_iff_no_place_witness:
  "safeToUse (War3PlanStage11LifetimePage (example_request False) (Some example_full) 2)"
proof -
  have a: "accepted (example_request False) (Some example_full) 2 1000192" by code_simp
  have "\<exists>p \<in> set (viewedPages (Some example_full) 2). page_has_room (example_request False) p"
    by (simp add: viewedPages_def example_full_def example_page_def example_request_def
        page_has_room_def align256_def)
  then show ?thesis using no_selection_iff_no_place [OF a] by blast
qed

end
