(* ===== verification/SnapshotSlices.thy ===== *)
theory SnapshotSlices
  imports War3Prelude "HOL-Library.Multiset"
begin

section \<open>The slice table of a snapshot page\<close>

text \<open>
  \<open>src/src/d3d9/war3/memory/war3_snapshot_slice.h\<close>: reference-counted slots that each
  own one interval of a page, the census that finds a hole between live intervals and
  the negative cache that skips hopeless censuses. The template parameter \<open>Slots\<close> is
  the length of the slot list. A slot is named by its index (the source's pointer into
  the table); its \<open>m_revision\<close> pointer always points to the counter of the same table
  and is left out.
\<close>

subsection \<open>The interface\<close>

text \<open>
  What the pool needs of a table: which interval each slot keeps alive; that a claim
  adds exactly its interval under a free slot, that a release at most removes, and
  that a hole that is found lies inside the page and off every live interval.
\<close>

definition live_disjoint :: "(nat \<rightharpoonup> interval) \<Rightarrow> bool" where
  "live_disjoint m \<longleftrightarrow>
     (\<forall>i j p q. i \<noteq> j \<longrightarrow> m i = Some p \<longrightarrow> m j = Some q \<longrightarrow> disjoint_iv p q)"

lemma live_disjoint_mono: "m \<subseteq>\<^sub>m m' \<Longrightarrow> live_disjoint m' \<Longrightarrow> live_disjoint m"
  by (force simp: live_disjoint_def map_le_def dom_def)

lemma live_disjoint_upd:
  assumes "live_disjoint m" and "m i = None" and "\<forall>p \<in> ran m. disjoint_iv p q"
  shows "live_disjoint (m(i \<mapsto> q))"
  using assms by (auto simp: live_disjoint_def disjoint_iv_sym intro: ranI)

locale slice_store =
  fixes live :: "'t \<Rightarrow> nat \<rightharpoonup> interval"
    and claim :: "'t \<Rightarrow> 'o \<Rightarrow> u64 \<Rightarrow> u64 \<Rightarrow> nat option \<times> 't"
    and release :: "'t \<Rightarrow> nat \<Rightarrow> 't"
    and find_hole :: "'t \<Rightarrow> u64 \<Rightarrow> u64 \<Rightarrow> u64 option \<times> 't"
  assumes claim_live: "claim t owner off n = (Some i, t') \<Longrightarrow>
      live t i = None \<and> live t' = (live t)(i \<mapsto> (unat off, unat off + unat n))"
    and claim_refused: "claim t owner off n = (None, t') \<Longrightarrow> t' = t"
    and release_live: "live (release t i) \<subseteq>\<^sub>m live t"
    and find_live: "find_hole t cap n = (r, t') \<Longrightarrow> live t' \<subseteq>\<^sub>m live t"
    and find_sound: "find_hole t cap n = (Some off, t') \<Longrightarrow>
      unat off + unat n \<le> unat cap \<and>
      (\<forall>p \<in> ran (live t). disjoint_iv p (unat off, unat off + unat n))"
begin

lemma claim_hole_disjoint:
  assumes "live_disjoint (live t)" and "find_hole t cap n = (Some off, t1)"
    and "claim t1 owner off n = (Some i, t2)"
  shows "live_disjoint (live t2)"
proof -
  note sub = find_live [OF assms(2)]
  have "live_disjoint (live t1)" using sub assms(1) by (rule live_disjoint_mono)
  moreover have "ran (live t1) \<subseteq> ran (live t)" by (rule map_le_ran [OF sub])
  then have "\<forall>p \<in> ran (live t1). disjoint_iv p (unat off, unat off + unat n)"
    using find_sound [OF assms(2)] by blast
  ultimately show ?thesis
    using claim_live [OF assms(3)] live_disjoint_upd [of "live t1" i] by simp
qed

lemma claim_tail_disjoint:
  assumes "live_disjoint (live t)" and "\<forall>p \<in> ran (live t). snd p \<le> unat off"
    and "claim t owner off n = (r, t')"
  shows "live_disjoint (live t')"
proof (cases r)
  case None
  then show ?thesis using assms(1,3) claim_refused [of t owner off n t'] by simp
next
  case (Some i)
  then show ?thesis
    using live_disjoint_upd [OF assms(1)] assms(2,3) claim_live by (auto simp: disjoint_iv_def)
qed

lemma release_disjoint: "live_disjoint (live t) \<Longrightarrow> live_disjoint (live (release t i))"
  by (rule live_disjoint_mono [OF release_live])

end

subsection \<open>Slots and the table\<close>

record 'o SnapshotSlice =
  sl_refs :: u32
  sl_available :: bool
  sl_owner :: "'o option"
  sl_offset :: u64
  sl_size :: u64

record 'o SnapshotSliceTable =
  tb_slots :: "'o SnapshotSlice list"
  tb_hint :: nat
  tb_revision :: u64
  tb_failedRevision :: u64
  tb_failedCapacity :: u64
  tb_failedBytes :: u64

definition free_slice :: "'o SnapshotSlice" where
  "free_slice =
    \<lparr>sl_refs = 0, sl_available = True, sl_owner = None, sl_offset = 0, sl_size = 0\<rparr>"

definition empty_table :: "nat \<Rightarrow> 'o SnapshotSliceTable" where
  "empty_table slots =
    \<lparr>tb_slots = replicate slots free_slice, tb_hint = 0, tb_revision = 0,
     tb_failedRevision = 0, tb_failedCapacity = 0, tb_failedBytes = 0\<rparr>"

definition set_slot :: "'o SnapshotSliceTable \<Rightarrow> nat \<Rightarrow> 'o SnapshotSlice \<Rightarrow> 'o SnapshotSliceTable" where
  "set_slot t i s = t\<lparr>tb_slots := (tb_slots t)[i := s]\<rparr>"

definition incRef :: "'o SnapshotSliceTable \<Rightarrow> nat \<Rightarrow> 'o SnapshotSliceTable" where
  "incRef t i = (let s = tb_slots t ! i in set_slot t i (s\<lparr>sl_refs := sl_refs s + 1\<rparr>))"

text \<open>Only the release that takes the count from one to zero frees the slot.\<close>

definition decRef :: "'o SnapshotSliceTable \<Rightarrow> nat \<Rightarrow> 'o SnapshotSliceTable" where
  "decRef t i =
    (let s = tb_slots t ! i; s' = s\<lparr>sl_refs := sl_refs s - 1\<rparr>
     in if sl_refs s \<noteq> 1 then set_slot t i s'
        else (set_slot t i (s'\<lparr>sl_owner := None, sl_available := True\<rparr>))
               \<lparr>tb_revision := tb_revision t + 1\<rparr>)"

text \<open>The probe of \<open>claim\<close>: the first available slot in ring order from the hint.\<close>

fun probe :: "'o SnapshotSlice list \<Rightarrow> nat \<Rightarrow> nat list \<Rightarrow> nat option" where
  "probe slots hint [] = None"
| "probe slots hint (n # ns) =
    (let i = (hint + n) mod length slots
     in if sl_available (slots ! i) then Some i else probe slots hint ns)"

definition claim ::
  "'o SnapshotSliceTable \<Rightarrow> 'o option \<Rightarrow> u64 \<Rightarrow> u64 \<Rightarrow> nat option \<times> 'o SnapshotSliceTable" where
  "claim t owner offset bytes =
    (if owner = None \<or> bytes = 0 \<or> offset > UINT64_MAX - bytes then (None, t)
     else case probe (tb_slots t) (tb_hint t) [0..<length (tb_slots t)] of
       None \<Rightarrow> (None, t)
     | Some i \<Rightarrow>
         (Some i,
          (set_slot t i \<lparr>sl_refs = 1, sl_available = False, sl_owner = owner,
                         sl_offset = offset, sl_size = bytes\<rparr>)
            \<lparr>tb_revision := tb_revision t + 1, tb_hint := (i + 1) mod length (tb_slots t)\<rparr>))"

definition hasSlot :: "'o SnapshotSliceTable \<Rightarrow> bool" where
  "hasSlot t \<longleftrightarrow> sl_available (tb_slots t ! tb_hint t) \<or> list_ex sl_available (tb_slots t)"

definition liveBytes :: "'o SnapshotSliceTable \<Rightarrow> u64" where
  "liveBytes t = foldl (\<lambda>b s. if sl_available s then b else b + sl_size s) 0 (tb_slots t)"

subsection \<open>The census\<close>

text \<open>The spans of the live slots, or None when one is not inside the capacity.\<close>

fun spans_of :: "u64 \<Rightarrow> 'o SnapshotSlice list \<Rightarrow> (u64 \<times> u64) list option" where
  "spans_of capacity [] = Some []"
| "spans_of capacity (s # ss) =
    (if sl_available s then spans_of capacity ss
     else if sl_offset s > capacity \<or> sl_size s > capacity - sl_offset s then None
     else map_option (\<lambda>spans. (sl_offset s, sl_offset s + sl_size s) # spans)
            (spans_of capacity ss))"

fun scan_spans :: "u64 \<Rightarrow> u64 \<Rightarrow> u64 \<Rightarrow> (u64 \<times> u64) list \<Rightarrow> u64 option" where
  "scan_spans capacity bytes cursor [] =
    (if cursor \<le> capacity \<and> bytes \<le> capacity - cursor then Some cursor else None)"
| "scan_spans capacity bytes cursor ((b, e) # spans) =
    (if b \<ge> cursor \<and> bytes \<le> b - cursor then Some cursor
     else scan_spans capacity bytes (max cursor e) spans)"

text \<open>
  \<open>findHole\<close>. The revision is read before the census and again before the failure is
  cached; \<open>late\<close> are the slots other threads release in between. The offset is an
  option (the source's out parameter is untouched on failure).
\<close>

definition findHole ::
  "nat list \<Rightarrow> 'o SnapshotSliceTable \<Rightarrow> u64 \<Rightarrow> u64 \<Rightarrow> u64 option \<times> 'o SnapshotSliceTable" where
  "findHole late t capacity bytes =
    (if bytes = 0 \<or> bytes > capacity then (None, t)
     else
       let revision = tb_revision t
       in if tb_failedBytes t \<noteq> 0 \<and> tb_failedRevision t = revision \<and>
             tb_failedCapacity t = capacity \<and> bytes \<ge> tb_failedBytes t
          then (None, t)
          else case spans_of capacity (tb_slots t) of
            None \<Rightarrow> (None, t)
          | Some spans \<Rightarrow>
              (case scan_spans capacity bytes 0 (sort_key fst spans) of
                 Some offset \<Rightarrow> (Some offset, t)
               | None \<Rightarrow>
                   (let t' = foldl decRef t late
                    in if tb_revision t' = revision
                       then (None, t'\<lparr>tb_failedRevision := revision, tb_failedCapacity := capacity,
                                      tb_failedBytes := bytes\<rparr>)
                       else (None, t'))))"

text \<open>Which leases a draw keeps for the tracker; a lease is a slot of a page, None the null pointer.\<close>

definition TrackSnapshotSlices ::
  "'lease option \<Rightarrow> 'lease option \<Rightarrow> 'lease option \<Rightarrow> 'lease list \<Rightarrow> 'lease list" where
  "TrackSnapshotSlices positionLease indexLease uvLease tracker =
    (let t1 = tracker @ (case positionLease of None \<Rightarrow> [] | Some l \<Rightarrow> [l]);
         t2 = t1 @ (case indexLease of None \<Rightarrow> [] | Some l \<Rightarrow> [l])
     in t2 @ (case uvLease of None \<Rightarrow> [] | Some l \<Rightarrow> if uvLease \<noteq> positionLease then [l] else []))"

subsection \<open>What is live\<close>

definition slice_iv :: "'o SnapshotSlice \<Rightarrow> interval" where
  "slice_iv s = (unat (sl_offset s), unat (sl_offset s) + unat (sl_size s))"

definition live_iv :: "'o SnapshotSliceTable \<Rightarrow> nat \<rightharpoonup> interval" where
  "live_iv t i =
    (if i < length (tb_slots t) \<and> \<not> sl_available (tb_slots t ! i)
     then Some (slice_iv (tb_slots t ! i)) else None)"

lemma live_iv_set: "ran (live_iv t) = slice_iv ` {s \<in> set (tb_slots t). \<not> sl_available s}"
proof (intro set_eqI iffI)
  fix p assume "p \<in> ran (live_iv t)"
  then show "p \<in> slice_iv ` {s \<in> set (tb_slots t). \<not> sl_available s}"
    by (auto simp: live_iv_def ran_def split: if_splits)
next
  fix p assume "p \<in> slice_iv ` {s \<in> set (tb_slots t). \<not> sl_available s}"
  then obtain i where "i < length (tb_slots t)" "\<not> sl_available (tb_slots t ! i)"
    "p = slice_iv (tb_slots t ! i)" by (auto simp: in_set_conv_nth)
  then have "live_iv t i = Some p" by (simp add: live_iv_def)
  then show "p \<in> ran (live_iv t)" by (rule ranI)
qed

lemma probe_some:
  "probe slots hint ns = Some i \<Longrightarrow> slots \<noteq> [] \<Longrightarrow> i < length slots \<and> sl_available (slots ! i)"
  by (induction ns) (auto simp: Let_def split: if_splits)

lemma probe_none:
  "probe slots hint ns = None \<Longrightarrow> n \<in> set ns \<Longrightarrow>
    \<not> sl_available (slots ! ((hint + n) mod length slots))"
  by (induction ns) (auto simp: Let_def split: if_splits)

text \<open>The ring probe visits every slot: it fails only when none is available.\<close>

lemma probe_complete:
  assumes "probe slots hint [0..<length slots] = None" and "i < length slots"
  shows "\<not> sl_available (slots ! i)"
proof -
  let ?L = "length slots"
  let ?n = "(i + ?L - hint mod ?L) mod ?L"
  have m: "hint mod ?L < ?L" using assms(2) by (intro mod_less_divisor) auto
  have "(hint + ?n) mod ?L = (hint mod ?L + (i + ?L - hint mod ?L)) mod ?L"
    by (simp add: mod_simps)
  also have "\<dots> = i" using m assms(2) by simp
  finally have eq: "(hint + ?n) mod ?L = i" .
  have "?n < ?L" by (rule mod_less_divisor) (use m in auto)
  then have "?n \<in> set [0..<?L]" by simp
  from probe_none [OF assms(1) this] show ?thesis unfolding eq .
qed

lemma claim_cases:
  assumes "claim t owner off n = (r, t')"
  obtains (refused) "r = None" "t' = t"
    | (claimed) i where "r = Some i" "i < length (tb_slots t)" "sl_available (tb_slots t ! i)"
      "owner \<noteq> None" "n \<noteq> 0" "unat off + unat n < 2 ^ 64"
      "tb_slots t' = (tb_slots t)[i := \<lparr>sl_refs = 1, sl_available = False, sl_owner = owner,
         sl_offset = off, sl_size = n\<rparr>]"
      "tb_revision t' = tb_revision t + 1"
      "tb_failedRevision t' = tb_failedRevision t" "tb_failedCapacity t' = tb_failedCapacity t"
      "tb_failedBytes t' = tb_failedBytes t"
proof (cases "owner = None \<or> n = 0 \<or> off > UINT64_MAX - n \<or>
    probe (tb_slots t) (tb_hint t) [0..<length (tb_slots t)] = None")
  case True
  then show ?thesis using assms refused by (auto simp: claim_def split: if_splits)
next
  case False
  then obtain i where i: "probe (tb_slots t) (tb_hint t) [0..<length (tb_slots t)] = Some i" by auto
  then have "tb_slots t \<noteq> []" by auto
  note pr = probe_some [OF i this]
  have "unat off + unat n < 2 ^ 64"
    using False by (intro unat_add_below_max) (simp add: not_less)
  then show ?thesis
    using assms False i pr by (intro claimed [of i]) (auto simp: claim_def set_slot_def)
qed

lemma decRef_slots:
  "tb_slots (decRef t i) = (tb_slots t)[i :=
    (let s = tb_slots t ! i
     in if sl_refs s = 1 then s\<lparr>sl_refs := 0, sl_owner := None, sl_available := True\<rparr>
        else s\<lparr>sl_refs := sl_refs s - 1\<rparr>)]"
  by (simp add: decRef_def set_slot_def Let_def)

lemma live_decRef: "live_iv (decRef t i) \<subseteq>\<^sub>m live_iv t"
  by (auto simp: map_le_def dom_def live_iv_def decRef_slots nth_update_if Let_def slice_iv_def
      split: if_splits)

lemma live_decRefs: "live_iv (foldl decRef t is) \<subseteq>\<^sub>m live_iv t"
proof (induction "is" arbitrary: t)
  case (Cons i "is")
  show ?case using map_le_trans [OF Cons.IH live_decRef] by simp
qed simp

lemma claim_live_iv:
  assumes "claim t owner off n = (Some i, t')"
  shows "live_iv t i = None" "live_iv t' = (live_iv t)(i \<mapsto> (unat off, unat off + unat n))"
  using assms
  by (cases rule: claim_cases;
      auto simp: live_iv_def fun_eq_iff nth_update_if slice_iv_def)+

subsection \<open>The census finds the lowest hole\<close>

definition is_hole :: "'o SnapshotSliceTable \<Rightarrow> nat \<Rightarrow> nat \<Rightarrow> nat \<Rightarrow> bool" where
  "is_hole t cap n h \<longleftrightarrow>
     h + n \<le> cap \<and> (\<forall>p \<in> ran (live_iv t). disjoint_iv p (h, h + n))"

lemma is_hole_smaller: "is_hole t cap n h \<Longrightarrow> m \<le> n \<Longrightarrow> is_hole t cap m h"
  by (auto simp: is_hole_def disjoint_iv_def)

lemma is_hole_live: "live_iv t' = live_iv t \<Longrightarrow> is_hole t' = is_hole t"
  by (intro ext) (simp add: is_hole_def)

definition span_nat :: "u64 \<times> u64 \<Rightarrow> interval" where
  "span_nat p = (unat (fst p), unat (snd p))"

lemma spans_some:
  "spans_of cap ss = Some spans \<Longrightarrow>
    map span_nat spans = map slice_iv (filter (\<lambda>s. \<not> sl_available s) ss) \<and>
    (\<forall>p \<in> set spans. fst p \<le> snd p \<and> snd p \<le> cap)"
proof (induction ss arbitrary: spans)
  case (Cons s ss)
  show ?case
  proof (cases "sl_available s")
    case True
    then show ?thesis using Cons by simp
  next
    case False
    then have fits: "sl_offset s \<le> cap" "sl_size s \<le> cap - sl_offset s"
      using Cons.prems by (auto simp: not_less split: if_splits)
    obtain rest where rest: "spans_of cap ss = Some rest"
      and spans: "spans = (sl_offset s, sl_offset s + sl_size s) # rest"
      using Cons.prems False by (auto split: if_splits)
    have le: "unat (sl_offset s) + unat (sl_size s) \<le> unat cap"
      using unat_add_le_sub [OF fits] by simp
    note sum = unat_add_no_wrap [OF le]
    show ?thesis
      using Cons.IH [OF rest] False le sum
      by (simp add: spans span_nat_def slice_iv_def word_le_nat_alt)
  qed
qed simp

lemma spans_none:
  "spans_of cap ss = None \<Longrightarrow> \<exists>s \<in> set ss. \<not> sl_available s \<and> unat cap < snd (slice_iv s)"
proof (induction ss)
  case (Cons s ss)
  have "unat cap < snd (slice_iv s)" if "sl_offset s > cap \<or> sl_size s > cap - sl_offset s"
    using that by (auto simp: slice_iv_def word_less_nat_alt unat_sub_if' split: if_splits)
  then show ?case
    using Cons by (auto split: if_splits)
qed simp

lemma scan_sound:
  "scan_spans cap n cursor spans = Some h \<Longrightarrow> sorted (map fst spans) \<Longrightarrow>
    \<forall>p \<in> set spans. fst p \<le> cap \<Longrightarrow>
    unat cursor \<le> unat h \<and> unat h + unat n \<le> unat cap \<and>
    (\<forall>p \<in> set spans. disjoint_iv (span_nat p) (unat h, unat h + unat n))"
proof (induction spans arbitrary: cursor)
  case Nil
  then show ?case
    using unat_add_le_sub [of cursor cap n] by (auto split: if_splits)
next
  case (Cons p spans)
  obtain b e where p: "p = (b, e)" by (cases p)
  show ?case
  proof (cases "b \<ge> cursor \<and> n \<le> b - cursor")
    case True
    then have h: "h = cursor" using Cons.prems(1) by (simp add: p)
    have "unat n + unat cursor \<le> unat b" using True by (intro unat_add_le_sub) auto
    moreover have "unat b \<le> unat (fst q)" if "q \<in> set spans" for q
      using Cons.prems(2) that by (auto simp: p word_le_nat_alt)
    moreover have "unat b \<le> unat cap" using Cons.prems(3) by (simp add: p word_le_nat_alt)
    ultimately show ?thesis by (fastforce simp: h p disjoint_iv_def span_nat_def)
  next
    case False
    then have r: "scan_spans cap n (max cursor e) spans = Some h"
      using Cons.prems(1) by (auto simp: p)
    note IH = Cons.IH [OF r]
    show ?thesis
      using IH Cons.prems(2,3) by (auto simp: p disjoint_iv_def span_nat_def unat_max)
  qed
qed

lemma scan_complete:
  "unat cursor \<le> h \<Longrightarrow> h + unat n \<le> unat cap \<Longrightarrow>
    \<forall>p \<in> set spans. disjoint_iv (span_nat p) (h, h + unat n) \<Longrightarrow>
    \<exists>h'. scan_spans cap n cursor spans = Some h' \<and> unat h' \<le> h"
proof (induction spans arbitrary: cursor)
  case Nil
  then have "cursor \<le> cap \<and> n \<le> cap - cursor"
    by (auto simp: word_le_nat_alt unat_sub_if')
  then show ?case using Nil by auto
next
  case (Cons p spans)
  obtain b e where p: "p = (b, e)" by (cases p)
  show ?case
  proof (cases "b \<ge> cursor \<and> n \<le> b - cursor")
    case True
    then show ?thesis using Cons.prems by (simp add: p)
  next
    case False
    then have "\<not> unat cursor + unat n \<le> unat b"
      by (auto simp: word_le_nat_alt unat_sub_if')
    then have "unat e \<le> h"
      using Cons.prems(1,3) by (auto simp: p disjoint_iv_def span_nat_def)
    then have "unat (max cursor e) \<le> h" using Cons.prems(1) by (simp add: unat_max)
    from Cons.IH [OF this Cons.prems(2)] show ?thesis
      using Cons.prems(3) False by (auto simp: p)
  qed
qed

text \<open>The census as one fact about the live intervals: it finds the lowest hole, or there is none.\<close>

lemma census:
  assumes "spans_of cap (tb_slots t) = Some spans"
  shows "case scan_spans cap n 0 (sort_key fst spans) of
      Some h \<Rightarrow> is_hole t (unat cap) (unat n) (unat h) \<and>
        (\<forall>k. is_hole t (unat cap) (unat n) k \<longrightarrow> unat h \<le> k)
    | None \<Rightarrow> \<not> (\<exists>k. is_hole t (unat cap) (unat n) k)"
proof -
  note sp = spans_some [OF assms]
  have "set (map span_nat spans) = slice_iv ` {s \<in> set (tb_slots t). \<not> sl_available s}"
    using sp by auto
  then have live: "span_nat ` set (sort_key fst spans) = ran (live_iv t)"
    by (simp add: live_iv_set)
  have fin: "\<forall>p \<in> set (sort_key fst spans). fst p \<le> cap"
    using sp by (auto intro: order_trans)
  have complete: "\<exists>h'. scan_spans cap n 0 (sort_key fst spans) = Some h' \<and> unat h' \<le> k"
    if "is_hole t (unat cap) (unat n) k" for k
    using that unfolding is_hole_def live [symmetric] by (intro scan_complete) auto
  show ?thesis
  proof (cases "scan_spans cap n 0 (sort_key fst spans)")
    case None
    then show ?thesis using complete by auto
  next
    case (Some h)
    have "sorted (map fst (sort_key fst spans))" by (rule sorted_sort_key)
    from scan_sound [OF Some this fin] have "is_hole t (unat cap) (unat n) (unat h)"
      unfolding is_hole_def live [symmetric] by auto
    then show ?thesis using complete Some by fastforce
  qed
qed

lemma findHole_live: "findHole late t cap n = (r, t') \<Longrightarrow> live_iv t' \<subseteq>\<^sub>m live_iv t"
proof -
  have "live_iv (tab\<lparr>tb_failedRevision := a, tb_failedCapacity := b, tb_failedBytes := c\<rparr>) = live_iv tab"
    for tab :: "'a SnapshotSliceTable" and a b c
    by (simp add: live_iv_def fun_eq_iff)
  then show "findHole late t cap n = (r, t') \<Longrightarrow> live_iv t' \<subseteq>\<^sub>m live_iv t"
    using live_decRefs [of t late]
    by (auto simp: findHole_def Let_def split: if_splits option.splits)
qed

lemma findHole_some:
  assumes "findHole late t cap n = (Some h, t')"
  shows "t' = t" "is_hole t (unat cap) (unat n) (unat h)"
    "is_hole t (unat cap) (unat n) k \<Longrightarrow> unat h \<le> k"
proof -
  obtain spans where s: "spans_of cap (tb_slots t) = Some spans"
    and r: "scan_spans cap n 0 (sort_key fst spans) = Some h" and "t' = t"
    using assms by (auto simp: findHole_def Let_def split: if_splits option.splits)
  then show "t' = t" by simp
  show "is_hole t (unat cap) (unat n) (unat h)"
    and "is_hole t (unat cap) (unat n) k \<Longrightarrow> unat h \<le> k"
    using census [OF s, of n] r by auto
qed

interpretation slices: slice_store live_iv "\<lambda>t owner. claim t (Some owner)" decRef "findHole late"
proof
  fix t :: "'a SnapshotSliceTable" and owner :: 'a and cap off n :: u64 and i t' r
  show "claim t (Some owner) off n = (Some i, t') \<Longrightarrow>
      live_iv t i = None \<and> live_iv t' = (live_iv t)(i \<mapsto> (unat off, unat off + unat n))"
    using claim_live_iv by blast
  show "claim t (Some owner) off n = (None, t') \<Longrightarrow> t' = t"
    by (erule claim_cases) auto
  show "findHole late t cap n = (r, t') \<Longrightarrow> live_iv t' \<subseteq>\<^sub>m live_iv t" by (rule findHole_live)
  show "findHole late t cap n = (Some off, t') \<Longrightarrow>
      unat off + unat n \<le> unat cap \<and>
      (\<forall>p \<in> ran (live_iv t). disjoint_iv p (unat off, unat off + unat n))"
    using findHole_some(2) [of late t cap n off t'] by (simp add: is_hole_def)
qed (rule live_decRef)

subsection \<open>Runs of operations\<close>

datatype 'o slice_event =
    Claim 'o u64 u64 "nat option"
  | Retain nat
  | Release nat
  | Find "nat list" u64 u64 "u64 option"

text \<open>
  References are counted by their holders: only a live slot is retained or released,
  and the 32-bit count does not wrap.
\<close>

fun releases_ok :: "'o SnapshotSliceTable \<Rightarrow> nat list \<Rightarrow> bool" where
  "releases_ok t [] = True"
| "releases_ok t (i # is) = (live_iv t i \<noteq> None \<and> releases_ok (decRef t i) is)"

inductive slice_step ::
  "'o SnapshotSliceTable \<Rightarrow> 'o slice_event \<Rightarrow> 'o SnapshotSliceTable \<Rightarrow> bool" where
  step_claim: "claim t (Some owner) off n = (r, t') \<Longrightarrow> slice_step t (Claim owner off n r) t'"
| step_retain: "live_iv t i \<noteq> None \<Longrightarrow> sl_refs (tb_slots t ! i) \<noteq> UINT32_MAX \<Longrightarrow>
    slice_step t (Retain i) (incRef t i)"
| step_release: "live_iv t i \<noteq> None \<Longrightarrow> slice_step t (Release i) (decRef t i)"
| step_find: "findHole late t cap n = (r, t') \<Longrightarrow> releases_ok t late \<Longrightarrow>
    slice_step t (Find late cap n r) t'"

inductive_cases slice_step_cases: "slice_step t e t'"

inductive slice_run ::
  "'o SnapshotSliceTable \<Rightarrow> 'o slice_event list \<Rightarrow> 'o SnapshotSliceTable \<Rightarrow> bool" where
  run_none: "slice_run t [] t"
| run_more: "slice_step t e t' \<Longrightarrow> slice_run t' es t'' \<Longrightarrow> slice_run t (e # es) t''"

inductive_cases slice_run_cases: "slice_run t es t'"

text \<open>How often an event can advance the 64-bit revision counter.\<close>

fun event_cost :: "'o slice_event \<Rightarrow> nat" where
  "event_cost (Find late cap n r) = length late"
| "event_cost e = 1"

definition run_cost :: "'o slice_event list \<Rightarrow> nat" where
  "run_cost es = sum_list (map event_cost es)"

definition slot_ok :: "'o SnapshotSlice \<Rightarrow> bool" where
  "slot_ok s \<longleftrightarrow>
     (sl_available s \<longleftrightarrow> sl_refs s = 0) \<and> (sl_available s \<longleftrightarrow> sl_owner s = None) \<and>
     (\<not> sl_available s \<longrightarrow> sl_size s \<noteq> 0 \<and> unat (sl_offset s) + unat (sl_size s) < 2 ^ 64)"

text \<open>The negative cache only remembers what is still true while the revision stands.\<close>

definition cache_ok :: "'o SnapshotSliceTable \<Rightarrow> bool" where
  "cache_ok t \<longleftrightarrow>
     unat (tb_failedRevision t) \<le> unat (tb_revision t) \<and>
     (tb_failedBytes t \<noteq> 0 \<and> tb_failedRevision t = tb_revision t \<longrightarrow>
       \<not> (\<exists>k. is_hole t (unat (tb_failedCapacity t)) (unat (tb_failedBytes t)) k))"

definition table_ok :: "'o SnapshotSliceTable \<Rightarrow> bool" where
  "table_ok t \<longleftrightarrow> (\<forall>s \<in> set (tb_slots t). slot_ok s) \<and> cache_ok t"

lemma empty_table_ok: "table_ok (empty_table k)"
  by (auto simp: table_ok_def empty_table_def slot_ok_def free_slice_def cache_ok_def)

subsection \<open>The invariant is kept\<close>

lemma cache_ok_newer:
  "unat (tb_failedRevision t) < unat (tb_revision t) \<Longrightarrow> cache_ok t"
  by (auto simp: cache_ok_def)

lemma slots_update_ok:
  "\<forall>s \<in> set slots. slot_ok s \<Longrightarrow> slot_ok s' \<Longrightarrow> \<forall>s \<in> set (slots[i := s']). slot_ok s"
  using set_update_subset_insert [of slots i s'] by blast

lemma unat_succ: "unat (r :: u64) + 1 < 2 ^ 64 \<Longrightarrow> unat (r + 1) = unat r + 1"
  by (simp add: unat_plus_if')

lemma claim_table_ok:
  assumes "claim t (Some owner) off n = (r, t')" and "table_ok t"
    and "unat (tb_revision t) + 1 < 2 ^ 64"
  shows "table_ok t' \<and> unat (tb_revision t') \<le> unat (tb_revision t) + 1"
  using assms(1)
proof (cases rule: claim_cases)
  case refused
  then show ?thesis using assms(2) by simp
next
  case (claimed i)
  have "cache_ok t'"
    using assms(2,3) claimed(8,9) unat_succ
    by (intro cache_ok_newer) (simp add: table_ok_def cache_ok_def)
  moreover have "\<forall>s \<in> set (tb_slots t'). slot_ok s"
    unfolding claimed(7)
  proof (rule slots_update_ok)
    show "\<forall>s \<in> set (tb_slots t). slot_ok s" using assms(2) by (simp add: table_ok_def)
  qed (use claimed(5,6) in \<open>simp add: slot_ok_def\<close>)
  ultimately show ?thesis
    using unat_succ [OF assms(3)] by (simp add: table_ok_def claimed(8))
qed

lemma live_slot:
  assumes "live_iv t i \<noteq> None" and "table_ok t"
  shows "i < length (tb_slots t)" "\<not> sl_available (tb_slots t ! i)" "slot_ok (tb_slots t ! i)"
    "sl_refs (tb_slots t ! i) \<noteq> 0"
proof -
  show i: "i < length (tb_slots t)" and a: "\<not> sl_available (tb_slots t ! i)"
    using assms(1) by (auto simp: live_iv_def split: if_splits)
  show ok: "slot_ok (tb_slots t ! i)" using assms(2) i by (simp add: table_ok_def)
  show "sl_refs (tb_slots t ! i) \<noteq> 0" using ok a by (simp add: slot_ok_def)
qed

lemma incRef_table_ok:
  assumes "live_iv t i \<noteq> None" and "sl_refs (tb_slots t ! i) \<noteq> UINT32_MAX" and "table_ok t"
  shows "table_ok (incRef t i) \<and> tb_revision (incRef t i) = tb_revision t \<and>
    live_iv (incRef t i) = live_iv t"
proof -
  note s = live_slot [OF assms(1,3)]
  have nz: "sl_refs (tb_slots t ! i) + 1 \<noteq> 0"
    using assms(2) by (metis add.inverse_unique add.commute)
  have live: "live_iv (incRef t i) = live_iv t"
    using s by (auto simp: incRef_def set_slot_def Let_def live_iv_def fun_eq_iff nth_update_if
        slice_iv_def)
  have "\<forall>u \<in> set (tb_slots (incRef t i)). slot_ok u"
  proof -
    have "slot_ok ((tb_slots t ! i)\<lparr>sl_refs := sl_refs (tb_slots t ! i) + 1\<rparr>)"
      using s nz by (simp add: slot_ok_def)
    moreover have "\<forall>u \<in> set (tb_slots t). slot_ok u" using assms(3) by (simp add: table_ok_def)
    moreover have "tb_slots (incRef t i) =
        (tb_slots t)[i := (tb_slots t ! i)\<lparr>sl_refs := sl_refs (tb_slots t ! i) + 1\<rparr>]"
      by (simp add: incRef_def set_slot_def Let_def)
    ultimately show ?thesis using slots_update_ok by metis
  qed
  moreover have "cache_ok (incRef t i)"
    using assms(3) is_hole_live [OF live]
    by (simp add: table_ok_def cache_ok_def incRef_def set_slot_def Let_def)
  ultimately show ?thesis
    using live by (simp add: table_ok_def) (simp add: incRef_def set_slot_def Let_def)
qed

lemma decRef_table_ok:
  assumes "live_iv t i \<noteq> None" and "table_ok t" and "unat (tb_revision t) + 1 < 2 ^ 64"
  shows "table_ok (decRef t i)"
    and "if sl_refs (tb_slots t ! i) = 1 then unat (tb_revision (decRef t i)) = unat (tb_revision t) + 1
         else tb_revision (decRef t i) = tb_revision t \<and> live_iv (decRef t i) = live_iv t"
proof -
  note s = live_slot [OF assms(1,2)]
  let ?one = "sl_refs (tb_slots t ! i) = 1"
  have rev: "tb_revision (decRef t i) = (if ?one then tb_revision t + 1 else tb_revision t)"
    and failed: "tb_failedRevision (decRef t i) = tb_failedRevision t"
    "tb_failedCapacity (decRef t i) = tb_failedCapacity t"
    "tb_failedBytes (decRef t i) = tb_failedBytes t"
    by (simp_all add: decRef_def set_slot_def Let_def)
  have live: "\<not> ?one \<Longrightarrow> live_iv (decRef t i) = live_iv t"
    using s by (auto simp: decRef_slots Let_def live_iv_def fun_eq_iff nth_update_if slice_iv_def)
  then show "if ?one then unat (tb_revision (decRef t i)) = unat (tb_revision t) + 1
      else tb_revision (decRef t i) = tb_revision t \<and> live_iv (decRef t i) = live_iv t"
    using rev unat_succ [OF assms(3)] by simp
  have "\<forall>u \<in> set (tb_slots (decRef t i)). slot_ok u"
    unfolding decRef_slots
    using assms(2) s by (intro slots_update_ok) (auto simp: table_ok_def slot_ok_def Let_def)
  moreover have "cache_ok (decRef t i)"
  proof (cases ?one)
    case True
    then show ?thesis
      using assms(2) rev failed unat_succ [OF assms(3)]
      by (intro cache_ok_newer) (simp add: table_ok_def cache_ok_def)
  next
    case False
    then show ?thesis
      using assms(2) rev failed is_hole_live [OF live] by (simp add: table_ok_def cache_ok_def)
  qed
  ultimately show "table_ok (decRef t i)" by (simp add: table_ok_def)
qed

lemma decRefs_table_ok:
  "releases_ok t is \<Longrightarrow> table_ok t \<Longrightarrow> unat (tb_revision t) + length is < 2 ^ 64 \<Longrightarrow>
    table_ok (foldl decRef t is) \<and>
    unat (tb_revision t) \<le> unat (tb_revision (foldl decRef t is)) \<and>
    unat (tb_revision (foldl decRef t is)) \<le> unat (tb_revision t) + length is \<and>
    (tb_revision (foldl decRef t is) = tb_revision t \<longrightarrow> live_iv (foldl decRef t is) = live_iv t)"
proof (induction "is" arbitrary: t)
  case (Cons i "is")
  note d = decRef_table_ok [of t i]
  have d1: "table_ok (decRef t i)" using d(1) Cons.prems by simp
  have d2: "if sl_refs (tb_slots t ! i) = 1
      then unat (tb_revision (decRef t i)) = unat (tb_revision t) + 1
      else tb_revision (decRef t i) = tb_revision t \<and> live_iv (decRef t i) = live_iv t"
    using d(2) Cons.prems by simp
  then have "unat (tb_revision (decRef t i)) + length is < 2 ^ 64"
    using Cons.prems(3) by (simp split: if_splits)
  note IH = Cons.IH [OF _ d1 this]
  show ?case
    using IH Cons.prems(1) d2 by (auto simp: unat_eq_iff split: if_splits)
qed simp

lemma findHole_none:
  assumes "findHole late t cap n = (None, t')" and "table_ok t"
  shows "n = 0 \<or> \<not> (\<exists>k. is_hole t (unat cap) (unat n) k) \<or>
    (\<exists>p \<in> ran (live_iv t). unat cap < snd p)"
proof (cases "n = 0 \<or> n > cap")
  case True
  then show ?thesis by (auto simp: is_hole_def word_less_nat_alt)
next
  case False
  show ?thesis
  proof (cases "tb_failedBytes t \<noteq> 0 \<and> tb_failedRevision t = tb_revision t \<and>
      tb_failedCapacity t = cap \<and> n \<ge> tb_failedBytes t")
    case True
    then have "\<not> (\<exists>k. is_hole t (unat cap) (unat (tb_failedBytes t)) k)"
      "unat (tb_failedBytes t) \<le> unat n"
      using assms(2) by (auto simp: table_ok_def cache_ok_def word_le_nat_alt)
    then show ?thesis using is_hole_smaller by blast
  next
    case fresh: False
    show ?thesis
    proof (cases "spans_of cap (tb_slots t)")
      case None
      then show ?thesis using spans_none [OF None] by (auto simp: live_iv_set)
    next
      case (Some spans)
      then have "scan_spans cap n 0 (sort_key fst spans) = None"
        using assms(1) False fresh
        by (auto simp: findHole_def Let_def split: if_splits option.splits)
      then show ?thesis using census [OF Some, of n] by simp
    qed
  qed
qed

lemma cache_write_ok:
  assumes "table_ok t'" and "\<not> (\<exists>k. is_hole t' (unat cap) (unat n) k)"
  shows "table_ok (t'\<lparr>tb_failedRevision := tb_revision t', tb_failedCapacity := cap,
    tb_failedBytes := n\<rparr>)"
proof -
  let ?t = "t'\<lparr>tb_failedRevision := tb_revision t', tb_failedCapacity := cap, tb_failedBytes := n\<rparr>"
  have "live_iv ?t = live_iv t'" by (simp add: live_iv_def fun_eq_iff)
  then show ?thesis using assms is_hole_live [of ?t t'] by (simp add: table_ok_def cache_ok_def)
qed

lemma findHole_table_ok:
  assumes "findHole late t cap n = (r, t')" and "table_ok t" and "releases_ok t late"
    and "unat (tb_revision t) + length late < 2 ^ 64"
  shows "table_ok t' \<and> unat (tb_revision t') \<le> unat (tb_revision t) + length late"
proof (cases "t' = t")
  case True
  then show ?thesis using assms(2) by simp
next
  case False
  let ?u = "foldl decRef t late"
  note u = decRefs_table_ok [OF assms(3,2,4)]
  obtain spans where s: "spans_of cap (tb_slots t) = Some spans"
    and none: "scan_spans cap n 0 (sort_key fst spans) = None"
    and t': "t' = (if tb_revision ?u = tb_revision t
        then ?u\<lparr>tb_failedRevision := tb_revision t, tb_failedCapacity := cap, tb_failedBytes := n\<rparr>
        else ?u)"
    using assms(1) False
    by (auto simp: findHole_def Let_def split: if_splits option.splits)
  have no: "\<not> (\<exists>k. is_hole t (unat cap) (unat n) k)" using census [OF s, of n] none by simp
  show ?thesis
  proof (cases "tb_revision ?u = tb_revision t")
    case True
    then have "is_hole ?u = is_hole t" using u by (intro is_hole_live) simp
    then show ?thesis
      using cache_write_ok [of ?u cap n] u no True by (simp add: t')
  next
    case False
    then show ?thesis using u by (simp add: t')
  qed
qed

lemma slice_step_table_ok:
  assumes "slice_step t e t'" and "table_ok t" and "unat (tb_revision t) + event_cost e < 2 ^ 64"
  shows "table_ok t' \<and> unat (tb_revision t') \<le> unat (tb_revision t) + event_cost e"
  using assms(1)
proof cases
  case (step_claim owner off n r)
  then show ?thesis using claim_table_ok [OF step_claim(2) assms(2)] assms(3) by simp
next
  case (step_retain i)
  then show ?thesis using incRef_table_ok [OF step_retain(3,4) assms(2)] by simp
next
  case (step_release i)
  then show ?thesis
    using decRef_table_ok [of t i] assms(2,3) by (auto split: if_splits)
next
  case (step_find late cap n r)
  then show ?thesis using findHole_table_ok [OF step_find(2) assms(2)] assms(3) by simp
qed

lemma slice_run_table_ok:
  "slice_run t es t' \<Longrightarrow> table_ok t \<Longrightarrow> unat (tb_revision t) + run_cost es < 2 ^ 64 \<Longrightarrow>
    table_ok t'"
proof (induction rule: slice_run.induct)
  case (run_more t e t' es t'')
  have "unat (tb_revision t) + event_cost e < 2 ^ 64"
    using run_more.prems(2) by (simp add: run_cost_def)
  note st = slice_step_table_ok [OF run_more.hyps(1) run_more.prems(1) this]
  then have "unat (tb_revision t') + run_cost es < 2 ^ 64"
    using run_more.prems(2) by (simp add: run_cost_def)
  then show ?case using run_more.IH st by blast
qed simp

text \<open>
  C12. In a table reached by any run of claims, references, releases (also concurrent
  with a search) and searches, a search returns the lowest offset at which the
  request fits between the live intervals, and fails only when there is none: the
  negative cache never hides a hole. The run must not exhaust the 64-bit revision,
  and the live intervals must lie in the page.
\<close>

theorem hole_search_exact:
  assumes "slice_run (empty_table slots) es t" and "run_cost es < 2 ^ 64"
    and "findHole late t cap n = (r, t')" and "n \<noteq> 0"
    and "\<forall>p \<in> ran (live_iv t). snd p \<le> unat cap"
  shows "case r of
      Some h \<Rightarrow> is_hole t (unat cap) (unat n) (unat h) \<and>
        (\<forall>k. is_hole t (unat cap) (unat n) k \<longrightarrow> unat h \<le> k)
    | None \<Rightarrow> \<not> (\<exists>k. is_hole t (unat cap) (unat n) k)"
proof -
  have "unat (tb_revision (empty_table slots :: 'a SnapshotSliceTable)) + run_cost es < 2 ^ 64"
    using assms(2) by (simp add: empty_table_def)
  then have ok: "table_ok t" by (rule slice_run_table_ok [OF assms(1) empty_table_ok])
  show ?thesis
  proof (cases r)
    case None
    then show ?thesis using findHole_none [of late t cap n t'] ok assms(3-5) by fastforce
  next
    case (Some h)
    then show ?thesis using findHole_some assms(3) by fastforce
  qed
qed

definition example_run :: "nat slice_event list" where
  "example_run =
    [Claim 7 0 256 (Some 0), Claim 7 256 256 (Some 1), Claim 7 512 512 (Some 2),
     Release 1, Find [] 1024 512 None, Find [] 1024 256 (Some 256)]"

definition example_slice :: "nat \<Rightarrow> u64 \<Rightarrow> u64 \<Rightarrow> nat SnapshotSlice" where
  "example_slice refs off n =
    (if refs = 0 then free_slice\<lparr>sl_offset := off, sl_size := n\<rparr>
     else \<lparr>sl_refs = of_nat refs, sl_available = False, sl_owner = Some 7, sl_offset = off,
           sl_size = n\<rparr>)"

definition example_table :: "nat SnapshotSliceTable" where
  "example_table =
    \<lparr>tb_slots = [example_slice 1 0 256, example_slice 0 256 256, example_slice 1 512 512,
                 free_slice],
     tb_hint = 3, tb_revision = 4, tb_failedRevision = 4, tb_failedCapacity = 1024,
     tb_failedBytes = 512\<rparr>"

text \<open>Running an event list: the table each event leads to, as the steps allow.\<close>

definition exec_event :: "'o SnapshotSliceTable \<Rightarrow> 'o slice_event \<Rightarrow> 'o SnapshotSliceTable option" where
  "exec_event t e =
    (case e of
       Claim owner off n r \<Rightarrow>
         (let (r', t') = claim t (Some owner) off n in if r' = r then Some t' else None)
     | Retain i \<Rightarrow>
         if live_iv t i \<noteq> None \<and> sl_refs (tb_slots t ! i) \<noteq> UINT32_MAX then Some (incRef t i) else None
     | Release i \<Rightarrow> if live_iv t i \<noteq> None then Some (decRef t i) else None
     | Find late cap n r \<Rightarrow>
         (let (r', t') = findHole late t cap n
          in if r' = r \<and> releases_ok t late then Some t' else None))"

fun exec_events ::
  "'o SnapshotSliceTable \<Rightarrow> 'o slice_event list \<Rightarrow> 'o SnapshotSliceTable option" where
  "exec_events t [] = Some t"
| "exec_events t (e # es) =
    (case exec_event t e of None \<Rightarrow> None | Some t' \<Rightarrow> exec_events t' es)"

lemma exec_event_step: "exec_event t e = Some t' \<Longrightarrow> slice_step t e t'"
  by (cases e)
    (auto simp: exec_event_def Let_def split: if_splits prod.splits
      intro: slice_step.intros)

lemma exec_events_run: "exec_events t es = Some t' \<Longrightarrow> slice_run t es t'"
  by (induction es arbitrary: t)
    (auto split: option.splits intro: run_none run_more exec_event_step)

lemma example_run_reaches: "slice_run (empty_table 4) example_run example_table"
  by (rule exec_events_run) code_simp

lemma hole_search_exact_witness:
  "\<not> (\<exists>k. is_hole example_table (unat (1024 :: u64)) (unat (512 :: u64)) k)"
proof -
  have live: "\<forall>p \<in> ran (live_iv example_table). snd p \<le> unat (1024 :: u64)"
    by (auto simp: live_iv_set example_table_def example_slice_def free_slice_def slice_iv_def)
  have f: "findHole [] example_table 1024 512 = (None, example_table)" by code_simp
  have c: "run_cost example_run < 2 ^ 64" by (simp add: run_cost_def example_run_def)
  show ?thesis using hole_search_exact [OF example_run_reaches c f _ live] by simp
qed

subsection \<open>A lease keeps its slot\<close>

text \<open>
  The references one holder still has on slot \<open>i\<close> along a run, every release of the
  slot by anybody counted against it; it has to stay positive.
\<close>

fun still_held :: "nat \<Rightarrow> nat \<Rightarrow> 'o slice_event \<Rightarrow> nat" where
  "still_held i n (Retain j) = (if j = i then n + 1 else n)"
| "still_held i n (Release j) = (if j = i then n - 1 else n)"
| "still_held i n (Find late cap m r) = n - count_list late i"
| "still_held i n (Claim owner off m r) = n"

fun held :: "nat \<Rightarrow> nat \<Rightarrow> 'o slice_event list \<Rightarrow> bool" where
  "held i n [] = (0 < n)"
| "held i n (e # es) = (0 < n \<and> held i (still_held i n e) es)"

definition leased :: "'o SnapshotSliceTable \<Rightarrow> nat \<Rightarrow> 'o \<Rightarrow> u64 \<Rightarrow> u64 \<Rightarrow> nat \<Rightarrow> bool" where
  "leased t i owner off m n \<longleftrightarrow>
     i < length (tb_slots t) \<and>
     (let s = tb_slots t ! i
      in \<not> sl_available s \<and> sl_owner s = Some owner \<and> sl_offset s = off \<and> sl_size s = m \<and>
         n \<le> unat (sl_refs s))"

lemma leased_decRef:
  assumes "leased t i owner off m n" and "j = i \<longrightarrow> 1 < n"
  shows "leased (decRef t j) i owner off m (if j = i then n - 1 else n)"
proof (cases "j = i")
  case False
  then show ?thesis using assms(1) by (simp add: leased_def decRef_slots nth_update_if Let_def)
next
  case True
  let ?r = "sl_refs (tb_slots t ! i)"
  have r: "n \<le> unat ?r" "1 < n" using assms True by (simp_all add: leased_def Let_def)
  then have "?r \<noteq> 1" by auto
  moreover have "unat (?r - 1) = unat ?r - 1" using r by (simp add: unat_sub_if')
  ultimately show ?thesis
    using assms(1) r True by (simp add: leased_def decRef_slots nth_update_if Let_def)
qed

lemma leased_decRefs:
  "leased t i owner off m n \<Longrightarrow> count_list js i < n \<Longrightarrow>
    leased (foldl decRef t js) i owner off m (n - count_list js i)"
proof (induction js arbitrary: t n)
  case (Cons j js)
  have "leased (decRef t j) i owner off m (if j = i then n - 1 else n)"
    using Cons.prems by (intro leased_decRef) auto
  from Cons.IH [OF this] show ?case using Cons.prems(2) by (auto split: if_splits)
qed simp

lemma leased_mono: "leased t i owner off m n \<Longrightarrow> n' \<le> n \<Longrightarrow> leased t i owner off m n'"
  by (auto simp: leased_def Let_def)

lemma leased_cache: "leased (t\<lparr>tb_failedRevision := a, tb_failedCapacity := b, tb_failedBytes := c\<rparr>)
    i owner off m n = leased t i owner off m n"
  by (simp add: leased_def)

lemma leased_claim:
  assumes "claim t ow o' m' = (r, t')" and "leased t i owner off m n"
  shows "leased t' i owner off m n" "r \<noteq> Some i"
proof -
  have "leased t' i owner off m n \<and> r \<noteq> Some i"
    using assms(1)
  proof (cases rule: claim_cases)
    case (claimed j)
    then have "j \<noteq> i" using assms(2) by (auto simp: leased_def Let_def)
    then show ?thesis
      using claimed(1,7) assms(2) by (simp add: leased_def nth_update_if)
  qed (use assms(2) in simp)
  then show "leased t' i owner off m n" "r \<noteq> Some i" by blast+
qed

lemma leased_incRef:
  assumes "leased t i owner off m n" and "sl_refs (tb_slots t ! j) \<noteq> UINT32_MAX"
  shows "leased (incRef t j) i owner off m (if j = i then n + 1 else n)"
proof (cases "j = i")
  case False
  then show ?thesis
    using assms(1) by (simp add: leased_def incRef_def set_slot_def nth_update_if Let_def)
next
  case True
  have "unat (sl_refs (tb_slots t ! i) + 1) = unat (sl_refs (tb_slots t ! i)) + 1"
    using assms(2) True unatSuc by (metis Suc_eq_plus1 add.commute add_eq_0_iff2)
  then show ?thesis
    using assms(1) True by (simp add: leased_def incRef_def set_slot_def nth_update_if Let_def)
qed

lemma leased_findHole:
  assumes "findHole late t cap b = (r, t')" and "leased t i owner off m n"
    and "count_list late i < n"
  shows "leased t' i owner off m (n - count_list late i)"
  using assms(1) leased_decRefs [OF assms(2,3)] leased_mono [OF assms(2)]
  by (auto simp: findHole_def Let_def leased_cache split: if_splits option.splits)

lemma leased_step:
  assumes "slice_step t e t'" and "leased t i owner off m n" and "0 < still_held i n e"
  shows "leased t' i owner off m (still_held i n e) \<and> (\<forall>o' off' m'. e \<noteq> Claim o' off' m' (Some i))"
  using assms(1)
proof cases
  case (step_claim ow o' m' r)
  then show ?thesis using leased_claim [OF step_claim(2) assms(2)] by simp
next
  case (step_retain j)
  then show ?thesis using leased_incRef [OF assms(2) step_retain(4)] by simp
next
  case (step_release j)
  then show ?thesis using leased_decRef [OF assms(2), of j] assms(3) by (auto split: if_splits)
next
  case (step_find late cap b r)
  then show ?thesis using leased_findHole [OF step_find(2) assms(2)] assms(3) by simp
qed

lemma leased_run:
  "slice_run t es t' \<Longrightarrow> leased t i owner off m n \<Longrightarrow> held i n es \<Longrightarrow>
    (\<exists>n'. 0 < n' \<and> leased t' i owner off m n') \<and> (\<forall>o' off' m'. Claim o' off' m' (Some i) \<notin> set es)"
proof (induction arbitrary: n rule: slice_run.induct)
  case (run_more t e t' es t'')
  have h: "held i (still_held i n e) es" using run_more.prems(2) by simp
  then have "0 < still_held i n e" by (cases es) auto
  note st = leased_step [OF run_more.hyps(1) run_more.prems(1) this]
  show ?case using run_more.IH [OF conjunct1 [OF st] h] st by auto
qed auto

text \<open>
  C16. A lease keeps its slice: from the claim on, as long as the references taken
  outnumber the releases at every moment, the slot stays live with its owner and its
  interval, and no later claim is given the slot, whatever else happens in the table.
\<close>

theorem lease_keeps_its_slice:
  assumes "claim t (Some owner) off m = (Some i, t1)" and "slice_run t1 es t2" and "held i 1 es"
  shows "live_iv t2 i = Some (unat off, unat off + unat m) \<and>
    sl_owner (tb_slots t2 ! i) = Some owner \<and>
    (\<forall>o' off' m'. Claim o' off' m' (Some i) \<notin> set es)"
proof -
  have "leased t1 i owner off m 1"
    using assms(1) by (cases rule: claim_cases) (auto simp: leased_def)
  from leased_run [OF assms(2) this assms(3)] show ?thesis
    by (auto simp: leased_def Let_def live_iv_def slice_iv_def)
qed

lemma lease_keeps_its_slice_witness:
  "live_iv example_table 2 = Some (unat (512 :: u64), unat (512 :: u64) + unat (512 :: u64))"
proof -
  obtain t0 where t0: "exec_events (empty_table 4) (take 2 example_run) = Some t0"
    "claim t0 (Some 7) 512 512 = (Some 2, the (exec_events t0 [Claim 7 512 512 (Some 2)]))"
    "exec_events (the (exec_events t0 [Claim 7 512 512 (Some 2)])) (drop 3 example_run) =
      Some example_table"
  proof
    let ?t = "the (exec_events (empty_table 4) (take 2 example_run))"
    show "exec_events (empty_table 4) (take 2 example_run) = Some ?t" by code_simp
    show "claim ?t (Some 7) 512 512 = (Some 2, the (exec_events ?t [Claim 7 512 512 (Some 2)]))"
      by code_simp
    show "exec_events (the (exec_events ?t [Claim 7 512 512 (Some 2)])) (drop 3 example_run) =
      Some example_table" by code_simp
  qed
  have "held 2 1 (drop 3 example_run)" by (simp add: example_run_def)
  then show ?thesis
    using lease_keeps_its_slice [OF t0(2) exec_events_run [OF t0(3)]] by blast
qed

text \<open>
  For a page that exists and a non-empty slice that does not wrap, a claim fails
  exactly when the table has no slot: the ring probe from the hint misses none.
\<close>

theorem claim_fails_only_without_slot:
  assumes "tb_hint t < length (tb_slots t)" and "n \<noteq> 0" and "unat off + unat n < 2 ^ 64"
  shows "fst (claim t (Some owner) off n) = None \<longleftrightarrow> \<not> hasSlot t"
proof -
  have nw: "\<not> off > UINT64_MAX - n"
    using assms(3) by (simp add: not_less word_le_nat_alt unat_sub_if')
  show ?thesis
  proof (cases "probe (tb_slots t) (tb_hint t) [0..<length (tb_slots t)]")
    case None
    then have "\<not> sl_available (tb_slots t ! i)" if "i < length (tb_slots t)" for i
      using probe_complete that by blast
    then have "\<not> hasSlot t" using assms(1) by (auto simp: hasSlot_def list_ex_length)
    then show ?thesis using None by (simp add: claim_def)
  next
    case (Some i)
    have "tb_slots t \<noteq> []" using assms(1) by auto
    then have "hasSlot t" using probe_some [OF Some] by (auto simp: hasSlot_def list_ex_length)
    then show ?thesis using Some nw assms(2) by (simp add: claim_def)
  qed
qed

lemma claim_fails_only_without_slot_witness:
  "fst (claim (empty_table 2) (Some (3 :: nat)) 0 256) \<noteq> None"
proof -
  have h: "tb_hint (empty_table 2 :: nat SnapshotSliceTable) < length (tb_slots (empty_table 2 :: nat SnapshotSliceTable))"
    by code_simp
  have s: "hasSlot (empty_table 2 :: nat SnapshotSliceTable)" by code_simp
  show ?thesis using claim_fails_only_without_slot [OF h, of 256 0 3] s by simp
qed

end
