(* ===== verification/SnapshotPool.thy ===== *)
theory SnapshotPool
  imports LifetimePages SnapshotSlices
begin

section \<open>The snapshot pool\<close>

text \<open>
  The stage-11 snapshot pool of \<open>src/src/d3d9/d3d9_device.cpp\<close>
  (\<open>War3AllocateStage11Snapshot\<close>, \<open>War3CollectUnusedStage11SnapshotPages\<close>,
  \<open>War3ResetStage11SnapshotPages\<close>, \<open>War3RefreshStage11SnapshotPageStats\<close>) over the
  page policy, the lifetime planner and the slice tables. The state is the part of the
  device the pool owns. What the environment does during one allocation (environment
  variable, memory samples, the Vulkan buffer, host allocation failures) is the record
  \<open>AllocEnv\<close>; the failure evidence record is diagnostics and left out. The number of
  slots of a slice table (2048 in the source) is a parameter.
\<close>

subsection \<open>State\<close>

text \<open>
  A page is referenced by the pool vector, by the owner pointer of every live slot and
  by outside holders (cache entries that got it as \<open>outPage\<close>), whose number is
  \<open>pg_holders\<close>.
\<close>

record War3Stage11SnapshotPage =
  pg_id :: u64
  pg_slices :: "u64 SnapshotSliceTable"
  pg_sliceRecyclingSealed :: bool
  pg_capacity :: u64
  pg_used :: u64
  pg_lifetime :: War3Stage11PageLifetime
  pg_mapEpoch :: u64
  pg_deviceEpoch :: u64
  pg_holders :: nat

datatype War3Stage11SnapshotAllocationResult =
  AllocSuccess | PageCreateBudget | ResidentCapacity | AllocationFailure | InvalidRange

record SnapshotPoolStats =
  st_pageResidentBytes :: u64
  st_pageUsedBytes :: u64
  st_pageReclaimedCount :: u64
  st_pageCreateCount :: u64
  st_suballocationCount :: u64
  st_suballocationBytes :: u64
  st_pageCapacityRejectCount :: u64
  st_pageAllocationFailureCount :: u64

record PoolState =
  ps_pages :: "War3Stage11SnapshotPage list"
  ps_nextPageId :: u64
  ps_residentBytes :: u64
  ps_heap :: u32
  ps_budgetRetry :: BudgetGrowthRetryGate
  ps_reclaimedPages :: u64
  ps_allocBudgetThisFrame :: u32
  ps_frameSerial :: u64
  ps_mapEpoch :: u64
  ps_deviceEpoch :: u64
  ps_stats :: SnapshotPoolStats
  ps_adaptiveTarget :: u64
  ps_sliceReusedBytes :: u64
  ps_budgetGrowthRejects :: u64
  ps_censusEnabled :: bool
  ps_censusRejects :: u64

definition pool_init :: PoolState where
  "pool_init =
    \<lparr>ps_pages = [], ps_nextPageId = 1, ps_residentBytes = 0, ps_heap = UINT32_MAX,
     ps_budgetRetry = gate_init, ps_reclaimedPages = 0, ps_allocBudgetThisFrame = 0,
     ps_frameSerial = 0, ps_mapEpoch = 1, ps_deviceEpoch = 1,
     ps_stats = \<lparr>st_pageResidentBytes = 0, st_pageUsedBytes = 0, st_pageReclaimedCount = 0,
       st_pageCreateCount = 0, st_suballocationCount = 0, st_suballocationBytes = 0,
       st_pageCapacityRejectCount = 0, st_pageAllocationFailureCount = 0\<rparr>,
     ps_adaptiveTarget = kWar3Stage11SnapshotResidentCapBytes, ps_sliceReusedBytes = 0,
     ps_budgetGrowthRejects = 0, ps_censusEnabled = False, ps_censusRejects = 0\<rparr>"

text \<open>\<open>createBuffer\<close>: it throws (an allocation error, with the device status, or anything
  else), returns null, a buffer without storage, or a buffer in a memory heap.\<close>

datatype create_outcome =
    CreateAllocationError bool
  | CreateOtherError
  | CreateNull
  | CreateNoStorage
  | Created u32

record AllocEnv =
  ae_capVariable :: "string option"
  ae_before :: MemorySample
  ae_create :: create_outcome
  ae_after :: MemorySample
  ae_makePage :: "unit page_factory"
  ae_pushThrows :: bool
  ae_slots :: nat

record AllocOut =
  out_page :: "u64 option"
  out_lease :: "nat option"
  out_offset :: u64
  out_capacity :: u64

definition no_out :: AllocOut where
  "no_out = \<lparr>out_page = None, out_lease = None, out_offset = 0, out_capacity = 0\<rparr>"

definition kShadowDrawTimeVBCacheAllocBudgetPerFrame :: u32 where
  "kShadowDrawTimeVBCacheAllocBudgetPerFrame = 32"

definition kShadowDrawTimeVBCacheAllocBudgetEnabled :: bool where
  "kShadowDrawTimeVBCacheAllocBudgetEnabled = True"

subsection \<open>Statistics, collection, reset\<close>

definition SampleSnapshotPoolStats ::
  "War3Stage11SnapshotPage list \<Rightarrow> u64 \<Rightarrow> u64 \<Rightarrow> SnapshotPoolStats \<Rightarrow> SnapshotPoolStats" where
  "SampleSnapshotPoolStats pages resident reclaimed stats =
    (let used = foldl (\<lambda>used p. if pg_used p > UINT64_MAX - used then UINT64_MAX
                                else used + pg_used p) 0 pages
     in stats\<lparr>st_pageResidentBytes := resident, st_pageUsedBytes := used,
              st_pageReclaimedCount := reclaimed\<rparr>)"

definition War3RefreshStage11SnapshotPageStats :: "PoolState \<Rightarrow> PoolState" where
  "War3RefreshStage11SnapshotPageStats s =
    s\<lparr>ps_stats := SampleSnapshotPoolStats (ps_pages s) (ps_residentBytes s) (ps_reclaimedPages s)
                    (ps_stats s)\<rparr>"

text \<open>\<open>use_count() == 1\<close>: only the pool vector refers to the page.\<close>

definition page_unused :: "War3Stage11SnapshotPage \<Rightarrow> bool" where
  "page_unused p \<longleftrightarrow> pg_holders p = 0 \<and> list_all sl_available (tb_slots (pg_slices p))"

fun collectPages ::
  "War3Stage11SnapshotPage list \<Rightarrow> u64 \<Rightarrow> u64 \<Rightarrow> War3Stage11SnapshotPage list \<times> u64 \<times> u64" where
  "collectPages [] resident reclaimed = ([], resident, reclaimed)"
| "collectPages (p # ps) resident reclaimed =
    (if \<not> page_unused p
     then (let (ps', resident', reclaimed') = collectPages ps resident reclaimed
           in (p # ps', resident', reclaimed'))
     else collectPages ps
            (if pg_capacity p > resident then 0 else resident - pg_capacity p) (reclaimed + 1))"

definition War3CollectUnusedStage11SnapshotPages :: "PoolState \<Rightarrow> PoolState" where
  "War3CollectUnusedStage11SnapshotPages s =
    (let (pages, resident, reclaimed) =
           collectPages (ps_pages s) (ps_residentBytes s) (ps_reclaimedPages s)
     in War3RefreshStage11SnapshotPageStats
          (s\<lparr>ps_pages := pages, ps_residentBytes := resident, ps_reclaimedPages := reclaimed\<rparr>))"

definition War3ResetStage11SnapshotPages :: "string option \<Rightarrow> PoolState \<Rightarrow> PoolState" where
  "War3ResetStage11SnapshotPages capVariable s =
    War3RefreshStage11SnapshotPageStats
      (s\<lparr>ps_pages := [], ps_heap := UINT32_MAX, ps_budgetRetry := gate_reset (ps_budgetRetry s),
         ps_adaptiveTarget := min (War3Stage11SnapshotAdaptiveHardCapBytes capVariable)
                                  kWar3Stage11SnapshotResidentCapBytes,
         ps_residentBytes := 0, ps_censusRejects := 0\<rparr>)"

subsection \<open>Allocation, step by step\<close>

definition page_view :: "War3Stage11SnapshotPage \<Rightarrow> War3Stage11LifetimePageView" where
  "page_view p =
    \<lparr>pv_id = pg_id p, pv_capacity = pg_capacity p, pv_used = pg_used p,
     pv_lifetime = pg_lifetime p, pv_ownerState = Active, pv_mapEpoch = pg_mapEpoch p,
     pv_deviceEpoch = pg_deviceEpoch p\<rparr>"

definition choosePage ::
  "PoolState \<Rightarrow> War3Stage11LifetimePageRequest \<Rightarrow> War3Stage11LifetimePagePlan" where
  "choosePage s request =
    (if length (ps_pages s) >
          unat (kWar3Stage11SnapshotResidentCapMaxBytes div kWar3Stage11SnapshotPageBytes)
     then empty_plan
     else War3PlanStage11LifetimePage (request\<lparr>rq_residentBytes := ps_residentBytes s\<rparr>)
            (Some (map page_view (ps_pages s))) (of_nat (length (ps_pages s))))"

definition makeRequest ::
  "PoolState \<Rightarrow> u64 \<Rightarrow> u64 \<Rightarrow> War3Stage11PageLifetime \<Rightarrow> War3Stage11LifetimePageRequest" where
  "makeRequest s cap alignedBytes lifetime =
    \<lparr>rq_requiredBytes = alignedBytes, rq_residentBytes = 0, rq_capBytes = cap,
     rq_mapEpoch = ps_mapEpoch s, rq_deviceEpoch = ps_deviceEpoch s, rq_maxPages = 32,
     rq_pageCreateGateOpen =
       (\<not> kShadowDrawTimeVBCacheAllocBudgetEnabled \<or>
        ps_allocBudgetThisFrame s < kShadowDrawTimeVBCacheAllocBudgetPerFrame),
     rq_sameRetentionIntentOnly = True, rq_lifetime = lifetime\<rparr>"

text \<open>
  Adopting a claimed lease: the reference-counted pointer takes a second reference and
  \<open>decRef\<close> gives the initial one back.
\<close>

definition adoptLease :: "u64 SnapshotSliceTable \<Rightarrow> nat \<Rightarrow> u64 SnapshotSliceTable" where
  "adoptLease t i = decRef (incRef t i) i"

text \<open>One round of the reuse loop: the page afterwards, and the slot and offset if it served.\<close>

definition reusePage ::
  "War3Stage11LifetimePageRequest \<Rightarrow> War3Stage11PageLifetime \<Rightarrow> u64 \<Rightarrow> War3Stage11SnapshotPage \<Rightarrow>
    War3Stage11SnapshotPage \<times> (nat \<times> u64) option" where
  "reusePage request lifetime alignedBytes p =
    (if pg_mapEpoch p \<noteq> rq_mapEpoch request \<or> pg_deviceEpoch p \<noteq> rq_deviceEpoch request \<or>
        pg_lifetime p \<noteq> lifetime \<or> pg_sliceRecyclingSealed p \<or> \<not> hasSlot (pg_slices p)
     then (p, None)
     else if sub_valid (War3PlanStage11SnapshotSuballocation (pg_used p) (pg_capacity p) alignedBytes)
     then (p, None)
     else case findHole [] (pg_slices p) (pg_capacity p) alignedBytes of
       (None, t) \<Rightarrow> (p\<lparr>pg_slices := t\<rparr>, None)
     | (Some offset, t) \<Rightarrow>
         (case claim t (Some (pg_id p)) offset alignedBytes of
            (None, t') \<Rightarrow> (p\<lparr>pg_slices := t'\<rparr>, None)
          | (Some i, t') \<Rightarrow>
              (p\<lparr>pg_slices := adoptLease t' i, pg_holders := pg_holders p + 1\<rparr>, Some (i, offset))))"

fun reuseLoop ::
  "War3Stage11LifetimePageRequest \<Rightarrow> War3Stage11PageLifetime \<Rightarrow> u64 \<Rightarrow>
    War3Stage11SnapshotPage list \<Rightarrow> War3Stage11SnapshotPage list \<times> (u64 \<times> nat \<times> u64) option" where
  "reuseLoop request lifetime alignedBytes [] = ([], None)"
| "reuseLoop request lifetime alignedBytes (p # ps) =
    (case reusePage request lifetime alignedBytes p of
       (p', Some (i, offset)) \<Rightarrow> (p' # ps, Some (pg_id p, i, offset))
     | (p', None) \<Rightarrow>
         (let (ps', r) = reuseLoop request lifetime alignedBytes ps in (p' # ps', r)))"

definition countSuballocation :: "u64 \<Rightarrow> PoolState \<Rightarrow> PoolState" where
  "countSuballocation alignedBytes s =
    s\<lparr>ps_stats := (ps_stats s)
        \<lparr>st_suballocationCount := st_suballocationCount (ps_stats s) + 1,
         st_suballocationBytes := st_suballocationBytes (ps_stats s) + alignedBytes\<rparr>\<rparr>"

definition refuseGrowth :: "u64 \<Rightarrow> PoolState \<Rightarrow> PoolState" where
  "refuseGrowth pageBytes s =
    s\<lparr>ps_budgetRetry := gate_refuse (ps_budgetRetry s) (ps_frameSerial s) pageBytes\<rparr>"

definition sampledDecision ::
  "MemorySample \<Rightarrow> u32 \<Rightarrow> u64 \<Rightarrow> u64 \<Rightarrow> AdaptiveBudgetDecision" where
  "sampledDecision sample heap resident cap =
    DecideAdaptiveMemoryBudget
      (SampleShadowMemoryBudget sample heap resident cap
        (min cap kWar3Stage11SnapshotResidentCapBytes) kWar3Stage11SnapshotPageBytes 1)"

text \<open>The budget question before a page is created; a refusal closes the create gate and replans.\<close>

definition admitGrowth ::
  "AllocEnv \<Rightarrow> u64 \<Rightarrow> War3Stage11LifetimePageRequest \<Rightarrow> PoolState \<Rightarrow> War3Stage11LifetimePagePlan \<Rightarrow>
    War3Stage11LifetimePageRequest \<times> PoolState \<times> War3Stage11LifetimePagePlan" where
  "admitGrowth env cap request s plan =
    (if \<not> createsPage plan then (request, s, plan)
     else
       let pageBytes = pl_pageBytes plan;
           (permitsGrowth, s) =
             (if gate_refused (ps_budgetRetry s) (ps_frameSerial s) pageBytes then (False, s)
              else
                let budget = sampledDecision (ae_before env) (ps_heap s) (ps_residentBytes s) cap;
                    s = s\<lparr>ps_adaptiveTarget := bd_target budget\<rparr>;
                    permits = canGrow budget (ps_residentBytes s) pageBytes
                in (permits, if permits then s else refuseGrowth pageBytes s))
       in if permitsGrowth then (request, s, plan)
          else
            let s = s\<lparr>ps_budgetGrowthRejects := ps_budgetGrowthRejects s + 1\<rparr>;
                request = request\<lparr>rq_pageCreateGateOpen := False\<rparr>
            in (request, s, choosePage s request))"

text \<open>Creating the buffer: the state, and whether there is one, None when an exception leaves.\<close>

definition createBacking ::
  "AllocEnv \<Rightarrow> u64 \<Rightarrow> u64 \<Rightarrow> PoolState \<Rightarrow> PoolState \<times> bool option" where
  "createBacking env cap pageBytes s =
    (case ae_create env of
       CreateAllocationError deviceOk \<Rightarrow>
         if \<not> deviceOk then (s, None) else (refuseGrowth pageBytes s, Some False)
     | CreateOtherError \<Rightarrow> (s, None)
     | CreateNull \<Rightarrow> (s, Some False)
     | CreateNoStorage \<Rightarrow> (s, Some False)
     | Created heap \<Rightarrow>
         (let heapMismatch = (ps_heap s \<noteq> UINT32_MAX \<and> heap \<noteq> ps_heap s);
              s = (if \<not> heapMismatch \<and> heap \<noteq> UINT32_MAX then s\<lparr>ps_heap := heap\<rparr> else s);
              after = sampledDecision (ae_after env) heap (ps_residentBytes s + pageBytes) cap;
              s = s\<lparr>ps_adaptiveTarget := bd_target after\<rparr>
          in if heapMismatch \<or> heap = UINT32_MAX \<or> bd_vaPressure after \<or>
                ps_residentBytes s + pageBytes > bd_target after
             then ((refuseGrowth pageBytes s)
                     \<lparr>ps_budgetGrowthRejects := ps_budgetGrowthRejects s + 1\<rparr>, Some False)
             else (s\<lparr>ps_heap := heap\<rparr>, Some True)))"

definition newPage ::
  "nat \<Rightarrow> War3Stage11LifetimePageRequest \<Rightarrow> u64 \<Rightarrow> War3Stage11SnapshotPage" where
  "newPage slots request pageBytes =
    \<lparr>pg_id = 0, pg_slices = empty_table slots, pg_sliceRecyclingSealed = False,
     pg_capacity = pageBytes, pg_used = 0, pg_lifetime = rq_lifetime request,
     pg_mapEpoch = rq_mapEpoch request, pg_deviceEpoch = rq_deviceEpoch request,
     pg_holders = 0\<rparr>"

definition made_page ::
  "unit page_factory \<Rightarrow> War3Stage11SnapshotPage \<Rightarrow> War3Stage11SnapshotPage page_factory" where
  "made_page f p =
    (case f of Made _ \<Rightarrow> Made p | MadeNull \<Rightarrow> MadeNull | ThrowsBadAlloc \<Rightarrow> ThrowsBadAlloc
     | ThrowsOther \<Rightarrow> ThrowsOther)"

text \<open>Publishing the page: the state, and whether it was created, None when an exception leaves.\<close>

definition publishPage ::
  "AllocEnv \<Rightarrow> u64 \<Rightarrow> War3Stage11LifetimePageRequest \<Rightarrow> u64 \<Rightarrow> PoolState \<Rightarrow> PoolState \<times> bool option"
where
  "publishPage env cap request pageBytes s =
    (case War3PublishStage11SnapshotPage (\<lambda>i p. p\<lparr>pg_id := i\<rparr>)
            (made_page (ae_makePage env) (newPage (ae_slots env) request pageBytes))
            (ae_pushThrows env) (ps_pages s) (ps_nextPageId s) (ps_residentBytes s) pageBytes cap of
       (None, _, _, _) \<Rightarrow> (s, None)
     | (Some publication, pages, nextId, resident) \<Rightarrow>
         (let created = (publication = PubSuccess);
              s = s\<lparr>ps_pages := pages, ps_nextPageId := nextId, ps_residentBytes := resident\<rparr>
          in (if created
              then s\<lparr>ps_allocBudgetThisFrame := ps_allocBudgetThisFrame s + 1,
                     ps_stats := (ps_stats s)
                       \<lparr>st_pageCreateCount := st_pageCreateCount (ps_stats s) + 1\<rparr>\<rparr>
              else s, Some created)))"

text \<open>
  The creation block of the allocator: it runs only for a plan that creates a page.
  The result is the state, the plan for the placement and whether to go on; \<open>Stop r\<close>
  returns \<open>r\<close> at once and \<open>Threw\<close> is an exception.
\<close>

datatype creation = Continue bool | Stop War3Stage11SnapshotAllocationResult | Threw

definition createStep ::
  "AllocEnv \<Rightarrow> u64 \<Rightarrow> War3Stage11LifetimePageRequest \<Rightarrow> PoolState \<Rightarrow> War3Stage11LifetimePagePlan \<Rightarrow>
    PoolState \<times> War3Stage11LifetimePagePlan \<times> creation" where
  "createStep env cap request s plan =
    (if \<not> createsPage plan then (s, plan, Continue False)
     else
       let pageBytes = pl_pageBytes plan
       in case createBacking env cap pageBytes s of
            (s, None) \<Rightarrow> (s, plan, Threw)
          | (s, Some hasBuffer) \<Rightarrow>
              (case (if hasBuffer then publishPage env cap request pageBytes s else (s, Some False)) of
                 (s, None) \<Rightarrow> (s, plan, Threw)
               | (s, Some createdPage) \<Rightarrow>
                   (let plan = choosePage s (request\<lparr>rq_pageCreateGateOpen := False\<rparr>)
                    in if createdPage then (s, plan, Continue True)
                       else
                         let s = s\<lparr>ps_stats := (ps_stats s)
                               \<lparr>st_pageAllocationFailureCount :=
                                  st_pageAllocationFailureCount (ps_stats s) + 1\<rparr>\<rparr>
                         in (s, plan,
                             if usesExistingPage plan then Continue False
                             else Stop AllocationFailure))))"

text \<open>The result when no existing page can be used.\<close>

definition noPageResult ::
  "PoolState \<Rightarrow> War3Stage11LifetimePagePlanReason \<Rightarrow>
    War3Stage11SnapshotAllocationResult \<times> PoolState" where
  "noPageResult s reason =
    (if reason = CreateGateClosed then (PageCreateBudget, s)
     else if reason = SharedCapReached \<or> reason = PageVectorLimit then
       (ResidentCapacity,
        s\<lparr>ps_censusRejects := (if ps_censusEnabled s then ps_censusRejects s + 1
                                else ps_censusRejects s),
          ps_stats := (ps_stats s)
            \<lparr>st_pageCapacityRejectCount := st_pageCapacityRejectCount (ps_stats s) + 1\<rparr>\<rparr>)
     else (InvalidRange, s))"

text \<open>
  The placement of a planned slice on the page with the planned id. A slice that
  cannot be tracked seals the page against recycling and is handed out without lease.
\<close>

definition placeOnPage ::
  "War3Stage11LifetimePagePlan \<Rightarrow> War3Stage11SnapshotPage \<Rightarrow> War3Stage11SnapshotPage \<times> nat option"
where
  "placeOnPage plan p =
    (case claim (pg_slices p) (Some (pg_id p)) (pl_offset plan) (pl_sliceBytes plan) of
       (None, t) \<Rightarrow> (p\<lparr>pg_slices := t, pg_sliceRecyclingSealed := True,
                      pg_used := pl_nextUsed plan, pg_holders := pg_holders p + 1\<rparr>, None)
     | (Some i, t) \<Rightarrow> (p\<lparr>pg_slices := adoptLease t i, pg_used := pl_nextUsed plan,
                        pg_holders := pg_holders p + 1\<rparr>, Some i))"

fun placeLoop ::
  "War3Stage11LifetimePagePlan \<Rightarrow> War3Stage11SnapshotPage list \<Rightarrow>
    War3Stage11SnapshotPage list \<times> (u64 \<times> nat option) option" where
  "placeLoop plan [] = ([], None)"
| "placeLoop plan (p # ps) =
    (if pg_id p \<noteq> pl_pageId plan
     then (let (ps', r) = placeLoop plan ps in (p # ps', r))
     else (let (p', lease) = placeOnPage plan p in (p' # ps, Some (pg_id p, lease))))"

definition placeSlice ::
  "War3Stage11LifetimePagePlan \<Rightarrow> u64 \<Rightarrow> PoolState \<Rightarrow>
    War3Stage11SnapshotAllocationResult option \<times> AllocOut \<times> PoolState" where
  "placeSlice plan alignedBytes s =
    (if \<not> usesExistingPage plan
     then (let (r, s) = noPageResult s (pl_reason plan) in (Some r, no_out, s))
     else
       let (pages, placed) = placeLoop plan (ps_pages s);
           s = s\<lparr>ps_pages := pages\<rparr>
       in case placed of
            None \<Rightarrow> (Some InvalidRange, no_out, s)
          | Some (pageId, lease) \<Rightarrow>
              (Some AllocSuccess,
               \<lparr>out_page = Some pageId, out_lease = lease, out_offset = pl_offset plan,
                out_capacity = pl_sliceBytes plan\<rparr>,
               War3RefreshStage11SnapshotPageStats (countSuballocation alignedBytes s)))"

text \<open>The allocator after the reuse loop found nothing.\<close>

definition allocatePlanned ::
  "AllocEnv \<Rightarrow> u64 \<Rightarrow> War3Stage11LifetimePageRequest \<Rightarrow> u64 \<Rightarrow> PoolState \<Rightarrow>
    War3Stage11SnapshotAllocationResult option \<times> AllocOut \<times> PoolState" where
  "allocatePlanned env cap request alignedBytes s =
    (let s = (if usesExistingPage (choosePage s request) then s
              else War3CollectUnusedStage11SnapshotPages s);
         (request, s, plan) = admitGrowth env cap request s (choosePage s request)
     in case createStep env cap request s plan of
          (s, plan, Threw) \<Rightarrow> (None, no_out, s)
        | (s, plan, Stop r) \<Rightarrow> (Some r, no_out, s)
        | (s, plan, Continue createdPage) \<Rightarrow> placeSlice plan alignedBytes s)"

definition War3AllocateStage11Snapshot ::
  "AllocEnv \<Rightarrow> u64 \<Rightarrow> War3Stage11PageLifetime \<Rightarrow> PoolState \<Rightarrow>
    War3Stage11SnapshotAllocationResult option \<times> AllocOut \<times> PoolState" where
  "War3AllocateStage11Snapshot env requiredBytes lifetime s =
    (let cap = War3Stage11SnapshotAdaptiveHardCapBytes (ae_capVariable env);
         (ok, alignedBytes) = War3TryAlignStage11SnapshotBytes requiredBytes
     in if \<not> ok then (Some InvalidRange, no_out, s)
        else
          let request = makeRequest s cap alignedBytes lifetime;
              (pages, reused) = reuseLoop request lifetime alignedBytes (ps_pages s);
              s = s\<lparr>ps_pages := pages\<rparr>
          in case reused of
            Some (pageId, i, offset) \<Rightarrow>
              (Some AllocSuccess,
               \<lparr>out_page = Some pageId, out_lease = Some i, out_offset = offset,
                out_capacity = alignedBytes\<rparr>,
               War3RefreshStage11SnapshotPageStats
                 (countSuballocation alignedBytes
                   (s\<lparr>ps_sliceReusedBytes := ps_sliceReusedBytes s + alignedBytes\<rparr>)))
          | None \<Rightarrow> allocatePlanned env cap request alignedBytes s)"

subsection \<open>What each step does to the live slices\<close>

abbreviation page_live :: "War3Stage11SnapshotPage \<Rightarrow> nat \<rightharpoonup> interval" where
  "page_live p \<equiv> live_iv (pg_slices p)"

lemma findHole_alone_live: "findHole [] t cap n = (r, t') \<Longrightarrow> live_iv t' = live_iv t"
  by (auto simp: findHole_def Let_def live_iv_def fun_eq_iff split: if_splits option.splits)

lemma adopt_claimed:
  assumes "claim t owner off n = (Some i, t')"
  shows "adoptLease t' i = t'"
  using assms
proof (cases rule: claim_cases)
  case (claimed j)
  then have i: "i < length (tb_slots t')" "sl_refs (tb_slots t' ! i) = 1" by simp_all
  have same: "(tb_slots t' ! i)\<lparr>sl_refs := 1\<rparr> = tb_slots t' ! i"
    using i(2) by (cases "tb_slots t' ! i") simp
  show ?thesis
    using i by (simp add: adoptLease_def incRef_def decRef_def set_slot_def Let_def same)
qed simp

lemma reusePage_cases:
  assumes "reusePage request lt n p = (p', r)"
  obtains
    (no) t where "r = None" "p' = p\<lparr>pg_slices := t\<rparr>" "live_iv t = page_live p"
      "tb_slots t = tb_slots (pg_slices p)"
  | (hole) i off t1 t where "r = Some (i, off)"
      "p' = p\<lparr>pg_slices := t, pg_holders := pg_holders p + 1\<rparr>"
      "findHole [] (pg_slices p) (pg_capacity p) n = (Some off, t1)"
      "claim t1 (Some (pg_id p)) off n = (Some i, t)"
      "pg_mapEpoch p = rq_mapEpoch request" "pg_deviceEpoch p = rq_deviceEpoch request"
      "pg_lifetime p = lt"
      "\<not> sub_valid (War3PlanStage11SnapshotSuballocation (pg_used p) (pg_capacity p) n)"
proof -
  have same: "p = p\<lparr>pg_slices := pg_slices p\<rparr>" by simp
  show ?thesis
  proof (cases "pg_mapEpoch p \<noteq> rq_mapEpoch request \<or> pg_deviceEpoch p \<noteq> rq_deviceEpoch request \<or>
      pg_lifetime p \<noteq> lt \<or> pg_sliceRecyclingSealed p \<or> \<not> hasSlot (pg_slices p) \<or>
      sub_valid (War3PlanStage11SnapshotSuballocation (pg_used p) (pg_capacity p) n)")
    case True
    then have "r = None" "p' = p" using assms by (auto simp: reusePage_def split: if_splits)
    then show ?thesis using same no by metis
  next
    case go: False
    obtain h t1 where f: "findHole [] (pg_slices p) (pg_capacity p) n = (h, t1)" by fastforce
    have slots: "tb_slots t1 = tb_slots (pg_slices p)"
      using f by (auto simp: findHole_def Let_def split: if_splits option.splits)
    show ?thesis
    proof (cases h)
      case None
      then have "r = None" "p' = p\<lparr>pg_slices := t1\<rparr>" using assms go f by (auto simp: reusePage_def)
      then show ?thesis using no findHole_alone_live [OF f] slots by blast
    next
      case (Some off)
      obtain c t where c: "claim t1 (Some (pg_id p)) off n = (c, t)" by fastforce
      show ?thesis
      proof (cases c)
        case None
        then have "t = t1" using c by (auto elim: claim_cases)
        then have "r = None" "p' = p\<lparr>pg_slices := t1\<rparr>"
          using assms go f Some c None by (auto simp: reusePage_def)
        then show ?thesis using no findHole_alone_live [OF f] slots by blast
      next
        case (Some i)
        then have "r = Some (i, off)" "p' = p\<lparr>pg_slices := t, pg_holders := pg_holders p + 1\<rparr>"
          using assms go f \<open>h = Some off\<close> c adopt_claimed [of t1 _ off n i t]
          by (auto simp: reusePage_def)
        then show ?thesis
          using hole [of i off t t1] go f \<open>h = Some off\<close> c Some by blast
      qed
    qed
  qed
qed

lemma reuse_hole_live:
  assumes "findHole [] (pg_slices p) cap n = (Some off, t1)" and "claim t1 (Some o') off n = (Some i, t)"
  shows "page_live p i = None" "live_iv t = (page_live p)(i \<mapsto> (unat off, unat off + unat n))"
    "is_hole (pg_slices p) (unat cap) (unat n) (unat off)"
proof -
  note f = findHole_some [OF assms(1)]
  show "page_live p i = None" "live_iv t = (page_live p)(i \<mapsto> (unat off, unat off + unat n))"
    using claim_live_iv [OF assms(2)] f(1) by simp_all
  show "is_hole (pg_slices p) (unat cap) (unat n) (unat off)" by (rule f(2))
qed

lemma placeOnPage_cases:
  assumes "placeOnPage plan p = (p', lease)"
  obtains (sealed) "lease = None"
      "p' = p\<lparr>pg_sliceRecyclingSealed := True, pg_used := pl_nextUsed plan,
              pg_holders := pg_holders p + 1\<rparr>"
    | (claimed) i t where "lease = Some i"
      "p' = p\<lparr>pg_slices := t, pg_used := pl_nextUsed plan, pg_holders := pg_holders p + 1\<rparr>"
      "claim (pg_slices p) (Some (pg_id p)) (pl_offset plan) (pl_sliceBytes plan) = (Some i, t)"
proof -
  obtain c t where c: "claim (pg_slices p) (Some (pg_id p)) (pl_offset plan) (pl_sliceBytes plan) = (c, t)"
    by fastforce
  show ?thesis
  proof (cases c)
    case None
    then have "t = pg_slices p" using c by (auto elim: claim_cases)
    then show ?thesis using assms c None by (intro sealed) (auto simp: placeOnPage_def)
  next
    case (Some i)
    then show ?thesis
      using assms c adopt_claimed [of "pg_slices p" _ _ _ i t]
      by (intro claimed [of i t]) (auto simp: placeOnPage_def)
  qed
qed

subsection \<open>The pool invariant\<close>

definition page_ok :: "War3Stage11SnapshotPage \<Rightarrow> bool" where
  "page_ok p \<longleftrightarrow>
     pg_id p \<noteq> 0 \<and> pg_capacity p \<noteq> 0 \<and> 256 dvd unat (pg_capacity p) \<and>
     256 dvd unat (pg_used p) \<and> unat (pg_used p) \<le> unat (pg_capacity p) \<and>
     (\<forall>iv \<in> ran (page_live p). snd iv \<le> unat (pg_capacity p))"

definition pool_ok :: "string option \<Rightarrow> PoolState \<Rightarrow> bool" where
  "pool_ok v s \<longleftrightarrow>
     (\<forall>p \<in> set (ps_pages s). page_ok p) \<and> distinct (map pg_id (ps_pages s)) \<and>
     (\<forall>p \<in> set (ps_pages s). unat (pg_id p) < unat (ps_nextPageId s)) \<and>
     ps_nextPageId s \<noteq> 0 \<and>
     unat (ps_residentBytes s) = (\<Sum>p \<leftarrow> ps_pages s. unat (pg_capacity p)) \<and>
     unat (ps_residentBytes s) \<le> unat (War3Stage11SnapshotAdaptiveHardCapBytes v)"

text \<open>A step keeps a page: its identity, capacity and domain, and every live slice.\<close>

definition page_evolves :: "War3Stage11SnapshotPage \<Rightarrow> War3Stage11SnapshotPage \<Rightarrow> bool" where
  "page_evolves p p' \<longleftrightarrow>
     pg_id p' = pg_id p \<and> pg_capacity p' = pg_capacity p \<and> pg_lifetime p' = pg_lifetime p \<and>
     pg_mapEpoch p' = pg_mapEpoch p \<and> pg_deviceEpoch p' = pg_deviceEpoch p \<and>
     page_live p \<subseteq>\<^sub>m page_live p'"

lemma page_evolves_refl [simp]: "page_evolves p p"
  by (simp add: page_evolves_def)

lemma evolves_refl [simp]: "list_all2 page_evolves ps ps"
  by (rule list_all2_refl) simp

lemma evolves_maps:
  "list_all2 page_evolves ps ps' \<Longrightarrow>
    map pg_id ps' = map pg_id ps \<and> map (\<lambda>p. unat (pg_capacity p)) ps' = map (\<lambda>p. unat (pg_capacity p)) ps"
  by (induction rule: list_all2_induct) (auto simp: page_evolves_def)

lemma evolves_find:
  "list_all2 page_evolves ps ps' \<Longrightarrow> p \<in> set ps \<Longrightarrow> \<exists>p' \<in> set ps'. page_evolves p p'"
  by (induction rule: list_all2_induct) auto

lemma pool_ok_evolves:
  assumes "pool_ok v s" and "list_all2 page_evolves (ps_pages s) pages"
    and "\<forall>p \<in> set pages. page_ok p"
  shows "pool_ok v (s\<lparr>ps_pages := pages\<rparr>)"
proof -
  note m = evolves_maps [OF assms(2)]
  have "pg_id ` set pages = pg_id ` set (ps_pages s)"
    using m by (metis list.set_map)
  then have "\<forall>p \<in> set pages. unat (pg_id p) < unat (ps_nextPageId s)"
    using assms(1) by (force simp: pool_ok_def)
  then show ?thesis using assms(1,3) m by (simp add: pool_ok_def)
qed

text \<open>The fields the invariant does not read.\<close>

lemma pool_ok_cong:
  "ps_pages s' = ps_pages s \<Longrightarrow> ps_nextPageId s' = ps_nextPageId s \<Longrightarrow>
    ps_residentBytes s' = ps_residentBytes s \<Longrightarrow> pool_ok v s' = pool_ok v s"
  by (simp add: pool_ok_def)

lemma refresh_fields [simp]:
  "ps_pages (War3RefreshStage11SnapshotPageStats s) = ps_pages s"
  "ps_nextPageId (War3RefreshStage11SnapshotPageStats s) = ps_nextPageId s"
  "ps_residentBytes (War3RefreshStage11SnapshotPageStats s) = ps_residentBytes s"
  "ps_mapEpoch (War3RefreshStage11SnapshotPageStats s) = ps_mapEpoch s"
  "ps_deviceEpoch (War3RefreshStage11SnapshotPageStats s) = ps_deviceEpoch s"
  by (simp_all add: War3RefreshStage11SnapshotPageStats_def)

lemma count_fields [simp]:
  "ps_pages (countSuballocation n s) = ps_pages s"
  "ps_nextPageId (countSuballocation n s) = ps_nextPageId s"
  "ps_residentBytes (countSuballocation n s) = ps_residentBytes s"
  "ps_mapEpoch (countSuballocation n s) = ps_mapEpoch s"
  "ps_deviceEpoch (countSuballocation n s) = ps_deviceEpoch s"
  by (simp_all add: countSuballocation_def)

subsection \<open>Reuse\<close>

lemma reusePage_ok:
  assumes "reusePage request lt n p = (p', r)" and "page_ok p"
  shows "page_ok p' \<and> page_evolves p p' \<and> pg_used p' = pg_used p"
  using assms(1)
proof (cases rule: reusePage_cases)
  case (no t)
  then show ?thesis using assms(2) by (simp add: page_ok_def page_evolves_def)
next
  case (hole i off t1 t)
  note h = reuse_hole_live [OF hole(3,4)]
  have "page_live p \<subseteq>\<^sub>m live_iv t" using h(1,2) by (auto simp: map_le_def)
  moreover have "\<forall>iv \<in> ran (live_iv t). snd iv \<le> unat (pg_capacity p)"
    unfolding h(2) using assms(2) h(3)
    by (intro ran_upd_all) (simp_all add: page_ok_def is_hole_def)
  ultimately show ?thesis using assms(2) hole(2) by (simp add: page_ok_def page_evolves_def)
qed

lemma reuseLoop_ok:
  "reuseLoop request lt n ps = (ps', r) \<Longrightarrow> \<forall>p \<in> set ps. page_ok p \<Longrightarrow>
    list_all2 page_evolves ps ps' \<and> (\<forall>p \<in> set ps'. page_ok p)"
proof (induction ps arbitrary: ps' r)
  case (Cons p ps)
  obtain p' q where q: "reusePage request lt n p = (p', q)" by fastforce
  have ok: "page_ok p' \<and> page_evolves p p'" using reusePage_ok [OF q] Cons.prems(2) by simp
  show ?case
  proof (cases q)
    case None
    obtain qs q' where rec: "reuseLoop request lt n ps = (qs, q')" by fastforce
    then have "ps' = p' # qs" using Cons.prems(1) q None by simp
    then show ?thesis using Cons.IH [OF rec] Cons.prems(2) ok by simp
  next
    case (Some h)
    then have "ps' = p' # ps" using Cons.prems(1) q by (cases h) simp
    then show ?thesis using Cons.prems(2) ok by simp
  qed
qed simp

lemma reuseLoop_found:
  "reuseLoop request lt n ps = (ps', Some (pid, i, off)) \<Longrightarrow>
    \<exists>p \<in> set ps. \<exists>p' \<in> set ps'. pg_id p = pid \<and> reusePage request lt n p = (p', Some (i, off))"
proof (induction ps arbitrary: ps')
  case (Cons p ps)
  obtain p' q where q: "reusePage request lt n p = (p', q)" by fastforce
  show ?case
  proof (cases q)
    case None
    obtain qs q' where rec: "reuseLoop request lt n ps = (qs, q')" by fastforce
    then show ?thesis using Cons.IH [of qs] Cons.prems q None by auto
  next
    case (Some h)
    then show ?thesis using Cons.prems q by (cases h) auto
  qed
qed simp

text \<open>What a served reuse hands out.\<close>

lemma reusePage_served:
  assumes "reusePage request lt n p = (p', Some (i, off))"
  shows "page_live p' i = Some (unat off, unat off + unat n)"
    "unat off + unat n \<le> unat (pg_capacity p')"
    "pg_id p' = pg_id p" "pg_lifetime p' = lt"
    "pg_mapEpoch p' = rq_mapEpoch request" "pg_deviceEpoch p' = rq_deviceEpoch request"
    "\<forall>j iv. j \<noteq> i \<longrightarrow> page_live p' j = Some iv \<longrightarrow> disjoint_iv iv (unat off, unat off + unat n)"
proof -
  have "page_live p' i = Some (unat off, unat off + unat n) \<and>
    unat off + unat n \<le> unat (pg_capacity p') \<and> pg_id p' = pg_id p \<and> pg_lifetime p' = lt \<and>
    pg_mapEpoch p' = rq_mapEpoch request \<and> pg_deviceEpoch p' = rq_deviceEpoch request \<and>
    (\<forall>j iv. j \<noteq> i \<longrightarrow> page_live p' j = Some iv \<longrightarrow> disjoint_iv iv (unat off, unat off + unat n))"
    using assms
  proof (cases rule: reusePage_cases)
    case (hole i' off' t1 t)
    then show ?thesis
      using reuse_hole_live [OF hole(3,4)] by (auto simp: is_hole_def intro: ranI)
  qed simp
  then show "page_live p' i = Some (unat off, unat off + unat n)"
    "unat off + unat n \<le> unat (pg_capacity p')"
    "pg_id p' = pg_id p" "pg_lifetime p' = lt"
    "pg_mapEpoch p' = rq_mapEpoch request" "pg_deviceEpoch p' = rq_deviceEpoch request"
    "\<forall>j iv. j \<noteq> i \<longrightarrow> page_live p' j = Some iv \<longrightarrow> disjoint_iv iv (unat off, unat off + unat n)"
    by blast+
qed

subsection \<open>Collection\<close>

lemma collectPages_filter:
  "collectPages ps resident reclaimed = (ps', resident', reclaimed') \<Longrightarrow>
    ps' = filter (\<lambda>p. \<not> page_unused p) ps"
  by (induction ps arbitrary: resident reclaimed ps') (auto split: if_splits prod.splits)

lemma collectPages_resident:
  "collectPages ps resident reclaimed = (ps', resident', reclaimed') \<Longrightarrow>
    unat resident = c + (\<Sum>p \<leftarrow> ps. unat (pg_capacity p)) \<Longrightarrow>
    unat resident' = c + (\<Sum>p \<leftarrow> ps'. unat (pg_capacity p))"
proof (induction ps arbitrary: resident reclaimed ps' c)
  case (Cons p ps)
  show ?case
  proof (cases "page_unused p")
    case True
    have "\<not> pg_capacity p > resident" using Cons.prems(2) by (simp add: word_less_nat_alt)
    moreover have "unat (resident - pg_capacity p) = c + (\<Sum>p \<leftarrow> ps. unat (pg_capacity p))"
      using Cons.prems(2) by (simp add: unat_sub_if')
    ultimately show ?thesis
      using Cons.IH [of "resident - pg_capacity p" "reclaimed + 1" ps' c] Cons.prems(1) True by simp
  next
    case False
    obtain qs where q: "collectPages ps resident reclaimed = (qs, resident', reclaimed')"
      "ps' = p # qs" using Cons.prems(1) False by (auto split: prod.splits)
    show ?thesis
      using Cons.IH [OF q(1), of "c + unat (pg_capacity p)"] Cons.prems(2) q(2) by simp
  qed
qed simp

lemma sum_filter_le: "(\<Sum>x \<leftarrow> filter P xs. f x) \<le> (\<Sum>x \<leftarrow> xs. (f x :: nat))"
  by (induction xs) auto

lemma collect_ok:
  assumes "pool_ok v s"
  shows "pool_ok v (War3CollectUnusedStage11SnapshotPages s)"
    and "ps_pages (War3CollectUnusedStage11SnapshotPages s) = filter (\<lambda>p. \<not> page_unused p) (ps_pages s)"
proof -
  obtain pages resident reclaimed where c: "collectPages (ps_pages s) (ps_residentBytes s)
      (ps_reclaimedPages s) = (pages, resident, reclaimed)" by (rule prod_cases3)
  have pages: "pages = filter (\<lambda>p. \<not> page_unused p) (ps_pages s)"
    by (rule collectPages_filter [OF c])
  have res: "unat resident = (\<Sum>p \<leftarrow> pages. unat (pg_capacity p))"
    using collectPages_resident [OF c, of 0] assms by (simp add: pool_ok_def)
  have le: "(\<Sum>p \<leftarrow> pages. unat (pg_capacity p)) \<le> (\<Sum>p \<leftarrow> ps_pages s. unat (pg_capacity p))"
    unfolding pages by (rule sum_filter_le)
  show "ps_pages (War3CollectUnusedStage11SnapshotPages s) = filter (\<lambda>p. \<not> page_unused p) (ps_pages s)"
    using c pages by (simp add: War3CollectUnusedStage11SnapshotPages_def)
  have "distinct (map pg_id pages)"
    unfolding pages using assms by (intro distinct_map_filter) (simp add: pool_ok_def)
  then show "pool_ok v (War3CollectUnusedStage11SnapshotPages s)"
    using assms c res le pages by (simp add: War3CollectUnusedStage11SnapshotPages_def pool_ok_def)
qed

lemma collect_fields [simp]:
  "ps_mapEpoch (War3CollectUnusedStage11SnapshotPages s) = ps_mapEpoch s"
  "ps_deviceEpoch (War3CollectUnusedStage11SnapshotPages s) = ps_deviceEpoch s"
  by (simp_all add: War3CollectUnusedStage11SnapshotPages_def split: prod.splits)

text \<open>A page with a live slice is never unused.\<close>

lemma live_page_used: "page_live p i = Some iv \<Longrightarrow> \<not> page_unused p"
  by (auto simp: page_unused_def live_iv_def list_all_length split: if_splits)

subsection \<open>Placement\<close>

text \<open>What the plan for an existing page says about the page it names.\<close>

definition plan_fits :: "u64 \<Rightarrow> War3Stage11LifetimePagePlan \<Rightarrow> War3Stage11SnapshotPage \<Rightarrow> bool" where
  "plan_fits n plan p \<longleftrightarrow>
     pl_offset plan = pg_used p \<and> unat (pl_sliceBytes plan) = align256 (unat n) \<and>
     unat (pl_nextUsed plan) = unat (pg_used p) + unat (pl_sliceBytes plan) \<and>
     unat (pl_nextUsed plan) \<le> unat (pg_capacity p)"

lemma choosePage_existing:
  assumes "usesExistingPage (choosePage s request)"
  shows "\<exists>p \<in> set (ps_pages s). pg_id p = pl_pageId (choosePage s request) \<and>
      pg_mapEpoch p = rq_mapEpoch request \<and> pg_deviceEpoch p = rq_deviceEpoch request \<and>
      plan_fits (rq_requiredBytes request) (choosePage s request) p"
    and "distinct (map pg_id (ps_pages s)) \<Longrightarrow> p \<in> set (ps_pages s) \<Longrightarrow>
      pg_id p = pl_pageId (choosePage s request) \<Longrightarrow>
      pg_mapEpoch p = rq_mapEpoch request \<and> pg_deviceEpoch p = rq_deviceEpoch request \<and>
      plan_fits (rq_requiredBytes request) (choosePage s request) p"
proof -
  let ?rq = "request\<lparr>rq_residentBytes := ps_residentBytes s\<rparr>"
  let ?n = "of_nat (length (ps_pages s)) :: u32"
  let ?views = "map page_view (ps_pages s)"
  have few: "length (ps_pages s) \<le> 32"
    and plan: "choosePage s request = War3PlanStage11LifetimePage ?rq (Some ?views) ?n"
    using assms
    by (auto simp: choosePage_def usesExistingPage_def empty_plan_def snapshot_constants
        push_bit_eq_mult split: if_splits)
  have "unat ?n = length (ps_pages s)" using few by (simp add: unat_of_nat)
  then have views: "viewedPages (Some ?views) ?n = ?views" by (simp add: viewedPages_def)
  obtain w c k where e: "accepted ?rq (Some ?views) ?n w"
    "cd_page c \<in> set ?views" "pageCandidate ?rq w (cd_page c) = Some c"
    "pl_pageId (choosePage s request) = pv_id (cd_page c)"
    "pl_offset (choosePage s request) = cd_offset c"
    "pl_nextUsed (choosePage s request) = cd_nextUsed c"
    "pl_sliceBytes (choosePage s request) = w"
    by (rule existing_plan_page [OF assms [unfolded plan], unfolded views, folded plan]) (rule that)
  have chk: "checkRequest ?rq (Some ?views) ?n = Inr w" using e(1) by (simp add: accepted_def)
  note w = check_ok [OF chk]
  obtain p where p: "p \<in> set (ps_pages s)" "cd_page c = page_view p" using e(2) by auto
  have "\<not> invalidPageMetadata (page_view p)"
    using accepted_views(1) [OF e(1)] p views by auto
  note c = candidate_some [OF e(3) [unfolded p(2)] this w(3)]
  have fits: "pg_id p = pl_pageId (choosePage s request)"
    "pg_mapEpoch p = rq_mapEpoch request \<and> pg_deviceEpoch p = rq_deviceEpoch request"
    "plan_fits (rq_requiredBytes request) (choosePage s request) p"
    using c e p(2) w(1) by (auto simp: plan_fits_def page_view_def)
  then show "\<exists>p \<in> set (ps_pages s). pg_id p = pl_pageId (choosePage s request) \<and>
      pg_mapEpoch p = rq_mapEpoch request \<and> pg_deviceEpoch p = rq_deviceEpoch request \<and>
      plan_fits (rq_requiredBytes request) (choosePage s request) p" using p(1) by blast
  show "distinct (map pg_id (ps_pages s)) \<Longrightarrow> q \<in> set (ps_pages s) \<Longrightarrow>
      pg_id q = pl_pageId (choosePage s request) \<Longrightarrow>
      pg_mapEpoch q = rq_mapEpoch request \<and> pg_deviceEpoch q = rq_deviceEpoch request \<and>
      plan_fits (rq_requiredBytes request) (choosePage s request) q" for q
    using fits p(1) by (metis distinct_map inj_onD)
qed

lemma placeOnPage_ok:
  assumes "placeOnPage plan p = (p', lease)" and "plan_fits n plan p" and "page_ok p"
  shows "page_ok p' \<and> page_evolves p p'"
    and "lease = Some i \<Longrightarrow> page_live p' i = Some (unat (pl_offset plan),
      unat (pl_offset plan) + unat (pl_sliceBytes plan))"
proof -
  have used: "256 dvd unat (pl_nextUsed plan)" "unat (pl_nextUsed plan) \<le> unat (pg_capacity p)"
    "unat (pl_offset plan) + unat (pl_sliceBytes plan) \<le> unat (pg_capacity p)"
    using assms(2,3) align256_props(3) [of "unat n"] by (simp_all add: plan_fits_def page_ok_def)
  have "page_ok p' \<and> page_evolves p p' \<and> (\<forall>i. lease = Some i \<longrightarrow>
      page_live p' i = Some (unat (pl_offset plan), unat (pl_offset plan) + unat (pl_sliceBytes plan)))"
    using assms(1)
  proof (cases rule: placeOnPage_cases)
    case sealed
    then show ?thesis using assms(3) used by (simp add: page_ok_def page_evolves_def)
  next
    case (claimed i t)
    note cl = claim_live_iv [OF claimed(3)]
    have "\<forall>iv \<in> ran (live_iv t). snd iv \<le> unat (pg_capacity p)"
      unfolding cl(2) using assms(3) used(3) by (intro ran_upd_all) (simp_all add: page_ok_def)
    moreover have "page_live p \<subseteq>\<^sub>m live_iv t" using cl by (auto simp: map_le_def)
    ultimately show ?thesis
      using assms(3) used claimed(1,2) cl by (simp add: page_ok_def page_evolves_def)
  qed
  then show "page_ok p' \<and> page_evolves p p'"
    and "lease = Some i \<Longrightarrow> page_live p' i = Some (unat (pl_offset plan),
      unat (pl_offset plan) + unat (pl_sliceBytes plan))" by blast+
qed

lemma placeLoop_ok:
  "placeLoop plan ps = (ps', r) \<Longrightarrow> \<forall>p \<in> set ps. page_ok p \<Longrightarrow>
    \<forall>p \<in> set ps. pg_id p = pl_pageId plan \<longrightarrow> plan_fits n plan p \<Longrightarrow>
    list_all2 page_evolves ps ps' \<and> (\<forall>p \<in> set ps'. page_ok p) \<and>
    (case r of
       None \<Rightarrow> \<forall>p \<in> set ps. pg_id p \<noteq> pl_pageId plan
     | Some (pid, lease) \<Rightarrow> pid = pl_pageId plan \<and>
         (\<exists>p \<in> set ps. \<exists>p' \<in> set ps'. pg_id p = pid \<and> placeOnPage plan p = (p', lease)))"
proof (induction ps arbitrary: ps' r)
  case (Cons p ps)
  show ?case
  proof (cases "pg_id p = pl_pageId plan")
    case True
    obtain p' lease where q: "placeOnPage plan p = (p', lease)" by fastforce
    then have "ps' = p' # ps" "r = Some (pg_id p, lease)" using Cons.prems(1) True by simp_all
    then show ?thesis using placeOnPage_ok(1) [OF q, of n] Cons.prems(2,3) True q by simp
  next
    case False
    obtain qs where rec: "placeLoop plan ps = (qs, r)" "ps' = p # qs"
      using Cons.prems(1) False by (auto split: prod.splits)
    show ?thesis
      using Cons.IH [OF rec(1)] Cons.prems(2,3) False rec(2)
      by (auto split: option.splits)
  qed
qed simp

subsection \<open>Creation\<close>

lemma choosePage_cong:
  "ps_pages s' = ps_pages s \<Longrightarrow> ps_residentBytes s' = ps_residentBytes s \<Longrightarrow>
    choosePage s' request = choosePage s request"
  by (simp add: choosePage_def)

lemma choosePage_creates:
  assumes "createsPage (choosePage s request)"
  shows "16777216 dvd unat (pl_pageBytes (choosePage s request))"
  using assms new_page_plan_facts
  by (auto simp: choosePage_def createsPage_def empty_plan_def split: if_splits)

text \<open>The part of the state that refusals, counters and the heap index do not touch.\<close>

definition same_pool :: "PoolState \<Rightarrow> PoolState \<Rightarrow> bool" where
  "same_pool s s' \<longleftrightarrow>
     ps_pages s' = ps_pages s \<and> ps_nextPageId s' = ps_nextPageId s \<and>
     ps_residentBytes s' = ps_residentBytes s \<and> ps_mapEpoch s' = ps_mapEpoch s \<and>
     ps_deviceEpoch s' = ps_deviceEpoch s"

lemma same_pool_ok: "same_pool s s' \<Longrightarrow> pool_ok v s' = pool_ok v s"
  by (rule pool_ok_cong) (simp_all add: same_pool_def)

lemma createBacking_same: "createBacking env cap n s = (s', r) \<Longrightarrow> same_pool s s'"
  by (auto simp: createBacking_def Let_def refuseGrowth_def same_pool_def
      split: create_outcome.splits if_splits)

lemma admitGrowth_same:
  assumes "admitGrowth env cap request s plan = (request', s', plan')"
  shows "same_pool s s'" and "rq_requiredBytes request' = rq_requiredBytes request"
    "rq_mapEpoch request' = rq_mapEpoch request" "rq_deviceEpoch request' = rq_deviceEpoch request"
    "plan = choosePage s request \<Longrightarrow> plan' = choosePage s' request'"
proof -
  have "same_pool s s' \<and> rq_requiredBytes request' = rq_requiredBytes request \<and>
    rq_mapEpoch request' = rq_mapEpoch request \<and> rq_deviceEpoch request' = rq_deviceEpoch request \<and>
    (plan = choosePage s request \<longrightarrow> plan' = choosePage s' request')"
    using assms
    by (auto simp: admitGrowth_def Let_def refuseGrowth_def same_pool_def choosePage_def
        split: if_splits)
  then show "same_pool s s'" "rq_requiredBytes request' = rq_requiredBytes request"
    "rq_mapEpoch request' = rq_mapEpoch request" "rq_deviceEpoch request' = rq_deviceEpoch request"
    "plan = choosePage s request \<Longrightarrow> plan' = choosePage s' request'" by blast+
qed

lemma publishPage_ok:
  assumes "publishPage env cap request n s = (s', r)" and "pool_ok v s"
    and "cap = War3Stage11SnapshotAdaptiveHardCapBytes v" and "16777216 dvd unat n"
  shows "pool_ok v s'" and "set (ps_pages s) \<subseteq> set (ps_pages s')"
    and "ps_mapEpoch s' = ps_mapEpoch s \<and> ps_deviceEpoch s' = ps_deviceEpoch s"
    and "r \<noteq> Some True \<Longrightarrow> same_pool s s'"
proof -
  obtain res pages nid resident where pub: "War3PublishStage11SnapshotPage (\<lambda>i p. p\<lparr>pg_id := i\<rparr>)
      (made_page (ae_makePage env) (newPage (ae_slots env) request n)) (ae_pushThrows env)
      (ps_pages s) (ps_nextPageId s) (ps_residentBytes s) n cap = (res, pages, nid, resident)"
    by (rule prod_cases4)
  have "pool_ok v s' \<and> set (ps_pages s) \<subseteq> set (ps_pages s') \<and>
    ps_mapEpoch s' = ps_mapEpoch s \<and> ps_deviceEpoch s' = ps_deviceEpoch s \<and>
    (r \<noteq> Some True \<longrightarrow> same_pool s s')"
  proof (cases "res = Some PubSuccess")
    case False
    then show ?thesis
      using assms(1,2) pub publish_no_change [OF pub]
      by (cases res) (auto simp: publishPage_def Let_def same_pool_def pool_ok_def)
  next
    case True
    obtain page where pg: "made_page (ae_makePage env) (newPage (ae_slots env) request n) = Made page"
      "pages = ps_pages s @ [page\<lparr>pg_id := ps_nextPageId s\<rparr>]" "n \<noteq> 0" "ps_nextPageId s \<noteq> 0"
      "unat nid = unat (ps_nextPageId s) + 1" "unat resident = unat (ps_residentBytes s) + unat n"
      "unat (ps_residentBytes s) + unat n \<le> unat cap"
      using pub [unfolded True] by (rule publish_success)
    have page: "page = newPage (ae_slots env) request n"
      using pg(1) by (auto simp: made_page_def split: page_factory.splits)
    let ?new = "page\<lparr>pg_id := ps_nextPageId s\<rparr>"
    have live: "page_live ?new = Map.empty"
      by (auto simp: page newPage_def live_iv_def empty_table_def free_slice_def)
    have "256 dvd unat n" using assms(4) by (rule dvd_trans [rotated]) simp
    then have ok: "page_ok ?new"
      using pg(3,4) live by (simp add: page_ok_def page newPage_def)
    have nz: "nid \<noteq> 0" using pg(5) by auto
    have less: "unat (pg_id p) < unat (ps_nextPageId s)" if "p \<in> set (ps_pages s)" for p
      using assms(2) that by (simp add: pool_ok_def)
    have fresh: "ps_nextPageId s \<notin> pg_id ` set (ps_pages s)" using less by force
    have s': "r = Some True" "ps_pages s' = pages" "ps_nextPageId s' = nid"
      "ps_residentBytes s' = resident" "ps_mapEpoch s' = ps_mapEpoch s"
      "ps_deviceEpoch s' = ps_deviceEpoch s"
      using assms(1) pub by (auto simp: publishPage_def Let_def True)
    have cap: "pg_capacity ?new = n" by (simp add: page newPage_def)
    have "pool_ok v s'"
      unfolding pool_ok_def s'(2-4) pg(2)
      using assms(2,3) ok fresh nz less pg(5-7) cap by (auto simp: pool_ok_def less_Suc_eq)
    then show ?thesis using s' pg(2) by auto
  qed
  then show "pool_ok v s'" "set (ps_pages s) \<subseteq> set (ps_pages s')"
    "ps_mapEpoch s' = ps_mapEpoch s \<and> ps_deviceEpoch s' = ps_deviceEpoch s"
    "r \<noteq> Some True \<Longrightarrow> same_pool s s'" by blast+
qed

text \<open>Every live slice survives: in a page of the same id, under the same slot.\<close>

definition slices_survive ::
  "War3Stage11SnapshotPage list \<Rightarrow> War3Stage11SnapshotPage list \<Rightarrow> bool" where
  "slices_survive ps ps' \<longleftrightarrow>
     (\<forall>p \<in> set ps. \<forall>i iv. page_live p i = Some iv \<longrightarrow>
       (\<exists>p' \<in> set ps'. pg_id p' = pg_id p \<and> page_live p' i = Some iv))"

lemma survive_trans: "slices_survive a b \<Longrightarrow> slices_survive b c \<Longrightarrow> slices_survive a c"
  unfolding slices_survive_def
proof (intro ballI allI impI)
  fix p i iv
  assume ab: "\<forall>p \<in> set a. \<forall>i iv. page_live p i = Some iv \<longrightarrow>
      (\<exists>p' \<in> set b. pg_id p' = pg_id p \<and> page_live p' i = Some iv)"
    and bc: "\<forall>p \<in> set b. \<forall>i iv. page_live p i = Some iv \<longrightarrow>
      (\<exists>p' \<in> set c. pg_id p' = pg_id p \<and> page_live p' i = Some iv)"
    and p: "p \<in> set a" "page_live p i = Some iv"
  obtain q where q: "q \<in> set b" "pg_id q = pg_id p" "page_live q i = Some iv" using ab p by blast
  then obtain r where "r \<in> set c" "pg_id r = pg_id q" "page_live r i = Some iv" using bc by blast
  then show "\<exists>p' \<in> set c. pg_id p' = pg_id p \<and> page_live p' i = Some iv" using q(2) by auto
qed

lemma survive_subset: "set ps \<subseteq> set ps' \<Longrightarrow> slices_survive ps ps'"
  by (auto simp: slices_survive_def)

lemma page_evolves_live:
  assumes "page_evolves p p'" and "page_live p i = Some iv"
  shows "page_live p' i = Some iv"
  using map_le_some [of "page_live p" "page_live p'" i iv] assms by (simp add: page_evolves_def)

lemma survive_evolves: "list_all2 page_evolves ps ps' \<Longrightarrow> slices_survive ps ps'"
  unfolding slices_survive_def
proof (intro ballI allI impI)
  fix p i iv assume a: "list_all2 page_evolves ps ps'" "p \<in> set ps" "page_live p i = Some iv"
  obtain p' where p': "p' \<in> set ps'" "page_evolves p p'" using evolves_find [OF a(1,2)] by blast
  have "page_live p' i = Some iv" using page_evolves_live [OF p'(2) a(3)] .
  then show "\<exists>p' \<in> set ps'. pg_id p' = pg_id p \<and> page_live p' i = Some iv"
    using p' by (auto simp: page_evolves_def)
qed

lemma survive_collect:
  assumes "pool_ok v s"
  shows "slices_survive (ps_pages s) (ps_pages (War3CollectUnusedStage11SnapshotPages s))"
  unfolding slices_survive_def collect_ok(2) [OF assms]
proof (intro ballI allI impI)
  fix p i iv assume p: "p \<in> set (ps_pages s)" "page_live p i = Some iv"
  then have "p \<in> set (filter (\<lambda>p. \<not> page_unused p) (ps_pages s))"
    using live_page_used [OF p(2)] by simp
  then show "\<exists>p' \<in> set (filter (\<lambda>p. \<not> page_unused p) (ps_pages s)).
      pg_id p' = pg_id p \<and> page_live p' i = Some iv" by (intro bexI [of _ p] conjI refl p(2))
qed

lemma same_pool_plan: "same_pool s s' \<Longrightarrow> choosePage s' request = choosePage s request"
  by (rule choosePage_cong) (simp_all add: same_pool_def)

definition planned_by ::
  "War3Stage11LifetimePageRequest \<Rightarrow> PoolState \<Rightarrow> War3Stage11LifetimePagePlan \<Rightarrow> bool" where
  "planned_by request s plan \<longleftrightarrow>
     (\<exists>request'. plan = choosePage s request' \<and>
        rq_requiredBytes request' = rq_requiredBytes request \<and>
        rq_mapEpoch request' = rq_mapEpoch request \<and>
        rq_deviceEpoch request' = rq_deviceEpoch request)"

lemma createStep_ok:
  assumes "createStep env cap request s plan = (s', plan', c)" and "plan = choosePage s request"
    and "pool_ok v s" and "cap = War3Stage11SnapshotAdaptiveHardCapBytes v"
  shows "pool_ok v s' \<and> set (ps_pages s) \<subseteq> set (ps_pages s') \<and>
    ps_mapEpoch s' = ps_mapEpoch s \<and> ps_deviceEpoch s' = ps_deviceEpoch s \<and>
    (\<forall>b. c = Continue b \<longrightarrow> planned_by request s' plan')"
proof (cases "createsPage plan")
  case False
  then show ?thesis using assms by (auto simp: createStep_def planned_by_def)
next
  case True
  let ?n = "pl_pageBytes plan"
  have n: "16777216 dvd unat ?n" using choosePage_creates True assms(2) by simp
  obtain s1 b where b: "createBacking env cap ?n s = (s1, b)" by fastforce
  note same1 = createBacking_same [OF b]
  have ok1: "pool_ok v s1" using assms(3) same_pool_ok [OF same1] by simp
  have e1: "ps_pages s1 = ps_pages s" "ps_mapEpoch s1 = ps_mapEpoch s"
    "ps_deviceEpoch s1 = ps_deviceEpoch s" using same1 by (simp_all add: same_pool_def)
  show ?thesis
  proof (cases b)
    case None
    then show ?thesis using assms(1) True b ok1 e1 by (auto simp: createStep_def Let_def)
  next
    case (Some hasBuffer)
    obtain s2 d where d: "(if hasBuffer then publishPage env cap request ?n s1 else (s1, Some False)) = (s2, d)"
      by fastforce
    have ok2: "pool_ok v s2" "set (ps_pages s1) \<subseteq> set (ps_pages s2)"
      "ps_mapEpoch s2 = ps_mapEpoch s1 \<and> ps_deviceEpoch s2 = ps_deviceEpoch s1"
      using d ok1 publishPage_ok [of env cap request ?n s1 s2 d v] assms(4) n
      by (auto split: if_splits)
    let ?plan = "choosePage s2 (request\<lparr>rq_pageCreateGateOpen := False\<rparr>)"
    show ?thesis
    proof (cases d)
      case None
      then show ?thesis
        using assms(1) True b Some d ok2 e1 by (auto simp: createStep_def Let_def)
    next
      case (Some created)
      have res: "s' = (if created then s2 else s2\<lparr>ps_stats := (ps_stats s2)
            \<lparr>st_pageAllocationFailureCount := st_pageAllocationFailureCount (ps_stats s2) + 1\<rparr>\<rparr>)"
        "plan' = ?plan"
        using assms(1) True b \<open>b = Some hasBuffer\<close> d Some
        by (auto simp: createStep_def Let_def split: if_splits)
      have "same_pool s2 s'" by (simp add: res(1) same_pool_def)
      moreover have "planned_by request s' plan'"
        unfolding planned_by_def res(2)
        by (rule exI [of _ "request\<lparr>rq_pageCreateGateOpen := False\<rparr>"])
          (simp add: same_pool_plan [OF calculation])
      moreover have "pool_ok v s'" using same_pool_ok [OF calculation(1)] ok2(1) by simp
      ultimately show ?thesis
        using ok2 e1 by (auto simp: same_pool_def)
    qed
  qed
qed

lemma placed_slice:
  assumes "planned_by request s plan" and "usesExistingPage plan" and "pool_ok v s"
    and "placeLoop plan (ps_pages s) = (pages, placed)"
  shows "list_all2 page_evolves (ps_pages s) pages \<and> (\<forall>p \<in> set pages. page_ok p)"
    and "\<exists>p \<in> set (ps_pages s). \<exists>p' \<in> set pages. \<exists>lease.
      placed = Some (pg_id p, lease) \<and> placeOnPage plan p = (p', lease) \<and>
      pg_mapEpoch p = rq_mapEpoch request \<and> pg_deviceEpoch p = rq_deviceEpoch request \<and>
      plan_fits (rq_requiredBytes request) plan p"
proof -
  obtain rq where rq: "plan = choosePage s rq" "rq_requiredBytes rq = rq_requiredBytes request"
    "rq_mapEpoch rq = rq_mapEpoch request" "rq_deviceEpoch rq = rq_deviceEpoch request"
    using assms(1) by (auto simp: planned_by_def)
  have pages: "\<forall>p \<in> set (ps_pages s). page_ok p" "distinct (map pg_id (ps_pages s))"
    using assms(3) by (simp_all add: pool_ok_def)
  note e = choosePage_existing [OF assms(2) [unfolded rq(1)], folded rq(1)]
  have fits: "\<forall>p \<in> set (ps_pages s). pg_id p = pl_pageId plan \<longrightarrow>
      plan_fits (rq_requiredBytes request) plan p"
    using e(2) pages(2) rq(2) by simp
  note loop = placeLoop_ok [OF assms(4) pages(1) fits]
  then show "list_all2 page_evolves (ps_pages s) pages \<and> (\<forall>p \<in> set pages. page_ok p)" by blast
  obtain lease p p' where l: "placed = Some (pl_pageId plan, lease)" "p \<in> set (ps_pages s)"
    "p' \<in> set pages" "pg_id p = pl_pageId plan" "placeOnPage plan p = (p', lease)"
    using loop e(1) by (auto split: option.splits)
  then show "\<exists>p \<in> set (ps_pages s). \<exists>p' \<in> set pages. \<exists>lease.
      placed = Some (pg_id p, lease) \<and> placeOnPage plan p = (p', lease) \<and>
      pg_mapEpoch p = rq_mapEpoch request \<and> pg_deviceEpoch p = rq_deviceEpoch request \<and>
      plan_fits (rq_requiredBytes request) plan p"
    using e(2) [OF pages(2) l(2,4)] rq(2-4) by metis
qed

subsection \<open>Allocation as a whole\<close>

text \<open>What a successful allocation hands out, relative to the pool afterwards.\<close>

definition served ::
  "u64 \<Rightarrow> u64 \<Rightarrow> u64 \<Rightarrow> AllocOut \<Rightarrow> War3Stage11SnapshotPage list \<Rightarrow> bool" where
  "served bytes mapEpoch deviceEpoch out pages \<longleftrightarrow>
     (\<exists>p \<in> set pages. out_page out = Some (pg_id p) \<and>
        pg_mapEpoch p = mapEpoch \<and> pg_deviceEpoch p = deviceEpoch \<and>
        unat (out_capacity out) = align256 (unat bytes) \<and>
        unat (out_offset out) + unat (out_capacity out) \<le> unat (pg_capacity p) \<and>
        (\<forall>i. out_lease out = Some i \<longrightarrow> page_live p i =
          Some (unat (out_offset out), unat (out_offset out) + unat (out_capacity out))))"

lemma noPageResult_same:
  "noPageResult s reason = (r, s') \<Longrightarrow> same_pool s s' \<and> r \<noteq> AllocSuccess"
  by (auto simp: noPageResult_def same_pool_def split: if_splits)

lemma placeSlice_ok:
  assumes "placeSlice plan w s = (r, out, s')" and "planned_by request s plan" and "pool_ok v s"
  shows "pool_ok v s' \<and> slices_survive (ps_pages s) (ps_pages s') \<and>
    (r = Some AllocSuccess \<longrightarrow>
      served (rq_requiredBytes request) (rq_mapEpoch request) (rq_deviceEpoch request) out (ps_pages s'))"
proof (cases "usesExistingPage plan")
  case False
  then obtain r' where "noPageResult s (pl_reason plan) = (r', s')" "r = Some r'"
    using assms(1) by (auto simp: placeSlice_def split: prod.splits)
  then have same: "same_pool s s'" and "r \<noteq> Some AllocSuccess" using noPageResult_same by auto
  then show ?thesis
    using same_pool_ok [OF same] assms(3) survive_subset [of "ps_pages s" "ps_pages s"]
    by (simp add: same_pool_def)
next
  case True
  obtain pages placed where pl: "placeLoop plan (ps_pages s) = (pages, placed)" by fastforce
  note place = placed_slice [OF assms(2) True assms(3) pl]
  obtain p p' lease where p: "p' \<in> set pages" "placed = Some (pg_id p, lease)" "p \<in> set (ps_pages s)"
    "placeOnPage plan p = (p', lease)" "pg_mapEpoch p = rq_mapEpoch request"
    "pg_deviceEpoch p = rq_deviceEpoch request" "plan_fits (rq_requiredBytes request) plan p"
    using place(2) by blast
  have res: "r = Some AllocSuccess" "ps_pages s' = pages"
    "out = \<lparr>out_page = Some (pg_id p), out_lease = lease, out_offset = pl_offset plan,
            out_capacity = pl_sliceBytes plan\<rparr>"
    "same_pool (s\<lparr>ps_pages := pages\<rparr>) s'"
    using assms(1) True pl p(2) by (auto simp: placeSlice_def same_pool_def)
  have ok: "pool_ok v s'"
    using same_pool_ok [OF res(4)] pool_ok_evolves [OF assms(3)] place(1) by blast
  have pok: "page_ok p" using assms(3) p(3) by (simp add: pool_ok_def)
  note pp = placeOnPage_ok [OF p(4,7) pok]
  have "served (rq_requiredBytes request) (rq_mapEpoch request) (rq_deviceEpoch request) out pages"
    unfolding served_def
    using p(1,5-7) pp by (intro bexI [of _ p']) (auto simp: res(3) page_evolves_def plan_fits_def)
  then show ?thesis
    using ok res(1,2) survive_evolves place(1) by auto
qed

lemma allocatePlanned_ok:
  assumes "allocatePlanned env cap request w s = (r, out, s')" and "pool_ok v s"
    and "cap = War3Stage11SnapshotAdaptiveHardCapBytes v" and "rq_requiredBytes request = w"
    and "rq_mapEpoch request = ps_mapEpoch s" and "rq_deviceEpoch request = ps_deviceEpoch s"
  shows "pool_ok v s' \<and> slices_survive (ps_pages s) (ps_pages s') \<and>
    (r = Some AllocSuccess \<longrightarrow>
      served w (ps_mapEpoch s) (ps_deviceEpoch s) out (ps_pages s'))"
proof -
  define s1 where "s1 = (if usesExistingPage (choosePage s request) then s
      else War3CollectUnusedStage11SnapshotPages s)"
  have ok1: "pool_ok v s1" and sv1: "slices_survive (ps_pages s) (ps_pages s1)"
    using assms(2) collect_ok(1) survive_collect survive_subset [of "ps_pages s" "ps_pages s"]
    by (auto simp: s1_def)
  obtain rq s2 plan where adm: "admitGrowth env cap request s1 (choosePage s1 request) = (rq, s2, plan)"
    by (rule prod_cases3)
  note a = admitGrowth_same [OF adm]
  have ok2: "pool_ok v s2" using ok1 same_pool_ok [OF a(1)] by simp
  have p2: "ps_pages s2 = ps_pages s1" using a(1) by (simp add: same_pool_def)
  obtain s3 plan3 c where cr: "createStep env cap rq s2 plan = (s3, plan3, c)" by (rule prod_cases3)
  note c = createStep_ok [OF cr a(5) [OF refl] ok2 assms(3)]
  have sv3: "slices_survive (ps_pages s) (ps_pages s3)"
    using sv1 p2 survive_subset c survive_trans by metis
  have run: "allocatePlanned env cap request w s =
      (case c of Threw \<Rightarrow> (None, no_out, s3) | Stop r \<Rightarrow> (Some r, no_out, s3)
       | Continue b \<Rightarrow> placeSlice plan3 w s3)"
    by (simp add: allocatePlanned_def s1_def [symmetric] adm cr Let_def)
  show ?thesis
  proof (cases c)
    case (Continue b)
    then have "placeSlice plan3 w s3 = (r, out, s')" using assms(1) run by simp
    from placeSlice_ok [OF this, of rq v]
    show ?thesis
      using c Continue sv3 survive_trans a(2-4) assms(4-6) by auto
  next
    case (Stop r')
    have "r' \<noteq> AllocSuccess" using cr Stop
      by (auto simp: createStep_def Let_def split: if_splits prod.splits option.splits)
    then show ?thesis using assms(1) run Stop c sv3 by auto
  next
    case Threw
    then show ?thesis using assms(1) run c sv3 by simp
  qed
qed

lemma allocate_ok:
  assumes "War3AllocateStage11Snapshot env bytes lt s = (r, out, s')"
    and "pool_ok (ae_capVariable env) s"
  shows "pool_ok (ae_capVariable env) s' \<and> slices_survive (ps_pages s) (ps_pages s') \<and>
    (r = Some AllocSuccess \<longrightarrow>
      served bytes (ps_mapEpoch s) (ps_deviceEpoch s) out (ps_pages s'))"
proof (cases rule: try_align_cases [of bytes])
  case refused
  then show ?thesis
    using assms survive_subset [of "ps_pages s" "ps_pages s"]
    by (auto simp: War3AllocateStage11Snapshot_def)
next
  case (aligned w)
  let ?cap = "War3Stage11SnapshotAdaptiveHardCapBytes (ae_capVariable env)"
  let ?rq = "makeRequest s ?cap w lt"
  have rq: "rq_requiredBytes ?rq = w" "rq_mapEpoch ?rq = ps_mapEpoch s"
    "rq_deviceEpoch ?rq = ps_deviceEpoch s" by (simp_all add: makeRequest_def)
  obtain pages q where loop: "reuseLoop ?rq lt w (ps_pages s) = (pages, q)" by fastforce
  have pages_ok: "\<forall>p \<in> set (ps_pages s). page_ok p" using assms(2) by (simp add: pool_ok_def)
  note ev = reuseLoop_ok [OF loop pages_ok]
  let ?s1 = "s\<lparr>ps_pages := pages\<rparr>"
  have ok1: "pool_ok (ae_capVariable env) ?s1" using pool_ok_evolves [OF assms(2)] ev by blast
  have sv1: "slices_survive (ps_pages s) pages" using survive_evolves ev by blast
  have w: "align256 (unat w) = align256 (unat bytes)"
    using aligned(3) align256_props(3) [of "unat bytes"] by (simp add: align256_fixed)
  show ?thesis
  proof (cases q)
    case None
    then have "allocatePlanned env ?cap ?rq w ?s1 = (r, out, s')"
      using assms(1) aligned(1) loop by (simp add: War3AllocateStage11Snapshot_def Let_def)
    from allocatePlanned_ok [OF this ok1 refl]
    show ?thesis using rq sv1 survive_trans w by (auto simp: served_def)
  next
    case (Some h)
    obtain pid i off where h: "h = (pid, i, off)" by (rule prod_cases3)
    have res: "r = Some AllocSuccess" "ps_pages s' = pages" "same_pool ?s1 s'"
      "out = \<lparr>out_page = Some pid, out_lease = Some i, out_offset = off, out_capacity = w\<rparr>"
      using assms(1) aligned(1) loop Some h
      by (auto simp: War3AllocateStage11Snapshot_def Let_def same_pool_def)
    obtain p p' where p: "p \<in> set (ps_pages s)" "p' \<in> set pages" "pg_id p = pid"
      "reusePage ?rq lt w p = (p', Some (i, off))"
      using reuseLoop_found loop Some h by blast
    have "served bytes (ps_mapEpoch s) (ps_deviceEpoch s) out pages"
      unfolding served_def using reusePage_served [OF p(4)] p(2,3) rq aligned(3)
      by (intro bexI [of _ p']) (auto simp: res(4))
    then show ?thesis using same_pool_ok [OF res(3)] ok1 sv1 res(1,2) by simp
  qed
qed

subsection \<open>Live slices do not overlap\<close>

text \<open>
  The invariant a tail append relies on: the live slices of a page are disjoint and
  all of them end at or before its cursor.
\<close>

definition page_disjoint :: "War3Stage11SnapshotPage \<Rightarrow> bool" where
  "page_disjoint p \<longleftrightarrow>
     live_disjoint (page_live p) \<and> (\<forall>iv \<in> ran (page_live p). snd iv \<le> unat (pg_used p))"

lemma page_disjoint_empty: "page_live p = Map.empty \<Longrightarrow> page_disjoint p"
  by (simp add: page_disjoint_def live_disjoint_def)

lemma reusePage_disjoint:
  assumes "reusePage request lt n p = (p', r)" and "page_disjoint p"
  shows "live_disjoint (page_live p')"
    and "(\<And>i off. r = Some (i, off) \<Longrightarrow> unat off + unat n \<le> unat (pg_used p)) \<Longrightarrow> page_disjoint p'"
proof -
  have "live_disjoint (page_live p') \<and>
    ((\<forall>i off. r = Some (i, off) \<longrightarrow> unat off + unat n \<le> unat (pg_used p)) \<longrightarrow> page_disjoint p')"
    using assms(1)
  proof (cases rule: reusePage_cases)
    case (no t)
    then show ?thesis using assms(2) by (simp add: page_disjoint_def)
  next
    case (hole i off t1 t)
    have "live_disjoint (live_iv t)"
      using assms(2) by (intro slices.claim_hole_disjoint [OF _ hole(3,4)]) (simp add: page_disjoint_def)
    moreover have "\<forall>iv \<in> ran (live_iv t). snd iv \<le> unat (pg_used p)"
      if "unat off + unat n \<le> unat (pg_used p)"
      unfolding reuse_hole_live(2) [OF hole(3,4)] using assms(2) that
      by (intro ran_upd_all) (simp_all add: page_disjoint_def)
    ultimately show ?thesis using hole(1,2) by (simp add: page_disjoint_def)
  qed
  then show "live_disjoint (page_live p')"
    and "(\<And>i off. r = Some (i, off) \<Longrightarrow> unat off + unat n \<le> unat (pg_used p)) \<Longrightarrow> page_disjoint p'"
    by blast+
qed

lemma placeOnPage_disjoint:
  assumes "placeOnPage plan p = (p', lease)" and "plan_fits n plan p" and "page_disjoint p"
  shows "page_disjoint p' \<and>
    unat (pl_offset plan) + unat (pl_sliceBytes plan) \<le> unat (pg_used p')"
  using assms(1)
proof (cases rule: placeOnPage_cases)
  case sealed
  then show ?thesis using assms(2,3) by (fastforce simp: plan_fits_def page_disjoint_def)
next
  case (claimed i t)
  have below: "\<forall>iv \<in> ran (page_live p). snd iv \<le> unat (pl_offset plan)"
    using assms(2,3) by (simp add: plan_fits_def page_disjoint_def)
  have "live_disjoint (live_iv t)"
    using assms(3) by (intro slices.claim_tail_disjoint [OF _ below claimed(3)]) (simp add: page_disjoint_def)
  moreover have "\<forall>iv \<in> ran (live_iv t). snd iv \<le> unat (pl_nextUsed plan)"
    unfolding claim_live_iv(2) [OF claimed(3)] using below assms(2)
    by (intro ran_upd_all) (auto simp: plan_fits_def)
  ultimately show ?thesis
    using assms(2) claimed(2) by (simp add: page_disjoint_def plan_fits_def)
qed

lemma reuseLoop_none_disjoint:
  "reuseLoop request lt n ps = (ps', None) \<Longrightarrow> \<forall>p \<in> set ps. page_disjoint p \<Longrightarrow>
    \<forall>p \<in> set ps'. page_disjoint p"
proof (induction ps arbitrary: ps')
  case (Cons p ps)
  obtain p' qs where q: "reusePage request lt n p = (p', None)"
    "reuseLoop request lt n ps = (qs, None)" "ps' = p' # qs"
    using Cons.prems(1) by (auto split: prod.splits option.splits)
  have "page_disjoint p'" using reusePage_disjoint(2) [OF q(1)] Cons.prems(2) by simp
  then show ?case using Cons.IH [OF q(2)] Cons.prems(2) q(3) by simp
qed simp

lemma reuseLoop_some_disjoint:
  "reuseLoop request lt n ps = (ps', Some (pid, i, off)) \<Longrightarrow> \<forall>p \<in> set ps. page_disjoint p \<Longrightarrow>
    \<forall>p' \<in> set ps'. page_disjoint p' \<or>
      (pg_id p' = pid \<and> live_disjoint (page_live p') \<and>
       (unat off + unat n \<le> unat (pg_used p') \<longrightarrow> page_disjoint p'))"
proof (induction ps arbitrary: ps')
  case (Cons p ps)
  obtain p' q where q: "reusePage request lt n p = (p', q)" by fastforce
  have p: "page_disjoint p" using Cons.prems(2) by simp
  show ?case
  proof (cases q)
    case None
    then obtain qs where rec: "reuseLoop request lt n ps = (qs, Some (pid, i, off))" "ps' = p' # qs"
      using Cons.prems(1) q by (auto split: prod.splits)
    have "page_disjoint p'" using reusePage_disjoint(2) [OF q p] None by simp
    then show ?thesis using Cons.IH [OF rec(1)] Cons.prems(2) rec(2) by auto
  next
    case (Some h)
    then have r: "h = (i, off)" "pid = pg_id p" "ps' = p' # ps"
      using Cons.prems(1) q by (auto split: prod.splits)
    have keep: "pg_id p' = pg_id p" "pg_used p' = pg_used p"
      using q by (auto elim!: reusePage_cases)
    have "pg_id p' = pid \<and> live_disjoint (page_live p') \<and>
        (unat off + unat n \<le> unat (pg_used p') \<longrightarrow> page_disjoint p')"
      using reusePage_disjoint [OF q p] Some r(1,2) keep by auto
    then show ?thesis using Cons.prems(2) r(3) by auto
  qed
qed simp

lemma placeLoop_disjoint:
  "placeLoop plan ps = (ps', r) \<Longrightarrow> \<forall>p \<in> set ps. page_disjoint p \<Longrightarrow>
    \<forall>p \<in> set ps. pg_id p = pl_pageId plan \<longrightarrow> plan_fits n plan p \<Longrightarrow>
    \<forall>p \<in> set ps'. page_disjoint p"
proof (induction ps arbitrary: ps' r)
  case (Cons p ps)
  show ?case
  proof (cases "pg_id p = pl_pageId plan")
    case True
    obtain p' lease where q: "placeOnPage plan p = (p', lease)" by fastforce
    then have "ps' = p' # ps" using Cons.prems(1) True by simp
    then show ?thesis using placeOnPage_disjoint [OF q, of n] Cons.prems(2,3) True by simp
  next
    case False
    obtain qs where rec: "placeLoop plan ps = (qs, r)" "ps' = p # qs"
      using Cons.prems(1) False by (auto split: prod.splits)
    show ?thesis using Cons.IH [OF rec(1)] Cons.prems(2,3) rec(2) by simp
  qed
qed simp

lemma publishPage_pages:
  assumes "publishPage env cap request n s = (s', r)" and "p \<in> set (ps_pages s')"
  shows "p \<in> set (ps_pages s) \<or> page_live p = Map.empty"
proof -
  obtain res pages nid resident where pub: "War3PublishStage11SnapshotPage (\<lambda>i p. p\<lparr>pg_id := i\<rparr>)
      (made_page (ae_makePage env) (newPage (ae_slots env) request n)) (ae_pushThrows env)
      (ps_pages s) (ps_nextPageId s) (ps_residentBytes s) n cap = (res, pages, nid, resident)"
    by (rule prod_cases4)
  have s': "ps_pages s' = (if res = None then ps_pages s else pages)"
    using assms(1) pub by (cases res) (auto simp: publishPage_def Let_def split: if_splits)
  show ?thesis
  proof (cases "res = Some PubSuccess")
    case False
    then show ?thesis using publish_no_change [OF pub] s' assms(2) by (auto split: if_splits)
  next
    case True
    obtain page where pg: "made_page (ae_makePage env) (newPage (ae_slots env) request n) = Made page"
      "pages = ps_pages s @ [page\<lparr>pg_id := ps_nextPageId s\<rparr>]"
      using pub [unfolded True] by (rule publish_success)
    have "page_live (page\<lparr>pg_id := ps_nextPageId s\<rparr>) = Map.empty"
      using pg(1)
      by (auto simp: made_page_def newPage_def live_iv_def empty_table_def free_slice_def
          split: page_factory.splits)
    then show ?thesis using assms(2) s' True pg(2) by auto
  qed
qed

lemma createStep_pages:
  assumes "createStep env cap request s plan = (s', plan', c)" and "p \<in> set (ps_pages s')"
  shows "p \<in> set (ps_pages s) \<or> page_live p = Map.empty"
proof (cases "createsPage plan")
  case False
  then show ?thesis using assms by (auto simp: createStep_def)
next
  case True
  obtain s1 b where b: "createBacking env cap (pl_pageBytes plan) s = (s1, b)" by fastforce
  have p1: "ps_pages s1 = ps_pages s" using createBacking_same [OF b] by (simp add: same_pool_def)
  show ?thesis
  proof (cases b)
    case None
    then show ?thesis using assms True b p1 by (auto simp: createStep_def Let_def)
  next
    case (Some hasBuffer)
    obtain s2 d where d: "(if hasBuffer then publishPage env cap request (pl_pageBytes plan) s1
        else (s1, Some False)) = (s2, d)" by fastforce
    have "ps_pages s' = ps_pages s2"
      using assms(1) True b Some d by (auto simp: createStep_def Let_def split: option.splits if_splits)
    then show ?thesis
      using d assms(2) p1 publishPage_pages [of env cap request "pl_pageBytes plan" s1 s2 d p]
      by (auto split: if_splits)
  qed
qed

lemma placeSlice_disjoint:
  assumes "placeSlice plan w s = (r, out, s')" and "planned_by request s plan" and "pool_ok v s"
    and "\<forall>p \<in> set (ps_pages s). page_disjoint p"
  shows "\<forall>p \<in> set (ps_pages s'). page_disjoint p"
proof (cases "usesExistingPage plan")
  case False
  then obtain r' where "noPageResult s (pl_reason plan) = (r', s')"
    using assms(1) by (auto simp: placeSlice_def split: prod.splits)
  then show ?thesis using noPageResult_same assms(4) by (auto simp: same_pool_def)
next
  case True
  obtain pages placed where pl: "placeLoop plan (ps_pages s) = (pages, placed)" by fastforce
  obtain rq where rq: "plan = choosePage s rq" "rq_requiredBytes rq = rq_requiredBytes request"
    using assms(2) by (auto simp: planned_by_def)
  have d: "distinct (map pg_id (ps_pages s))" using assms(3) by (simp add: pool_ok_def)
  have fits: "\<forall>p \<in> set (ps_pages s). pg_id p = pl_pageId plan \<longrightarrow>
      plan_fits (rq_requiredBytes rq) plan p"
    using choosePage_existing(2) [OF True [unfolded rq(1)] d] rq(1) by simp
  have "ps_pages s' = pages"
    using assms(1) True pl by (auto simp: placeSlice_def Let_def split: option.splits)
  then show ?thesis using placeLoop_disjoint [OF pl assms(4) fits] by simp
qed

lemma allocatePlanned_disjoint:
  assumes "allocatePlanned env cap request w s = (r, out, s')" and "pool_ok v s"
    and "cap = War3Stage11SnapshotAdaptiveHardCapBytes v"
    and "\<forall>p \<in> set (ps_pages s). page_disjoint p"
  shows "\<forall>p \<in> set (ps_pages s'). page_disjoint p"
proof -
  define s1 where "s1 = (if usesExistingPage (choosePage s request) then s
      else War3CollectUnusedStage11SnapshotPages s)"
  have ok1: "pool_ok v s1" and d1: "\<forall>p \<in> set (ps_pages s1). page_disjoint p"
    using assms(2,4) collect_ok [OF assms(2)] by (auto simp: s1_def)
  obtain rq s2 plan where adm: "admitGrowth env cap request s1 (choosePage s1 request) = (rq, s2, plan)"
    by (rule prod_cases3)
  note a = admitGrowth_same [OF adm]
  have ok2: "pool_ok v s2" using ok1 same_pool_ok [OF a(1)] by simp
  have d2: "\<forall>p \<in> set (ps_pages s2). page_disjoint p" using a(1) d1 by (simp add: same_pool_def)
  obtain s3 plan3 c where cr: "createStep env cap rq s2 plan = (s3, plan3, c)" by (rule prod_cases3)
  note c = createStep_ok [OF cr a(5) [OF refl] ok2 assms(3)]
  have d3: "\<forall>p \<in> set (ps_pages s3). page_disjoint p"
    using createStep_pages [OF cr] d2 page_disjoint_empty by blast
  have run: "allocatePlanned env cap request w s =
      (case c of Threw \<Rightarrow> (None, no_out, s3) | Stop r \<Rightarrow> (Some r, no_out, s3)
       | Continue b \<Rightarrow> placeSlice plan3 w s3)"
    by (simp add: allocatePlanned_def s1_def [symmetric] adm cr Let_def)
  show ?thesis
  proof (cases c)
    case (Continue b)
    then have "placeSlice plan3 w s3 = (r, out, s')" using assms(1) run by simp
    from placeSlice_disjoint [OF this, of rq v] show ?thesis using c Continue d3 by simp
  qed (use assms(1) run d3 in auto)
qed

text \<open>The slice of a successful allocation ends at or before the cursor of its page.\<close>

definition within_cursor :: "AllocOut \<Rightarrow> War3Stage11SnapshotPage list \<Rightarrow> bool" where
  "within_cursor out pages \<longleftrightarrow>
     (\<forall>p \<in> set pages. out_page out = Some (pg_id p) \<longrightarrow>
        unat (out_offset out) + unat (out_capacity out) \<le> unat (pg_used p))"

lemma allocate_disjoint:
  assumes "War3AllocateStage11Snapshot env bytes lt s = (r, out, s')"
    and "pool_ok (ae_capVariable env) s" and "\<forall>p \<in> set (ps_pages s). page_disjoint p"
  shows "\<forall>p \<in> set (ps_pages s'). live_disjoint (page_live p)"
    and "within_cursor out (ps_pages s') \<Longrightarrow> \<forall>p \<in> set (ps_pages s'). page_disjoint p"
proof -
  have "(\<forall>p \<in> set (ps_pages s'). live_disjoint (page_live p)) \<and>
    (within_cursor out (ps_pages s') \<longrightarrow> (\<forall>p \<in> set (ps_pages s'). page_disjoint p))"
  proof (cases rule: try_align_cases [of bytes])
    case refused
    then show ?thesis
      using assms by (auto simp: War3AllocateStage11Snapshot_def page_disjoint_def)
  next
    case (aligned w)
    let ?cap = "War3Stage11SnapshotAdaptiveHardCapBytes (ae_capVariable env)"
    let ?rq = "makeRequest s ?cap w lt"
    obtain pages q where loop: "reuseLoop ?rq lt w (ps_pages s) = (pages, q)" by fastforce
    have "\<forall>p \<in> set (ps_pages s). page_ok p" using assms(2) by (simp add: pool_ok_def)
    note ev = reuseLoop_ok [OF loop this]
    have ok1: "pool_ok (ae_capVariable env) (s\<lparr>ps_pages := pages\<rparr>)"
      using pool_ok_evolves [OF assms(2)] ev by blast
    show ?thesis
    proof (cases q)
      case None
      then have a: "allocatePlanned env ?cap ?rq w (s\<lparr>ps_pages := pages\<rparr>) = (r, out, s')"
        using assms(1) aligned(1) loop by (simp add: War3AllocateStage11Snapshot_def Let_def)
      have "\<forall>p \<in> set pages. page_disjoint p"
        using reuseLoop_none_disjoint loop None assms(3) by blast
      then have "\<forall>p \<in> set (ps_pages s'). page_disjoint p"
        using allocatePlanned_disjoint [OF a ok1 refl] by simp
      then show ?thesis by (simp add: page_disjoint_def)
    next
      case (Some h)
      obtain pid i off where h: "h = (pid, i, off)" by (rule prod_cases3)
      have res: "ps_pages s' = pages"
        "out = \<lparr>out_page = Some pid, out_lease = Some i, out_offset = off, out_capacity = w\<rparr>"
        using assms(1) aligned(1) loop Some h by (auto simp: War3AllocateStage11Snapshot_def Let_def)
      have "\<forall>p' \<in> set pages. page_disjoint p' \<or> (pg_id p' = pid \<and> live_disjoint (page_live p') \<and>
          (unat off + unat w \<le> unat (pg_used p') \<longrightarrow> page_disjoint p'))"
        using reuseLoop_some_disjoint loop Some h assms(3) by blast
      then show ?thesis by (auto simp: res within_cursor_def page_disjoint_def)
    qed
  qed
  then show "\<forall>p \<in> set (ps_pages s'). live_disjoint (page_live p)"
    and "within_cursor out (ps_pages s') \<Longrightarrow> \<forall>p \<in> set (ps_pages s'). page_disjoint p" by blast+
qed

subsection \<open>Runs of the pool\<close>

text \<open>
  What happens to the pool between and around allocations: holders take and give back
  references to a slice, drop a page, the owner collects or resets, a frame begins
  (the create budget of the frame restarts), the map or device epoch changes.
\<close>

definition on_page ::
  "u64 \<Rightarrow> (War3Stage11SnapshotPage \<Rightarrow> War3Stage11SnapshotPage) \<Rightarrow> PoolState \<Rightarrow> PoolState" where
  "on_page pid f s = s\<lparr>ps_pages := map (\<lambda>p. if pg_id p = pid then f p else p) (ps_pages s)\<rparr>"

definition retainSlice :: "u64 \<Rightarrow> nat \<Rightarrow> PoolState \<Rightarrow> PoolState" where
  "retainSlice pid i = on_page pid (\<lambda>p. p\<lparr>pg_slices := incRef (pg_slices p) i\<rparr>)"

definition releaseSlice :: "u64 \<Rightarrow> nat \<Rightarrow> PoolState \<Rightarrow> PoolState" where
  "releaseSlice pid i = on_page pid (\<lambda>p. p\<lparr>pg_slices := decRef (pg_slices p) i\<rparr>)"

definition dropPage :: "u64 \<Rightarrow> PoolState \<Rightarrow> PoolState" where
  "dropPage pid = on_page pid (\<lambda>p. p\<lparr>pg_holders := pg_holders p - 1\<rparr>)"

datatype pool_op =
    Allocate AllocEnv u64 War3Stage11PageLifetime AllocOut
  | RetainSlice u64 nat
  | ReleaseSlice u64 nat
  | DropPage u64
  | Collect
  | ResetPool
  | BeginFrame u64
  | ChangeEpoch u64 u64

inductive pool_step :: "string option \<Rightarrow> PoolState \<Rightarrow> pool_op \<Rightarrow> PoolState \<Rightarrow> bool"
  for v :: "string option" where
  do_allocate: "War3AllocateStage11Snapshot env bytes lt s = (r, out, s') \<Longrightarrow> ae_capVariable env = v \<Longrightarrow>
    pool_step v s (Allocate env bytes lt out) s'"
| do_retain: "pool_step v s (RetainSlice pid i) (retainSlice pid i s)"
| do_release: "pool_step v s (ReleaseSlice pid i) (releaseSlice pid i s)"
| do_drop: "pool_step v s (DropPage pid) (dropPage pid s)"
| do_collect: "pool_step v s Collect (War3CollectUnusedStage11SnapshotPages s)"
| do_reset: "pool_step v s ResetPool (War3ResetStage11SnapshotPages v s)"
| do_frame: "pool_step v s (BeginFrame f) (s\<lparr>ps_frameSerial := f, ps_allocBudgetThisFrame := 0\<rparr>)"
| do_epoch: "pool_step v s (ChangeEpoch m d) (s\<lparr>ps_mapEpoch := m, ps_deviceEpoch := d\<rparr>)"

inductive_cases pool_step_cases: "pool_step v s op s'"

inductive pool_run :: "string option \<Rightarrow> PoolState \<Rightarrow> pool_op list \<Rightarrow> PoolState \<Rightarrow> bool"
  for v :: "string option" where
  pool_done: "pool_run v s [] s"
| pool_more: "pool_step v s op s' \<Longrightarrow> pool_run v s' ops s'' \<Longrightarrow> pool_run v s (op # ops) s''"

lemma pool_init_ok: "pool_ok v pool_init"
  by (simp add: pool_ok_def pool_init_def)

lemma live_incRef: "live_iv (incRef t i) = live_iv t"
  by (auto simp: incRef_def set_slot_def Let_def live_iv_def fun_eq_iff nth_update_if slice_iv_def)

lemma on_page_ok:
  assumes "pool_ok v s"
    and "\<And>p. pg_id (f p) = pg_id p \<and> pg_capacity (f p) = pg_capacity p \<and> pg_used (f p) = pg_used p \<and>
      page_live (f p) \<subseteq>\<^sub>m page_live p"
  shows "pool_ok v (on_page pid f s)"
    and "\<forall>p \<in> set (ps_pages s). page_disjoint p \<Longrightarrow>
      \<forall>p \<in> set (ps_pages (on_page pid f s)). page_disjoint p"
proof -
  define g where "g = (\<lambda>p. if pg_id p = pid then f p else p)"
  have on: "on_page pid f s = s\<lparr>ps_pages := map g (ps_pages s)\<rparr>"
    by (simp add: on_page_def g_def)
  have g: "pg_id (g p) = pg_id p" "pg_capacity (g p) = pg_capacity p" "pg_used (g p) = pg_used p"
    "page_live (g p) \<subseteq>\<^sub>m page_live p" for p
    using assms(2) [of p] by (simp_all add: g_def)
  have sub: "ran (page_live (g p)) \<subseteq> ran (page_live p)" for p
    using map_le_ran [OF g(4)] .
  have "page_ok (g p)" if "page_ok p" for p
    using that sub [of p] g [of p] unfolding page_ok_def by auto
  then show "pool_ok v (on_page pid f s)"
    using assms(1) unfolding pool_ok_def on by (simp add: g comp_def)
  have "page_disjoint (g p)" if "page_disjoint p" for p
    using that sub [of p] g(3) [of p] live_disjoint_mono [OF g(4)] unfolding page_disjoint_def by auto
  then show "\<forall>p \<in> set (ps_pages s). page_disjoint p \<Longrightarrow>
      \<forall>p \<in> set (ps_pages (on_page pid f s)). page_disjoint p"
    by (simp add: on)
qed

lemma pool_step_ok: "pool_step v s op s' \<Longrightarrow> pool_ok v s \<Longrightarrow> pool_ok v s'"
proof (induction rule: pool_step.induct)
  case (do_allocate env bytes lt s r out s')
  then show ?case using allocate_ok by blast
next
  case (do_collect s)
  then show ?case by (rule collect_ok)
next
  case (do_reset s)
  then show ?case by (simp add: pool_ok_def War3ResetStage11SnapshotPages_def)
next
  case (do_retain s pid i)
  then show ?case unfolding retainSlice_def by (rule on_page_ok) (simp add: live_incRef)
next
  case (do_release s pid i)
  then show ?case unfolding releaseSlice_def by (rule on_page_ok) (simp add: live_decRef)
next
  case (do_drop s pid)
  then show ?case unfolding dropPage_def by (rule on_page_ok) simp
next
  case (do_frame s f)
  then show ?case by (simp add: pool_ok_def)
next
  case (do_epoch s m d)
  then show ?case by (simp add: pool_ok_def)
qed

lemma pool_run_ok: "pool_run v s ops s' \<Longrightarrow> pool_ok v s \<Longrightarrow> pool_ok v s'"
  by (induction rule: pool_run.induct) (auto intro: pool_step_ok)

lemma pool_step_disjoint:
  assumes "pool_step v s op s'" and "pool_ok v s" and "\<forall>p \<in> set (ps_pages s). page_disjoint p"
    and "\<And>env b lt out. op = Allocate env b lt out \<Longrightarrow> within_cursor out (ps_pages s')"
  shows "\<forall>p \<in> set (ps_pages s'). page_disjoint p"
  using assms
proof (induction rule: pool_step.induct)
  case (do_allocate env bytes lt s r out s')
  then show ?case using allocate_disjoint(2) by blast
next
  case (do_retain s pid i)
  then show ?case unfolding retainSlice_def by (intro on_page_ok(2)) (auto simp: live_incRef)
next
  case (do_release s pid i)
  then show ?case unfolding releaseSlice_def by (intro on_page_ok(2)) (auto simp: live_decRef)
next
  case (do_drop s pid)
  then show ?case unfolding dropPage_def by (intro on_page_ok(2)) auto
next
  case (do_collect s)
  then show ?case by (simp add: collect_ok(2))
qed (simp_all add: War3ResetStage11SnapshotPages_def)

text \<open>A run in which every slice handed out ends within the cursor of its page.\<close>

inductive tail_run :: "string option \<Rightarrow> PoolState \<Rightarrow> pool_op list \<Rightarrow> PoolState \<Rightarrow> bool"
  for v :: "string option" where
  tail_done: "tail_run v s [] s"
| tail_more: "pool_step v s op s' \<Longrightarrow>
    (\<And>env b lt out. op = Allocate env b lt out \<Longrightarrow> within_cursor out (ps_pages s')) \<Longrightarrow>
    tail_run v s' ops s'' \<Longrightarrow> tail_run v s (op # ops) s''"

lemma tail_run_disjoint:
  "tail_run v s ops s' \<Longrightarrow> pool_ok v s \<Longrightarrow> \<forall>p \<in> set (ps_pages s). page_disjoint p \<Longrightarrow>
    pool_ok v s' \<and> (\<forall>p \<in> set (ps_pages s'). page_disjoint p)"
proof (induction rule: tail_run.induct)
  case (tail_more s op s' ops s'')
  then show ?case using pool_step_ok pool_step_disjoint [OF tail_more.hyps(1)] by blast
qed simp

subsection \<open>Properties of the pool\<close>

text \<open>
  C1. Whatever allocations, failures, releases, collections, resets, frames and epoch
  changes happen, the pages of the pool have distinct non-zero ids, the resident bytes
  are exactly the sum of their capacities and stay within the configured cap, every
  cursor is aligned and inside its page, and so is every live slice.
\<close>

theorem pool_accounting:
  assumes "pool_run v pool_init ops s"
  shows "distinct (map pg_id (ps_pages s)) \<and>
    unat (ps_residentBytes s) = (\<Sum>p \<leftarrow> ps_pages s. unat (pg_capacity p)) \<and>
    ps_residentBytes s \<le> War3Stage11SnapshotAdaptiveHardCapBytes v \<and>
    (\<forall>p \<in> set (ps_pages s). pg_id p \<noteq> 0 \<and> pg_used p \<le> pg_capacity p \<and>
       256 dvd unat (pg_used p) \<and>
       (\<forall>iv \<in> ran (page_live p). snd iv \<le> unat (pg_capacity p)))"
  using pool_run_ok [OF assms pool_init_ok]
  by (simp add: pool_ok_def page_ok_def word_le_nat_alt)


text \<open>
  No allocation, whatever its outcome, takes a live slice away: it is still live
  afterwards, in a page of the same id, under the same slot, with the same range.
\<close>

theorem allocation_keeps_live_slices:
  assumes "pool_run v pool_init ops s" and "ae_capVariable env = v"
    and "War3AllocateStage11Snapshot env bytes lt s = (r, out, s')"
    and "p \<in> set (ps_pages s)" and "page_live p i = Some iv"
  shows "\<exists>p' \<in> set (ps_pages s'). pg_id p' = pg_id p \<and> page_live p' i = Some iv"
proof -
  have "slices_survive (ps_pages s) (ps_pages s')"
    using allocate_ok [OF assms(3)] pool_run_ok [OF assms(1) pool_init_ok] assms(2) by simp
  then show ?thesis using assms(4,5) unfolding slices_survive_def by blast
qed

text \<open>
  C3. As long as every slice handed out ends within the cursor of its page, the live
  slices of every page are pairwise disjoint, also right after one more allocation of
  any kind.
\<close>

theorem live_slices_disjoint:
  assumes "tail_run v pool_init ops s" and "ae_capVariable env = v"
    and "War3AllocateStage11Snapshot env bytes lt s = (r, out, s')"
    and "p \<in> set (ps_pages s')" and "i \<noteq> j"
    and "page_live p i = Some a" and "page_live p j = Some b"
  shows "{fst a..<snd a} \<inter> {fst b..<snd b} = {}"
proof -
  have ok: "pool_ok v s \<and> (\<forall>p \<in> set (ps_pages s). page_disjoint p)"
    using tail_run_disjoint [OF assms(1) pool_init_ok] by (simp add: pool_init_def)
  then have "live_disjoint (page_live p)"
    using allocate_disjoint(1) [OF assms(3)] assms(2,4) by simp
  then have "disjoint_iv a b" using assms(5-7) unfolding live_disjoint_def by blast
  then show ?thesis by (rule disjoint_iv_no_common_byte)
qed

subsection \<open>Concrete runs\<close>

text \<open>Executing operations; an allocation has to give the recorded result.\<close>

definition exec_op :: "string option \<Rightarrow> PoolState \<Rightarrow> pool_op \<Rightarrow> PoolState option" where
  "exec_op v s op =
    (case op of
       Allocate env bytes lt out \<Rightarrow>
         (let (r, out', s') = War3AllocateStage11Snapshot env bytes lt s
          in if r = Some AllocSuccess \<and> out' = out \<and> ae_capVariable env = v then Some s' else None)
     | RetainSlice pid i \<Rightarrow> Some (retainSlice pid i s)
     | ReleaseSlice pid i \<Rightarrow> Some (releaseSlice pid i s)
     | DropPage pid \<Rightarrow> Some (dropPage pid s)
     | Collect \<Rightarrow> Some (War3CollectUnusedStage11SnapshotPages s)
     | ResetPool \<Rightarrow> Some (War3ResetStage11SnapshotPages v s)
     | BeginFrame f \<Rightarrow> Some (s\<lparr>ps_frameSerial := f, ps_allocBudgetThisFrame := 0\<rparr>)
     | ChangeEpoch m d \<Rightarrow> Some (s\<lparr>ps_mapEpoch := m, ps_deviceEpoch := d\<rparr>))"

fun exec_pool :: "string option \<Rightarrow> PoolState \<Rightarrow> pool_op list \<Rightarrow> PoolState option" where
  "exec_pool v s [] = Some s"
| "exec_pool v s (op # ops) =
    (case exec_op v s op of None \<Rightarrow> None | Some s' \<Rightarrow> exec_pool v s' ops)"

lemma exec_op_step: "exec_op v s op = Some s' \<Longrightarrow> pool_step v s op s'"
  by (cases op)
    (auto simp: exec_op_def Let_def split: prod.splits if_splits intro: pool_step.intros)

lemma exec_pool_run: "exec_pool v s ops = Some s' \<Longrightarrow> pool_run v s ops s'"
  by (induction ops arbitrary: s)
    (auto split: option.splits intro: pool_done pool_more exec_op_step)

definition example_sample :: MemorySample where
  "example_sample =
    \<lparr>ms_availVirtual = Some (push_bit 30 1), ms_device = True, ms_extMemoryBudget = False,
     ms_heaps = []\<rparr>"

definition example_env :: AllocEnv where
  "example_env =
    \<lparr>ae_capVariable = None, ae_before = example_sample, ae_create = Created 0,
     ae_after = example_sample, ae_makePage = Made (), ae_pushThrows = False, ae_slots = 4\<rparr>"

definition MiB :: "u64 \<Rightarrow> u64" where
  "MiB n = push_bit 20 n"

definition example_slice_out :: "nat \<Rightarrow> u64 \<Rightarrow> u64 \<Rightarrow> AllocOut" where
  "example_slice_out i off n =
    \<lparr>out_page = Some 1, out_lease = Some i, out_offset = off, out_capacity = n\<rparr>"

text \<open>The states of the run, each a page of four slots in an otherwise constant pool.\<close>

definition example_slot :: "u32 \<Rightarrow> u64 \<Rightarrow> u64 \<Rightarrow> u64 SnapshotSlice" where
  "example_slot refs off n =
    \<lparr>sl_refs = refs, sl_available = (refs = 0), sl_owner = (if refs = 0 then None else Some 1),
     sl_offset = off, sl_size = n\<rparr>"

definition example_state ::
  "u64 SnapshotSlice list \<Rightarrow> nat \<Rightarrow> u64 \<Rightarrow> u64 \<Rightarrow> nat \<Rightarrow> u64 \<Rightarrow> u64 \<Rightarrow> u64 \<Rightarrow> u64 \<Rightarrow> PoolState" where
  "example_state slots hint revision used holders statUsed served_count bytes reused =
    \<lparr>ps_pages =
       [\<lparr>pg_id = 1,
         pg_slices = \<lparr>tb_slots = slots, tb_hint = hint, tb_revision = revision,
                      tb_failedRevision = 0, tb_failedCapacity = 0, tb_failedBytes = 0\<rparr>,
         pg_sliceRecyclingSealed = False, pg_capacity = 16777216, pg_used = used,
         pg_lifetime = ShortLived, pg_mapEpoch = 1, pg_deviceEpoch = 1, pg_holders = holders\<rparr>],
     ps_nextPageId = 2, ps_residentBytes = 16777216, ps_heap = 0, ps_budgetRetry = gate_init,
     ps_reclaimedPages = 0, ps_allocBudgetThisFrame = 1, ps_frameSerial = 0,
     ps_mapEpoch = 1, ps_deviceEpoch = 1,
     ps_stats = \<lparr>st_pageResidentBytes = 16777216, st_pageUsedBytes = statUsed,
       st_pageReclaimedCount = 0, st_pageCreateCount = 1, st_suballocationCount = served_count,
       st_suballocationBytes = bytes, st_pageCapacityRejectCount = 0,
       st_pageAllocationFailureCount = 0\<rparr>,
     ps_adaptiveTarget = 402653184, ps_sliceReusedBytes = reused, ps_budgetGrowthRejects = 0,
     ps_censusEnabled = False, ps_censusRejects = 0\<rparr>"

definition state_a :: PoolState where
  "state_a = example_state [example_slot 1 0 4194304, example_slot 0 0 0, example_slot 0 0 0,
     example_slot 0 0 0] 1 1 4194304 1 4194304 1 4194304 0"

definition state_b :: PoolState where
  "state_b = example_state [example_slot 1 0 4194304, example_slot 1 4194304 6291456,
     example_slot 0 0 0, example_slot 0 0 0] 2 2 10485760 2 10485760 2 10485760 0"

definition state_c :: PoolState where
  "state_c = example_state [example_slot 1 0 4194304, example_slot 0 4194304 6291456,
     example_slot 0 0 0, example_slot 0 0 0] 2 3 10485760 1 10485760 2 10485760 0"

definition state_d :: PoolState where
  "state_d = example_state [example_slot 1 0 4194304, example_slot 0 4194304 6291456,
     example_slot 1 4194304 8388608, example_slot 0 0 0] 3 4 10485760 2 10485760 3 18874368 8388608"

definition state_e :: PoolState where
  "state_e = example_state [example_slot 1 0 4194304, example_slot 0 4194304 6291456,
     example_slot 1 4194304 8388608, example_slot 1 10485760 1048576] 0 5 11534336 3 11534336 4
     19922944 8388608"

definition op_a :: pool_op where
  "op_a = Allocate example_env 4194304 ShortLived (example_slice_out 0 0 4194304)"

definition op_b :: pool_op where
  "op_b = Allocate example_env 6291456 ShortLived (example_slice_out 1 4194304 6291456)"

definition op_d :: pool_op where
  "op_d = Allocate example_env 8388608 ShortLived (example_slice_out 2 4194304 8388608)"

definition op_e :: pool_op where
  "op_e = Allocate example_env 1048576 ShortLived (example_slice_out 3 10485760 1048576)"

definition overlap_ops :: "pool_op list" where
  "overlap_ops = [op_a, op_b, ReleaseSlice 1 1, DropPage 1, op_d, op_e]"

lemma step_a: "exec_op None pool_init op_a = Some state_a"
  by code_simp

lemma step_b: "exec_op None state_a op_b = Some state_b"
  by code_simp

lemma step_c: "exec_pool None state_b [ReleaseSlice 1 1, DropPage 1] = Some state_c"
  by code_simp

lemma step_d: "exec_op None state_c op_d = Some state_d"
  by code_simp

lemma step_e: "exec_op None state_d op_e = Some state_e"
  by code_simp

lemma overlap_exec: "exec_pool None pool_init overlap_ops = Some state_e"
proof -
  have "exec_pool None s (a # b # c # d # ops) =
      (case exec_op None s a of None \<Rightarrow> None | Some s1 \<Rightarrow>
        case exec_op None s1 b of None \<Rightarrow> None | Some s2 \<Rightarrow>
          case exec_pool None s2 [c, d] of None \<Rightarrow> None | Some s3 \<Rightarrow> exec_pool None s3 ops)"
    for s a b c d ops by (simp split: option.splits)
  then show ?thesis
    unfolding overlap_ops_def by (simp only: step_a step_b step_c option.case)
      (simp add: step_d step_e)
qed

text \<open>The availability and the interval of every slot of every page.\<close>

definition slot_view :: "PoolState \<Rightarrow> (bool \<times> u64 \<times> u64) list list" where
  "slot_view s =
    map (\<lambda>p. map (\<lambda>t. (sl_available t, sl_offset t, sl_size t)) (tb_slots (pg_slices p))) (ps_pages s)"

lemma slot_view_live:
  assumes "slot_view s = rows" and "k < length rows" and "i < length (rows ! k)"
    and "rows ! k ! i = (False, off, n)"
  shows "k < length (ps_pages s) \<and>
    page_live (ps_pages s ! k) i = Some (unat off, unat off + unat n)"
  using assms by (auto simp: slot_view_def live_iv_def slice_iv_def)

lemma overlap_view:
  "slot_view state_e =
    [[(False, 0, 4194304), (True, 4194304, 6291456), (False, 4194304, 8388608),
      (False, 10485760, 1048576)]]"
  by (simp add: slot_view_def state_e_def example_state_def example_slot_def)

text \<open>
  C19. The allocator reaches a state with two live slices that share bytes: a reused
  hole may extend past the cursor of its page, the cursor is not raised, and the next
  tail append is placed inside the live hole slice. (4 and 6 MiB are allocated, the
  second is released, 8 MiB reuse the hole at 4 MiB, and 1 MiB is appended at 10 MiB.)
\<close>

theorem hole_past_cursor_is_overwritten:
  "\<exists>s. pool_run None pool_init overlap_ops s \<and>
    (\<exists>p \<in> set (ps_pages s). \<exists>a b. page_live p 2 = Some a \<and> page_live p 3 = Some b \<and>
       {fst a..<snd a} \<inter> {fst b..<snd b} \<noteq> {})"
proof -
  let ?p = "ps_pages state_e ! 0"
  have l2: "0 < length (ps_pages state_e) \<and> page_live ?p 2 = Some (4194304, 12582912)"
    using slot_view_live [OF overlap_view, of 0 2 4194304 8388608] by simp
  have l3: "page_live ?p 3 = Some (10485760, 11534336)"
    using slot_view_live [OF overlap_view, of 0 3 10485760 1048576] by simp
  have "{fst (4194304 :: nat, 12582912 :: nat)..<snd (4194304 :: nat, 12582912 :: nat)} \<inter>
      {fst (10485760 :: nat, 11534336 :: nat)..<snd (10485760 :: nat, 11534336 :: nat)} \<noteq> {}"
    by (rule common_byte_of_overlap) (simp_all add: disjoint_iv_def)
  then show ?thesis
    using exec_pool_run [OF overlap_exec] l2 l3 nth_mem [of 0 "ps_pages state_e"] by blast
qed

subsection \<open>The properties at concrete states\<close>

lemma exec_allocate:
  "exec_op v s (Allocate env bytes lt out) = Some s' \<Longrightarrow>
    War3AllocateStage11Snapshot env bytes lt s = (Some AllocSuccess, out, s') \<and> ae_capVariable env = v"
  by (auto simp: exec_op_def split: prod.splits if_splits)

lemma run_c: "pool_run None pool_init [op_a, op_b, ReleaseSlice 1 1, DropPage 1] state_c"
proof (rule exec_pool_run)
  have "exec_pool None pool_init (op_a # op_b # ops) =
      (case exec_op None pool_init op_a of None \<Rightarrow> None | Some s1 \<Rightarrow>
        case exec_op None s1 op_b of None \<Rightarrow> None | Some s2 \<Rightarrow> exec_pool None s2 ops)"
    for ops by (simp split: option.splits)
  then show "exec_pool None pool_init [op_a, op_b, ReleaseSlice 1 1, DropPage 1] = Some state_c"
    by (simp only: step_a step_b step_c option.case)
qed

lemma run_d: "pool_run None state_c [op_d] state_d"
  using step_d by (intro exec_pool_run) simp

lemma pool_run_append:
  "pool_run v s ops s' \<Longrightarrow> pool_run v s' ops' s'' \<Longrightarrow> pool_run v s (ops @ ops') s''"
  by (induction rule: pool_run.induct) (auto intro: pool_run.intros)

lemma alloc_b: "War3AllocateStage11Snapshot example_env 6291456 ShortLived state_a =
    (Some AllocSuccess, example_slice_out 1 4194304 6291456, state_b) \<and> ae_capVariable example_env = None"
  using step_b exec_allocate unfolding op_b_def by blast


lemma alloc_e: "War3AllocateStage11Snapshot example_env 1048576 ShortLived state_d =
    (Some AllocSuccess, example_slice_out 3 10485760 1048576, state_e) \<and> ae_capVariable example_env = None"
  using step_e exec_allocate unfolding op_e_def by blast

lemma example_state_live:
  "page_live (hd (ps_pages state_b)) 0 = Some (0, 4194304)"
  "page_live (hd (ps_pages state_b)) 1 = Some (4194304, 10485760)"
  "page_live (hd (ps_pages state_d)) 2 = Some (4194304, 12582912)"
  by (simp_all add: state_b_def state_d_def example_state_def example_slot_def live_iv_def slice_iv_def)

lemma pool_accounting_witness:
  "ps_residentBytes state_e \<le> War3Stage11SnapshotAdaptiveHardCapBytes None"
  using pool_accounting [OF exec_pool_run [OF overlap_exec]] by blast


lemma allocation_keeps_live_slices_witness:
  "\<exists>p \<in> set (ps_pages state_e). page_live p 2 = Some (4194304, 12582912)"
proof -
  have mem: "hd (ps_pages state_d) \<in> set (ps_pages state_d)"
    by (simp add: state_d_def example_state_def)
  show ?thesis
    using allocation_keeps_live_slices [OF pool_run_append [OF run_c run_d] conjunct2 [OF alloc_e]
        conjunct1 [OF alloc_e] mem example_state_live(3)] by blast
qed

lemma live_slices_disjoint_witness:
  "{0 :: nat..<4194304} \<inter> {4194304..<10485760} = {}"
proof -
  have step: "pool_step None pool_init op_a state_a" by (rule exec_op_step [OF step_a])
  have "within_cursor (example_slice_out 0 0 4194304) (ps_pages state_a)"
    by (simp add: within_cursor_def state_a_def example_state_def example_slice_out_def)
  then have run: "tail_run None pool_init [op_a] state_a"
    by (intro tail_more [OF step _ tail_done]) (simp add: op_a_def)
  have mem: "hd (ps_pages state_b) \<in> set (ps_pages state_b)"
    by (simp add: state_b_def example_state_def)
  show ?thesis
    using live_slices_disjoint [OF run conjunct2 [OF alloc_b] conjunct1 [OF alloc_b] mem _
        example_state_live(1,2)] by simp
qed

end
