(* ===== verification/ShadowArena.thy ===== *)
theory ShadowArena
  imports Allocators AdaptiveBudget SnapshotPages
begin

section \<open>The shadow arena: state and operations\<close>

text \<open>
  \<open>src/src/d3d9/war3/memory/war3_shadow_arena.cpp\<close> and \<open>.h\<close>: the frame-level linear
  allocator of GPU shadow data. A generation owns pages and a cursor; a frame takes a
  generation whose retire serial the GPU has completed, hands out slices behind the
  cursor and is sealed with its own serial. This theory holds the state (the \<open>g_\<close>
  globals) and every operation; \<open>ArenaInvariant\<close> proves what they keep.

  The driver is an oracle \<open>nat \<Rightarrow> PageEnv\<close>: the n-th page preflight reads entry n, which
  holds the memory samples of that preflight and the outcome of \<open>createBuffer\<close>. A buffer
  is identified by the number of the preflight that created it, so two live buffers
  never have the same identity.
\<close>

subsection \<open>Constants, pages and generations\<close>

definition kCaptureArenaPageSize :: u32 where
  "kCaptureArenaPageSize = 64 * 1024 * 1024"

definition kDefaultArenaPageSize :: u32 where
  "kDefaultArenaPageSize = 64 * 1024 * 1024"

definition kCaptureArenaMaxFrameSize :: u32 where
  "kCaptureArenaMaxFrameSize = 384 * 1024 * 1024"

definition kDefaultArenaFrameCount :: u32 where
  "kDefaultArenaFrameCount = 3"

definition kCaptureArenaFrameCount :: u32 where
  "kCaptureArenaFrameCount = 3"

definition kArenaBudgetRefreshIntervalFrames :: u64 where
  "kArenaBudgetRefreshIntervalFrames = 30"

abbreviation kInvalidGenerationIndex :: u32 where
  "kInvalidGenerationIndex \<equiv> UINT32_MAX"

definition kShadowArenaBundleMaxParts :: nat where
  "kShadowArenaBundleMaxParts = 4"

record ShadowArenaPage =
  ap_storage :: nat
  ap_capacity :: u32

record ShadowArenaFrameState =
  af_pages :: "ShadowArenaPage list"
  af_currentPage :: u32
  af_currentOffset :: u32
  af_committedBytes :: u32
  af_pageTailWasteBytes :: u32
  af_totalCapacity :: u32
  af_retireSerial :: u64
  af_generation :: u64
  af_frameSerial :: u64
  af_trimHistory :: ArenaTrimHistory

definition frame_init :: ShadowArenaFrameState where
  "frame_init =
    \<lparr>af_pages = [], af_currentPage = 0, af_currentOffset = 0, af_committedBytes = 0,
     af_pageTailWasteBytes = 0, af_totalCapacity = 0, af_retireSerial = 0, af_generation = 0,
     af_frameSerial = 0, af_trimHistory = trim_init\<rparr>"

subsection \<open>Allocations and bundle transactions\<close>

text \<open>
  \<open>al_info\<close> is the slice \<open>getSliceInfo(offset, size)\<close> of the storage: the buffer it
  belongs to, the offset in it and the size; None is the null buffer.
\<close>

record ShadowArenaAllocation =
  al_offset :: u32
  al_size :: u32
  al_storage :: "nat option"
  al_info :: "(nat \<times> u32 \<times> u32) option"

definition no_allocation :: ShadowArenaAllocation where
  "no_allocation = \<lparr>al_offset = 0, al_size = 0, al_storage = None, al_info = None\<rparr>"

definition al_valid :: "ShadowArenaAllocation \<Rightarrow> bool" where
  "al_valid a \<longleftrightarrow> al_storage a \<noteq> None \<and> al_info a \<noteq> None \<and> al_size a \<noteq> 0"

datatype ShadowArenaAllocationTag = TagUnknown | TagPosition | TagBlend | TagUv | TagIndex

datatype ShadowArenaSourceClass = ClassTerrain | ClassModel | ClassSkinned | ClassUp

record ShadowArenaBundleRequest =
  br_size :: u32
  br_alignment :: u32
  br_tag :: ShadowArenaAllocationTag

record ShadowArenaBundleTransaction =
  tx_allocations :: "ShadowArenaAllocation list"
  tx_tags :: "ShadowArenaAllocationTag list"
  tx_allocationCount :: u32
  tx_generationIndex :: u32
  tx_startPage :: u32
  tx_startOffset :: u32
  tx_startCommittedBytes :: u32
  tx_startPageTailWasteBytes :: u32
  tx_endPage :: u32
  tx_endOffset :: u32
  tx_endCommittedBytes :: u32
  tx_endPageTailWasteBytes :: u32
  tx_generation :: u64
  tx_requestedBytes :: u64
  tx_active :: bool

definition tx_init :: ShadowArenaBundleTransaction where
  "tx_init =
    \<lparr>tx_allocations = replicate kShadowArenaBundleMaxParts no_allocation,
     tx_tags = replicate kShadowArenaBundleMaxParts TagUnknown,
     tx_allocationCount = 0, tx_generationIndex = 0,
     tx_startPage = 0, tx_startOffset = 0, tx_startCommittedBytes = 0,
     tx_startPageTailWasteBytes = 0,
     tx_endPage = 0, tx_endOffset = 0, tx_endCommittedBytes = 0, tx_endPageTailWasteBytes = 0,
     tx_generation = 0, tx_requestedBytes = 0, tx_active = False\<rparr>"

subsection \<open>The global state\<close>

text \<open>
  The globals in four groups: the published budget, the counters of the allocator, the
  statistics other components note (which the allocator itself never reads), and the
  allocator's own state. Atomics are read and written by their owner only.
\<close>

record ArenaBudget =
  ab_residentLimitBytes :: u64
  ab_fixedResidentLimitBytes :: u64
  ab_heapSizeBytes :: u64
  ab_heapBudgetBytes :: u64
  ab_heapAllocatedBytes :: u64
  ab_availableBytes :: u64
  ab_proportionalLimitBytes :: u64
  ab_reserveLimitBytes :: u64
  ab_refreshCount :: u64
  ab_growthRejectCount :: u64
  ab_snapshotFrameSerial :: u64
  ab_primaryHeapIndex :: u32
  ab_supported :: u32
  ab_trusted :: u32

record ArenaCounters =
  ac_generationCounter :: u64
  ac_lastSubmittedSerial :: u64
  ac_lastCompletedSerial :: u64
  ac_busyReuseRejectCount :: u64
  ac_totalOverflowCount :: u64
  ac_reservedBytes :: u64
  ac_committedBundleBytes :: u64
  ac_rolledBackBytes :: u64
  ac_admissionRejectedCount :: u64
  ac_partialTransactionCount :: u64
  ac_quarantineCount :: u64
  ac_lastQuarantinedGeneration :: u64
  ac_lastQuarantinedRetireSerial :: u64
  ac_currentUsedBytes :: u64
  ac_lastSubmittedUsedBytes :: u64
  ac_activeGenerationCount :: u32
  ac_frameIncomplete :: u32
  ac_frameOverflowCount :: u32
  ac_lastOverflowCapacityBytes :: u32

record ArenaNotes =
  nt_positionBytes :: u64
  nt_blendBytes :: u64
  nt_uvBytes :: u64
  nt_indexBytes :: u64
  nt_terrainBytes :: u64
  nt_modelBytes :: u64
  nt_skinnedBytes :: u64
  nt_upBytes :: u64
  nt_uniqueSourceBytes :: u64
  nt_duplicateBytesSaved :: u64
  nt_exactIndexTrimAcceptedCount :: u64
  nt_exactIndexTrimRejectedCount :: u64
  nt_exactIndexTrimBytesSaved :: u64
  nt_coherentUpTrimObservedCount :: u64
  nt_coherentUpTrimEligibleCount :: u64
  nt_coherentUpTrimWouldSaveBytes :: u64
  nt_coherentUpTrimConsumedCount :: u64
  nt_coherentUpTrimConsumedBytesSaved :: u64
  nt_coherentRealTrimObservedCount :: u64
  nt_coherentRealTrimEligibleCount :: u64
  nt_coherentRealTrimWouldSaveBytes :: u64
  nt_coherentRealTrimConsumedCount :: u64
  nt_coherentRealTrimConsumedBytesSaved :: u64
  nt_currentUpPositionReplayObservedCount :: u64
  nt_currentUpPositionReplayEligibleCount :: u64
  nt_currentUpPositionReplayWouldAvoidBytes :: u64
  nt_currentUpPositionReplayConsumedCount :: u64
  nt_currentUpPositionReplayAvoidedBytes :: u64

record ArenaState =
  ar_frameStates :: "ShadowArenaFrameState list"
  ar_ownerDevice :: "nat option"
  ar_allocationHeapIndex :: u32
  ar_budgetRetry :: BudgetGrowthRetryGate
  ar_allocationFrameSerial :: u64
  ar_currentFrameIndex :: u32
  ar_arenaPageSize :: u32
  ar_arenaMaxFrameSize :: u32
  ar_arenaFrameCount :: u32
  ar_residentBytes :: u64
  ar_budget :: ArenaBudget
  ar_counters :: ArenaCounters
  ar_notes :: ArenaNotes
  ar_attempts :: nat

definition budget_init :: ArenaBudget where
  "budget_init =
    \<lparr>ab_residentLimitBytes = kShadowArenaFixedResidentLimitBytes,
     ab_fixedResidentLimitBytes = kShadowArenaFixedResidentLimitBytes,
     ab_heapSizeBytes = 0, ab_heapBudgetBytes = 0, ab_heapAllocatedBytes = 0,
     ab_availableBytes = 0, ab_proportionalLimitBytes = 0, ab_reserveLimitBytes = 0,
     ab_refreshCount = 0, ab_growthRejectCount = 0, ab_snapshotFrameSerial = 0,
     ab_primaryHeapIndex = kInvalidGenerationIndex, ab_supported = 0, ab_trusted = 0\<rparr>"

definition counters_init :: ArenaCounters where
  "counters_init =
    \<lparr>ac_generationCounter = 0, ac_lastSubmittedSerial = 0, ac_lastCompletedSerial = 0,
     ac_busyReuseRejectCount = 0, ac_totalOverflowCount = 0, ac_reservedBytes = 0,
     ac_committedBundleBytes = 0, ac_rolledBackBytes = 0, ac_admissionRejectedCount = 0,
     ac_partialTransactionCount = 0, ac_quarantineCount = 0, ac_lastQuarantinedGeneration = 0,
     ac_lastQuarantinedRetireSerial = 0, ac_currentUsedBytes = 0, ac_lastSubmittedUsedBytes = 0,
     ac_activeGenerationCount = 0, ac_frameIncomplete = 0, ac_frameOverflowCount = 0,
     ac_lastOverflowCapacityBytes = 0\<rparr>"

definition notes_init :: ArenaNotes where
  "notes_init =
    \<lparr>nt_positionBytes = 0, nt_blendBytes = 0, nt_uvBytes = 0, nt_indexBytes = 0,
     nt_terrainBytes = 0, nt_modelBytes = 0, nt_skinnedBytes = 0, nt_upBytes = 0,
     nt_uniqueSourceBytes = 0, nt_duplicateBytesSaved = 0,
     nt_exactIndexTrimAcceptedCount = 0, nt_exactIndexTrimRejectedCount = 0,
     nt_exactIndexTrimBytesSaved = 0,
     nt_coherentUpTrimObservedCount = 0, nt_coherentUpTrimEligibleCount = 0,
     nt_coherentUpTrimWouldSaveBytes = 0, nt_coherentUpTrimConsumedCount = 0,
     nt_coherentUpTrimConsumedBytesSaved = 0,
     nt_coherentRealTrimObservedCount = 0, nt_coherentRealTrimEligibleCount = 0,
     nt_coherentRealTrimWouldSaveBytes = 0, nt_coherentRealTrimConsumedCount = 0,
     nt_coherentRealTrimConsumedBytesSaved = 0,
     nt_currentUpPositionReplayObservedCount = 0, nt_currentUpPositionReplayEligibleCount = 0,
     nt_currentUpPositionReplayWouldAvoidBytes = 0, nt_currentUpPositionReplayConsumedCount = 0,
     nt_currentUpPositionReplayAvoidedBytes = 0\<rparr>"

definition arena_init :: ArenaState where
  "arena_init =
    \<lparr>ar_frameStates = [], ar_ownerDevice = None,
     ar_allocationHeapIndex = kInvalidGenerationIndex, ar_budgetRetry = gate_init,
     ar_allocationFrameSerial = 0, ar_currentFrameIndex = kInvalidGenerationIndex,
     ar_arenaPageSize = kDefaultArenaPageSize, ar_arenaMaxFrameSize = kDefaultArenaPageSize,
     ar_arenaFrameCount = kDefaultArenaFrameCount, ar_residentBytes = 0,
     ar_budget = budget_init, ar_counters = counters_init, ar_notes = notes_init,
     ar_attempts = 0\<rparr>"

abbreviation counted :: "(ArenaCounters \<Rightarrow> ArenaCounters) \<Rightarrow> ArenaState \<Rightarrow> ArenaState" where
  "counted \<equiv> ar_counters_update"

abbreviation bump :: "((u64 \<Rightarrow> u64) \<Rightarrow> 'r \<Rightarrow> 'r) \<Rightarrow> 'r \<Rightarrow> 'r" where
  "bump field \<equiv> field (\<lambda>n. n + 1)"

subsection \<open>Configuration from the environment\<close>

text \<open>
  \<open>std::strtoul\<close> with base 10: the value of the 32-bit \<open>unsigned long\<close> (out of range
  gives the maximum, a minus sign negates modulo \<open>2 ^ 32\<close>) and the unread rest, which is
  the whole argument when no digit was read.
\<close>

definition unsigned_digits :: "string \<Rightarrow> u32" where
  "unsigned_digits s =
    (if digits_value s > 4294967295 then UINT32_MAX else word_of_int (digits_value s))"

definition strtoul :: "string \<Rightarrow> u32 \<times> string" where
  "strtoul s =
    (let t = dropWhile is_space s;
         negative = (t \<noteq> [] \<and> hd t = CHR ''-'');
         u = (if t \<noteq> [] \<and> (hd t = CHR ''-'' \<or> hd t = CHR ''+'') then tl t else t)
     in if u = [] \<or> \<not> is_digit (hd u) then (0, s)
        else (if negative \<and> digits_value u \<le> 4294967295 then - unsigned_digits u
              else unsigned_digits u, dropWhile is_digit u))"

text \<open>An environment variable that is not set reads as the empty string (\<open>env::getEnvVar\<close>).\<close>

definition ParseArenaMegabytesEnv :: "string \<Rightarrow> u32" where
  "ParseArenaMegabytesEnv overrideMb =
    (if overrideMb \<noteq> [] then
       let (parsed, rest) = strtoul overrideMb
       in if rest \<noteq> overrideMb \<and> rest = [] \<and> parsed > 0 then
            let bytes = (ucast parsed :: u64) * 1024 * 1024
            in if bytes \<le> ucast UINT32_MAX then ucast bytes else 0
          else 0
     else 0)"

record ArenaConfig =
  cf_maxMb :: string
  cf_mb :: string
  cf_frames :: string
  cf_capture :: string

definition ResolveArenaPageSize :: u32 where
  "ResolveArenaPageSize = kCaptureArenaPageSize"

definition ResolveArenaMaxFrameSize :: "ArenaConfig \<Rightarrow> u32 \<Rightarrow> u32" where
  "ResolveArenaMaxFrameSize cf pageSize =
    (let maxBytes = ParseArenaMegabytesEnv (cf_maxMb cf);
         legacyBytes = ParseArenaMegabytesEnv (cf_mb cf)
     in if maxBytes \<noteq> 0 then min (max maxBytes pageSize) kCaptureArenaMaxFrameSize
        else if legacyBytes \<noteq> 0 then min (max legacyBytes pageSize) kCaptureArenaMaxFrameSize
        else max kCaptureArenaMaxFrameSize pageSize)"

definition ResolveArenaFrameCount :: "ArenaConfig \<Rightarrow> u32" where
  "ResolveArenaFrameCount cf =
    (let (parsed, rest) = strtoul (cf_frames cf);
         fallback = (if cf_capture cf \<noteq> ''0'' then kCaptureArenaFrameCount
                     else kDefaultArenaFrameCount)
     in if cf_frames cf \<noteq> [] \<and> rest \<noteq> cf_frames cf \<and> rest = [] \<and> parsed \<ge> 1 then parsed
        else fallback)"

subsection \<open>The budget\<close>

definition PublishArenaMemoryBudget ::
  "ShadowArenaMemoryBudgetPolicy \<Rightarrow> u32 \<Rightarrow> u64 \<Rightarrow> ArenaState \<Rightarrow> ArenaState" where
  "PublishArenaMemoryBudget policy primaryHeapIndex frameSerial s =
    s\<lparr>ar_budget := (ar_budget s)
       \<lparr>ab_fixedResidentLimitBytes := pol_fixedResidentLimitBytes policy,
        ab_residentLimitBytes := pol_effectiveResidentLimitBytes policy,
        ab_heapSizeBytes := pol_heapSizeBytes policy,
        ab_heapBudgetBytes := pol_heapBudgetBytes policy,
        ab_heapAllocatedBytes := pol_heapAllocatedBytes policy,
        ab_availableBytes := pol_availableBytes policy,
        ab_proportionalLimitBytes := pol_proportionalLimitBytes policy,
        ab_reserveLimitBytes := pol_reserveLimitBytes policy,
        ab_primaryHeapIndex := primaryHeapIndex,
        ab_supported := (if pol_supported policy then 1 else 0),
        ab_trusted := (if pol_trusted policy then 1 else 0),
        ab_snapshotFrameSerial := frameSerial,
        ab_refreshCount := ab_refreshCount (ar_budget s) + 1\<rparr>\<rparr>"

definition sampleArena :: "MemorySample \<Rightarrow> u32 \<Rightarrow> u64 \<Rightarrow> ArenaState \<Rightarrow> AdaptiveBudgetInput" where
  "sampleArena sample heap resident s =
    SampleShadowMemoryBudget (sample\<lparr>ms_device := ar_ownerDevice s \<noteq> None\<rparr>) heap resident
      kShadowArenaFixedResidentLimitBytes kShadowArenaFixedResidentLimitBytes
      (ucast (ar_arenaPageSize s)) 3"

definition RefreshArenaMemoryBudget :: "MemorySample \<Rightarrow> u64 \<Rightarrow> ArenaState \<Rightarrow> ArenaState" where
  "RefreshArenaMemoryBudget sample frameSerial s =
    (let primaryHeapIndex = ar_allocationHeapIndex s;
         input = sampleArena sample primaryHeapIndex (ar_residentBytes s) s;
         policy = ResolveShadowArenaMemoryBudget input
     in PublishArenaMemoryBudget policy primaryHeapIndex frameSerial s)"

definition rejectGrowth :: "ArenaState \<Rightarrow> ArenaState" where
  "rejectGrowth s =
    s\<lparr>ar_budget := (ar_budget s)\<lparr>ab_growthRejectCount := ab_growthRejectCount (ar_budget s) + 1\<rparr>\<rparr>"

definition CanGrowArenaBy :: "u64 \<Rightarrow> ArenaState \<Rightarrow> bool \<times> ArenaState" where
  "CanGrowArenaBy growthBytes s =
    (let residentLimitBytes = ab_residentLimitBytes (ar_budget s)
     in if ShadowArenaCanGrowResident (ar_residentBytes s) growthBytes residentLimitBytes
        then (True, s)
        else if ab_trusted (ar_budget s) \<noteq> 0 \<and>
                residentLimitBytes < kShadowArenaFixedResidentLimitBytes
             then (False, rejectGrowth s) else (False, s))"

subsection \<open>Growing by a page\<close>

text \<open>
  \<open>BufferRefused\<close> is a \<open>DxvkBufferAllocationError\<close> on a device that is alive,
  \<open>BufferLost\<close> one on a device that is not, which is thrown on; \<open>BufferEmpty\<close> is a null
  buffer or a buffer without storage; a created buffer reports its memory heap.
\<close>

datatype BufferOutcome = BufferCreated u32 | BufferEmpty | BufferRefused | BufferLost

record PageEnv =
  pe_before :: MemorySample
  pe_create :: BufferOutcome
  pe_discovered :: MemorySample
  pe_after :: MemorySample

text \<open>
  What a caller can observe besides a result: the exception of a lost device, an index
  outside a vector (undefined in C++), and fuel that ran out. The last two are proved
  unreachable.
\<close>

datatype arena_fault = DeviceLost | PageOutOfRange | OutOfFuel

definition refuseRetry :: "u32 \<Rightarrow> ArenaState \<Rightarrow> ArenaState" where
  "refuseRetry pageCapacity s =
    s\<lparr>ar_budgetRetry :=
       gate_refuse (ar_budgetRetry s) (ar_allocationFrameSerial s) (ucast pageCapacity)\<rparr>"

definition publishArenaPage ::
  "PageEnv \<Rightarrow> nat \<Rightarrow> u32 \<Rightarrow> u32 \<Rightarrow> ShadowArenaFrameState \<Rightarrow> ArenaState \<Rightarrow>
    (arena_fault + bool) \<times> ShadowArenaFrameState \<times> ArenaState" where
  "publishArenaPage e storage pageHeapIndex pageCapacity fs s =
    (let residentBefore = ar_residentBytes s;
         after = DecideAdaptiveMemoryBudget
                   (sampleArena (pe_after e) pageHeapIndex (residentBefore + ucast pageCapacity) s)
     in if bd_vaPressure after \<or> residentBefore + ucast pageCapacity > bd_target after
        then (Inr False, fs, rejectGrowth (refuseRetry pageCapacity s))
        else
          (Inr True,
           fs\<lparr>af_pages := af_pages fs @ [\<lparr>ap_storage = storage, ap_capacity = pageCapacity\<rparr>],
              af_totalCapacity := af_totalCapacity fs + pageCapacity\<rparr>,
           s\<lparr>ar_residentBytes := ar_residentBytes s + ucast pageCapacity\<rparr>))"

definition createArenaPage ::
  "PageEnv \<Rightarrow> nat \<Rightarrow> u32 \<Rightarrow> ShadowArenaFrameState \<Rightarrow> ArenaState \<Rightarrow>
    (arena_fault + bool) \<times> ShadowArenaFrameState \<times> ArenaState" where
  "createArenaPage e storage pageCapacity fs s =
    (let allocationHeapKnown = ar_allocationHeapIndex s \<noteq> kInvalidGenerationIndex
     in if ar_ownerDevice s = None then (Inr False, fs, s)
        else case pe_create e of
          BufferLost \<Rightarrow> (Inl DeviceLost, fs, s)
        | BufferRefused \<Rightarrow> (Inr False, fs, refuseRetry pageCapacity s)
        | BufferEmpty \<Rightarrow> (Inr False, fs, s)
        | BufferCreated pageHeapIndex \<Rightarrow>
            if pageHeapIndex = kInvalidGenerationIndex then (Inr False, fs, s)
            else if \<not> allocationHeapKnown then
              publishArenaPage e storage pageHeapIndex pageCapacity fs
                (RefreshArenaMemoryBudget (pe_discovered e) 0
                  (s\<lparr>ar_allocationHeapIndex := pageHeapIndex\<rparr>))
            else if pageHeapIndex \<noteq> ar_allocationHeapIndex s then (Inr False, fs, s)
            else publishArenaPage e storage pageHeapIndex pageCapacity fs s)"

definition AllocateArenaPage ::
  "(nat \<Rightarrow> PageEnv) \<Rightarrow> ShadowArenaFrameState \<Rightarrow> u32 \<Rightarrow> ArenaState \<Rightarrow>
    (arena_fault + bool) \<times> ShadowArenaFrameState \<times> ArenaState" where
  "AllocateArenaPage env fs minCapacityBytes s =
    (let remainingCapacity = ar_arenaMaxFrameSize s - af_totalCapacity fs;
         pageCapacity = min (ar_arenaPageSize s) remainingCapacity
     in if af_totalCapacity fs \<ge> ar_arenaMaxFrameSize s then (Inr False, fs, s)
        else if minCapacityBytes > ar_arenaPageSize s then (Inr False, fs, s)
        else if minCapacityBytes > remainingCapacity then (Inr False, fs, s)
        else if gate_refused (ar_budgetRetry s) (ar_allocationFrameSerial s) (ucast pageCapacity)
        then (Inr False, fs, s)
        else
          let storage = ar_attempts s;
              e = env storage;
              s = s\<lparr>ar_attempts := storage + 1\<rparr>;
              s = RefreshArenaMemoryBudget (pe_before e) (ab_snapshotFrameSerial (ar_budget s)) s;
              (permits, s) = CanGrowArenaBy (ucast pageCapacity) s
          in if \<not> permits then (Inr False, fs, refuseRetry pageCapacity s)
             else createArenaPage e storage pageCapacity fs s)"

subsection \<open>Slices of the current generation\<close>

definition IsValidAlignment :: "u32 \<Rightarrow> bool" where
  "IsValidAlignment alignment \<longleftrightarrow> alignment \<noteq> 0 \<and> alignment AND (alignment - 1) = 0"

definition frameUsed :: "ShadowArenaFrameState \<Rightarrow> u64" where
  "frameUsed fs = ucast (af_committedBytes fs) + ucast (af_currentOffset fs)"

definition UpdateCurrentUsedBytes :: "ShadowArenaFrameState \<Rightarrow> ArenaState \<Rightarrow> ArenaState" where
  "UpdateCurrentUsedBytes fs = counted (\<lambda>c. c\<lparr>ac_currentUsedBytes := frameUsed fs\<rparr>)"

text \<open>The in-page step: the aligned start and the new cursor, if the page has the room.\<close>

definition placeInPage :: "u32 \<Rightarrow> u32 \<Rightarrow> u32 \<Rightarrow> u32 \<Rightarrow> (u32 \<times> u32) option" where
  "placeInPage currentOffset capacity bytes alignment =
    (let alignedStart64 =
           ((ucast currentOffset :: u64) + ucast alignment - 1) AND NOT (ucast alignment - 1);
         newOffset64 = alignedStart64 + ucast bytes
     in if alignedStart64 \<le> ucast UINT32_MAX \<and> newOffset64 \<le> ucast capacity
        then Some (ucast alignedStart64, ucast newOffset64) else None)"

definition leavePage :: "ShadowArenaPage \<Rightarrow> ShadowArenaFrameState \<Rightarrow> ShadowArenaFrameState" where
  "leavePage page fs =
    fs\<lparr>af_pageTailWasteBytes :=
         (if af_currentOffset fs < ap_capacity page
          then af_pageTailWasteBytes fs + (ap_capacity page - af_currentOffset fs)
          else af_pageTailWasteBytes fs),
       af_committedBytes := af_committedBytes fs + ap_capacity page,
       af_currentPage := af_currentPage fs + 1,
       af_currentOffset := 0\<rparr>"

definition sliceOf :: "ShadowArenaPage \<Rightarrow> u32 \<Rightarrow> u32 \<Rightarrow> ShadowArenaAllocation" where
  "sliceOf page offset bytes =
    \<lparr>al_offset = offset, al_size = bytes, al_storage = Some (ap_storage page),
     al_info = Some (ap_storage page, offset, bytes)\<rparr>"

text \<open>The two growth tests at the head of the loop: no page at all, or the cursor behind the last.\<close>

definition ensurePage ::
  "(nat \<Rightarrow> PageEnv) \<Rightarrow> u32 \<Rightarrow> ShadowArenaFrameState \<Rightarrow> ArenaState \<Rightarrow>
    (arena_fault + bool) \<times> ShadowArenaFrameState \<times> ArenaState" where
  "ensurePage env bytes fs s =
    (let (r, fs, s) = (if af_pages fs = [] then AllocateArenaPage env fs bytes s
                       else (Inr True, fs, s))
     in if r \<noteq> Inr True then (r, fs, s)
        else if unat (af_currentPage fs) \<ge> length (af_pages fs)
        then AllocateArenaPage env fs bytes s
        else (Inr True, fs, s))"

fun allocateLoop ::
  "nat \<Rightarrow> (nat \<Rightarrow> PageEnv) \<Rightarrow> u32 \<Rightarrow> u32 \<Rightarrow> ShadowArenaFrameState \<Rightarrow> ArenaState \<Rightarrow>
    (arena_fault + ShadowArenaAllocation option) \<times> ShadowArenaFrameState \<times> ArenaState" where
  "allocateLoop 0 env bytes alignment fs s = (Inl OutOfFuel, fs, s)"
| "allocateLoop (Suc fuel) env bytes alignment fs s =
    (case ensurePage env bytes fs s of
       (Inl fault, fs, s) \<Rightarrow> (Inl fault, fs, s)
     | (Inr False, fs, s) \<Rightarrow> (Inr None, fs, s)
     | (Inr True, fs, s) \<Rightarrow>
         if unat (af_currentPage fs) \<ge> length (af_pages fs) then (Inl PageOutOfRange, fs, s)
         else
           let page = af_pages fs ! unat (af_currentPage fs)
           in case placeInPage (af_currentOffset fs) (ap_capacity page) bytes alignment of
                Some (alignedStart, newOffset) \<Rightarrow>
                  let fs = fs\<lparr>af_currentOffset := newOffset\<rparr>
                  in (Inr (Some (sliceOf page alignedStart bytes)), fs, UpdateCurrentUsedBytes fs s)
              | None \<Rightarrow> allocateLoop fuel env bytes alignment (leavePage page fs) s)"

text \<open>Each turn of the loop leaves a page; a page it creates has the room.\<close>

definition loopFuel :: "ShadowArenaFrameState \<Rightarrow> nat" where
  "loopFuel fs = length (af_pages fs) + 2"

definition TryAllocateFromCurrentGeneration ::
  "(nat \<Rightarrow> PageEnv) \<Rightarrow> u32 \<Rightarrow> u32 \<Rightarrow> ShadowArenaFrameState \<Rightarrow> ArenaState \<Rightarrow>
    (arena_fault + ShadowArenaAllocation option) \<times> ShadowArenaFrameState \<times> ArenaState" where
  "TryAllocateFromCurrentGeneration env bytes alignment fs s =
    (if bytes = 0 \<or> \<not> IsValidAlignment alignment \<or>
        bytes > ar_arenaPageSize s \<or> bytes > ar_arenaMaxFrameSize s
     then (Inr None, fs, s)
     else allocateLoop (loopFuel fs) env bytes alignment fs s)"

definition NoteArenaAdmissionFailure :: "ShadowArenaFrameState \<Rightarrow> ArenaState \<Rightarrow> ArenaState" where
  "NoteArenaAdmissionFailure fs =
    counted (\<lambda>c. c\<lparr>ac_frameOverflowCount := ac_frameOverflowCount c + 1,
                   ac_totalOverflowCount := ac_totalOverflowCount c + 1,
                   ac_admissionRejectedCount := ac_admissionRejectedCount c + 1,
                   ac_frameIncomplete := 1,
                   ac_lastOverflowCapacityBytes := af_totalCapacity fs\<rparr>)"

subsection \<open>Life of the arena\<close>

definition ShadowArena_IsInitialized :: "ArenaState \<Rightarrow> bool" where
  "ShadowArena_IsInitialized s \<longleftrightarrow> ar_ownerDevice s \<noteq> None \<and> ar_frameStates s \<noteq> []"

definition ShadowArena_IsOwnedBy :: "nat option \<Rightarrow> ArenaState \<Rightarrow> bool" where
  "ShadowArena_IsOwnedBy device s \<longleftrightarrow>
     device \<noteq> None \<and> ar_ownerDevice s = device \<and> ShadowArena_IsInitialized s"

definition putFrame :: "nat \<Rightarrow> ShadowArenaFrameState \<Rightarrow> ArenaState \<Rightarrow> ArenaState" where
  "putFrame i fs s = s\<lparr>ar_frameStates := (ar_frameStates s)[i := fs]\<rparr>"

text \<open>One warm page for each frame slot in turn; stops at the first that cannot be had.\<close>

fun warmFrames ::
  "(nat \<Rightarrow> PageEnv) \<Rightarrow> nat list \<Rightarrow> ArenaState \<Rightarrow> (arena_fault + bool) \<times> ArenaState" where
  "warmFrames env [] s = (Inr True, s)"
| "warmFrames env (i # slots) s =
    (let (r, fs, s) = AllocateArenaPage env (ar_frameStates s ! i) (ar_arenaPageSize s) s;
         s = putFrame i fs s
     in if r = Inr True then warmFrames env slots s else (r, s))"

definition initCounters :: "ArenaCounters \<Rightarrow> ArenaCounters" where
  "initCounters c = counters_init\<lparr>ac_frameOverflowCount := ac_frameOverflowCount c\<rparr>"

definition ShadowArena_Init ::
  "(nat \<Rightarrow> PageEnv) \<Rightarrow> MemorySample \<Rightarrow> ArenaConfig \<Rightarrow> nat option \<Rightarrow> ArenaState \<Rightarrow>
    (arena_fault + bool) \<times> ArenaState" where
  "ShadowArena_Init env sample cf device s =
    (if device = None then (Inr False, s)
     else if ShadowArena_IsInitialized s then (Inr (ar_ownerDevice s = device), s)
     else if ar_ownerDevice s \<noteq> None \<and> ar_ownerDevice s \<noteq> device then (Inr False, s)
     else
       let s = s\<lparr>ar_ownerDevice := device, ar_budgetRetry := gate_reset (ar_budgetRetry s),
                 ar_allocationFrameSerial := 0,
                 ar_arenaPageSize := ResolveArenaPageSize,
                 ar_arenaMaxFrameSize := ResolveArenaMaxFrameSize cf ResolveArenaPageSize,
                 ar_arenaFrameCount := ResolveArenaFrameCount cf,
                 ar_frameStates := replicate (unat (ResolveArenaFrameCount cf)) frame_init,
                 ar_allocationHeapIndex := kInvalidGenerationIndex,
                 ar_residentBytes := 0,
                 ar_budget := (ar_budget s)\<lparr>ab_refreshCount := 0, ab_growthRejectCount := 0,
                                            ab_snapshotFrameSerial := 0\<rparr>\<rparr>;
           s = RefreshArenaMemoryBudget sample 0 s;
           (r, s) = warmFrames env [0..<unat (ar_arenaFrameCount s)] s
       in case r of
            Inl fault \<Rightarrow> (Inl fault, s)
          | Inr False \<Rightarrow>
              (Inr False, s\<lparr>ar_frameStates := [], ar_residentBytes := 0,
                            ar_allocationHeapIndex := kInvalidGenerationIndex,
                            ar_ownerDevice := None\<rparr>)
          | Inr True \<Rightarrow>
              (Inr True, s\<lparr>ar_currentFrameIndex := kInvalidGenerationIndex,
                           ar_counters := initCounters (ar_counters s),
                           ar_notes := notes_init\<rparr>))"

definition ShadowArena_Shutdown :: "nat option \<Rightarrow> ArenaState \<Rightarrow> ArenaState" where
  "ShadowArena_Shutdown device s =
    (if device = None \<or> ar_ownerDevice s \<noteq> device then s
     else
       s\<lparr>ar_currentFrameIndex := kInvalidGenerationIndex,
         ar_frameStates := [],
         ar_residentBytes := 0,
         ar_counters := (ar_counters s)\<lparr>ac_currentUsedBytes := 0, ac_lastSubmittedUsedBytes := 0,
                                        ac_activeGenerationCount := 0\<rparr>,
         ar_allocationHeapIndex := kInvalidGenerationIndex,
         ar_ownerDevice := None\<rparr>)"

subsection \<open>Frames\<close>

fun firstReusable :: "u64 \<Rightarrow> nat \<Rightarrow> ShadowArenaFrameState list \<Rightarrow> nat option" where
  "firstReusable completedSerial i [] = None"
| "firstReusable completedSerial i (fs # fss) =
    (if ShadowArenaGenerationCanBeReused (af_retireSerial fs) completedSerial then Some i
     else firstReusable completedSerial (i + 1) fss)"

text \<open>The preferred slot of the frame if the GPU has completed it, else the first it has.\<close>

definition selectGeneration :: "u64 \<Rightarrow> u64 \<Rightarrow> ArenaState \<Rightarrow> nat option" where
  "selectGeneration frameSerial completedSerial s =
    (let preferred = unat (ucast (frameSerial mod ucast (ar_arenaFrameCount s)) :: u32)
     in if preferred < length (ar_frameStates s) \<and>
           ShadowArenaGenerationCanBeReused
             (af_retireSerial (ar_frameStates s ! preferred)) completedSerial
        then Some preferred
        else firstReusable completedSerial 0 (ar_frameStates s))"

text \<open>The trim loop: pages leave from the back while what stays is at least \<open>keep\<close>.\<close>

function trimPages :: "u64 \<Rightarrow> ShadowArenaFrameState \<Rightarrow> u64 \<Rightarrow> ShadowArenaFrameState \<times> u64" where
  "trimPages keep fs resident =
    (if af_pages fs \<noteq> [] \<and>
        ucast (af_totalCapacity fs - ap_capacity (last (af_pages fs))) \<ge> keep
     then let bytes = ap_capacity (last (af_pages fs))
          in trimPages keep
               (fs\<lparr>af_pages := butlast (af_pages fs),
                   af_totalCapacity := af_totalCapacity fs - bytes\<rparr>)
               (resident - ucast bytes)
     else (fs, resident))"
  by pat_completeness auto

termination
  by (relation "measure (\<lambda>(_, fs, _). length (af_pages fs))") simp_all

declare trimPages.simps [simp del]

definition activeGenerations :: "u64 \<Rightarrow> ShadowArenaFrameState list \<Rightarrow> nat" where
  "activeGenerations completedSerial fss =
     length (filter (\<lambda>fs. af_retireSerial fs > completedSerial) fss)"

text \<open>Taking a generation for a frame: trimming what retired, then the cursor to zero.\<close>

definition openGeneration :: "u64 \<Rightarrow> u64 \<Rightarrow> nat \<Rightarrow> ArenaState \<Rightarrow> ArenaState" where
  "openGeneration frameSerial completedSerial generationIndex s =
    (let fs = ar_frameStates s ! generationIndex;
         previousUsed = frameUsed fs;
         pressure = ar_residentBytes s > ab_residentLimitBytes (ar_budget s);
         trimRetired = (af_retireSerial fs \<noteq> 0 \<and>
           ShadowArenaGenerationCanBeReused (af_retireSerial fs) completedSerial);
         (keep, history) =
           (if trimRetired
            then ArenaTrimHistory_target (af_trimHistory fs) frameSerial previousUsed
                   (ucast (af_totalCapacity fs)) (ucast (ar_arenaPageSize s)) pressure
            else (ucast (af_totalCapacity fs), af_trimHistory fs));
         (fs, resident) = trimPages keep (fs\<lparr>af_trimHistory := history\<rparr>) (ar_residentBytes s);
         generation = ac_generationCounter (ar_counters s) + 1;
         fs = fs\<lparr>af_currentPage := 0, af_currentOffset := 0, af_committedBytes := 0,
                 af_pageTailWasteBytes := 0, af_frameSerial := frameSerial,
                 af_retireSerial := 0, af_generation := generation\<rparr>;
         s = putFrame generationIndex fs
               (s\<lparr>ar_currentFrameIndex := of_nat generationIndex, ar_residentBytes := resident\<rparr>)
     in counted (\<lambda>c. c\<lparr>ac_generationCounter := generation,
          ac_activeGenerationCount :=
            1 + of_nat (activeGenerations completedSerial
                  (take generationIndex (ar_frameStates s) @
                   drop (Suc generationIndex) (ar_frameStates s)))\<rparr>) s)"

definition startFrame :: "MemorySample \<Rightarrow> u64 \<Rightarrow> u64 \<Rightarrow> ArenaState \<Rightarrow> ArenaState" where
  "startFrame sample frameSerial completedSerial s =
    (let s = s\<lparr>ar_allocationFrameSerial := frameSerial\<rparr>;
         s = counted (\<lambda>c. c\<lparr>ac_frameOverflowCount := 0,
               ac_lastOverflowCapacityBytes :=
                 (if ac_frameOverflowCount c > 0 then 0 else ac_lastOverflowCapacityBytes c),
               ac_lastCompletedSerial := completedSerial,
               ac_frameIncomplete := 0,
               ac_currentUsedBytes := 0\<rparr>) s;
         lastBudgetFrame = ab_snapshotFrameSerial (ar_budget s)
     in if lastBudgetFrame = 0 \<or> frameSerial < lastBudgetFrame \<or>
           frameSerial - lastBudgetFrame \<ge> kArenaBudgetRefreshIntervalFrames
        then RefreshArenaMemoryBudget sample frameSerial s else s)"

definition noGeneration :: "u64 \<Rightarrow> ArenaState \<Rightarrow> ArenaState" where
  "noGeneration completedSerial s =
    counted (\<lambda>c. c\<lparr>ac_busyReuseRejectCount := ac_busyReuseRejectCount c + 1,
                   ac_frameIncomplete := 1,
                   ac_activeGenerationCount :=
                     of_nat (activeGenerations completedSerial (ar_frameStates s))\<rparr>)
      (s\<lparr>ar_currentFrameIndex := kInvalidGenerationIndex\<rparr>)"

definition ShadowArena_BeginFrame ::
  "(nat \<Rightarrow> PageEnv) \<Rightarrow> MemorySample \<Rightarrow> u64 \<Rightarrow> u64 \<Rightarrow> ArenaState \<Rightarrow>
    (arena_fault + bool) \<times> ArenaState" where
  "ShadowArena_BeginFrame env sample frameSerial completedSerial s =
    (if \<not> ShadowArena_IsInitialized s then (Inr False, s)
     else
       let s = startFrame sample frameSerial completedSerial s
       in case selectGeneration frameSerial completedSerial s of
            Some generationIndex \<Rightarrow>
              (Inr True, openGeneration frameSerial completedSerial generationIndex s)
          | None \<Rightarrow>
              (case AllocateArenaPage env frame_init (ar_arenaPageSize s) s of
                 (Inl fault, spill, s) \<Rightarrow> (Inl fault, s)
               | (Inr True, spill, s) \<Rightarrow>
                   (Inr True, openGeneration frameSerial completedSerial (length (ar_frameStates s))
                     (s\<lparr>ar_frameStates := ar_frameStates s @ [spill]\<rparr>))
               | (Inr False, spill, s) \<Rightarrow> (Inr False, noGeneration completedSerial s)))"

text \<open>The generation the frame index names, if it names one.\<close>

definition currentGeneration :: "ArenaState \<Rightarrow> nat option" where
  "currentGeneration s =
    (let i = unat (ar_currentFrameIndex s) in if i \<ge> length (ar_frameStates s) then None else Some i)"

definition ShadowArena_EndFrame :: "u64 \<Rightarrow> ArenaState \<Rightarrow> ArenaState" where
  "ShadowArena_EndFrame frameSerial s =
    (case currentGeneration s of
       None \<Rightarrow> s
     | Some i \<Rightarrow>
         let fs = ar_frameStates s ! i
         in if af_frameSerial fs \<noteq> frameSerial then s
            else counted (\<lambda>c. c\<lparr>ac_lastSubmittedUsedBytes := frameUsed fs,
                                ac_lastSubmittedSerial := frameSerial\<rparr>)
                   (putFrame i (fs\<lparr>af_retireSerial := frameSerial\<rparr>) s))"

definition ShadowArena_QuarantineCurrentGeneration :: "u64 \<Rightarrow> ArenaState \<Rightarrow> bool \<times> ArenaState" where
  "ShadowArena_QuarantineCurrentGeneration retireSerial s =
    (if retireSerial = 0 then (False, s)
     else
       let generation = currentGeneration s;
           s = s\<lparr>ar_currentFrameIndex := kInvalidGenerationIndex\<rparr>
       in case generation of
            None \<Rightarrow> (False, s)
          | Some i \<Rightarrow>
              let fs = ar_frameStates s ! i
              in (True,
                  counted (\<lambda>c. c\<lparr>ac_lastSubmittedSerial := retireSerial,
                                 ac_lastQuarantinedGeneration := af_generation fs,
                                 ac_lastQuarantinedRetireSerial := retireSerial,
                                 ac_quarantineCount := ac_quarantineCount c + 1\<rparr>)
                    (putFrame i (fs\<lparr>af_retireSerial := retireSerial\<rparr>) s)))"

definition ShadowArena_Reset :: "ArenaState \<Rightarrow> ArenaState" where
  "ShadowArena_Reset s =
    (if \<not> ShadowArena_IsInitialized s then s
     else case currentGeneration s of
            None \<Rightarrow> s
          | Some i \<Rightarrow>
              counted (\<lambda>c. c\<lparr>ac_currentUsedBytes := 0\<rparr>)
                (putFrame i ((ar_frameStates s ! i)
                   \<lparr>af_currentPage := 0, af_currentOffset := 0, af_committedBytes := 0,
                    af_pageTailWasteBytes := 0\<rparr>) s))"

subsection \<open>Bundles\<close>

definition beginTransaction ::
  "nat \<Rightarrow> u32 \<Rightarrow> ShadowArenaFrameState \<Rightarrow> ShadowArenaBundleTransaction" where
  "beginTransaction requestCount generationIndex fs =
    tx_init\<lparr>tx_generationIndex := generationIndex,
            tx_generation := af_generation fs,
            tx_startPage := af_currentPage fs,
            tx_startOffset := af_currentOffset fs,
            tx_startCommittedBytes := af_committedBytes fs,
            tx_startPageTailWasteBytes := af_pageTailWasteBytes fs,
            tx_allocationCount := of_nat requestCount,
            tx_active := True\<rparr>"

definition restoreCursor ::
  "ShadowArenaBundleTransaction \<Rightarrow> ShadowArenaFrameState \<Rightarrow> ShadowArenaFrameState" where
  "restoreCursor tx fs =
    fs\<lparr>af_currentPage := tx_startPage tx, af_currentOffset := tx_startOffset tx,
       af_committedBytes := tx_startCommittedBytes tx,
       af_pageTailWasteBytes := tx_startPageTailWasteBytes tx\<rparr>"

definition rollBackBytes :: "u64 \<Rightarrow> ArenaState \<Rightarrow> ArenaState" where
  "rollBackBytes bytes = counted (\<lambda>c. c\<lparr>ac_rolledBackBytes := ac_rolledBackBytes c + bytes\<rparr>)"

fun reserveParts ::
  "(nat \<Rightarrow> PageEnv) \<Rightarrow> nat \<Rightarrow> ShadowArenaBundleRequest list \<Rightarrow> ShadowArenaBundleTransaction \<Rightarrow>
    ShadowArenaFrameState \<Rightarrow> ArenaState \<Rightarrow>
    (arena_fault + bool) \<times> ShadowArenaBundleTransaction \<times> ShadowArenaFrameState \<times> ArenaState" where
  "reserveParts env i [] tx fs s = (Inr True, tx, fs, s)"
| "reserveParts env i (r # rs) tx fs s =
    (let tx = tx\<lparr>tx_tags := (tx_tags tx)[i := br_tag r],
                 tx_requestedBytes := tx_requestedBytes tx + ucast (br_size r)\<rparr>;
         alignment = (if br_alignment r = 0 then 16 else br_alignment r)
     in case TryAllocateFromCurrentGeneration env (br_size r) alignment fs s of
          (Inl fault, fs, s) \<Rightarrow> (Inl fault, tx, fs, s)
        | (Inr None, fs, s) \<Rightarrow>
            let fs = restoreCursor tx fs;
                s = UpdateCurrentUsedBytes fs s;
                s = rollBackBytes (tx_requestedBytes tx) s
            in (Inr False, tx\<lparr>tx_active := False\<rparr>, fs, NoteArenaAdmissionFailure fs s)
        | (Inr (Some a), fs, s) \<Rightarrow>
            reserveParts env (i + 1) rs
              (tx\<lparr>tx_allocations := (tx_allocations tx)[i := a]\<rparr>) fs s)"

definition endTransaction ::
  "ShadowArenaFrameState \<Rightarrow> ShadowArenaBundleTransaction \<Rightarrow> ShadowArenaBundleTransaction" where
  "endTransaction fs tx =
    tx\<lparr>tx_endPage := af_currentPage fs, tx_endOffset := af_currentOffset fs,
       tx_endCommittedBytes := af_committedBytes fs,
       tx_endPageTailWasteBytes := af_pageTailWasteBytes fs\<rparr>"

text \<open>A null request array is None; the list has \<open>requestCount\<close> entries.\<close>

definition ShadowArena_BeginBundle ::
  "(nat \<Rightarrow> PageEnv) \<Rightarrow> ShadowArenaBundleRequest list option \<Rightarrow> ArenaState \<Rightarrow>
    (arena_fault + bool) \<times> ShadowArenaBundleTransaction \<times> ArenaState" where
  "ShadowArena_BeginBundle env requests s =
    (case requests of
       None \<Rightarrow> (Inr False, tx_init, s)
     | Some rs \<Rightarrow>
         if \<not> ShadowArena_IsInitialized s \<or> rs = [] \<or> length rs > kShadowArenaBundleMaxParts
         then (Inr False, tx_init, s)
         else case currentGeneration s of
           None \<Rightarrow>
             (Inr False, tx_init,
              counted (\<lambda>c. c\<lparr>ac_busyReuseRejectCount := ac_busyReuseRejectCount c + 1,
                             ac_admissionRejectedCount := ac_admissionRejectedCount c + 1,
                             ac_frameIncomplete := 1\<rparr>) s)
         | Some i \<Rightarrow>
             let fs = ar_frameStates s ! i
             in case reserveParts env 0 rs
                       (beginTransaction (length rs) (ar_currentFrameIndex s) fs) fs s of
                  (Inr True, tx, fs, s) \<Rightarrow>
                    (Inr True, endTransaction fs tx,
                     counted (\<lambda>c. c\<lparr>ac_reservedBytes := ac_reservedBytes c + tx_requestedBytes tx\<rparr>)
                       (putFrame i fs s))
                | (r, tx, fs, s) \<Rightarrow> (r, tx, putFrame i fs s))"

definition exactOwner :: "ShadowArenaBundleTransaction \<Rightarrow> ArenaState \<Rightarrow> bool" where
  "exactOwner tx s \<longleftrightarrow>
    (let fs = ar_frameStates s ! unat (tx_generationIndex tx)
     in ar_currentFrameIndex s = tx_generationIndex tx \<and>
        af_generation fs = tx_generation tx \<and>
        af_currentPage fs = tx_endPage tx \<and>
        af_currentOffset fs = tx_endOffset tx \<and>
        af_committedBytes fs = tx_endCommittedBytes tx \<and>
        af_pageTailWasteBytes fs = tx_endPageTailWasteBytes tx)"

definition partialTransaction :: "ArenaState \<Rightarrow> ArenaState" where
  "partialTransaction =
    counted (\<lambda>c. c\<lparr>ac_partialTransactionCount := ac_partialTransactionCount c + 1,
                   ac_frameIncomplete := 1\<rparr>)"

definition ShadowArena_CommitBundle ::
  "ShadowArenaBundleTransaction \<Rightarrow> ArenaState \<Rightarrow>
    bool \<times> ShadowArenaBundleTransaction \<times> ArenaState" where
  "ShadowArena_CommitBundle tx s =
    (if \<not> tx_active tx \<or> unat (tx_generationIndex tx) \<ge> length (ar_frameStates s)
     then (False, tx, s)
     else if \<not> exactOwner tx s then (False, tx\<lparr>tx_active := False\<rparr>, partialTransaction s)
     else (True, tx\<lparr>tx_active := False\<rparr>,
           counted (\<lambda>c. c\<lparr>ac_committedBundleBytes :=
                            ac_committedBundleBytes c + tx_requestedBytes tx\<rparr>) s))"

definition ShadowArena_RollbackBundle ::
  "ShadowArenaBundleTransaction \<Rightarrow> ArenaState \<Rightarrow>
    bool \<times> ShadowArenaBundleTransaction \<times> ArenaState" where
  "ShadowArena_RollbackBundle tx s =
    (if \<not> tx_active tx \<or> unat (tx_generationIndex tx) \<ge> length (ar_frameStates s)
     then (False, tx, s)
     else if \<not> exactOwner tx s then (False, tx\<lparr>tx_active := False\<rparr>, partialTransaction s)
     else
       let i = unat (tx_generationIndex tx);
           fs = restoreCursor tx (ar_frameStates s ! i)
       in (True, tx\<lparr>tx_active := False\<rparr>,
           rollBackBytes (tx_requestedBytes tx) (UpdateCurrentUsedBytes fs (putFrame i fs s))))"

definition ShadowArena_Alloc ::
  "(nat \<Rightarrow> PageEnv) \<Rightarrow> u32 \<Rightarrow> u32 \<Rightarrow> ArenaState \<Rightarrow>
    (arena_fault + ShadowArenaAllocation) \<times> ArenaState" where
  "ShadowArena_Alloc env bytes alignment s =
    (let alignment = (if alignment = 0 then 16 else alignment);
         request = \<lparr>br_size = bytes, br_alignment = alignment, br_tag = TagUnknown\<rparr>
     in case ShadowArena_BeginBundle env (Some [request]) s of
          (Inl fault, tx, s) \<Rightarrow> (Inl fault, s)
        | (Inr False, tx, s) \<Rightarrow> (Inr no_allocation, s)
        | (Inr True, tx, s) \<Rightarrow>
            (case ShadowArena_CommitBundle tx s of
               (committed, _, s) \<Rightarrow>
                 (Inr (if committed then tx_allocations tx ! 0 else no_allocation), s)))"

end
