(* ===== verification/ArenaStats.thy ===== *)
theory ArenaStats
  imports ShadowArena
begin

section \<open>The shadow arena: notes and queries\<close>

text \<open>
  The statistics other components report to the arena and what the arena reports about
  itself (\<open>war3_shadow_arena.cpp\<close> lines 824 to 1151, \<open>war3_shadow_arena.h\<close> and
  \<open>war3_shadow_arena_stats.h\<close>). The arena only reads the notes to report them.
\<close>

subsection \<open>Notes\<close>

abbreviation noted :: "(ArenaNotes \<Rightarrow> ArenaNotes) \<Rightarrow> ArenaState \<Rightarrow> ArenaState" where
  "noted \<equiv> ar_notes_update"

abbreviation plus :: "u64 \<Rightarrow> u64 \<Rightarrow> u64" where
  "plus bytes \<equiv> (\<lambda>n. n + bytes)"

fun noteTag :: "ShadowArenaAllocationTag \<Rightarrow> u64 \<Rightarrow> ArenaNotes \<Rightarrow> ArenaNotes" where
  "noteTag TagPosition bytes = nt_positionBytes_update (plus bytes)"
| "noteTag TagBlend bytes = nt_blendBytes_update (plus bytes)"
| "noteTag TagUv bytes = nt_uvBytes_update (plus bytes)"
| "noteTag TagIndex bytes = nt_indexBytes_update (plus bytes)"
| "noteTag TagUnknown bytes = (\<lambda>n. n)"

fun noteClass :: "ShadowArenaSourceClass \<Rightarrow> u64 \<Rightarrow> ArenaNotes \<Rightarrow> ArenaNotes" where
  "noteClass ClassTerrain bytes = nt_terrainBytes_update (plus bytes)"
| "noteClass ClassModel bytes = nt_modelBytes_update (plus bytes)"
| "noteClass ClassSkinned bytes = nt_skinnedBytes_update (plus bytes)"
| "noteClass ClassUp bytes = nt_upBytes_update (plus bytes)"

definition ShadowArena_NoteFreezeCatalogBytes ::
  "ShadowArenaAllocationTag \<Rightarrow> ShadowArenaSourceClass \<Rightarrow> u64 \<Rightarrow> u64 \<Rightarrow> ArenaState \<Rightarrow> ArenaState" where
  "ShadowArena_NoteFreezeCatalogBytes tag sourceClass uniqueBytes duplicateBytesSaved =
    noted (\<lambda>n.
      let observedBytes = uniqueBytes + duplicateBytesSaved;
          n = noteTag tag observedBytes n;
          n = noteClass sourceClass observedBytes n
      in n\<lparr>nt_uniqueSourceBytes := nt_uniqueSourceBytes n + uniqueBytes,
           nt_duplicateBytesSaved := nt_duplicateBytesSaved n + duplicateBytesSaved\<rparr>)"

definition savedBytes :: "u64 \<Rightarrow> u64 \<Rightarrow> u64" where
  "savedBytes bytesBefore bytesAfter =
     (if bytesAfter < bytesBefore then bytesBefore - bytesAfter else 0)"

definition ShadowArena_NoteExactIndexTrim :: "bool \<Rightarrow> u64 \<Rightarrow> u64 \<Rightarrow> ArenaState \<Rightarrow> ArenaState" where
  "ShadowArena_NoteExactIndexTrim accepted bytesBefore bytesAfter =
    noted (\<lambda>n.
      if \<not> accepted then nt_exactIndexTrimRejectedCount_update (plus 1) n
      else
        let n = nt_exactIndexTrimAcceptedCount_update (plus 1) n
        in if bytesAfter < bytesBefore
           then nt_exactIndexTrimBytesSaved_update (plus (bytesBefore - bytesAfter)) n else n)"

definition ShadowArena_NoteCoherentUpIndexTrim ::
  "bool \<Rightarrow> bool \<Rightarrow> u64 \<Rightarrow> u64 \<Rightarrow> ArenaState \<Rightarrow> ArenaState" where
  "ShadowArena_NoteCoherentUpIndexTrim eligible consumed bytesBefore bytesAfter =
    noted (\<lambda>n.
      let n = nt_coherentUpTrimObservedCount_update (plus 1) n
      in if \<not> eligible then n
         else
           let saved = savedBytes bytesBefore bytesAfter;
               n = nt_coherentUpTrimEligibleCount_update (plus 1) n;
               n = nt_coherentUpTrimWouldSaveBytes_update (plus saved) n
           in if \<not> consumed then n
              else nt_coherentUpTrimConsumedBytesSaved_update (plus saved)
                     (nt_coherentUpTrimConsumedCount_update (plus 1) n))"

definition ShadowArena_NoteCoherentRealIndexTrim ::
  "bool \<Rightarrow> bool \<Rightarrow> bool \<Rightarrow> u64 \<Rightarrow> u64 \<Rightarrow> ArenaState \<Rightarrow> ArenaState" where
  "ShadowArena_NoteCoherentRealIndexTrim observed eligible consumed bytesBefore bytesAfter =
    noted (\<lambda>n.
      if \<not> observed then n
      else
        let n = nt_coherentRealTrimObservedCount_update (plus 1) n
        in if \<not> eligible then n
           else
             let saved = savedBytes bytesBefore bytesAfter;
                 n = nt_coherentRealTrimEligibleCount_update (plus 1) n;
                 n = nt_coherentRealTrimWouldSaveBytes_update (plus saved) n
             in if \<not> consumed then n
                else nt_coherentRealTrimConsumedBytesSaved_update (plus saved)
                       (nt_coherentRealTrimConsumedCount_update (plus 1) n))"

definition ShadowArena_NoteCurrentUpPositionReplay ::
  "bool \<Rightarrow> bool \<Rightarrow> bool \<Rightarrow> u64 \<Rightarrow> ArenaState \<Rightarrow> ArenaState" where
  "ShadowArena_NoteCurrentUpPositionReplay observed eligible consumed avoidedBytes =
    noted (\<lambda>n.
      if \<not> observed then n
      else
        let n = nt_currentUpPositionReplayObservedCount_update (plus 1) n
        in if \<not> eligible then n
           else
             let n = nt_currentUpPositionReplayEligibleCount_update (plus 1) n;
                 n = nt_currentUpPositionReplayWouldAvoidBytes_update (plus avoidedBytes) n
             in if \<not> consumed then n
                else nt_currentUpPositionReplayAvoidedBytes_update (plus avoidedBytes)
                       (nt_currentUpPositionReplayConsumedCount_update (plus 1) n))"

subsection \<open>Queries\<close>

definition ShadowArena_UsedBytes :: "ArenaState \<Rightarrow> u32" where
  "ShadowArena_UsedBytes s =
    (if \<not> ShadowArena_IsInitialized s then 0
     else case currentGeneration s of
            None \<Rightarrow> 0
          | Some i \<Rightarrow> let fs = ar_frameStates s ! i
                      in af_committedBytes fs + af_currentOffset fs)"

definition ShadowArena_CapacityBytes :: "ArenaState \<Rightarrow> u32" where
  "ShadowArena_CapacityBytes s =
    (if \<not> ShadowArena_IsInitialized s then 0
     else case currentGeneration s of
            None \<Rightarrow> 0
          | Some i \<Rightarrow> af_totalCapacity (ar_frameStates s ! i))"

definition ShadowArena_RemainingBytes :: "ArenaState \<Rightarrow> u32" where
  "ShadowArena_RemainingBytes s =
    (if \<not> ShadowArena_IsInitialized s then 0
     else case currentGeneration s of
            None \<Rightarrow> 0
          | Some i \<Rightarrow>
              let fs = ar_frameStates s ! i;
                  used = (ucast (ShadowArena_UsedBytes s) :: u64);
                  maxFrame = ucast (ar_arenaMaxFrameSize s);
                  capacity = ucast (af_totalCapacity fs);
                  pageSize = ucast (ar_arenaPageSize s);
                  perGenerationRemaining = (if used < maxFrame then maxFrame - used else 0);
                  existingRemaining = (if capacity > used then capacity - used else 0);
                  residentHeadroom = ShadowArenaGrowthHeadroom (ar_residentBytes s)
                    (ab_residentLimitBytes (ar_budget s));
                  growablePages = (residentHeadroom div pageSize) * pageSize;
                  admitted = min perGenerationRemaining (existingRemaining + growablePages)
              in ucast (min admitted (ucast UINT32_MAX)))"

definition ShadowArena_ResidentBytes :: "ArenaState \<Rightarrow> u64" where
  "ShadowArena_ResidentBytes s = ar_residentBytes s"

record ShadowArenaMemoryStats =
  st_usedBytes :: u64
  st_residentBytes :: u64
  st_residentLimitBytes :: u64
  st_lastSubmittedUsedBytes :: u64
  st_generation :: u64
  st_submittedSerial :: u64
  st_completedSerial :: u64
  st_overflowCount :: u64
  st_admissionRejectedCount :: u64
  st_busyReuseRejectCount :: u64
  st_quarantineCount :: u64
  st_budgetBytes :: u64
  st_allocatedBytes :: u64
  st_availableBytes :: u64
  st_budgetFrameSerial :: u64
  st_activeGenerationCount :: u32
  st_frameIncomplete :: u32
  st_budgetSupported :: u32
  st_budgetTrusted :: u32

definition ShadowArena_QueryMemoryStats :: "ArenaState \<Rightarrow> ShadowArenaMemoryStats" where
  "ShadowArena_QueryMemoryStats s =
    (let c = ar_counters s; b = ar_budget s
     in \<lparr>st_usedBytes = ac_currentUsedBytes c,
         st_residentBytes = ar_residentBytes s,
         st_residentLimitBytes = ab_residentLimitBytes b,
         st_lastSubmittedUsedBytes = ac_lastSubmittedUsedBytes c,
         st_generation = ac_generationCounter c,
         st_submittedSerial = ac_lastSubmittedSerial c,
         st_completedSerial = ac_lastCompletedSerial c,
         st_overflowCount = ac_totalOverflowCount c,
         st_admissionRejectedCount = ac_admissionRejectedCount c,
         st_busyReuseRejectCount = ac_busyReuseRejectCount c,
         st_quarantineCount = ac_quarantineCount c,
         st_budgetBytes = ab_heapBudgetBytes b,
         st_allocatedBytes = ab_heapAllocatedBytes b,
         st_availableBytes = ab_availableBytes b,
         st_budgetFrameSerial = ab_snapshotFrameSerial b,
         st_activeGenerationCount = ac_activeGenerationCount c,
         st_frameIncomplete = ac_frameIncomplete c,
         st_budgetSupported = ab_supported b,
         st_budgetTrusted = ab_trusted b\<rparr>)"

text \<open>
  The 28 note fields of the diagnostics have the names and the order of the notes, so
  the diagnostics extend the record of the notes.
\<close>

record ShadowArenaDiagnostics = ArenaNotes +
  dg_usedBytes :: u64
  dg_residentBytes :: u64
  dg_perGenerationCapacityBytes :: u64
  dg_residentLimitBytes :: u64
  dg_fixedResidentLimitBytes :: u64
  dg_memoryHeapSizeBytes :: u64
  dg_memoryBudgetBytes :: u64
  dg_memoryAllocatedBytes :: u64
  dg_memoryAvailableBytes :: u64
  dg_proportionalLimitBytes :: u64
  dg_reserveLimitBytes :: u64
  dg_budgetRefreshCount :: u64
  dg_budgetGrowthRejectCount :: u64
  dg_budgetSnapshotFrameSerial :: u64
  dg_generation :: u64
  dg_submittedSerial :: u64
  dg_completedSerial :: u64
  dg_busyReuseRejectCount :: u64
  dg_overflowCount :: u64
  dg_reservedBytes :: u64
  dg_committedBundleBytes :: u64
  dg_rolledBackBytes :: u64
  dg_admissionRejectedCount :: u64
  dg_partialTransactionCount :: u64
  dg_pageTailWasteBytes :: u64
  dg_quarantineCount :: u64
  dg_lastQuarantinedGeneration :: u64
  dg_lastQuarantinedRetireSerial :: u64
  dg_primaryHeapIndex :: u32
  dg_memoryBudgetSupported :: u32
  dg_memoryBudgetTrusted :: u32
  dg_activeGenerationCount :: u32
  dg_frameIncomplete :: u32

definition ShadowArena_QueryDiagnostics :: "ArenaState \<Rightarrow> ShadowArenaDiagnostics" where
  "ShadowArena_QueryDiagnostics s =
    (let c = ar_counters s; b = ar_budget s
     in ArenaNotes.extend (ar_notes s)
       \<lparr>dg_usedBytes = ac_currentUsedBytes c,
        dg_residentBytes = ar_residentBytes s,
        dg_perGenerationCapacityBytes = ucast (ar_arenaMaxFrameSize s),
        dg_residentLimitBytes = ab_residentLimitBytes b,
        dg_fixedResidentLimitBytes = ab_fixedResidentLimitBytes b,
        dg_memoryHeapSizeBytes = ab_heapSizeBytes b,
        dg_memoryBudgetBytes = ab_heapBudgetBytes b,
        dg_memoryAllocatedBytes = ab_heapAllocatedBytes b,
        dg_memoryAvailableBytes = ab_availableBytes b,
        dg_proportionalLimitBytes = ab_proportionalLimitBytes b,
        dg_reserveLimitBytes = ab_reserveLimitBytes b,
        dg_budgetRefreshCount = ab_refreshCount b,
        dg_budgetGrowthRejectCount = ab_growthRejectCount b,
        dg_budgetSnapshotFrameSerial = ab_snapshotFrameSerial b,
        dg_generation = ac_generationCounter c,
        dg_submittedSerial = ac_lastSubmittedSerial c,
        dg_completedSerial = ac_lastCompletedSerial c,
        dg_busyReuseRejectCount = ac_busyReuseRejectCount c,
        dg_overflowCount = ac_totalOverflowCount c,
        dg_reservedBytes = ac_reservedBytes c,
        dg_committedBundleBytes = ac_committedBundleBytes c,
        dg_rolledBackBytes = ac_rolledBackBytes c,
        dg_admissionRejectedCount = ac_admissionRejectedCount c,
        dg_partialTransactionCount = ac_partialTransactionCount c,
        dg_pageTailWasteBytes =
          (case currentGeneration s of
             None \<Rightarrow> 0 | Some i \<Rightarrow> ucast (af_pageTailWasteBytes (ar_frameStates s ! i))),
        dg_quarantineCount = ac_quarantineCount c,
        dg_lastQuarantinedGeneration = ac_lastQuarantinedGeneration c,
        dg_lastQuarantinedRetireSerial = ac_lastQuarantinedRetireSerial c,
        dg_primaryHeapIndex = ab_primaryHeapIndex b,
        dg_memoryBudgetSupported = ab_supported b,
        dg_memoryBudgetTrusted = ab_trusted b,
        dg_activeGenerationCount = ac_activeGenerationCount c,
        dg_frameIncomplete = ac_frameIncomplete c\<rparr>)"

end
