(* ===== verification/ArenaInvariant.thy ===== *)
theory ArenaInvariant
  imports ArenaStats "HOL-Library.Multiset"
begin

section \<open>The shadow arena: what every operation keeps\<close>

text \<open>
  The invariant of the arena and its preservation by every operation of
  \<open>ShadowArena\<close>: the accounting of pages and residency, the position of the cursors
  and the distinctness of buffers; and that the allocation loop ends.
\<close>

subsection \<open>The part of the state that growing a page leaves alone\<close>

definition same_arena :: "ArenaState \<Rightarrow> ArenaState \<Rightarrow> bool" where
  "same_arena s s' \<longleftrightarrow>
     ar_frameStates s' = ar_frameStates s \<and> ar_ownerDevice s' = ar_ownerDevice s \<and>
     ar_allocationFrameSerial s' = ar_allocationFrameSerial s \<and>
     ar_currentFrameIndex s' = ar_currentFrameIndex s \<and>
     ar_arenaPageSize s' = ar_arenaPageSize s \<and>
     ar_arenaMaxFrameSize s' = ar_arenaMaxFrameSize s \<and>
     ar_arenaFrameCount s' = ar_arenaFrameCount s \<and>
     ac_generationCounter (ar_counters s') = ac_generationCounter (ar_counters s)"

lemma same_arena_refl [simp, intro]: "same_arena s s"
  by (simp add: same_arena_def)

lemma same_arena_trans [trans]: "same_arena s s' \<Longrightarrow> same_arena s' s'' \<Longrightarrow> same_arena s s''"
  by (simp add: same_arena_def)

lemma refresh_same [simp]:
  "same_arena s (RefreshArenaMemoryBudget m f s)"
  "ar_residentBytes (RefreshArenaMemoryBudget m f s) = ar_residentBytes s"
  "ar_attempts (RefreshArenaMemoryBudget m f s) = ar_attempts s"
  "ar_counters (RefreshArenaMemoryBudget m f s) = ar_counters s"
  by (simp_all add: RefreshArenaMemoryBudget_def PublishArenaMemoryBudget_def same_arena_def Let_def)

lemma refresh_limit:
  "unat (ab_residentLimitBytes (ar_budget (RefreshArenaMemoryBudget m f s)))
     \<le> unat kShadowArenaFixedResidentLimitBytes"
proof -
  let ?i = "sampleArena m (ar_allocationHeapIndex s) (ar_residentBytes s) s"
  have "ab_residentLimitBytes (ar_budget (RefreshArenaMemoryBudget m f s)) \<le>
      bd_target (DecideAdaptiveMemoryBudget ?i)"
    by (simp add: RefreshArenaMemoryBudget_def PublishArenaMemoryBudget_def
        ResolveShadowArenaMemoryBudget_def Let_def)
  also have "\<dots> \<le> kShadowArenaFixedResidentLimitBytes"
    using decide_target_le_hardCap [of ?i] by (simp add: sampleArena_def)
  finally show ?thesis by (simp add: word_le_nat_alt)
qed

lemma rejectGrowth_same [simp]:
  "same_arena s (rejectGrowth s)"
  "ar_residentBytes (rejectGrowth s) = ar_residentBytes s"
  "ar_attempts (rejectGrowth s) = ar_attempts s"
  by (simp_all add: rejectGrowth_def same_arena_def)

lemma refuseRetry_same [simp]:
  "same_arena s (refuseRetry c s)"
  "ar_residentBytes (refuseRetry c s) = ar_residentBytes s"
  "ar_attempts (refuseRetry c s) = ar_attempts s"
  by (simp_all add: refuseRetry_def same_arena_def)

lemma CanGrowArenaBy_cases:
  assumes "CanGrowArenaBy g s = (ok, s')"
  shows "same_arena s s'" and "ar_residentBytes s' = ar_residentBytes s"
    and "ar_attempts s' = ar_attempts s"
    and "ok \<Longrightarrow> s' = s \<and>
      unat (ar_residentBytes s) + unat g \<le> unat (ab_residentLimitBytes (ar_budget s))"
  using assms
  by (auto simp: CanGrowArenaBy_def Let_def ShadowArenaCanGrowResident_nat split: if_splits)

subsection \<open>Growing by a page\<close>

definition addPage ::
  "nat \<Rightarrow> u32 \<Rightarrow> ShadowArenaFrameState \<Rightarrow> ShadowArenaFrameState" where
  "addPage storage capacity fs =
    fs\<lparr>af_pages := af_pages fs @ [\<lparr>ap_storage = storage, ap_capacity = capacity\<rparr>],
       af_totalCapacity := af_totalCapacity fs + capacity\<rparr>"

text \<open>The two outcomes of an attempt: nothing but bookkeeping, or one page with its bytes.\<close>

definition page_kept ::
  "(arena_fault + bool) \<Rightarrow> ShadowArenaFrameState \<Rightarrow> ShadowArenaFrameState \<Rightarrow>
    ArenaState \<Rightarrow> ArenaState \<Rightarrow> bool" where
  "page_kept r fs fs' s s' \<longleftrightarrow>
     r \<in> {Inr False, Inl DeviceLost} \<and> fs' = fs \<and> same_arena s s' \<and>
     ar_residentBytes s' = ar_residentBytes s \<and> ar_attempts s \<le> ar_attempts s'"

definition page_added ::
  "nat \<Rightarrow> u32 \<Rightarrow> ShadowArenaFrameState \<Rightarrow> ShadowArenaFrameState \<Rightarrow>
    ArenaState \<Rightarrow> ArenaState \<Rightarrow> bool" where
  "page_added storage capacity fs fs' s s' \<longleftrightarrow>
     fs' = addPage storage capacity fs \<and> same_arena s s' \<and>
     ar_residentBytes s' = ar_residentBytes s + ucast capacity"

lemma publishArenaPage_cases:
  assumes "publishArenaPage e storage heap capacity fs s = (r, fs', s')"
  shows "page_kept r fs fs' s s' \<or> r = Inr True \<and> page_added storage capacity fs fs' s s' \<and>
      ar_attempts s' = ar_attempts s"
proof -
  have "same_arena s (rejectGrowth (refuseRetry capacity s))"
    by (rule same_arena_trans [OF refuseRetry_same(1) rejectGrowth_same(1)])
  then show ?thesis
    using assms
    by (auto simp: publishArenaPage_def Let_def page_kept_def page_added_def addPage_def
        same_arena_def split: if_splits)
qed

lemma createArenaPage_cases:
  assumes "createArenaPage e storage capacity fs s = (r, fs', s')"
  shows "page_kept r fs fs' s s' \<or> r = Inr True \<and> page_added storage capacity fs fs' s s' \<and>
      ar_attempts s' = ar_attempts s"
proof -
  have pub: "page_kept r fs fs' s s' \<or> r = Inr True \<and> page_added storage capacity fs fs' s s' \<and>
      ar_attempts s' = ar_attempts s"
    if "publishArenaPage e storage heap capacity fs t = (r, fs', s')"
      and "same_arena s t" "ar_residentBytes t = ar_residentBytes s" "ar_attempts t = ar_attempts s"
    for heap t
    using publishArenaPage_cases [OF that(1)] that(2-)
    by (auto simp: page_kept_def page_added_def same_arena_def)
  have disc: "same_arena s (RefreshArenaMemoryBudget m f (s\<lparr>ar_allocationHeapIndex := h\<rparr>))" for m f h
    by (rule same_arena_trans [OF _ refresh_same(1)]) (simp add: same_arena_def)
  have quiet: "page_kept (Inr False) fs fs s s" "page_kept (Inl DeviceLost) fs fs s s"
      "page_kept (Inr False) fs fs s (refuseRetry capacity s)"
    by (simp_all add: page_kept_def)
  have found: "page_kept r fs fs' s s' \<or> r = Inr True \<and> page_added storage capacity fs fs' s s' \<and>
      ar_attempts s' = ar_attempts s"
    if "publishArenaPage e storage heap capacity fs
      (RefreshArenaMemoryBudget m f (s\<lparr>ar_allocationHeapIndex := h\<rparr>)) = (r, fs', s')" for heap m f h
    by (rule pub [OF that disc]) simp_all
  show ?thesis
    using assms quiet
    by (auto simp: createArenaPage_def Let_def split: if_splits BufferOutcome.splits
        dest!: found pub [OF _ same_arena_refl refl refl])
qed

lemma AllocateArenaPage_cases:
  assumes "AllocateArenaPage env fs bytes s = (r, fs', s')"
  defines "capacity \<equiv> min (ar_arenaPageSize s) (ar_arenaMaxFrameSize s - af_totalCapacity fs)"
  shows "page_kept r fs fs' s s' \<or>
    r = Inr True \<and> page_added (ar_attempts s) capacity fs fs' s s' \<and>
    ar_attempts s' = ar_attempts s + 1 \<and>
    af_totalCapacity fs < ar_arenaMaxFrameSize s \<and> bytes \<le> capacity \<and>
    unat (ar_residentBytes s) + unat capacity \<le> unat kShadowArenaFixedResidentLimitBytes"
proof -
  let ?remaining = "ar_arenaMaxFrameSize s - af_totalCapacity fs"
  have quiet: "page_kept (Inr False) fs fs s s"
    by (simp add: page_kept_def)
  show ?thesis
  proof (cases "af_totalCapacity fs \<ge> ar_arenaMaxFrameSize s \<or> bytes > ar_arenaPageSize s \<or>
      bytes > ?remaining \<or>
      gate_refused (ar_budgetRetry s) (ar_allocationFrameSerial s) (ucast capacity)")
    case True
    then show ?thesis
      using assms(1) quiet
      by (auto simp: AllocateArenaPage_def capacity_def [symmetric] Let_def split: if_splits)
  next
    case False
    define t where "t = RefreshArenaMemoryBudget (pe_before (env (ar_attempts s)))
      (ab_snapshotFrameSerial (ar_budget s)) (s\<lparr>ar_attempts := ar_attempts s + 1\<rparr>)"
    have t: "same_arena s t" "ar_residentBytes t = ar_residentBytes s" "ar_attempts t = ar_attempts s + 1"
      unfolding t_def
      by (rule same_arena_trans [OF _ refresh_same(1)]) (simp_all add: same_arena_def)
    have limit: "unat (ab_residentLimitBytes (ar_budget t)) \<le> unat kShadowArenaFixedResidentLimitBytes"
      unfolding t_def by (rule refresh_limit)
    obtain permits u where g: "CanGrowArenaBy (ucast capacity) t = (permits, u)"
      by (cases "CanGrowArenaBy (ucast capacity) t")
    note u = CanGrowArenaBy_cases [OF g]
    have res: "(if \<not> permits then (Inr False, fs, refuseRetry capacity u)
        else createArenaPage (env (ar_attempts s)) (ar_attempts s) capacity fs u) = (r, fs', s')"
      using assms(1) False g
      by (auto simp: AllocateArenaPage_def capacity_def Let_def t_def simp del: not_le not_less split: if_splits)
    show ?thesis
    proof (cases permits)
      case False
      then have "page_kept r fs fs' s s'"
        using res t u same_arena_trans [OF same_arena_trans [OF t(1) u(1)] refuseRetry_same(1)]
        by (auto simp: page_kept_def)
      then show ?thesis ..
    next
      case True
      have c: "createArenaPage (env (ar_attempts s)) (ar_attempts s) capacity fs t = (r, fs', s')"
        using res True u(4) by simp
      have room: "unat (ar_residentBytes s) + unat capacity
          \<le> unat kShadowArenaFixedResidentLimitBytes"
        using conjunct2 [OF u(4) [OF True]] t(2) limit by simp
      have "bytes \<le> capacity" using False by (simp add: capacity_def not_less)
      then show ?thesis
        using createArenaPage_cases [OF c] t False room
        by (auto simp: page_kept_def page_added_def not_le intro: same_arena_trans)
    qed
  qed
qed

subsection \<open>Placing a slice in a page\<close>

lemma power_of_two_nat:
  fixes n :: nat
  assumes "n \<noteq> 0" and "n AND (n - 1) = 0"
  shows "\<exists>k. n = 2 ^ k"
  using assms
proof (induction n rule: less_induct)
  case (less n)
  show ?case
  proof (cases "even n")
    case True
    then obtain m where m: "n = 2 * m" by (rule evenE)
    have m0: "m \<noteq> 0" using less.prems m by simp
    have half: "(2 * m - Suc 0) div 2 = m - Suc 0" using m0 by (cases m) auto
    have "n AND (n - 1) = 2 * (m AND (m - 1))"
      unfolding m by (subst and_nat_unfold) (auto simp: half)
    then have "m AND (m - 1) = 0" using less.prems(2) by simp
    with less.IH [of m] m m0 obtain k where "m = 2 ^ k" by auto
    then have "n = 2 ^ Suc k" by (simp add: m)
    then show ?thesis ..
  next
    case False
    then obtain m where m: "n = 2 * m + 1" by (rule oddE)
    have "n AND (n - 1) = 2 * m"
      unfolding m by (subst and_nat_unfold) auto
    then have "n = 2 ^ 0" using less.prems(2) m by simp
    then show ?thesis ..
  qed
qed

lemma IsValidAlignment_power:
  assumes "IsValidAlignment a"
  obtains k where "unat a = 2 ^ k"
proof -
  have "a \<noteq> 0" and z: "a AND (a - 1) = 0" using assms by (auto simp: IsValidAlignment_def)
  have nz: "unat a \<noteq> 0" using \<open>a \<noteq> 0\<close> by (simp add: unat_eq_iff)
  have "unat (a - 1) = unat a - 1"
    using nz by (simp add: unat_sub_if')
  then have "unat a AND (unat a - 1) = 0"
    using z by (metis unsigned_and_eq unsigned_0)
  then show ?thesis using power_of_two_nat [OF nz] that by blast
qed

text \<open>The rounded start in natural numbers; nothing wraps, because both operands are 32 bits.\<close>

lemma aligned_start_unat:
  fixes off a :: u32
  assumes "unat a = 2 ^ k"
  defines "v \<equiv> unat off + (2 ^ k - 1)"
  shows "unat (((ucast off :: u64) + ucast a - 1) AND NOT (ucast a - 1)) = v - v mod 2 ^ k"
proof -
  have "(2 :: nat) ^ k < 2 ^ 32" using unat_u32_bound [of a] assms(1) by simp
  then have k: "k < 32" by (rule power_less_imp_less_exp [rotated]) simp
  then have "(2 :: nat) ^ k < 2 ^ 64"
    by (intro power_strict_increasing) simp_all
  then have pow: "unat (2 ^ k :: u64) = 2 ^ k"
    using unat_of_nat [where 'a = 64, of "2 ^ k"] by simp
  then have a: "(ucast a :: u64) = 2 ^ k"
    using assms(1) by (simp add: unat_eq_iff)
  have sum: "unat ((ucast off :: u64) + mask k) = unat off + (2 ^ k - 1)"
  proof -
    have "unat (mask k :: u64) = 2 ^ k - 1"
      using pow by (simp add: mask_eq_exp_minus_1 unat_sub_if' Suc_leI)
    moreover have "(2 :: nat) ^ k < 4294967296"
      using power_strict_increasing [OF k, of "2 :: nat"] by simp
    then have "unat off + (2 ^ k - 1) < 18446744073709551616"
      using unat_u32_bound [of off] by linarith
    ultimately show ?thesis by (simp add: unat_plus_if')
  qed
  have "(ucast off :: u64) + ucast a - 1 = ucast off + mask k"
    unfolding a by (simp add: mask_eq_exp_minus_1)
  moreover have "(ucast a - 1 :: u64) = mask k"
    unfolding a by (simp add: mask_eq_exp_minus_1)
  ultimately show ?thesis
    by (simp only: word_and_not_mask_unat sum v_def)
qed

lemma placeInPage_some:
  assumes "placeInPage off capacity bytes a = Some (start, next)" and "IsValidAlignment a"
  shows "unat off \<le> unat start" and "unat a dvd unat start"
    and "unat next = unat start + unat bytes" and "unat next \<le> unat capacity"
proof -
  obtain k where k: "unat a = 2 ^ k" using IsValidAlignment_power [OF assms(2)] .
  define w where "w = ((ucast off :: u64) + ucast a - 1) AND NOT (ucast a - 1)"
  define v where "v = unat off + (2 ^ k - 1)"
  have w: "unat w = v - v mod 2 ^ k"
    unfolding w_def v_def by (rule aligned_start_unat [OF k])
  have r: "w \<le> ucast UINT32_MAX" "w + ucast bytes \<le> ucast capacity"
      "start = ucast w" "next = ucast (w + ucast bytes)"
    using assms(1) unfolding placeInPage_def Let_def w_def [symmetric] by (auto split: if_splits)
  have ws: "unat w \<le> 4294967295" using r(1) by (simp add: word_le_nat_alt)
  have sum: "unat (w + ucast bytes) = unat w + unat bytes"
    using ws unat_u32_bound [of bytes] by (simp add: unat_plus_if' del: unat_u32_bound)
  have cap: "unat w + unat bytes \<le> unat capacity"
    using r(2) by (simp add: word_le_nat_alt sum)
  have start: "unat start = unat w"
    unfolding r(3) using ws by (simp add: unsigned_ucast_eq take_bit_nat_eq_self_iff)
  show "unat off \<le> unat start" "unat a dvd unat start"
    unfolding start w k v_def by (rule round_up_nat, simp)+
  show "unat next = unat start + unat bytes"
    unfolding r(4) start using order_le_less_trans [OF cap unat_u32_bound]
    by (simp add: unsigned_ucast_eq take_bit_nat_eq_self_iff sum)
  then show "unat next \<le> unat capacity" using cap start by simp
qed

text \<open>At the start of a page every request that is no larger than the page has the room.\<close>

lemma placeInPage_fresh:
  assumes "IsValidAlignment a" and "bytes \<le> capacity"
  shows "placeInPage 0 capacity bytes a = Some (0, bytes)"
proof -
  obtain k where k: "unat a = 2 ^ k" using IsValidAlignment_power [OF assms(1)] .
  define w where "w = ((ucast (0 :: u32) :: u64) + ucast a - 1) AND NOT (ucast a - 1)"
  have "unat w = 0"
    unfolding w_def using aligned_start_unat [OF k, of 0] by simp
  then have w: "w = 0" by (simp add: unat_eq_iff)
  have "(ucast bytes :: u64) \<le> ucast capacity"
    using assms(2) by (simp add: word_le_nat_alt)
  moreover have "(ucast (ucast bytes :: u64) :: u32) = bytes"
    by (rule ucast_up_ucast_id) (simp add: is_up)
  ultimately show ?thesis
    unfolding placeInPage_def Let_def w_def [symmetric] w by simp
qed

subsection \<open>Well-formed generations\<close>

abbreviation page_bytes :: "ShadowArenaPage \<Rightarrow> nat" where
  "page_bytes p \<equiv> unat (ap_capacity p)"

definition bytes_before :: "nat \<Rightarrow> ShadowArenaPage list \<Rightarrow> nat" where
  "bytes_before i ps = sum_list (map page_bytes (take i ps))"

definition page_room :: "ShadowArenaFrameState \<Rightarrow> nat" where
  "page_room fs =
     (if unat (af_currentPage fs) < length (af_pages fs)
      then page_bytes (af_pages fs ! unat (af_currentPage fs)) else 0)"

text \<open>
  The counted capacity is that of the pages and within the limit of a generation; the
  cursor is in a page, or at the very end, with the pages before it counted as committed.
\<close>

definition pages_ok :: "u32 \<Rightarrow> u32 \<Rightarrow> ShadowArenaFrameState \<Rightarrow> bool" where
  "pages_ok pageSize maxFrame fs \<longleftrightarrow>
     unat (af_totalCapacity fs) = sum_list (map page_bytes (af_pages fs)) \<and>
     af_totalCapacity fs \<le> maxFrame \<and>
     (\<forall>p \<in> set (af_pages fs). 0 < ap_capacity p \<and> ap_capacity p \<le> pageSize)"

definition cursor_ok :: "ShadowArenaFrameState \<Rightarrow> bool" where
  "cursor_ok fs \<longleftrightarrow>
     unat (af_currentPage fs) \<le> length (af_pages fs) \<and>
     unat (af_committedBytes fs) = bytes_before (unat (af_currentPage fs)) (af_pages fs) \<and>
     unat (af_currentOffset fs) \<le> page_room fs"

definition frame_ok :: "u32 \<Rightarrow> u32 \<Rightarrow> ShadowArenaFrameState \<Rightarrow> bool" where
  "frame_ok pageSize maxFrame fs \<longleftrightarrow>
     pages_ok pageSize maxFrame fs \<and> cursor_ok fs \<and>
     unat (trim_peak (af_trimHistory fs)) \<le> unat maxFrame"

definition arena_cfg :: "ArenaState \<Rightarrow> bool" where
  "arena_cfg s \<longleftrightarrow>
     ar_arenaPageSize s = kCaptureArenaPageSize \<and>
     kCaptureArenaPageSize \<le> ar_arenaMaxFrameSize s \<and>
     ar_arenaMaxFrameSize s \<le> kCaptureArenaMaxFrameSize \<and> ar_arenaFrameCount s \<noteq> 0"

definition storages :: "ShadowArenaFrameState \<Rightarrow> nat list" where
  "storages fs = map ap_storage (af_pages fs)"

text \<open>The generations of an arena, whatever their order: the residency is theirs, no buffer is shared.\<close>

definition frames_ok :: "ArenaState \<Rightarrow> ShadowArenaFrameState list \<Rightarrow> bool" where
  "frames_ok s fss \<longleftrightarrow>
     arena_cfg s \<and>
     (\<forall>fs \<in> set fss. frame_ok (ar_arenaPageSize s) (ar_arenaMaxFrameSize s) fs) \<and>
     unat (ar_residentBytes s) = sum_list (map (unat \<circ> af_totalCapacity) fss) \<and>
     unat (ar_residentBytes s) \<le> unat kShadowArenaFixedResidentLimitBytes \<and>
     distinct (concat (map storages fss)) \<and>
     (\<forall>x \<in> set (concat (map storages fss)). x < ar_attempts s)"

text \<open>
  The generations beyond the configured slots are spills, which own at least one whole
  page; so there are few of them, and a 32-bit generation index never wraps.
\<close>

definition spills_ok :: "ArenaState \<Rightarrow> bool" where
  "spills_ok s \<longleftrightarrow>
     unat (ar_arenaFrameCount s) \<le> 2 ^ 31 \<and>
     (\<forall>fs \<in> set (drop (unat (ar_arenaFrameCount s)) (ar_frameStates s)).
        ar_arenaPageSize s \<le> af_totalCapacity fs)"

definition arena_ok :: "ArenaState \<Rightarrow> bool" where
  "arena_ok s \<longleftrightarrow>
     frames_ok s (ar_frameStates s) \<and> spills_ok s \<and>
     (ar_ownerDevice s = None \<longrightarrow> ar_frameStates s = [])"

lemma frames_ok_perm:
  "frames_ok s (as @ fs # bs) = frames_ok s (fs # as @ bs)"
  unfolding frames_ok_def by (auto simp: algebra_simps)

lemma frames_ok_putFrame:
  assumes "i < length (ar_frameStates s)"
  shows "frames_ok t (ar_frameStates (putFrame i fs s)) =
    frames_ok t (fs # take i (ar_frameStates s) @ drop (Suc i) (ar_frameStates s))"
  using assms by (simp add: putFrame_def upd_conv_take_nth_drop frames_ok_perm)

lemma frames_ok_nth:
  assumes "i < length (ar_frameStates s)"
  shows "frames_ok t (ar_frameStates s) =
    frames_ok t (ar_frameStates s ! i # take i (ar_frameStates s) @ drop (Suc i) (ar_frameStates s))"
  by (subst id_take_nth_drop [OF assms]) (rule frames_ok_perm)

subsection \<open>Growing keeps the generation well formed\<close>

lemma bytes_before_append:
  "i \<le> length ps \<Longrightarrow> bytes_before i (ps @ qs) = bytes_before i ps"
  by (simp add: bytes_before_def)

lemma bytes_before_Suc:
  "i < length ps \<Longrightarrow> bytes_before (Suc i) ps = bytes_before i ps + page_bytes (ps ! i)"
  by (simp add: bytes_before_def take_Suc_conv_app_nth)

lemma bytes_before_mono:
  assumes "i \<le> j"
  shows "bytes_before i ps \<le> bytes_before j ps"
proof -
  have "take j ps = take i ps @ take (j - i) (drop i ps)"
    using take_add [of i "j - i" ps] assms by simp
  then show ?thesis by (simp add: bytes_before_def)
qed

lemma bytes_before_all: "length ps \<le> i \<Longrightarrow> bytes_before i ps = sum_list (map page_bytes ps)"
  by (simp add: bytes_before_def)

lemma bytes_before_le: "bytes_before i ps \<le> sum_list (map page_bytes ps)"
proof (cases "i \<le> length ps")
  case True
  then show ?thesis using bytes_before_mono [OF True, of ps] by (simp add: bytes_before_all)
qed (simp add: bytes_before_all)

lemma pages_ok_bytes_before:
  "pages_ok pageSize maxFrame fs \<Longrightarrow> bytes_before i (af_pages fs) \<le> unat (af_totalCapacity fs)"
  by (simp add: pages_ok_def bytes_before_le)

text \<open>Every page has a byte, so a 32-bit page index never wraps.\<close>

lemma pages_ok_length:
  assumes "pages_ok pageSize maxFrame fs"
  shows "length (af_pages fs) \<le> unat (af_totalCapacity fs)"
proof -
  have "length ps \<le> sum_list (map page_bytes ps)"
    if "\<forall>p \<in> set ps. 0 < ap_capacity p" for ps :: "ShadowArenaPage list"
    using that
  proof (induction ps)
    case (Cons p ps)
    then have "0 < page_bytes p" by (simp add: word_less_nat_alt)
    then show ?case using Cons by simp
  qed simp
  then show ?thesis using assms by (simp add: pages_ok_def)
qed

lemma addPage_total:
  assumes "af_totalCapacity fs < maxFrame" and "capacity \<le> maxFrame - af_totalCapacity fs"
  shows "unat (af_totalCapacity fs + capacity) = unat (af_totalCapacity fs) + unat capacity"
    and "unat (af_totalCapacity fs) + unat capacity \<le> unat maxFrame"
proof -
  show "unat (af_totalCapacity fs) + unat capacity \<le> unat maxFrame"
    using assms unat_add_le_sub [of "af_totalCapacity fs" maxFrame capacity]
    by (simp add: less_imp_le add.commute)
  then show "unat (af_totalCapacity fs + capacity) = unat (af_totalCapacity fs) + unat capacity"
    by (rule unat_add_no_wrap)
qed

lemma addPage_ok:
  assumes "frame_ok pageSize maxFrame fs" and "af_totalCapacity fs < maxFrame"
    and "capacity = min pageSize (maxFrame - af_totalCapacity fs)" and "0 < pageSize"
  shows "frame_ok pageSize maxFrame (addPage storage capacity fs)"
proof -
  have le: "capacity \<le> maxFrame - af_totalCapacity fs" by (simp add: assms(3))
  note t = addPage_total [OF assms(2) le]
  have "maxFrame - af_totalCapacity fs \<noteq> 0" using assms(2) by auto
  then have "0 < maxFrame - af_totalCapacity fs" by (simp only: word_neq_0_conv)
  then have "0 < capacity" using assms(3,4) by (simp add: min_def)
  then have "pages_ok pageSize maxFrame (addPage storage capacity fs)"
    using assms(1,3) t by (auto simp: frame_ok_def pages_ok_def addPage_def word_le_nat_alt unat_min)
  moreover have "cursor_ok (addPage storage capacity fs)"
    using assms(1) by (auto simp: frame_ok_def cursor_ok_def addPage_def page_room_def
        bytes_before_append nth_append split: if_splits)
  ultimately show ?thesis using assms(1) by (simp add: frame_ok_def addPage_def)
qed

lemma arena_cfg_same: "same_arena s s' \<Longrightarrow> arena_cfg s' = arena_cfg s"
  by (simp add: same_arena_def arena_cfg_def)

lemma arena_cfg_pageSize: "arena_cfg s \<Longrightarrow> 0 < ar_arenaPageSize s"
  by (simp add: arena_cfg_def kCaptureArenaPageSize_def)

lemma frames_ok_mono:
  assumes "frames_ok s fss" and "same_arena s s'" and "ar_residentBytes s' = ar_residentBytes s"
    and "ar_attempts s \<le> ar_attempts s'"
  shows "frames_ok s' fss"
proof -
  have "x < ar_attempts s'" if "x \<in> set (concat (map storages fss))" for x
    using assms(1) that unfolding frames_ok_def by (meson assms(4) order_less_le_trans)
  then show ?thesis
    using assms(1) arena_cfg_same [OF assms(2)] assms(2,3)
    unfolding frames_ok_def same_arena_def by (simp del: set_concat)
qed

lemma AllocateArenaPage_ok:
  assumes "AllocateArenaPage env fs bytes s = (r, fs', s')" and "frames_ok s (fs # rest)"
  shows "frames_ok s' (fs' # rest)" and "same_arena s s'"
proof -
  let ?capacity = "min (ar_arenaPageSize s) (ar_arenaMaxFrameSize s - af_totalCapacity fs)"
  from AllocateArenaPage_cases [OF assms(1)]
  have "same_arena s s' \<and> frames_ok s' (fs' # rest)"
  proof
    assume "page_kept r fs fs' s s'"
    then show ?thesis
      using assms(2) by (auto simp: page_kept_def intro: frames_ok_mono)
  next
    assume "r = Inr True \<and> page_added (ar_attempts s) ?capacity fs fs' s s' \<and>
      ar_attempts s' = ar_attempts s + 1 \<and>
      af_totalCapacity fs < ar_arenaMaxFrameSize s \<and> bytes \<le> ?capacity \<and>
      unat (ar_residentBytes s) + unat ?capacity \<le> unat kShadowArenaFixedResidentLimitBytes"
    then have added: "fs' = addPage (ar_attempts s) ?capacity fs" "same_arena s s'"
        "ar_residentBytes s' = ar_residentBytes s + ucast ?capacity"
        "ar_attempts s' = ar_attempts s + 1"
      and room: "af_totalCapacity fs < ar_arenaMaxFrameSize s"
        "unat (ar_residentBytes s) + unat ?capacity \<le> unat kShadowArenaFixedResidentLimitBytes"
      by (simp_all add: page_added_def)
    have ok: "frame_ok (ar_arenaPageSize s) (ar_arenaMaxFrameSize s) fs'"
      unfolding added(1) using assms(2) room(1) arena_cfg_pageSize
      by (intro addPage_ok) (auto simp: frames_ok_def)
    have total: "unat (af_totalCapacity fs') = unat (af_totalCapacity fs) + unat ?capacity"
      unfolding added(1) addPage_def using addPage_total(1) [OF room(1), of ?capacity] by simp
    have resident: "unat (ar_residentBytes s') = unat (ar_residentBytes s) + unat ?capacity"
      unfolding added(3) using room(2)
      by (subst unat_add_no_wrap [of _ _ kShadowArenaFixedResidentLimitBytes]) simp_all
    let ?old = "concat (map storages (fs # rest))" and ?new = "concat (map storages (fs' # rest))"
    have "storages fs' = storages fs @ [ar_attempts s]"
      by (simp add: added(1) addPage_def storages_def)
    then have "mset ?new = add_mset (ar_attempts s) (mset ?old)" by simp
    then have new: "set ?new = insert (ar_attempts s) (set ?old)"
        "distinct ?new \<longleftrightarrow> ar_attempts s \<notin> set ?old \<and> distinct ?old"
      by (metis set_mset_add_mset_insert set_mset_mset)
        (metis \<open>mset ?new = add_mset (ar_attempts s) (mset ?old)\<close> distinct.simps(2) mset.simps(2)
          mset_eq_imp_distinct_iff)
    have old: "distinct ?old" "\<forall>x \<in> set ?old. x < ar_attempts s"
      using assms(2) unfolding frames_ok_def by blast+
    have "x < n + 1" if "\<forall>x \<in> S. x < n" and "x \<in> insert n S" for x n :: nat and S
      using that by auto
    from this [OF old(2)] have "\<forall>x \<in> set ?new. x < ar_attempts s'"
      unfolding new added(4) by blast
    moreover have "distinct ?new" unfolding new using old by blast
    ultimately have "frames_ok s' (fs' # rest)"
      using assms(2) ok total resident room(2) added(2) arena_cfg_same [OF added(2)]
      unfolding frames_ok_def same_arena_def
      by (simp del: set_concat distinct.simps concat.simps set_append)
    then show ?thesis using added(2) by simp
  qed
  then show "frames_ok s' (fs' # rest)" and "same_arena s s'" by simp_all
qed

subsection \<open>The allocation loop\<close>

text \<open>The address of the cursor when the pages of the generation are laid end to end.\<close>

definition lin_pos :: "ShadowArenaFrameState \<Rightarrow> nat" where
  "lin_pos fs = unat (af_committedBytes fs) + unat (af_currentOffset fs)"

text \<open>What an allocation may change of a generation: pages behind the ones it has, and the cursor.\<close>

definition extends :: "ShadowArenaFrameState \<Rightarrow> ShadowArenaFrameState \<Rightarrow> bool" where
  "extends fs fs' \<longleftrightarrow>
     (\<exists>ps. af_pages fs' = af_pages fs @ ps) \<and>
     af_generation fs' = af_generation fs \<and> af_frameSerial fs' = af_frameSerial fs \<and> af_trimHistory fs' = af_trimHistory fs"

lemma extends_refl [simp, intro]: "extends fs fs"
  by (simp add: extends_def)

lemma extends_trans [trans]: "extends fs fs' \<Longrightarrow> extends fs' fs'' \<Longrightarrow> extends fs fs''"
  by (auto simp: extends_def)

lemma addPage_extends: "extends fs (addPage storage capacity fs)"
  by (simp add: extends_def addPage_def)

text \<open>
  A granted slice: in the page of the new cursor, aligned, ending at the new cursor and
  starting at or behind the old one.
\<close>

definition grant_ok ::
  "u32 \<Rightarrow> u32 \<Rightarrow> ShadowArenaFrameState \<Rightarrow> ShadowArenaFrameState \<Rightarrow> ShadowArenaAllocation \<Rightarrow> bool"
where
  "grant_ok bytes alignment fs fs' a \<longleftrightarrow>
     (let p = unat (af_currentPage fs')
      in p < length (af_pages fs') \<and>
         a = sliceOf (af_pages fs' ! p) (al_offset a) bytes \<and>
         unat alignment dvd unat (al_offset a) \<and>
         unat (al_offset a) + unat bytes = unat (af_currentOffset fs') \<and>
         unat (af_currentOffset fs') \<le> page_bytes (af_pages fs' ! p) \<and>
         lin_pos fs \<le> bytes_before p (af_pages fs') + unat (al_offset a))"

lemma ensurePage_eq:
  assumes "cursor_ok fs"
  shows "ensurePage env bytes fs s =
    (if unat (af_currentPage fs) < length (af_pages fs) then (Inr True, fs, s)
     else AllocateArenaPage env fs bytes s)"
proof (cases "af_pages fs = []")
  case True
  obtain r fs' s' where a: "AllocateArenaPage env fs bytes s = (r, fs', s')"
    by (cases "AllocateArenaPage env fs bytes s")
  have "unat (af_currentPage fs) = 0" using assms True by (simp add: cursor_ok_def)
  then have "r = Inr True \<Longrightarrow> unat (af_currentPage fs') < length (af_pages fs')"
    using AllocateArenaPage_cases [OF a]
    by (auto simp: page_kept_def page_added_def addPage_def True)
  then show ?thesis by (auto simp: ensurePage_def Let_def True a)
qed (auto simp: ensurePage_def Let_def)

lemma leavePage_ok:
  assumes "frame_ok pageSize maxFrame fs" and "unat (af_currentPage fs) < length (af_pages fs)"
  defines "page \<equiv> af_pages fs ! unat (af_currentPage fs)"
  shows "frame_ok pageSize maxFrame (leavePage page fs)" and "lin_pos fs \<le> lin_pos (leavePage page fs)"
    and "unat (af_currentPage (leavePage page fs)) = unat (af_currentPage fs) + 1"
proof -
  let ?i = "unat (af_currentPage fs)"
  have ok: "pages_ok pageSize maxFrame fs" "cursor_ok fs" using assms(1) by (simp_all add: frame_ok_def)
  have "?i + 1 \<le> unat (af_totalCapacity fs)" using pages_ok_length [OF ok(1)] assms(2) by linarith
  then show nxt: "unat (af_currentPage (leavePage page fs)) = unat (af_currentPage fs) + 1"
    using unat_add_no_wrap [of "af_currentPage fs" 1 "af_totalCapacity fs"] by (simp add: leavePage_def)
  have sum: "unat (af_committedBytes fs) + page_bytes page = bytes_before (Suc ?i) (af_pages fs)"
    using ok(2) assms(2) by (simp add: cursor_ok_def page_def bytes_before_Suc)
  then have com: "unat (af_committedBytes fs + ap_capacity page) = bytes_before (Suc ?i) (af_pages fs)"
    using unat_add_no_wrap [of "af_committedBytes fs" "ap_capacity page" "af_totalCapacity fs"]
      pages_ok_bytes_before [OF ok(1), of "Suc ?i"] by simp
  have "cursor_ok (leavePage page fs)"
    using nxt com assms(2) by (simp add: cursor_ok_def leavePage_def)
  then show "frame_ok pageSize maxFrame (leavePage page fs)"
    using assms(1) by (simp add: frame_ok_def pages_ok_def leavePage_def)
  have "unat (af_currentOffset fs) \<le> page_bytes page"
    using ok(2) assms(2) by (simp add: cursor_ok_def page_room_def page_def)
  then show "lin_pos fs \<le> lin_pos (leavePage page fs)"
    using sum com by (simp add: lin_pos_def leavePage_def)
qed

lemma leavePage_extends: "extends fs (leavePage page fs)"
  by (simp add: extends_def leavePage_def)

lemma place_ok:
  assumes "frame_ok pageSize maxFrame fs" and "unat (af_currentPage fs) < length (af_pages fs)"
    and "placeInPage (af_currentOffset fs)
      (ap_capacity (af_pages fs ! unat (af_currentPage fs))) bytes alignment = Some (start, new)"
    and "IsValidAlignment alignment"
  defines "fs' \<equiv> fs\<lparr>af_currentOffset := new\<rparr>"
  shows "frame_ok pageSize maxFrame fs'" and "extends fs fs'"
    and "grant_ok bytes alignment fs fs' (sliceOf (af_pages fs ! unat (af_currentPage fs)) start bytes)"
proof -
  note p = placeInPage_some [OF assms(3,4)]
  have c: "cursor_ok fs" using assms(1) by (simp add: frame_ok_def)
  show "frame_ok pageSize maxFrame fs'"
    using assms(1,2) p(4)
    by (simp add: frame_ok_def pages_ok_def cursor_ok_def page_room_def fs'_def)
  show "extends fs fs'" by (simp add: extends_def fs'_def)
  show "grant_ok bytes alignment fs fs' (sliceOf (af_pages fs ! unat (af_currentPage fs)) start bytes)"
    using c p assms(2)
    by (simp add: grant_ok_def Let_def fs'_def sliceOf_def lin_pos_def cursor_ok_def)
qed

lemma grant_ok_later:
  "grant_ok bytes alignment fs' fs'' a \<Longrightarrow> lin_pos fs \<le> lin_pos fs' \<Longrightarrow> grant_ok bytes alignment fs fs'' a"
  by (auto simp: grant_ok_def Let_def)

lemma same_arena_used [simp]:
  "same_arena s (UpdateCurrentUsedBytes fs s)"
  "ar_residentBytes (UpdateCurrentUsedBytes fs s) = ar_residentBytes s"
  "ar_attempts (UpdateCurrentUsedBytes fs s) = ar_attempts s"
  by (simp_all add: same_arena_def UpdateCurrentUsedBytes_def)

lemma frames_ok_swap:
  "frames_ok s (fs # rest) \<Longrightarrow> frame_ok (ar_arenaPageSize s) (ar_arenaMaxFrameSize s) fs' \<Longrightarrow>
    af_pages fs' = af_pages fs \<Longrightarrow> af_totalCapacity fs' = af_totalCapacity fs \<Longrightarrow>
    frames_ok s (fs' # rest)"
  by (simp add: frames_ok_def storages_def)

definition loop_result ::
  "u32 \<Rightarrow> u32 \<Rightarrow> ShadowArenaFrameState list \<Rightarrow> ShadowArenaFrameState \<Rightarrow> ArenaState \<Rightarrow>
    (arena_fault + ShadowArenaAllocation option) \<times> ShadowArenaFrameState \<times> ArenaState \<Rightarrow> bool" where
  "loop_result bytes alignment rest fs s res \<longleftrightarrow>
     (case res of (r, fs', s') \<Rightarrow>
        frames_ok s' (fs' # rest) \<and> same_arena s s' \<and> extends fs fs' \<and> lin_pos fs \<le> lin_pos fs' \<and>
        (case r of
           Inl fault \<Rightarrow> fault = DeviceLost
         | Inr None \<Rightarrow> True
         | Inr (Some a) \<Rightarrow> grant_ok bytes alignment fs fs' a))"

text \<open>A turn of the loop from a page of the generation; a new page is a page at offset zero.\<close>

lemma loop_step:
  assumes "frames_ok s (fs # rest)" and "same_arena s0 s" and "extends fs0 fs" and "lin_pos fs0 \<le> lin_pos fs"
    and "unat (af_currentPage fs) < length (af_pages fs)" and "IsValidAlignment alignment"
    and "placeInPage (af_currentOffset fs)
      (ap_capacity (af_pages fs ! unat (af_currentPage fs))) bytes alignment = Some (start, new)"
  defines "fs' \<equiv> fs\<lparr>af_currentOffset := new\<rparr>"
  shows "loop_result bytes alignment rest fs0 s0
    (Inr (Some (sliceOf (af_pages fs ! unat (af_currentPage fs)) start bytes)), fs',
     UpdateCurrentUsedBytes fs' s)"
proof -
  have ok: "frame_ok (ar_arenaPageSize s) (ar_arenaMaxFrameSize s) fs"
    using assms(1) by (simp add: frames_ok_def)
  note p = place_ok [OF ok assms(5,7,6), folded fs'_def]
  have "frames_ok s (fs' # rest)"
    by (rule frames_ok_swap [OF assms(1) p(1)]) (simp_all add: fs'_def)
  then have "frames_ok (UpdateCurrentUsedBytes fs' s) (fs' # rest)"
    by (rule frames_ok_mono) simp_all
  moreover have "lin_pos fs0 \<le> lin_pos fs'"
    using assms(4) placeInPage_some [OF assms(7,6)] by (simp add: lin_pos_def fs'_def)
  ultimately show ?thesis
    using same_arena_trans [OF assms(2) same_arena_used(1)] extends_trans [OF assms(3) p(2)]
      grant_ok_later [OF p(3) assms(4)]
    by (simp add: loop_result_def)
qed

lemma loop_result_later:
  assumes "loop_result bytes alignment rest fs s res" and "same_arena s0 s" and "extends fs0 fs"
    and "lin_pos fs0 \<le> lin_pos fs"
  shows "loop_result bytes alignment rest fs0 s0 res"
  using assms
  by (auto simp: loop_result_def split: sum.splits option.splits prod.splits
      intro: same_arena_trans extends_trans grant_ok_later)

lemma allocateLoop_result:
  assumes "frames_ok s (fs # rest)" and "IsValidAlignment alignment"
    and "length (af_pages fs) - unat (af_currentPage fs) < fuel"
  shows "loop_result bytes alignment rest fs s (allocateLoop fuel env bytes alignment fs s)"
  using assms
proof (induction fuel arbitrary: fs s)
  case (Suc fuel)
  let ?i = "unat (af_currentPage fs)"
  have ok: "frame_ok (ar_arenaPageSize s) (ar_arenaMaxFrameSize s) fs"
    using Suc.prems(1) by (simp add: frames_ok_def)
  then have c: "cursor_ok fs" by (simp add: frame_ok_def)
  show ?case
  proof (cases "?i < length (af_pages fs)")
    case True
    note e = ensurePage_eq [OF c, of env bytes s, unfolded if_P [OF True]]
    let ?page = "af_pages fs ! ?i"
    show ?thesis
    proof (cases "placeInPage (af_currentOffset fs) (ap_capacity ?page) bytes alignment")
      case None
      note l = leavePage_ok [OF ok True]
      have "frames_ok s (leavePage ?page fs # rest)"
        by (rule frames_ok_swap [OF Suc.prems(1) l(1)]) (simp_all add: leavePage_def)
      moreover have "length (af_pages (leavePage ?page fs)) - unat (af_currentPage (leavePage ?page fs)) < fuel"
        using Suc.prems(3) True by (simp only: l(3)) (simp add: leavePage_def)
      ultimately have "loop_result bytes alignment rest (leavePage ?page fs) s
          (allocateLoop fuel env bytes alignment (leavePage ?page fs) s)"
        using Suc.IH Suc.prems(2) by blast
      from loop_result_later [OF this same_arena_refl leavePage_extends l(2)] show ?thesis
        using True None by (simp add: e Let_def)
    next
      case (Some p)
      then show ?thesis
        using loop_step [OF Suc.prems(1) same_arena_refl extends_refl order_refl True Suc.prems(2)] True
        by (cases p) (simp add: e Let_def)
    qed
  next
    case False
    note e = ensurePage_eq [OF c, of env bytes s, unfolded if_not_P [OF False]]
    have i: "?i = length (af_pages fs)" using c False by (simp add: cursor_ok_def)
    then have zero: "af_currentOffset fs = 0"
      using c by (simp add: cursor_ok_def page_room_def unat_eq_iff)
    obtain r fs' s' where a: "AllocateArenaPage env fs bytes s = (r, fs', s')"
      by (cases "AllocateArenaPage env fs bytes s")
    note k = AllocateArenaPage_ok [OF a Suc.prems(1)]
    from AllocateArenaPage_cases [OF a] show ?thesis
    proof
      assume "page_kept r fs fs' s s'"
      then show ?thesis using k a by (auto simp: page_kept_def e loop_result_def)
    next
      let ?capacity = "min (ar_arenaPageSize s) (ar_arenaMaxFrameSize s - af_totalCapacity fs)"
      assume "r = Inr True \<and> page_added (ar_attempts s) ?capacity fs fs' s s' \<and>
        ar_attempts s' = ar_attempts s + 1 \<and> af_totalCapacity fs < ar_arenaMaxFrameSize s \<and>
        bytes \<le> ?capacity \<and>
        unat (ar_residentBytes s) + unat ?capacity \<le> unat kShadowArenaFixedResidentLimitBytes"
      then have added: "r = Inr True" "fs' = addPage (ar_attempts s) ?capacity fs" "bytes \<le> ?capacity"
        by (simp_all add: page_added_def)
      have at: "unat (af_currentPage fs') = length (af_pages fs)" "af_currentOffset fs' = 0"
          "ap_capacity (af_pages fs' ! length (af_pages fs)) = ?capacity"
          "length (af_pages fs) < length (af_pages fs')"
        using i zero by (simp_all add: added(2) addPage_def)
      have place: "placeInPage (af_currentOffset fs')
          (ap_capacity (af_pages fs' ! unat (af_currentPage fs'))) bytes alignment = Some (0, bytes)"
        unfolding at by (rule placeInPage_fresh [OF Suc.prems(2) added(3)])
      have "lin_pos fs \<le> lin_pos fs'" by (simp add: lin_pos_def added(2) addPage_def)
      then have "loop_result bytes alignment rest fs s
          (Inr (Some (sliceOf (af_pages fs' ! unat (af_currentPage fs')) 0 bytes)),
           fs'\<lparr>af_currentOffset := bytes\<rparr>, UpdateCurrentUsedBytes (fs'\<lparr>af_currentOffset := bytes\<rparr>) s')"
        using at added(2) by (intro loop_step [OF k _ _ _ Suc.prems(2) place]) (simp_all add: addPage_extends)
      then show ?thesis using a added(1) at place by (simp add: e Let_def)
    qed
  qed
qed simp

end
