(* ===== verification/ArenaRuns.thy ===== *)
theory ArenaRuns
  imports ArenaInvariant
begin

section \<open>The shadow arena: bundles, frames and runs\<close>

text \<open>
  Every operation keeps the invariant of \<open>ArenaInvariant\<close>; a bundle is all or nothing;
  and over a whole run of the arena the slices handed out of a generation stay apart
  until the generation is taken for another frame.
\<close>

subsection \<open>Where a slice lies\<close>

definition slice_placed ::
  "ShadowArenaFrameState \<Rightarrow> ShadowArenaAllocation \<Rightarrow> interval \<Rightarrow> bool" where
  "slice_placed fs a iv \<longleftrightarrow>
     (\<exists>p < length (af_pages fs).
        a = sliceOf (af_pages fs ! p) (al_offset a) (al_size a) \<and>
        unat (al_offset a) + unat (al_size a) \<le> page_bytes (af_pages fs ! p) \<and>
        iv = (bytes_before p (af_pages fs) + unat (al_offset a),
              bytes_before p (af_pages fs) + unat (al_offset a) + unat (al_size a)))"

interpretation generation: slice_log slice_placed lin_pos extends
proof
  fix fs fs' :: ShadowArenaFrameState and a iv
  assume "extends fs fs'" and "slice_placed fs a iv"
  then obtain p ps where ps: "af_pages fs' = af_pages fs @ ps" and p: "p < length (af_pages fs)"
    and at: "a = sliceOf (af_pages fs ! p) (al_offset a) (al_size a)"
      "unat (al_offset a) + unat (al_size a) \<le> page_bytes (af_pages fs ! p)"
      "iv = (bytes_before p (af_pages fs) + unat (al_offset a),
        bytes_before p (af_pages fs) + unat (al_offset a) + unat (al_size a))"
    by (auto simp: slice_placed_def extends_def)
  have "af_pages fs' ! p = af_pages fs ! p" "bytes_before p (af_pages fs') = bytes_before p (af_pages fs)"
      "p < length (af_pages fs')"
    using p by (simp_all add: ps nth_append bytes_before_append)
  then show "slice_placed fs' a iv"
    unfolding slice_placed_def using at by metis
qed

abbreviation slices_ok :: "ShadowArenaFrameState \<Rightarrow> ShadowArenaAllocation list \<Rightarrow> bool" where
  "slices_ok \<equiv> log_ok slice_placed lin_pos"

lemma grant_placed:
  assumes "grant_ok bytes alignment fs fs' a" and "cursor_ok fs'"
  obtains iv where "slice_placed fs' a iv" "lin_pos fs \<le> fst iv" "fst iv \<le> snd iv"
    "snd iv = lin_pos fs'" "al_size a = bytes" "unat alignment dvd unat (al_offset a)"
proof
  let ?p = "unat (af_currentPage fs')"
  let ?iv = "(bytes_before ?p (af_pages fs') + unat (al_offset a),
    bytes_before ?p (af_pages fs') + unat (al_offset a) + unat bytes)"
  show bytes: "al_size a = bytes" and "unat alignment dvd unat (al_offset a)"
    using assms(1) by (auto simp: grant_ok_def Let_def sliceOf_def dest: arg_cong [where f = al_size])
  show "slice_placed fs' a ?iv"
    using assms(1) bytes unfolding slice_placed_def grant_ok_def Let_def by auto
  show "lin_pos fs \<le> fst ?iv" "fst ?iv \<le> snd ?iv"
    using assms(1) by (simp_all add: grant_ok_def Let_def)
  show "snd ?iv = lin_pos fs'"
    using assms by (simp add: grant_ok_def Let_def lin_pos_def cursor_ok_def)
qed

lemma grant_pos: "grant_ok bytes alignment fs fs' a \<Longrightarrow> cursor_ok fs' \<Longrightarrow> lin_pos fs + unat bytes \<le> lin_pos fs'"
  by (simp add: grant_ok_def Let_def lin_pos_def cursor_ok_def)

lemma grant_logged:
  assumes "slices_ok fs as" and "extends fs fs'" and "grant_ok bytes alignment fs fs' a"
    and "cursor_ok fs'"
  shows "slices_ok fs' (as @ [a])"
proof -
  obtain iv where iv: "slice_placed fs' a iv" "lin_pos fs \<le> fst iv" "fst iv \<le> snd iv"
      "snd iv = lin_pos fs'"
    using grant_placed [OF assms(3,4)] .
  show ?thesis by (rule generation.log_grant [OF assms(1,2) iv(1,2,3)]) (simp add: iv(4))
qed

subsection \<open>One allocation\<close>

lemma TryAllocate_result:
  assumes "frames_ok s (fs # rest)"
    and "TryAllocateFromCurrentGeneration env bytes alignment fs s = (r, fs', s')"
  shows "loop_result bytes alignment rest fs s (r, fs', s')"
    and "r = Inr (Some a) \<Longrightarrow> bytes \<noteq> 0 \<and> IsValidAlignment alignment"
proof -
  have quiet: "loop_result bytes alignment rest fs s (Inr None, fs, s)"
    using assms(1) by (simp add: loop_result_def)
  have "loop_result bytes alignment rest fs s
      (allocateLoop (loopFuel fs) env bytes alignment fs s)" if "IsValidAlignment alignment"
    using assms(1) that by (rule allocateLoop_result) (simp add: loopFuel_def)
  then show "loop_result bytes alignment rest fs s (r, fs', s')"
    using assms(2) quiet by (auto simp: TryAllocateFromCurrentGeneration_def split: if_splits)
  show "r = Inr (Some a) \<Longrightarrow> bytes \<noteq> 0 \<and> IsValidAlignment alignment"
    using assms(2) by (auto simp: TryAllocateFromCurrentGeneration_def split: if_splits)
qed

subsection \<open>The parts of a bundle\<close>

definition used_alignment :: "ShadowArenaBundleRequest \<Rightarrow> u32" where
  "used_alignment r = (if br_alignment r = 0 then 16 else br_alignment r)"

definition serves :: "ShadowArenaBundleRequest \<Rightarrow> ShadowArenaAllocation \<Rightarrow> bool" where
  "serves r a \<longleftrightarrow>
     al_valid a \<and> al_size a = br_size r \<and> unat (used_alignment r) dvd unat (al_offset a)"

text \<open>The cursor the transaction would restore is that of \<open>fs\<close>.\<close>

definition starts_at :: "ShadowArenaBundleTransaction \<Rightarrow> ShadowArenaFrameState \<Rightarrow> bool" where
  "starts_at tx fs \<longleftrightarrow>
     tx_startPage tx = af_currentPage fs \<and> tx_startOffset tx = af_currentOffset fs \<and>
     tx_startCommittedBytes tx = af_committedBytes fs \<and>
     tx_startPageTailWasteBytes tx = af_pageTailWasteBytes fs"

lemma restoreCursor_ok:
  assumes "frame_ok pageSize maxFrame fs0" and "frame_ok pageSize maxFrame fs" and "extends fs0 fs"
    and "starts_at tx fs0"
  shows "frame_ok pageSize maxFrame (restoreCursor tx fs)" and "extends fs0 (restoreCursor tx fs)"
    and "lin_pos (restoreCursor tx fs) = lin_pos fs0"
proof -
  show "extends fs0 (restoreCursor tx fs)"
    using assms(3) by (simp add: extends_def restoreCursor_def)
  show "lin_pos (restoreCursor tx fs) = lin_pos fs0"
    using assms(4) by (simp add: lin_pos_def restoreCursor_def starts_at_def)
  obtain ps where ps: "af_pages fs = af_pages fs0 @ ps"
    using assms(3) by (auto simp: extends_def)
  have "cursor_ok fs0" using assms(1) by (simp add: frame_ok_def)
  then have "cursor_ok (restoreCursor tx fs)"
    using assms(4) by (auto simp: cursor_ok_def restoreCursor_def starts_at_def page_room_def ps
        bytes_before_append nth_append split: if_splits)
  then show "frame_ok pageSize maxFrame (restoreCursor tx fs)"
    using assms(2) by (simp add: frame_ok_def pages_ok_def restoreCursor_def)
qed

text \<open>
  What reserving the parts of a bundle does to the generation \<open>fs\<close> it started from: on
  success every part serves its request and joins the log; on a refusal the cursor is
  back where it was; the only fault is a lost device.
\<close>

definition parts_result ::
  "nat \<Rightarrow> ShadowArenaBundleRequest list \<Rightarrow> ShadowArenaFrameState list \<Rightarrow> ShadowArenaFrameState \<Rightarrow>
    ShadowArenaBundleTransaction \<Rightarrow> ShadowArenaFrameState \<Rightarrow> ArenaState \<Rightarrow>
    (arena_fault + bool) \<times> ShadowArenaBundleTransaction \<times> ShadowArenaFrameState \<times> ArenaState \<Rightarrow> bool"
where
  "parts_result i rs rest fs0 tx fs s res \<longleftrightarrow>
     (case res of (r, tx', fs', s') \<Rightarrow>
        frames_ok s' (fs' # rest) \<and> same_arena s s' \<and> extends fs0 fs' \<and> starts_at tx' fs0 \<and>
        tx_generationIndex tx' = tx_generationIndex tx \<and> tx_generation tx' = tx_generation tx \<and>
        tx_allocationCount tx' = tx_allocationCount tx \<and>
        length (tx_allocations tx') = length (tx_allocations tx) \<and>
        take i (tx_allocations tx') = take i (tx_allocations tx) \<and>
        (case r of
           Inl fault \<Rightarrow> fault = DeviceLost \<and> lin_pos fs \<le> lin_pos fs'
         | Inr False \<Rightarrow>
             lin_pos fs' = lin_pos fs0 \<and> \<not> tx_active tx' \<and> fs' = restoreCursor tx' fs' \<and>
             ac_frameIncomplete (ar_counters s') = 1
         | Inr True \<Rightarrow>
             tx_active tx' = tx_active tx \<and> lin_pos fs + length rs \<le> lin_pos fs' \<and>
             list_all2 serves rs (take (length rs) (drop i (tx_allocations tx'))) \<and>
             (\<forall>as. slices_ok fs as \<longrightarrow>
                slices_ok fs' (as @ take (length rs) (drop i (tx_allocations tx'))))))"

lemma take_drop_update:
  assumes "i < length xs" and "take (Suc i) ys = take (Suc i) (xs[i := a])" and "length ys = length xs"
  shows "take i ys = take i xs" and "take (Suc n) (drop i ys) = a # take n (drop (Suc i) ys)"
proof -
  have "take i (take (Suc i) ys) = take i (take (Suc i) (xs[i := a]))" by (simp only: assms(2))
  then show "take i ys = take i xs" by simp
  have "take (Suc i) ys ! i = take (Suc i) (xs[i := a]) ! i" by (simp only: assms(2))
  then have "ys ! i = a" using assms(1,3) by simp
  then show "take (Suc n) (drop i ys) = a # take n (drop (Suc i) ys)"
    using Cons_nth_drop_Suc [of i ys] assms(1,3) by (metis take_Suc_Cons)
qed

lemma reserveParts_result:
  assumes "frames_ok s (fs # rest)" and "extends fs0 fs" and "starts_at tx fs0"
    and "frame_ok (ar_arenaPageSize s) (ar_arenaMaxFrameSize s) fs0"
    and "i + length rs \<le> length (tx_allocations tx)"
  shows "parts_result i rs rest fs0 tx fs s (reserveParts env i rs tx fs s)"
  using assms
proof (induction rs arbitrary: i tx fs s)
  case Nil
  then show ?case by (auto simp: parts_result_def)
next
  case (Cons r rs)
  let ?tx = "tx\<lparr>tx_tags := (tx_tags tx)[i := br_tag r],
    tx_requestedBytes := tx_requestedBytes tx + ucast (br_size r)\<rparr>"
  obtain res fs1 s1 where t: "TryAllocateFromCurrentGeneration env (br_size r) (used_alignment r) fs s
      = (res, fs1, s1)"
    by (cases "TryAllocateFromCurrentGeneration env (br_size r) (used_alignment r) fs s")
  note l = TryAllocate_result [OF Cons.prems(1) t]
  have ok1: "frames_ok s1 (fs1 # rest)" "same_arena s s1" "extends fs fs1"
    using l(1) by (simp_all add: loop_result_def)
  have ext: "extends fs0 fs1" by (rule extends_trans [OF Cons.prems(2) ok1(3)])
  have f1: "frame_ok (ar_arenaPageSize s1) (ar_arenaMaxFrameSize s1) fs1"
    using ok1(1) by (simp add: frames_ok_def)
  have f0: "frame_ok (ar_arenaPageSize s1) (ar_arenaMaxFrameSize s1) fs0"
    using Cons.prems(4) ok1(2) by (simp add: same_arena_def)
  note unfolded = reserveParts.simps(2) Let_def used_alignment_def [symmetric] t
  show ?case
  proof (cases res)
    case (Inl fault)
    then show ?thesis
      using l(1) ext Cons.prems(3)
      by (auto simp: unfolded parts_result_def loop_result_def starts_at_def)
  next
    case (Inr ao)
    show ?thesis
    proof (cases ao)
      case None
      have st: "starts_at ?tx fs0" using Cons.prems(3) by (simp add: starts_at_def)
      note c = restoreCursor_ok [OF f0 f1 ext st]
      let ?s = "NoteArenaAdmissionFailure (restoreCursor ?tx fs1)
        (rollBackBytes (tx_requestedBytes ?tx) (UpdateCurrentUsedBytes (restoreCursor ?tx fs1) s1))"
      have same: "same_arena s1 ?s" "ar_residentBytes ?s = ar_residentBytes s1"
          "ar_attempts s1 \<le> ar_attempts ?s" "ac_frameIncomplete (ar_counters ?s) = 1"
        by (simp_all add: same_arena_def NoteArenaAdmissionFailure_def rollBackBytes_def
            UpdateCurrentUsedBytes_def)
      have "frames_ok s1 (restoreCursor ?tx fs1 # rest)"
        by (rule frames_ok_swap [OF ok1(1) c(1)]) (simp_all add: restoreCursor_def)
      then have "frames_ok ?s (restoreCursor ?tx fs1 # rest)"
        by (rule frames_ok_mono [OF _ same(1,2,3)])
      then show ?thesis
        using c(2,3) same_arena_trans [OF ok1(2) same(1)] same(4) st
        by (simp add: unfolded Inr None parts_result_def starts_at_def)
          (simp add: restoreCursor_def)
    next
      case (Some a)
      have g: "grant_ok (br_size r) (used_alignment r) fs fs1 a"
        using l(1) by (simp add: loop_result_def Inr Some)
      have c1: "cursor_ok fs1" using f1 by (simp add: frame_ok_def)
      have nz: "br_size r \<noteq> 0" using l(2) Inr Some by blast
      obtain iv where iv: "slice_placed fs1 a iv" "al_size a = br_size r"
          "unat (used_alignment r) dvd unat (al_offset a)"
        using grant_placed [OF g c1] by metis
      have served: "serves r a"
        using iv nz by (auto simp: serves_def al_valid_def slice_placed_def sliceOf_def
            dest: arg_cong [where f = al_storage] arg_cong [where f = al_info])
      have pos: "lin_pos fs + 1 \<le> lin_pos fs1"
        using grant_pos [OF g c1] nz by (metis Suc_eq_plus1 Suc_leI le_trans add_le_cancel_left
            unat_gt_0 less_eq_Suc_le One_nat_def)
      let ?tx' = "?tx\<lparr>tx_allocations := (tx_allocations ?tx)[i := a]\<rparr>"
      obtain r' tx' fs' s' where rec: "reserveParts env (i + 1) rs ?tx' fs1 s1 = (r', tx', fs', s')"
        by (cases "reserveParts env (i + 1) rs ?tx' fs1 s1")
      have "parts_result (i + 1) rs rest fs0 ?tx' fs1 s1 (r', tx', fs', s')"
        unfolding rec [symmetric] using Cons.prems(3,5) f0
        by (intro Cons.IH ok1(1) ext) (simp_all add: starts_at_def)
      note IH = this [unfolded parts_result_def prod.case]
      let ?part = "take (length rs) (drop (Suc i) (tx_allocations tx'))"
      have i: "i < length (tx_allocations tx)" using Cons.prems(5) by simp
      have td: "take i (tx_allocations tx') = take i (tx_allocations tx)"
          "take (length (r # rs)) (drop i (tx_allocations tx')) = a # ?part"
        using take_drop_update [OF i, of "tx_allocations tx'" a] IH by simp_all
      have same: "same_arena s s'" using same_arena_trans [OF ok1(2)] IH by blast
      have logged: "\<forall>as. slices_ok fs as \<longrightarrow> slices_ok fs' (as @ a # ?part)" if "r' = Inr True"
      proof (intro allI impI)
        fix as assume "slices_ok fs as"
        from grant_logged [OF this ok1(3) g c1] have "slices_ok fs1 (as @ [a])" .
        moreover have "slices_ok fs' (bs @ ?part)" if "slices_ok fs1 bs" for bs
          using IH \<open>r' = Inr True\<close> that by simp
        ultimately have "slices_ok fs' ((as @ [a]) @ ?part)" by blast
        then show "slices_ok fs' (as @ a # ?part)" by simp
      qed
      have res: "reserveParts env i (r # rs) tx fs s = (r', tx', fs', s')"
        unfolding unfolded Inr Some prod.case sum.case option.case
        using rec by simp
      show ?thesis
        unfolding parts_result_def res prod.case td
      proof (intro conjI)
        show "case r' of
            Inl fault \<Rightarrow> fault = DeviceLost \<and> lin_pos fs \<le> lin_pos fs'
          | Inr False \<Rightarrow>
              lin_pos fs' = lin_pos fs0 \<and> \<not> tx_active tx' \<and> fs' = restoreCursor tx' fs' \<and>
              ac_frameIncomplete (ar_counters s') = 1
          | Inr True \<Rightarrow>
              tx_active tx' = tx_active tx \<and> lin_pos fs + length (r # rs) \<le> lin_pos fs' \<and>
              list_all2 serves (r # rs) (a # ?part) \<and>
              (\<forall>as. slices_ok fs as \<longrightarrow> slices_ok fs' (as @ a # ?part))"
        proof (cases r')
          case (Inl fault)
          then show ?thesis using IH pos by simp
        next
          case (Inr ok)
          then show ?thesis using IH pos served logged by (cases ok) simp_all
        qed
      qed (use IH same td in simp_all)
    qed
  qed
qed

subsection \<open>The invariant of the whole arena\<close>

lemma frames_ok_state [simp]:
  "frames_ok (counted f s) fss = frames_ok s fss"
  "frames_ok (ar_notes_update g s) fss = frames_ok s fss"
  "frames_ok (putFrame i fs s) fss = frames_ok s fss"
  "frames_ok (s\<lparr>ar_frameStates := x\<rparr>) fss = frames_ok s fss"
  "frames_ok (s\<lparr>ar_currentFrameIndex := k\<rparr>) fss = frames_ok s fss"
  "frames_ok (s\<lparr>ar_allocationFrameSerial := n\<rparr>) fss = frames_ok s fss"
  by (simp_all add: frames_ok_def arena_cfg_def putFrame_def)

lemma frames_ok_cong:
  "ar_arenaPageSize s' = ar_arenaPageSize s \<Longrightarrow> ar_arenaMaxFrameSize s' = ar_arenaMaxFrameSize s \<Longrightarrow>
    ar_arenaFrameCount s' = ar_arenaFrameCount s \<Longrightarrow> ar_residentBytes s' = ar_residentBytes s \<Longrightarrow>
    ar_attempts s' = ar_attempts s \<Longrightarrow> frames_ok s' fss = frames_ok s fss"
  by (simp add: frames_ok_def arena_cfg_def)

lemma putFrame_fields [simp]:
  "ar_frameStates (putFrame i fs s) = (ar_frameStates s)[i := fs]"
  "ar_ownerDevice (putFrame i fs s) = ar_ownerDevice s"
  "ar_arenaFrameCount (putFrame i fs s) = ar_arenaFrameCount s"
  "ar_arenaPageSize (putFrame i fs s) = ar_arenaPageSize s"
  "ar_arenaMaxFrameSize (putFrame i fs s) = ar_arenaMaxFrameSize s"
  "ar_currentFrameIndex (putFrame i fs s) = ar_currentFrameIndex s"
  "ar_counters (putFrame i fs s) = ar_counters s"
  "ar_residentBytes (putFrame i fs s) = ar_residentBytes s"
  "ar_attempts (putFrame i fs s) = ar_attempts s"
  by (simp_all add: putFrame_def)

abbreviation others :: "nat \<Rightarrow> ArenaState \<Rightarrow> ShadowArenaFrameState list" where
  "others i s \<equiv> take i (ar_frameStates s) @ drop (Suc i) (ar_frameStates s)"

lemma arena_ok_split:
  "arena_ok s \<Longrightarrow> i < length (ar_frameStates s) \<Longrightarrow> frames_ok s (ar_frameStates s ! i # others i s)"
  using frames_ok_nth by (auto simp: arena_ok_def)

lemma arena_ok_frame:
  "arena_ok s \<Longrightarrow> fs \<in> set (ar_frameStates s) \<Longrightarrow> frame_ok (ar_arenaPageSize s) (ar_arenaMaxFrameSize s) fs"
  by (simp add: arena_ok_def frames_ok_def)

lemma drop_update: "drop n (xs[i := x]) = (if i < n then drop n xs else (drop n xs)[i - n := x])"
  by (simp add: drop_update_swap)

text \<open>Replacing one generation of a well-formed arena by a grown, shrunk or rewound one.\<close>

lemma arena_ok_update:
  assumes "arena_ok s" and "i < length (ar_frameStates s)"
    and "ar_frameStates s' = (ar_frameStates s)[i := fs']"
    and "frames_ok s' (fs' # others i s)"
    and "ar_ownerDevice s' = ar_ownerDevice s"
    and "ar_arenaFrameCount s' = ar_arenaFrameCount s" and "ar_arenaPageSize s' = ar_arenaPageSize s"
    and "min (ar_arenaPageSize s) (af_totalCapacity (ar_frameStates s ! i)) \<le> af_totalCapacity fs'"
  shows "arena_ok s'"
proof -
  let ?n = "unat (ar_arenaFrameCount s)"
  have "ar_arenaPageSize s \<le> af_totalCapacity fs"
    if "fs \<in> set (drop ?n ((ar_frameStates s)[i := fs']))" for fs
  proof -
    have old: "\<forall>fs \<in> set (drop ?n (ar_frameStates s)). ar_arenaPageSize s \<le> af_totalCapacity fs"
      using assms(1) by (simp add: arena_ok_def spills_ok_def)
    show ?thesis
    proof (cases "i < ?n \<or> fs \<in> set (drop ?n (ar_frameStates s))")
      case True
      then show ?thesis using that old by (auto simp: drop_update)
    next
      case False
      have "ar_frameStates s ! i = drop ?n (ar_frameStates s) ! (i - ?n)"
        using False assms(2) by simp
      moreover have "drop ?n (ar_frameStates s) ! (i - ?n) \<in> set (drop ?n (ar_frameStates s))"
        using False assms(2) by (intro nth_mem) (simp add: diff_less_mono)
      ultimately have "ar_arenaPageSize s \<le> af_totalCapacity (ar_frameStates s ! i)"
        using old by simp
      moreover have "fs = fs'"
        using that False set_update_subset_insert [of "drop ?n (ar_frameStates s)" "i - ?n" fs']
        by (auto simp: drop_update)
      ultimately show ?thesis using assms(8) by simp
    qed
  qed
  then have "spills_ok s'"
    using assms(1,3,6,7) by (simp add: arena_ok_def spills_ok_def)
  moreover have "frames_ok s' (ar_frameStates s')"
    using frames_ok_putFrame [OF assms(2), of s' fs'] assms(3,4) by simp
  ultimately show ?thesis using assms(1,3,5) by (auto simp: arena_ok_def)
qed

lemma frames_few:
  assumes "arena_ok s"
  shows "length (ar_frameStates s) \<le> unat (ar_arenaFrameCount s) + 18"
    and "length (ar_frameStates s) < 4294967295"
proof -
  let ?spills = "drop (unat (ar_arenaFrameCount s)) (ar_frameStates s)"
  have size: "unat (ar_arenaPageSize s) = 67108864"
    using assms by (simp add: arena_ok_def frames_ok_def arena_cfg_def kCaptureArenaPageSize_def)
  have "67108864 * length fss \<le> sum_list (map (unat \<circ> af_totalCapacity) fss)"
    if "\<forall>fs \<in> set fss. ar_arenaPageSize s \<le> af_totalCapacity fs" for fss
    using that
  proof (induction fss)
    case (Cons fs fss)
    then show ?case using size by (simp add: word_le_nat_alt)
  qed simp
  from this [of ?spills]
  have "67108864 * length ?spills \<le> sum_list (map (unat \<circ> af_totalCapacity) ?spills)"
    using assms unfolding arena_ok_def spills_ok_def by blast
  also have "\<dots> \<le> sum_list (map (unat \<circ> af_totalCapacity) (ar_frameStates s))"
    by (subst (2) append_take_drop_id [of "unat (ar_arenaFrameCount s)", symmetric])
      (simp only: map_append sum_list_append le_add2)
  also have "\<dots> \<le> 1207959552"
    using assms by (simp add: arena_ok_def frames_ok_def kShadowArenaFixedResidentLimitBytes_def)
  finally show few: "length (ar_frameStates s) \<le> unat (ar_arenaFrameCount s) + 18" by simp
  show "length (ar_frameStates s) < 4294967295"
    using few assms by (simp add: arena_ok_def spills_ok_def)
qed

lemma current_index:
  assumes "currentGeneration s = Some i"
  shows "i < length (ar_frameStates s)" and "unat (ar_currentFrameIndex s) = i"
  using assms by (auto simp: currentGeneration_def Let_def split: if_splits)

subsection \<open>Bundles\<close>

abbreviation current :: "nat \<Rightarrow> ArenaState \<Rightarrow> ShadowArenaFrameState" where
  "current i s \<equiv> ar_frameStates s ! i"

lemma beginTransaction_starts: "starts_at (beginTransaction n k fs) fs"
  by (simp add: starts_at_def beginTransaction_def)

lemma BeginBundle_cases:
  assumes "arena_ok s" and "ShadowArena_BeginBundle env requests s = (r, tx, s')"
  obtains (refused) "r = Inr False" "tx = tx_init" "ar_frameStates s' = ar_frameStates s" "arena_ok s'"
      "ar_currentFrameIndex s' = ar_currentFrameIndex s"
    | (run) rs i tx0 fs' s1 f where "requests = Some rs" "rs \<noteq> []" "length rs \<le> 4"
      "ShadowArena_IsInitialized s" "currentGeneration s = Some i"
      "parts_result 0 rs (others i s) (current i s)
        (beginTransaction (length rs) (ar_currentFrameIndex s) (current i s)) (current i s) s
        (r, tx0, fs', s1)"
      "s' = counted f (putFrame i fs' s1)" "tx = (if r = Inr True then endTransaction fs' tx0 else tx0)"
      "r = Inr True \<or> f = (\<lambda>c. c)"
proof -
  consider (no) "requests = None \<or> (\<exists>rs. requests = Some rs \<and> (\<not> ShadowArena_IsInitialized s \<or>
        rs = [] \<or> length rs > kShadowArenaBundleMaxParts))"
    | (none) "currentGeneration s = None" "\<exists>rs. requests = Some rs \<and> ShadowArena_IsInitialized s \<and>
        rs \<noteq> [] \<and> length rs \<le> kShadowArenaBundleMaxParts"
    | (some) rs i where "requests = Some rs" "ShadowArena_IsInitialized s" "rs \<noteq> []"
        "length rs \<le> kShadowArenaBundleMaxParts" "currentGeneration s = Some i"
    by atomize_elim (cases requests; cases "currentGeneration s"; auto simp: not_less)
  then show ?thesis
  proof cases
    case no
    then have "(r, tx, s') = (Inr False, tx_init, s)"
      using assms(2) by (auto simp: ShadowArena_BeginBundle_def)
    then show ?thesis using refused assms(1) by simp
  next
    case none
    then obtain f where "(r, tx, s') = (Inr False, tx_init, counted f s)"
      using assms(2) by (auto simp: ShadowArena_BeginBundle_def not_less)
    then show ?thesis
      using refused assms(1) by (simp add: arena_ok_def spills_ok_def)
  next
    case some
    note i = current_index(1) [OF some(5)]
    let ?tx = "beginTransaction (length rs) (ar_currentFrameIndex s) (current i s)"
    obtain r0 tx0 fs' s1 where p: "reserveParts env 0 rs ?tx (current i s) s = (r0, tx0, fs', s1)"
      by (cases "reserveParts env 0 rs ?tx (current i s) s")
    have fr: "frames_ok s (current i s # others i s)" by (rule arena_ok_split [OF assms(1) i])
    have "parts_result 0 rs (others i s) (current i s) ?tx (current i s) s
        (reserveParts env 0 rs ?tx (current i s) s)"
      using fr some(4) by (intro reserveParts_result beginTransaction_starts)
        (simp_all add: frames_ok_def beginTransaction_def tx_init_def kShadowArenaBundleMaxParts_def)
    then have parts: "parts_result 0 rs (others i s) (current i s) ?tx (current i s) s (r0, tx0, fs', s1)"
      by (simp only: p)
    have len: "length rs \<le> 4" using some(4) by (simp add: kShadowArenaBundleMaxParts_def)
    show ?thesis
    proof (cases "r0 = Inr True")
      case True
      then have "(r, tx, s') = (Inr True, endTransaction fs' tx0,
          counted (\<lambda>c. c\<lparr>ac_reservedBytes := ac_reservedBytes c + tx_requestedBytes tx0\<rparr>)
            (putFrame i fs' s1))"
        using assms(2) some p by (simp add: ShadowArena_BeginBundle_def)
      then show ?thesis using run [OF some(1,3) len some(2,5)] parts True by simp
    next
      case False
      then have "(r, tx, s') = (r0, tx0, putFrame i fs' s1)"
        using assms(2) some p
        by (cases r0) (auto simp: ShadowArena_BeginBundle_def split: bool.splits)
      then show ?thesis
        using run [OF some(1,3) len some(2,5), of tx0 fs' s1 "\<lambda>c. c"] parts False by simp
    qed
  qed
qed

lemma parts_arena_ok:
  assumes "arena_ok s" and "i < length (ar_frameStates s)"
    and "frames_ok s1 (fs' # others i s)" and "same_arena s s1" and "extends (current i s) fs'"
  shows "arena_ok (counted f (putFrame i fs' s1))"
proof (rule arena_ok_update [OF assms(1,2)])
  have p: "pages_ok (ar_arenaPageSize s) (ar_arenaMaxFrameSize s) (current i s)"
    using arena_ok_frame [OF assms(1) nth_mem [OF assms(2)]] by (simp add: frame_ok_def)
  have p': "pages_ok (ar_arenaPageSize s1) (ar_arenaMaxFrameSize s1) fs'"
    using assms(3) by (simp add: frames_ok_def frame_ok_def)
  have "unat (af_totalCapacity (current i s)) \<le> unat (af_totalCapacity fs')"
    using p p' assms(5) by (auto simp: pages_ok_def extends_def)
  then show "min (ar_arenaPageSize s) (af_totalCapacity (current i s)) \<le> af_totalCapacity fs'"
    by (simp add: word_le_nat_alt unat_min)
qed (use assms(3,4) in \<open>simp_all add: same_arena_def\<close>)

lemma BeginBundle_ok:
  assumes "arena_ok s" and "ShadowArena_BeginBundle env requests s = (r, tx, s')"
  shows "arena_ok s'"
  using assms
proof (cases rule: BeginBundle_cases)
  case (run rs i tx0 fs' s1 f)
  then show ?thesis
    using parts_arena_ok [OF assms(1) current_index(1) [OF run(5)]]
    by (simp add: parts_result_def)
qed

text \<open>Ending a transaction right where it began: the owner is exact, so it commits or restores.\<close>

definition end_here :: "nat \<Rightarrow> ShadowArenaBundleTransaction \<Rightarrow> ArenaState \<Rightarrow> bool" where
  "end_here i tx s \<longleftrightarrow>
     tx_active tx \<and> currentGeneration s = Some i \<and> unat (tx_generationIndex tx) = i \<and> exactOwner tx s"

lemma BeginBundle_end_here:
  assumes "arena_ok s" and "ShadowArena_BeginBundle env requests s = (Inr True, tx, s')"
    and "currentGeneration s = Some i"
  shows "end_here i tx s'"
  using assms(1,2)
proof (cases rule: BeginBundle_cases)
  case (run rs k tx0 fs' s1 f)
  have k: "k = i" using run(5) assms(3) by simp
  note ci = current_index [OF assms(3)]
  have p: "tx_generationIndex tx0 = ar_currentFrameIndex s" "tx_generation tx0 = af_generation (current i s)"
      "tx_active tx0" "same_arena s s1" "extends (current i s) fs'"
    using run(6) by (simp_all add: parts_result_def beginTransaction_def k)
  then show ?thesis
    using ci run(7,8) assms(3)
    by (auto simp: end_here_def exactOwner_def endTransaction_def k same_arena_def extends_def
        currentGeneration_def Let_def split: if_splits)
qed simp

lemma CommitBundle_here:
  assumes "end_here i tx s"
  obtains f where "ShadowArena_CommitBundle tx s = (True, tx\<lparr>tx_active := False\<rparr>, counted f s)"
  using assms by (auto simp: ShadowArena_CommitBundle_def end_here_def dest: current_index)

lemma RollbackBundle_here:
  assumes "end_here i tx s"
  obtains f where "ShadowArena_RollbackBundle tx s =
    (True, tx\<lparr>tx_active := False\<rparr>, counted f (putFrame i (restoreCursor tx (current i s)) s))"
proof
  let ?fs = "restoreCursor tx (current i s)"
  let ?f = "\<lambda>c. c\<lparr>ac_currentUsedBytes := frameUsed ?fs,
    ac_rolledBackBytes := ac_rolledBackBytes c + tx_requestedBytes tx\<rparr>"
  show "ShadowArena_RollbackBundle tx s = (True, tx\<lparr>tx_active := False\<rparr>, counted ?f (putFrame i ?fs s))"
    using assms by (auto simp: ShadowArena_RollbackBundle_def end_here_def Let_def rollBackBytes_def
        UpdateCurrentUsedBytes_def dest: current_index)
qed

subsection \<open>Trimming and taking a generation\<close>

definition trimmed ::
  "ShadowArenaFrameState \<Rightarrow> u64 \<Rightarrow> ShadowArenaFrameState \<Rightarrow> u64 \<Rightarrow> bool" where
  "trimmed fs resident fs' resident' \<longleftrightarrow>
     (\<exists>n t. n \<le> length (af_pages fs) \<and>
        fs' = fs\<lparr>af_pages := take n (af_pages fs), af_totalCapacity := t\<rparr>) \<and>
     unat resident' + unat (af_totalCapacity fs) = unat resident + unat (af_totalCapacity fs') \<and>
     unat (af_totalCapacity fs') \<le> unat (af_totalCapacity fs)"

lemma pages_ok_back:
  assumes "pages_ok pageSize maxFrame fs" and "af_pages fs \<noteq> []"
  defines "b \<equiv> ap_capacity (last (af_pages fs))"
  shows "unat b \<le> unat (af_totalCapacity fs)" and "0 < unat b" and "unat b \<le> unat pageSize"
    and "pages_ok pageSize maxFrame (fs\<lparr>af_pages := butlast (af_pages fs),
      af_totalCapacity := af_totalCapacity fs - b\<rparr>)"
    and "unat (af_totalCapacity fs - b) = unat (af_totalCapacity fs) - unat b"
proof -
  have split: "af_pages fs = butlast (af_pages fs) @ [last (af_pages fs)]" using assms(2) by simp
  have sum: "unat (af_totalCapacity fs) = sum_list (map page_bytes (butlast (af_pages fs))) + unat b"
    using assms(1) unfolding pages_ok_def b_def by (subst (asm) split) simp
  then show le: "unat b \<le> unat (af_totalCapacity fs)" by simp
  have "last (af_pages fs) \<in> set (af_pages fs)" using assms(2) by simp
  then show "0 < unat b" "unat b \<le> unat pageSize"
    using assms(1) by (auto simp: pages_ok_def b_def word_less_nat_alt word_le_nat_alt)
  show sub: "unat (af_totalCapacity fs - b) = unat (af_totalCapacity fs) - unat b"
    using le by (simp add: unat_sub_if')
  show "pages_ok pageSize maxFrame (fs\<lparr>af_pages := butlast (af_pages fs),
      af_totalCapacity := af_totalCapacity fs - b\<rparr>)"
    using assms(1) sub sum by (auto simp: pages_ok_def word_le_nat_alt dest: in_set_butlastD)
qed

lemma trimPages_ok:
  assumes "trimPages keep fs resident = (fs', resident')" and "pages_ok pageSize maxFrame fs"
    and "unat (af_totalCapacity fs) \<le> unat resident"
  shows "trimmed fs resident fs' resident'" and "pages_ok pageSize maxFrame fs'"
    and "unat keep \<le> unat (af_totalCapacity fs) \<Longrightarrow> unat keep \<le> unat (af_totalCapacity fs')"
proof -
  have "trimmed fs resident fs' resident' \<and> pages_ok pageSize maxFrame fs' \<and>
    (unat keep \<le> unat (af_totalCapacity fs) \<longrightarrow> unat keep \<le> unat (af_totalCapacity fs'))"
    using assms
  proof (induction keep fs resident rule: trimPages.induct)
    case (1 keep fs resident)
    let ?b = "ap_capacity (last (af_pages fs))"
    show ?case
    proof (cases "af_pages fs \<noteq> [] \<and> ucast (af_totalCapacity fs - ?b) \<ge> keep")
      case True
      let ?fs = "fs\<lparr>af_pages := butlast (af_pages fs), af_totalCapacity := af_totalCapacity fs - ?b\<rparr>"
      let ?resident = "resident - ucast ?b"
      note b = pages_ok_back [OF 1(3) conjunct1 [OF True]]
      have res: "unat ?resident = unat resident - unat ?b"
        using b(1) 1(4) by (simp add: unat_sub_if')
      have "trimPages keep ?fs ?resident = (fs', resident')"
        using 1(2) True by (subst (asm) trimPages.simps) (simp add: Let_def)
      then have IH: "trimmed ?fs ?resident fs' resident'" "pages_ok pageSize maxFrame fs'"
          "unat keep \<le> unat (af_totalCapacity ?fs) \<longrightarrow> unat keep \<le> unat (af_totalCapacity fs')"
        using 1(1) [OF True refl _ b(4)] b(5) 1(4) res by simp_all
      obtain n t where n: "n \<le> length (af_pages ?fs)"
          "fs' = ?fs\<lparr>af_pages := take n (af_pages ?fs), af_totalCapacity := t\<rparr>"
        using IH(1) by (auto simp: trimmed_def)
      have "n \<le> length (af_pages fs) - 1" using n(1) by simp
      moreover have "length (af_pages fs) \<noteq> 0" using True by simp
      ultimately have lt: "n < length (af_pages fs)" by linarith
      have "n \<le> length (af_pages fs) \<and>
          fs' = fs\<lparr>af_pages := take n (af_pages fs), af_totalCapacity := t\<rparr>"
        using n(2) lt by (simp add: take_butlast)
      moreover have "unat resident' + unat (af_totalCapacity fs) =
          unat resident + unat (af_totalCapacity fs') \<and>
          unat (af_totalCapacity fs') \<le> unat (af_totalCapacity fs)"
        using IH(1) b(1,5) res 1(4) by (auto simp: trimmed_def)
      moreover have "unat keep \<le> unat (af_totalCapacity ?fs)"
        using True by (simp add: word_le_nat_alt)
      ultimately show ?thesis using IH(2,3) unfolding trimmed_def by blast
    next
      case False
      then have "fs' = fs" "resident' = resident"
        using 1(2) by (subst (asm) trimPages.simps, auto)+
      moreover have "fs = fs\<lparr>af_pages := take (length (af_pages fs)) (af_pages fs),
          af_totalCapacity := af_totalCapacity fs\<rparr>" by simp
      ultimately show ?thesis using 1(3) unfolding trimmed_def by (metis order_refl)
    qed
  qed
  then show "trimmed fs resident fs' resident'" and "pages_ok pageSize maxFrame fs'"
    and "unat keep \<le> unat (af_totalCapacity fs) \<Longrightarrow> unat keep \<le> unat (af_totalCapacity fs')"
    by simp_all
qed

lemma frames_ok_shrink:
  assumes "frames_ok s (fs # rest)" and "trimmed fs (ar_residentBytes s) fs1 resident'"
    and "frame_ok (ar_arenaPageSize s) (ar_arenaMaxFrameSize s) fs'"
    and "af_pages fs' = af_pages fs1" and "af_totalCapacity fs' = af_totalCapacity fs1"
  shows "frames_ok (s\<lparr>ar_residentBytes := resident'\<rparr>) (fs' # rest)"
proof -
  obtain n where n: "af_pages fs' = take n (af_pages fs)"
    using assms(2,4) by (auto simp: trimmed_def)
  then have st: "storages fs' = take n (storages fs)" by (simp add: storages_def take_map)
  have cfg: "arena_cfg (s\<lparr>ar_residentBytes := resident'\<rparr>) = arena_cfg s" by (simp add: arena_cfg_def)
  let ?old = "concat (map storages (fs # rest))" and ?new = "concat (map storages (fs' # rest))"
  have sub: "set ?new \<subseteq> set ?old" using set_take_subset [of n "storages fs"] by (auto simp: st)
  have "distinct ?old" "\<forall>x \<in> set ?old. x < ar_attempts s"
    using assms(1) unfolding frames_ok_def by blast+
  then have "distinct ?new" "\<forall>x \<in> set ?new. x < ar_attempts s"
    using sub set_take_subset [of n "storages fs"] by (auto simp: st)
  moreover have "unat resident' = sum_list (map (unat \<circ> af_totalCapacity) (fs' # rest))"
      "unat resident' \<le> unat (ar_residentBytes s)"
    using assms(1,2,5) by (auto simp: frames_ok_def trimmed_def)
  ultimately show ?thesis
    using assms(1,3) cfg unfolding frames_ok_def
    by (simp del: set_concat distinct.simps concat.simps set_append)
qed

text \<open>What the trim history may decide: at most a page less, and never below the demand plus a page.\<close>

lemma trim_target_result:
  assumes "ArenaTrimHistory_target h f used c p pressure = (t, h')" and "p \<noteq> 0"
    and "unat used + 2 * unat p < 2 ^ 64" and "unat (trim_peak h) + 2 * unat p < 2 ^ 64"
  shows "unat t \<le> unat c" and "unat c \<le> unat t + unat p" and "min (unat c) (unat used + unat p) \<le> unat t"
    and "unat (trim_peak h') \<le> max (unat (trim_peak h)) (unat used)"
proof -
  define d where "d = (if pressure then used else max (trim_peak h) used)"
  have d: "unat d + 2 * unat p < 2 ^ 64" using assms(3,4) by (auto simp: d_def unat_max max_def)
  note b = trim_target_bounds [OF assms(2) d, of c]
  let ?keep = "min c ((d div p + (if d mod p \<noteq> 0 then 1 else 0) + 1) * p)"
  let ?start = "if trim_windowStart h = 0 \<or> f < trim_windowStart h then f else trim_windowStart h"
  let ?peak = "max (trim_peak h) used"
  let ?t = "if ?keep < c then max ?keep (c - p) else c"
  let ?h = "if f - ?start \<ge> 120 then \<lparr>trim_windowStart = f, trim_peak = 0\<rparr>
    else \<lparr>trim_windowStart = ?start, trim_peak = ?peak\<rparr>"
  have def: "ArenaTrimHistory_target h f used c p pressure =
      (if \<not> pressure \<and> f - ?start < 120 then (c, \<lparr>trim_windowStart = ?start, trim_peak = ?peak\<rparr>)
       else (?t, ?h))"
    unfolding ArenaTrimHistory_target_def Let_def d_def by (rule refl)
  have pair_if: "x = u \<and> y = v \<or> x = u' \<and> y = v'"
    if "(if C then (u, v) else (u', v')) = (x, y)" for C and x u u' :: u64 and y v v' :: ArenaTrimHistory
    using that by (simp split: if_splits)
  from pair_if [OF assms(1) [unfolded def]]
  have t: "t = c \<or> t = ?t"
    and h: "h' = \<lparr>trim_windowStart = ?start, trim_peak = ?peak\<rparr> \<or> h' = ?h"
    by blast+
  have "unat used + unat p \<le> unat d + unat p" by (simp add: d_def unat_max)
  note m = order_trans [OF min.mono [OF order_refl this] b(4)]
  from t show "unat t \<le> unat c"
    by (rule disjE) (use b(1) in \<open>simp_all only: order_refl\<close>)
  from t show "unat c \<le> unat t + unat p"
    by (rule disjE) (use b(2) in \<open>simp_all only: le_add1\<close>)
  from t show "min (unat c) (unat used + unat p) \<le> unat t"
    by (rule disjE) (use m in \<open>simp_all only: min.cobounded1\<close>)
  have "trim_peak h' = ?peak \<or> trim_peak h' = 0"
    using h
  proof
    assume "h' = ?h"
    then show ?thesis
      by (cases "f - ?start \<ge> 120") (simp_all only: if_True if_False ArenaTrimHistory.select_convs simp_thms)
  qed (simp only: ArenaTrimHistory.select_convs simp_thms)
  then show "unat (trim_peak h') \<le> max (unat (trim_peak h)) (unat used)"
    by (auto simp: unat_max)
qed

text \<open>
  A generation taken for a frame: its pages are a prefix of what it had, holding at least
  what its last frame used, one page less at most; its cursor is at zero and no other
  generation is touched.
\<close>

definition opened ::
  "u64 \<Rightarrow> nat \<Rightarrow> ArenaState \<Rightarrow> ArenaState \<Rightarrow> bool" where
  "opened frameSerial i s s' \<longleftrightarrow>
     (\<exists>fs'. ar_frameStates s' = (ar_frameStates s)[i := fs'] \<and>
        (\<exists>n \<le> length (af_pages (current i s)). af_pages fs' = take n (af_pages (current i s))) \<and>
        min (unat (af_totalCapacity (current i s))) (lin_pos (current i s)) \<le> unat (af_totalCapacity fs') \<and>
        unat (af_totalCapacity (current i s)) \<le> unat (af_totalCapacity fs') + unat (ar_arenaPageSize s) \<and>
        lin_pos fs' = 0 \<and> af_retireSerial fs' = 0 \<and> af_frameSerial fs' = frameSerial \<and>
        af_generation fs' = ac_generationCounter (ar_counters s) + 1) \<and>
     ac_generationCounter (ar_counters s') = ac_generationCounter (ar_counters s) + 1 \<and>
     currentGeneration s' = Some i"

lemma frameUsed_unat: "unat (frameUsed fs) = lin_pos fs"
proof -
  have "unat (af_committedBytes fs) < 4294967296" "unat (af_currentOffset fs) < 4294967296" by simp_all
  then have "unat (af_committedBytes fs) + unat (af_currentOffset fs) < 18446744073709551616"
    by linarith
  then show ?thesis
    by (simp add: frameUsed_def lin_pos_def unat_plus_if')
qed

lemma lin_pos_le:
  assumes "frame_ok pageSize maxFrame fs"
  shows "lin_pos fs \<le> unat (af_totalCapacity fs)"
proof -
  let ?i = "unat (af_currentPage fs)"
  have p: "pages_ok pageSize maxFrame fs" and c: "cursor_ok fs" using assms by (simp_all add: frame_ok_def)
  have "lin_pos fs \<le> bytes_before (Suc ?i) (af_pages fs)"
    using c bytes_before_mono [of ?i "Suc ?i" "af_pages fs"]
    by (auto simp: cursor_ok_def lin_pos_def page_room_def bytes_before_Suc split: if_splits)
  then show ?thesis using pages_ok_bytes_before [OF p, of "Suc ?i"] by linarith
qed

lemma openGeneration_ok:
  assumes "arena_ok s" and "i < length (ar_frameStates s)"
  shows "arena_ok (openGeneration frameSerial completedSerial i s)"
    and "opened frameSerial i s (openGeneration frameSerial completedSerial i s)"
proof -
  let ?s' = "openGeneration frameSerial completedSerial i s"
  define fs where "fs = current i s"
  define trim where "trim \<longleftrightarrow> af_retireSerial fs \<noteq> 0 \<and>
    ShadowArenaGenerationCanBeReused (af_retireSerial fs) completedSerial"
  define pressure where "pressure \<longleftrightarrow> ar_residentBytes s > ab_residentLimitBytes (ar_budget s)"
  let ?page = "ucast (ar_arenaPageSize s) :: u64" and ?total = "ucast (af_totalCapacity fs) :: u64"
  obtain keep history where kh: "(if trim then ArenaTrimHistory_target (af_trimHistory fs) frameSerial
      (frameUsed fs) ?total ?page pressure else (?total, af_trimHistory fs)) = (keep, history)"
    by (cases "if trim then ArenaTrimHistory_target (af_trimHistory fs) frameSerial
      (frameUsed fs) ?total ?page pressure else (?total, af_trimHistory fs)")
  obtain fs1 resident where tr: "trimPages keep (fs\<lparr>af_trimHistory := history\<rparr>) (ar_residentBytes s)
      = (fs1, resident)"
    by (cases "trimPages keep (fs\<lparr>af_trimHistory := history\<rparr>) (ar_residentBytes s)")
  define fs' where "fs' = fs1\<lparr>af_currentPage := 0, af_currentOffset := 0, af_committedBytes := 0,
    af_pageTailWasteBytes := 0, af_frameSerial := frameSerial, af_retireSerial := 0,
    af_generation := ac_generationCounter (ar_counters s) + 1\<rparr>"
  have "\<exists>f. ?s' = counted f (putFrame i fs'
      (s\<lparr>ar_currentFrameIndex := of_nat i, ar_residentBytes := resident\<rparr>)) \<and>
      (\<forall>c. ac_generationCounter (f c) = ac_generationCounter (ar_counters s) + 1)"
    unfolding openGeneration_def Let_def fs_def [symmetric] trim_def [symmetric]
      pressure_def [symmetric] kh prod.case tr fs'_def [symmetric]
    by (rule exI, rule conjI, rule refl) simp
  then obtain f where s': "?s' = counted f (putFrame i fs'
      (s\<lparr>ar_currentFrameIndex := of_nat i, ar_residentBytes := resident\<rparr>))"
    and gen: "\<And>c. ac_generationCounter (f c) = ac_generationCounter (ar_counters s) + 1"
    by blast
  have fr: "frames_ok s (fs # others i s)"
    unfolding fs_def by (rule arena_ok_split [OF assms])
  then have ok: "frame_ok (ar_arenaPageSize s) (ar_arenaMaxFrameSize s) fs" "arena_cfg s"
    by (simp_all add: frames_ok_def)
  have page: "unat (ar_arenaPageSize s) = 67108864" "unat (ar_arenaMaxFrameSize s) \<le> 402653184"
    using ok(2) by (simp_all add: arena_cfg_def kCaptureArenaPageSize_def kCaptureArenaMaxFrameSize_def
        word_le_nat_alt)
  have used: "lin_pos fs \<le> unat (af_totalCapacity fs)" by (rule lin_pos_le [OF ok(1)])
  have total: "unat (af_totalCapacity fs) \<le> unat (ar_arenaMaxFrameSize s)"
    using ok(1) by (simp add: frame_ok_def pages_ok_def word_le_nat_alt)
  have peak: "unat (trim_peak (af_trimHistory fs)) \<le> unat (ar_arenaMaxFrameSize s)"
    using ok(1) by (simp add: frame_ok_def)
  have keep: "unat keep \<le> unat (af_totalCapacity fs)"
      "unat (af_totalCapacity fs) \<le> unat keep + unat (ar_arenaPageSize s)"
      "min (unat (af_totalCapacity fs)) (lin_pos fs + unat (ar_arenaPageSize s)) \<le> unat keep"
      "unat (trim_peak history) \<le> unat (ar_arenaMaxFrameSize s)"
  proof -
    have "unat keep \<le> unat (af_totalCapacity fs) \<and>
      unat (af_totalCapacity fs) \<le> unat keep + unat (ar_arenaPageSize s) \<and>
      min (unat (af_totalCapacity fs)) (lin_pos fs + unat (ar_arenaPageSize s)) \<le> unat keep \<and>
      unat (trim_peak history) \<le> unat (ar_arenaMaxFrameSize s)"
    proof (cases trim)
      case True
      have t: "ArenaTrimHistory_target (af_trimHistory fs) frameSerial
          (frameUsed fs) ?total ?page pressure = (keep, history)" using kh True by simp
      have "?page \<noteq> 0" using page(1) by (simp add: unat_eq_iff)
      moreover have "unat (frameUsed fs) + 2 * unat ?page < 2 ^ 64"
          "unat (trim_peak (af_trimHistory fs)) + 2 * unat ?page < 2 ^ 64"
        using used total peak page by (simp_all add: frameUsed_unat)
      ultimately show ?thesis
        using trim_target_result [OF t] used total peak by (auto simp: frameUsed_unat)
    next
      case False
      then show ?thesis using kh peak by auto
    qed
    then show "unat keep \<le> unat (af_totalCapacity fs)"
      "unat (af_totalCapacity fs) \<le> unat keep + unat (ar_arenaPageSize s)"
      "min (unat (af_totalCapacity fs)) (lin_pos fs + unat (ar_arenaPageSize s)) \<le> unat keep"
      "unat (trim_peak history) \<le> unat (ar_arenaMaxFrameSize s)" by blast+
  qed
  have po: "pages_ok (ar_arenaPageSize s) (ar_arenaMaxFrameSize s) (fs\<lparr>af_trimHistory := history\<rparr>)"
    using ok(1) by (simp add: frame_ok_def pages_ok_def)
  have res: "unat (af_totalCapacity (fs\<lparr>af_trimHistory := history\<rparr>)) \<le> unat (ar_residentBytes s)"
    using fr by (simp add: frames_ok_def)
  note t = trimPages_ok [OF tr po res]
  obtain n u where n: "n \<le> length (af_pages fs)"
      "fs1 = fs\<lparr>af_trimHistory := history, af_pages := take n (af_pages fs), af_totalCapacity := u\<rparr>"
    using t(1) by (auto simp: trimmed_def)
  have fo: "frame_ok (ar_arenaPageSize s) (ar_arenaMaxFrameSize s) fs'"
    using t(2) keep(4)
    by (simp add: frame_ok_def pages_ok_def cursor_ok_def bytes_before_def page_room_def fs'_def n(2))
  have trd: "trimmed fs (ar_residentBytes s) (fs\<lparr>af_pages := af_pages fs1,
      af_totalCapacity := af_totalCapacity fs1\<rparr>) resident"
    using t(1) n by (auto simp: trimmed_def)
  have "frames_ok (s\<lparr>ar_residentBytes := resident\<rparr>) (fs' # others i s)"
    by (rule frames_ok_shrink [OF fr trd fo]) (simp_all add: fs'_def)
  then have fr': "frames_ok ?s' (fs' # others i s)"
    by (rule frames_ok_cong [THEN iffD1, rotated -1]) (simp_all add: s')
  have keep': "unat keep \<le> unat (af_totalCapacity fs')"
    using t(3) keep(1) by (simp add: fs'_def)
  show ok': "arena_ok ?s'"
  proof (rule arena_ok_update [OF assms _ fr'])
    show "min (ar_arenaPageSize s) (af_totalCapacity (current i s)) \<le> af_totalCapacity fs'"
      using keep(3) keep' by (auto simp: word_le_nat_alt unat_min fs_def [symmetric])
  qed (simp_all add: s')
  have "unat (of_nat i :: u32) = i"
    using frames_few(2) [OF assms(1)] assms(2) by (simp add: unat_of_nat)
  then have "currentGeneration ?s' = Some i"
    using assms(2) by (simp add: s' currentGeneration_def Let_def)
  moreover have "\<exists>n \<le> length (af_pages (current i s)). af_pages fs' = take n (af_pages (current i s))"
    using n by (intro exI [of _ n]) (simp add: fs'_def fs_def)
  ultimately show "opened frameSerial i s ?s'"
    unfolding opened_def using keep keep' used gen
    by (intro conjI exI [of _ fs'])
      (auto simp: s' fs'_def lin_pos_def fs_def)
qed

subsection \<open>Frames\<close>

lemma arena_ok_cong:
  assumes "ar_frameStates s' = ar_frameStates s" and "ar_ownerDevice s' = ar_ownerDevice s"
    and "ar_arenaPageSize s' = ar_arenaPageSize s" and "ar_arenaMaxFrameSize s' = ar_arenaMaxFrameSize s"
    and "ar_arenaFrameCount s' = ar_arenaFrameCount s" and "ar_residentBytes s' = ar_residentBytes s"
    and "ar_attempts s' = ar_attempts s"
  shows "arena_ok s' = arena_ok s"
  unfolding arena_ok_def spills_ok_def frames_ok_cong [OF assms(3-7)] assms(1,2,3,5) ..

lemma firstReusable_some:
  "firstReusable c k fss = Some i \<Longrightarrow> k \<le> i \<and> i < k + length fss \<and> af_retireSerial (fss ! (i - k)) \<le> c"
proof (induction fss arbitrary: k)
  case (Cons fs fss)
  show ?case
  proof (cases "ShadowArenaGenerationCanBeReused (af_retireSerial fs) c")
    case True
    then show ?thesis using Cons.prems by (simp add: ShadowArenaGenerationCanBeReused_def)
  next
    case False
    then have "k + 1 \<le> i \<and> i < k + 1 + length fss \<and> af_retireSerial (fss ! (i - (k + 1))) \<le> c"
      using Cons.IH [of "k + 1"] Cons.prems by simp
    moreover from this have "i - k = Suc (i - (k + 1))" by linarith
    ultimately show ?thesis by simp
  qed
qed simp

lemma firstReusable_none:
  "firstReusable c k fss = None \<Longrightarrow> fs \<in> set fss \<Longrightarrow> c < af_retireSerial fs"
  by (induction fss arbitrary: k)
    (auto simp: ShadowArenaGenerationCanBeReused_def not_le split: if_splits)

lemma selectGeneration_cases:
  shows "selectGeneration f c s = Some i \<Longrightarrow>
      i < length (ar_frameStates s) \<and> af_retireSerial (current i s) \<le> c"
    and "selectGeneration f c s = None \<Longrightarrow> fs \<in> set (ar_frameStates s) \<Longrightarrow> c < af_retireSerial fs"
  by (auto simp: selectGeneration_def Let_def ShadowArenaGenerationCanBeReused_def
      split: if_splits dest: firstReusable_some firstReusable_none)

lemma startFrame_fields:
  "ar_frameStates (startFrame m f c s) = ar_frameStates s"
  "ar_ownerDevice (startFrame m f c s) = ar_ownerDevice s"
  "ac_generationCounter (ar_counters (startFrame m f c s)) = ac_generationCounter (ar_counters s)"
  "arena_ok (startFrame m f c s) = arena_ok s"
  "ar_arenaPageSize (startFrame m f c s) = ar_arenaPageSize s"
proof -
  let ?t = "counted (\<lambda>c'. c'\<lparr>ac_frameOverflowCount := 0,
    ac_lastOverflowCapacityBytes :=
      (if ac_frameOverflowCount c' > 0 then 0 else ac_lastOverflowCapacityBytes c'),
    ac_lastCompletedSerial := c, ac_frameIncomplete := 0, ac_currentUsedBytes := 0\<rparr>)
    (s\<lparr>ar_allocationFrameSerial := f\<rparr>)"
  have t: "startFrame m f c s = ?t \<or> startFrame m f c s = RefreshArenaMemoryBudget m f ?t"
    by (simp add: startFrame_def Let_def)
  note refresh = refresh_same(1) [of ?t m f, unfolded same_arena_def]
  show "ar_frameStates (startFrame m f c s) = ar_frameStates s"
    "ar_ownerDevice (startFrame m f c s) = ar_ownerDevice s"
    "ac_generationCounter (ar_counters (startFrame m f c s)) = ac_generationCounter (ar_counters s)"
    "ar_arenaPageSize (startFrame m f c s) = ar_arenaPageSize s"
    using t refresh by auto
  show "arena_ok (startFrame m f c s) = arena_ok s"
    using t
  proof
    assume "startFrame m f c s = ?t"
    then show ?thesis by (intro arena_ok_cong) simp_all
  next
    assume eq: "startFrame m f c s = RefreshArenaMemoryBudget m f ?t"
    show ?thesis unfolding eq by (intro arena_ok_cong) (simp_all add: refresh)
  qed
qed

lemma frame_init_ok: "arena_cfg s \<Longrightarrow> frame_ok (ar_arenaPageSize s) (ar_arenaMaxFrameSize s) frame_init"
  by (simp add: frame_ok_def pages_ok_def cursor_ok_def frame_init_def bytes_before_def page_room_def
      trim_init_def)

lemma spill_ok:
  assumes "arena_ok s" and "ar_ownerDevice s \<noteq> None"
    and "AllocateArenaPage env frame_init (ar_arenaPageSize s) s = (r, spill, s')"
  shows "r \<noteq> Inr True \<Longrightarrow> arena_ok s'"
    and "r = Inr True \<Longrightarrow> arena_ok (s'\<lparr>ar_frameStates := ar_frameStates s' @ [spill]\<rparr>)"
    and "same_arena s s'" and "lin_pos spill = 0"
proof -
  have cfg: "arena_cfg s" using assms(1) by (simp add: arena_ok_def frames_ok_def)
  have "frames_ok s (frame_init # ar_frameStates s)"
    using assms(1) frame_init_ok [OF cfg]
    by (simp add: arena_ok_def frames_ok_def frame_init_def storages_def)
  note a = AllocateArenaPage_ok [OF assms(3) this]
  show same: "same_arena s s'" by (rule a(2))
  have fss: "ar_frameStates s' = ar_frameStates s" "ar_arenaPageSize s' = ar_arenaPageSize s"
      "ar_arenaFrameCount s' = ar_arenaFrameCount s" "ar_ownerDevice s' = ar_ownerDevice s"
    using same by (simp_all add: same_arena_def)
  have kept: "arena_ok s'" if "page_kept r frame_init spill s s'"
    using that assms(1) fss by (auto simp: page_kept_def arena_ok_def spills_ok_def intro: frames_ok_mono)
  show "r \<noteq> Inr True \<Longrightarrow> arena_ok s'"
    using AllocateArenaPage_cases [OF assms(3)] kept by auto
  show "lin_pos spill = 0"
    using AllocateArenaPage_cases [OF assms(3)]
    by (auto simp: page_kept_def page_added_def addPage_def lin_pos_def frame_init_def)
  assume "r = Inr True"
  then have "spill = addPage (ar_attempts s)
      (min (ar_arenaPageSize s) (ar_arenaMaxFrameSize s - af_totalCapacity frame_init)) frame_init"
    using AllocateArenaPage_cases [OF assms(3)] by (auto simp: page_kept_def page_added_def)
  then have total: "af_totalCapacity spill = ar_arenaPageSize s"
    using cfg by (simp add: addPage_def frame_init_def arena_cfg_def min_def)
  show "arena_ok (s'\<lparr>ar_frameStates := ar_frameStates s' @ [spill]\<rparr>)"
    using assms(1,2) a(1) fss total frames_ok_perm [of s' "ar_frameStates s" spill "[]"]
    by (auto simp: arena_ok_def spills_ok_def drop_append dest: in_set_dropD)
qed

lemma BeginFrame_cases:
  assumes "arena_ok s" and "ShadowArena_BeginFrame env m f c s = (r, s')"
  obtains (idle) "r \<in> {Inr False, Inl DeviceLost}" "ar_frameStates s' = ar_frameStates s" "arena_ok s'"
      "ShadowArena_IsInitialized s \<Longrightarrow> \<forall>fs \<in> set (ar_frameStates s). c < af_retireSerial fs"
    | (reused) i s1 where "r = Inr True" "i < length (ar_frameStates s)"
      "af_retireSerial (current i s) \<le> c" "ar_frameStates s1 = ar_frameStates s"
      "ac_generationCounter (ar_counters s1) = ac_generationCounter (ar_counters s)"
      "opened f i s1 s'" "arena_ok s'" "ar_arenaPageSize s1 = ar_arenaPageSize s"
    | (spilled) spill s1 where "r = Inr True" "\<forall>fs \<in> set (ar_frameStates s). c < af_retireSerial fs"
      "ar_frameStates s1 = ar_frameStates s @ [spill]" "lin_pos spill = 0"
      "ac_generationCounter (ar_counters s1) = ac_generationCounter (ar_counters s)"
      "opened f (length (ar_frameStates s)) s1 s'" "arena_ok s'"
proof (cases "ShadowArena_IsInitialized s")
  case False
  then have "r = Inr False \<and> s' = s" using assms(2) by (simp add: ShadowArena_BeginFrame_def)
  then show ?thesis using idle False assms(1) by simp
next
  case True
  define t where "t = startFrame m f c s"
  note t = startFrame_fields [of m f c s, folded t_def]
  have ok: "arena_ok t" using t(4) assms(1) by simp
  show ?thesis
  proof (cases "selectGeneration f c t")
    case (Some i)
    then have "r = Inr True" "s' = openGeneration f c i t"
      using assms(2) True by (simp_all add: ShadowArena_BeginFrame_def t_def)
    then show ?thesis
      using reused [of i t] selectGeneration_cases(1) [OF Some] openGeneration_ok [OF ok] t by simp
  next
    case None
    obtain r0 spill u where a: "AllocateArenaPage env frame_init (ar_arenaPageSize t) t = (r0, spill, u)"
      by (cases "AllocateArenaPage env frame_init (ar_arenaPageSize t) t")
    have owner: "ar_ownerDevice t \<noteq> None" using True t(2) by (simp add: ShadowArena_IsInitialized_def)
    note sp = spill_ok [OF ok owner a]
    have busy: "\<forall>fs \<in> set (ar_frameStates s). c < af_retireSerial fs"
      using selectGeneration_cases(2) [OF None] t(1) by simp
    have u: "ar_frameStates u = ar_frameStates s"
        "ac_generationCounter (ar_counters u) = ac_generationCounter (ar_counters s)"
      using sp(3) t by (simp_all add: same_arena_def)
    from AllocateArenaPage_cases [OF a]
    consider (lost) "r0 = Inl DeviceLost" | (full) "r0 = Inr False" | (grown) "r0 = Inr True"
      by (auto simp: page_kept_def)
    then show ?thesis
    proof cases
      case lost
      then have "r = Inl DeviceLost" "s' = u"
        using assms(2) True None a by (simp_all add: ShadowArena_BeginFrame_def t_def [symmetric])
      then show ?thesis using idle sp(1) lost u busy by simp
    next
      case full
      then have "r = Inr False" "s' = noGeneration c u"
        using assms(2) True None a by (simp_all add: ShadowArena_BeginFrame_def t_def [symmetric])
      then show ?thesis
        using idle sp(1) full u busy arena_ok_cong [of "noGeneration c u" u]
        by (simp add: noGeneration_def)
    next
      case grown
      let ?u = "u\<lparr>ar_frameStates := ar_frameStates u @ [spill]\<rparr>"
      have "r = Inr True" "s' = openGeneration f c (length (ar_frameStates u)) ?u"
        using assms(2) True None a grown by (simp_all add: ShadowArena_BeginFrame_def t_def [symmetric])
      then show ?thesis
        using spilled [of ?u spill] busy sp(4) u openGeneration_ok [OF sp(2) [OF grown], of "length (ar_frameStates u)"]
        by simp
    qed
  qed
qed

subsection \<open>The other operations keep the invariant\<close>

lemma arena_ok_same_pages:
  assumes "arena_ok s" and "i < length (ar_frameStates s)"
    and "frame_ok (ar_arenaPageSize s) (ar_arenaMaxFrameSize s) fs'"
    and "af_pages fs' = af_pages (current i s)" and "af_totalCapacity fs' = af_totalCapacity (current i s)"
  shows "arena_ok (putFrame i fs' s)"
proof (rule arena_ok_update [OF assms(1,2)])
  show "frames_ok (putFrame i fs' s) (fs' # others i s)"
    using frames_ok_swap [OF arena_ok_split [OF assms(1,2)] assms(3-5)] by simp
qed (simp_all add: assms(5))

lemma arena_ok_counted [simp]: "arena_ok (counted f s) = arena_ok s"
  by (rule arena_ok_cong) simp_all

lemma arena_ok_index [simp]: "arena_ok (s\<lparr>ar_currentFrameIndex := k\<rparr>) = arena_ok s"
  by (rule arena_ok_cong) simp_all

lemma arena_ok_noted [simp]: "arena_ok (ar_notes_update g s) = arena_ok s"
  by (rule arena_ok_cong) simp_all

lemma frame_ok_retire [simp]:
  "frame_ok pageSize maxFrame (fs\<lparr>af_retireSerial := n\<rparr>) = frame_ok pageSize maxFrame fs"
  by (simp add: frame_ok_def pages_ok_def cursor_ok_def page_room_def)

lemma arena_ok_retire:
  assumes "arena_ok s" and "i < length (ar_frameStates s)"
  shows "arena_ok (putFrame i ((current i s)\<lparr>af_retireSerial := n\<rparr>) s)"
  using arena_ok_frame [OF assms(1) nth_mem [OF assms(2)]]
  by (intro arena_ok_same_pages [OF assms]) simp_all

lemma EndFrame_cases:
  obtains (same) "ShadowArena_EndFrame f s = s"
  | (sealed) i g where "currentGeneration s = Some i"
      "ShadowArena_EndFrame f s = counted g (putFrame i ((current i s)\<lparr>af_retireSerial := f\<rparr>) s)"
proof (cases "currentGeneration s")
  case None
  then show ?thesis using same by (simp add: ShadowArena_EndFrame_def)
next
  case (Some i)
  then show ?thesis
    using same sealed [OF Some, of "\<lambda>c. c\<lparr>ac_lastSubmittedUsedBytes := frameUsed (current i s),
      ac_lastSubmittedSerial := f\<rparr>"]
    by (cases "af_frameSerial (current i s) = f") (simp_all add: ShadowArena_EndFrame_def Let_def)
qed

lemma Quarantine_cases:
  assumes "ShadowArena_QuarantineCurrentGeneration n s = (b, s')"
  obtains (same) "s' = s \<or> s' = s\<lparr>ar_currentFrameIndex := kInvalidGenerationIndex\<rparr>"
  | (sealed) i g where "currentGeneration s = Some i"
      "s' = counted g (putFrame i ((current i s)\<lparr>af_retireSerial := n\<rparr>)
        (s\<lparr>ar_currentFrameIndex := kInvalidGenerationIndex\<rparr>))"
proof (cases "n = 0 \<or> currentGeneration s = None")
  case True
  then show ?thesis
    using same assms by (auto simp: ShadowArena_QuarantineCurrentGeneration_def Let_def split: if_splits)
next
  case False
  then obtain i where i: "n \<noteq> 0" "currentGeneration s = Some i" by auto
  then have "s' = counted (\<lambda>c. c\<lparr>ac_lastSubmittedSerial := n,
      ac_lastQuarantinedGeneration := af_generation (current i s),
      ac_lastQuarantinedRetireSerial := n, ac_quarantineCount := ac_quarantineCount c + 1\<rparr>)
      (putFrame i ((current i s)\<lparr>af_retireSerial := n\<rparr>)
        (s\<lparr>ar_currentFrameIndex := kInvalidGenerationIndex\<rparr>))"
    using assms by (simp add: ShadowArena_QuarantineCurrentGeneration_def Let_def)
  then show ?thesis using sealed i by blast
qed

definition rewound :: "ShadowArenaFrameState \<Rightarrow> ShadowArenaFrameState" where
  "rewound fs = fs\<lparr>af_currentPage := 0, af_currentOffset := 0, af_committedBytes := 0,
     af_pageTailWasteBytes := 0\<rparr>"

lemma Reset_cases:
  obtains (same) "ShadowArena_Reset s = s"
    "\<not> ShadowArena_IsInitialized s \<or> currentGeneration s = None"
  | (reset) i g where "ShadowArena_IsInitialized s" "currentGeneration s = Some i"
      "ShadowArena_Reset s = counted g (putFrame i (rewound (current i s)) s)"
proof (cases "ShadowArena_IsInitialized s \<and> currentGeneration s \<noteq> None")
  case True
  then obtain i where i: "ShadowArena_IsInitialized s" "currentGeneration s = Some i" by auto
  then have "ShadowArena_Reset s =
      counted (\<lambda>c. c\<lparr>ac_currentUsedBytes := 0\<rparr>) (putFrame i (rewound (current i s)) s)"
    by (simp add: ShadowArena_Reset_def rewound_def)
  then show ?thesis using reset i by blast
qed (use same in \<open>auto simp: ShadowArena_Reset_def\<close>)

lemma rewound_ok:
  assumes "frame_ok pageSize maxFrame fs"
  shows "frame_ok pageSize maxFrame (rewound fs)"
  using assms
  by (simp add: frame_ok_def pages_ok_def cursor_ok_def page_room_def rewound_def bytes_before_def)

lemma grown_frame_ok:
  assumes "arena_ok s" and "i < length (ar_frameStates s)"
    and "AllocateArenaPage env (current i s) bytes s = (r, fs', s')"
  shows "arena_ok (putFrame i fs' s')" and "same_arena s s'"
proof -
  note a = AllocateArenaPage_ok [OF assms(3) arena_ok_split [OF assms(1,2)]]
  have "extends (current i s) fs'"
    using AllocateArenaPage_cases [OF assms(3)]
    by (auto simp: page_kept_def page_added_def addPage_extends)
  then show "arena_ok (putFrame i fs' s')"
    using parts_arena_ok [OF assms(1,2) a] by simp
  show "same_arena s s'" by (rule a(2))
qed

lemma warmFrames_ok:
  assumes "warmFrames env slots s = (r, s')" and "arena_ok s"
    and "\<forall>i \<in> set slots. i < length (ar_frameStates s)"
  shows "arena_ok s' \<and> r \<in> {Inr True, Inr False, Inl DeviceLost} \<and>
    ar_ownerDevice s' = ar_ownerDevice s \<and> ar_arenaFrameCount s' = ar_arenaFrameCount s \<and>
    length (ar_frameStates s') = length (ar_frameStates s)"
  using assms
proof (induction slots arbitrary: s)
  case (Cons i slots)
  obtain r1 fs1 s1 where a: "AllocateArenaPage env (current i s) (ar_arenaPageSize s) s = (r1, fs1, s1)"
    by (cases "AllocateArenaPage env (current i s) (ar_arenaPageSize s) s")
  have i: "i < length (ar_frameStates s)" using Cons.prems(3) by simp
  note g = grown_frame_ok [OF Cons.prems(2) i a]
  have same: "ar_ownerDevice s1 = ar_ownerDevice s" "ar_frameStates s1 = ar_frameStates s"
      "ar_arenaFrameCount s1 = ar_arenaFrameCount s"
    using g(2) by (simp_all add: same_arena_def)
  show ?case
  proof (cases "r1 = Inr True")
    case True
    then have "warmFrames env slots (putFrame i fs1 s1) = (r, s')"
      using Cons.prems(1) a by (simp add: Let_def)
    from Cons.IH [OF this g(1)] show ?thesis using Cons.prems(3) same by simp
  next
    case False
    then have "r = r1" "s' = putFrame i fs1 s1" using Cons.prems(1) a by (simp_all add: Let_def)
    then show ?thesis
      using False AllocateArenaPage_cases [OF a] g(1) same by (auto simp: page_kept_def)
  qed
qed simp

lemma ResolveArenaMaxFrameSize_range:
  "kCaptureArenaPageSize \<le> ResolveArenaMaxFrameSize cf ResolveArenaPageSize"
  "ResolveArenaMaxFrameSize cf ResolveArenaPageSize \<le> kCaptureArenaMaxFrameSize"
  by (simp_all add: ResolveArenaMaxFrameSize_def Let_def ResolveArenaPageSize_def
      kCaptureArenaPageSize_def kCaptureArenaMaxFrameSize_def)

lemma ResolveArenaFrameCount_positive: "ResolveArenaFrameCount cf \<noteq> 0"
  by (auto simp: ResolveArenaFrameCount_def kCaptureArenaFrameCount_def kDefaultArenaFrameCount_def
      word_le_nat_alt split: prod.splits)

lemma Init_cases:
  assumes "arena_ok s" and "ShadowArena_Init env m cf d s = (r, s')"
    and "unat (ResolveArenaFrameCount cf) \<le> 2 ^ 31"
  obtains (same) "s' = s" | (built) "\<not> ShadowArena_IsInitialized s" "arena_ok s'"
proof -
  consider (no) "d = None" | (inited) "d \<noteq> None" "ShadowArena_IsInitialized s"
    | (foreign) "d \<noteq> None" "\<not> ShadowArena_IsInitialized s" "ar_ownerDevice s \<noteq> None" "ar_ownerDevice s \<noteq> d"
    | (build) "d \<noteq> None" "\<not> ShadowArena_IsInitialized s"
      "\<not> (ar_ownerDevice s \<noteq> None \<and> ar_ownerDevice s \<noteq> d)"
    by blast
  then show ?thesis
  proof cases
    case build
    define t0 where "t0 = s\<lparr>ar_ownerDevice := d, ar_budgetRetry := gate_reset (ar_budgetRetry s),
      ar_allocationFrameSerial := 0, ar_arenaPageSize := ResolveArenaPageSize,
      ar_arenaMaxFrameSize := ResolveArenaMaxFrameSize cf ResolveArenaPageSize,
      ar_arenaFrameCount := ResolveArenaFrameCount cf,
      ar_frameStates := replicate (unat (ResolveArenaFrameCount cf)) frame_init,
      ar_allocationHeapIndex := kInvalidGenerationIndex, ar_residentBytes := 0,
      ar_budget := (ar_budget s)\<lparr>ab_refreshCount := 0, ab_growthRejectCount := 0,
        ab_snapshotFrameSerial := 0\<rparr>\<rparr>"
    define t where "t = RefreshArenaMemoryBudget m 0 t0"
    have cfg: "arena_cfg t0"
      using ResolveArenaMaxFrameSize_range ResolveArenaFrameCount_positive
      by (simp add: arena_cfg_def t0_def ResolveArenaPageSize_def)
    have "frames_ok t0 (ar_frameStates t0)"
      using cfg frame_init_ok [OF cfg]
      by (simp add: frames_ok_def) (simp add: t0_def sum_list_replicate storages_def frame_init_def)
    then have "arena_ok t0"
      using build(1) assms(3) by (auto simp: arena_ok_def spills_ok_def t0_def)
    moreover have "same_arena t0 t" "ar_residentBytes t = ar_residentBytes t0" "ar_attempts t = ar_attempts t0"
      by (simp_all add: t_def)
    ultimately have ok: "arena_ok t" and t: "ar_arenaFrameCount t = ar_arenaFrameCount t0"
        "ar_frameStates t = ar_frameStates t0" "ar_ownerDevice t = d"
      using arena_ok_cong [of t t0] by (simp_all add: same_arena_def t0_def)
    obtain r1 u where w: "warmFrames env [0..<unat (ar_arenaFrameCount t)] t = (r1, u)"
      by (cases "warmFrames env [0..<unat (ar_arenaFrameCount t)] t")
    have wo: "arena_ok u" "r1 \<in> {Inr True, Inr False, Inl DeviceLost}" "ar_ownerDevice u = d"
      using warmFrames_ok [OF w ok] t by (auto simp: t0_def)
    have cu: "arena_cfg u" using wo(1) by (simp add: arena_ok_def frames_ok_def)
    have eq: "(r, s') = (case r1 of
        Inl fault \<Rightarrow> (Inl fault, u)
      | Inr False \<Rightarrow> (Inr False, u\<lparr>ar_frameStates := [], ar_residentBytes := 0,
          ar_allocationHeapIndex := kInvalidGenerationIndex, ar_ownerDevice := None\<rparr>)
      | Inr True \<Rightarrow> (Inr True, u\<lparr>ar_currentFrameIndex := kInvalidGenerationIndex,
          ar_counters := initCounters (ar_counters u), ar_notes := notes_init\<rparr>))"
      using assms(2) unfolding ShadowArena_Init_def if_not_P [OF build(1)] if_not_P [OF build(2)]
        if_not_P [OF build(3)] Let_def t0_def [symmetric] t_def [symmetric] w prod.case by (rule sym)
    have "arena_ok s'"
    proof (cases r1)
      case (Inl fault)
      then show ?thesis using eq wo(1) by simp
    next
      case (Inr grown)
      show ?thesis
      proof (cases grown)
        case True
        then show ?thesis
          using eq Inr wo(1) arena_ok_cong [of s' u] by simp
      next
        case False
        then show ?thesis
          using eq Inr cu wo(1)
          by (simp add: arena_ok_def spills_ok_def frames_ok_def arena_cfg_def)
      qed
    qed
    then show ?thesis using built build(2) by blast
  next
    case no
    have "s' = s" using assms(2) unfolding ShadowArena_Init_def if_P [OF no] by simp
    then show ?thesis by (rule same)
  next
    case inited
    have "s' = s"
      using assms(2) unfolding ShadowArena_Init_def if_not_P [OF inited(1)] if_P [OF inited(2)] by simp
    then show ?thesis by (rule same)
  next
    case foreign
    have "s' = s"
      using assms(2) unfolding ShadowArena_Init_def if_not_P [OF foreign(1)] if_not_P [OF foreign(2)]
        if_P [OF conjI [OF foreign(3,4)]] by simp
    then show ?thesis by (rule same)
  qed
qed

lemma Shutdown_cases:
  assumes "arena_ok s"
  obtains (same) "ShadowArena_Shutdown d s = s" "d = None \<or> ar_ownerDevice s \<noteq> d"
    | (down) "d \<noteq> None" "ar_ownerDevice s = d" "arena_ok (ShadowArena_Shutdown d s)"
        "ar_frameStates (ShadowArena_Shutdown d s) = []"
proof (cases "d = None \<or> ar_ownerDevice s \<noteq> d")
  case True
  then show ?thesis using same by (auto simp: ShadowArena_Shutdown_def)
next
  case False
  then show ?thesis
    using down assms
    by (simp add: ShadowArena_Shutdown_def arena_ok_def spills_ok_def frames_ok_def arena_cfg_def)
qed

lemma arena_init_ok: "arena_ok arena_init"
  by (simp add: arena_ok_def frames_ok_def arena_cfg_def spills_ok_def arena_init_def
      kCaptureArenaPageSize_def kDefaultArenaPageSize_def kCaptureArenaMaxFrameSize_def
      kDefaultArenaFrameCount_def)

end
