(* ===== verification/ArenaSafety.thy ===== *)
theory ArenaSafety
  imports ArenaRuns
begin

section \<open>The shadow arena: what holds in every run\<close>

text \<open>
  The arena as a state machine over all its operations, with the slices that are live in
  each generation: handed out since the generation was last taken for a frame or reset.
  The properties of the arena are stated for every reachable state.
\<close>

subsection \<open>Runs\<close>

text \<open>
  \<open>live i\<close> lists the slices of generation i, oldest first. A bundle is begun and ended
  in one step, which is how the render thread uses it; a transaction that another
  operation interrupts does not commit (see \<open>interrupted_bundle_is_refused\<close>).
\<close>

type_synonym live = "nat \<Rightarrow> ShadowArenaAllocation list"

definition add_live :: "nat option \<Rightarrow> ShadowArenaAllocation list \<Rightarrow> live \<Rightarrow> live" where
  "add_live generation as live =
    (case generation of None \<Rightarrow> live | Some i \<Rightarrow> live(i := live i @ as))"

definition bundle_parts :: "ShadowArenaBundleTransaction \<Rightarrow> ShadowArenaAllocation list" where
  "bundle_parts tx = take (unat (tx_allocationCount tx)) (tx_allocations tx)"

inductive arena_reach :: "(nat \<Rightarrow> PageEnv) \<Rightarrow> ArenaState \<Rightarrow> live \<Rightarrow> bool" for env where
  reach_start: "arena_reach env arena_init (\<lambda>_. [])"
| reach_init: "arena_reach env s live \<Longrightarrow> unat (ResolveArenaFrameCount cf) \<le> 2 ^ 31 \<Longrightarrow>
    ShadowArena_Init env m cf d s = (r, s') \<Longrightarrow> arena_reach env s' live"
| reach_shutdown: "arena_reach env s live \<Longrightarrow>
    arena_reach env (ShadowArena_Shutdown d s)
      (if d = None \<or> ar_ownerDevice s \<noteq> d then live else (\<lambda>_. []))"
| reach_begin: "arena_reach env s live \<Longrightarrow> ShadowArena_BeginFrame env m f c s = (r, s') \<Longrightarrow>
    arena_reach env s' (if r = Inr True then live(unat (ar_currentFrameIndex s') := []) else live)"
| reach_end: "arena_reach env s live \<Longrightarrow> arena_reach env (ShadowArena_EndFrame f s) live"
| reach_quarantine: "arena_reach env s live \<Longrightarrow>
    ShadowArena_QuarantineCurrentGeneration n s = (b, s') \<Longrightarrow> arena_reach env s' live"
| reach_reset: "arena_reach env s live \<Longrightarrow>
    arena_reach env (ShadowArena_Reset s)
      (case currentGeneration s of None \<Rightarrow> live | Some i \<Rightarrow> live(i := []))"
| reach_alloc: "arena_reach env s live \<Longrightarrow> ShadowArena_Alloc env bytes alignment s = (r, s') \<Longrightarrow>
    arena_reach env s'
      (add_live (currentGeneration s)
        (case r of Inl _ \<Rightarrow> [] | Inr a \<Rightarrow> if al_valid a then [a] else []) live)"
| reach_refused: "arena_reach env s live \<Longrightarrow> ShadowArena_BeginBundle env requests s = (r, tx, s') \<Longrightarrow>
    r \<noteq> Inr True \<Longrightarrow> arena_reach env s' live"
| reach_commit: "arena_reach env s live \<Longrightarrow> ShadowArena_BeginBundle env requests s = (Inr True, tx, s1) \<Longrightarrow>
    ShadowArena_CommitBundle tx s1 = (b, tx', s') \<Longrightarrow>
    arena_reach env s' (add_live (currentGeneration s) (if b then bundle_parts tx else []) live)"
| reach_rollback: "arena_reach env s live \<Longrightarrow> ShadowArena_BeginBundle env requests s = (Inr True, tx, s1) \<Longrightarrow>
    ShadowArena_RollbackBundle tx s1 = (b, tx', s') \<Longrightarrow> arena_reach env s' live"
| reach_note: "arena_reach env s live \<Longrightarrow> arena_reach env (ar_notes_update g s) live"

definition live_ok :: "ArenaState \<Rightarrow> live \<Rightarrow> bool" where
  "live_ok s live \<longleftrightarrow>
     (\<forall>i < length (ar_frameStates s). slices_ok (current i s) (live i)) \<and>
     (\<forall>i \<ge> length (ar_frameStates s). live i = [])"

abbreviation run_ok :: "ArenaState \<Rightarrow> live \<Rightarrow> bool" where
  "run_ok s live \<equiv> arena_ok s \<and> live_ok s live"

lemma live_ok_frames: "ar_frameStates s' = ar_frameStates s \<Longrightarrow> live_ok s' live = live_ok s live"
  by (simp add: live_ok_def)

lemma live_ok_update:
  assumes "live_ok s live" and "i < length (ar_frameStates s)"
    and "ar_frameStates s' = (ar_frameStates s)[i := fs']" and "slices_ok fs' as"
  shows "live_ok s' (live(i := as))"
  using assms by (auto simp: live_ok_def nth_list_update)

lemma slices_ok_grow:
  "slices_ok fs as \<Longrightarrow> extends fs fs' \<Longrightarrow> lin_pos fs \<le> lin_pos fs' \<Longrightarrow> slices_ok fs' as"
  by (rule generation.log_grow)

lemma live_ok_extend:
  assumes "live_ok s live" and "i < length (ar_frameStates s)"
    and "ar_frameStates s' = (ar_frameStates s)[i := fs']"
    and "extends (current i s) fs'" and "lin_pos (current i s) \<le> lin_pos fs'"
  shows "live_ok s' live"
proof -
  have "slices_ok (current i s) (live i)" using assms(1,2) by (simp add: live_ok_def)
  then have "live_ok s' (live(i := live i))"
    by (intro live_ok_update [OF assms(1-3)]) (rule slices_ok_grow [OF _ assms(4,5)])
  then show ?thesis by simp
qed

subsection \<open>Bundles in a run\<close>

text \<open>
  A bundle that begins hands out exactly the requested parts, behind everything that is
  live; a bundle that does not begin leaves the cursor where it was.
\<close>

lemma BeginBundle_granted:
  assumes "run_ok s live" and "ShadowArena_BeginBundle env requests s = (Inr True, tx, s')"
  obtains i rs where "requests = Some rs" "currentGeneration s = Some i" "end_here i tx s'"
    "arena_ok s'" "length (ar_frameStates s') = length (ar_frameStates s)"
    "live_ok s' (live(i := live i @ bundle_parts tx))" "list_all2 serves rs (bundle_parts tx)"
    "starts_at tx (current i s)" "extends (current i s) (current i s')"
    "lin_pos (current i s) < lin_pos (current i s')"
    "\<forall>j. j \<noteq> i \<longrightarrow> ar_frameStates s' ! j = ar_frameStates s ! j"
    "ar_arenaPageSize s' = ar_arenaPageSize s" "ar_arenaMaxFrameSize s' = ar_arenaMaxFrameSize s"
proof -
  have ok: "arena_ok s" and live: "live_ok s live" using assms(1) by simp_all
  from ok assms(2) show thesis
  proof (cases rule: BeginBundle_cases)
    case (run rs i tx0 fs' s1 f)
    have here: "end_here i tx s'" by (rule BeginBundle_end_here [OF ok assms(2) run(5)])
    have i: "i < length (ar_frameStates s)" by (rule current_index(1) [OF run(5)])
    have n: "unat (tx_allocationCount tx0) = length rs"
      using run(3,6) by (simp add: parts_result_def beginTransaction_def unat_of_nat)
    have p: "same_arena s s1" "extends (current i s) fs'" "starts_at tx0 (current i s)"
        "lin_pos (current i s) + length rs \<le> lin_pos fs'"
        "list_all2 serves rs (take (length rs) (tx_allocations tx0))"
        "\<forall>as. slices_ok (current i s) as \<longrightarrow> slices_ok fs' (as @ take (length rs) (tx_allocations tx0))"
      using run(6) by (simp_all add: parts_result_def)
    have parts: "bundle_parts tx = take (length rs) (tx_allocations tx0)"
      using run(8) n by (simp add: bundle_parts_def endTransaction_def)
    have fss: "ar_frameStates s' = (ar_frameStates s)[i := fs']"
      using run(7) p(1) by (simp add: same_arena_def)
    have "slices_ok fs' (live i @ bundle_parts tx)"
      using p(6) live i unfolding parts live_ok_def by blast
    then have "live_ok s' (live(i := live i @ bundle_parts tx))"
      by (rule live_ok_update [OF live i fss])
    moreover have "starts_at tx (current i s)"
      using p(3) run(8) by (simp add: starts_at_def endTransaction_def)
    moreover have "lin_pos (current i s) < lin_pos fs'"
      using p(4) run(2) by (cases rs) simp_all
    moreover have "ar_arenaPageSize s' = ar_arenaPageSize s"
        "ar_arenaMaxFrameSize s' = ar_arenaMaxFrameSize s"
      using run(7) p(1) by (simp_all add: same_arena_def)
    ultimately show thesis
      using that [OF run(1,5) here BeginBundle_ok [OF ok assms(2)]] fss i p(2,5) parts by simp
  qed simp
qed

lemma BeginBundle_refused:
  assumes "run_ok s live" and "ShadowArena_BeginBundle env requests s = (r, tx, s')" and "r \<noteq> Inr True"
  shows "arena_ok s'" and "live_ok s' live" and "r \<in> {Inr False, Inl DeviceLost}"
proof -
  have ok: "arena_ok s" and live: "live_ok s live" using assms(1) by simp_all
  show "arena_ok s'" by (rule BeginBundle_ok [OF ok assms(2)])
  have "live_ok s' live \<and> r \<in> {Inr False, Inl DeviceLost}"
    using ok assms(2)
  proof (cases rule: BeginBundle_cases)
    case refused
    then show ?thesis using live live_ok_frames [OF refused(3), of live] by simp
  next
    case (run rs i tx0 fs' s1 f)
    have i: "i < length (ar_frameStates s)" by (rule current_index(1) [OF run(5)])
    have p: "same_arena s s1" "extends (current i s) fs'" "lin_pos (current i s) \<le> lin_pos fs'"
        "r \<in> {Inr False, Inl DeviceLost}"
      using run(6) assms(3) by (auto simp: parts_result_def split: sum.splits bool.splits)
    have "ar_frameStates s' = (ar_frameStates s)[i := fs']"
      using run(7) p(1) by (simp add: same_arena_def)
    from live_ok_extend [OF live i this p(2,3)] p(4) show ?thesis by blast
  qed
  then show "live_ok s' live" "r \<in> {Inr False, Inl DeviceLost}" by simp_all
qed

definition same_cursor :: "ShadowArenaFrameState \<Rightarrow> ShadowArenaFrameState \<Rightarrow> bool" where
  "same_cursor fs fs' \<longleftrightarrow>
     af_currentPage fs' = af_currentPage fs \<and> af_currentOffset fs' = af_currentOffset fs \<and>
     af_committedBytes fs' = af_committedBytes fs \<and>
     af_pageTailWasteBytes fs' = af_pageTailWasteBytes fs \<and> extends fs fs'"

lemma restoreCursor_same:
  "starts_at tx fs \<Longrightarrow> extends fs fs' \<Longrightarrow> same_cursor fs (restoreCursor tx fs')"
  by (simp add: same_cursor_def starts_at_def restoreCursor_def extends_def)

lemma same_cursor_live:
  assumes "live_ok s live" and "i < length (ar_frameStates s)"
    and "ar_frameStates s' = (ar_frameStates s)[i := fs']" and "same_cursor (current i s) fs'"
  shows "live_ok s' live"
  using assms(4) by (intro live_ok_extend [OF assms(1-3)]) (simp_all add: same_cursor_def lin_pos_def)


subsection \<open>Every run is well formed\<close>

lemma opened_live:
  assumes "live_ok s live" and "opened f i s s'" and "i < length (ar_frameStates s)"
  shows "live_ok s' (live(i := []))"
  using assms live_ok_update [OF assms(1,3), of s' _ "[]"] generation.log_empty
  by (auto simp: opened_def)

lemma live_ok_spilled:
  assumes "live_ok s live" and "ar_frameStates s' = ar_frameStates s @ [fs]"
  shows "live_ok s' live"
proof -
  have "live (length (ar_frameStates s)) = []" using assms(1) by (simp add: live_ok_def)
  then have "slices_ok (current i s') (live i)" if "i < length (ar_frameStates s')" for i
    using that assms generation.log_empty
    by (cases "i = length (ar_frameStates s)") (auto simp: live_ok_def nth_append)
  then show ?thesis using assms by (simp add: live_ok_def)
qed

lemma run_begin:
  assumes "run_ok s live" and "ShadowArena_BeginFrame env m f c s = (r, s')"
  shows "run_ok s' (if r = Inr True then live(unat (ar_currentFrameIndex s') := []) else live)"
proof -
  have ok: "arena_ok s" and live: "live_ok s live" using assms(1) by simp_all
  have at: "opened f i s1 s' \<Longrightarrow> unat (ar_currentFrameIndex s') = i" for i s1
    unfolding opened_def using current_index by blast
  from ok assms(2) show ?thesis
  proof (cases rule: BeginFrame_cases)
    case idle
    then show ?thesis using live live_ok_frames [OF idle(2), of live] by auto
  next
    case (reused i s1)
    then show ?thesis
      using opened_live [of s1 live f i s'] live live_ok_frames [OF reused(4), of live] at [OF reused(6)]
      by simp
  next
    case (spilled spill s1)
    then show ?thesis
      using opened_live [OF live_ok_spilled [OF live spilled(3)] spilled(6)] at [OF spilled(6)] by simp
  qed
qed

lemma run_alloc:
  assumes "run_ok s live" and "ShadowArena_Alloc env bytes alignment s = (r, s')"
  shows "run_ok s' (add_live (currentGeneration s)
    (case r of Inl _ \<Rightarrow> [] | Inr a \<Rightarrow> if al_valid a then [a] else []) live)"
proof -
  let ?request = "\<lparr>br_size = bytes, br_alignment = (if alignment = 0 then 16 else alignment),
    br_tag = TagUnknown\<rparr>"
  have quiet: "add_live g [] live = live" for g by (simp add: add_live_def split: option.splits)
  obtain r1 tx s1 where b: "ShadowArena_BeginBundle env (Some [?request]) s = (r1, tx, s1)"
    by (cases "ShadowArena_BeginBundle env (Some [?request]) s")
  show ?thesis
  proof (cases "r1 = Inr True")
    case False
    then have "s' = s1" "r = Inl DeviceLost \<or> r = Inr no_allocation"
      using assms(2) b BeginBundle_refused(3) [OF assms(1) b]
      by (auto simp: ShadowArena_Alloc_def Let_def split: sum.splits bool.splits)
    then show ?thesis
      using BeginBundle_refused(1,2) [OF assms(1) b False]
      by (auto simp: quiet no_allocation_def al_valid_def)
  next
    case True
    obtain i rs where g: "Some [?request] = Some rs" "currentGeneration s = Some i" "end_here i tx s1"
        "arena_ok s1" "live_ok s1 (live(i := live i @ bundle_parts tx))"
        "list_all2 serves rs (bundle_parts tx)"
      using BeginBundle_granted [OF assms(1) b [unfolded True]] by metis
    obtain h where c: "ShadowArena_CommitBundle tx s1 = (True, tx\<lparr>tx_active := False\<rparr>, counted h s1)"
      using CommitBundle_here [OF g(3)] .
    have eq: "r = Inr (tx_allocations tx ! 0)" "s' = counted h s1"
      using assms(2) b True c by (simp_all add: ShadowArena_Alloc_def Let_def)
    obtain a where a: "bundle_parts tx = [a]" "serves ?request a"
      using g(1,6) by (auto simp: list_all2_Cons1)
    then have "tx_allocations tx ! 0 = a"
      by (cases "tx_allocations tx") (auto simp: bundle_parts_def take_Cons' split: if_splits)
    then show ?thesis
      using g(2,4,5) a eq by (simp add: add_live_def serves_def live_ok_frames [of "counted h s1" s1])
  qed
qed

lemma run_bundle:
  assumes "run_ok s live" and "ShadowArena_BeginBundle env requests s = (Inr True, tx, s1)"
  shows "ShadowArena_CommitBundle tx s1 = (b, tx', s') \<Longrightarrow>
      b \<and> run_ok s' (add_live (currentGeneration s) (bundle_parts tx) live)"
    and "ShadowArena_RollbackBundle tx s1 = (b, tx', s') \<Longrightarrow>
      b \<and> run_ok s' live \<and> (\<forall>j < length (ar_frameStates s). same_cursor (current j s) (current j s'))"
proof -
  have ok: "arena_ok s" and live: "live_ok s live" using assms(1) by simp_all
  obtain i rs where g: "currentGeneration s = Some i" "end_here i tx s1"
      "arena_ok s1" "length (ar_frameStates s1) = length (ar_frameStates s)"
      "live_ok s1 (live(i := live i @ bundle_parts tx))"
      "starts_at tx (current i s)" "extends (current i s) (current i s1)"
      "\<forall>j. j \<noteq> i \<longrightarrow> ar_frameStates s1 ! j = ar_frameStates s ! j"
      "ar_arenaPageSize s1 = ar_arenaPageSize s" "ar_arenaMaxFrameSize s1 = ar_arenaMaxFrameSize s"
    using BeginBundle_granted [OF assms] by metis
  have i: "i < length (ar_frameStates s)" by (rule current_index(1) [OF g(1)])
  show "b \<and> run_ok s' (add_live (currentGeneration s) (bundle_parts tx) live)"
    if "ShadowArena_CommitBundle tx s1 = (b, tx', s')"
  proof -
    obtain h where "ShadowArena_CommitBundle tx s1 = (True, tx\<lparr>tx_active := False\<rparr>, counted h s1)"
      using CommitBundle_here [OF g(2)] .
    then show ?thesis
      using that g(1,3,5) by (auto simp: add_live_def live_ok_frames [of "counted h s1" s1])
  qed
  show "b \<and> run_ok s' live \<and> (\<forall>j < length (ar_frameStates s). same_cursor (current j s) (current j s'))"
    if "ShadowArena_RollbackBundle tx s1 = (b, tx', s')"
  proof -
    let ?fs = "restoreCursor tx (current i s1)"
    obtain h where h: "ShadowArena_RollbackBundle tx s1 =
        (True, tx\<lparr>tx_active := False\<rparr>, counted h (putFrame i ?fs s1))"
      using RollbackBundle_here [OF g(2)] .
    have s': "b" "s' = counted h (putFrame i ?fs s1)" using that h by simp_all
    have same: "same_cursor (current i s) ?fs" by (rule restoreCursor_same [OF g(6,7)])
    have i1: "i < length (ar_frameStates s1)" using i g(4) by simp
    have fo: "frame_ok (ar_arenaPageSize s1) (ar_arenaMaxFrameSize s1) ?fs"
      using arena_ok_frame [OF ok nth_mem [OF i]] arena_ok_frame [OF g(3) nth_mem [OF i1]]
      unfolding g(9,10) by (rule restoreCursor_ok(1) [OF _ _ g(7,6)])
    have "arena_ok (putFrame i ?fs s1)"
      by (rule arena_ok_same_pages [OF g(3) i1 fo]) (simp_all add: restoreCursor_def)
    moreover have fss: "ar_frameStates s' = (ar_frameStates s)[i := ?fs]"
      unfolding s'(2) using g(4,8) i i1 by (auto intro!: nth_equalityI simp: nth_list_update)
    moreover have "same_cursor (current j s) (current j s')" for j
      unfolding fss using same i by (cases "i = j") (simp_all add: same_cursor_def)
    ultimately show ?thesis
      using s' same_cursor_live [OF live i fss same] by simp
  qed
qed

lemma uninitialized_live:
  assumes "run_ok s live" and "\<not> ShadowArena_IsInitialized s"
  shows "live_ok s' live"
proof -
  have "ar_frameStates s = []"
    using assms by (auto simp: ShadowArena_IsInitialized_def arena_ok_def)
  then have "live i = []" for i using assms(1) by (simp add: live_ok_def)
  then show ?thesis using generation.log_empty by (simp add: live_ok_def)
qed

lemma retired_live:
  assumes "live_ok s live" and "currentGeneration s = Some i"
    and "ar_frameStates s' = (ar_frameStates s)[i := (current i s)\<lparr>af_retireSerial := n\<rparr>]"
  shows "live_ok s' live"
  by (rule live_ok_extend [OF assms(1) current_index(1) [OF assms(2)] assms(3)])
    (simp_all add: extends_def lin_pos_def)

lemma reach_run_ok: "arena_reach env s live \<Longrightarrow> run_ok s live"
proof (induction rule: arena_reach.induct)
  case reach_start
  then show ?case using arena_init_ok by (simp add: live_ok_def arena_init_def)
next
  case (reach_init s live cf m d r s')
  from reach_init(4) have ok: "arena_ok s" by simp
  from ok reach_init(3,2) show ?case
  proof (cases rule: Init_cases)
    case built
    then show ?thesis using uninitialized_live [OF reach_init(4)] by simp
  qed (use reach_init(4) in simp)
next
  case (reach_shutdown s live d)
  then have "arena_ok s" by simp
  then show ?case
    by (cases rule: Shutdown_cases [of s d]) (use reach_shutdown in \<open>auto simp: live_ok_def\<close>)
next
  case (reach_begin s live m f c r s')
  show ?case by (rule run_begin [OF reach_begin(3,2)])
next
  case (reach_end s live f)
  show ?case
  proof (cases rule: EndFrame_cases [of f s])
    case (sealed i g)
    then show ?thesis
      using reach_end(2) arena_ok_retire [OF _ current_index(1) [OF sealed(1)]]
        retired_live [OF _ sealed(1), of live "ShadowArena_EndFrame f s" f] by simp
  qed (use reach_end(2) in simp)
next
  case (reach_quarantine s live n b s')
  show ?case
    using reach_quarantine(2)
  proof (cases rule: Quarantine_cases)
    case same
    then show ?thesis using reach_quarantine(3) by (auto simp: live_ok_def)
  next
    case (sealed i g)
    have "arena_ok (putFrame i ((current i s)\<lparr>af_retireSerial := n\<rparr>) s)"
      using reach_quarantine(3) current_index(1) [OF sealed(1)] by (intro arena_ok_retire) simp_all
    then have "arena_ok s'"
      using arena_ok_cong [of s' "putFrame i ((current i s)\<lparr>af_retireSerial := n\<rparr>) s"] sealed(2) by simp
    then show ?thesis
      using reach_quarantine(3) sealed retired_live [OF _ sealed(1), of live s' n] by simp
  qed
next
  case (reach_reset s live)
  show ?case
  proof (cases rule: Reset_cases [of s])
    case same
    have "ar_frameStates s = [] \<Longrightarrow> currentGeneration s = None" by (simp add: currentGeneration_def)
    then have "currentGeneration s = None"
      using same(2) reach_reset(2) by (auto simp: ShadowArena_IsInitialized_def arena_ok_def)
    then show ?thesis using reach_reset(2) same(1) by simp
  next
    case (reset i g)
    have i: "i < length (ar_frameStates s)" by (rule current_index(1) [OF reset(2)])
    have ok: "arena_ok s" and live: "live_ok s live" using reach_reset(2) by simp_all
    have "arena_ok (putFrame i (rewound (current i s)) s)"
      by (rule arena_ok_same_pages [OF ok i rewound_ok [OF arena_ok_frame [OF ok nth_mem [OF i]]]])
        (simp_all add: rewound_def)
    moreover have "live_ok (ShadowArena_Reset s) (live(i := []))"
      by (rule live_ok_update [OF live i _ generation.log_empty]) (simp add: reset(3))
    ultimately have "run_ok (ShadowArena_Reset s) (live(i := []))" by (simp add: reset(3))
    then show ?thesis unfolding reset(2) option.case .
  qed
next
  case (reach_alloc s live bytes alignment r s')
  show ?case by (rule run_alloc [OF reach_alloc(3,2)])
next
  case (reach_refused s live requests r tx s')
  show ?case using BeginBundle_refused(1,2) [OF reach_refused(4,2,3)] by simp
next
  case (reach_commit s live requests tx s1 b tx' s')
  show ?case using run_bundle(1) [OF reach_commit(4,2,3)] by simp
next
  case (reach_rollback s live requests tx s1 b tx' s')
  show ?case using run_bundle(2) [OF reach_rollback(4,2,3)] by simp
next
  case (reach_note s live g)
  then show ?case by (simp add: live_ok_def)
qed

subsection \<open>Accounting\<close>

text \<open>
  C13. In every reachable arena the resident bytes are the sum of the capacities of all
  pages of all generations and at most 1152 MiB; a generation owns at most 384 MiB in
  pages of at most 64 MiB and its cursor stays within them; no buffer belongs to two pages.
\<close>

theorem arena_accounting:
  assumes "arena_reach env s live"
  shows "unat (ar_residentBytes s) =
      (\<Sum>fs \<leftarrow> ar_frameStates s. \<Sum>p \<leftarrow> af_pages fs. unat (ap_capacity p)) \<and>
    unat (ar_residentBytes s) \<le> 1152 * 1024 * 1024 \<and>
    (\<forall>fs \<in> set (ar_frameStates s).
       (\<Sum>p \<leftarrow> af_pages fs. unat (ap_capacity p)) \<le> 384 * 1024 * 1024 \<and>
       (\<forall>p \<in> set (af_pages fs). unat (ap_capacity p) \<le> 64 * 1024 * 1024) \<and>
       unat (af_committedBytes fs) + unat (af_currentOffset fs)
         \<le> (\<Sum>p \<leftarrow> af_pages fs. unat (ap_capacity p))) \<and>
    distinct (concat (map storages (ar_frameStates s)))"
proof -
  have fr: "frames_ok s (ar_frameStates s)" using reach_run_ok [OF assms] by (simp add: arena_ok_def)
  have total: "unat (af_totalCapacity fs) = (\<Sum>p \<leftarrow> af_pages fs. unat (ap_capacity p))"
    if "fs \<in> set (ar_frameStates s)" for fs
    using fr that by (simp add: frames_ok_def frame_ok_def pages_ok_def)
  have sums: "sum_list (map (unat \<circ> af_totalCapacity) (ar_frameStates s)) =
      (\<Sum>fs \<leftarrow> ar_frameStates s. \<Sum>p \<leftarrow> af_pages fs. unat (ap_capacity p))"
    by (rule arg_cong [where f = sum_list]) (simp add: total)
  have "unat (ar_residentBytes s) \<le> 1152 * 1024 * 1024"
      "unat (ar_residentBytes s) = sum_list (map (unat \<circ> af_totalCapacity) (ar_frameStates s))"
      "distinct (concat (map storages (ar_frameStates s)))"
    using fr by (simp_all add: frames_ok_def kShadowArenaFixedResidentLimitBytes_def)
  moreover have "unat (af_totalCapacity fs) \<le> 384 * 1024 * 1024 \<and>
      (\<forall>p \<in> set (af_pages fs). unat (ap_capacity p) \<le> 64 * 1024 * 1024) \<and>
      unat (af_committedBytes fs) + unat (af_currentOffset fs) \<le> unat (af_totalCapacity fs)"
    if "fs \<in> set (ar_frameStates s)" for fs
  proof -
    have f: "frame_ok (ar_arenaPageSize s) (ar_arenaMaxFrameSize s) fs" and c: "arena_cfg s"
      using fr that by (simp_all add: frames_ok_def)
    then show ?thesis
      using lin_pos_le [OF f]
      by (auto simp: frame_ok_def pages_ok_def arena_cfg_def lin_pos_def word_le_nat_alt
          kCaptureArenaPageSize_def kCaptureArenaMaxFrameSize_def dest: bspec order_trans)
  qed
  ultimately show ?thesis
    unfolding sums using total by simp
qed

subsection \<open>Live slices\<close>

definition slices_apart :: "ShadowArenaAllocation \<Rightarrow> ShadowArenaAllocation \<Rightarrow> bool" where
  "slices_apart a b \<longleftrightarrow>
     al_storage a \<noteq> al_storage b \<or>
     disjoint_iv (unat (al_offset a), unat (al_offset a) + unat (al_size a))
       (unat (al_offset b), unat (al_offset b) + unat (al_size b))"

lemma placed_page:
  assumes "slice_placed fs a iv"
  obtains p where "p < length (af_pages fs)" "al_storage a = Some (ap_storage (af_pages fs ! p))"
    "unat (al_offset a) + unat (al_size a) \<le> page_bytes (af_pages fs ! p)"
    "iv = (bytes_before p (af_pages fs) + unat (al_offset a),
      bytes_before p (af_pages fs) + unat (al_offset a) + unat (al_size a))"
  using assms by (auto simp: slice_placed_def sliceOf_def dest: arg_cong [where f = al_storage])

lemma same_generation_apart:
  assumes "slice_placed fs a p" and "slice_placed fs b q" and "disjoint_iv p q"
    and "distinct (storages fs)"
  shows "slices_apart a b"
proof -
  obtain i where i: "i < length (af_pages fs)" "al_storage a = Some (ap_storage (af_pages fs ! i))"
      "p = (bytes_before i (af_pages fs) + unat (al_offset a),
        bytes_before i (af_pages fs) + unat (al_offset a) + unat (al_size a))"
    using placed_page [OF assms(1)] by metis
  obtain j where j: "j < length (af_pages fs)" "al_storage b = Some (ap_storage (af_pages fs ! j))"
      "q = (bytes_before j (af_pages fs) + unat (al_offset b),
        bytes_before j (af_pages fs) + unat (al_offset b) + unat (al_size b))"
    using placed_page [OF assms(2)] by metis
  show ?thesis
  proof (cases "i = j")
    case True
    then show ?thesis using assms(3) i(3) j(3) by (auto simp: slices_apart_def disjoint_iv_def)
  next
    case False
    then have "storages fs ! i \<noteq> storages fs ! j"
      using assms(4) i(1) j(1) by (simp add: distinct_conv_nth storages_def)
    then show ?thesis using i j by (simp add: slices_apart_def storages_def)
  qed
qed

lemma live_placed:
  assumes "live_ok s live" and "k < length (live i)"
  shows "i < length (ar_frameStates s)" and "\<exists>iv. slice_placed (current i s) (live i ! k) iv"
proof -
  show i: "i < length (ar_frameStates s)"
    using assms by (metis live_ok_def length_0_conv not_less not_less_zero)
  then have "slices_ok (current i s) (live i)" using assms(1) by (simp add: live_ok_def)
  then show "\<exists>iv. slice_placed (current i s) (live i ! k) iv"
    using generation.log_placed [OF _ nth_mem [OF assms(2)]] by blast
qed

lemma frames_ok_storages:
  assumes "frames_ok s fss" and "i < length fss"
  shows "distinct (storages (fss ! i))"
    and "j < length fss \<Longrightarrow> i \<noteq> j \<Longrightarrow> set (storages (fss ! i)) \<inter> set (storages (fss ! j)) = {}"
proof -
  have d: "distinct (concat (map storages fss))" using assms(1) by (simp add: frames_ok_def)
  then show "distinct (storages (fss ! i))"
    using assms(2) by (simp add: distinct_concat_iff)
  have split: "fss = take k fss @ fss ! k # drop (Suc k) fss" if "k < length fss" for k
    using that by (rule id_take_nth_drop)
  have less: "set (storages (fss ! k)) \<inter> set (storages (fss ! l)) = {}"
    if "k < l" "l < length fss" for k l
  proof -
    have "fss ! k \<in> set (take l fss)"
      using that by (metis in_set_conv_nth length_take min.absorb4 nth_take)
    moreover have "distinct (concat (map storages (take l fss @ fss ! l # drop (Suc l) fss)))"
      using d split [OF that(2)] by simp
    ultimately show ?thesis by auto
  qed
  show "j < length fss \<Longrightarrow> i \<noteq> j \<Longrightarrow> set (storages (fss ! i)) \<inter> set (storages (fss ! j)) = {}"
    using less [of i j] less [of j i] assms(2) by (cases "i < j") (auto simp: not_less)
qed

text \<open>
  C4. In every run each live slice lies in a page of its generation, and two live slices
  share no byte: neither within a generation, nor across generations.
\<close>

theorem live_arena_slices_apart:
  assumes "arena_reach env s live"
    and "k < length (live i)" and "l < length (live j)" and "(i, k) \<noteq> (j, l)"
  shows "(\<exists>p \<in> set (af_pages (ar_frameStates s ! i)). al_storage (live i ! k) = Some (ap_storage p) \<and>
      unat (al_offset (live i ! k)) + unat (al_size (live i ! k)) \<le> unat (ap_capacity p)) \<and>
    slices_apart (live i ! k) (live j ! l)"
proof
  have fr: "frames_ok s (ar_frameStates s)" and live: "live_ok s live"
    using reach_run_ok [OF assms(1)] by (simp_all add: arena_ok_def)
  note i = live_placed [OF live assms(2)] and j = live_placed [OF live assms(3)]
  note d = frames_ok_storages [OF fr i(1)]
  show "\<exists>p \<in> set (af_pages (ar_frameStates s ! i)). al_storage (live i ! k) = Some (ap_storage p) \<and>
      unat (al_offset (live i ! k)) + unat (al_size (live i ! k)) \<le> unat (ap_capacity p)"
    using i(2) by (metis placed_page nth_mem)
  show "slices_apart (live i ! k) (live j ! l)"
  proof (cases "i = j")
    case True
    have log: "slices_ok (current i s) (live i)" using live i(1) by (simp add: live_ok_def)
    obtain p q where "slice_placed (current i s) (live i ! k) p" "slice_placed (current i s) (live i ! l) q"
        "disjoint_iv p q"
    proof (cases "k < l")
      case less: True
      show thesis using generation.log_disjoint [OF log less] assms(3) True that by blast
    next
      case False
      then have "l < k" using assms(4) True by simp
      from generation.log_disjoint [OF log this assms(2)] show thesis
        using that disjoint_iv_sym by blast
    qed
    from same_generation_apart [OF this d(1)] show ?thesis by (simp add: True)
  next
    case False
    obtain p q where p: "p < length (af_pages (current i s))"
        "al_storage (live i ! k) = Some (ap_storage (af_pages (current i s) ! p))"
      and q: "q < length (af_pages (current j s))"
        "al_storage (live j ! l) = Some (ap_storage (af_pages (current j s) ! q))"
      using i(2) j(2) by (metis placed_page)
    have "ap_storage (af_pages (current i s) ! p) \<in> set (storages (current i s))"
        "ap_storage (af_pages (current j s) ! q) \<in> set (storages (current j s))"
      using p(1) q(1) by (simp_all add: storages_def)
    then show ?thesis using d(2) [OF j(1) False] p(2) q(2) by (auto simp: slices_apart_def)
  qed
qed

subsection \<open>Frames and the GPU\<close>

text \<open>
  C7. A frame only takes a generation whose retire serial the GPU has completed, or a new
  one, and leaves every other generation as it is; it starts with an empty generation that
  keeps the pages the last frame needed, giving back at most one page. It is refused, or
  left by a lost device, only when every generation is still in use, and changes none.
\<close>

theorem frame_takes_a_completed_generation:
  assumes "arena_reach env s live" and "ShadowArena_BeginFrame env m f c s = (r, s')"
  shows "if r = Inr True
    then \<exists>i fs. currentGeneration s' = Some i \<and> ar_frameStates s' ! i = fs \<and>
      lin_pos fs = 0 \<and> af_retireSerial fs = 0 \<and> af_frameSerial fs = f \<and>
      (\<forall>j < length (ar_frameStates s). j \<noteq> i \<longrightarrow> ar_frameStates s' ! j = ar_frameStates s ! j) \<and>
      (i < length (ar_frameStates s) \<longrightarrow>
        af_retireSerial (ar_frameStates s ! i) \<le> c \<and>
        (\<exists>n. af_pages fs = take n (af_pages (ar_frameStates s ! i))) \<and>
        lin_pos (ar_frameStates s ! i) \<le> unat (af_totalCapacity fs) \<and>
        unat (af_totalCapacity (ar_frameStates s ! i))
          \<le> unat (af_totalCapacity fs) + unat (ar_arenaPageSize s)) \<and>
      (i \<ge> length (ar_frameStates s) \<longrightarrow> (\<forall>fs \<in> set (ar_frameStates s). c < af_retireSerial fs))
    else ar_frameStates s' = ar_frameStates s \<and>
      (ShadowArena_IsInitialized s \<longrightarrow> (\<forall>fs \<in> set (ar_frameStates s). c < af_retireSerial fs))"
proof -
  have ok: "arena_ok s" using reach_run_ok [OF assms(1)] by simp
  from ok assms(2) show ?thesis
  proof (cases rule: BeginFrame_cases)
    case idle
    then show ?thesis by auto
  next
    case (reused i s1)
    have used: "lin_pos (current i s) \<le> unat (af_totalCapacity (current i s))"
      by (rule lin_pos_le [OF arena_ok_frame [OF ok nth_mem [OF reused(2)]]])
    obtain fs n where o: "ar_frameStates s' = (ar_frameStates s)[i := fs]"
        "af_pages fs = take n (af_pages (current i s))"
        "min (unat (af_totalCapacity (current i s))) (lin_pos (current i s)) \<le> unat (af_totalCapacity fs)"
        "unat (af_totalCapacity (current i s)) \<le> unat (af_totalCapacity fs) + unat (ar_arenaPageSize s1)"
        "lin_pos fs = 0" "af_retireSerial fs = 0" "af_frameSerial fs = f" "currentGeneration s' = Some i"
      using reused(6) unfolding opened_def reused(4) by blast
    have kept: "lin_pos (current i s) \<le> unat (af_totalCapacity fs)" using o(3) used by linarith
    have ex: "\<exists>n. af_pages fs = take n (af_pages (current i s))" using o(2) by blast
    show ?thesis
      unfolding if_P [OF reused(1)]
      by (rule exI [of _ i], rule exI [of _ fs])
        (use reused(2,3,8) o(1) o(4-) ex kept in auto)
  next
    case (spilled spill s1)
    obtain fs where o: "ar_frameStates s' = (ar_frameStates s @ [spill])[length (ar_frameStates s) := fs]"
        "lin_pos fs = 0" "af_retireSerial fs = 0" "af_frameSerial fs = f"
        "currentGeneration s' = Some (length (ar_frameStates s))"
      using spilled(6) unfolding opened_def spilled(3) by blast
    then show ?thesis
      using spilled(1,2) by (auto simp: nth_append intro!: exI [of _ "length (ar_frameStates s)"])
  qed
qed

subsection \<open>Allocations and bundles\<close>



text \<open>
  Rolling a bundle back right after it began succeeds and restores the cursor of every
  generation exactly; only pages it added stay.
\<close>

theorem rollback_restores_the_cursor:
  assumes "arena_reach env s live" and "ShadowArena_BeginBundle env requests s = (Inr True, tx, s1)"
    and "ShadowArena_RollbackBundle tx s1 = (b, tx', s2)"
  shows "b \<and> \<not> tx_active tx' \<and>
    (\<forall>j < length (ar_frameStates s). same_cursor (ar_frameStates s ! j) (ar_frameStates s2 ! j))"
proof -
  note run = reach_run_ok [OF assms(1)]
  have "\<not> tx_active tx'"
    using assms(3) run_bundle(2) [OF run assms(2,3)]
    by (auto simp: ShadowArena_RollbackBundle_def Let_def split: if_splits)
  then show ?thesis using run_bundle(2) [OF run assms(2,3)] by blast
qed

text \<open>
  A transaction that another allocation in its generation interrupted neither commits
  nor rolls back: the cursor is no longer the one it ended at, so the slices of the other
  allocation are never given back with it.
\<close>

theorem interrupted_bundle_is_refused:
  assumes "arena_reach env s live" and "ShadowArena_BeginBundle env requests s = (Inr True, tx, s1)"
    and "ShadowArena_Alloc env bytes alignment s1 = (Inr a, s2)" and "al_valid a"
  shows "ShadowArena_CommitBundle tx s2 = (False, tx\<lparr>tx_active := False\<rparr>, partialTransaction s2) \<and>
    ShadowArena_RollbackBundle tx s2 = (False, tx\<lparr>tx_active := False\<rparr>, partialTransaction s2)"
proof -
  let ?request = "\<lparr>br_size = bytes, br_alignment = (if alignment = 0 then 16 else alignment),
    br_tag = TagUnknown\<rparr>"
  obtain i where g: "currentGeneration s = Some i" "end_here i tx s1" "arena_ok s1"
      "live_ok s1 (live(i := live i @ bundle_parts tx))"
    using BeginBundle_granted [OF reach_run_ok [OF assms(1)] assms(2)] by metis
  have run1: "run_ok s1 (live(i := live i @ bundle_parts tx))" using g(3,4) ..
  obtain r1 tx1 u where b: "ShadowArena_BeginBundle env (Some [?request]) s1 = (r1, tx1, u)"
    by (cases "ShadowArena_BeginBundle env (Some [?request]) s1")
  have r1: "r1 = Inr True"
    using assms(3,4) b BeginBundle_refused(3) [OF run1 b]
    by (auto simp: ShadowArena_Alloc_def Let_def no_allocation_def al_valid_def
        split: sum.splits bool.splits)
  obtain k where k: "currentGeneration s1 = Some k" "end_here k tx1 u"
      "length (ar_frameStates u) = length (ar_frameStates s1)" "lin_pos (current k s1) < lin_pos (current k u)"
    using BeginBundle_granted [OF run1 b [unfolded r1]] by metis
  have ki: "k = i" using k(1) g(2) by (simp add: end_here_def)
  obtain h where "ShadowArena_CommitBundle tx1 u = (True, tx1\<lparr>tx_active := False\<rparr>, counted h u)"
    using CommitBundle_here [OF k(2)] .
  then have s2: "s2 = counted h u" using assms(3) b r1 by (simp add: ShadowArena_Alloc_def Let_def)
  have "\<not> exactOwner tx s2"
    using g(2) k(4) by (auto simp: s2 ki end_here_def exactOwner_def lin_pos_def Let_def)
  moreover have "tx_active tx" "unat (tx_generationIndex tx) < length (ar_frameStates s2)"
    using g(2) k(3) current_index(1) [of s1 i] by (simp_all add: end_here_def s2)
  ultimately show ?thesis
    by (simp add: ShadowArena_CommitBundle_def ShadowArena_RollbackBundle_def)
qed

subsection \<open>A concrete run\<close>

text \<open>A driver with 1 GiB of free address space, no budget extension, all buffers in heap 0.\<close>

definition ex_sample :: MemorySample where
  "ex_sample = \<lparr>ms_availVirtual = Some (push_bit 30 1), ms_device = True,
    ms_extMemoryBudget = False, ms_heaps = []\<rparr>"

definition ex_env :: "nat \<Rightarrow> PageEnv" where
  "ex_env n = \<lparr>pe_before = ex_sample, pe_create = BufferCreated 0, pe_discovered = ex_sample,
    pe_after = ex_sample\<rparr>"

definition ex_config :: ArenaConfig where
  "ex_config = \<lparr>cf_maxMb = [], cf_mb = [], cf_frames = ''2'', cf_capture = []\<rparr>"

definition ex_ready :: ArenaState where
  "ex_ready = snd (ShadowArena_Init ex_env ex_sample ex_config (Some 0) arena_init)"

definition ex_frame :: "u64 \<Rightarrow> u64 \<Rightarrow> ArenaState \<Rightarrow> ArenaState" where
  "ex_frame f c s = snd (ShadowArena_BeginFrame ex_env ex_sample f c s)"

definition ex_frame1 :: ArenaState where
  "ex_frame1 = ex_frame 1 0 ex_ready"

definition ex_one :: ArenaState where
  "ex_one = snd (ShadowArena_Alloc ex_env 100 0 ex_frame1)"

definition ex_two :: ArenaState where
  "ex_two = snd (ShadowArena_Alloc ex_env 48 256 ex_one)"

definition ex_slice :: "u32 \<Rightarrow> u32 \<Rightarrow> ShadowArenaAllocation" where
  "ex_slice offset bytes = \<lparr>al_offset = offset, al_size = bytes, al_storage = Some 1,
    al_info = Some (1, offset, bytes)\<rparr>"

lemma ex_ready_reach: "arena_reach ex_env ex_ready (\<lambda>_. [])"
proof -
  have "ResolveArenaFrameCount ex_config = 2" by code_simp
  then have "unat (ResolveArenaFrameCount ex_config) \<le> 2 ^ 31" by simp
  from reach_init [OF reach_start this prod.collapse [symmetric]] show ?thesis
    unfolding ex_ready_def .
qed

lemma ex_frame1_reach: "arena_reach ex_env ex_frame1 (\<lambda>_. [])"
proof -
  have same: "(if b then (\<lambda>_. [])(i := []) else (\<lambda>_. [])) = (\<lambda>_. [])" for b and i :: nat
    by (rule ext) simp
  show ?thesis
    using reach_begin [OF ex_ready_reach prod.collapse [symmetric], of ex_sample 1 0]
    unfolding same ex_frame1_def ex_frame_def .
qed

lemma ex_frame1_current: "currentGeneration ex_frame1 = Some 1"
  by code_simp

lemma ex_alloc1: "ShadowArena_Alloc ex_env 100 0 ex_frame1 = (Inr (ex_slice 0 100), ex_one)"
proof -
  have "fst (ShadowArena_Alloc ex_env 100 0 ex_frame1) = Inr (ex_slice 0 100)" by code_simp
  then show ?thesis by (simp add: ex_one_def prod_eq_iff)
qed

lemma ex_alloc2: "ShadowArena_Alloc ex_env 48 256 ex_one = (Inr (ex_slice 256 48), ex_two)"
proof -
  have "fst (ShadowArena_Alloc ex_env 48 256 ex_one) = Inr (ex_slice 256 48)" by code_simp
  then show ?thesis by (simp add: ex_two_def prod_eq_iff)
qed

lemma ex_one_current: "currentGeneration ex_one = Some 1"
  by code_simp

lemma ex_one_reach: "arena_reach ex_env ex_one ((\<lambda>_. [])(1 := [ex_slice 0 100]))"
  using reach_alloc [OF ex_frame1_reach ex_alloc1]
  by (simp add: ex_frame1_current add_live_def ex_slice_def al_valid_def)

lemma ex_two_reach: "arena_reach ex_env ex_two ((\<lambda>_. [])(1 := [ex_slice 0 100, ex_slice 256 48]))"
  using reach_alloc [OF ex_one_reach ex_alloc2]
  by (simp add: ex_one_current add_live_def ex_slice_def al_valid_def)

lemma live_arena_slices_apart_witness: "slices_apart (ex_slice 0 100) (ex_slice 256 48)"
  using live_arena_slices_apart [OF ex_two_reach, of 0 1 1 1] by simp

lemma arena_accounting_witness:
  "unat (ar_residentBytes ex_two) =
    (\<Sum>fs \<leftarrow> ar_frameStates ex_two. \<Sum>p \<leftarrow> af_pages fs. unat (ap_capacity p))"
  using arena_accounting [OF ex_two_reach] by blast

lemma frame_takes_a_completed_generation_witness:
  "\<exists>i. currentGeneration ex_frame1 = Some i \<and> lin_pos (ar_frameStates ex_frame1 ! i) = 0"
proof -
  have "fst (ShadowArena_BeginFrame ex_env ex_sample 1 0 ex_ready) = Inr True" by code_simp
  then have "ShadowArena_BeginFrame ex_env ex_sample 1 0 ex_ready = (Inr True, ex_frame1)"
    by (simp add: ex_frame1_def ex_frame_def prod_eq_iff)
  from frame_takes_a_completed_generation [OF ex_ready_reach this] show ?thesis by auto
qed


definition ex_requests :: "ShadowArenaBundleRequest list" where
  "ex_requests = [\<lparr>br_size = 24, br_alignment = 0, br_tag = TagPosition\<rparr>,
    \<lparr>br_size = 10, br_alignment = 4, br_tag = TagIndex\<rparr>]"

definition ex_begun :: "ShadowArenaBundleTransaction \<times> ArenaState" where
  "ex_begun = snd (ShadowArena_BeginBundle ex_env (Some ex_requests) ex_one)"

lemma ex_begin:
  "ShadowArena_BeginBundle ex_env (Some ex_requests) ex_one = (Inr True, fst ex_begun, snd ex_begun)"
proof -
  have "fst (ShadowArena_BeginBundle ex_env (Some ex_requests) ex_one) = Inr True" by code_simp
  then show ?thesis by (simp add: ex_begun_def prod_eq_iff)
qed


lemma rollback_restores_the_cursor_witness:
  "fst (ShadowArena_RollbackBundle (fst ex_begun) (snd ex_begun))"
proof -
  obtain b tx' s2 where e: "ShadowArena_RollbackBundle (fst ex_begun) (snd ex_begun) = (b, tx', s2)"
    by (cases "ShadowArena_RollbackBundle (fst ex_begun) (snd ex_begun)")
  from rollback_restores_the_cursor [OF ex_one_reach ex_begin e] show ?thesis by (simp add: e)
qed

lemma interrupted_bundle_is_refused_witness:
  "\<not> fst (ShadowArena_CommitBundle (fst ex_begun) (snd (ShadowArena_Alloc ex_env 8 0 (snd ex_begun))))"
proof -
  have "fst (ShadowArena_Alloc ex_env 8 0 (snd ex_begun)) = Inr (ex_slice 160 8)" by code_simp
  then have e: "ShadowArena_Alloc ex_env 8 0 (snd ex_begun) =
      (Inr (ex_slice 160 8), snd (ShadowArena_Alloc ex_env 8 0 (snd ex_begun)))"
    by (simp add: prod_eq_iff)
  have "al_valid (ex_slice 160 8)" by (simp add: ex_slice_def al_valid_def)
  from interrupted_bundle_is_refused [OF ex_one_reach ex_begin e this] show ?thesis by simp
qed

subsection \<open>Two boundary behaviours\<close>

text \<open>
  A generation that no \<open>EndFrame\<close> sealed counts as completed: with nothing completed
  by the GPU, the frame with serial 3 takes the generation in which frame 1 handed out a
  slice, and hands out the same bytes again.
\<close>

theorem unsealed_generation_is_reused:
  "arena_reach ex_env ex_one ((\<lambda>_. [])(1 := [ex_slice 0 100])) \<and>
    fst (ShadowArena_BeginFrame ex_env ex_sample 3 0 ex_one) = Inr True \<and>
    fst (ShadowArena_Alloc ex_env 100 0 (ex_frame 3 0 ex_one)) = Inr (ex_slice 0 100)"
proof (intro conjI)
  show "fst (ShadowArena_BeginFrame ex_env ex_sample 3 0 ex_one) = Inr True" by code_simp
  show "fst (ShadowArena_Alloc ex_env 100 0 (ex_frame 3 0 ex_one)) = Inr (ex_slice 0 100)" by code_simp
qed (rule ex_one_reach)

definition ex_lost_env :: "nat \<Rightarrow> PageEnv" where
  "ex_lost_env n = (ex_env n)\<lparr>pe_create := if n = 1 then BufferLost else BufferCreated 0\<rparr>"

definition ex_lost :: ArenaState where
  "ex_lost = snd (ShadowArena_Init ex_lost_env ex_sample ex_config (Some 0) arena_init)"

text \<open>
  An initialization that a lost device interrupts leaves the generations it had made, so
  the arena counts as initialized: the next call for the same device reports success with
  a generation that has no page.
\<close>

theorem interrupted_init_counts_as_initialized:
  "fst (ShadowArena_Init ex_lost_env ex_sample ex_config (Some 0) arena_init) = Inl DeviceLost \<and>
   map (\<lambda>fs. map ap_capacity (af_pages fs)) (ar_frameStates ex_lost) = [[67108864], []] \<and>
   fst (ShadowArena_Init ex_lost_env ex_sample ex_config (Some 0) ex_lost) = Inr True"
proof (intro conjI)
  show "fst (ShadowArena_Init ex_lost_env ex_sample ex_config (Some 0) arena_init) = Inl DeviceLost"
    by code_simp
  show "map (\<lambda>fs. map ap_capacity (af_pages fs)) (ar_frameStates ex_lost) = [[67108864], []]"
    by code_simp
  show "fst (ShadowArena_Init ex_lost_env ex_sample ex_config (Some 0) ex_lost) = Inr True"
    by code_simp
qed

end
