(* ===== verification/BufferSpans.thy ===== *)
theory BufferSpans
  imports War3Prelude
begin

section \<open>CPU-readable spans and exact index domains\<close>

text \<open>
  \<open>src/src/d3d9/war3/memory/war3_cpu_readable_buffer_span.h\<close> and \<open>.cpp\<close>: the checks
  that admit a range of a mapped buffer for reading, the exact range of vertices an index
  buffer refers to, and the rewriting of the indices to a compacted vertex slice. Memory is
  flat: a function from 32-bit addresses to bytes, little-endian, address 0 is null.
  Writes to it are explicit, so overlapping source and destination mean what they do in
  the code.
\<close>

subsection \<open>Memory\<close>

type_synonym memory = "u32 \<Rightarrow> u8"

definition read16 :: "memory \<Rightarrow> u32 \<Rightarrow> u16" where
  "read16 mem a = ucast (mem a) OR push_bit 8 (ucast (mem (a + 1)))"

definition read32 :: "memory \<Rightarrow> u32 \<Rightarrow> u32" where
  "read32 mem a = ucast (read16 mem a) OR push_bit 16 (ucast (read16 mem (a + 2)))"

definition write16 :: "u32 \<Rightarrow> u16 \<Rightarrow> memory \<Rightarrow> memory" where
  "write16 a v mem = mem(a := ucast v, a + 1 := ucast (drop_bit 8 v))"

definition write32 :: "u32 \<Rightarrow> u32 \<Rightarrow> memory \<Rightarrow> memory" where
  "write32 a v mem = write16 (a + 2) (ucast (drop_bit 16 v)) (write16 a (ucast v) mem)"

text \<open>\<open>memcpy\<close>: the n bytes at the destination become those at the source.\<close>

definition memcpy :: "u32 \<Rightarrow> u32 \<Rightarrow> u64 \<Rightarrow> memory \<Rightarrow> memory" where
  "memcpy dst src n mem = (\<lambda>a. if ucast (a - dst) < n then mem (src + (a - dst)) else mem a)"

subsection \<open>Spans\<close>

datatype War3CpuReadableSpanRejectReason =
    RejectNone | NullBase | NotCpuReadable | MissingOwner | MissingGeneration
  | OffsetOutsideAllocation | LengthOutsideAllocation | AddressOverflow

fun reasonIndex :: "War3CpuReadableSpanRejectReason \<Rightarrow> nat" where
  "reasonIndex RejectNone = 0"
| "reasonIndex NullBase = 1"
| "reasonIndex NotCpuReadable = 2"
| "reasonIndex MissingOwner = 3"
| "reasonIndex MissingGeneration = 4"
| "reasonIndex OffsetOutsideAllocation = 5"
| "reasonIndex LengthOutsideAllocation = 6"
| "reasonIndex AddressOverflow = 7"

definition kRejectReasonCount :: nat where
  "kRejectReasonCount = reasonIndex AddressOverflow + 1"

record War3CpuReadableBufferSpan =
  sp_data :: u32
  sp_length :: u64
  sp_ownerIdentity :: u32
  sp_identityGeneration :: u64
  sp_allocationGeneration :: u64
  sp_contentGeneration :: u64
  sp_rejectReason :: War3CpuReadableSpanRejectReason

definition span_init :: War3CpuReadableBufferSpan where
  "span_init = \<lparr>sp_data = 0, sp_length = 0, sp_ownerIdentity = 0, sp_identityGeneration = 0,
     sp_allocationGeneration = 0, sp_contentGeneration = 0, sp_rejectReason = NullBase\<rparr>"

definition span_ok :: "War3CpuReadableBufferSpan \<Rightarrow> bool" where
  "span_ok p \<longleftrightarrow>
     sp_data p \<noteq> 0 \<and> sp_length p \<noteq> 0 \<and> sp_ownerIdentity p \<noteq> 0 \<and>
     sp_identityGeneration p \<noteq> 0 \<and> sp_allocationGeneration p \<noteq> 0 \<and>
     sp_contentGeneration p \<noteq> 0 \<and> sp_rejectReason p = RejectNone"

record War3CpuReadableBufferSpanInput =
  si_allocationBase :: u32
  si_allocationBytes :: u64
  si_requestedOffset :: u64
  si_requestedBytes :: u64
  si_ownerIdentity :: u32
  si_identityGeneration :: u64
  si_allocationGeneration :: u64
  si_contentGeneration :: u64
  si_cpuReadable :: bool

subsection \<open>The global diagnostics\<close>

record SpanCounters =
  sc_acceptedCount :: u64
  sc_rejectedCount :: u64
  sc_rejectCounts :: "u64 list"
  sc_lastRejectReason :: u64
  sc_lastAllocationBytes :: u64
  sc_lastRequestedOffset :: u64
  sc_lastRequestedBytes :: u64
  sc_lastOwnerIdentity :: u64
  sc_lastIdentityGeneration :: u64
  sc_lastAllocationGeneration :: u64
  sc_lastContentGeneration :: u64

record ScanCounters =
  xc_scannedBytes :: u64
  xc_nonHostCachedScanCount :: u64
  xc_nonHostCachedScannedBytes :: u64
  xc_bulkReadCount :: u64
  xc_bulkReadBytes :: u64
  xc_directReadCount :: u64
  xc_oversizeFallbackCount :: u64

definition span_counters_init :: SpanCounters where
  "span_counters_init = \<lparr>sc_acceptedCount = 0, sc_rejectedCount = 0,
     sc_rejectCounts = replicate kRejectReasonCount 0, sc_lastRejectReason = 0,
     sc_lastAllocationBytes = 0, sc_lastRequestedOffset = 0, sc_lastRequestedBytes = 0,
     sc_lastOwnerIdentity = 0, sc_lastIdentityGeneration = 0, sc_lastAllocationGeneration = 0,
     sc_lastContentGeneration = 0\<rparr>"

definition scan_counters_init :: ScanCounters where
  "scan_counters_init = \<lparr>xc_scannedBytes = 0, xc_nonHostCachedScanCount = 0,
     xc_nonHostCachedScannedBytes = 0, xc_bulkReadCount = 0, xc_bulkReadBytes = 0,
     xc_directReadCount = 0, xc_oversizeFallbackCount = 0\<rparr>"

definition Reject ::
  "War3CpuReadableBufferSpanInput \<Rightarrow> War3CpuReadableSpanRejectReason \<Rightarrow> SpanCounters \<Rightarrow>
    War3CpuReadableBufferSpan \<times> SpanCounters" where
  "Reject input reason c =
    (span_init\<lparr>sp_ownerIdentity := si_ownerIdentity input,
       sp_identityGeneration := si_identityGeneration input,
       sp_allocationGeneration := si_allocationGeneration input,
       sp_contentGeneration := si_contentGeneration input,
       sp_rejectReason := reason\<rparr>,
     let i = reasonIndex reason
     in c\<lparr>sc_rejectedCount := sc_rejectedCount c + 1,
          sc_rejectCounts := (sc_rejectCounts c)[i := sc_rejectCounts c ! i + 1],
          sc_lastRejectReason := of_nat i,
          sc_lastAllocationBytes := si_allocationBytes input,
          sc_lastRequestedOffset := si_requestedOffset input,
          sc_lastRequestedBytes := si_requestedBytes input,
          sc_lastOwnerIdentity := ucast (si_ownerIdentity input),
          sc_lastIdentityGeneration := si_identityGeneration input,
          sc_lastAllocationGeneration := si_allocationGeneration input,
          sc_lastContentGeneration := si_contentGeneration input\<rparr>)"

definition RejectCount :: "War3CpuReadableSpanRejectReason \<Rightarrow> SpanCounters \<Rightarrow> u64" where
  "RejectCount reason c =
    (let i = reasonIndex reason
     in if i < length (sc_rejectCounts c) then sc_rejectCounts c ! i else 0)"

definition BuildWar3CpuReadableBufferSpan ::
  "War3CpuReadableBufferSpanInput \<Rightarrow> SpanCounters \<Rightarrow> War3CpuReadableBufferSpan \<times> SpanCounters" where
  "BuildWar3CpuReadableBufferSpan input c =
    (if si_allocationBase input = 0 then Reject input NullBase c
     else if \<not> si_cpuReadable input then Reject input NotCpuReadable c
     else if si_ownerIdentity input = 0 then Reject input MissingOwner c
     else if si_identityGeneration input = 0 \<or> si_allocationGeneration input = 0 \<or>
             si_contentGeneration input = 0 then Reject input MissingGeneration c
     else if si_requestedOffset input > si_allocationBytes input
     then Reject input OffsetOutsideAllocation c
     else if si_requestedBytes input = 0 \<or>
             si_requestedBytes input > si_allocationBytes input - si_requestedOffset input
     then Reject input LengthOutsideAllocation c
     else if si_requestedOffset input > ucast (UINT32_MAX - si_allocationBase input)
     then Reject input AddressOverflow c
     else
       (\<lparr>sp_data = si_allocationBase input + ucast (si_requestedOffset input),
         sp_length = si_requestedBytes input,
         sp_ownerIdentity = si_ownerIdentity input,
         sp_identityGeneration = si_identityGeneration input,
         sp_allocationGeneration = si_allocationGeneration input,
         sp_contentGeneration = si_contentGeneration input,
         sp_rejectReason = RejectNone\<rparr>,
        c\<lparr>sc_acceptedCount := sc_acceptedCount c + 1\<rparr>))"

record War3CpuReadableSpanDiagnostics =
  sd_acceptedCount :: u64
  sd_rejectedCount :: u64
  sd_nullBaseRejectCount :: u64
  sd_notCpuReadableRejectCount :: u64
  sd_missingOwnerRejectCount :: u64
  sd_missingGenerationRejectCount :: u64
  sd_offsetOutsideAllocationRejectCount :: u64
  sd_lengthOutsideAllocationRejectCount :: u64
  sd_addressOverflowRejectCount :: u64
  sd_lastRejectReason :: u64
  sd_lastAllocationBytes :: u64
  sd_lastRequestedOffset :: u64
  sd_lastRequestedBytes :: u64
  sd_lastOwnerIdentity :: u64
  sd_lastIdentityGeneration :: u64
  sd_lastAllocationGeneration :: u64
  sd_lastContentGeneration :: u64
  sd_exactIndexDomainScannedBytes :: u64
  sd_exactIndexDomainNonHostCachedScanCount :: u64
  sd_exactIndexDomainNonHostCachedScannedBytes :: u64
  sd_exactIndexDomainBulkReadCount :: u64
  sd_exactIndexDomainBulkReadBytes :: u64
  sd_exactIndexDomainDirectReadCount :: u64
  sd_exactIndexDomainOversizeFallbackCount :: u64

definition QueryWar3CpuReadableSpanDiagnostics ::
  "SpanCounters \<Rightarrow> ScanCounters \<Rightarrow> War3CpuReadableSpanDiagnostics" where
  "QueryWar3CpuReadableSpanDiagnostics c x =
    \<lparr>sd_acceptedCount = sc_acceptedCount c,
     sd_rejectedCount = sc_rejectedCount c,
     sd_nullBaseRejectCount = RejectCount NullBase c,
     sd_notCpuReadableRejectCount = RejectCount NotCpuReadable c,
     sd_missingOwnerRejectCount = RejectCount MissingOwner c,
     sd_missingGenerationRejectCount = RejectCount MissingGeneration c,
     sd_offsetOutsideAllocationRejectCount = RejectCount OffsetOutsideAllocation c,
     sd_lengthOutsideAllocationRejectCount = RejectCount LengthOutsideAllocation c,
     sd_addressOverflowRejectCount = RejectCount AddressOverflow c,
     sd_lastRejectReason = sc_lastRejectReason c,
     sd_lastAllocationBytes = sc_lastAllocationBytes c,
     sd_lastRequestedOffset = sc_lastRequestedOffset c,
     sd_lastRequestedBytes = sc_lastRequestedBytes c,
     sd_lastOwnerIdentity = sc_lastOwnerIdentity c,
     sd_lastIdentityGeneration = sc_lastIdentityGeneration c,
     sd_lastAllocationGeneration = sc_lastAllocationGeneration c,
     sd_lastContentGeneration = sc_lastContentGeneration c,
     sd_exactIndexDomainScannedBytes = xc_scannedBytes x,
     sd_exactIndexDomainNonHostCachedScanCount = xc_nonHostCachedScanCount x,
     sd_exactIndexDomainNonHostCachedScannedBytes = xc_nonHostCachedScannedBytes x,
     sd_exactIndexDomainBulkReadCount = xc_bulkReadCount x,
     sd_exactIndexDomainBulkReadBytes = xc_bulkReadBytes x,
     sd_exactIndexDomainDirectReadCount = xc_directReadCount x,
     sd_exactIndexDomainOversizeFallbackCount = xc_oversizeFallbackCount x\<rparr>"

subsection \<open>The exact index domain\<close>

record War3ExactIndexVertexDomain =
  dom_firstVertex :: u32
  dom_vertexCount :: u32
  dom_minIndex :: u32
  dom_maxIndex :: u32
  dom_valid :: bool

definition domain_init :: War3ExactIndexVertexDomain where
  "domain_init = \<lparr>dom_firstVertex = 0, dom_vertexCount = 0, dom_minIndex = 0, dom_maxIndex = 0,
     dom_valid = False\<rparr>"

definition readIndex :: "memory \<Rightarrow> u32 \<Rightarrow> u32 \<Rightarrow> nat \<Rightarrow> u32" where
  "readIndex mem data indexElementBytes i =
    (if indexElementBytes = 2 then ucast (read16 mem (data + of_nat i * 2))
     else read32 mem (data + of_nat i * 4))"

text \<open>
  The scan; vertices are 64-bit integers, and a 32-bit index plus a signed 32-bit base
  stays far inside them. None is the early exit on a vertex outside the capacity.
\<close>

fun scanIndices ::
  "memory \<Rightarrow> u32 \<Rightarrow> u32 \<Rightarrow> int \<Rightarrow> int \<Rightarrow> nat list \<Rightarrow> u32 \<times> u32 \<times> int \<times> int \<Rightarrow>
    (u32 \<times> u32 \<times> int \<times> int) option" where
  "scanIndices mem data bytes base capacity [] acc = Some acc"
| "scanIndices mem data bytes base capacity (i # is) (minIndex, maxIndex, firstVertex, lastVertex) =
    (let index = readIndex mem data bytes i;
         vertex = uint index + base
     in if vertex < 0 \<or> vertex \<ge> capacity then None
        else scanIndices mem data bytes base capacity is
               (min minIndex index, max maxIndex index, min firstVertex vertex, max lastVertex vertex))"

definition requiredIndexBytes :: "u32 \<Rightarrow> u32 \<Rightarrow> u64" where
  "requiredIndexBytes indexElementBytes indexCount = ucast indexElementBytes * ucast indexCount"

definition scanAdmitted :: "War3CpuReadableBufferSpan \<Rightarrow> u32 \<Rightarrow> u32 \<Rightarrow> u32 \<Rightarrow> bool" where
  "scanAdmitted indices indexElementBytes indexCount vertexCapacity \<longleftrightarrow>
     span_ok indices \<and> (indexElementBytes = 2 \<or> indexElementBytes = 4) \<and>
     indexCount \<noteq> 0 \<and> vertexCapacity \<noteq> 0"

definition ComputeWar3ExactIndexVertexDomain ::
  "memory \<Rightarrow> War3CpuReadableBufferSpan \<Rightarrow> u32 \<Rightarrow> u32 \<Rightarrow> u32 \<Rightarrow> u32 \<Rightarrow> War3ExactIndexVertexDomain" where
  "ComputeWar3ExactIndexVertexDomain mem indices indexElementBytes indexCount baseVertex vertexCapacity =
    (if \<not> scanAdmitted indices indexElementBytes indexCount vertexCapacity then domain_init
     else if requiredIndexBytes indexElementBytes indexCount > sp_length indices then domain_init
     else case scanIndices mem (sp_data indices) indexElementBytes (sint baseVertex)
                 (uint vertexCapacity) [0..<unat indexCount] (UINT32_MAX, 0, 2 ^ 63 - 1, -1) of
       None \<Rightarrow> domain_init
     | Some (minIndex, maxIndex, firstVertex, lastVertex) \<Rightarrow>
         if firstVertex < 0 \<or> lastVertex < firstVertex \<or>
            lastVertex - firstVertex + 1 > uint UINT32_MAX then domain_init
         else
           let vertexCount = word_of_int (lastVertex - firstVertex + 1)
           in \<lparr>dom_firstVertex = word_of_int firstVertex, dom_vertexCount = vertexCount,
               dom_minIndex = minIndex, dom_maxIndex = maxIndex, dom_valid = (vertexCount \<noteq> 0)\<rparr>)"

record War3ExactIndexDomainScanInput =
  ds_indices :: War3CpuReadableBufferSpan
  ds_indexElementBytes :: u32
  ds_indexCount :: u32
  ds_baseVertex :: u32
  ds_vertexCapacity :: u32
  ds_sourceHostCached :: bool
  ds_bulkReadEnabled :: bool

definition kExactIndexDomainBulkReadCapacity :: u64 where
  "kExactIndexDomainBulkReadCapacity = 64 * 1024"

definition RecordExactIndexDomainScan ::
  "War3ExactIndexDomainScanInput \<Rightarrow> ScanCounters \<Rightarrow> ScanCounters" where
  "RecordExactIndexDomainScan input x =
    (let requiredBytes = requiredIndexBytes (ds_indexElementBytes input) (ds_indexCount input);
         x = x\<lparr>xc_scannedBytes := xc_scannedBytes x + requiredBytes\<rparr>
     in if \<not> ds_sourceHostCached input
        then x\<lparr>xc_nonHostCachedScanCount := xc_nonHostCachedScanCount x + 1,
               xc_nonHostCachedScannedBytes := xc_nonHostCachedScannedBytes x + requiredBytes\<rparr>
        else x)"

text \<open>The first argument is the address of the thread's bulk buffer.\<close>

definition ComputeWar3ExactIndexVertexDomainPrepared ::
  "u32 \<Rightarrow> War3ExactIndexDomainScanInput \<Rightarrow> memory \<Rightarrow> ScanCounters \<Rightarrow>
    War3ExactIndexVertexDomain \<times> memory \<times> ScanCounters" where
  "ComputeWar3ExactIndexVertexDomainPrepared bulkRead input mem x =
    (let indices = ds_indices input;
         requiredBytes = requiredIndexBytes (ds_indexElementBytes input) (ds_indexCount input)
     in if \<not> scanAdmitted indices (ds_indexElementBytes input) (ds_indexCount input)
               (ds_vertexCapacity input) then (domain_init, mem, x)
        else if requiredBytes > sp_length indices then (domain_init, mem, x)
        else
          let x = RecordExactIndexDomainScan input x
          in if ds_bulkReadEnabled input \<and> \<not> ds_sourceHostCached input \<and>
                requiredBytes \<le> kExactIndexDomainBulkReadCapacity
             then
               let mem = memcpy bulkRead (sp_data indices) requiredBytes mem;
                   staged = indices\<lparr>sp_data := bulkRead, sp_length := requiredBytes\<rparr>;
                   x = x\<lparr>xc_bulkReadCount := xc_bulkReadCount x + 1,
                         xc_bulkReadBytes := xc_bulkReadBytes x + requiredBytes\<rparr>
               in (ComputeWar3ExactIndexVertexDomain mem staged (ds_indexElementBytes input)
                     (ds_indexCount input) (ds_baseVertex input) (ds_vertexCapacity input), mem, x)
             else
               let x = (if ds_bulkReadEnabled input \<and> \<not> ds_sourceHostCached input \<and>
                           requiredBytes > kExactIndexDomainBulkReadCapacity
                        then x\<lparr>xc_oversizeFallbackCount := xc_oversizeFallbackCount x + 1\<rparr> else x);
                   x = x\<lparr>xc_directReadCount := xc_directReadCount x + 1\<rparr>
               in (ComputeWar3ExactIndexVertexDomain mem indices (ds_indexElementBytes input)
                     (ds_indexCount input) (ds_baseVertex input) (ds_vertexCapacity input), mem, x))"

subsection \<open>Rebasing\<close>

fun rebaseLoop ::
  "u32 \<Rightarrow> u32 \<Rightarrow> u32 \<Rightarrow> u32 \<Rightarrow> u32 \<Rightarrow> nat list \<Rightarrow> memory \<Rightarrow> bool \<times> memory" where
  "rebaseLoop data bytes minIndex maxIndex output [] mem = (True, mem)"
| "rebaseLoop data bytes minIndex maxIndex output (i # is) mem =
    (let rawIndex = readIndex mem data bytes i;
         rebased = rawIndex - minIndex
     in if rawIndex < minIndex \<or> rawIndex > maxIndex then (False, mem)
        else if bytes = 2 then
          if rebased > 65535 then (False, mem)
          else rebaseLoop data bytes minIndex maxIndex output is
                 (write16 (output + of_nat i * 2) (ucast rebased) mem)
        else rebaseLoop data bytes minIndex maxIndex output is
               (write32 (output + of_nat i * 4) rebased mem))"

definition RebaseWar3ExactIndexDomain ::
  "War3CpuReadableBufferSpan \<Rightarrow> u32 \<Rightarrow> u32 \<Rightarrow> u32 \<Rightarrow> u32 \<Rightarrow> u32 \<Rightarrow> u64 \<Rightarrow> memory \<Rightarrow> bool \<times> memory" where
  "RebaseWar3ExactIndexDomain indices indexElementBytes indexCount minIndex maxIndex output outputBytes mem =
    (let requiredBytes = requiredIndexBytes indexElementBytes indexCount
     in if \<not> span_ok indices \<or> output = 0 \<or> indexCount = 0 \<or> minIndex > maxIndex \<or>
           (indexElementBytes \<noteq> 2 \<and> indexElementBytes \<noteq> 4) then (False, mem)
        else if requiredBytes > sp_length indices \<or> requiredBytes > outputBytes then (False, mem)
        else rebaseLoop (sp_data indices) indexElementBytes minIndex maxIndex output
               [0..<unat indexCount] mem)"

subsection \<open>Reading back\<close>

lemma word_join8: "(ucast (ucast v :: u8) :: u16) OR push_bit 8 (ucast (ucast (drop_bit 8 v) :: u8)) = v"
  by (rule bit_word_eqI) (auto simp: bit_simps)

lemma word_join16: "(ucast (ucast v :: u16) :: u32) OR push_bit 16 (ucast (ucast (drop_bit 16 v) :: u16)) = v"
  by (rule bit_word_eqI) (auto simp: bit_simps)

lemma read_write16: "read16 (write16 a v mem) a = v"
  by (simp add: read16_def write16_def word_join8)

lemma read_write32: "read32 (write32 a v mem) a = v"
proof -
  have lo: "read16 (write32 a v mem) a = ucast v"
    by (simp add: write32_def read16_def write16_def word_join8)
  have "read16 (write32 a v mem) (a + 2) = ucast (drop_bit 16 v)"
    unfolding write32_def by (rule read_write16)
  with lo show ?thesis by (simp add: read32_def word_join16)
qed

lemma unat_add_small: "unat a + k < 2 ^ 32 \<Longrightarrow> unat (a + of_nat k :: u32) = unat a + k"
  by (simp add: unat_plus_if' unat_of_nat take_bit_nat_eq_self)

lemmas unat_add_123 =
  unat_add_small [of _ 1, simplified] unat_add_small [of _ 2, simplified] unat_add_small [of _ 3, simplified]

lemma write16_outside:
  assumes "unat a + 2 \<le> 2 ^ 32" and "unat b < unat a \<or> unat a + 2 \<le> unat b"
  shows "write16 a v mem b = mem b"
  using assms by (auto simp: write16_def unat_add_123)

lemma write32_outside:
  assumes "unat a + 4 \<le> 2 ^ 32" and "unat b < unat a \<or> unat a + 4 \<le> unat b"
  shows "write32 a v mem b = mem b"
proof -
  have "unat (a + 2) = unat a + 2" using assms(1) by (simp add: unat_add_123)
  then show ?thesis
    unfolding write32_def using assms by (auto simp: write16_outside)
qed

lemma read16_cong:
  assumes "unat a + 2 \<le> 2 ^ 32" and "\<And>b. unat a \<le> unat b \<Longrightarrow> unat b < unat a + 2 \<Longrightarrow> m b = m' b"
  shows "read16 m a = read16 m' a"
proof -
  have "unat (a + 1) = unat a + 1" using assms(1) by (simp add: unat_add_123)
  with assms(2) [of a] assms(2) [of "a + 1"] show ?thesis by (simp add: read16_def)
qed

lemma read32_cong:
  assumes "unat a + 4 \<le> 2 ^ 32" and "\<And>b. unat a \<le> unat b \<Longrightarrow> unat b < unat a + 4 \<Longrightarrow> m b = m' b"
  shows "read32 m a = read32 m' a"
proof -
  have e: "unat (a + 2) = unat a + 2" using assms(1) by (simp add: unat_add_123)
  have "read16 m a = read16 m' a" by (rule read16_cong) (use assms in auto)
  moreover have "read16 m (a + 2) = read16 m' (a + 2)" by (rule read16_cong) (use assms e in auto)
  ultimately show ?thesis by (simp add: read32_def)
qed

text \<open>The element at an index, for either width; the index is inside the n elements of the range.\<close>

definition index_range_ok :: "u32 \<Rightarrow> u32 \<Rightarrow> nat \<Rightarrow> bool" where
  "index_range_ok data bytes n \<longleftrightarrow> (bytes = 2 \<or> bytes = 4) \<and> unat data + unat bytes * n \<le> 2 ^ 32"

lemma element_inside:
  assumes ok: "index_range_ok data bytes n" and "i < n"
  shows "unat (data + of_nat i * bytes) = unat data + unat bytes * i"
    and "unat data + unat bytes * i + unat bytes \<le> 2 ^ 32"
    and "unat data + unat bytes * i + unat bytes \<le> unat data + unat bytes * n"
proof -
  have le: "unat bytes * i + unat bytes \<le> unat bytes * n"
    using mult_le_mono2 [of "Suc i" n "unat bytes"] assms(2) by simp
  then show "unat data + unat bytes * i + unat bytes \<le> unat data + unat bytes * n" by simp
  from le ok show b: "unat data + unat bytes * i + unat bytes \<le> 2 ^ 32"
    by (simp add: index_range_ok_def)
  have "of_nat i * bytes = (of_nat (unat bytes * i) :: u32)" by (simp add: mult.commute)
  moreover have "unat data + unat bytes * i < 2 ^ 32"
    using b ok by (auto simp: index_range_ok_def)
  ultimately show "unat (data + of_nat i * bytes) = unat data + unat bytes * i"
    by (simp only: unat_add_small)
qed

lemma readIndex_cong:
  assumes ok: "index_range_ok data bytes n" and i: "i < n"
    and same: "\<And>b. unat data + unat bytes * i \<le> unat b \<Longrightarrow>
                 unat b < unat data + unat bytes * i + unat bytes \<Longrightarrow> m b = m' b"
  shows "readIndex m data bytes i = readIndex m' data bytes i"
proof (cases "bytes = 2")
  case True
  with element_inside [OF ok i] same show ?thesis
    by (auto simp: readIndex_def intro!: arg_cong [where f = ucast] read16_cong)
next
  case False
  with ok have "bytes = 4" by (simp add: index_range_ok_def)
  with element_inside [OF ok i] same show ?thesis
    by (auto simp: readIndex_def intro!: read32_cong)
qed

subsection \<open>The scan\<close>

abbreviation vertexAt :: "memory \<Rightarrow> u32 \<Rightarrow> u32 \<Rightarrow> int \<Rightarrow> nat \<Rightarrow> int" where
  "vertexAt mem data bytes base i \<equiv> uint (readIndex mem data bytes i) + base"

lemma scanIndices_some:
  assumes "\<forall>i\<in>set is. 0 \<le> vertexAt mem data bytes base i \<and> vertexAt mem data bytes base i < cap"
  shows "scanIndices mem data bytes base cap is (mn, mx, f, l) =
    Some (fold (min \<circ> readIndex mem data bytes) is mn, fold (max \<circ> readIndex mem data bytes) is mx,
          fold (min \<circ> vertexAt mem data bytes base) is f, fold (max \<circ> vertexAt mem data bytes base) is l)"
  using assms by (induction "is" arbitrary: mn mx f l) (auto simp: Let_def min.commute max.commute)

lemma scanIndices_none:
  assumes "\<exists>i\<in>set is. vertexAt mem data bytes base i < 0 \<or> vertexAt mem data bytes base i \<ge> cap"
  shows "scanIndices mem data bytes base cap is acc = None"
  using assms
proof (induction "is" arbitrary: acc)
  case (Cons i "is")
  obtain mn mx f l where acc: "acc = (mn, mx, f, l)" by (cases acc)
  show ?case
  proof (cases "vertexAt mem data bytes base i < 0 \<or> vertexAt mem data bytes base i \<ge> cap")
    case False
    with Cons.prems have "\<exists>i\<in>set is. vertexAt mem data bytes base i < 0 \<or> vertexAt mem data bytes base i \<ge> cap"
      by auto
    from Cons.IH [OF this] False show ?thesis by (simp add: acc Let_def del: not_less not_le)
  qed (simp add: acc Let_def)
qed simp

lemma fold_min_eq:
  fixes f :: "'b \<Rightarrow> 'a::linorder"
  shows "fold (min \<circ> f) xs a = Min (insert a (f ` set xs))"
proof -
  have "fold (min \<circ> f) xs a = fold min (map f xs) a" by (simp add: fold_map)
  also have "\<dots> = Min (set (a # map f xs))" by (simp only: Min.set_eq_fold)
  finally show ?thesis by simp
qed

lemma fold_max_eq:
  fixes f :: "'b \<Rightarrow> 'a::linorder"
  shows "fold (max \<circ> f) xs a = Max (insert a (f ` set xs))"
proof -
  have "fold (max \<circ> f) xs a = fold max (map f xs) a" by (simp add: fold_map)
  also have "\<dots> = Max (set (a # map f xs))" by (simp only: Max.set_eq_fold)
  finally show ?thesis by simp
qed

lemma Min_insert_top: "finite A \<Longrightarrow> A \<noteq> {} \<Longrightarrow> \<forall>x\<in>A. x \<le> a \<Longrightarrow> Min (insert a A) = Min A"
  using Min_in [of A] by (simp add: min_absorb2)

lemma Max_insert_bot: "finite A \<Longrightarrow> A \<noteq> {} \<Longrightarrow> \<forall>x\<in>A. a \<le> x \<Longrightarrow> Max (insert a A) = Max A"
  using Max_in [of A] by (simp add: max_absorb2)

abbreviation scannedIndices :: "memory \<Rightarrow> u32 \<Rightarrow> u32 \<Rightarrow> u32 \<Rightarrow> u32 set" where
  "scannedIndices mem data bytes n \<equiv> readIndex mem data bytes ` {0..<unat n}"

abbreviation scannedVertices :: "memory \<Rightarrow> u32 \<Rightarrow> u32 \<Rightarrow> u32 \<Rightarrow> int \<Rightarrow> int set" where
  "scannedVertices mem data bytes n base \<equiv> vertexAt mem data bytes base ` {0..<unat n}"

lemma scan_exact:
  assumes "n \<noteq> 0"
    and all: "\<forall>i<unat n. 0 \<le> vertexAt mem data bytes base i \<and> vertexAt mem data bytes base i < uint (cap :: u32)"
  shows "scanIndices mem data bytes base (uint cap) [0..<unat n] (UINT32_MAX, 0, 2 ^ 63 - 1, -1) =
    Some (Min (scannedIndices mem data bytes n), Max (scannedIndices mem data bytes n),
      Min (scannedVertices mem data bytes n base), Max (scannedVertices mem data bytes n base))"
proof -
  have ne: "{0..<unat n} \<noteq> {}" using assms(1) by (simp add: unat_gt_0)
  have "uint cap < 2 ^ 32" using uint_lt2p [of cap] by simp
  then have hi: "\<forall>v\<in>scannedVertices mem data bytes n base. v \<le> 2 ^ 63 - 1"
    using all by fastforce
  have lo: "\<forall>v\<in>scannedVertices mem data bytes n base. -1 \<le> v"
    using all by force
  have fin: "finite (scannedVertices mem data bytes n base)"
    "finite (scannedIndices mem data bytes n)" by simp_all
  have mn: "Min (insert UINT32_MAX (scannedIndices mem data bytes n)) = Min (scannedIndices mem data bytes n)"
    by (rule Min_insert_top) (use ne in auto)
  have mx: "Max (insert 0 (scannedIndices mem data bytes n)) = Max (scannedIndices mem data bytes n)"
    by (rule Max_insert_bot) (use ne in auto)
  have fv: "Min (insert (2 ^ 63 - 1) (scannedVertices mem data bytes n base)) = Min (scannedVertices mem data bytes n base)"
    by (rule Min_insert_top [OF fin(1) _ hi]) (use ne in auto)
  have lv: "Max (insert (-1) (scannedVertices mem data bytes n base)) = Max (scannedVertices mem data bytes n base)"
    by (rule Max_insert_bot [OF fin(1) _ lo]) (use ne in auto)
  have "scanIndices mem data bytes base (uint cap) [0..<unat n] (UINT32_MAX, 0, 2 ^ 63 - 1, -1) =
    Some (fold (min \<circ> readIndex mem data bytes) [0..<unat n] UINT32_MAX,
          fold (max \<circ> readIndex mem data bytes) [0..<unat n] 0,
          fold (min \<circ> vertexAt mem data bytes base) [0..<unat n] (2 ^ 63 - 1),
          fold (max \<circ> vertexAt mem data bytes base) [0..<unat n] (-1))"
    by (rule scanIndices_some) (use all in auto)
  then show ?thesis
    unfolding fold_min_eq fold_max_eq set_upt mn mx fv lv .
qed


lemma uint_word_u32: "0 \<le> k \<Longrightarrow> k < 2 ^ 32 \<Longrightarrow> uint (word_of_int k :: u32) = k"
  by (simp add: uint_word_of_int take_bit_int_eq_self)

lemma exact_domain_value:
  assumes adm: "scanAdmitted sp bytes n cap" and req: "\<not> requiredIndexBytes bytes n > sp_length sp"
    and all: "\<forall>i<unat n. 0 \<le> vertexAt mem (sp_data sp) bytes (sint base) i \<and>
                vertexAt mem (sp_data sp) bytes (sint base) i < uint cap"
  shows "ComputeWar3ExactIndexVertexDomain mem sp bytes n base cap =
    (let I = scannedIndices mem (sp_data sp) bytes n;
         V = scannedVertices mem (sp_data sp) bytes n (sint base)
     in \<lparr>dom_firstVertex = word_of_int (Min V), dom_vertexCount = word_of_int (Max V - Min V + 1),
         dom_minIndex = Min I, dom_maxIndex = Max I, dom_valid = True\<rparr>)"
    and "0 \<le> Min (scannedVertices mem (sp_data sp) bytes n (sint base))"
    and "Min (scannedVertices mem (sp_data sp) bytes n (sint base)) \<le> Max (scannedVertices mem (sp_data sp) bytes n (sint base))"
    and "Max (scannedVertices mem (sp_data sp) bytes n (sint base)) < uint cap"
proof -
  let ?V = "scannedVertices mem (sp_data sp) bytes n (sint base)"
  have n0: "n \<noteq> 0" using adm by (simp add: scanAdmitted_def)
  then have "0 < unat n" by (simp add: unat_gt_0)
  then have ne: "?V \<noteq> {}" by auto
  from Min_in [OF _ ne] all show lo: "0 \<le> Min ?V" by auto
  from Max_in [OF _ ne] all show hi: "Max ?V < uint cap" by auto
  from Max_in [OF _ ne] show le: "Min ?V \<le> Max ?V" by simp
  have small: "Max ?V - Min ?V + 1 < 2 ^ 32" "0 < Max ?V - Min ?V + 1" "Max ?V - Min ?V + 1 \<le> uint UINT32_MAX"
    using lo hi le uint_lt2p [of cap] by (simp_all add: unsigned_minus_1_eq_mask mask_eq_exp_minus_1)
  then have "uint (word_of_int (Max ?V - Min ?V + 1) :: u32) = Max ?V - Min ?V + 1"
    by (intro uint_word_u32) simp_all
  then have nz: "(word_of_int (Max ?V - Min ?V + 1) :: u32) \<noteq> 0"
    using small(2) by auto
  show "ComputeWar3ExactIndexVertexDomain mem sp bytes n base cap =
    (let I = scannedIndices mem (sp_data sp) bytes n; V = ?V
     in \<lparr>dom_firstVertex = word_of_int (Min V), dom_vertexCount = word_of_int (Max V - Min V + 1),
         dom_minIndex = Min I, dom_maxIndex = Max I, dom_valid = True\<rparr>)"
    unfolding ComputeWar3ExactIndexVertexDomain_def scan_exact [OF n0 all] Let_def
    using adm req lo le small nz by simp
qed

lemma exact_domain_invalid:
  assumes "\<not> (scanAdmitted sp bytes n cap \<and> requiredIndexBytes bytes n \<le> sp_length sp \<and>
    (\<forall>i<unat n. 0 \<le> vertexAt mem (sp_data sp) bytes (sint base) i \<and>
                vertexAt mem (sp_data sp) bytes (sint base) i < uint cap))"
  shows "ComputeWar3ExactIndexVertexDomain mem sp bytes n base cap = domain_init"
proof (cases "scanAdmitted sp bytes n cap \<and> requiredIndexBytes bytes n \<le> sp_length sp")
  case True
  with assms have "\<exists>i\<in>set [0..<unat n]. vertexAt mem (sp_data sp) bytes (sint base) i < 0 \<or>
      vertexAt mem (sp_data sp) bytes (sint base) i \<ge> uint cap"
    by (auto simp: not_le not_less)
  from scanIndices_none [OF this] show ?thesis
    by (simp add: ComputeWar3ExactIndexVertexDomain_def del: set_upt)
next
  case False
  then show ?thesis by (auto simp: ComputeWar3ExactIndexVertexDomain_def)
qed

text \<open>
  C28. The domain of an index range is valid exactly when the span is accepted, the element
  width is 2 or 4, the range is not empty and fits the span, and every vertex it refers to
  (the index plus the signed base) is inside the vertex capacity. Then the bounds are exact:
  the smallest and largest index and the smallest interval of vertices that holds every
  vertex referred to, which lies inside the capacity.
\<close>

theorem exact_domain_spec:
  fixes mem sp bytes n base cap
  defines "d \<equiv> ComputeWar3ExactIndexVertexDomain mem sp bytes n base cap"
    and "I \<equiv> readIndex mem (sp_data sp) bytes ` {0..<unat n}"
    and "V \<equiv> (\<lambda>i. uint (readIndex mem (sp_data sp) bytes i) + sint base) ` {0..<unat n}"
  shows "(dom_valid d \<longleftrightarrow> span_ok sp \<and> (bytes = 2 \<or> bytes = 4) \<and> n \<noteq> 0 \<and> cap \<noteq> 0 \<and>
            requiredIndexBytes bytes n \<le> sp_length sp \<and> V \<subseteq> {0..<uint cap}) \<and>
    (dom_valid d \<longrightarrow> dom_minIndex d = Min I \<and> dom_maxIndex d = Max I \<and>
       uint (dom_firstVertex d) = Min V \<and> uint (dom_vertexCount d) = Max V - Min V + 1 \<and>
       uint (dom_firstVertex d) + uint (dom_vertexCount d) \<le> uint cap)"
proof (cases "scanAdmitted sp bytes n cap \<and> requiredIndexBytes bytes n \<le> sp_length sp \<and>
    (\<forall>i<unat n. 0 \<le> vertexAt mem (sp_data sp) bytes (sint base) i \<and>
                vertexAt mem (sp_data sp) bytes (sint base) i < uint cap)")
  case True
  then have adm: "scanAdmitted sp bytes n cap" and req: "\<not> requiredIndexBytes bytes n > sp_length sp"
    and all: "\<forall>i<unat n. 0 \<le> vertexAt mem (sp_data sp) bytes (sint base) i \<and>
                vertexAt mem (sp_data sp) bytes (sint base) i < uint cap" by auto
  note v = exact_domain_value [OF adm req all, folded I_def V_def, folded d_def]
  have sub: "V \<subseteq> {0..<uint cap}" using all by (auto simp: V_def)
  have "uint (word_of_int (Min V) :: u32) = Min V"
    and "uint (word_of_int (Max V - Min V + 1) :: u32) = Max V - Min V + 1"
    by (rule uint_word_u32; use v(2-4) uint_lt2p [of cap] in simp)+
  then have "uint (dom_firstVertex d) = Min V" and "uint (dom_vertexCount d) = Max V - Min V + 1"
    unfolding v(1) Let_def by (simp_all only: War3ExactIndexVertexDomain.select_convs)
  with v sub adm req show ?thesis by (auto simp: Let_def scanAdmitted_def)
next
  case False
  then have "d = domain_init" unfolding d_def by (rule exact_domain_invalid)
  then have inv: "\<not> dom_valid d" by (simp add: domain_init_def)
  from False have "\<not> (span_ok sp \<and> (bytes = 2 \<or> bytes = 4) \<and> n \<noteq> 0 \<and> cap \<noteq> 0 \<and>
            requiredIndexBytes bytes n \<le> sp_length sp \<and> V \<subseteq> {0..<uint cap})"
    by (auto simp: V_def scanAdmitted_def image_subset_iff)
  with inv show ?thesis by simp
qed

subsection \<open>The bulk copy\<close>

lemma unat_requiredIndexBytes:
  assumes "bytes = 2 \<or> bytes = 4"
  shows "unat (requiredIndexBytes bytes n) = unat bytes * unat n"
proof -
  have "unat bytes * unat n < 2 ^ 64"
    using assms order_less_trans [OF unat_u32_bound [of n], of 4611686018427387904] by auto
  then show ?thesis by (simp add: requiredIndexBytes_def unat_word_ariths)
qed

lemma memcpy_at: "ucast k < n \<Longrightarrow> memcpy dst src n mem (dst + k) = mem (src + k)"
  by (simp add: memcpy_def)

lemma readIndex_memcpy:
  assumes ok: "bytes = 2 \<or> bytes = 4" and i: "i < unat n"
    and small: "requiredIndexBytes bytes n \<le> kExactIndexDomainBulkReadCapacity"
  shows "readIndex (memcpy dst src (requiredIndexBytes bytes n) mem) dst bytes i = readIndex mem src bytes i"
proof -
  let ?r = "requiredIndexBytes bytes n"
  have r: "unat ?r = unat bytes * unat n" by (rule unat_requiredIndexBytes [OF ok])
  have lim: "unat bytes * unat n \<le> 65536"
    using small r by (simp add: word_le_nat_alt kExactIndexDomainBulkReadCapacity_def)
  have step: "unat bytes * i + unat bytes \<le> unat bytes * unat n"
    using mult_le_mono2 [of "Suc i" "unat n" "unat bytes"] i by simp
  have at: "memcpy dst src ?r mem (dst + of_nat i * bytes + of_nat j) = mem (src + of_nat i * bytes + of_nat j)"
    if j: "j < unat bytes" for j
  proof -
    have "(of_nat (unat bytes * i + j) :: u32) = of_nat i * bytes + of_nat j"
      by (simp add: mult.commute)
    moreover have "unat (of_nat (unat bytes * i + j) :: u32) = unat bytes * i + j"
    proof -
      have "unat bytes * i + j < 2 ^ 32" using step lim j by simp
      with unat_add_small [of 0 "unat bytes * i + j"] show ?thesis
        by (simp only: unsigned_0 add_0_left)
    qed
    ultimately have k: "unat (of_nat i * bytes + of_nat j) = unat bytes * i + j" by (simp only:)
    have "ucast (of_nat i * bytes + of_nat j) < ?r"
      using step j by (simp add: word_less_nat_alt k r)
    from memcpy_at [OF this] show ?thesis by (simp add: add.assoc)
  qed
  show ?thesis
    using ok
  proof
    assume "bytes = 2"
    with at [of 0] at [of 1] show ?thesis by (simp add: readIndex_def read16_def)
  next
    assume "bytes = 4"
    with at [of 0] at [of 1] at [of 2] at [of 3] show ?thesis
      by (simp add: readIndex_def read32_def read16_def add.assoc)
  qed
qed

lemma scanIndices_cong:
  assumes "\<forall>i\<in>set is. readIndex mem data bytes i = readIndex mem' data' bytes i"
  shows "scanIndices mem data bytes base cap is acc = scanIndices mem' data' bytes base cap is acc"
  using assms
proof (induction "is" arbitrary: acc)
  case (Cons i "is")
  obtain mn mx f l where "acc = (mn, mx, f, l)" by (cases acc)
  with Cons show ?case by (simp add: Let_def)
qed simp

lemma prepared_both:
  assumes bulk: "bulkRead \<noteq> 0"
  shows "fst (ComputeWar3ExactIndexVertexDomainPrepared bulkRead input mem x) =
      ComputeWar3ExactIndexVertexDomain mem (ds_indices input) (ds_indexElementBytes input)
        (ds_indexCount input) (ds_baseVertex input) (ds_vertexCapacity input) \<and>
    (\<forall>a. ucast (a - bulkRead) \<ge> kExactIndexDomainBulkReadCapacity \<longrightarrow>
       fst (snd (ComputeWar3ExactIndexVertexDomainPrepared bulkRead input mem x)) a = mem a)"
proof -
  define sp where "sp = ds_indices input"
  define bytes where "bytes = ds_indexElementBytes input"
  define n where "n = ds_indexCount input"
  note defs = sp_def [symmetric] bytes_def [symmetric] n_def [symmetric]
  define staged where "staged = sp\<lparr>sp_data := bulkRead, sp_length := requiredIndexBytes bytes n\<rparr>"
  have same: "ComputeWar3ExactIndexVertexDomain (memcpy bulkRead (sp_data sp) (requiredIndexBytes bytes n) mem)
      staged bytes n base cap = ComputeWar3ExactIndexVertexDomain mem sp bytes n base cap"
    if adm: "scanAdmitted sp bytes n cap" and fit: "requiredIndexBytes bytes n \<le> sp_length sp"
      and small: "requiredIndexBytes bytes n \<le> kExactIndexDomainBulkReadCapacity" for base cap
  proof -
    have ok: "bytes = 2 \<or> bytes = 4" and n0: "n \<noteq> 0" using adm by (auto simp: scanAdmitted_def)
    have "unat (requiredIndexBytes bytes n) \<noteq> 0"
      using ok n0 by (auto simp: unat_requiredIndexBytes unat_eq_0)
    then have "requiredIndexBytes bytes n \<noteq> 0" by (simp add: unat_eq_0)
    with adm bulk have adm': "scanAdmitted staged bytes n cap"
      by (simp add: scanAdmitted_def span_ok_def staged_def)
    have "scanIndices (memcpy bulkRead (sp_data sp) (requiredIndexBytes bytes n) mem) bulkRead bytes
        (sint base) (uint cap) [0..<unat n] acc =
      scanIndices mem (sp_data sp) bytes (sint base) (uint cap) [0..<unat n] acc" for acc
      by (rule scanIndices_cong) (use readIndex_memcpy [OF ok _ small] in simp)
    with adm adm' fit show ?thesis
      by (simp add: ComputeWar3ExactIndexVertexDomain_def staged_def not_less)
  qed
  have none: "ComputeWar3ExactIndexVertexDomain mem sp bytes n base cap = domain_init"
    if "\<not> scanAdmitted sp bytes n cap \<or> requiredIndexBytes bytes n > sp_length sp" for base cap
    using that by (auto simp: ComputeWar3ExactIndexVertexDomain_def)
  show ?thesis
    unfolding ComputeWar3ExactIndexVertexDomainPrepared_def Let_def defs staged_def [symmetric]
    using same none by (auto simp: memcpy_def not_less)
qed

lemmas prepared_direct = prepared_both [THEN conjunct1]

text \<open>
  The prepared scan, which first copies a range that is not host-cached into the thread's
  64 KiB bulk buffer, computes exactly the domain that the direct scan computes, whatever
  overlaps the buffer, and changes no byte outside that buffer.
\<close>

theorem prepared_scan_is_direct_scan:
  assumes "bulkRead \<noteq> 0"
  shows "fst (ComputeWar3ExactIndexVertexDomainPrepared bulkRead input mem x) =
      ComputeWar3ExactIndexVertexDomain mem (ds_indices input) (ds_indexElementBytes input)
        (ds_indexCount input) (ds_baseVertex input) (ds_vertexCapacity input) \<and>
    (\<forall>a. ucast (a - bulkRead) \<ge> kExactIndexDomainBulkReadCapacity \<longrightarrow>
       fst (snd (ComputeWar3ExactIndexVertexDomainPrepared bulkRead input mem x)) a = mem a)"
  by (rule prepared_both [OF assms])

subsection \<open>The rewritten range\<close>

definition writeIndex :: "u32 \<Rightarrow> u32 \<Rightarrow> nat \<Rightarrow> u32 \<Rightarrow> memory \<Rightarrow> memory" where
  "writeIndex output bytes i v mem =
    (if bytes = 2 then write16 (output + of_nat i * 2) (ucast v) mem
     else write32 (output + of_nat i * 4) v mem)"

lemma rebaseLoop_step:
  "rebaseLoop data bytes mn mx output (i # is) mem =
    (let raw = readIndex mem data bytes i
     in if raw < mn \<or> raw > mx \<or> bytes = 2 \<and> raw - mn > 65535 then (False, mem)
        else rebaseLoop data bytes mn mx output is (writeIndex output bytes i (raw - mn) mem))"
  by (simp add: writeIndex_def Let_def)

lemma ucast_16_32: "v \<le> 65535 \<Longrightarrow> (ucast (ucast (v :: u32) :: u16) :: u32) = v"
  by (rule word_unat_eq_iff [THEN iffD2])
    (simp add: unsigned_ucast_eq unsigned_take_bit_eq take_bit_nat_eq_self_iff word_le_nat_alt)

lemma read_writeIndex:
  assumes "bytes = 2 \<or> bytes = 4" and "bytes = 2 \<longrightarrow> v \<le> 65535"
  shows "readIndex (writeIndex output bytes i v mem) output bytes i = v"
  using assms by (auto simp: readIndex_def writeIndex_def read_write16 read_write32 ucast_16_32)

lemma writeIndex_outside:
  assumes ok: "index_range_ok output bytes n" and i: "i < n"
    and b: "unat b < unat output + unat bytes * i \<or> unat output + unat bytes * i + unat bytes \<le> unat b"
  shows "writeIndex output bytes i v mem b = mem b"
proof (cases "bytes = 2")
  case True
  with element_inside [OF ok i] b show ?thesis
    by (auto simp: writeIndex_def write16_outside)
next
  case False
  with ok have "bytes = 4" by (simp add: index_range_ok_def)
  with element_inside [OF ok i] b show ?thesis
    by (auto simp: writeIndex_def write32_outside)
qed

text \<open>A later element of the source survives a write, also when the range is rewritten in place.\<close>

definition rebase_apart :: "u32 \<Rightarrow> u32 \<Rightarrow> nat \<Rightarrow> bool" where
  "rebase_apart data output len \<longleftrightarrow>
     output = data \<or> disjoint_iv (unat data, unat data + len) (unat output, unat output + len)"

lemma later_element_kept:
  assumes data: "index_range_ok data bytes n" and out: "index_range_ok output bytes n"
    and apart: "rebase_apart data output (unat bytes * n)" and "i < j" and j: "j < n"
  shows "readIndex (writeIndex output bytes i v mem) data bytes j = readIndex mem data bytes j"
proof (rule readIndex_cong [OF data j])
  fix b :: u32 assume b: "unat data + unat bytes * j \<le> unat b" "unat b < unat data + unat bytes * j + unat bytes"
  have i: "i < n" using assms by simp
  have le: "unat bytes * i + unat bytes \<le> unat bytes * j"
    using mult_le_mono2 [of "Suc i" j "unat bytes"] \<open>i < j\<close> by simp
  have "unat b < unat output + unat bytes * i \<or> unat output + unat bytes * i + unat bytes \<le> unat b"
    using apart b le element_inside(3) [OF out i] element_inside(3) [OF data j]
    by (auto simp: rebase_apart_def disjoint_iv_def)
  then show "writeIndex output bytes i v mem b = mem b" by (rule writeIndex_outside [OF out i])
qed

lemma readIndex_16_bound: "readIndex mem data 2 i \<le> 65535"
proof -
  have "unat (read16 mem (data + of_nat i * 2)) < 2 ^ 16"
    using unsigned_less [of "read16 mem (data + of_nat i * 2)"] by simp
  then have "take_bit 32 (unat (read16 mem (data + of_nat i * 2))) \<le> 65535"
    by (intro order_trans [OF take_bit_nat_less_eq_self]) simp
  then show ?thesis
    by (simp add: readIndex_def word_le_nat_alt unsigned_ucast_eq)
qed

lemma rebaseLoop_upt:
  assumes data: "index_range_ok data bytes n" and out: "index_range_ok output bytes n"
    and apart: "rebase_apart data output (unat bytes * n)"
    and inside: "\<forall>j. k \<le> j \<and> j < n \<longrightarrow> mn \<le> readIndex mem data bytes j \<and> readIndex mem data bytes j \<le> mx"
    and "k \<le> n"
  shows "\<exists>mem'. rebaseLoop data bytes mn mx output [k..<n] mem = (True, mem') \<and>
      (\<forall>j. k \<le> j \<and> j < n \<longrightarrow> readIndex mem' output bytes j = readIndex mem data bytes j - mn) \<and>
      (\<forall>b. unat b < unat output + unat bytes * k \<or> unat output + unat bytes * n \<le> unat b \<longrightarrow> mem' b = mem b)"
  using \<open>k \<le> n\<close> inside
proof (induction "n - k" arbitrary: k mem)
  case 0
  then have "n = k" by simp
  then show ?case by (intro exI [of _ mem]) auto
next
  case (Suc d)
  then have k: "k < n" by simp
  have b: "bytes = 2 \<or> bytes = 4" using data by (simp add: index_range_ok_def)
  define raw where "raw = readIndex mem data bytes k"
  define m1 where "m1 = writeIndex output bytes k (raw - mn) mem"
  have raw: "mn \<le> raw" "raw \<le> mx" using Suc.prems k by (auto simp: raw_def)
  have fits: "bytes = 2 \<longrightarrow> raw - mn \<le> 65535"
    using readIndex_16_bound [of mem data k] raw by (auto simp: raw_def word_nat)
  have keep: "readIndex m1 data bytes j = readIndex mem data bytes j" if "k < j" "j < n" for j
    unfolding m1_def by (rule later_element_kept [OF data out apart that])
  have "\<exists>mem'. rebaseLoop data bytes mn mx output [Suc k..<n] m1 = (True, mem') \<and>
      (\<forall>j. Suc k \<le> j \<and> j < n \<longrightarrow> readIndex mem' output bytes j = readIndex m1 data bytes j - mn) \<and>
      (\<forall>b. unat b < unat output + unat bytes * Suc k \<or> unat output + unat bytes * n \<le> unat b \<longrightarrow> mem' b = m1 b)"
    by (rule Suc.hyps(1)) (use Suc.hyps(2) Suc.prems keep k in auto)
  then obtain mem' where run: "rebaseLoop data bytes mn mx output [Suc k..<n] m1 = (True, mem')"
    and later: "\<And>j. Suc k \<le> j \<Longrightarrow> j < n \<Longrightarrow> readIndex mem' output bytes j = readIndex m1 data bytes j - mn"
    and outside: "\<And>b. unat b < unat output + unat bytes * Suc k \<or> unat output + unat bytes * n \<le> unat b \<Longrightarrow> mem' b = m1 b"
    by blast
  have "rebaseLoop data bytes mn mx output [k..<n] mem = (True, mem')"
    unfolding upt_conv_Cons [OF k] rebaseLoop_step Let_def raw_def [symmetric] m1_def [symmetric]
    using raw fits run by auto
  moreover have "readIndex mem' output bytes j = readIndex mem data bytes j - mn" if "k \<le> j" "j < n" for j
  proof (cases "j = k")
    case True
    have "readIndex mem' output bytes k = readIndex m1 output bytes k"
      by (rule readIndex_cong [OF out k]) (simp add: outside)
    also have "\<dots> = raw - mn" unfolding m1_def by (rule read_writeIndex [OF b fits])
    finally show ?thesis by (simp add: True raw_def)
  next
    case False
    with that later [of j] keep [of j] show ?thesis by simp
  qed
  moreover have "mem' b = mem b"
    if "unat b < unat output + unat bytes * k \<or> unat output + unat bytes * n \<le> unat b" for b
  proof -
    have "m1 b = mem b" unfolding m1_def
      by (rule writeIndex_outside [OF out k]) (use that element_inside(3) [OF out k] in auto)
    moreover have "mem' b = m1 b" by (rule outside) (use that in auto)
    ultimately show ?thesis by simp
  qed
  ultimately show ?case by blast
qed

lemma valid_domain:
  assumes valid: "dom_valid (ComputeWar3ExactIndexVertexDomain mem sp bytes n base cap)"
  shows "scanAdmitted sp bytes n cap" and "\<not> requiredIndexBytes bytes n > sp_length sp"
    and "\<forall>i<unat n. 0 \<le> vertexAt mem (sp_data sp) bytes (sint base) i \<and>
                vertexAt mem (sp_data sp) bytes (sint base) i < uint cap"
proof -
  have "scanAdmitted sp bytes n cap \<and> requiredIndexBytes bytes n \<le> sp_length sp \<and>
    (\<forall>i<unat n. 0 \<le> vertexAt mem (sp_data sp) bytes (sint base) i \<and>
                vertexAt mem (sp_data sp) bytes (sint base) i < uint cap)"
    by (rule ccontr, drule exact_domain_invalid [where base = base])
      (use valid in \<open>simp add: domain_init_def\<close>)
  then show "scanAdmitted sp bytes n cap" and "\<not> requiredIndexBytes bytes n > sp_length sp"
    and "\<forall>i<unat n. 0 \<le> vertexAt mem (sp_data sp) bytes (sint base) i \<and>
                vertexAt mem (sp_data sp) bytes (sint base) i < uint cap" by auto
qed

lemma compute_then_rebase_aux:
  assumes valid: "dom_valid (ComputeWar3ExactIndexVertexDomain mem sp bytes n base cap)"
  shows "bytes = 2 \<or> bytes = 4" and "n \<noteq> 0" and "span_ok sp"
    and "requiredIndexBytes bytes n \<le> sp_length sp"
    and "i < unat n \<Longrightarrow>
      dom_minIndex (ComputeWar3ExactIndexVertexDomain mem sp bytes n base cap) \<le> readIndex mem (sp_data sp) bytes i"
    and "i < unat n \<Longrightarrow>
      readIndex mem (sp_data sp) bytes i \<le> dom_maxIndex (ComputeWar3ExactIndexVertexDomain mem sp bytes n base cap)"
    and "uint (dom_firstVertex (ComputeWar3ExactIndexVertexDomain mem sp bytes n base cap)) =
      uint (dom_minIndex (ComputeWar3ExactIndexVertexDomain mem sp bytes n base cap)) + sint base"
    and "uint (dom_vertexCount (ComputeWar3ExactIndexVertexDomain mem sp bytes n base cap)) =
      uint (dom_maxIndex (ComputeWar3ExactIndexVertexDomain mem sp bytes n base cap)) -
      uint (dom_minIndex (ComputeWar3ExactIndexVertexDomain mem sp bytes n base cap)) + 1"
proof -
  let ?d = "ComputeWar3ExactIndexVertexDomain mem sp bytes n base cap"
  let ?I = "scannedIndices mem (sp_data sp) bytes n"
  let ?V = "scannedVertices mem (sp_data sp) bytes n (sint base)"
  note adm = valid_domain(1) [OF valid] and req = valid_domain(2) [OF valid] and all = valid_domain(3) [OF valid]
  note v = exact_domain_value [OF adm req all]
  from adm show "bytes = 2 \<or> bytes = 4" "n \<noteq> 0" "span_ok sp" by (auto simp: scanAdmitted_def)
  from req show "requiredIndexBytes bytes n \<le> sp_length sp" by simp
  have mn: "dom_minIndex ?d = Min ?I" and mx: "dom_maxIndex ?d = Max ?I"
    and fv: "dom_firstVertex ?d = word_of_int (Min ?V)" and vc: "dom_vertexCount ?d = word_of_int (Max ?V - Min ?V + 1)"
    by (simp_all add: v(1) Let_def)
  show "i < unat n \<Longrightarrow> dom_minIndex ?d \<le> readIndex mem (sp_data sp) bytes i"
    unfolding mn by (rule Min_le) auto
  show "i < unat n \<Longrightarrow> readIndex mem (sp_data sp) bytes i \<le> dom_maxIndex ?d"
    unfolding mx by (rule Max_ge) auto
  have ne: "?I \<noteq> {}" using \<open>n \<noteq> 0\<close> by (simp add: unat_gt_0)
  have mono: "mono (\<lambda>x :: u32. uint x + sint base)" by (auto simp: mono_def word_le_def)
  have img: "(\<lambda>x. uint x + sint base) ` ?I = ?V" by (simp add: image_image)
  have mnv: "Min ?V = uint (Min ?I) + sint base"
    using mono_Min_commute [OF mono _ ne] by (simp add: img)
  have mxv: "Max ?V = uint (Max ?I) + sint base"
    using mono_Max_commute [OF mono _ ne] by (simp add: img)
  have "uint (word_of_int (Min ?V) :: u32) = Min ?V" "uint (word_of_int (Max ?V - Min ?V + 1) :: u32) = Max ?V - Min ?V + 1"
    by (rule uint_word_u32; use v(2-4) uint_lt2p [of cap] in simp)+
  then show "uint (dom_firstVertex ?d) = uint (dom_minIndex ?d) + sint base"
    and "uint (dom_vertexCount ?d) = uint (dom_maxIndex ?d) - uint (dom_minIndex ?d) + 1"
    by (simp_all add: mn mx fv vc mnv mxv)
qed

text \<open>
  C17. An index range whose domain is valid can always be rebased: with an output of at least
  the range's bytes that is the range itself or apart from it, the rewriting succeeds, every
  rewritten index added to the first vertex of the domain names the same vertex as the raw
  index with its base did, every rewritten index is below the vertex count, and no byte
  outside the output changes.
\<close>

theorem compute_then_rebase:
  fixes mem sp bytes n base cap
  defines "d \<equiv> ComputeWar3ExactIndexVertexDomain mem sp bytes n base cap"
    and "len \<equiv> unat (requiredIndexBytes bytes n)"
  assumes valid: "dom_valid d" and room: "output \<noteq> 0" "requiredIndexBytes bytes n \<le> outputBytes"
    and flat: "unat (sp_data sp) + len \<le> 2 ^ 32" "unat output + len \<le> 2 ^ 32"
    and apart: "output = sp_data sp \<or>
      disjoint_iv (unat (sp_data sp), unat (sp_data sp) + len) (unat output, unat output + len)"
  shows "\<exists>mem'. RebaseWar3ExactIndexDomain sp bytes n (dom_minIndex d) (dom_maxIndex d) output outputBytes mem = (True, mem') \<and>
    (\<forall>i<unat n. uint (readIndex mem' output bytes i) + uint (dom_firstVertex d) =
         uint (readIndex mem (sp_data sp) bytes i) + sint base \<and>
       readIndex mem' output bytes i < dom_vertexCount d) \<and>
    (\<forall>b. unat b < unat output \<or> unat output + len \<le> unat b \<longrightarrow> mem' b = mem b)"
proof -
  note v = compute_then_rebase_aux [OF valid [unfolded d_def], folded d_def]
  have len: "len = unat bytes * unat n" unfolding len_def by (rule unat_requiredIndexBytes [OF v(1)])
  have data: "index_range_ok (sp_data sp) bytes (unat n)" and out: "index_range_ok output bytes (unat n)"
    using v(1) flat by (simp_all add: index_range_ok_def len)
  have ap: "rebase_apart (sp_data sp) output (unat bytes * unat n)"
    using apart by (simp add: rebase_apart_def len)
  have "\<forall>j. 0 \<le> j \<and> j < unat n \<longrightarrow> dom_minIndex d \<le> readIndex mem (sp_data sp) bytes j \<and>
      readIndex mem (sp_data sp) bytes j \<le> dom_maxIndex d" using v(5,6) by blast
  from rebaseLoop_upt [OF data out ap this le0] obtain mem' where run: "rebaseLoop (sp_data sp) bytes (dom_minIndex d) (dom_maxIndex d) output [0..<unat n] mem = (True, mem')"
    and new: "\<And>i. i < unat n \<Longrightarrow> readIndex mem' output bytes i = readIndex mem (sp_data sp) bytes i - dom_minIndex d"
    and rest: "\<And>b. unat b < unat output \<or> unat output + unat bytes * unat n \<le> unat b \<Longrightarrow> mem' b = mem b"
    unfolding mult_0_right add_0_right by blast
  have sub: "uint (readIndex mem' output bytes i) = uint (readIndex mem (sp_data sp) bytes i) - uint (dom_minIndex d)"
    if "i < unat n" for i
    using new [OF that] v(5) [OF that] by (simp add: uint_minus_simple_alt [THEN iffD1])
  have lt: "readIndex mem' output bytes i < dom_vertexCount d" if "i < unat n" for i
    using sub [OF that] v(6) [OF that] v(8) by (simp add: word_less_def word_le_def)
  have "0 < unat n" using v(2) by (simp add: unat_gt_0)
  then have "dom_minIndex d \<le> dom_maxIndex d" using v(5) [of 0] v(6) [of 0] by (rule_tac order_trans) auto
  then have "RebaseWar3ExactIndexDomain sp bytes n (dom_minIndex d) (dom_maxIndex d) output outputBytes mem = (True, mem')"
    using v(1-4) room run by (auto simp: RebaseWar3ExactIndexDomain_def Let_def not_less)
  then show ?thesis
    using sub lt rest v(7) by (intro exI [of _ mem']) (auto simp: len)
qed

subsection \<open>The scanned vertices of a draw\<close>

lemma domain_vertices:
  assumes valid: "dom_valid (ComputeWar3ExactIndexVertexDomain mem sp bytes n base cap)" and i: "i < unat n"
  defines "d \<equiv> ComputeWar3ExactIndexVertexDomain mem sp bytes n base cap"
  shows "uint (dom_firstVertex d) \<le> uint (readIndex mem (sp_data sp) bytes i) + sint base"
    and "uint (readIndex mem (sp_data sp) bytes i) + sint base < uint (dom_firstVertex d) + uint (dom_vertexCount d)"
proof -
  note v = compute_then_rebase_aux [OF valid, folded d_def]
  from v(5) [OF i] v(6) [OF i] v(7,8)
  show "uint (dom_firstVertex d) \<le> uint (readIndex mem (sp_data sp) bytes i) + sint base"
    and "uint (readIndex mem (sp_data sp) bytes i) + sint base < uint (dom_firstVertex d) + uint (dom_vertexCount d)"
    by (simp_all add: word_le_def)
qed

text \<open>The first and the last vertex of the domain are used by some index.\<close>

lemma domain_ends_used:
  assumes valid: "dom_valid (ComputeWar3ExactIndexVertexDomain mem sp bytes n base cap)"
  defines "d \<equiv> ComputeWar3ExactIndexVertexDomain mem sp bytes n base cap"
  shows "\<exists>i < unat n. uint (readIndex mem (sp_data sp) bytes i) + sint base = uint (dom_firstVertex d)"
    and "\<exists>i < unat n. uint (readIndex mem (sp_data sp) bytes i) + sint base =
      uint (dom_firstVertex d) + uint (dom_vertexCount d) - 1"
proof -
  note v = compute_then_rebase_aux [OF valid, folded d_def]
  let ?I = "scannedIndices mem (sp_data sp) bytes n"
  have ne: "?I \<noteq> {}" using v(2) by (simp add: unat_gt_0)
  have mn: "dom_minIndex d = Min ?I" and mx: "dom_maxIndex d = Max ?I"
    unfolding d_def by (simp_all add: exact_domain_value(1) [OF valid_domain [OF valid]] Let_def)
  from Min_in [OF _ ne] mn v(7) show "\<exists>i < unat n. uint (readIndex mem (sp_data sp) bytes i) + sint base =
      uint (dom_firstVertex d)" by fastforce
  from Max_in [OF _ ne] mx v(7,8) show "\<exists>i < unat n. uint (readIndex mem (sp_data sp) bytes i) + sint base =
      uint (dom_firstVertex d) + uint (dom_vertexCount d) - 1" by fastforce
qed

lemma domain_end:
  assumes valid: "dom_valid (ComputeWar3ExactIndexVertexDomain mem sp bytes n base cap)"
  defines "d \<equiv> ComputeWar3ExactIndexVertexDomain mem sp bytes n base cap"
  shows "uint (dom_firstVertex d) + uint (dom_vertexCount d) \<le> uint cap" and "0 < uint (dom_vertexCount d)"
proof -
  obtain j where j: "j < unat n" "uint (readIndex mem (sp_data sp) bytes j) + sint base =
      uint (dom_firstVertex d) + uint (dom_vertexCount d) - 1"
    using domain_ends_used(2) [OF valid, folded d_def] by blast
  then show "uint (dom_firstVertex d) + uint (dom_vertexCount d) \<le> uint cap"
    using valid_domain(3) [OF valid] by fastforce
  show "0 < uint (dom_vertexCount d)"
    using j domain_vertices [OF valid, folded d_def, OF j(1)] by simp
qed

lemma vertices_inside_iff:
  assumes valid: "dom_valid (ComputeWar3ExactIndexVertexDomain mem sp bytes n base cap)"
  defines "d \<equiv> ComputeWar3ExactIndexVertexDomain mem sp bytes n base cap"
  shows "scannedVertices mem (sp_data sp) bytes n (sint base) \<subseteq> {a..<b} \<longleftrightarrow>
    a \<le> uint (dom_firstVertex d) \<and> uint (dom_firstVertex d) + uint (dom_vertexCount d) \<le> b"
proof
  assume sub: "scannedVertices mem (sp_data sp) bytes n (sint base) \<subseteq> {a..<b}"
  from domain_ends_used [OF valid, folded d_def] obtain i j where
    i: "i < unat n" "uint (readIndex mem (sp_data sp) bytes i) + sint base = uint (dom_firstVertex d)" and
    j: "j < unat n" "uint (readIndex mem (sp_data sp) bytes j) + sint base =
      uint (dom_firstVertex d) + uint (dom_vertexCount d) - 1" by blast
  have "uint (dom_firstVertex d) \<in> {a..<b}" "uint (dom_firstVertex d) + uint (dom_vertexCount d) - 1 \<in> {a..<b}"
    using sub i j by (force simp: image_subset_iff)+
  then show "a \<le> uint (dom_firstVertex d) \<and> uint (dom_firstVertex d) + uint (dom_vertexCount d) \<le> b" by simp
next
  assume "a \<le> uint (dom_firstVertex d) \<and> uint (dom_firstVertex d) + uint (dom_vertexCount d) \<le> b"
  then show "scannedVertices mem (sp_data sp) bytes n (sint base) \<subseteq> {a..<b}"
    using domain_vertices [OF valid, folded d_def] by fastforce
qed

subsection \<open>The admitted span\<close>

lemma span_address_exact:
  fixes base :: u32 and off :: u64
  shows "off \<le> ucast (UINT32_MAX - base) \<longleftrightarrow> unat base + unat off < 2 ^ 32"
    and "off \<le> ucast (UINT32_MAX - base) \<Longrightarrow> unat (base + ucast off) = unat base + unat off"
proof -
  have b: "unat base < 4294967296" and pow: "(2 :: nat) ^ 32 = 4294967296" by simp_all
  have "unat (UINT32_MAX - base) = 4294967295 - unat base"
    using unat_sub [of base UINT32_MAX] by (simp only: unat_UINT32_MAX word_order.extremum)
  then have e: "off \<le> ucast (UINT32_MAX - base) \<longleftrightarrow> unat off \<le> 4294967295 - unat base"
    by (simp only: word_le_nat_alt unat_ucast_32_64)
  with b show iff: "off \<le> ucast (UINT32_MAX - base) \<longleftrightarrow> unat base + unat off < 2 ^ 32"
    unfolding e pow by linarith
  assume "off \<le> ucast (UINT32_MAX - base)"
  with iff have le: "unat base + unat off < 2 ^ 32" by simp
  then have "unat (ucast off :: u32) = unat off"
    by (simp add: unsigned_ucast_eq take_bit_nat_eq_self_iff)
  with le show "unat (base + ucast off) = unat base + unat off"
    by (simp add: unat_plus_if')
qed

lemma Reject_facts:
  shows "reason \<noteq> RejectNone \<Longrightarrow> \<not> span_ok (fst (Reject input reason c))"
    and "sc_acceptedCount (snd (Reject input reason c)) = sc_acceptedCount c"
    and "sc_rejectedCount (snd (Reject input reason c)) = sc_rejectedCount c + 1"
  by (simp_all add: Reject_def span_ok_def span_init_def Let_def)

definition span_request_ok :: "War3CpuReadableBufferSpanInput \<Rightarrow> bool" where
  "span_request_ok input \<longleftrightarrow> si_allocationBase input \<noteq> 0 \<and> si_cpuReadable input \<and>
     si_ownerIdentity input \<noteq> 0 \<and> si_identityGeneration input \<noteq> 0 \<and>
     si_allocationGeneration input \<noteq> 0 \<and> si_contentGeneration input \<noteq> 0 \<and>
     0 < unat (si_requestedBytes input) \<and>
     unat (si_requestedOffset input) + unat (si_requestedBytes input) \<le> unat (si_allocationBytes input) \<and>
     unat (si_allocationBase input) + unat (si_requestedOffset input) < 2 ^ 32"

lemma range_inside_nat:
  fixes off len total :: u64
  shows "off \<le> total \<and> len \<le> total - off \<longleftrightarrow> unat off + unat len \<le> unat total"
  by (cases "off \<le> total") (auto simp: word_le_nat_alt unat_sub_if')

text \<open>The seven guards in their order: one of them refuses, with its own reason, or none does.\<close>

lemma guards_refuse:
  assumes "\<not> (\<not> a1 \<and> a2 \<and> \<not> a3 \<and> \<not> a4 \<and> \<not> a5 \<and> \<not> a6 \<and> \<not> a7)"
  shows "\<exists>r. r \<noteq> RejectNone \<and>
    (if a1 then f NullBase else if \<not> a2 then f NotCpuReadable else if a3 then f MissingOwner
     else if a4 then f MissingGeneration else if a5 then f OffsetOutsideAllocation
     else if a6 then f LengthOutsideAllocation else if a7 then f AddressOverflow else x) = f r"
  using assms by auto

lemma span_request_ok_guards:
  "span_request_ok input \<longleftrightarrow> \<not> si_allocationBase input = 0 \<and> si_cpuReadable input \<and> \<not> si_ownerIdentity input = 0 \<and>
     \<not> (si_identityGeneration input = 0 \<or> si_allocationGeneration input = 0 \<or> si_contentGeneration input = 0) \<and>
     \<not> si_requestedOffset input > si_allocationBytes input \<and>
     \<not> (si_requestedBytes input = 0 \<or>
        si_requestedBytes input > si_allocationBytes input - si_requestedOffset input) \<and>
     \<not> si_requestedOffset input > ucast (UINT32_MAX - si_allocationBase input)"
proof -
  have "0 < unat (si_requestedBytes input) \<longleftrightarrow> \<not> si_requestedBytes input = 0" by (simp add: unat_gt_0)
  then show ?thesis
    unfolding span_request_ok_def range_inside_nat [symmetric] span_address_exact(1) [symmetric] de_Morgan_disj not_less
    by blast
qed

lemma build_refused:
  assumes "\<not> span_request_ok input"
  shows "\<exists>reason. reason \<noteq> RejectNone \<and> BuildWar3CpuReadableBufferSpan input c = Reject input reason c"
  using guards_refuse [OF assms [unfolded span_request_ok_guards], where f = "\<lambda>r. Reject input r c"]
  unfolding BuildWar3CpuReadableBufferSpan_def .

lemma build_accepted:
  assumes "span_request_ok input"
  shows "BuildWar3CpuReadableBufferSpan input c =
     (\<lparr>sp_data = si_allocationBase input + ucast (si_requestedOffset input),
       sp_length = si_requestedBytes input, sp_ownerIdentity = si_ownerIdentity input,
       sp_identityGeneration = si_identityGeneration input,
       sp_allocationGeneration = si_allocationGeneration input,
       sp_contentGeneration = si_contentGeneration input, sp_rejectReason = RejectNone\<rparr>,
      c\<lparr>sc_acceptedCount := sc_acceptedCount c + 1\<rparr>)"
  using assms unfolding BuildWar3CpuReadableBufferSpan_def span_request_ok_guards
  by (simp only: if_False simp_thms)

text \<open>
  A span is accepted exactly when the base is not null, the mapping is readable, owner and
  generations are present, the requested bytes lie inside the allocation and the start address
  does not pass the end of the address space. An accepted span starts at base plus offset
  without wrap-around, lies inside the allocation and carries the identity it was asked for,
  and each request moves exactly one of the accepted and rejected counters.
\<close>

theorem accepted_span_inside_allocation:
  fixes input c
  defines "sp \<equiv> fst (BuildWar3CpuReadableBufferSpan input c)"
    and "c' \<equiv> snd (BuildWar3CpuReadableBufferSpan input c)"
  shows "(span_ok sp \<longleftrightarrow> si_allocationBase input \<noteq> 0 \<and> si_cpuReadable input \<and> si_ownerIdentity input \<noteq> 0 \<and>
      si_identityGeneration input \<noteq> 0 \<and> si_allocationGeneration input \<noteq> 0 \<and> si_contentGeneration input \<noteq> 0 \<and>
      0 < unat (si_requestedBytes input) \<and>
      unat (si_requestedOffset input) + unat (si_requestedBytes input) \<le> unat (si_allocationBytes input) \<and>
      unat (si_allocationBase input) + unat (si_requestedOffset input) < 2 ^ 32) \<and>
    (span_ok sp \<longrightarrow>
      unat (sp_data sp) = unat (si_allocationBase input) + unat (si_requestedOffset input) \<and>
      sp_length sp = si_requestedBytes input \<and> sp_ownerIdentity sp = si_ownerIdentity input \<and>
      sp_identityGeneration sp = si_identityGeneration input \<and>
      sp_allocationGeneration sp = si_allocationGeneration input \<and>
      sp_contentGeneration sp = si_contentGeneration input) \<and>
    sc_acceptedCount c' + sc_rejectedCount c' = sc_acceptedCount c + sc_rejectedCount c + 1 \<and>
    (sc_acceptedCount c' = sc_acceptedCount c + 1 \<longleftrightarrow> span_ok sp)"
proof (cases "span_request_ok input")
  case True
  then have addr: "unat (sp_data sp) = unat (si_allocationBase input) + unat (si_requestedOffset input)"
    by (simp add: sp_def build_accepted span_request_ok_def span_address_exact)
  then have "unat (sp_data sp) \<noteq> 0" using True by (simp add: span_request_ok_def unat_eq_0)
  then have "sp_data sp \<noteq> 0" by auto
  moreover have "si_requestedBytes input \<noteq> 0" using True by (auto simp: span_request_ok_def)
  ultimately have "span_ok sp"
    using True by (simp add: span_ok_def) (simp add: sp_def build_accepted span_request_ok_def)
  with True addr show ?thesis
    unfolding span_request_ok_def [symmetric]
    by (simp add: sp_def c'_def build_accepted)
next
  case False
  from build_refused [OF False] obtain reason
    where "reason \<noteq> RejectNone" and "BuildWar3CpuReadableBufferSpan input c = Reject input reason c" by blast
  then have "\<not> span_ok sp" "sc_acceptedCount c' = sc_acceptedCount c"
    "sc_rejectedCount c' = sc_rejectedCount c + 1"
    by (simp_all add: sp_def c'_def Reject_facts)
  with False show ?thesis
    unfolding span_request_ok_def [symmetric] by simp
qed

subsection \<open>Concrete inputs\<close>

definition sampleMemory :: memory where
  "sampleMemory a = (if a = 4096 then 5 else if a = 4098 then 3 else if a = 4100 then 7 else 0)"

definition sampleSpan :: War3CpuReadableBufferSpan where
  "sampleSpan = \<lparr>sp_data = 4096, sp_length = 6, sp_ownerIdentity = 1, sp_identityGeneration = 1,
     sp_allocationGeneration = 1, sp_contentGeneration = 1, sp_rejectReason = RejectNone\<rparr>"

definition sampleInput :: War3CpuReadableBufferSpanInput where
  "sampleInput = \<lparr>si_allocationBase = 4094, si_allocationBytes = 100, si_requestedOffset = 2,
     si_requestedBytes = 6, si_ownerIdentity = 1, si_identityGeneration = 1, si_allocationGeneration = 1,
     si_contentGeneration = 1, si_cpuReadable = True\<rparr>"

definition sampleScan :: War3ExactIndexDomainScanInput where
  "sampleScan = \<lparr>ds_indices = sampleSpan, ds_indexElementBytes = 2, ds_indexCount = 3,
     ds_baseVertex = -1, ds_vertexCapacity = 100, ds_sourceHostCached = False, ds_bulkReadEnabled = True\<rparr>"

lemma sample_domain:
  "ComputeWar3ExactIndexVertexDomain sampleMemory sampleSpan 2 3 (-1) 100 =
    \<lparr>dom_firstVertex = 2, dom_vertexCount = 5, dom_minIndex = 3, dom_maxIndex = 7, dom_valid = True\<rparr>"
  by code_simp

lemma accepted_span_inside_allocation_witness:
  "fst (BuildWar3CpuReadableBufferSpan sampleInput span_counters_init) = sampleSpan \<and>
   unat (sp_data sampleSpan) = 4094 + 2"
proof -
  have eq: "fst (BuildWar3CpuReadableBufferSpan sampleInput span_counters_init) = sampleSpan" by code_simp
  have ok: "span_ok sampleSpan" by code_simp
  from accepted_span_inside_allocation [of sampleInput span_counters_init] ok eq
  have "unat (sp_data sampleSpan) = unat (si_allocationBase sampleInput) + unat (si_requestedOffset sampleInput)"
    by simp
  with eq show ?thesis by (simp add: sampleInput_def)
qed

lemma exact_domain_spec_witness:
  "dom_valid (ComputeWar3ExactIndexVertexDomain sampleMemory sampleSpan 2 3 (-1) 100) \<and>
   3 = Min (readIndex sampleMemory (sp_data sampleSpan) 2 ` {0..<unat (3 :: u32)})"
  using exact_domain_spec [of sampleMemory sampleSpan 2 3 "-1" 100]
  unfolding sample_domain War3ExactIndexVertexDomain.select_convs by blast

lemma prepared_scan_is_direct_scan_witness:
  "fst (ComputeWar3ExactIndexVertexDomainPrepared 8192 sampleScan sampleMemory scan_counters_init) =
    \<lparr>dom_firstVertex = 2, dom_vertexCount = 5, dom_minIndex = 3, dom_maxIndex = 7, dom_valid = True\<rparr>"
proof -
  have "(8192 :: u32) \<noteq> 0" by simp
  from prepared_scan_is_direct_scan [OF this, of sampleScan sampleMemory scan_counters_init]
  show ?thesis by (simp add: sampleScan_def sample_domain)
qed

lemma compute_then_rebase_witness:
  "\<exists>mem'. RebaseWar3ExactIndexDomain sampleSpan 2 3 3 7 4096 6 sampleMemory = (True, mem') \<and>
    (\<forall>i<3. uint (readIndex mem' 4096 2 i) + 2 = uint (readIndex sampleMemory 4096 2 i) - 1)"
proof -
  have len: "requiredIndexBytes 2 3 = 6" by code_simp
  have data: "sp_data sampleSpan = 4096" by code_simp
  have "dom_valid (ComputeWar3ExactIndexVertexDomain sampleMemory sampleSpan 2 3 (-1) 100)"
    by (simp add: sample_domain)
  from compute_then_rebase [OF this, of 4096 6] show ?thesis
    unfolding sample_domain War3ExactIndexVertexDomain.select_convs len data by auto
qed

end
