(* ===== verification/IndexDomainCache.thy ===== *)
theory IndexDomainCache
  imports BufferSpans
begin

section \<open>The cache of exact index domains\<close>

text \<open>
  \<open>src/src/d3d9/war3/memory/war3_exact_index_domain_observer_cache.h\<close> and the step of
  \<open>src/src/d3d9/d3d9_device.cpp\<close> that uses it: a set-associative table from the complete
  identity of an index range to its exact vertex domain, with the least recently used way as
  the victim. The template parameters are the lengths of the table; every set has the same
  number of ways.
\<close>

subsection \<open>Keys\<close>

record War3ExactIndexDomainObserverKey =
  ok_mapEpoch :: u64
  ok_deviceEpoch :: u64
  ok_ownerIdentity :: u32
  ok_spanDataIdentity :: u32
  ok_identityGeneration :: u64
  ok_allocationGeneration :: u64
  ok_contentGeneration :: u64
  ok_spanLength :: u64
  ok_indexElementBytes :: u32
  ok_indexCount :: u32
  ok_baseVertex :: u32
  ok_vertexCapacity :: u32

definition key_valid :: "War3ExactIndexDomainObserverKey \<Rightarrow> bool" where
  "key_valid k \<longleftrightarrow>
     ok_mapEpoch k \<noteq> 0 \<and> ok_deviceEpoch k \<noteq> 0 \<and> ok_ownerIdentity k \<noteq> 0 \<and>
     ok_spanDataIdentity k \<noteq> 0 \<and> ok_identityGeneration k \<noteq> 0 \<and>
     ok_allocationGeneration k \<noteq> 0 \<and> ok_contentGeneration k \<noteq> 0 \<and>
     ok_spanLength k \<noteq> 0 \<and>
     (ok_indexElementBytes k = 2 \<or> ok_indexElementBytes k = 4) \<and>
     ok_indexCount k \<noteq> 0 \<and> ok_vertexCapacity k \<noteq> 0"

definition key_eq :: "War3ExactIndexDomainObserverKey \<Rightarrow> War3ExactIndexDomainObserverKey \<Rightarrow> bool" where
  "key_eq a b \<longleftrightarrow>
     ok_mapEpoch a = ok_mapEpoch b \<and> ok_deviceEpoch a = ok_deviceEpoch b \<and>
     ok_ownerIdentity a = ok_ownerIdentity b \<and>
     ok_spanDataIdentity a = ok_spanDataIdentity b \<and>
     ok_identityGeneration a = ok_identityGeneration b \<and>
     ok_allocationGeneration a = ok_allocationGeneration b \<and>
     ok_contentGeneration a = ok_contentGeneration b \<and>
     ok_spanLength a = ok_spanLength b \<and>
     ok_indexElementBytes a = ok_indexElementBytes b \<and>
     ok_indexCount a = ok_indexCount b \<and> ok_baseVertex a = ok_baseVertex b \<and>
     ok_vertexCapacity a = ok_vertexCapacity b"

definition hashFold :: "u64 \<Rightarrow> u64 \<Rightarrow> u64" where
  "hashFold hash v = hash XOR (v + 0x9e3779b97f4a7c15 + push_bit 6 hash + drop_bit 2 hash)"

definition War3ExactIndexDomainObserverKeyHash :: "War3ExactIndexDomainObserverKey \<Rightarrow> u64" where
  "War3ExactIndexDomainObserverKeyHash key =
    (let hash = 0xcbf29ce484222325;
         hash = hashFold hash (ok_mapEpoch key);
         hash = hashFold hash (ok_deviceEpoch key);
         hash = hashFold hash (ucast (ok_ownerIdentity key));
         hash = hashFold hash (ucast (ok_spanDataIdentity key));
         hash = hashFold hash (ok_identityGeneration key);
         hash = hashFold hash (ok_allocationGeneration key);
         hash = hashFold hash (ok_contentGeneration key);
         hash = hashFold hash (ok_spanLength key);
         hash = hashFold hash (ucast (ok_indexElementBytes key) OR push_bit 32 (ucast (ok_indexCount key)));
         hash = hashFold hash (ucast (ok_baseVertex key) OR push_bit 32 (ucast (ok_vertexCapacity key)))
     in hash)"

subsection \<open>The table\<close>

datatype War3ExactIndexDomainObserverLookup = LookupInvalidKey | Hit | MissEmpty | MissCollision

datatype War3ExactIndexDomainObserverStore = StoreInvalidKey | Updated | Inserted | Replaced

record Entry =
  en_key :: War3ExactIndexDomainObserverKey
  en_domain :: War3ExactIndexVertexDomain
  en_lastUseSerial :: u64
  en_valid :: bool

record ObserverCache =
  oc_sets :: "Entry list list"
  oc_accessSerial :: u64

definition key_init :: War3ExactIndexDomainObserverKey where
  "key_init = \<lparr>ok_mapEpoch = 0, ok_deviceEpoch = 0, ok_ownerIdentity = 0, ok_spanDataIdentity = 0,
     ok_identityGeneration = 0, ok_allocationGeneration = 0, ok_contentGeneration = 0,
     ok_spanLength = 0, ok_indexElementBytes = 0, ok_indexCount = 0, ok_baseVertex = 0,
     ok_vertexCapacity = 0\<rparr>"

definition entry_init :: Entry where
  "entry_init = \<lparr>en_key = key_init, en_domain = domain_init, en_lastUseSerial = 0, en_valid = False\<rparr>"

definition cache_init :: "nat \<Rightarrow> nat \<Rightarrow> ObserverCache" where
  "cache_init setCount wayCount =
    \<lparr>oc_sets = replicate setCount (replicate wayCount entry_init), oc_accessSerial = 0\<rparr>"

definition setIndex :: "War3ExactIndexDomainObserverKey \<Rightarrow> ObserverCache \<Rightarrow> nat" where
  "setIndex key c =
    unat ((ucast (War3ExactIndexDomainObserverKeyHash key) :: u32) AND (of_nat (length (oc_sets c)) - 1))"

definition nextSerial :: "ObserverCache \<Rightarrow> u64" where
  "nextSerial c = (if oc_accessSerial c \<noteq> UINT64_MAX then oc_accessSerial c + 1 else oc_accessSerial c)"

text \<open>The first way that holds the key.\<close>

fun findWay :: "War3ExactIndexDomainObserverKey \<Rightarrow> Entry list \<Rightarrow> nat option" where
  "findWay key [] = None"
| "findWay key (e # es) =
    (if en_valid e \<and> key_eq (en_key e) key then Some 0 else map_option Suc (findWay key es))"

definition setWay :: "nat \<Rightarrow> nat \<Rightarrow> Entry \<Rightarrow> u64 \<Rightarrow> ObserverCache \<Rightarrow> ObserverCache" where
  "setWay i way e serial c =
    c\<lparr>oc_sets := (oc_sets c)[i := (oc_sets c ! i)[way := e]], oc_accessSerial := serial\<rparr>"

definition lookup ::
  "War3ExactIndexDomainObserverKey \<Rightarrow> War3ExactIndexVertexDomain \<Rightarrow> ObserverCache \<Rightarrow>
    War3ExactIndexDomainObserverLookup \<times> War3ExactIndexVertexDomain \<times> ObserverCache" where
  "lookup key domain c =
    (if \<not> key_valid key then (LookupInvalidKey, domain, c)
     else
       let i = setIndex key c; ways = oc_sets c ! i
       in case findWay key ways of
            Some way \<Rightarrow>
              let serial = nextSerial c
              in (Hit, en_domain (ways ! way), setWay i way ((ways ! way)\<lparr>en_lastUseSerial := serial\<rparr>) serial c)
          | None \<Rightarrow> (if \<exists>e \<in> set ways. en_valid e then MissCollision else MissEmpty, domain, c))"

text \<open>The victim: the first free way, otherwise the least recently used with the lowest number.\<close>

fun pickVictim :: "Entry list \<Rightarrow> nat list \<Rightarrow> nat \<Rightarrow> nat \<times> bool" where
  "pickVictim ways [] victim = (victim, True)"
| "pickVictim ways (way # rest) victim =
    (if \<not> en_valid (ways ! way) then (way, False)
     else pickVictim ways rest
            (if en_lastUseSerial (ways ! way) < en_lastUseSerial (ways ! victim) then way else victim))"

definition store ::
  "War3ExactIndexDomainObserverKey \<Rightarrow> War3ExactIndexVertexDomain \<Rightarrow> ObserverCache \<Rightarrow>
    War3ExactIndexDomainObserverStore \<times> ObserverCache" where
  "store key domain c =
    (if \<not> key_valid key then (StoreInvalidKey, c)
     else
       let i = setIndex key c; ways = oc_sets c ! i; serial = nextSerial c
       in case findWay key ways of
            Some way \<Rightarrow>
              (Updated, setWay i way ((ways ! way)\<lparr>en_domain := domain, en_lastUseSerial := serial\<rparr>) serial c)
          | None \<Rightarrow>
              (case pickVictim ways [0..<length ways] 0 of (victim, replacing) \<Rightarrow>
                 (if replacing then Replaced else Inserted,
                  setWay i victim \<lparr>en_key = key, en_domain = domain, en_lastUseSerial = serial,
                                   en_valid = True\<rparr> serial c)))"

subsection \<open>The draw that uses the table\<close>

record DomainCacheStats =
  dc_lookupCount :: u32
  dc_hitCount :: u32
  dc_missCount :: u32
  dc_collisionMissCount :: u32
  dc_storeCount :: u32
  dc_evictionCount :: u32

definition cacheKeyOf :: "u64 \<Rightarrow> u64 \<Rightarrow> War3ExactIndexDomainScanInput \<Rightarrow> War3ExactIndexDomainObserverKey" where
  "cacheKeyOf mapEpoch deviceEpoch input =
    (let exactIndexSpan = ds_indices input
     in \<lparr>ok_mapEpoch = mapEpoch, ok_deviceEpoch = deviceEpoch,
         ok_ownerIdentity = sp_ownerIdentity exactIndexSpan,
         ok_spanDataIdentity = sp_data exactIndexSpan,
         ok_identityGeneration = sp_identityGeneration exactIndexSpan,
         ok_allocationGeneration = sp_allocationGeneration exactIndexSpan,
         ok_contentGeneration = sp_contentGeneration exactIndexSpan,
         ok_spanLength = sp_length exactIndexSpan,
         ok_indexElementBytes = ds_indexElementBytes input,
         ok_indexCount = ds_indexCount input,
         ok_baseVertex = ds_baseVertex input,
         ok_vertexCapacity = ds_vertexCapacity input\<rparr>)"

record CacheWorld =
  cw_cache :: ObserverCache
  cw_stats :: DomainCacheStats
  cw_memory :: memory
  cw_scan :: ScanCounters

definition cachedDomain ::
  "u32 \<Rightarrow> u64 \<Rightarrow> u64 \<Rightarrow> War3ExactIndexDomainScanInput \<Rightarrow> CacheWorld \<Rightarrow>
    War3ExactIndexVertexDomain \<times> CacheWorld" where
  "cachedDomain bulkRead mapEpoch deviceEpoch input w =
    (let cacheKey = cacheKeyOf mapEpoch deviceEpoch input;
         st = cw_stats w;
         st = st\<lparr>dc_lookupCount := dc_lookupCount st + 1\<rparr>
     in case lookup cacheKey domain_init (cw_cache w) of (res, exactDomain, cache) \<Rightarrow>
       if res = Hit
       then (exactDomain, w\<lparr>cw_cache := cache, cw_stats := st\<lparr>dc_hitCount := dc_hitCount st + 1\<rparr>\<rparr>)
       else
         let st = st\<lparr>dc_missCount := dc_missCount st + 1\<rparr>;
             st = (if res = MissCollision
                   then st\<lparr>dc_collisionMissCount := dc_collisionMissCount st + 1\<rparr> else st)
         in case ComputeWar3ExactIndexVertexDomainPrepared bulkRead input (cw_memory w) (cw_scan w) of
              (exactDomain, mem, scan) \<Rightarrow>
                (case store cacheKey exactDomain cache of (stored, cache) \<Rightarrow>
                   let st = (if stored \<noteq> StoreInvalidKey
                             then st\<lparr>dc_storeCount := dc_storeCount st + 1\<rparr> else st);
                       st = (if stored = Replaced
                             then st\<lparr>dc_evictionCount := dc_evictionCount st + 1\<rparr> else st)
                   in (exactDomain, w\<lparr>cw_cache := cache, cw_stats := st, cw_memory := mem, cw_scan := scan\<rparr>)))"

subsection \<open>The invariant and the abstract view\<close>

lemma option_ext: "(\<And>w. a = Some w \<longleftrightarrow> b = Some w) \<Longrightarrow> a = b"
  by (cases a; cases b) fastforce+

lemma key_eq_iff [simp]: "key_eq a b \<longleftrightarrow> a = b"
  by (cases a; cases b) (simp add: key_eq_def)

definition ways_ok :: "Entry list \<Rightarrow> bool" where
  "ways_ok ways \<longleftrightarrow> ways \<noteq> [] \<and>
     (\<forall>v < length ways. \<forall>w < length ways. en_valid (ways ! v) \<and> en_valid (ways ! w) \<and>
        en_key (ways ! v) = en_key (ways ! w) \<longrightarrow> v = w)"

definition cache_ok :: "ObserverCache \<Rightarrow> bool" where
  "cache_ok c \<longleftrightarrow> oc_sets c \<noteq> [] \<and> length (oc_sets c) < 2 ^ 32 \<and> (\<forall>ways \<in> set (oc_sets c). ways_ok ways)"

text \<open>What the table says about a key.\<close>

definition view :: "ObserverCache \<Rightarrow> War3ExactIndexDomainObserverKey \<Rightarrow> War3ExactIndexVertexDomain option" where
  "view c key =
    (let ways = oc_sets c ! setIndex key c
     in if key_valid key then map_option (\<lambda>way. en_domain (ways ! way)) (findWay key ways) else None)"

lemma setIndex_less: "cache_ok c \<Longrightarrow> setIndex key c < length (oc_sets c)"
proof -
  assume ok: "cache_ok c"
  define n where "n = (of_nat (length (oc_sets c)) :: u32)"
  have n: "unat n = length (oc_sets c)"
    using ok by (simp add: n_def cache_ok_def unat_of_nat_u32)
  then have "n \<noteq> 0" using ok by (auto simp: cache_ok_def)
  then have m: "unat (n - 1) = length (oc_sets c) - 1" using n by (simp add: unat_minus_one)
  have "(ucast (War3ExactIndexDomainObserverKeyHash key) :: u32) AND (n - 1) \<le> n - 1"
    by (rule word_and_le1)
  then have "setIndex key c \<le> length (oc_sets c) - 1"
    using m by (simp add: setIndex_def n_def [symmetric] word_le_nat_alt)
  then show ?thesis using ok by (cases "oc_sets c") (auto simp: cache_ok_def)
qed

lemma set_ways_ok: "cache_ok c \<Longrightarrow> ways_ok (oc_sets c ! setIndex key c)"
  using setIndex_less [of c key] by (simp add: cache_ok_def)

lemma findWay_some:
  "findWay key ways = Some w \<Longrightarrow> w < length ways \<and> en_valid (ways ! w) \<and> en_key (ways ! w) = key"
  by (induction ways arbitrary: w) (auto split: if_splits)

lemma findWay_none: "findWay key ways = None \<longleftrightarrow> (\<forall>e \<in> set ways. \<not> (en_valid e \<and> en_key e = key))"
  by (induction ways) auto

lemma findWay_iff:
  assumes "ways_ok ways"
  shows "findWay key ways = Some w \<longleftrightarrow> w < length ways \<and> en_valid (ways ! w) \<and> en_key (ways ! w) = key"
proof
  assume r: "w < length ways \<and> en_valid (ways ! w) \<and> en_key (ways ! w) = key"
  then have "findWay key ways \<noteq> None" by (auto simp: findWay_none intro!: bexI [of _ "ways ! w"])
  then obtain v where v: "findWay key ways = Some v" by auto
  with findWay_some [OF v] r assms show "findWay key ways = Some w" by (auto simp: ways_ok_def)
qed (rule findWay_some)

text \<open>Writing a valid entry for a key that no other way holds.\<close>

lemma ways_update:
  assumes ok: "ways_ok ways" and v: "v < length ways" and e: "en_valid e" "en_key e = key"
    and only: "findWay key ways = Some v \<or> findWay key ways = None"
  shows "ways_ok (ways[v := e])" and "findWay key (ways[v := e]) = Some v"
    and "key' \<noteq> key \<Longrightarrow> findWay key' (ways[v := e]) =
      (if en_valid (ways ! v) \<and> en_key (ways ! v) = key' then None else findWay key' ways)"
proof -
  have other: "w = v" if "w < length ways" "en_valid (ways ! w)" "en_key (ways ! w) = key" for w
  proof -
    have "findWay key ways = Some w" using that by (simp add: findWay_iff [OF ok])
    with only show ?thesis by auto
  qed
  have uniq: "a = b" if "a < length ways" "b < length ways" "en_valid (ways ! a)" "en_valid (ways ! b)"
    "en_key (ways ! a) = en_key (ways ! b)" for a b
    using ok that by (simp add: ways_ok_def)
  show ok': "ways_ok (ways[v := e])"
    unfolding ways_ok_def
  proof (intro conjI allI impI)
    show "ways[v := e] \<noteq> []" using ok by (simp add: ways_ok_def)
    fix a b assume "a < length (ways[v := e])" "b < length (ways[v := e])"
      "en_valid (ways[v := e] ! a) \<and> en_valid (ways[v := e] ! b) \<and> en_key (ways[v := e] ! a) = en_key (ways[v := e] ! b)"
    then have ab: "a < length ways" "b < length ways" and va: "en_valid (ways[v := e] ! a)"
      and vb: "en_valid (ways[v := e] ! b)" and k: "en_key (ways[v := e] ! a) = en_key (ways[v := e] ! b)" by auto
    consider "a = v" "b = v" | "a = v" "b \<noteq> v" | "a \<noteq> v" "b = v" | "a \<noteq> v" "b \<noteq> v" by blast
    then show "a = b"
    proof cases
      case 2
      then show ?thesis using other [OF ab(2)] vb k v e(2) by simp
    next
      case 3
      then show ?thesis using other [OF ab(1)] va k v e(2) by simp
    next
      case 4
      then show ?thesis using uniq [OF ab] va vb k by simp
    qed simp
  qed
  show "findWay key (ways[v := e]) = Some v" using v e by (simp add: findWay_iff [OF ok'])
  assume ne: "key' \<noteq> key"
  show "findWay key' (ways[v := e]) =
      (if en_valid (ways ! v) \<and> en_key (ways ! v) = key' then None else findWay key' ways)"
  proof (cases "en_valid (ways ! v) \<and> en_key (ways ! v) = key'")
    case True
    have "findWay key' (ways[v := e]) \<noteq> Some w" for w
    proof
      assume "findWay key' (ways[v := e]) = Some w"
      then have w: "w < length ways" "en_valid (ways[v := e] ! w)" "en_key (ways[v := e] ! w) = key'"
        by (simp_all add: findWay_iff [OF ok'])
      with e ne have "w \<noteq> v" by (auto simp: nth_list_update)
      with w True v ok show False by (auto simp: ways_ok_def)
    qed
    then have "findWay key' (ways[v := e]) = None" by (metis not_Some_eq)
    with True show ?thesis by simp
  next
    case False
    have "findWay key' (ways[v := e]) = Some w \<longleftrightarrow> findWay key' ways = Some w" for w
      using False e ne v by (cases "w = v") (auto simp: findWay_iff [OF ok] findWay_iff [OF ok'])
    then have "findWay key' (ways[v := e]) = findWay key' ways" by (rule option_ext)
    with False show ?thesis by (simp only: if_False)
  qed
qed

lemma setWay_facts:
  assumes ok: "cache_ok c" and valid: "key_valid key" and i: "i = setIndex key c"
    and v: "v < length (oc_sets c ! i)" and e: "en_valid e" "en_key e = key"
    and only: "findWay key (oc_sets c ! i) = Some v \<or> findWay key (oc_sets c ! i) = None"
  shows "cache_ok (setWay i v e serial c)"
    and "view (setWay i v e serial c) key = Some (en_domain e)"
    and "key' \<noteq> key \<Longrightarrow> view (setWay i v e serial c) key' =
      (if setIndex key' c = i \<and> en_valid (oc_sets c ! i ! v) \<and> en_key (oc_sets c ! i ! v) = key'
       then None else view c key')"
proof -
  have il: "i < length (oc_sets c)" unfolding i by (rule setIndex_less [OF ok])
  have w: "ways_ok (oc_sets c ! i)" unfolding i by (rule set_ways_ok [OF ok])
  note u = ways_update [OF w v e only]
  have sets: "oc_sets (setWay i v e serial c) = (oc_sets c)[i := (oc_sets c ! i)[v := e]]"
    by (simp add: setWay_def)
  have ix: "setIndex k (setWay i v e serial c) = setIndex k c" for k by (simp add: setIndex_def sets)
  show "cache_ok (setWay i v e serial c)"
    using ok u(1) set_update_subset_insert [of "oc_sets c" i] by (fastforce simp: cache_ok_def sets)
  show "view (setWay i v e serial c) key = Some (en_domain e)"
    using valid u(2) v il by (simp add: view_def ix sets i [symmetric])
  assume ne: "key' \<noteq> key"
  show "view (setWay i v e serial c) key' =
      (if setIndex key' c = i \<and> en_valid (oc_sets c ! i ! v) \<and> en_key (oc_sets c ! i ! v) = key'
       then None else view c key')"
  proof (cases "setIndex key' c = i")
    case False
    with il setIndex_less [OF ok, of key'] show ?thesis by (simp add: view_def ix sets)
  next
    case True
    have "en_domain ((oc_sets c ! i)[v := e] ! a) = en_domain (oc_sets c ! i ! a)"
      if "findWay key' (oc_sets c ! i) = Some a" "\<not> (en_valid (oc_sets c ! i ! v) \<and> en_key (oc_sets c ! i ! v) = key')" for a
      using that findWay_some [OF that(1)] by (cases "a = v") auto
    then show ?thesis
      using True il u(3) [OF ne] by (auto simp: view_def ix sets Let_def split: option.split)
        (cases "findWay key' (oc_sets c ! i)"; simp)+
  qed
qed

subsection \<open>The operations over the view\<close>

lemma lookup_view:
  assumes ok: "cache_ok c"
  shows "fst (lookup key d0 c) = Hit \<longleftrightarrow> view c key \<noteq> None"
    and "view c key = Some d \<Longrightarrow> fst (snd (lookup key d0 c)) = d"
    and "view c key = None \<Longrightarrow> lookup key d0 c = (fst (lookup key d0 c), d0, c)"
    and "cache_ok (snd (snd (lookup key d0 c)))" and "view (snd (snd (lookup key d0 c))) = view c"
proof -
  let ?ways = "oc_sets c ! setIndex key c"
  have "(fst (lookup key d0 c) = Hit \<longleftrightarrow> view c key \<noteq> None) \<and>
     (\<forall>d. view c key = Some d \<longrightarrow> fst (snd (lookup key d0 c)) = d) \<and>
     (view c key = None \<longrightarrow> lookup key d0 c = (fst (lookup key d0 c), d0, c)) \<and>
     cache_ok (snd (snd (lookup key d0 c))) \<and> view (snd (snd (lookup key d0 c))) = view c"
  proof (cases "key_valid key")
    case False
    then show ?thesis using ok by (simp add: lookup_def view_def)
  next
    case valid: True
    show ?thesis
    proof (cases "findWay key ?ways")
      case None
      then show ?thesis using ok valid by (simp add: lookup_def view_def Let_def)
    next
      case (Some way)
      let ?e = "(?ways ! way)\<lparr>en_lastUseSerial := nextSerial c\<rparr>"
      have way: "way < length ?ways" "en_valid ?e" "en_key ?e = key"
        using findWay_some [OF Some] by simp_all
      have only: "findWay key ?ways = Some way \<or> findWay key ?ways = None" using Some by simp
      note f = setWay_facts [where serial = "nextSerial c", OF ok valid refl way only]
      have key: "view c key = Some (en_domain (?ways ! way))" using valid Some by (simp add: view_def Let_def)
      have "view (setWay (setIndex key c) way ?e (nextSerial c) c) = view c"
      proof
        fix key' show "view (setWay (setIndex key c) way ?e (nextSerial c) c) key' = view c key'"
          using f(2) f(3) [where key' = key'] key findWay_some [OF Some] by (cases "key' = key") auto
      qed
      with f(1) key show ?thesis using valid Some by (simp add: lookup_def Let_def)
    qed
  qed
  then show "fst (lookup key d0 c) = Hit \<longleftrightarrow> view c key \<noteq> None"
    and "view c key = Some d \<Longrightarrow> fst (snd (lookup key d0 c)) = d"
    and "view c key = None \<Longrightarrow> lookup key d0 c = (fst (lookup key d0 c), d0, c)"
    and "cache_ok (snd (snd (lookup key d0 c)))" and "view (snd (snd (lookup key d0 c))) = view c" by blast+
qed

text \<open>The victim is free, or every way is taken and the victim is the least recently used.\<close>

lemma pickVictim_result:
  assumes "victim < length ways" and "set rest \<subseteq> {..<length ways}"
  shows "fst (pickVictim ways rest victim) < length ways"
    and "\<not> snd (pickVictim ways rest victim) \<Longrightarrow> \<not> en_valid (ways ! fst (pickVictim ways rest victim))"
    and "snd (pickVictim ways rest victim) \<Longrightarrow>
      (\<forall>w \<in> insert victim (set rest). (w \<in> set rest \<longrightarrow> en_valid (ways ! w)) \<and>
        en_lastUseSerial (ways ! fst (pickVictim ways rest victim)) \<le> en_lastUseSerial (ways ! w))"
proof -
  have "fst (pickVictim ways rest victim) < length ways \<and>
    (\<not> snd (pickVictim ways rest victim) \<longrightarrow> \<not> en_valid (ways ! fst (pickVictim ways rest victim))) \<and>
    (snd (pickVictim ways rest victim) \<longrightarrow>
      (\<forall>w \<in> insert victim (set rest). (w \<in> set rest \<longrightarrow> en_valid (ways ! w)) \<and>
        en_lastUseSerial (ways ! fst (pickVictim ways rest victim)) \<le> en_lastUseSerial (ways ! w)))"
    using assms
  proof (induction rest arbitrary: victim)
    case (Cons way rest)
    define next_victim where
      "next_victim = (if en_lastUseSerial (ways ! way) < en_lastUseSerial (ways ! victim) then way else victim)"
    have nv: "next_victim < length ways" "set rest \<subseteq> {..<length ways}" using Cons.prems by (auto simp: next_victim_def)
    have le: "en_lastUseSerial (ways ! next_victim) \<le> en_lastUseSerial (ways ! way)"
      "en_lastUseSerial (ways ! next_victim) \<le> en_lastUseSerial (ways ! victim)"
      by (auto simp: next_victim_def)
    show ?case
    proof (cases "en_valid (ways ! way)")
      case False
      then show ?thesis using Cons.prems by simp
    next
      case True
      then have eq: "pickVictim ways (way # rest) victim = pickVictim ways rest next_victim"
        by (simp add: next_victim_def)
      from Cons.IH [OF nv] True le show ?thesis unfolding eq by (auto intro: order_trans)
    qed
  qed simp
  then show "fst (pickVictim ways rest victim) < length ways"
    and "\<not> snd (pickVictim ways rest victim) \<Longrightarrow> \<not> en_valid (ways ! fst (pickVictim ways rest victim))"
    and "snd (pickVictim ways rest victim) \<Longrightarrow>
      (\<forall>w \<in> insert victim (set rest). (w \<in> set rest \<longrightarrow> en_valid (ways ! w)) \<and>
        en_lastUseSerial (ways ! fst (pickVictim ways rest victim)) \<le> en_lastUseSerial (ways ! w))" by blast+
qed

text \<open>Where a store writes, and what was there.\<close>

lemma store_cases:
  assumes ok: "cache_ok c" and valid: "key_valid key"
  defines "ways \<equiv> oc_sets c ! setIndex key c"
  obtains v e where "snd (store key d c) = setWay (setIndex key c) v e (nextSerial c) c"
    and "v < length ways" and "en_valid e" and "en_key e = key" and "en_domain e = d"
    and "findWay key ways = Some v \<or>
      (findWay key ways = None \<and> (\<not> en_valid (ways ! v) \<or> fst (store key d c) = Replaced \<and>
        (\<forall>w \<in> set ways. en_valid w \<and> en_lastUseSerial (ways ! v) \<le> en_lastUseSerial w)))"
proof (cases "findWay key ways")
  case (Some way)
  have f: "way < length ways" "en_valid (ways ! way)" "en_key (ways ! way) = key"
    using findWay_some [OF Some] by simp_all
  show thesis
    by (rule that [of way "(ways ! way)\<lparr>en_domain := d, en_lastUseSerial := nextSerial c\<rparr>"])
      (use Some f valid in \<open>simp_all add: store_def ways_def [symmetric] Let_def\<close>)
next
  case None
  have "ways \<noteq> []" using set_ways_ok [OF ok, of key] by (simp add: ways_def ways_ok_def)
  then have "0 < length ways" "set [0..<length ways] \<subseteq> {..<length ways}" by auto
  note p = pickVictim_result [OF this]
  define v where "v = fst (pickVictim ways [0..<length ways] 0)"
  define replacing where "replacing = snd (pickVictim ways [0..<length ways] 0)"
  have pv: "pickVictim ways [0..<length ways] 0 = (v, replacing)" by (simp add: v_def replacing_def)
  have lru: "\<forall>w \<in> set ways. en_valid w \<and> en_lastUseSerial (ways ! v) \<le> en_lastUseSerial w" if replacing
    using p(3) that unfolding v_def replacing_def by (auto simp: in_set_conv_nth)
  show thesis
    by (rule that [of v "\<lparr>en_key = key, en_domain = d, en_lastUseSerial = nextSerial c, en_valid = True\<rparr>"])
      (use None valid p(1,2) lru in \<open>auto simp: store_def ways_def [symmetric] Let_def pv v_def [symmetric] replacing_def [symmetric]\<close>)
qed

lemma store_view:
  assumes ok: "cache_ok c" and valid: "key_valid key"
  shows "cache_ok (snd (store key d c))" and "view (snd (store key d c)) key = Some d"
    and "key' \<noteq> key \<Longrightarrow> view (snd (store key d c)) key' \<noteq> view c key' \<Longrightarrow>
      view (snd (store key d c)) key' = None \<and> fst (store key d c) = Replaced \<and>
      setIndex key' c = setIndex key c \<and>
      (\<exists>v. findWay key' (oc_sets c ! setIndex key c) = Some v \<and>
        (\<forall>w \<in> set (oc_sets c ! setIndex key c). en_valid w \<and>
           en_lastUseSerial (oc_sets c ! setIndex key c ! v) \<le> en_lastUseSerial w))"
proof -
  obtain v e where eq: "snd (store key d c) = setWay (setIndex key c) v e (nextSerial c) c"
    and v: "v < length (oc_sets c ! setIndex key c)" and e: "en_valid e" "en_key e = key" and d: "en_domain e = d"
    and way: "findWay key (oc_sets c ! setIndex key c) = Some v \<or>
      (findWay key (oc_sets c ! setIndex key c) = None \<and>
        (\<not> en_valid (oc_sets c ! setIndex key c ! v) \<or> fst (store key d c) = Replaced \<and>
        (\<forall>w \<in> set (oc_sets c ! setIndex key c). en_valid w \<and>
           en_lastUseSerial (oc_sets c ! setIndex key c ! v) \<le> en_lastUseSerial w)))"
    by (rule store_cases [OF ok valid])
  from way have only: "findWay key (oc_sets c ! setIndex key c) = Some v \<or> findWay key (oc_sets c ! setIndex key c) = None"
    by (elim disjE) simp_all
  note f = setWay_facts [where serial = "nextSerial c", OF ok valid refl v e only, folded eq]
  show "cache_ok (snd (store key d c))" "view (snd (store key d c)) key = Some d" using f(1,2) d by simp_all
  assume ne: "key' \<noteq> key" and changed: "view (snd (store key d c)) key' \<noteq> view c key'"
  with f(3) [OF ne] have here: "setIndex key' c = setIndex key c"
    "en_valid (oc_sets c ! setIndex key c ! v)" "en_key (oc_sets c ! setIndex key c ! v) = key'"
    and gone: "view (snd (store key d c)) key' = None" by (auto split: if_splits)
  have found: "findWay key' (oc_sets c ! setIndex key c) = Some v"
    using here v by (simp add: findWay_iff [OF set_ways_ok [OF ok]])
  have "findWay key (oc_sets c ! setIndex key c) \<noteq> Some v"
    using findWay_some [of key "oc_sets c ! setIndex key c" v] here ne by auto
  with way here gone found show "view (snd (store key d c)) key' = None \<and> fst (store key d c) = Replaced \<and>
      setIndex key' c = setIndex key c \<and>
      (\<exists>v. findWay key' (oc_sets c ! setIndex key c) = Some v \<and>
        (\<forall>w \<in> set (oc_sets c ! setIndex key c). en_valid w \<and>
           en_lastUseSerial (oc_sets c ! setIndex key c ! v) \<le> en_lastUseSerial w))" by blast
qed

lemma cache_init_ok:
  assumes "0 < setCount" "setCount < 2 ^ 32" "0 < wayCount"
  shows "cache_ok (cache_init setCount wayCount)" and "view (cache_init setCount wayCount) key = None"
proof -
  show ok: "cache_ok (cache_init setCount wayCount)"
    using assms by (auto simp: cache_ok_def cache_init_def ways_ok_def entry_init_def)
  have "findWay key (oc_sets (cache_init setCount wayCount) ! setIndex key (cache_init setCount wayCount)) = None"
    using setIndex_less [OF ok, of key] by (simp add: findWay_none cache_init_def entry_init_def)
  then show "view (cache_init setCount wayCount) key = None" by (simp add: view_def Let_def)
qed

subsection \<open>The interface of a cache\<close>

text \<open>
  A keyed cache: looking up shows what the view has and changes no view; putting makes the view
  of the key the value put, and of any other key at most forgets. Its clients rely on two
  consequences: everything it ever shows was put last, and a property of all values put is a
  property of every value shown.
\<close>

datatype ('k, 'd) access = Look 'k | Put 'k 'd

fun lastPut :: "('k \<Rightarrow> bool) \<Rightarrow> ('k, 'd) access list \<Rightarrow> ('k \<Rightarrow> 'd option) \<Rightarrow> 'k \<Rightarrow> 'd option" where
  "lastPut admits [] m = m"
| "lastPut admits (Look k # as) m = lastPut admits as m"
| "lastPut admits (Put k d # as) m = lastPut admits as (if admits k then m(k \<mapsto> d) else m)"

locale keyed_cache =
  fixes ok :: "'c \<Rightarrow> bool" and admits :: "'k \<Rightarrow> bool" and shows_of :: "'c \<Rightarrow> 'k \<Rightarrow> 'd option"
    and look :: "'k \<Rightarrow> 'c \<Rightarrow> 'c" and put :: "'k \<Rightarrow> 'd \<Rightarrow> 'c \<Rightarrow> 'c"
  assumes look_ok: "ok c \<Longrightarrow> ok (look k c)" and look_shows: "ok c \<Longrightarrow> shows_of (look k c) = shows_of c"
    and put_ok: "ok c \<Longrightarrow> ok (put k d c)" and put_refused: "\<not> admits k \<Longrightarrow> put k d c = c"
    and put_same: "ok c \<Longrightarrow> admits k \<Longrightarrow> shows_of (put k d c) k = Some d"
    and put_other: "ok c \<Longrightarrow> admits k \<Longrightarrow> k' \<noteq> k \<Longrightarrow> shows_of (put k d c) k' = Some d' \<Longrightarrow> shows_of c k' = Some d'"
begin

primrec access_step :: "('k, 'd) access \<Rightarrow> 'c \<Rightarrow> 'c" where
  "access_step (Look k) c = look k c"
| "access_step (Put k d) c = put k d c"

lemma put_below:
  assumes "ok c" and "shows_of c \<subseteq>\<^sub>m m"
  shows "shows_of (put k d c) \<subseteq>\<^sub>m (if admits k then m(k \<mapsto> d) else m)"
proof (cases "admits k")
  case False
  with assms show ?thesis by (simp add: put_refused)
next
  case True
  show ?thesis
    unfolding map_le_def
  proof
    fix a assume "a \<in> dom (shows_of (put k d c))"
    then obtain v where v: "shows_of (put k d c) a = Some v" by auto
    show "shows_of (put k d c) a = (if admits k then m(k \<mapsto> d) else m) a"
    proof (cases "a = k")
      case True
      then show ?thesis using put_same [OF assms(1) \<open>admits k\<close>, of d] \<open>admits k\<close> by simp
    next
      case False
      from put_other [OF assms(1) \<open>admits k\<close> False v] have "shows_of c a = Some v" .
      with map_le_some [OF assms(2)] have "m a = Some v" by blast
      with v False \<open>admits k\<close> show ?thesis by simp
    qed
  qed
qed

lemma shows_last_put:
  "ok c \<Longrightarrow> shows_of c \<subseteq>\<^sub>m m \<Longrightarrow>
    ok (fold access_step as c) \<and> shows_of (fold access_step as c) \<subseteq>\<^sub>m lastPut admits as m"
proof (induction as arbitrary: c m)
  case (Cons a as)
  show ?case
  proof (cases a)
    case (Look k)
    have "ok (look k c)" "shows_of (look k c) \<subseteq>\<^sub>m m" using Cons.prems by (simp_all add: look_ok look_shows)
    from Cons.IH [OF this] show ?thesis by (simp add: Look)
  next
    case (Put k d)
    from Cons.IH [OF put_ok [OF Cons.prems(1)] put_below [OF Cons.prems]] show ?thesis by (simp add: Put)
  qed
qed simp

text \<open>All values are right: a relation between keys and values that every put respects.\<close>

lemma put_right:
  assumes "ok c" and "\<forall>k' d'. shows_of c k' = Some d' \<longrightarrow> R k' d'" and "R k d"
  shows "\<forall>k' d'. shows_of (put k d c) k' = Some d' \<longrightarrow> R k' d'"
proof (intro allI impI)
  fix k' d' assume v: "shows_of (put k d c) k' = Some d'"
  show "R k' d'"
  proof (cases "admits k \<and> k' \<noteq> k")
    case True
    with put_other [OF assms(1) _ _ v] assms(2) show ?thesis by blast
  next
    case False
    show ?thesis
    proof (cases "admits k")
      case True
      with False v put_same [OF assms(1) True, of d] assms(3) show ?thesis by simp
    next
      case refused: False
      with v assms(2) show ?thesis by (simp add: put_refused)
    qed
  qed
qed

end

definition lookCache :: "War3ExactIndexDomainObserverKey \<Rightarrow> ObserverCache \<Rightarrow> ObserverCache" where
  "lookCache key c = snd (snd (lookup key domain_init c))"

definition putCache :: "War3ExactIndexDomainObserverKey \<Rightarrow> War3ExactIndexVertexDomain \<Rightarrow> ObserverCache \<Rightarrow> ObserverCache" where
  "putCache key d c = snd (store key d c)"

lemma store_refused: "\<not> key_valid key \<Longrightarrow> store key d c = (StoreInvalidKey, c)"
  by (simp add: store_def)

lemma putCache_ok: "cache_ok c \<Longrightarrow> cache_ok (putCache key d c)"
  by (cases "key_valid key") (simp_all add: putCache_def store_view store_refused)

interpretation domains: keyed_cache cache_ok key_valid view lookCache putCache
proof
  fix c k k' d d'
  assume "cache_ok c" "key_valid k" "k' \<noteq> k" "view (putCache k d c) k' = Some d'"
  then show "view c k' = Some d'"
    using store_view(3) [of c k k' d] by (cases "view (putCache k d c) k' = view c k'") (auto simp: putCache_def)
qed (simp_all add: lookCache_def putCache_ok lookup_view, simp_all add: putCache_def store_refused store_view)

fun cache_access :: "(War3ExactIndexDomainObserverKey, War3ExactIndexVertexDomain) access \<Rightarrow> ObserverCache \<Rightarrow> ObserverCache" where
  "cache_access (Look key) c = lookCache key c"
| "cache_access (Put key d) c = putCache key d c"

lemma cache_access_step: "cache_access = domains.access_step"
proof (intro ext)
  fix a c show "cache_access a c = domains.access_step a c" by (cases a) simp_all
qed

text \<open>
  After any sequence of lookups and stores the cache answers a key only with the domain last
  stored under exactly that key. A store of a valid key is answered by the next lookup. A
  store can make another key unknown only when every way of its set is taken, and then only
  the key of that set that was used least recently.
\<close>

theorem cache_returns_last_store:
  fixes accesses key key' d d0 setCount wayCount
  assumes dims: "0 < setCount" "setCount < 2 ^ 32" "0 < wayCount"
  defines "c \<equiv> fold cache_access accesses (cache_init setCount wayCount)"
  shows "(fst (lookup key d0 c) = Hit \<longrightarrow>
      lastPut key_valid accesses Map.empty key = Some (fst (snd (lookup key d0 c)))) \<and>
    (key_valid key \<longrightarrow> fst (lookup key d0 (snd (store key d c))) = Hit \<and>
      fst (snd (lookup key d0 (snd (store key d c)))) = d) \<and>
    (key' \<noteq> key \<and> fst (lookup key' d0 c) = Hit \<and> fst (lookup key' d0 (snd (store key d c))) \<noteq> Hit \<longrightarrow>
      fst (store key d c) = Replaced \<and> setIndex key' c = setIndex key c \<and>
      (\<exists>v. findWay key' (oc_sets c ! setIndex key c) = Some v \<and>
        (\<forall>w \<in> set (oc_sets c ! setIndex key c). en_valid w \<and>
           en_lastUseSerial (oc_sets c ! setIndex key c ! v) \<le> en_lastUseSerial w)))"
proof -
  have "view (cache_init setCount wayCount) \<subseteq>\<^sub>m Map.empty"
    by (simp add: map_le_def dom_def cache_init_ok [OF dims])
  from domains.shows_last_put [OF cache_init_ok(1) [OF dims] this, of accesses]
  have ok: "cache_ok c" and below: "view c \<subseteq>\<^sub>m lastPut key_valid accesses Map.empty"
    by (simp_all add: c_def cache_access_step)
  have "lastPut key_valid accesses Map.empty key = Some (fst (snd (lookup key d0 c)))"
    if "fst (lookup key d0 c) = Hit"
  proof -
    from that obtain d' where d': "view c key = Some d'" by (auto simp: lookup_view(1) [OF ok])
    from map_le_some [OF below d'] lookup_view(2) [OF ok d'] show ?thesis by simp
  qed
  moreover have "fst (lookup key d0 (snd (store key d c))) = Hit \<and> fst (snd (lookup key d0 (snd (store key d c)))) = d"
    if "key_valid key"
    using lookup_view(1,2) [OF store_view(1) [OF ok that, of d]] store_view(2) [OF ok that, of d] by simp
  moreover have "fst (store key d c) = Replaced \<and> setIndex key' c = setIndex key c \<and>
      (\<exists>v. findWay key' (oc_sets c ! setIndex key c) = Some v \<and>
        (\<forall>w \<in> set (oc_sets c ! setIndex key c). en_valid w \<and>
           en_lastUseSerial (oc_sets c ! setIndex key c ! v) \<le> en_lastUseSerial w))"
    if lost: "key' \<noteq> key \<and> fst (lookup key' d0 c) = Hit \<and> fst (lookup key' d0 (snd (store key d c))) \<noteq> Hit"
  proof -
    have valid: "key_valid key"
      by (rule ccontr) (use lost in \<open>simp add: store_refused\<close>)
    have "view (snd (store key d c)) key' \<noteq> view c key'"
      using lost lookup_view(1) [OF ok] lookup_view(1) [OF store_view(1) [OF ok valid, of d]] by auto
    with store_view(3) [OF ok valid, of key' d] lost show ?thesis by blast
  qed
  ultimately show ?thesis by blast
qed

subsection \<open>Draws through the cache\<close>

text \<open>A draw and the memory it finds; the memory may change in any way between draws.\<close>

record Draw =
  dr_mapEpoch :: u64
  dr_deviceEpoch :: u64
  dr_input :: War3ExactIndexDomainScanInput
  dr_memory :: memory

definition drawKey :: "Draw \<Rightarrow> War3ExactIndexDomainObserverKey" where
  "drawKey r = cacheKeyOf (dr_mapEpoch r) (dr_deviceEpoch r) (dr_input r)"

definition directDomain :: "Draw \<Rightarrow> War3ExactIndexVertexDomain" where
  "directDomain r = ComputeWar3ExactIndexVertexDomain (dr_memory r) (ds_indices (dr_input r))
     (ds_indexElementBytes (dr_input r)) (ds_indexCount (dr_input r)) (ds_baseVertex (dr_input r))
     (ds_vertexCapacity (dr_input r))"

fun runDraws :: "u32 \<Rightarrow> Draw list \<Rightarrow> CacheWorld \<Rightarrow> War3ExactIndexVertexDomain list" where
  "runDraws bulkRead [] w = []"
| "runDraws bulkRead (r # rs) w =
    (case cachedDomain bulkRead (dr_mapEpoch r) (dr_deviceEpoch r) (dr_input r) (w\<lparr>cw_memory := dr_memory r\<rparr>) of
       (domain, w) \<Rightarrow> domain # runDraws bulkRead rs w)"

text \<open>What the generations of a resource promise: the same identity means the same index bytes.\<close>

definition sameBytes :: "Draw \<Rightarrow> Draw \<Rightarrow> bool" where
  "sameBytes a b \<longleftrightarrow> (\<forall>i < unat (ds_indexCount (dr_input a)).
     readIndex (dr_memory a) (sp_data (ds_indices (dr_input a))) (ds_indexElementBytes (dr_input a)) i =
     readIndex (dr_memory b) (sp_data (ds_indices (dr_input b))) (ds_indexElementBytes (dr_input b)) i)"

lemma same_key_same_domain:
  assumes key: "drawKey a = drawKey b" and bytes: "sameBytes a b"
    and ok: "span_ok (ds_indices (dr_input a))" "span_ok (ds_indices (dr_input b))"
  shows "directDomain a = directDomain b"
proof -
  let ?a = "dr_input a" and ?b = "dr_input b"
  have k: "sp_data (ds_indices ?a) = sp_data (ds_indices ?b)" "sp_length (ds_indices ?a) = sp_length (ds_indices ?b)"
    "ds_indexElementBytes ?a = ds_indexElementBytes ?b" "ds_indexCount ?a = ds_indexCount ?b"
    "ds_baseVertex ?a = ds_baseVertex ?b" "ds_vertexCapacity ?a = ds_vertexCapacity ?b"
    using key by (simp_all add: drawKey_def cacheKeyOf_def Let_def)
  have "scanIndices (dr_memory a) (sp_data (ds_indices ?b)) (ds_indexElementBytes ?b) base cap
      [0..<unat (ds_indexCount ?b)] acc =
    scanIndices (dr_memory b) (sp_data (ds_indices ?b)) (ds_indexElementBytes ?b) base cap
      [0..<unat (ds_indexCount ?b)] acc" for base cap acc
    by (rule scanIndices_cong) (use bytes k in \<open>auto simp: sameBytes_def\<close>)
  then show ?thesis
    using ok unfolding directDomain_def ComputeWar3ExactIndexVertexDomain_def scanAdmitted_def k by simp
qed

lemma prepared_fst:
  "bulkRead \<noteq> 0 \<Longrightarrow> fst (ComputeWar3ExactIndexVertexDomainPrepared bulkRead (dr_input r) (dr_memory r) x) = directDomain r"
  unfolding directDomain_def by (rule prepared_direct)

text \<open>One draw: the domain is what the cache shows or the direct result, which is then put.\<close>

lemma cachedDomain_step:
  fixes r w bulkRead
  defines "p \<equiv> cachedDomain bulkRead (dr_mapEpoch r) (dr_deviceEpoch r) (dr_input r) (w\<lparr>cw_memory := dr_memory r\<rparr>)"
  assumes ok: "cache_ok (cw_cache w)" and bulk: "bulkRead \<noteq> 0"
  shows "case view (cw_cache w) (drawKey r) of
      Some d \<Rightarrow> fst p = d \<and> cw_cache (snd p) = lookCache (drawKey r) (cw_cache w)
    | None \<Rightarrow> fst p = directDomain r \<and> cw_cache (snd p) = putCache (drawKey r) (directDomain r) (cw_cache w)"
proof (cases "view (cw_cache w) (drawKey r)")
  case (Some d)
  then have "fst (lookup (drawKey r) domain_init (cw_cache w)) = Hit"
    "fst (snd (lookup (drawKey r) domain_init (cw_cache w))) = d"
    using lookup_view(1,2) [OF ok, of "drawKey r"] by simp_all
  then obtain cache where lk: "lookup (drawKey r) domain_init (cw_cache w) = (Hit, d, cache)"
    by (metis prod.collapse)
  then show ?thesis
    using Some by (simp add: p_def cachedDomain_def drawKey_def [symmetric] lookCache_def Let_def)
next
  case None
  note eq = lookup_view(3) [OF ok None, of domain_init]
  have no: "fst (lookup (drawKey r) domain_init (cw_cache w)) \<noteq> Hit"
    using None by (simp add: lookup_view(1) [OF ok])
  have prep: "fst (ComputeWar3ExactIndexVertexDomainPrepared bulkRead (dr_input r) (dr_memory r) (cw_scan w)) = directDomain r"
    by (rule prepared_fst [OF bulk])
  obtain res where lk: "lookup (drawKey r) domain_init (cw_cache w) = (res, domain_init, cw_cache w)" "res \<noteq> Hit"
    using eq no by metis
  obtain mem scan where pr: "ComputeWar3ExactIndexVertexDomainPrepared bulkRead (dr_input r) (dr_memory r) (cw_scan w) =
      (directDomain r, mem, scan)"
    using prep by (metis prod.collapse)
  show ?thesis
    using None lk pr
    by (simp add: p_def cachedDomain_def drawKey_def [symmetric] putCache_def Let_def split: prod.split)
qed

lemma runDraws_direct:
  assumes bulk: "bulkRead \<noteq> 0"
    and R: "\<And>r d. r \<in> set rs \<Longrightarrow> R (drawKey r) d \<longleftrightarrow> d = directDomain r"
  shows "cache_ok (cw_cache w) \<Longrightarrow> \<forall>k d. view (cw_cache w) k = Some d \<longrightarrow> R k d \<Longrightarrow>
    runDraws bulkRead rs w = map directDomain rs"
  using R
proof (induction rs arbitrary: w)
  case (Cons r rs)
  obtain d w' where p: "cachedDomain bulkRead (dr_mapEpoch r) (dr_deviceEpoch r) (dr_input r)
      (w\<lparr>cw_memory := dr_memory r\<rparr>) = (d, w')"
    by (cases "cachedDomain bulkRead (dr_mapEpoch r) (dr_deviceEpoch r) (dr_input r) (w\<lparr>cw_memory := dr_memory r\<rparr>)")
  have Rr: "R (drawKey r) d' \<longleftrightarrow> d' = directDomain r" for d' using Cons.prems(3) by simp
  have "d = directDomain r \<and> cache_ok (cw_cache w') \<and> (\<forall>k d. view (cw_cache w') k = Some d \<longrightarrow> R k d)"
  proof (cases "view (cw_cache w) (drawKey r)")
    case (Some d0)
    with cachedDomain_step [OF Cons.prems(1) bulk, of r] have "d = d0" "cw_cache w' = lookCache (drawKey r) (cw_cache w)"
      by (simp_all add: p)
    moreover have "d0 = directDomain r" using Cons.prems(2) Some Rr by blast
    ultimately show ?thesis using Cons.prems(1,2) by (simp add: domains.look_ok domains.look_shows)
  next
    case None
    with cachedDomain_step [OF Cons.prems(1) bulk, of r]
    have d: "d = directDomain r" "cw_cache w' = putCache (drawKey r) (directDomain r) (cw_cache w)"
      by (simp_all add: p)
    have "R (drawKey r) (directDomain r)" using Rr by simp
    from domains.put_right [OF Cons.prems(1,2) this] d show ?thesis
      by (simp add: domains.put_ok [OF Cons.prems(1)])
  qed
  with Cons.IH [of w'] Cons.prems(3) show ?case by (simp add: p)
qed simp

text \<open>
  C30. Through the cache every draw gets the exact domain of the index bytes it finds: for any
  sequence of draws with accepted spans, whatever is written to memory between them, every
  domain handed out equals the direct scan of the current memory. The hypothesis is
  the promise of the generations: two draws whose complete keys agree find the same index
  bytes. Evictions, hash collisions and keys the table refuses change nothing.
\<close>

theorem cached_domain_is_exact:
  assumes dims: "0 < setCount" "setCount < 2 ^ 32" "0 < wayCount" and bulk: "bulkRead \<noteq> 0"
    and start: "cw_cache w = cache_init setCount wayCount"
    and spans: "\<forall>r \<in> set draws. span_ok (ds_indices (dr_input r))"
    and generations: "\<forall>a \<in> set draws. \<forall>b \<in> set draws. drawKey a = drawKey b \<longrightarrow> sameBytes a b"
  shows "runDraws bulkRead draws w = map directDomain draws"
proof -
  define R where "R = (\<lambda>k d. \<exists>r \<in> set draws. drawKey r = k \<and> d = directDomain r)"
  have "R (drawKey r) d \<longleftrightarrow> d = directDomain r" if "r \<in> set draws" for r d
    using that spans generations same_key_same_domain [of _ r] unfolding R_def by blast
  moreover have "cache_ok (cw_cache w)" "\<forall>k d. view (cw_cache w) k = Some d \<longrightarrow> R k d"
    by (simp_all add: start cache_init_ok [OF dims])
  ultimately show ?thesis by (intro runDraws_direct [OF bulk]) auto
qed

subsection \<open>Concrete inputs\<close>

definition sampleDraw :: Draw where
  "sampleDraw = \<lparr>dr_mapEpoch = 1, dr_deviceEpoch = 1, dr_input = sampleScan, dr_memory = sampleMemory\<rparr>"

text \<open>The same range after its contents and so its content generation have changed.\<close>

definition changedDraw :: Draw where
  "changedDraw = sampleDraw\<lparr>dr_input := sampleScan\<lparr>ds_indices := sampleSpan\<lparr>sp_contentGeneration := 2\<rparr>\<rparr>,
     dr_memory := sampleMemory(4096 := 9)\<rparr>"

definition sampleWorld :: CacheWorld where
  "sampleWorld = \<lparr>cw_cache = cache_init 2 2,
     cw_stats = \<lparr>dc_lookupCount = 0, dc_hitCount = 0, dc_missCount = 0, dc_collisionMissCount = 0,
                 dc_storeCount = 0, dc_evictionCount = 0\<rparr>,
     cw_memory = sampleMemory, cw_scan = scan_counters_init\<rparr>"

lemma sample_draw_domains:
  "directDomain sampleDraw =
    \<lparr>dom_firstVertex = 2, dom_vertexCount = 5, dom_minIndex = 3, dom_maxIndex = 7, dom_valid = True\<rparr>"
  "directDomain changedDraw =
    \<lparr>dom_firstVertex = 2, dom_vertexCount = 7, dom_minIndex = 3, dom_maxIndex = 9, dom_valid = True\<rparr>"
  by code_simp+

lemma cached_domain_is_exact_witness:
  "runDraws 8192 [sampleDraw, changedDraw, sampleDraw] sampleWorld =
    [\<lparr>dom_firstVertex = 2, dom_vertexCount = 5, dom_minIndex = 3, dom_maxIndex = 7, dom_valid = True\<rparr>,
     \<lparr>dom_firstVertex = 2, dom_vertexCount = 7, dom_minIndex = 3, dom_maxIndex = 9, dom_valid = True\<rparr>,
     \<lparr>dom_firstVertex = 2, dom_vertexCount = 5, dom_minIndex = 3, dom_maxIndex = 7, dom_valid = True\<rparr>]"
proof -
  have dims: "(0 :: nat) < 2" "(2 :: nat) < 2 ^ 32" "(0 :: nat) < 2" and bulk: "(8192 :: u32) \<noteq> 0" by simp_all
  have start: "cw_cache sampleWorld = cache_init 2 2" by (simp add: sampleWorld_def)
  have ok: "span_ok (ds_indices (dr_input sampleDraw))" "span_ok (ds_indices (dr_input changedDraw))"
    by code_simp+
  have ne: "drawKey sampleDraw \<noteq> drawKey changedDraw"
    by (simp add: drawKey_def cacheKeyOf_def Let_def changedDraw_def sampleDraw_def sampleScan_def sampleSpan_def)
  have refl: "sameBytes r r" for r by (simp add: sameBytes_def)
  have "runDraws 8192 [sampleDraw, changedDraw, sampleDraw] sampleWorld =
      map directDomain [sampleDraw, changedDraw, sampleDraw]"
    by (rule cached_domain_is_exact [OF dims bulk start]) (use ok ne refl in auto)
  then show ?thesis by (simp only: list.map sample_draw_domains)
qed

lemma cache_returns_last_store_witness:
  "fst (lookup (drawKey sampleDraw) domain_init
      (snd (store (drawKey sampleDraw) (directDomain sampleDraw)
        (fold cache_access [Put (drawKey changedDraw) (directDomain changedDraw)] (cache_init 2 2))))) = Hit"
proof -
  have dims: "(0 :: nat) < 2" "(2 :: nat) < 2 ^ 32" "(0 :: nat) < 2" by simp_all
  have "key_valid (drawKey sampleDraw)" by code_simp
  with cache_returns_last_store [OF dims, of "drawKey sampleDraw" domain_init
      "[Put (drawKey changedDraw) (directDomain changedDraw)]" "directDomain sampleDraw"]
  show ?thesis by blast
qed

end
