(* ===== verification/IndexTrim.thy ===== *)
theory IndexTrim
  imports BufferSpans
begin

section \<open>Trimmed index ranges and terrain hints\<close>

text \<open>
  The contracts a draw passes before its vertex range is cut down:
  \<open>src/src/d3d9/war3/memory/war3_coherent_real_index_trim_contract.h\<close> (buffers the game mapped),
  \<open>war3_coherent_up_index_trim_contract.h\<close> (data uploaded for one draw),
  \<open>war3_current_up_shadow_replay_contract.h\<close> (replaying an uploaded position range) and
  \<open>src/src/d3d9/war3/render/war3_terrain_bounds_provenance.h\<close> (what the range declared by
  DrawIndexedPrimitive is worth against the scanned one). The development switches of the
  build are arguments.
\<close>

subsection \<open>Modes\<close>

datatype TrimMode = Off | Observe | Consume

definition ParseWar3CoherentRealIndexTrimMode :: "bool \<Rightarrow> u32 \<Rightarrow> TrimMode" where
  "ParseWar3CoherentRealIndexTrimMode developmentEnabled configuredMode =
    (if \<not> developmentEnabled then Off
     else if configuredMode = 1 then Observe else if configuredMode = 2 then Consume else Off)"

definition ParseWar3CoherentUpIndexTrimMode :: "bool \<Rightarrow> u32 \<Rightarrow> TrimMode" where
  "ParseWar3CoherentUpIndexTrimMode developmentEnabled configuredMode =
    (if \<not> developmentEnabled then Off
     else if configuredMode = 1 then Observe else if configuredMode = 2 then Consume else Off)"

definition ParseWar3CurrentUpShadowReplayMode :: "bool \<Rightarrow> u32 \<Rightarrow> TrimMode" where
  "ParseWar3CurrentUpShadowReplayMode developmentEnabled v =
    (if \<not> developmentEnabled then Off
     else if v = 1 then Observe else if v = 2 then Consume else Off)"

subsection \<open>Mapped buffers\<close>

datatype War3CoherentRealIndexTrimRejectReason =
    RealNone | NotIndexedTerrain | RealLegacyGpuSkin | NotRigidOpaque | NotDynamicRealPosition
  | MissingCurrentPositionSpan | MissingCurrentIndexSpan | RealInvalidPositionStride
  | RealInvalidIndexType | RealEmptyIndexRange | RealIndexRangeOverflow | IndexRangeOutsideSpan
  | PositionRangeOutsideSpan

record War3CoherentRealIndexTrimInput =
  ri_indexedTerrain :: bool
  ri_legacyGpuSkin :: bool
  ri_vertexBlendEnabled :: bool
  ri_alphaTestEnabled :: bool
  ri_alphaBlendEnabled :: bool
  ri_dynamicRealPosition :: bool
  ri_currentPositionSpan :: bool
  ri_currentIndexSpan :: bool
  ri_positionSpanBytes :: u64
  ri_positionStride :: u32
  ri_indexSpanBytes :: u64
  ri_indexElementBytes :: u32
  ri_indexCount :: u32

record War3CoherentRealIndexTrimDecision =
  rd_indexBytes :: u64
  rd_positionCapacity :: u32
  rd_rejectReason :: War3CoherentRealIndexTrimRejectReason

definition real_decision_init :: War3CoherentRealIndexTrimDecision where
  "real_decision_init = \<lparr>rd_indexBytes = 0, rd_positionCapacity = 0, rd_rejectReason = NotIndexedTerrain\<rparr>"

definition real_ok :: "War3CoherentRealIndexTrimDecision \<Rightarrow> bool" where
  "real_ok d \<longleftrightarrow> rd_rejectReason d = RealNone \<and> rd_indexBytes d \<noteq> 0 \<and> rd_positionCapacity d \<noteq> 0"

definition EvaluateWar3CoherentRealIndexTrim ::
  "War3CoherentRealIndexTrimInput \<Rightarrow> War3CoherentRealIndexTrimDecision" where
  "EvaluateWar3CoherentRealIndexTrim input =
    (let result = real_decision_init
     in if \<not> ri_indexedTerrain input then result
     else if ri_legacyGpuSkin input then result\<lparr>rd_rejectReason := RealLegacyGpuSkin\<rparr>
     else if ri_vertexBlendEnabled input \<or> ri_alphaTestEnabled input \<or> ri_alphaBlendEnabled input
     then result\<lparr>rd_rejectReason := NotRigidOpaque\<rparr>
     else if \<not> ri_dynamicRealPosition input then result\<lparr>rd_rejectReason := NotDynamicRealPosition\<rparr>
     else if \<not> ri_currentPositionSpan input then result\<lparr>rd_rejectReason := MissingCurrentPositionSpan\<rparr>
     else if \<not> ri_currentIndexSpan input then result\<lparr>rd_rejectReason := MissingCurrentIndexSpan\<rparr>
     else if ri_positionStride input = 0 then result\<lparr>rd_rejectReason := RealInvalidPositionStride\<rparr>
     else if ri_indexElementBytes input \<noteq> 2 \<and> ri_indexElementBytes input \<noteq> 4
     then result\<lparr>rd_rejectReason := RealInvalidIndexType\<rparr>
     else if ri_indexCount input = 0 then result\<lparr>rd_rejectReason := RealEmptyIndexRange\<rparr>
     else if ucast (ri_indexCount input) > UINT64_MAX div ucast (ri_indexElementBytes input)
     then result\<lparr>rd_rejectReason := RealIndexRangeOverflow\<rparr>
     else
       let result = result\<lparr>rd_indexBytes := ucast (ri_indexCount input) * ucast (ri_indexElementBytes input)\<rparr>
       in if rd_indexBytes result > ri_indexSpanBytes input
          then result\<lparr>rd_rejectReason := IndexRangeOutsideSpan\<rparr>
          else
            let positionCapacity = ri_positionSpanBytes input div ucast (ri_positionStride input)
            in if positionCapacity = 0 \<or> positionCapacity > ucast UINT32_MAX
               then result\<lparr>rd_rejectReason := PositionRangeOutsideSpan\<rparr>
               else result\<lparr>rd_positionCapacity := ucast positionCapacity, rd_rejectReason := RealNone\<rparr>)"

subsection \<open>Data uploaded for one draw\<close>

datatype War3CoherentUpIndexTrimRejectReason =
    UpNone | NotIndexed | UpLegacyGpuSkin | NotCurrentUpPair | DifferentAllocation | MissingBytes
  | UpInvalidPositionStride | UpInvalidIndexType | UpEmptyIndexRange | NonZeroUploadedFirstIndex
  | UpIndexRangeOverflow | IndexRangeOutsideUpload | PositionRangeOutsideUpload

record War3CoherentUpIndexTrimInput =
  ui_indexed :: bool
  ui_legacyGpuSkin :: bool
  ui_currentPositionUpload :: bool
  ui_currentIndexUpload :: bool
  ui_samePinnedAllocation :: bool
  ui_hasPositionBytes :: bool
  ui_hasIndexBytes :: bool
  ui_positionUploadBytes :: u64
  ui_positionSliceBytes :: u64
  ui_positionStride :: u32
  ui_indexUploadBytes :: u64
  ui_indexSliceBytes :: u64
  ui_indexElementBytes :: u32
  ui_indexCount :: u32
  ui_firstIndex :: u32

record War3CoherentUpIndexTrimDecision =
  ud_indexBytes :: u64
  ud_positionCapacity :: u32
  ud_rejectReason :: War3CoherentUpIndexTrimRejectReason

definition up_decision_init :: War3CoherentUpIndexTrimDecision where
  "up_decision_init = \<lparr>ud_indexBytes = 0, ud_positionCapacity = 0, ud_rejectReason = NotIndexed\<rparr>"

definition up_ok :: "War3CoherentUpIndexTrimDecision \<Rightarrow> bool" where
  "up_ok d \<longleftrightarrow> ud_rejectReason d = UpNone \<and> ud_indexBytes d \<noteq> 0 \<and> ud_positionCapacity d \<noteq> 0"

definition EvaluateWar3CoherentUpIndexTrim ::
  "War3CoherentUpIndexTrimInput \<Rightarrow> War3CoherentUpIndexTrimDecision" where
  "EvaluateWar3CoherentUpIndexTrim input =
    (let result = up_decision_init
     in if \<not> ui_indexed input then result
     else if ui_legacyGpuSkin input then result\<lparr>ud_rejectReason := UpLegacyGpuSkin\<rparr>
     else if \<not> ui_currentPositionUpload input \<or> \<not> ui_currentIndexUpload input
     then result\<lparr>ud_rejectReason := NotCurrentUpPair\<rparr>
     else if \<not> ui_samePinnedAllocation input then result\<lparr>ud_rejectReason := DifferentAllocation\<rparr>
     else if \<not> ui_hasPositionBytes input \<or> \<not> ui_hasIndexBytes input
     then result\<lparr>ud_rejectReason := MissingBytes\<rparr>
     else if ui_positionStride input = 0 then result\<lparr>ud_rejectReason := UpInvalidPositionStride\<rparr>
     else if ui_indexElementBytes input \<noteq> 2 \<and> ui_indexElementBytes input \<noteq> 4
     then result\<lparr>ud_rejectReason := UpInvalidIndexType\<rparr>
     else if ui_indexCount input = 0 then result\<lparr>ud_rejectReason := UpEmptyIndexRange\<rparr>
     else if ui_firstIndex input \<noteq> 0 then result\<lparr>ud_rejectReason := NonZeroUploadedFirstIndex\<rparr>
     else if ucast (ui_indexCount input) > UINT64_MAX div ucast (ui_indexElementBytes input)
     then result\<lparr>ud_rejectReason := UpIndexRangeOverflow\<rparr>
     else
       let result = result\<lparr>ud_indexBytes := ucast (ui_indexCount input) * ucast (ui_indexElementBytes input)\<rparr>
       in if ud_indexBytes result > ui_indexUploadBytes input \<or> ud_indexBytes result > ui_indexSliceBytes input
          then result\<lparr>ud_rejectReason := IndexRangeOutsideUpload\<rparr>
          else
            let positionBytes =
                  (if ui_positionUploadBytes input < ui_positionSliceBytes input
                   then ui_positionUploadBytes input else ui_positionSliceBytes input);
                positionCapacity = positionBytes div ucast (ui_positionStride input)
            in if positionCapacity = 0 \<or> positionCapacity > ucast UINT32_MAX
               then result\<lparr>ud_rejectReason := PositionRangeOutsideUpload\<rparr>
               else result\<lparr>ud_positionCapacity := ucast positionCapacity, ud_rejectReason := UpNone\<rparr>)"

subsection \<open>Replaying an uploaded position range\<close>

datatype War3CurrentUpPositionReplayRejectReason =
    ReplayNone | NotCurrentUpload | GpuSkinBacking | MissingPinnedAllocation | MissingBuffer
  | BufferMismatch | EmptyRange | RangeOutsideUpload

record War3CurrentUpPositionReplayInput =
  pi_currentPositionUpload :: bool
  pi_gpuSkinBacking :: bool
  pi_hasPinnedAllocation :: bool
  pi_hasUploadBuffer :: bool
  pi_sameBuffer :: bool
  pi_uploadOffset :: u64
  pi_uploadLength :: u64
  pi_replayOffset :: u64
  pi_replayLength :: u64

record War3CurrentUpPositionReplayDecision =
  pd_rejectReason :: War3CurrentUpPositionReplayRejectReason
  pd_replayOffset :: u64
  pd_replayLength :: u64

definition replay_ok :: "War3CurrentUpPositionReplayDecision \<Rightarrow> bool" where
  "replay_ok d \<longleftrightarrow> pd_rejectReason d = ReplayNone \<and> pd_replayLength d \<noteq> 0"

definition EvaluateWar3CurrentUpPositionReplay ::
  "War3CurrentUpPositionReplayInput \<Rightarrow> War3CurrentUpPositionReplayDecision" where
  "EvaluateWar3CurrentUpPositionReplay input =
    (let result = \<lparr>pd_rejectReason = ReplayNone, pd_replayOffset = 0, pd_replayLength = 0\<rparr>
     in if \<not> pi_currentPositionUpload input then result\<lparr>pd_rejectReason := NotCurrentUpload\<rparr>
     else if pi_gpuSkinBacking input then result\<lparr>pd_rejectReason := GpuSkinBacking\<rparr>
     else if \<not> pi_hasPinnedAllocation input then result\<lparr>pd_rejectReason := MissingPinnedAllocation\<rparr>
     else if \<not> pi_hasUploadBuffer input then result\<lparr>pd_rejectReason := MissingBuffer\<rparr>
     else if \<not> pi_sameBuffer input then result\<lparr>pd_rejectReason := BufferMismatch\<rparr>
     else if pi_uploadLength input = 0 \<or> pi_replayLength input = 0
     then result\<lparr>pd_rejectReason := EmptyRange\<rparr>
     else if pi_replayOffset input < pi_uploadOffset input
     then result\<lparr>pd_rejectReason := RangeOutsideUpload\<rparr>
     else
       let localOffset = pi_replayOffset input - pi_uploadOffset input
       in if localOffset > pi_uploadLength input \<or>
             pi_replayLength input > pi_uploadLength input - localOffset
          then result\<lparr>pd_rejectReason := RangeOutsideUpload\<rparr>
          else result\<lparr>pd_replayOffset := pi_replayOffset input, pd_replayLength := pi_replayLength input\<rparr>)"

subsection \<open>What an accepted trim has checked\<close>

lemma index_bytes_exact:
  fixes n b :: u32
  assumes "b = 2 \<or> b = 4"
  shows "unat (ucast n * ucast b :: u64) = unat n * unat b"
    and "\<not> (ucast n :: u64) > UINT64_MAX div ucast b"
proof -
  have n: "unat n < 4294967296" by simp
  have "unat n * unat b \<le> unat n * 4" using assms by auto
  also have "\<dots> < 18446744073709551616" using unat_u32_bound [of n] by linarith
  finally show "unat (ucast n * ucast b :: u64) = unat n * unat b"
    by (simp add: unat_word_ariths)
  have "unat n \<le> 18446744073709551615 div unat b"
  proof -
    have "unat b = 2 \<or> unat b = 4" using assms by auto
    then have "4294967295 \<le> 18446744073709551615 div unat b" by auto
    then show ?thesis using unat_u32_bound [of n] by linarith
  qed
  then show "\<not> (ucast n :: u64) > UINT64_MAX div ucast b"
    by (simp add: word_less_nat_alt unat_div not_less)
qed

lemma capacity_exact:
  fixes total :: u64 and s :: u32
  assumes "\<not> total div ucast s > (ucast UINT32_MAX :: u64)"
  shows "unat (ucast (total div ucast s) :: u32) = unat total div unat s"
proof -
  have "unat total div unat s \<le> 4294967295"
    using assms by (simp add: word_less_nat_alt unat_div not_less)
  then show ?thesis
    by (simp add: unsigned_ucast_eq unat_div take_bit_nat_eq_self_iff)
qed

text \<open>A refusal of an accepted decision did not happen: its guard was false.\<close>

lemma real_index_bytes: "rd_indexBytes (r\<lparr>rd_indexBytes := x\<rparr>) = x"
  by simp

lemma up_index_bytes: "ud_indexBytes (r\<lparr>ud_indexBytes := x\<rparr>) = x"
  by simp

lemma real_ok_if:
  "reason \<noteq> RealNone \<Longrightarrow> real_ok (if g then r\<lparr>rd_rejectReason := reason\<rparr> else x) \<longleftrightarrow> \<not> g \<and> real_ok x"
  "real_ok (if g then real_decision_init else x) \<longleftrightarrow> \<not> g \<and> real_ok x"
  by (simp_all add: real_ok_def real_decision_init_def)

lemma up_ok_if:
  "reason \<noteq> UpNone \<Longrightarrow> up_ok (if g then r\<lparr>ud_rejectReason := reason\<rparr> else x) \<longleftrightarrow> \<not> g \<and> up_ok x"
  "up_ok (if g then up_decision_init else x) \<longleftrightarrow> \<not> g \<and> up_ok x"
  by (simp_all add: up_ok_def up_decision_init_def)

lemma real_ok_guards:
  assumes ok: "real_ok (EvaluateWar3CoherentRealIndexTrim input)"
  shows "ri_indexedTerrain input \<and> \<not> ri_legacyGpuSkin input \<and>
    \<not> (ri_vertexBlendEnabled input \<or> ri_alphaTestEnabled input \<or> ri_alphaBlendEnabled input) \<and>
    ri_dynamicRealPosition input \<and> ri_currentPositionSpan input \<and> ri_currentIndexSpan input \<and>
    ri_positionStride input \<noteq> 0 \<and> \<not> (ri_indexElementBytes input \<noteq> 2 \<and> ri_indexElementBytes input \<noteq> 4) \<and>
    ri_indexCount input \<noteq> 0 \<and>
    \<not> ucast (ri_indexCount input) > UINT64_MAX div ucast (ri_indexElementBytes input) \<and>
    \<not> ucast (ri_indexCount input) * ucast (ri_indexElementBytes input) > ri_indexSpanBytes input \<and>
    \<not> (ri_positionSpanBytes input div ucast (ri_positionStride input) = 0 \<or>
       ri_positionSpanBytes input div ucast (ri_positionStride input) > ucast UINT32_MAX)"
  using ok unfolding EvaluateWar3CoherentRealIndexTrim_def Let_def
  by (simp only: real_ok_if War3CoherentRealIndexTrimRejectReason.distinct not_False_eq_True not_not
      real_index_bytes)

lemma real_ok_checked:
  assumes ok: "real_ok (EvaluateWar3CoherentRealIndexTrim input)"
  defines "d \<equiv> EvaluateWar3CoherentRealIndexTrim input"
  shows "ri_indexElementBytes input = 2 \<or> ri_indexElementBytes input = 4"
    and "ri_positionStride input \<noteq> 0" and "ri_indexCount input \<noteq> 0"
    and "unat (rd_indexBytes d) = unat (ri_indexCount input) * unat (ri_indexElementBytes input)"
    and "rd_indexBytes d \<le> ri_indexSpanBytes input"
    and "unat (rd_positionCapacity d) = unat (ri_positionSpanBytes input) div unat (ri_positionStride input)"
proof -
  note g = real_ok_guards [OF ok]
  from g show b: "ri_indexElementBytes input = 2 \<or> ri_indexElementBytes input = 4"
    and "ri_positionStride input \<noteq> 0" "ri_indexCount input \<noteq> 0" by blast+
  have d: "rd_indexBytes d = ucast (ri_indexCount input) * ucast (ri_indexElementBytes input)"
    "rd_positionCapacity d = ucast (ri_positionSpanBytes input div ucast (ri_positionStride input))"
    using g unfolding d_def EvaluateWar3CoherentRealIndexTrim_def Let_def real_decision_init_def
    by (simp_all only: simp_thms if_False War3CoherentRealIndexTrimDecision.select_convs
        War3CoherentRealIndexTrimDecision.update_convs)
  show "unat (rd_indexBytes d) = unat (ri_indexCount input) * unat (ri_indexElementBytes input)"
    unfolding d(1) by (rule index_bytes_exact(1) [OF b])
  show "rd_indexBytes d \<le> ri_indexSpanBytes input" using g unfolding d(1) not_less by blast
  show "unat (rd_positionCapacity d) = unat (ri_positionSpanBytes input) div unat (ri_positionStride input)"
    unfolding d(2) by (rule capacity_exact) (use g in blast)
qed

lemma up_ok_guards:
  assumes ok: "up_ok (EvaluateWar3CoherentUpIndexTrim input)"
  shows "ui_indexed input \<and> \<not> ui_legacyGpuSkin input \<and>
    \<not> (\<not> ui_currentPositionUpload input \<or> \<not> ui_currentIndexUpload input) \<and>
    ui_samePinnedAllocation input \<and> \<not> (\<not> ui_hasPositionBytes input \<or> \<not> ui_hasIndexBytes input) \<and>
    ui_positionStride input \<noteq> 0 \<and> \<not> (ui_indexElementBytes input \<noteq> 2 \<and> ui_indexElementBytes input \<noteq> 4) \<and>
    ui_indexCount input \<noteq> 0 \<and> \<not> ui_firstIndex input \<noteq> 0 \<and>
    \<not> ucast (ui_indexCount input) > UINT64_MAX div ucast (ui_indexElementBytes input) \<and>
    \<not> (ucast (ui_indexCount input) * ucast (ui_indexElementBytes input) > ui_indexUploadBytes input \<or>
       ucast (ui_indexCount input) * ucast (ui_indexElementBytes input) > ui_indexSliceBytes input) \<and>
    \<not> ((if ui_positionUploadBytes input < ui_positionSliceBytes input
         then ui_positionUploadBytes input else ui_positionSliceBytes input) div ucast (ui_positionStride input) = 0 \<or>
       (if ui_positionUploadBytes input < ui_positionSliceBytes input
         then ui_positionUploadBytes input else ui_positionSliceBytes input) div ucast (ui_positionStride input) > ucast UINT32_MAX)"
  using ok unfolding EvaluateWar3CoherentUpIndexTrim_def Let_def
  by (simp only: up_ok_if War3CoherentUpIndexTrimRejectReason.distinct not_False_eq_True not_not
      up_index_bytes)

lemma up_ok_checked:
  assumes ok: "up_ok (EvaluateWar3CoherentUpIndexTrim input)"
  defines "d \<equiv> EvaluateWar3CoherentUpIndexTrim input"
  shows "ui_indexElementBytes input = 2 \<or> ui_indexElementBytes input = 4"
    and "ui_positionStride input \<noteq> 0" and "ui_indexCount input \<noteq> 0"
    and "unat (ud_indexBytes d) = unat (ui_indexCount input) * unat (ui_indexElementBytes input)"
    and "ud_indexBytes d \<le> min (ui_indexUploadBytes input) (ui_indexSliceBytes input)"
    and "unat (ud_positionCapacity d) =
      unat (min (ui_positionUploadBytes input) (ui_positionSliceBytes input)) div unat (ui_positionStride input)"
proof -
  note g = up_ok_guards [OF ok]
  have m: "(if ui_positionUploadBytes input < ui_positionSliceBytes input
      then ui_positionUploadBytes input else ui_positionSliceBytes input) =
      min (ui_positionUploadBytes input) (ui_positionSliceBytes input)" by (auto simp: min_def)
  from g show b: "ui_indexElementBytes input = 2 \<or> ui_indexElementBytes input = 4"
    and "ui_positionStride input \<noteq> 0" "ui_indexCount input \<noteq> 0" by blast+
  have d: "ud_indexBytes d = ucast (ui_indexCount input) * ucast (ui_indexElementBytes input)"
    "ud_positionCapacity d =
      ucast (min (ui_positionUploadBytes input) (ui_positionSliceBytes input) div ucast (ui_positionStride input))"
    using g unfolding d_def EvaluateWar3CoherentUpIndexTrim_def Let_def up_decision_init_def m
    by (simp_all only: simp_thms if_False War3CoherentUpIndexTrimDecision.select_convs
        War3CoherentUpIndexTrimDecision.update_convs)
  show "unat (ud_indexBytes d) = unat (ui_indexCount input) * unat (ui_indexElementBytes input)"
    unfolding d(1) by (rule index_bytes_exact(1) [OF b])
  show "ud_indexBytes d \<le> min (ui_indexUploadBytes input) (ui_indexSliceBytes input)"
    using g unfolding d(1) by (simp add: not_less)
  show "unat (ud_positionCapacity d) =
      unat (min (ui_positionUploadBytes input) (ui_positionSliceBytes input)) div unat (ui_positionStride input)"
    unfolding d(2) by (rule capacity_exact) (use g in \<open>unfold m, blast\<close>)
qed

subsection \<open>A trimmed draw reads inside its buffers\<close>

text \<open>
  The compact slice of a domain inside a buffer of positions: it holds the bytes of every vertex
  an index of the draw names, ends inside the buffer, and its offset and size are computed
  without wrap-around.
\<close>

definition slice_serves_draw ::
  "memory \<Rightarrow> War3CpuReadableBufferSpan \<Rightarrow> u32 \<Rightarrow> u32 \<Rightarrow> u32 \<Rightarrow> War3ExactIndexVertexDomain \<Rightarrow> u32 \<Rightarrow> u64 \<Rightarrow> bool" where
  "slice_serves_draw mem sp bytes n base d stride positionBytes \<longleftrightarrow>
     (let offset = ucast (dom_firstVertex d) * ucast stride :: u64;
          len = ucast (dom_vertexCount d) * ucast stride :: u64
      in uint offset = uint (dom_firstVertex d) * uint stride \<and>
         uint len = uint (dom_vertexCount d) * uint stride \<and>
         uint offset + uint len \<le> uint positionBytes \<and>
         (\<forall>i < unat n. let v = uint (readIndex mem (sp_data sp) bytes i) + sint base
            in uint offset \<le> v * uint stride \<and> (v + 1) * uint stride \<le> uint offset + uint len))"

lemma slice_serves_draw_of_capacity:
  assumes valid: "dom_valid (ComputeWar3ExactIndexVertexDomain mem sp bytes n base cap)"
    and cap: "unat cap = unat positionBytes div unat stride" and stride: "stride \<noteq> 0"
  shows "slice_serves_draw mem sp bytes n base
    (ComputeWar3ExactIndexVertexDomain mem sp bytes n base cap) stride positionBytes"
proof -
  define d where "d = ComputeWar3ExactIndexVertexDomain mem sp bytes n base cap"
  note ends = domain_end [OF valid, folded d_def]
  have mult: "uint (ucast a * ucast b :: u64) = uint a * uint b" for a b :: u32
  proof -
    have "unat a \<le> 4294967295" "unat b \<le> 4294967295"
      using unat_u32_bound [of a] unat_u32_bound [of b] by linarith+
    then have "unat a * unat b \<le> 4294967295 * 4294967295" by (rule mult_le_mono)
    then have "unat (ucast a * ucast b :: u64) = unat a * unat b" by (simp add: unat_word_ariths)
    then have "int (unat (ucast a * ucast b :: u64)) = int (unat a) * int (unat b)" by simp
    then show ?thesis by (simp only: uint_nat)
  qed
  have s: "0 < uint stride" using stride uint_ge_0 [of stride] by (simp add: order.strict_iff_order uint_0_iff)
  have "unat cap * unat stride \<le> unat positionBytes" by (simp add: cap)
  then have "int (unat cap) * int (unat stride) \<le> int (unat positionBytes)"
    by (simp only: of_nat_mult [symmetric] of_nat_le_iff)
  then have "uint cap * uint stride \<le> uint positionBytes" by (simp only: uint_nat)
  moreover have "(uint (dom_firstVertex d) + uint (dom_vertexCount d)) * uint stride \<le> uint cap * uint stride"
    using ends(1) s by (intro mult_right_mono) simp_all
  ultimately have total: "uint (dom_firstVertex d) * uint stride + uint (dom_vertexCount d) * uint stride \<le> uint positionBytes"
    by (simp add: algebra_simps)
  have "uint (dom_firstVertex d) * uint stride \<le> v * uint stride \<and>
      (v + 1) * uint stride \<le> uint (dom_firstVertex d) * uint stride + uint (dom_vertexCount d) * uint stride"
    if "i < unat n" "v = uint (readIndex mem (sp_data sp) bytes i) + sint base" for i v
  proof -
    from domain_vertices [OF valid, folded d_def, OF that(1)] that(2)
    have "uint (dom_firstVertex d) \<le> v" "v + 1 \<le> uint (dom_firstVertex d) + uint (dom_vertexCount d)" by simp_all
    from mult_right_mono [OF this(1), of "uint stride"] mult_right_mono [OF this(2), of "uint stride"] s
    show ?thesis by (simp add: distrib_right)
  qed
  then show ?thesis
    unfolding slice_serves_draw_def Let_def mult d_def [symmetric] using total by blast
qed

lemma replay_inside:
  assumes ok: "replay_ok (EvaluateWar3CurrentUpPositionReplay pr)"
  defines "d \<equiv> EvaluateWar3CurrentUpPositionReplay pr"
  shows "unat (pi_uploadOffset pr) \<le> unat (pd_replayOffset d) \<and>
    unat (pd_replayOffset d) + unat (pd_replayLength d) \<le> unat (pi_uploadOffset pr) + unat (pi_uploadLength pr)"
proof -
  have g: "\<not> pi_replayOffset pr < pi_uploadOffset pr"
    "\<not> pi_replayOffset pr - pi_uploadOffset pr > pi_uploadLength pr"
    "\<not> pi_replayLength pr > pi_uploadLength pr - (pi_replayOffset pr - pi_uploadOffset pr)"
    and d: "pd_replayOffset d = pi_replayOffset pr" "pd_replayLength d = pi_replayLength pr"
    using ok unfolding d_def replay_ok_def EvaluateWar3CurrentUpPositionReplay_def Let_def
    by (simp_all split: if_split_asm)
  have "unat (pi_replayOffset pr - pi_uploadOffset pr) = unat (pi_replayOffset pr) - unat (pi_uploadOffset pr)"
    using g(1) by (intro unat_sub) simp
  moreover from range_inside_nat [of "pi_replayOffset pr - pi_uploadOffset pr" "pi_uploadLength pr" "pi_replayLength pr"] g(2,3)
  have "unat (pi_replayOffset pr - pi_uploadOffset pr) + unat (pi_replayLength pr) \<le> unat (pi_uploadLength pr)"
    by (simp add: not_less)
  moreover have "unat (pi_uploadOffset pr) \<le> unat (pi_replayOffset pr)" using g(1) by (simp add: word_le_nat_alt not_less)
  ultimately show ?thesis unfolding d by linarith
qed

text \<open>
  C35. Whatever a trim contract admits stays inside its buffers. If the contract for mapped buffers
  or the one for uploaded data accepts and the scan of the indices against its position capacity is
  valid, the index bytes fit their source, and the compact slice of positions holds every
  vertex the draw names, ends inside the position bytes and is computed without wrap-around. A
  replay of an uploaded range is accepted only for a range inside the upload.
\<close>

theorem admitted_trims_stay_inside:
  shows "(real_ok (EvaluateWar3CoherentRealIndexTrim ri) \<and>
       dom_valid (ComputeWar3ExactIndexVertexDomain mem sp (ri_indexElementBytes ri) (ri_indexCount ri) base
         (rd_positionCapacity (EvaluateWar3CoherentRealIndexTrim ri))) \<longrightarrow>
      unat (ri_indexCount ri) * unat (ri_indexElementBytes ri) \<le> unat (ri_indexSpanBytes ri) \<and>
      slice_serves_draw mem sp (ri_indexElementBytes ri) (ri_indexCount ri) base
        (ComputeWar3ExactIndexVertexDomain mem sp (ri_indexElementBytes ri) (ri_indexCount ri) base
          (rd_positionCapacity (EvaluateWar3CoherentRealIndexTrim ri)))
        (ri_positionStride ri) (ri_positionSpanBytes ri)) \<and>
    (up_ok (EvaluateWar3CoherentUpIndexTrim ui) \<and>
       dom_valid (ComputeWar3ExactIndexVertexDomain mem sp (ui_indexElementBytes ui) (ui_indexCount ui) base
         (ud_positionCapacity (EvaluateWar3CoherentUpIndexTrim ui))) \<longrightarrow>
      unat (ui_indexCount ui) * unat (ui_indexElementBytes ui) \<le>
        unat (min (ui_indexUploadBytes ui) (ui_indexSliceBytes ui)) \<and>
      slice_serves_draw mem sp (ui_indexElementBytes ui) (ui_indexCount ui) base
        (ComputeWar3ExactIndexVertexDomain mem sp (ui_indexElementBytes ui) (ui_indexCount ui) base
          (ud_positionCapacity (EvaluateWar3CoherentUpIndexTrim ui)))
        (ui_positionStride ui) (min (ui_positionUploadBytes ui) (ui_positionSliceBytes ui))) \<and>
    (replay_ok (EvaluateWar3CurrentUpPositionReplay pr) \<longrightarrow>
      unat (pi_uploadOffset pr) \<le> unat (pd_replayOffset (EvaluateWar3CurrentUpPositionReplay pr)) \<and>
      unat (pd_replayOffset (EvaluateWar3CurrentUpPositionReplay pr)) +
        unat (pd_replayLength (EvaluateWar3CurrentUpPositionReplay pr)) \<le>
        unat (pi_uploadOffset pr) + unat (pi_uploadLength pr))"
proof (intro conjI impI; (elim conjE)?)
  assume ok: "real_ok (EvaluateWar3CoherentRealIndexTrim ri)"
  note c = real_ok_checked [OF ok]
  show "unat (ri_indexCount ri) * unat (ri_indexElementBytes ri) \<le> unat (ri_indexSpanBytes ri)"
    using c(4,5) by (simp add: word_le_nat_alt)
  assume "dom_valid (ComputeWar3ExactIndexVertexDomain mem sp (ri_indexElementBytes ri) (ri_indexCount ri) base
         (rd_positionCapacity (EvaluateWar3CoherentRealIndexTrim ri)))"
  from slice_serves_draw_of_capacity [OF this c(6,2)]
  show "slice_serves_draw mem sp (ri_indexElementBytes ri) (ri_indexCount ri) base
        (ComputeWar3ExactIndexVertexDomain mem sp (ri_indexElementBytes ri) (ri_indexCount ri) base
          (rd_positionCapacity (EvaluateWar3CoherentRealIndexTrim ri)))
        (ri_positionStride ri) (ri_positionSpanBytes ri)" .
next
  assume ok: "up_ok (EvaluateWar3CoherentUpIndexTrim ui)"
  note c = up_ok_checked [OF ok]
  show "unat (ui_indexCount ui) * unat (ui_indexElementBytes ui) \<le>
        unat (min (ui_indexUploadBytes ui) (ui_indexSliceBytes ui))"
    using c(4,5) by (simp add: word_le_nat_alt)
  assume "dom_valid (ComputeWar3ExactIndexVertexDomain mem sp (ui_indexElementBytes ui) (ui_indexCount ui) base
         (ud_positionCapacity (EvaluateWar3CoherentUpIndexTrim ui)))"
  from slice_serves_draw_of_capacity [OF this c(6,2)]
  show "slice_serves_draw mem sp (ui_indexElementBytes ui) (ui_indexCount ui) base
        (ComputeWar3ExactIndexVertexDomain mem sp (ui_indexElementBytes ui) (ui_indexCount ui) base
          (ud_positionCapacity (EvaluateWar3CoherentUpIndexTrim ui)))
        (ui_positionStride ui) (min (ui_positionUploadBytes ui) (ui_positionSliceBytes ui))" .
next
  assume ok: "replay_ok (EvaluateWar3CurrentUpPositionReplay pr)"
  show "unat (pi_uploadOffset pr) \<le> unat (pd_replayOffset (EvaluateWar3CurrentUpPositionReplay pr))"
    and "unat (pd_replayOffset (EvaluateWar3CurrentUpPositionReplay pr)) +
        unat (pd_replayLength (EvaluateWar3CurrentUpPositionReplay pr)) \<le>
        unat (pi_uploadOffset pr) + unat (pi_uploadLength pr)"
    using replay_inside [OF ok] by blast+
qed

definition sampleTrim :: War3CoherentRealIndexTrimInput where
  "sampleTrim = \<lparr>ri_indexedTerrain = True, ri_legacyGpuSkin = False, ri_vertexBlendEnabled = False,
     ri_alphaTestEnabled = False, ri_alphaBlendEnabled = False, ri_dynamicRealPosition = True,
     ri_currentPositionSpan = True, ri_currentIndexSpan = True, ri_positionSpanBytes = 1205,
     ri_positionStride = 12, ri_indexSpanBytes = 6, ri_indexElementBytes = 2, ri_indexCount = 3\<rparr>"

lemma admitted_trims_stay_inside_witness:
  "slice_serves_draw sampleMemory sampleSpan 2 3 (- 1)
    (ComputeWar3ExactIndexVertexDomain sampleMemory sampleSpan 2 3 (- 1) 100) 12 1205"
proof -
  have ok: "real_ok (EvaluateWar3CoherentRealIndexTrim sampleTrim)"
    and cap: "rd_positionCapacity (EvaluateWar3CoherentRealIndexTrim sampleTrim) = 100" by code_simp+
  have f: "ri_indexElementBytes sampleTrim = 2" "ri_indexCount sampleTrim = 3"
    "ri_positionStride sampleTrim = 12" "ri_positionSpanBytes sampleTrim = 1205"
    by (simp_all add: sampleTrim_def)
  from admitted_trims_stay_inside [of sampleTrim sampleMemory sampleSpan "- 1"] ok
  show ?thesis unfolding f cap by (simp add: sample_domain)
qed

end
