(* ===== verification/TerrainHints.thy ===== *)
theory TerrainHints
  imports BufferSpans
begin

section \<open>Declared vertex ranges of terrain draws\<close>

text \<open>
  \<open>src/src/d3d9/war3/render/war3_terrain_bounds_provenance.h\<close>: DrawIndexedPrimitive declares the
  range of vertices it uses. These functions turn the declaration into a vertex range, compare
  it with the range found by scanning the index bytes, and pick the draws whose declaration is
  audited. Sums of a signed 32-bit base and unsigned 32-bit counts are 64-bit in the code and
  cannot overflow there; here they are integers.
\<close>

record War3TerrainBoundsVertexRange =
  tr_firstVertex :: u32
  tr_vertexCount :: u32
  tr_exact :: bool

definition no_range :: War3TerrainBoundsVertexRange where
  "no_range = \<lparr>tr_firstVertex = 0, tr_vertexCount = 0, tr_exact = False\<rparr>"

datatype War3TerrainIndexedHintRelation = Invalid | Exact | ConservativeSuperset | UnderCoversExactDomain

record War3TerrainIndexedHintEvidence =
  he_baseVertex :: u32
  he_minVertexIndex :: u32
  he_numVertices :: u32
  he_vertexCapacity :: u32
  he_exactFirstVertex :: u32
  he_exactVertexCount :: u32
  he_exactDomainKnown :: bool

record War3TerrainIndexedHintDecision =
  hd_relation :: War3TerrainIndexedHintRelation
  hd_firstVertex :: u32
  hd_vertexCount :: u32

definition no_decision :: War3TerrainIndexedHintDecision where
  "no_decision = \<lparr>hd_relation = Invalid, hd_firstVertex = 0, hd_vertexCount = 0\<rparr>"

record War3TerrainIndexedDeclaredDomain =
  td_firstVertex :: u32
  td_vertexCount :: u32
  td_minIndex :: u32
  td_maxIndex :: u32
  td_valid :: bool

definition no_declared :: War3TerrainIndexedDeclaredDomain where
  "no_declared = \<lparr>td_firstVertex = 0, td_vertexCount = 0, td_minIndex = 0, td_maxIndex = 0, td_valid = False\<rparr>"

definition kWar3TerrainIndexedHintAuditPeriod :: u32 where
  "kWar3TerrainIndexedHintAuditPeriod = 64"

definition War3ResolveConservativeTerrainIndexedHintRange ::
  "u32 \<Rightarrow> u32 \<Rightarrow> u32 \<Rightarrow> u32 \<Rightarrow> War3TerrainBoundsVertexRange" where
  "War3ResolveConservativeTerrainIndexedHintRange baseVertex minVertexIndex numVertices vertexCapacity =
    (if numVertices = 0 \<or> vertexCapacity = 0 then no_range
     else
       let firstV = sint baseVertex + uint minVertexIndex;
           endV = firstV + uint numVertices
       in if firstV < 0 \<or> endV \<le> firstV \<or> endV > uint vertexCapacity then no_range
          else \<lparr>tr_firstVertex = word_of_int firstV, tr_vertexCount = numVertices, tr_exact = True\<rparr>)"

definition War3ResolveTerrainIndexedDeclaredDomain ::
  "u32 \<Rightarrow> u32 \<Rightarrow> u32 \<Rightarrow> u32 \<Rightarrow> u32 \<Rightarrow> War3TerrainIndexedDeclaredDomain" where
  "War3ResolveTerrainIndexedDeclaredDomain baseVertex minVertexIndex numVertices vertexCapacity indexElementBytes =
    (if numVertices = 0 \<or> vertexCapacity = 0 \<or> (indexElementBytes \<noteq> 2 \<and> indexElementBytes \<noteq> 4)
     then no_declared
     else
       let rawEnd = (ucast minVertexIndex + ucast numVertices :: u64);
           rawDomainLimit = (if indexElementBytes = 2 then push_bit 16 1 else push_bit 32 1 :: u64)
       in if rawEnd \<le> ucast minVertexIndex \<or> rawEnd > rawDomainLimit then no_declared
          else
            let firstV = sint baseVertex + uint minVertexIndex;
                endV = firstV + uint numVertices
            in if firstV < 0 \<or> endV \<le> firstV \<or> endV > uint vertexCapacity then no_declared
               else \<lparr>td_firstVertex = word_of_int firstV, td_vertexCount = numVertices,
                     td_minIndex = minVertexIndex, td_maxIndex = ucast (rawEnd - 1), td_valid = True\<rparr>)"

definition War3ShouldAuditTerrainIndexedHint :: "u64 \<Rightarrow> u32 \<Rightarrow> u32 \<Rightarrow> u32 \<Rightarrow> bool" where
  "War3ShouldAuditTerrainIndexedHint frameSerial ownerIdentity startIndex indexCount =
    (if frameSerial = 0 \<or> ownerIdentity = 0 \<or> indexCount = 0 then False
     else
       let v0 = frameSerial;
           v1 = v0 XOR (ucast ownerIdentity + 0x9e3779b97f4a7c15 + push_bit 6 v0 + drop_bit 2 v0);
           v2 = v1 XOR (ucast startIndex OR push_bit 32 (ucast indexCount));
           v3 = v2 XOR drop_bit 33 v2;
           v4 = v3 * 0xff51afd7ed558ccd;
           v5 = v4 XOR drop_bit 33 v4
       in v5 AND ucast (kWar3TerrainIndexedHintAuditPeriod - 1) = 0)"

definition War3EvaluateTerrainIndexedHintAgainstExactDomain ::
  "War3TerrainIndexedHintEvidence \<Rightarrow> War3TerrainIndexedHintDecision" where
  "War3EvaluateTerrainIndexedHintAgainstExactDomain e =
    (if \<not> he_exactDomainKnown e \<or> he_exactVertexCount e = 0 \<or> he_numVertices e = 0 \<or>
        he_vertexCapacity e = 0 then no_decision
     else
       let hintFirst = sint (he_baseVertex e) + uint (he_minVertexIndex e);
           hintEnd = hintFirst + uint (he_numVertices e);
           exactFirst = uint (he_exactFirstVertex e);
           exactEnd = exactFirst + uint (he_exactVertexCount e)
       in if hintFirst < 0 \<or> hintEnd \<le> hintFirst \<or> hintEnd > uint (he_vertexCapacity e) \<or>
             exactEnd > uint (he_vertexCapacity e) then no_decision
          else
            \<lparr>hd_relation =
               (if hintFirst = exactFirst \<and> hintEnd = exactEnd then Exact
                else if hintFirst \<le> exactFirst \<and> hintEnd \<ge> exactEnd then ConservativeSuperset
                else UnderCoversExactDomain),
             hd_firstVertex = word_of_int hintFirst, hd_vertexCount = he_numVertices e\<rparr>)"

definition War3ResolveTerrainBoundsVertexRange ::
  "bool \<Rightarrow> u32 \<Rightarrow> u32 \<Rightarrow> bool \<Rightarrow> u32 \<Rightarrow> u32 \<Rightarrow> War3TerrainBoundsVertexRange" where
  "War3ResolveTerrainBoundsVertexRange indexed nonIndexedFirstVertex nonIndexedVertexCount
      exactIndexedDomainKnown exactIndexedFirstVertex exactIndexedVertexCount =
    (if \<not> indexed then
       \<lparr>tr_firstVertex = nonIndexedFirstVertex, tr_vertexCount = nonIndexedVertexCount,
        tr_exact = (nonIndexedVertexCount \<noteq> 0)\<rparr>
     else if \<not> exactIndexedDomainKnown \<or> exactIndexedVertexCount = 0 then no_range
     else \<lparr>tr_firstVertex = exactIndexedFirstVertex, tr_vertexCount = exactIndexedVertexCount,
           tr_exact = True\<rparr>)"

abbreviation drawVertices :: "memory \<Rightarrow> War3CpuReadableBufferSpan \<Rightarrow> u32 \<Rightarrow> u32 \<Rightarrow> u32 \<Rightarrow> int set" where
  "drawVertices mem sp bytes n base \<equiv> scannedVertices mem (sp_data sp) bytes n (sint base)"

text \<open>The declaration of a draw as evidence against its scanned domain.\<close>

definition evidenceOf :: "u32 \<Rightarrow> u32 \<Rightarrow> u32 \<Rightarrow> u32 \<Rightarrow> War3ExactIndexVertexDomain \<Rightarrow> War3TerrainIndexedHintEvidence" where
  "evidenceOf base minIndex num cap d =
    \<lparr>he_baseVertex = base, he_minVertexIndex = minIndex, he_numVertices = num, he_vertexCapacity = cap,
     he_exactFirstVertex = dom_firstVertex d, he_exactVertexCount = dom_vertexCount d,
     he_exactDomainKnown = True\<rparr>"

text \<open>
  A declaration the D3D9 contract backs (every index inside the declared range) gives a domain
  that holds every vertex of the draw, and indices that lie between its bounds.
\<close>

lemma declared_covers_honest_draw:
  assumes valid: "td_valid (War3ResolveTerrainIndexedDeclaredDomain base minIndex num cap bytes)"
    and honest: "\<forall>i < unat n. uint minIndex \<le> uint (readIndex mem (sp_data sp) bytes i) \<and>
      uint (readIndex mem (sp_data sp) bytes i) < uint minIndex + uint num"
  defines "t \<equiv> War3ResolveTerrainIndexedDeclaredDomain base minIndex num cap bytes"
  shows "drawVertices mem sp bytes n base \<subseteq>
    {uint (td_firstVertex t)..<uint (td_firstVertex t) + uint (td_vertexCount t)}"
    and "uint (td_firstVertex t) + uint (td_vertexCount t) \<le> uint cap"
proof -
  have range: "0 \<le> sint base + uint minIndex" "sint base + uint minIndex + uint num \<le> uint cap"
    and t: "td_firstVertex t = word_of_int (sint base + uint minIndex)" "td_vertexCount t = num"
    using valid unfolding t_def War3ResolveTerrainIndexedDeclaredDomain_def
    by (auto simp: Let_def no_declared_def split: if_splits)
  have "uint (td_firstVertex t) = sint base + uint minIndex"
    unfolding t by (rule uint_word_u32; use range uint_lt2p [of cap] in simp)
      (use uint_ge_0 [of num] in linarith)?
  then show "drawVertices mem sp bytes n base \<subseteq>
    {uint (td_firstVertex t)..<uint (td_firstVertex t) + uint (td_vertexCount t)}"
    and "uint (td_firstVertex t) + uint (td_vertexCount t) \<le> uint cap"
    using honest range t(2) by fastforce+
qed

text \<open>
  Comparing a declared range with the scanned domain tells exactly what the declaration is
  worth: for a draw whose scan is valid, the relation is Invalid exactly when the declared range
  is empty or leaves the vertex capacity; otherwise it is Exact or ConservativeSuperset exactly
  when every vertex of the draw lies in the declared range, Exact exactly when the
  declared range is also the smallest interval that holds them, and UnderCoversExactDomain
  exactly when some vertex of the draw lies outside.
\<close>

theorem hint_relation_is_exact:
  fixes mem sp bytes n base cap minIndex num
  defines "d \<equiv> ComputeWar3ExactIndexVertexDomain mem sp bytes n base cap"
    and "first \<equiv> sint base + uint minIndex"
    and "V \<equiv> (\<lambda>i. uint (readIndex mem (sp_data sp) bytes i) + sint base) ` {0..<unat n}"
  defines "rel \<equiv> hd_relation (War3EvaluateTerrainIndexedHintAgainstExactDomain (evidenceOf base minIndex num cap d))"
  assumes valid: "dom_valid d"
  shows "(rel = Invalid \<longleftrightarrow> num = 0 \<or> first < 0 \<or> first + uint num > uint cap) \<and>
    (rel = UnderCoversExactDomain \<longleftrightarrow> rel \<noteq> Invalid \<and> \<not> V \<subseteq> {first..<first + uint num}) \<and>
    (rel = Exact \<or> rel = ConservativeSuperset \<longleftrightarrow> rel \<noteq> Invalid \<and> V \<subseteq> {first..<first + uint num}) \<and>
    (rel = Exact \<longrightarrow> Min V = first \<and> Max V = first + uint num - 1)"
proof -
  note valid' = valid [unfolded d_def]
  have cap: "cap \<noteq> 0" using valid_domain(1) [OF valid'] by (simp add: scanAdmitted_def)
  note ends = domain_end [OF valid', folded d_def]
  note inside = vertices_inside_iff [OF valid', folded d_def, folded V_def]
  have count0: "dom_vertexCount d \<noteq> 0" using ends(2) by auto
  have num: "num \<noteq> 0 \<longleftrightarrow> 0 < uint num" using uint_ge_0 [of num] by (auto simp: order.strict_iff_order uint_0_iff)
  have bad: "rel = Invalid" if "num = 0 \<or> first < 0 \<or> first + uint num > uint cap"
    using that unfolding rel_def War3EvaluateTerrainIndexedHintAgainstExactDomain_def evidenceOf_def
    by (auto simp: Let_def no_decision_def first_def)
  have good: "rel = (if first = uint (dom_firstVertex d) \<and> first + uint num = uint (dom_firstVertex d) + uint (dom_vertexCount d) then Exact
      else if first \<le> uint (dom_firstVertex d) \<and> first + uint num \<ge> uint (dom_firstVertex d) + uint (dom_vertexCount d)
      then ConservativeSuperset else UnderCoversExactDomain)"
    if "num \<noteq> 0" "0 \<le> first" "first + uint num \<le> uint cap"
    using that num ends cap count0 unfolding rel_def War3EvaluateTerrainIndexedHintAgainstExactDomain_def evidenceOf_def
    by (simp add: Let_def first_def not_less)
  have bounds: "Min V = uint (dom_firstVertex d)" "Max V = uint (dom_firstVertex d) + uint (dom_vertexCount d) - 1"
  proof -
    have "finite V" by (simp add: V_def)
    moreover have "\<forall>v \<in> V. uint (dom_firstVertex d) \<le> v \<and> v \<le> uint (dom_firstVertex d) + uint (dom_vertexCount d) - 1"
      using inside [of "uint (dom_firstVertex d)" "uint (dom_firstVertex d) + uint (dom_vertexCount d)"] by fastforce
    moreover have "uint (dom_firstVertex d) \<in> V" "uint (dom_firstVertex d) + uint (dom_vertexCount d) - 1 \<in> V"
      using domain_ends_used [OF valid', folded d_def] unfolding V_def by force+
    ultimately show "Min V = uint (dom_firstVertex d)"
      "Max V = uint (dom_firstVertex d) + uint (dom_vertexCount d) - 1"
      by (auto intro: Min_eqI Max_eqI)
  qed
  show ?thesis
  proof (cases "num = 0 \<or> first < 0 \<or> first + uint num > uint cap")
    case True
    then show ?thesis using bad by simp
  next
    case False
    then have g: "num \<noteq> 0" "0 \<le> first" "first + uint num \<le> uint cap" by auto
    show ?thesis
      unfolding good [OF g] inside bounds using False by auto
  qed
qed

text \<open>A draw that uses vertices 2 to 6 and declares 1 to 8, or only 2 to 4.\<close>

lemma hint_relation_is_exact_witness:
  "hd_relation (War3EvaluateTerrainIndexedHintAgainstExactDomain (evidenceOf (- 1) 2 8 100
      (ComputeWar3ExactIndexVertexDomain sampleMemory sampleSpan 2 3 (- 1) 100))) = ConservativeSuperset \<and>
   hd_relation (War3EvaluateTerrainIndexedHintAgainstExactDomain (evidenceOf (- 1) 3 3 100
      (ComputeWar3ExactIndexVertexDomain sampleMemory sampleSpan 2 3 (- 1) 100))) = UnderCoversExactDomain \<and>
   (\<lambda>i. uint (readIndex sampleMemory (sp_data sampleSpan) 2 i) + sint (- 1 :: u32)) ` {0..<unat (3 :: u32)} \<subseteq> {1..<9}"
proof -
  have v: "dom_valid (ComputeWar3ExactIndexVertexDomain sampleMemory sampleSpan 2 3 (- 1) 100)"
    by (simp add: sample_domain)
  have a: "hd_relation (War3EvaluateTerrainIndexedHintAgainstExactDomain (evidenceOf (- 1) 2 8 100
      (ComputeWar3ExactIndexVertexDomain sampleMemory sampleSpan 2 3 (- 1) 100))) = ConservativeSuperset"
    by code_simp
  have b: "hd_relation (War3EvaluateTerrainIndexedHintAgainstExactDomain (evidenceOf (- 1) 3 3 100
      (ComputeWar3ExactIndexVertexDomain sampleMemory sampleSpan 2 3 (- 1) 100))) = UnderCoversExactDomain"
    by code_simp
  have first: "sint (- 1 :: u32) + uint (2 :: u32) = 1" "(1 :: int) + uint (8 :: u32) = 9" by code_simp+
  from hint_relation_is_exact [OF v, of 2 8] a b show ?thesis unfolding first by blast
qed

end
