(* ===== verification/FrameHashIndex.thy ===== *)
theory FrameHashIndex
  imports War3Prelude
begin

section \<open>The frame-local hash index\<close>

text \<open>
  \<open>src/src/d3d9/war3/render/war3_frame_hash_index.h\<close>: a hash table from 64-bit keys to
  32-bit values that keeps every value of a key, and forgets all of them in constant time by
  advancing a generation. The abstract view is the list of (key, value) pairs in the order
  they were inserted; the theorem at the end says that every sequence of operations behaves as
  it does on that list. Vectors grow without failing; their capacity is not modelled.
\<close>

subsection \<open>State\<close>

definition InvalidNode :: u32 where
  "InvalidNode = UINT32_MAX"

record Bucket =
  bk_generation :: u32
  bk_head :: u32

record Node =
  nd_key :: u64
  nd_value :: u32
  nd_next :: u32

record FrameHashIndex =
  fh_buckets :: "Bucket list"
  fh_nodes :: "Node list"
  fh_generation :: u32

definition bucket_init :: Bucket where
  "bucket_init = \<lparr>bk_generation = 0, bk_head = InvalidNode\<rparr>"

definition index_init :: FrameHashIndex where
  "index_init = \<lparr>fh_buckets = [], fh_nodes = [], fh_generation = 1\<rparr>"

subsection \<open>Operations\<close>

definition fh_clear :: "FrameHashIndex \<Rightarrow> FrameHashIndex" where
  "fh_clear s =
    (let generation = fh_generation s + 1
     in if generation = 0
        then s\<lparr>fh_nodes := [], fh_buckets := map (\<lambda>b. b\<lparr>bk_generation := 0\<rparr>) (fh_buckets s), fh_generation := 1\<rparr>
        else s\<lparr>fh_nodes := [], fh_generation := generation\<rparr>)"

definition fh_empty :: "FrameHashIndex \<Rightarrow> bool" where
  "fh_empty s \<longleftrightarrow> fh_nodes s = []"

definition fh_size :: "FrameHashIndex \<Rightarrow> nat" where
  "fh_size s = length (fh_nodes s)"

definition hashBucket :: "u64 \<Rightarrow> u32 \<Rightarrow> u32" where
  "hashBucket key0 bucketCount =
    (let key1 = key0 XOR drop_bit 33 key0;
         key2 = key1 * 0xff51afd7ed558ccd;
         key3 = key2 XOR drop_bit 33 key2
     in ucast key3 AND (bucketCount - 1))"

definition bucketHead :: "u32 \<Rightarrow> Bucket \<Rightarrow> u32" where
  "bucketHead generation b = (if bk_generation b = generation then bk_head b else InvalidNode)"

definition bucketCountOf :: "Bucket list \<Rightarrow> u32" where
  "bucketCountOf bs = of_nat (length bs)"

definition bucketOf :: "Bucket list \<Rightarrow> u64 \<Rightarrow> nat" where
  "bucketOf bs key = unat (hashBucket key (bucketCountOf bs))"

definition relink :: "u32 \<Rightarrow> nat \<Rightarrow> Node list \<times> Bucket list \<Rightarrow> Node list \<times> Bucket list" where
  "relink generation i = (\<lambda>(nodes, buckets).
    let b = bucketOf buckets (nd_key (nodes ! i))
    in (nodes[i := (nodes ! i)\<lparr>nd_next := bucketHead generation (buckets ! b)\<rparr>],
        buckets[b := \<lparr>bk_generation = generation, bk_head = of_nat i\<rparr>]))"

definition rebuildBuckets :: "u32 \<Rightarrow> FrameHashIndex \<Rightarrow> FrameHashIndex" where
  "rebuildBuckets bucketCount s =
    (let bucketCount = max bucketCount 8;
         (nodes, buckets) = fold (relink (fh_generation s)) [0..<length (fh_nodes s)]
           (fh_nodes s, replicate (unat bucketCount) bucket_init)
     in s\<lparr>fh_nodes := nodes, fh_buckets := buckets\<rparr>)"

text \<open>The rounding loop of \<open>reserve\<close>; it stops at the largest power of two.\<close>

function growBuckets :: "u32 \<Rightarrow> u32 \<Rightarrow> u32" where
  "growBuckets bucketCount wanted =
    (if bucketCount = 0 \<or> \<not> bucketCount < wanted then bucketCount
     else if bucketCount \<ge> push_bit 31 1 then push_bit 31 1
     else growBuckets (bucketCount * 2) wanted)"
  by pat_completeness auto

termination
proof (relation "measure (\<lambda>(bucketCount, wanted). 2 ^ 32 - unat bucketCount)", simp, simp only: in_measure split)
  fix b w :: u32
  assume "\<not> (b = 0 \<or> \<not> b < w)" and "\<not> push_bit 31 1 \<le> b"
  then have "0 < unat b" "unat b < 2 ^ 31"
    by (simp_all add: unat_gt_0 word_le_nat_alt not_le push_bit_eq_mult)
  then show "2 ^ 32 - unat (b * 2) < 2 ^ 32 - unat b" by (simp add: unat_word_ariths)
qed

definition fh_reserve :: "u32 \<Rightarrow> FrameHashIndex \<Rightarrow> FrameHashIndex" where
  "fh_reserve valueCount s =
    (let valueCount = (if valueCount > InvalidNode then InvalidNode else valueCount);
         wanted = (if valueCount > UINT32_MAX div 2 then UINT32_MAX else valueCount * 2);
         bucketCount = growBuckets 8 wanted
     in if bucketCount > of_nat (length (fh_buckets s)) then rebuildBuckets bucketCount s else s)"

definition fh_insert :: "u64 \<Rightarrow> u32 \<Rightarrow> FrameHashIndex \<Rightarrow> FrameHashIndex" where
  "fh_insert key v s =
    (if length (fh_nodes s) \<ge> unat InvalidNode then s
     else
       let s = (if fh_buckets s = [] then rebuildBuckets 8 s else s);
           s = (if (of_nat (length (fh_nodes s)) + 1) * 4 > (of_nat (length (fh_buckets s)) * 3 :: u32)
                then rebuildBuckets (of_nat (length (fh_buckets s)) * 2) s else s);
           b = bucketOf (fh_buckets s) key;
           previous = bucketHead (fh_generation s) (fh_buckets s ! b)
       in s\<lparr>fh_nodes := fh_nodes s @ [\<lparr>nd_key = key, nd_value = v, nd_next = previous\<rparr>],
            fh_buckets := (fh_buckets s)[b := \<lparr>bk_generation = fh_generation s,
                                               bk_head = of_nat (length (fh_nodes s))\<rparr>]\<rparr>)"

text \<open>
  The walk along a chain. The callback threads a state and says whether to go on. The loop has
  no bound of its own: None is a walk that never ends.
\<close>

partial_function (option) walk ::
  "Node list \<Rightarrow> u64 \<Rightarrow> (u32 \<Rightarrow> 's \<Rightarrow> bool \<times> 's) \<Rightarrow> u32 \<Rightarrow> 's \<Rightarrow> 's option" where
  "walk nodes key callback nodeIndex x =
    (if nodeIndex \<noteq> InvalidNode \<and> unat nodeIndex < length nodes
     then let node = nodes ! unat nodeIndex
          in if nd_key node = key
             then case callback (nd_value node) x of (go_on, y) \<Rightarrow>
               if go_on then walk nodes key callback (nd_next node) y else Some y
             else walk nodes key callback (nd_next node) x
     else Some x)"

definition forEach ::
  "u64 \<Rightarrow> (u32 \<Rightarrow> 's \<Rightarrow> bool \<times> 's) \<Rightarrow> FrameHashIndex \<Rightarrow> 's \<Rightarrow> 's option" where
  "forEach key callback s x =
    (if fh_buckets s = [] then Some x
     else let bucket = fh_buckets s ! bucketOf (fh_buckets s) key
          in if bk_generation bucket \<noteq> fh_generation s then Some x
             else walk (fh_nodes s) key callback (bk_head bucket) x)"

subsection \<open>The abstract multimap\<close>

type_synonym ('k, 'v) multimap = "('k \<times> 'v) list"

definition valuesOf :: "'k \<Rightarrow> ('k, 'v) multimap \<Rightarrow> 'v list" where
  "valuesOf key ps = map snd (filter (\<lambda>p. fst p = key) (rev ps))"

fun visit :: "('v \<Rightarrow> 's \<Rightarrow> bool \<times> 's) \<Rightarrow> 'v list \<Rightarrow> 's \<Rightarrow> 's" where
  "visit callback [] x = x"
| "visit callback (v # vs) x =
    (case callback v x of (go_on, y) \<Rightarrow> if go_on then visit callback vs y else y)"

definition entriesOf :: "FrameHashIndex \<Rightarrow> (u64, u32) multimap" where
  "entriesOf s = map (\<lambda>n. (nd_key n, nd_value n)) (fh_nodes s)"

subsection \<open>The invariant\<close>

text \<open>A head and the links lead through exactly the given nodes and end.\<close>

fun chain :: "Node list \<Rightarrow> u32 \<Rightarrow> nat list \<Rightarrow> bool" where
  "chain nodes h [] \<longleftrightarrow> h = InvalidNode"
| "chain nodes h (i # is) \<longleftrightarrow>
     h = of_nat i \<and> i < length nodes \<and> i < unat InvalidNode \<and> chain nodes (nd_next (nodes ! i)) is"

text \<open>The nodes before k that belong to a bucket, the latest first.\<close>

definition members :: "Bucket list \<Rightarrow> Node list \<Rightarrow> nat \<Rightarrow> nat \<Rightarrow> nat list" where
  "members bs nodes b k = rev (filter (\<lambda>i. bucketOf bs (nd_key (nodes ! i)) = b) [0..<k])"

definition linked :: "u32 \<Rightarrow> Bucket list \<Rightarrow> Node list \<Rightarrow> nat \<Rightarrow> bool" where
  "linked generation bs nodes k \<longleftrightarrow>
     (\<forall>b < length bs. chain nodes (bucketHead generation (bs ! b)) (members bs nodes b k))"

definition index_ok :: "FrameHashIndex \<Rightarrow> bool" where
  "index_ok s \<longleftrightarrow> fh_generation s \<noteq> 0 \<and> length (fh_nodes s) \<le> unat InvalidNode \<and>
     length (fh_buckets s) < 2 ^ 32 \<and> (\<forall>b \<in> set (fh_buckets s). bk_generation b \<le> fh_generation s) \<and>
     (fh_buckets s = [] \<longrightarrow> fh_nodes s = []) \<and>
     linked (fh_generation s) (fh_buckets s) (fh_nodes s) (length (fh_nodes s))"

lemma InvalidNode_nat [simp]: "unat InvalidNode = 4294967295"
  unfolding InvalidNode_def by (rule unat_UINT32_MAX)

lemma of_nat_not_invalid: "i < 4294967295 \<Longrightarrow> (of_nat i :: u32) \<noteq> InvalidNode"
  using unat_of_nat_u32 [of i] InvalidNode_nat by force

lemma bucketOf_less:
  assumes "bs \<noteq> []" and "length bs < 2 ^ 32"
  shows "bucketOf bs key < length bs"
proof -
  define n where "n = bucketCountOf bs"
  have n: "unat n = length bs" using assms(2) by (simp add: n_def bucketCountOf_def unat_of_nat_u32)
  then have "n \<noteq> 0" using assms(1) by auto
  then have m: "unat (n - 1) = length bs - 1"
    using n by (simp add: unat_minus_one)
  have "hashBucket key n \<le> n - 1"
    by (simp add: hashBucket_def Let_def word_and_le1)
  then have "unat (hashBucket key n) \<le> length bs - 1"
    using m by (simp add: word_le_nat_alt)
  then show ?thesis using assms(1) by (simp add: bucketOf_def n_def [symmetric]) (cases bs; simp)
qed

lemma bucketOf_cong: "length bs = length bs' \<Longrightarrow> bucketOf bs = bucketOf bs'"
  by (rule ext) (simp add: bucketOf_def bucketCountOf_def)

lemma members_cong:
  assumes "length bs = length bs'" and "\<And>i. i < k \<Longrightarrow> nd_key (nodes ! i) = nd_key (nodes' ! i)"
  shows "members bs nodes b k = members bs' nodes' b k"
  unfolding members_def bucketOf_cong [OF assms(1)]
  by (rule arg_cong [where f = rev], rule filter_cong) (auto simp: assms(2))

lemma members_Suc:
  "members bs nodes b (Suc k) =
    (if bucketOf bs (nd_key (nodes ! k)) = b then [k] else []) @ members bs nodes b k"
  by (simp add: members_def)

lemma set_members: "set (members bs nodes b k) \<subseteq> {..<k}"
  by (auto simp: members_def)

lemma chain_cong:
  assumes "chain nodes h is"
    and "\<And>i. i \<in> set is \<Longrightarrow> i < length nodes' \<and> nd_next (nodes' ! i) = nd_next (nodes ! i)"
  shows "chain nodes' h is"
  using assms by (induction "is" arbitrary: h) auto

lemma linked_step:
  assumes linked: "linked generation bs nodes k" and k: "k < length nodes'" "k < unat InvalidNode"
    and b: "b = bucketOf bs (nd_key (nodes' ! k))" "b < length bs"
    and same: "\<And>i. i < k \<Longrightarrow> nd_key (nodes' ! i) = nd_key (nodes ! i) \<and> nd_next (nodes' ! i) = nd_next (nodes ! i)"
    and "next": "nd_next (nodes' ! k) = bucketHead generation (bs ! b)"
  shows "linked generation (bs[b := \<lparr>bk_generation = generation, bk_head = of_nat k\<rparr>]) nodes' (Suc k)"
  unfolding linked_def
proof (intro allI impI)
  fix c assume "c < length (bs[b := \<lparr>bk_generation = generation, bk_head = of_nat k\<rparr>])"
  then have c: "c < length bs" by simp
  let ?bs = "bs[b := \<lparr>bk_generation = generation, bk_head = of_nat k\<rparr>]"
  have mem: "members ?bs nodes' c k = members bs nodes c k"
    by (rule members_cong) (simp_all add: same)
  have old: "chain nodes' (bucketHead generation (bs ! c)) (members bs nodes c k)"
  proof (rule chain_cong)
    show "chain nodes (bucketHead generation (bs ! c)) (members bs nodes c k)"
      using linked c by (simp add: linked_def)
    fix i assume "i \<in> set (members bs nodes c k)"
    then have "i < k" using set_members by blast
    then show "i < length nodes' \<and> nd_next (nodes' ! i) = nd_next (nodes ! i)" using k same by simp
  qed
  have bk: "bucketOf ?bs (nd_key (nodes' ! k)) = b"
    using b(1) bucketOf_cong [of ?bs bs] by simp
  show "chain nodes' (bucketHead generation (?bs ! c)) (members ?bs nodes' c (Suc k))"
  proof (cases "c = b")
    case True
    with b(2) have "bucketHead generation (?bs ! c) = of_nat k" by (simp add: bucketHead_def)
    with True old k "next" show ?thesis unfolding members_Suc mem bk by simp
  next
    case False
    with old show ?thesis unfolding members_Suc mem bk by simp
  qed
qed

subsection \<open>Every operation keeps the invariant\<close>

lemma linked_fresh:
  assumes "generation \<noteq> 0" shows "linked generation (replicate n bucket_init) nodes 0"
  using assms by (simp add: linked_def members_def bucketHead_def bucket_init_def)

text \<open>The relinking loop: keys and values stay, and the first k nodes are linked.\<close>

lemma relink_fold:
  assumes g: "generation \<noteq> 0" and n: "0 < n" "n < 2 ^ 32"
    and len: "length nodes0 \<le> unat InvalidNode" and k: "k \<le> length nodes0"
  shows "case fold (relink generation) [0..<k] (nodes0, replicate n bucket_init) of (nodes, bs) \<Rightarrow>
    length bs = n \<and> map nd_key nodes = map nd_key nodes0 \<and> map nd_value nodes = map nd_value nodes0 \<and>
    (\<forall>b \<in> set bs. bk_generation b \<le> generation) \<and> linked generation bs nodes k"
  using k
proof (induction k)
  case 0
  have "\<forall>b \<in> set (replicate n bucket_init). bk_generation b \<le> generation"
    by (simp add: bucket_init_def)
  with linked_fresh [OF g, of n nodes0] show ?case by simp
next
  case (Suc k)
  obtain nodes bs where st: "fold (relink generation) [0..<k] (nodes0, replicate n bucket_init) = (nodes, bs)"
    by (cases "fold (relink generation) [0..<k] (nodes0, replicate n bucket_init)")
  with Suc have bs: "length bs = n" and keys: "map nd_key nodes = map nd_key nodes0"
    and vals: "map nd_value nodes = map nd_value nodes0"
    and gens: "\<forall>b \<in> set bs. bk_generation b \<le> generation" and linked: "linked generation bs nodes k"
    by simp_all
  have len': "length nodes = length nodes0" using map_eq_imp_length_eq [OF keys] .
  with Suc.prems have kl: "k < length nodes" by simp
  define b where "b = bucketOf bs (nd_key (nodes ! k))"
  define nodes' where "nodes' = nodes[k := (nodes ! k)\<lparr>nd_next := bucketHead generation (bs ! b)\<rparr>]"
  define bs' where "bs' = bs[b := \<lparr>bk_generation = generation, bk_head = of_nat k\<rparr>]"
  have step: "fold (relink generation) [0..<Suc k] (nodes0, replicate n bucket_init) = (nodes', bs')"
    by (simp add: st relink_def Let_def b_def nodes'_def bs'_def)
  have "bs \<noteq> []" using bs n by auto
  then have b: "b < length bs" unfolding b_def by (rule bucketOf_less) (use n in \<open>simp add: bs\<close>)
  have "linked generation bs' nodes' (Suc k)"
    unfolding bs'_def
  proof (rule linked_step [OF linked _ _ _ b])
    show "k < length nodes'" using kl by (simp add: nodes'_def)
    show "k < unat InvalidNode" using kl len len' by simp
    show "b = bucketOf bs (nd_key (nodes' ! k))" using kl by (simp add: nodes'_def b_def)
    show "nd_next (nodes' ! k) = bucketHead generation (bs ! b)" using kl by (simp add: nodes'_def)
    show "nd_key (nodes' ! i) = nd_key (nodes ! i) \<and> nd_next (nodes' ! i) = nd_next (nodes ! i)" if "i < k" for i
      using that by (simp add: nodes'_def)
  qed
  moreover have "map nd_key nodes' = map nd_key nodes" "map nd_value nodes' = map nd_value nodes"
    using kl by (simp_all add: nodes'_def map_update list_update_same_conv)
  moreover have "\<forall>b \<in> set bs'. bk_generation b \<le> generation"
    using gens set_update_subset_insert [of bs b] by (fastforce simp: bs'_def)
  ultimately show ?case
    unfolding step using bs keys vals by (simp add: bs'_def)
qed

lemma entries_of_maps:
  "map nd_key ns = map nd_key ms \<Longrightarrow> map nd_value ns = map nd_value ms \<Longrightarrow>
    map (\<lambda>n. (nd_key n, nd_value n)) ns = map (\<lambda>n. (nd_key n, nd_value n)) ms"
  by (simp add: list_eq_iff_nth_eq)

lemma rebuildBuckets_ok:
  assumes ok: "fh_generation s \<noteq> 0" "length (fh_nodes s) \<le> unat InvalidNode"
  shows "index_ok (rebuildBuckets count s)" and "entriesOf (rebuildBuckets count s) = entriesOf s"
    and "fh_buckets (rebuildBuckets count s) \<noteq> []" and "fh_generation (rebuildBuckets count s) = fh_generation s"
    and "length (fh_nodes (rebuildBuckets count s)) = length (fh_nodes s)"
proof -
  define n where "n = unat (max count 8)"
  have n: "0 < n" "n < 2 ^ 32" by (simp_all add: n_def unat_max)
  obtain nodes bs where st: "fold (relink (fh_generation s)) [0..<length (fh_nodes s)] (fh_nodes s, replicate n bucket_init) = (nodes, bs)"
    by (cases "fold (relink (fh_generation s)) [0..<length (fh_nodes s)] (fh_nodes s, replicate n bucket_init)")
  from relink_fold [OF ok(1) n ok(2) order_refl] have r: "length bs = n"
    "map nd_key nodes = map nd_key (fh_nodes s)" "map nd_value nodes = map nd_value (fh_nodes s)"
    "\<forall>b \<in> set bs. bk_generation b \<le> fh_generation s" "linked (fh_generation s) bs nodes (length (fh_nodes s))"
    by (simp_all add: st)
  have len: "length nodes = length (fh_nodes s)" using map_eq_imp_length_eq [OF r(2)] .
  have eq: "rebuildBuckets count s = s\<lparr>fh_nodes := nodes, fh_buckets := bs\<rparr>"
    unfolding rebuildBuckets_def Let_def n_def [symmetric] st by simp
  show "index_ok (rebuildBuckets count s)" "fh_buckets (rebuildBuckets count s) \<noteq> []"
    using r len ok n by (auto simp: eq index_ok_def)
  show "entriesOf (rebuildBuckets count s) = entriesOf s"
    unfolding eq entriesOf_def by (simp add: entries_of_maps [OF r(2,3)])
  show "fh_generation (rebuildBuckets count s) = fh_generation s"
    "length (fh_nodes (rebuildBuckets count s)) = length (fh_nodes s)" by (simp_all add: eq len)
qed

lemma index_init_ok: "index_ok index_init"
  by (simp add: index_ok_def index_init_def linked_def)

lemma linked_cleared:
  assumes "\<forall>b \<in> set bs. bk_generation b \<noteq> generation" shows "linked generation bs [] 0"
  using assms by (auto simp: linked_def members_def bucketHead_def)

lemma fh_clear_ok:
  assumes "index_ok s" shows "index_ok (fh_clear s)" and "entriesOf (fh_clear s) = []"
proof -
  let ?g = "fh_generation s + 1"
  have gens: "\<forall>b \<in> set (fh_buckets s). bk_generation b \<le> fh_generation s" and len: "length (fh_buckets s) < 2 ^ 32"
    using assms by (simp_all add: index_ok_def)
  show "index_ok (fh_clear s)"
  proof (cases "?g = 0")
    case True
    then show ?thesis using len by (auto simp: fh_clear_def index_ok_def intro!: linked_cleared)
  next
    case False
    then have less: "fh_generation s < ?g" 
      using unatSuc [of "fh_generation s"] by (simp add: word_less_nat_alt add.commute)
    with gens have lt: "\<forall>b \<in> set (fh_buckets s). bk_generation b < ?g" by fastforce
    then have ne: "\<forall>b \<in> set (fh_buckets s). bk_generation b \<noteq> ?g" and le: "\<forall>b \<in> set (fh_buckets s). bk_generation b \<le> ?g"
      by auto
    have "linked ?g (fh_buckets s) [] 0" by (rule linked_cleared [OF ne])
    with False len le show ?thesis by (simp add: fh_clear_def Let_def index_ok_def)
  qed
  show "entriesOf (fh_clear s) = []" by (simp add: fh_clear_def Let_def entriesOf_def)
qed

lemma fh_reserve_ok:
  assumes "index_ok s" shows "index_ok (fh_reserve n s)" and "entriesOf (fh_reserve n s) = entriesOf s"
  using assms rebuildBuckets_ok [of s] by (auto simp: fh_reserve_def Let_def index_ok_def)

text \<open>Inserting into a table that has buckets and room.\<close>

lemma insert_core:
  assumes ok: "index_ok s" and room: "length (fh_nodes s) < unat InvalidNode" and bs: "fh_buckets s \<noteq> []"
    and b: "b = bucketOf (fh_buckets s) key"
  shows "index_ok (s\<lparr>fh_nodes := fh_nodes s @ [\<lparr>nd_key = key, nd_value = v,
        nd_next = bucketHead (fh_generation s) (fh_buckets s ! b)\<rparr>],
      fh_buckets := (fh_buckets s)[b := \<lparr>bk_generation = fh_generation s,
                                         bk_head = of_nat (length (fh_nodes s))\<rparr>]\<rparr>)"
proof -
  have len: "length (fh_buckets s) < 2 ^ 32" and linked: "linked (fh_generation s) (fh_buckets s) (fh_nodes s) (length (fh_nodes s))"
    and gens: "\<forall>b \<in> set (fh_buckets s). bk_generation b \<le> fh_generation s"
    using ok by (simp_all add: index_ok_def)
  have bl: "b < length (fh_buckets s)" unfolding b by (rule bucketOf_less [OF bs len])
  define nodes' where "nodes' = fh_nodes s @ [\<lparr>nd_key = key, nd_value = v,
        nd_next = bucketHead (fh_generation s) (fh_buckets s ! b)\<rparr>]"
  have "linked (fh_generation s) ((fh_buckets s)[b := \<lparr>bk_generation = fh_generation s,
      bk_head = of_nat (length (fh_nodes s))\<rparr>]) nodes' (Suc (length (fh_nodes s)))"
    by (rule linked_step [OF linked _ room _ bl]) (simp_all add: nodes'_def b nth_append)
  moreover have "\<forall>c \<in> set ((fh_buckets s)[b := \<lparr>bk_generation = fh_generation s,
      bk_head = of_nat (length (fh_nodes s))\<rparr>]). bk_generation c \<le> fh_generation s"
    using gens set_update_subset_insert [of "fh_buckets s" b] by fastforce
  moreover have "length nodes' = Suc (length (fh_nodes s))" by (simp add: nodes'_def)
  ultimately show ?thesis
    using ok room bs unfolding nodes'_def [symmetric] by (simp add: index_ok_def)
qed

lemma fh_insert_ok:
  assumes ok: "index_ok s"
  shows "index_ok (fh_insert key v s)"
    and "entriesOf (fh_insert key v s) =
      (if length (entriesOf s) \<ge> unat InvalidNode then entriesOf s else entriesOf s @ [(key, v)])"
proof -
  have "index_ok (fh_insert key v s) \<and> entriesOf (fh_insert key v s) =
      (if length (entriesOf s) \<ge> unat InvalidNode then entriesOf s else entriesOf s @ [(key, v)])"
  proof (cases "length (fh_nodes s) \<ge> unat InvalidNode")
    case True
    then show ?thesis using ok by (simp add: fh_insert_def entriesOf_def)
  next
    case False
    define s1 where "s1 = (if fh_buckets s = [] then rebuildBuckets 8 s else s)"
    define s2 where "s2 = (if (of_nat (length (fh_nodes s1)) + 1) * 4 > (of_nat (length (fh_buckets s1)) * 3 :: u32)
      then rebuildBuckets (of_nat (length (fh_buckets s1)) * 2) s1 else s1)"
    have g: "fh_generation s \<noteq> 0" "length (fh_nodes s) \<le> unat InvalidNode" using ok by (simp_all add: index_ok_def)
    have 1: "index_ok s1" "entriesOf s1 = entriesOf s" "fh_buckets s1 \<noteq> []" "length (fh_nodes s1) = length (fh_nodes s)"
      using ok rebuildBuckets_ok [OF g] by (auto simp: s1_def)
    have g1: "fh_generation s1 \<noteq> 0" "length (fh_nodes s1) \<le> unat InvalidNode" using 1(1) by (simp_all add: index_ok_def)
    have 2: "index_ok s2" "entriesOf s2 = entriesOf s1" "fh_buckets s2 \<noteq> []" "length (fh_nodes s2) = length (fh_nodes s)"
      using 1 rebuildBuckets_ok [OF g1] by (auto simp: s2_def)
    have eq: "fh_insert key v s =
      s2\<lparr>fh_nodes := fh_nodes s2 @ [\<lparr>nd_key = key, nd_value = v,
           nd_next = bucketHead (fh_generation s2) (fh_buckets s2 ! bucketOf (fh_buckets s2) key)\<rparr>],
         fh_buckets := (fh_buckets s2)[bucketOf (fh_buckets s2) key :=
           \<lparr>bk_generation = fh_generation s2, bk_head = of_nat (length (fh_nodes s2))\<rparr>]\<rparr>"
      unfolding fh_insert_def if_not_P [OF False] s1_def [symmetric] Let_def s2_def [symmetric] ..
    have "index_ok (fh_insert key v s)"
      unfolding eq by (rule insert_core) (use 2 False in simp_all)
    moreover have "entriesOf (fh_insert key v s) = entriesOf s2 @ [(key, v)]"
      by (simp add: eq entriesOf_def)
    ultimately show ?thesis using False 1 2 by (simp add: entriesOf_def)
  qed
  then show "index_ok (fh_insert key v s)"
    and "entriesOf (fh_insert key v s) =
      (if length (entriesOf s) \<ge> unat InvalidNode then entriesOf s else entriesOf s @ [(key, v)])" by blast+
qed

subsection \<open>The walk visits the values of the key, the latest first\<close>

lemma walk_chain:
  assumes "chain nodes h is"
  shows "walk nodes key callback h x =
    Some (visit callback (map nd_value (filter (\<lambda>n. nd_key n = key) (map ((!) nodes) is))) x)"
  using assms
proof (induction "is" arbitrary: h x)
  case Nil
  then show ?case by (subst walk.simps) simp
next
  case (Cons i "is")
  then have h: "h = of_nat i" and i: "i < length nodes" "i < 4294967295"
    and rest: "chain nodes (nd_next (nodes ! i)) is" by simp_all
  have u: "unat h = i" using i(2) unat_of_nat_u32 [of i] by (simp add: h)
  have ne: "h \<noteq> InvalidNode" unfolding h by (rule of_nat_not_invalid [OF i(2)])
  show ?case
    by (subst walk.simps) (simp add: u ne i Let_def Cons.IH [OF rest] split: prod.split)
qed

lemma forEach_visits:
  assumes ok: "index_ok s"
  shows "forEach key callback s x = Some (visit callback (valuesOf key (entriesOf s)) x)"
proof (cases "fh_buckets s = []")
  case True
  with ok show ?thesis by (simp add: forEach_def index_ok_def entriesOf_def valuesOf_def)
next
  case False
  let ?bs = "fh_buckets s" and ?nodes = "fh_nodes s"
  define b where "b = bucketOf ?bs key"
  have b: "b < length ?bs" unfolding b_def by (rule bucketOf_less [OF False]) (use ok in \<open>simp add: index_ok_def\<close>)
  have chain: "chain ?nodes (bucketHead (fh_generation s) (?bs ! b)) (members ?bs ?nodes b (length ?nodes))"
    using ok b by (simp add: index_ok_def linked_def)
  have "filter (\<lambda>n. nd_key n = key) (map ((!) ?nodes) (members ?bs ?nodes b (length ?nodes))) =
      rev (map ((!) ?nodes) (filter (\<lambda>i. nd_key (?nodes ! i) = key) [0..<length ?nodes]))"
    unfolding members_def filter_map rev_map [symmetric] rev_filter [symmetric] filter_filter o_def
    by (rule arg_cong [where f = rev], rule arg_cong [where f = "map ((!) ?nodes)"], rule filter_cong)
      (auto simp: b_def)
  also have "\<dots> = rev (filter (\<lambda>n. nd_key n = key) ?nodes)"
    using filter_map [of "\<lambda>n. nd_key n = key" "(!) ?nodes" "[0..<length ?nodes]"]
    by (simp add: map_nth o_def)
  finally have vals: "map nd_value (filter (\<lambda>n. nd_key n = key) (map ((!) ?nodes) (members ?bs ?nodes b (length ?nodes)))) =
      valuesOf key (entriesOf s)"
    by (simp add: valuesOf_def entriesOf_def rev_map filter_map rev_filter o_def)
  from walk_chain [OF chain, of key callback x] have
    w: "walk ?nodes key callback (bucketHead (fh_generation s) (?bs ! b)) x =
      Some (visit callback (valuesOf key (entriesOf s)) x)"
    unfolding vals .
  show ?thesis
  proof (cases "bk_generation (?bs ! b) = fh_generation s")
    case True
    with w show ?thesis using False by (simp add: forEach_def b_def [symmetric] bucketHead_def)
  next
    case other: False
    have "walk ?nodes key callback InvalidNode x = Some x" by (subst walk.simps) simp
    with w other show ?thesis using False by (simp add: forEach_def b_def [symmetric] bucketHead_def)
  qed
qed

subsection \<open>The interface the palette code relies on\<close>

text \<open>
  A multi-index: adding appends an entry while there is room, resetting drops all of them, and
  the visit shows a callback the values of a key, the latest first, until it says stop.
\<close>

locale multi_index =
  fixes ok :: "'s \<Rightarrow> bool" and entries :: "'s \<Rightarrow> ('k, 'v) multimap" and room :: nat
    and add :: "'k \<Rightarrow> 'v \<Rightarrow> 's \<Rightarrow> 's" and reset :: "'s \<Rightarrow> 's"
    and each :: "'k \<Rightarrow> ('v \<Rightarrow> 'v \<Rightarrow> bool \<times> 'v) \<Rightarrow> 's \<Rightarrow> 'v \<Rightarrow> 'v option"
  assumes add_ok: "ok s \<Longrightarrow> ok (add key v s)"
    and add_entries: "ok s \<Longrightarrow> length (entries s) < room \<Longrightarrow> entries (add key v s) = entries s @ [(key, v)]"
    and reset_ok: "ok s \<Longrightarrow> ok (reset s)"
    and reset_entries: "ok s \<Longrightarrow> entries (reset s) = []"
    and each_visits: "ok s \<Longrightarrow> each key callback s x = Some (visit callback (valuesOf key (entries s)) x)"
begin

text \<open>A callback that stops at the first candidate that passes its test finds it.\<close>

lemma visit_find:
  "visit (\<lambda>v x. if P v then (False, v) else (True, x)) vs x = (case find P vs of None \<Rightarrow> x | Some v \<Rightarrow> v)"
  by (induction vs) simp_all

lemma first_match:
  assumes "ok s"
  shows "each key (\<lambda>v x. if P v then (False, v) else (True, x)) s none =
    Some (case find P (valuesOf key (entries s)) of None \<Rightarrow> none | Some v \<Rightarrow> v)"
  by (simp add: each_visits [OF assms] visit_find)

text \<open>Nothing passes the test exactly when no entry of the key does.\<close>

lemma first_match_none:
  assumes "ok s" and "\<forall>(k, v) \<in> set (entries s). k = key \<longrightarrow> \<not> P v"
  shows "each key (\<lambda>v x. if P v then (False, v) else (True, x)) s none = Some none"
proof -
  have "find P (valuesOf key (entries s)) = None"
    using assms(2) by (auto simp: find_None_iff valuesOf_def)
  then show ?thesis by (simp add: first_match [OF assms(1)])
qed

lemma first_match_some:
  assumes "ok s" and "(key, v) \<in> set (entries s)" and "P v"
  shows "\<exists>w. each key (\<lambda>v x. if P v then (False, v) else (True, x)) s none = Some w \<and> P w \<and> (key, w) \<in> set (entries s)"
proof -
  have "v \<in> set (valuesOf key (entries s))" using assms(2) by (force simp: valuesOf_def)
  with assms(3) obtain w where w: "find P (valuesOf key (entries s)) = Some w"
    by (cases "find P (valuesOf key (entries s))") (auto simp: find_None_iff)
  then have "P w" "w \<in> set (valuesOf key (entries s))" by (auto simp: find_Some_iff)
  with w show ?thesis by (auto simp: first_match [OF assms(1)] valuesOf_def)
qed

end

interpretation frame: multi_index index_ok entriesOf "unat InvalidNode" fh_insert fh_clear forEach
  by unfold_locales (simp_all add: fh_insert_ok fh_clear_ok forEach_visits)

subsection \<open>Every sequence of operations refines the multimap\<close>

datatype index_op = Clear | Reserve u32 | Insert u64 u32

fun apply_op :: "index_op \<Rightarrow> FrameHashIndex \<Rightarrow> FrameHashIndex" where
  "apply_op Clear s = fh_clear s"
| "apply_op (Reserve n) s = fh_reserve n s"
| "apply_op (Insert key v) s = fh_insert key v s"

fun spec_op :: "index_op \<Rightarrow> (u64, u32) multimap \<Rightarrow> (u64, u32) multimap" where
  "spec_op Clear ps = []"
| "spec_op (Reserve n) ps = ps"
| "spec_op (Insert key v) ps = (if length ps \<ge> unat InvalidNode then ps else ps @ [(key, v)])"

lemma apply_op_refines:
  "index_ok s \<Longrightarrow> index_ok (apply_op oper s) \<and> entriesOf (apply_op oper s) = spec_op oper (entriesOf s)"
  by (cases oper) (simp_all add: fh_insert_ok fh_clear_ok fh_reserve_ok)

lemma apply_ops_refine:
  "index_ok s \<Longrightarrow> index_ok (fold apply_op ops s) \<and>
    entriesOf (fold apply_op ops s) = fold spec_op ops (entriesOf s)"
  by (induction ops arbitrary: s) (simp_all add: apply_op_refines)

text \<open>
  C9. The hash index refines a list of (key, value) pairs: after any sequence of clearing,
  reserving and inserting, visiting a key shows exactly the values inserted under it since the
  last clear, the latest first, until the callback stops; the visit always ends, and the size
  and emptiness are those of the list. No wrap of the 32-bit generation and no
  rehash loses, repeats or revives an entry.
\<close>

theorem frame_index_refines_multimap:
  fixes ops key callback x
  defines "s \<equiv> fold apply_op ops index_init" and "ps \<equiv> fold spec_op ops []"
  shows "forEach key callback s x = Some (visit callback (valuesOf key ps) x) \<and>
    fh_size s = length ps \<and> (fh_empty s \<longleftrightarrow> ps = [])"
proof -
  have "entriesOf index_init = []" by (simp add: entriesOf_def index_init_def)
  with apply_ops_refine [OF index_init_ok, of ops] have ok: "index_ok s" and eq: "entriesOf s = ps"
    by (simp_all add: s_def ps_def)
  from forEach_visits [OF ok] eq show ?thesis
    by (auto simp: fh_size_def fh_empty_def entriesOf_def)
qed

end
