(* ===== verification/ShadowPalettes.thy ===== *)
theory ShadowPalettes
  imports FrameHashIndex
begin

section \<open>The matrix palettes of a frame\<close>


















subsection \<open>The invariant\<close>





















subsection \<open>Frames of palettes\<close>










end
