(* ===== verification/ShadowBuild.thy ===== *)
theory ShadowBuild
  imports War3Prelude
begin

section \<open>The life of a shadow build\<close>

text \<open>
  \<open>src/src/d3d9/war3/shadow/\<close>: \<open>war3_shadow_build_thread_gate.h\<close> (who may advance a build),
  \<open>war3_shadow_build_progress.h\<close> (the published summary and its generation guard),
  \<open>war3_shadow_build_lifecycle.h\<close> (work identity and the guarded entry points) and
  \<open>war3_shadow_geometry_domain.h\<close> (who may touch a registry slot). A work object is its address;
  the allocator may hand the same address out again.
\<close>

subsection \<open>The thread gate\<close>

datatype ShadowBuildAdvanceDecision = Allow | OwnerUnestablished | NotOwner

definition DecideShadowBuildAdvance :: "u32 \<Rightarrow> u32 \<Rightarrow> ShadowBuildAdvanceDecision" where
  "DecideShadowBuildAdvance ownerThreadId currentThreadId =
    (if ownerThreadId = 0 then OwnerUnestablished
     else if currentThreadId \<noteq> ownerThreadId then NotOwner
     else Allow)"

text \<open>The counters are optional pointers; None is a null pointer.\<close>

record ShadowBuildAdvanceCounters =
  bc_offThreadRefused :: "u64 option"
  bc_ownerUnestablishedRefused :: "u64 option"
  bc_directAdvanceRefused :: "u64 option"

definition bump :: "u64 option \<Rightarrow> u64 option" where
  "bump = map_option (\<lambda>n. n + 1)"

definition consumeAllowed ::
  "bool \<Rightarrow> u32 \<Rightarrow> u32 \<Rightarrow> ShadowBuildAdvanceCounters \<Rightarrow> bool \<times> ShadowBuildAdvanceCounters" where
  "consumeAllowed directEntry ownerThreadId currentThreadId counters =
    (let decision = DecideShadowBuildAdvance ownerThreadId currentThreadId
     in if decision = Allow then (True, counters)
        else
          let counters =
                (if decision = OwnerUnestablished
                 then counters\<lparr>bc_ownerUnestablishedRefused := bump (bc_ownerUnestablishedRefused counters)\<rparr>
                 else counters\<lparr>bc_offThreadRefused := bump (bc_offThreadRefused counters)\<rparr>);
              counters =
                (if directEntry
                 then counters\<lparr>bc_directAdvanceRefused := bump (bc_directAdvanceRefused counters)\<rparr>
                 else counters)
          in (False, counters))"

subsection \<open>The progress summary\<close>

record ShadowBuildProgressValues =
  pv_workGeneration :: u64
  pv_frameSerial :: u64
  pv_publishRevision :: u64
  pv_nextRecordIndex :: u64
  pv_recordCount :: u64
  pv_chunkCount :: u64
  pv_totalBuildDurationUs :: u64
  pv_drawCount :: u64

definition values_init :: ShadowBuildProgressValues where
  "values_init = \<lparr>pv_workGeneration = 0, pv_frameSerial = 0, pv_publishRevision = 0,
     pv_nextRecordIndex = 0, pv_recordCount = 0, pv_chunkCount = 0, pv_totalBuildDurationUs = 0,
     pv_drawCount = 0\<rparr>"

record ShadowBuildProgressState =
  pg_generation :: u64
  pg_building :: bool
  pg_hasValues :: bool
  pg_values :: ShadowBuildProgressValues

definition progress_init :: ShadowBuildProgressState where
  "progress_init = \<lparr>pg_generation = 0, pg_building = False, pg_hasValues = False, pg_values = values_init\<rparr>"

definition BumpGeneration :: "ShadowBuildProgressState \<Rightarrow> ShadowBuildProgressState" where
  "BumpGeneration p =
    (let p = p\<lparr>pg_generation := pg_generation p + 1\<rparr>
     in if pg_generation p = 0 then p\<lparr>pg_generation := pg_generation p + 1\<rparr> else p)"

definition BeginBuild :: "u64 \<Rightarrow> u64 \<Rightarrow> ShadowBuildProgressState \<Rightarrow> u64 \<times> ShadowBuildProgressState" where
  "BeginBuild frameSerial publishRevision p =
    (let p = BumpGeneration p
     in (pg_generation p,
         p\<lparr>pg_building := True, pg_hasValues := False,
           pg_values := values_init\<lparr>pv_workGeneration := pg_generation p,
             pv_frameSerial := frameSerial, pv_publishRevision := publishRevision\<rparr>\<rparr>))"

definition Publish ::
  "u64 \<Rightarrow> ShadowBuildProgressValues \<Rightarrow> ShadowBuildProgressState \<Rightarrow> bool \<times> ShadowBuildProgressState" where
  "Publish generation values p =
    (if \<not> pg_building p \<or> generation = 0 \<or> generation \<noteq> pg_generation p then (False, p)
     else (True, p\<lparr>pg_values := values\<lparr>pv_workGeneration := generation\<rparr>, pg_hasValues := True\<rparr>))"

definition Complete :: "u64 \<Rightarrow> ShadowBuildProgressState \<Rightarrow> bool \<times> ShadowBuildProgressState" where
  "Complete generation p =
    (if \<not> pg_building p \<or> generation = 0 \<or> generation \<noteq> pg_generation p then (False, p)
     else (True, p\<lparr>pg_building := False\<rparr>))"

definition Cancel :: "u64 \<Rightarrow> ShadowBuildProgressState \<Rightarrow> bool \<times> ShadowBuildProgressState" where
  "Cancel generation p = Complete generation p"

definition ResetProgress :: "ShadowBuildProgressState \<Rightarrow> ShadowBuildProgressState" where
  "ResetProgress p =
    (BumpGeneration p)\<lparr>pg_building := False, pg_hasValues := False, pg_values := values_init\<rparr>"

definition progressHasValues :: "ShadowBuildProgressState \<Rightarrow> bool" where
  "progressHasValues p \<longleftrightarrow> pg_building p \<and> pg_hasValues p"

subsection \<open>The lifecycle\<close>

record ShadowBuildLifecycle =
  lf_currentWork :: u32
  lf_progress :: ShadowBuildProgressState

definition lifecycle_init :: ShadowBuildLifecycle where
  "lifecycle_init = \<lparr>lf_currentWork = 0, lf_progress = progress_init\<rparr>"

definition beginBuild :: "u32 \<Rightarrow> u64 \<Rightarrow> u64 \<Rightarrow> ShadowBuildLifecycle \<Rightarrow> u64 \<times> ShadowBuildLifecycle" where
  "beginBuild work frameSerial publishRevision s =
    (case BeginBuild frameSerial publishRevision (lf_progress s) of
       (generation, p) \<Rightarrow> (generation, s\<lparr>lf_currentWork := work, lf_progress := p\<rparr>))"

definition isCurrent :: "u32 \<Rightarrow> u64 \<Rightarrow> ShadowBuildLifecycle \<Rightarrow> bool" where
  "isCurrent work generation s \<longleftrightarrow>
     work \<noteq> 0 \<and> work = lf_currentWork s \<and> generation \<noteq> 0 \<and>
     generation = pg_generation (lf_progress s) \<and> pg_building (lf_progress s)"

definition onProgress ::
  "(ShadowBuildProgressState \<Rightarrow> bool \<times> ShadowBuildProgressState) \<Rightarrow> ShadowBuildLifecycle \<Rightarrow>
    bool \<times> ShadowBuildLifecycle" where
  "onProgress f s = (case f (lf_progress s) of (r, p) \<Rightarrow> (r, s\<lparr>lf_progress := p\<rparr>))"

definition publishIfCurrent ::
  "u32 \<Rightarrow> u64 \<Rightarrow> ShadowBuildProgressValues \<Rightarrow> ShadowBuildLifecycle \<Rightarrow> bool \<times> ShadowBuildLifecycle" where
  "publishIfCurrent work generation values s =
    (if \<not> isCurrent work generation s then (False, s) else onProgress (Publish generation values) s)"

definition completeIfCurrent :: "u32 \<Rightarrow> u64 \<Rightarrow> ShadowBuildLifecycle \<Rightarrow> bool \<times> ShadowBuildLifecycle" where
  "completeIfCurrent work generation s =
    (if \<not> isCurrent work generation s then (False, s) else onProgress (Complete generation) s)"

definition cancelIfCurrent :: "u32 \<Rightarrow> u64 \<Rightarrow> ShadowBuildLifecycle \<Rightarrow> bool \<times> ShadowBuildLifecycle" where
  "cancelIfCurrent work generation s =
    (if \<not> isCurrent work generation s then (False, s) else onProgress (Cancel generation) s)"

definition reset :: "ShadowBuildLifecycle \<Rightarrow> ShadowBuildLifecycle" where
  "reset s = s\<lparr>lf_currentWork := 0, lf_progress := ResetProgress (lf_progress s)\<rparr>"

subsection \<open>The owner of a registry slot\<close>

datatype ShadowGeometryDomain = Generic | S1Terrain | Stage13Exact

definition ShadowGeometryDomainTag :: "ShadowGeometryDomain \<Rightarrow> u32" where
  "ShadowGeometryDomainTag domain =
    (case domain of Generic \<Rightarrow> 0 | S1Terrain \<Rightarrow> 0x53310001 | Stage13Exact \<Rightarrow> 0x53314301)"

definition kShadowGeometryDomainCount :: u32 where
  "kShadowGeometryDomainCount = 3"

definition ShadowGeometryDomainIndex :: "ShadowGeometryDomain \<Rightarrow> u32" where
  "ShadowGeometryDomainIndex domain = (case domain of Generic \<Rightarrow> 0 | S1Terrain \<Rightarrow> 1 | Stage13Exact \<Rightarrow> 2)"

datatype ShadowGeometryOwnerDecision = Accept | DomainMismatch | GeometryMismatch

definition DecideShadowGeometryOwner ::
  "ShadowGeometryDomain \<Rightarrow> u32 \<Rightarrow> ShadowGeometryDomain \<Rightarrow> u32 \<Rightarrow> ShadowGeometryOwnerDecision" where
  "DecideShadowGeometryOwner expectedDomain expectedGeometryId entryDomain entryGeometryId =
    (if expectedDomain \<noteq> entryDomain then DomainMismatch
     else if expectedGeometryId \<noteq> 0 \<and> expectedGeometryId \<noteq> entryGeometryId then GeometryMismatch
     else Accept)"

definition ShadowGeometryOwnerAccepts ::
  "ShadowGeometryDomain \<Rightarrow> u32 \<Rightarrow> ShadowGeometryDomain \<Rightarrow> u32 \<Rightarrow> bool" where
  "ShadowGeometryOwnerAccepts expectedDomain expectedGeometryId entryDomain entryGeometryId \<longleftrightarrow>
     DecideShadowGeometryOwner expectedDomain expectedGeometryId entryDomain entryGeometryId = Accept"

text \<open>
  The tags tell the domains apart and the indices address the accounts; a slot is touched only
  within its own domain, and under a named geometry only by that geometry.
\<close>

lemma geometry_domain_identity:
  "ShadowGeometryDomainTag a = ShadowGeometryDomainTag b \<longleftrightarrow> a = b"
  "ShadowGeometryDomainIndex a = ShadowGeometryDomainIndex b \<longleftrightarrow> a = b"
  "ShadowGeometryDomainIndex a < kShadowGeometryDomainCount"
  by (cases a; cases b; simp add: ShadowGeometryDomainTag_def ShadowGeometryDomainIndex_def
      kShadowGeometryDomainCount_def)+

lemma geometry_owner_unique:
  "ShadowGeometryOwnerAccepts a i c k \<Longrightarrow> ShadowGeometryOwnerAccepts b j c k \<Longrightarrow> i \<noteq> 0 \<Longrightarrow> j \<noteq> 0 \<Longrightarrow> a = b \<and> i = j"
  by (auto simp: ShadowGeometryOwnerAccepts_def DecideShadowGeometryOwner_def split: if_splits)

subsection \<open>Runs\<close>

datatype build_op =
    Begin u32 u64 u64
  | PublishOp u32 u64 ShadowBuildProgressValues
  | CompleteOp u32 u64
  | CancelOp u32 u64
  | ResetOp

fun build_step :: "build_op \<Rightarrow> ShadowBuildLifecycle \<Rightarrow> ShadowBuildLifecycle" where
  "build_step (Begin work frameSerial publishRevision) s = snd (beginBuild work frameSerial publishRevision s)"
| "build_step (PublishOp work generation values) s = snd (publishIfCurrent work generation values s)"
| "build_step (CompleteOp work generation) s = snd (completeIfCurrent work generation s)"
| "build_step (CancelOp work generation) s = snd (cancelIfCurrent work generation s)"
| "build_step ResetOp s = reset s"

fun renews :: "build_op \<Rightarrow> bool" where
  "renews (Begin work frameSerial publishRevision) = True"
| "renews ResetOp = True"
| "renews oper = False"

fun ends :: "u32 \<Rightarrow> u64 \<Rightarrow> build_op \<Rightarrow> bool" where
  "ends w g (CompleteOp work generation) \<longleftrightarrow> work = w \<and> generation = g"
| "ends w g (CancelOp work generation) \<longleftrightarrow> work = w \<and> generation = g"
| "ends w g oper \<longleftrightarrow> False"

definition renewals :: "build_op list \<Rightarrow> nat" where
  "renewals ops = length (filter renews ops)"

subsection \<open>The generation never returns within a cycle\<close>

abbreviation generationOf :: "ShadowBuildLifecycle \<Rightarrow> u64" where
  "generationOf s \<equiv> pg_generation (lf_progress s)"

abbreviation buildingOf :: "ShadowBuildLifecycle \<Rightarrow> bool" where
  "buildingOf s \<equiv> pg_building (lf_progress s)"

definition cycleLength :: nat where
  "cycleLength = 2 ^ 64 - 1"

lemma generation_range:
  fixes g :: u64
  assumes "g \<noteq> 0" shows "unat g - 1 < cycleLength" and "unat g - 1 + 1 = unat g"
proof -
  have "0 < unat g" using assms by (simp add: unat_gt_0)
  moreover have "unat g < cycleLength + 1"
    using unat_u64_bound [of g] unfolding cycleLength_def by (rule order_less_le_trans) simp
  ultimately show "unat g - 1 < cycleLength" "unat g - 1 + 1 = unat g" by linarith+
qed

lemma bump_generation: "pg_generation (BumpGeneration p) = (if pg_generation p + 1 = 0 then 1 else pg_generation p + 1)"
  by (simp add: BumpGeneration_def Let_def)

lemma bump_nonzero: "pg_generation (BumpGeneration p) \<noteq> 0"
  by (simp add: bump_generation)

lemma bump_nat:
  "unat (pg_generation (BumpGeneration p)) = unat (pg_generation p) mod cycleLength + 1"
proof (cases "pg_generation p + 1 = 0")
  case True
  then have "pg_generation p = UINT64_MAX" by (simp add: add_eq_0_iff2)
  then show ?thesis by (simp add: bump_generation cycleLength_def)
next
  case False
  then have u: "unat (pg_generation p + 1) = unat (pg_generation p) + 1"
    using unatSuc [of "pg_generation p"] by (simp add: add.commute)
  have "unat (pg_generation p + 1) < 18446744073709551616" by simp
  with u have "unat (pg_generation p) < cycleLength" by (simp add: cycleLength_def)
  with u False show ?thesis by (simp add: bump_generation)
qed

lemma step_generation:
  "generationOf (build_step oper s) = (if renews oper then pg_generation (BumpGeneration (lf_progress s)) else generationOf s)"
  by (cases oper) (simp_all add: beginBuild_def BeginBuild_def publishIfCurrent_def completeIfCurrent_def
      cancelIfCurrent_def Cancel_def onProgress_def Publish_def Complete_def reset_def ResetProgress_def Let_def)

lemma renewals_snoc: "renewals (ops @ [oper]) = renewals ops + (if renews oper then 1 else 0)"
  by (simp add: renewals_def)

lemma run_generation:
  assumes "generationOf s \<noteq> 0"
  shows "unat (generationOf (fold build_step ops s)) = (unat (generationOf s) - 1 + renewals ops) mod cycleLength + 1"
proof (induction ops rule: rev_induct)
  case Nil
  then show ?case using generation_range [OF assms] by (simp add: renewals_def)
next
  case (snoc oper ops)
  then show ?case
    by (simp add: step_generation renewals_snoc bump_nat mod_Suc_eq)
qed

lemma generation_back_only_at_start:
  assumes g: "generationOf s \<noteq> 0" and few: "renewals ops < cycleLength"
    and same: "generationOf (fold build_step ops s) = generationOf s"
  shows "renewals ops = 0"
proof -
  define k where "k = unat (generationOf s) - 1"
  have k: "k < cycleLength" "unat (generationOf s) = k + 1"
    using generation_range [OF g] by (simp_all add: k_def)
  from run_generation [OF g, of ops] same k have m: "(k + renewals ops) mod cycleLength = k" by simp
  show ?thesis
  proof (cases "k + renewals ops < cycleLength")
    case True
    with m show ?thesis by simp
  next
    case False
    with few k have "(k + renewals ops) mod cycleLength = k + renewals ops - cycleLength"
      by (simp add: le_mod_geq)
    with m few False show ?thesis by simp
  qed
qed

subsection \<open>A build stays current until it is ended or renewed\<close>

lemma step_quiet:
  assumes "\<not> renews oper"
  shows "lf_currentWork (build_step oper s) = lf_currentWork s"
    and "buildingOf (build_step oper s) \<longleftrightarrow>
      buildingOf s \<and> \<not> (ends (lf_currentWork s) (generationOf s) oper \<and> lf_currentWork s \<noteq> 0 \<and> generationOf s \<noteq> 0)"
  using assms
  by (cases oper; auto simp: publishIfCurrent_def completeIfCurrent_def cancelIfCurrent_def Cancel_def
      onProgress_def Publish_def Complete_def isCurrent_def)+

lemma run_quiet:
  assumes "renewals ops = 0" and "lf_currentWork s = w" "generationOf s = g" "w \<noteq> 0" "g \<noteq> 0"
  shows "lf_currentWork (fold build_step ops s) = w \<and> generationOf (fold build_step ops s) = g \<and>
    (buildingOf (fold build_step ops s) \<longleftrightarrow> buildingOf s \<and> (\<forall>oper \<in> set ops. \<not> ends w g oper))"
  using assms(1)
proof (induction ops rule: rev_induct)
  case (snoc oper ops)
  then have q: "\<not> renews oper" "renewals ops = 0" by (auto simp: renewals_snoc split: if_splits)
  from snoc.IH [OF q(2)] step_quiet [OF q(1), of "fold build_step ops s"] step_generation [of oper "fold build_step ops s"]
  show ?case using assms q(1) by auto
qed (use assms in simp)

lemma begin_facts:
  "fst (beginBuild w f r s) = generationOf (snd (beginBuild w f r s))"
  "fst (beginBuild w f r s) \<noteq> 0" "lf_currentWork (snd (beginBuild w f r s)) = w" "buildingOf (snd (beginBuild w f r s))"
  by (simp_all add: beginBuild_def BeginBuild_def Let_def bump_nonzero)

lemma current_iff:
  fixes w f r s ops
  defines "g \<equiv> fst (beginBuild w f r s)" and "s' \<equiv> fold build_step ops (snd (beginBuild w f r s))"
  assumes few: "renewals ops < cycleLength"
  shows "isCurrent w g s' \<longleftrightarrow> w \<noteq> 0 \<and> renewals ops = 0 \<and> (\<forall>oper \<in> set ops. \<not> ends w g oper)"
proof (cases "w \<noteq> 0 \<and> renewals ops = 0")
  case True
  then have w: "w \<noteq> 0" and q: "renewals ops = 0" by simp_all
  from run_quiet [OF q begin_facts(3) begin_facts(1) [symmetric] w begin_facts(2)] begin_facts(4) [of w f r s]
  show ?thesis using True begin_facts(2) [of w f r s] by (simp add: isCurrent_def s'_def g_def)
next
  case False
  have "generationOf (snd (beginBuild w f r s)) \<noteq> 0" using begin_facts(1,2) [of w f r s] by simp
  from generation_back_only_at_start [OF this few] False show ?thesis
    by (auto simp: isCurrent_def s'_def g_def begin_facts(1))
qed

lemma publish_result:
  "isCurrent w g s \<Longrightarrow> publishIfCurrent w g v s =
     (True, s\<lparr>lf_progress := (lf_progress s)\<lparr>pg_values := v\<lparr>pv_workGeneration := g\<rparr>, pg_hasValues := True\<rparr>\<rparr>)"
  "\<not> isCurrent w g s \<Longrightarrow> publishIfCurrent w g v s = (False, s)"
  "fst (completeIfCurrent w g s) = isCurrent w g s"
  "fst (cancelIfCurrent w g s) = isCurrent w g s"
  by (auto simp: publishIfCurrent_def completeIfCurrent_def cancelIfCurrent_def Cancel_def onProgress_def
      Publish_def Complete_def isCurrent_def)

text \<open>
  C33. A build may publish, complete or cancel exactly while it is the current one: from any state,
  after it began and whatever happened since (fewer than 2 ^ 64 - 1 new builds and resets), its
  publication is accepted exactly when its work is not null, no other build began, nothing was
  reset and nobody completed or cancelled it, even when the allocator handed its address to
  a later build. An accepted publication makes exactly its values visible under its
  generation; a refused one changes nothing.
\<close>

theorem only_the_current_build_publishes:
  fixes w f r s ops v
  defines "g \<equiv> fst (beginBuild w f r s)" and "s' \<equiv> fold build_step ops (snd (beginBuild w f r s))"
  assumes few: "renewals ops < 2 ^ 64 - 1"
  shows "(fst (publishIfCurrent w g v s') \<longleftrightarrow> w \<noteq> 0 \<and> renewals ops = 0 \<and> (\<forall>oper \<in> set ops. \<not> ends w g oper)) \<and>
    fst (completeIfCurrent w g s') = fst (publishIfCurrent w g v s') \<and>
    fst (cancelIfCurrent w g s') = fst (publishIfCurrent w g v s') \<and>
    (if fst (publishIfCurrent w g v s')
     then pg_values (lf_progress (snd (publishIfCurrent w g v s'))) = v\<lparr>pv_workGeneration := g\<rparr> \<and>
       progressHasValues (lf_progress (snd (publishIfCurrent w g v s')))
     else snd (publishIfCurrent w g v s') = s')"
proof -
  have iff: "isCurrent w g s' \<longleftrightarrow> w \<noteq> 0 \<and> renewals ops = 0 \<and> (\<forall>oper \<in> set ops. \<not> ends w g oper)"
    unfolding g_def s'_def by (rule current_iff) (use few in \<open>simp add: cycleLength_def\<close>)
  show ?thesis
  proof (cases "isCurrent w g s'")
    case True
    then have "buildingOf s'" by (simp add: isCurrent_def)
    with True iff show ?thesis by (simp add: publish_result progressHasValues_def)
  next
    case False
    with iff show ?thesis by (simp add: publish_result)
  qed
qed

lemma only_the_current_build_publishes_witness:
  "fst (publishIfCurrent 4096 1 values_init (fold build_step [PublishOp 4096 1 values_init] (snd (beginBuild 4096 7 1 lifecycle_init)))) \<and>
   \<not> fst (publishIfCurrent 4096 1 values_init (fold build_step [ResetOp, Begin 4096 8 1] (snd (beginBuild 4096 7 1 lifecycle_init))))"
proof -
  have g: "fst (beginBuild 4096 7 1 lifecycle_init) = 1" by code_simp
  have few: "renewals [PublishOp 4096 1 values_init] < 2 ^ 64 - 1" "renewals [ResetOp, Begin 4096 8 1] < 2 ^ 64 - 1"
    by (simp_all add: renewals_def)
  have n: "renewals [PublishOp 4096 1 values_init] = 0" "renewals [ResetOp, Begin 4096 8 1] \<noteq> 0"
    by (simp_all add: renewals_def)
  from only_the_current_build_publishes [OF few(1), of 4096 7 1 lifecycle_init values_init]
    only_the_current_build_publishes [OF few(2), of 4096 7 1 lifecycle_init values_init]
  show ?thesis using n by (simp add: g)
qed

end
