(* ===== verification/StreamStability.thy ===== *)
theory StreamStability
  imports War3Prelude "HOL-Library.AList"
begin

section \<open>Stable sources\<close>

text \<open>
  \<open>src/src/d3d9/war3/render/war3_shadow_generation_backed_stream.h\<close>: the identity of a source
  range by owner and generations, and the probation a geometry passes before it is kept across
  frames: the same identity on adjacent observed frames. The observation clock turns the sparse
  serials of the frames that produced anything into adjacent ones.
\<close>

datatype War3ShadowStreamKind = StreamPosition | StreamUv | StreamIndex

record War3ShadowGenerationBackedStreamProof =
  sq_ownerIdentity :: u32
  sq_identityGeneration :: u64
  sq_allocationGeneration :: u64
  sq_contentGeneration :: u64
  sq_sourceOffset :: u64
  sq_sourceLength :: u64
  sq_elementStride :: u32
  sq_elementSize :: u32
  sq_mapEpoch :: u64
  sq_deviceEpoch :: u64
  sq_streamKind :: War3ShadowStreamKind

definition stream_init :: War3ShadowGenerationBackedStreamProof where
  "stream_init = \<lparr>sq_ownerIdentity = 0, sq_identityGeneration = 0, sq_allocationGeneration = 0,
     sq_contentGeneration = 0, sq_sourceOffset = 0, sq_sourceLength = 0, sq_elementStride = 0,
     sq_elementSize = 0, sq_mapEpoch = 0, sq_deviceEpoch = 0, sq_streamKind = StreamPosition\<rparr>"

definition stream_valid :: "War3ShadowGenerationBackedStreamProof \<Rightarrow> bool" where
  "stream_valid p \<longleftrightarrow>
     sq_ownerIdentity p \<noteq> 0 \<and> sq_identityGeneration p \<noteq> 0 \<and>
     sq_allocationGeneration p \<noteq> 0 \<and> sq_contentGeneration p \<noteq> 0 \<and>
     sq_sourceLength p \<noteq> 0 \<and> sq_elementStride p \<noteq> 0 \<and> sq_elementSize p \<noteq> 0 \<and>
     sq_elementSize p \<le> sq_elementStride p \<and> sq_mapEpoch p \<noteq> 0 \<and> sq_deviceEpoch p \<noteq> 0"

definition stream_matches ::
  "War3ShadowGenerationBackedStreamProof \<Rightarrow> War3ShadowGenerationBackedStreamProof \<Rightarrow> bool" where
  "stream_matches p q \<longleftrightarrow>
     stream_valid p \<and> stream_valid q \<and>
     sq_ownerIdentity p = sq_ownerIdentity q \<and>
     sq_identityGeneration p = sq_identityGeneration q \<and>
     sq_allocationGeneration p = sq_allocationGeneration q \<and>
     sq_contentGeneration p = sq_contentGeneration q \<and>
     sq_sourceOffset p = sq_sourceOffset q \<and>
     sq_sourceLength p = sq_sourceLength q \<and>
     sq_elementStride p = sq_elementStride q \<and>
     sq_elementSize p = sq_elementSize q \<and>
     sq_mapEpoch p = sq_mapEpoch q \<and> sq_deviceEpoch p = sq_deviceEpoch q \<and>
     sq_streamKind p = sq_streamKind q"

record War3ShadowGenerationBackedGeometryProof =
  gq_position :: War3ShadowGenerationBackedStreamProof
  gq_index :: War3ShadowGenerationBackedStreamProof
  gq_indexed :: bool

definition geometry_init :: War3ShadowGenerationBackedGeometryProof where
  "geometry_init = \<lparr>gq_position = stream_init, gq_index = stream_init, gq_indexed = False\<rparr>"

definition geometry_valid :: "War3ShadowGenerationBackedGeometryProof \<Rightarrow> bool" where
  "geometry_valid g \<longleftrightarrow>
     stream_valid (gq_position g) \<and> sq_streamKind (gq_position g) = StreamPosition \<and>
     (\<not> gq_indexed g \<or> (stream_valid (gq_index g) \<and> sq_streamKind (gq_index g) = StreamIndex))"

definition geometry_matches ::
  "War3ShadowGenerationBackedGeometryProof \<Rightarrow> War3ShadowGenerationBackedGeometryProof \<Rightarrow> bool" where
  "geometry_matches g h \<longleftrightarrow>
     geometry_valid g \<and> geometry_valid h \<and> gq_indexed g = gq_indexed h \<and>
     stream_matches (gq_position g) (gq_position h) \<and>
     (\<not> gq_indexed g \<or> stream_matches (gq_index g) (gq_index h))"

record War3ShadowGenerationStabilityState =
  gs_proof :: War3ShadowGenerationBackedGeometryProof
  gs_lastObservedFrame :: u64
  gs_distinctStableFrames :: u32

definition stability_init :: War3ShadowGenerationStabilityState where
  "stability_init = \<lparr>gs_proof = geometry_init, gs_lastObservedFrame = 0, gs_distinctStableFrames = 0\<rparr>"

subsection \<open>The observation clock\<close>

record War3ShadowGenerationObservationClock =
  cl_sourceFrameSerial :: u64
  cl_observationFrameSerial :: u64

definition clock_init :: War3ShadowGenerationObservationClock where
  "clock_init = \<lparr>cl_sourceFrameSerial = 0, cl_observationFrameSerial = 0\<rparr>"

definition AdvanceWar3ShadowGenerationObservationClock ::
  "u64 \<Rightarrow> War3ShadowGenerationObservationClock \<Rightarrow> u64 \<times> War3ShadowGenerationObservationClock" where
  "AdvanceWar3ShadowGenerationObservationClock sourceFrameSerial clock =
    (if sourceFrameSerial = 0 then (0, clock)
     else if cl_sourceFrameSerial clock = sourceFrameSerial
     then (cl_observationFrameSerial clock, clock)
     else
       let clock = clock\<lparr>cl_sourceFrameSerial := sourceFrameSerial\<rparr>;
           clock = (if cl_observationFrameSerial clock \<noteq> UINT64_MAX
                    then clock\<lparr>cl_observationFrameSerial := cl_observationFrameSerial clock + 1\<rparr>
                    else clock)
       in (cl_observationFrameSerial clock, clock))"

subsection \<open>Observing a source\<close>

datatype War3ShadowGenerationObservation =
  ObservedInvalid | ObservedFirst | ObservedSameFrame | ObservedAdvanced | ObservedChanged
  | ObservedStaleRestart

record War3ShadowGenerationObservationResult =
  or_observation :: War3ShadowGenerationObservation
  or_promotionReady :: bool

definition restartStability ::
  "War3ShadowGenerationBackedGeometryProof \<Rightarrow> u64 \<Rightarrow> u32 \<Rightarrow> War3ShadowGenerationObservation \<Rightarrow>
    War3ShadowGenerationStabilityState \<Rightarrow>
    War3ShadowGenerationObservationResult \<times> War3ShadowGenerationStabilityState" where
  "restartStability source frameSerial requiredDistinctFrames observation state =
    (\<lparr>or_observation = observation, or_promotionReady = (requiredDistinctFrames \<le> 1)\<rparr>,
     state\<lparr>gs_proof := source, gs_lastObservedFrame := frameSerial, gs_distinctStableFrames := 1\<rparr>)"

definition ObserveWar3ShadowGenerationStability ::
  "War3ShadowGenerationBackedGeometryProof \<Rightarrow> u64 \<Rightarrow> u32 \<Rightarrow> War3ShadowGenerationStabilityState \<Rightarrow>
    War3ShadowGenerationObservationResult \<times> War3ShadowGenerationStabilityState" where
  "ObserveWar3ShadowGenerationStability source frameSerial requiredDistinctFrames state =
    (if \<not> geometry_valid source \<or> frameSerial = 0 \<or> requiredDistinctFrames = 0
     then (\<lparr>or_observation = ObservedInvalid, or_promotionReady = False\<rparr>, state)
     else if \<not> geometry_valid (gs_proof state) \<or> gs_lastObservedFrame state = 0
     then restartStability source frameSerial requiredDistinctFrames ObservedFirst state
     else if \<not> geometry_matches (gs_proof state) source
     then restartStability source frameSerial requiredDistinctFrames ObservedChanged state
     else if frameSerial = gs_lastObservedFrame state
     then (\<lparr>or_observation = ObservedSameFrame,
            or_promotionReady = (gs_distinctStableFrames state \<ge> requiredDistinctFrames)\<rparr>, state)
     else if frameSerial \<noteq> gs_lastObservedFrame state + 1
     then restartStability source frameSerial requiredDistinctFrames ObservedStaleRestart state
     else
       let state = state\<lparr>gs_lastObservedFrame := frameSerial\<rparr>;
           state = (if gs_distinctStableFrames state \<noteq> UINT32_MAX
                    then state\<lparr>gs_distinctStableFrames := gs_distinctStableFrames state + 1\<rparr>
                    else state)
       in (\<lparr>or_observation = ObservedAdvanced,
            or_promotionReady = (gs_distinctStableFrames state \<ge> requiredDistinctFrames)\<rparr>, state))"

subsection \<open>The table of observed sources\<close>

text \<open>
  \<open>D3D9DeviceEx\<close> keeps one stability state per observation key, at most 16384 of them, and
  collects them once every 120 frames. The key is a hash of the identity, topology and matrix of
  the draw; the maximal age comes from the environment.
\<close>

record War3S1GenerationProofObservationEntry =
  oe_state :: War3ShadowGenerationStabilityState
  oe_lastSeenFrame :: u64

record S1Observations =
  so_frameSerial :: u64
  so_observations :: "(u64 \<times> War3S1GenerationProofObservationEntry) list"
  so_clock :: War3ShadowGenerationObservationClock
  so_lastGcFrame :: u64

definition kMaxS1GenerationProofObservations :: nat where
  "kMaxS1GenerationProofObservations = 16384"

definition observeS1Generation ::
  "u64 \<Rightarrow> War3ShadowGenerationBackedGeometryProof \<Rightarrow> S1Observations \<Rightarrow> bool \<times> S1Observations" where
  "observeS1Generation key source w =
    (if geometry_valid source \<and>
        (map_of (so_observations w) key \<noteq> None \<or>
         length (so_observations w) < kMaxS1GenerationProofObservations)
     then
       let entry = (case map_of (so_observations w) key of
                      Some e \<Rightarrow> e
                    | None \<Rightarrow> \<lparr>oe_state = stability_init, oe_lastSeenFrame = 0\<rparr>);
           (frame, clock) = AdvanceWar3ShadowGenerationObservationClock (so_frameSerial w + 1) (so_clock w);
           (result, state) = ObserveWar3ShadowGenerationStability source frame 2 (oe_state entry);
           entry = \<lparr>oe_state = state, oe_lastSeenFrame = frame\<rparr>
       in (or_promotionReady result,
           w\<lparr>so_observations := AList.update key entry (so_observations w), so_clock := clock\<rparr>)
     else (False, w))"

definition War3GcS1GenerationProofObservations :: "u64 \<Rightarrow> S1Observations \<Rightarrow> S1Observations" where
  "War3GcS1GenerationProofObservations maxAge w =
    (let currentFrame = so_frameSerial w
     in if currentFrame < so_lastGcFrame w \<or> currentFrame - so_lastGcFrame w < 120 then w
        else w\<lparr>so_lastGcFrame := currentFrame,
               so_observations := filter
                 (\<lambda>(k, e). \<not> (oe_lastSeenFrame e < currentFrame \<and>
                              maxAge < currentFrame - oe_lastSeenFrame e))
                 (so_observations w)\<rparr>)"

definition presentS1 :: "u64 \<Rightarrow> S1Observations \<Rightarrow> S1Observations" where
  "presentS1 maxAge w =
    War3GcS1GenerationProofObservations maxAge (w\<lparr>so_frameSerial := so_frameSerial w + 1\<rparr>)"

subsection \<open>The counter counts adjacent observed frames\<close>

text \<open>
  A history is the list of observations of one source, newest first.
\<close>

type_synonym observation = "War3ShadowGenerationBackedGeometryProof \<times> u64"

fun observed ::
  "u32 \<Rightarrow> observation list \<Rightarrow>
    War3ShadowGenerationObservationResult \<times> War3ShadowGenerationStabilityState" where
  "observed required [] = (\<lparr>or_observation = ObservedInvalid, or_promotionReady = False\<rparr>, stability_init)"
| "observed required (v # h) =
    ObserveWar3ShadowGenerationStability (fst v) (snd v) required (snd (observed required h))"

definition admissible :: "observation \<Rightarrow> bool" where
  "admissible v \<longleftrightarrow> geometry_valid (fst v) \<and> snd v \<noteq> 0"

definition linked :: "observation \<Rightarrow> observation \<Rightarrow> bool" where
  "linked later earlier \<longleftrightarrow>
     geometry_matches (fst earlier) (fst later) \<and>
     (snd later = snd earlier \<or> snd later = snd earlier + 1)"

fun unbroken :: "observation list \<Rightarrow> bool" where
  "unbroken [] = True"
| "unbroken [a] = True"
| "unbroken (a # b # h) = (linked a b \<and> unbroken (b # h))"

fun streak :: "observation list \<Rightarrow> nat" where
  "streak [] = 0"
| "streak [a] = 1"
| "streak (a # b # h) =
    (if linked a b then (if snd a = snd b then streak (b # h) else Suc (streak (b # h))) else 1)"

lemma unat_add_1: "(x :: 'a::len word) + 1 \<noteq> 0 \<Longrightarrow> unat (x + 1) = Suc (unat x)"
  by (metis add.commute unatSuc)

lemma streak_pos: "h \<noteq> [] \<Longrightarrow> 0 < streak h"
  by (induction h rule: streak.induct) auto

lemma frame_step:
  assumes "linked a b" and "admissible a" and "snd a \<noteq> snd b"
  shows "unat (snd a) = Suc (unat (snd b))"
  using assms by (auto simp: linked_def admissible_def unat_add_1)

lemma unbroken_descends:
  assumes "unbroken h" and "list_all admissible h" and "n < length h"
  shows "unat (snd (h ! n)) \<le> unat (snd (hd h))"
  using assms
proof (induction h arbitrary: n rule: unbroken.induct)
  case (3 a b h)
  then show ?case
    using frame_step [of a b] by (cases n) (fastforce simp: le_SucI)+
qed auto

text \<open>The counter reaches a value iff an unbroken run of that many frames ends the history.\<close>

lemma streak_iff:
  assumes "list_all admissible h" and "h \<noteq> []"
  shows "k \<le> streak h \<longleftrightarrow>
    (\<exists>n < length h. unbroken (take (Suc n) h) \<and> k \<le> Suc (unat (snd (hd h)) - unat (snd (h ! n))))"
  using assms
proof (induction h arbitrary: k rule: streak.induct)
  case (3 a b h)
  note IH = "3.IH"
  have adm: "admissible a" "list_all admissible (b # h)" using "3.prems" by auto
  show ?case
  proof (cases "linked a b")
    case False
    have "\<not> unbroken (take (Suc (Suc n)) (a # b # h))" for n using False by simp
    then have "(\<exists>n < length (a # b # h). unbroken (take (Suc n) (a # b # h)) \<and>
        k \<le> Suc (unat (snd (hd (a # b # h))) - unat (snd ((a # b # h) ! n)))) \<longleftrightarrow> k \<le> 1"
      by (metis One_nat_def Suc_le_D diff_self_eq_0 length_greater_0_conv list.sel(1) list.simps(3)
          not0_implies_Suc nth_Cons_0 take_Suc_Cons take0 unbroken.simps(2))
    then show ?thesis using False by simp
  next
    case True
    define d where "d = (if snd a = snd b then 0 else 1 :: nat)"
    have a: "unat (snd a) = unat (snd b) + d"
      using frame_step [OF True adm(1)] by (auto simp: d_def)
    have s: "streak (a # b # h) = streak (b # h) + d" using True by (simp add: d_def)
    have low: "unbroken (take (Suc n) (b # h)) \<Longrightarrow> n < length (b # h) \<Longrightarrow>
        unat (snd ((b # h) ! n)) \<le> unat (snd b)" for n
      using unbroken_descends [of "take (Suc n) (b # h)" n] adm(2) nth_take [of n "Suc n" "b # h"]
      by (simp add: list_all_iff) (meson in_set_takeD)
    have ih: "j \<le> streak (b # h) \<longleftrightarrow>
        (\<exists>n < length (b # h). unbroken (take (Suc n) (b # h)) \<and>
           j \<le> Suc (unat (snd b) - unat (snd ((b # h) ! n))))" for j
      using IH True adm(2) by (cases "snd a = snd b") auto
    show ?thesis
    proof
      assume k: "k \<le> streak (a # b # h)"
      then have "k - d \<le> streak (b # h)" using s by simp
      then obtain n where n: "n < length (b # h)" "unbroken (take (Suc n) (b # h))"
        "k - d \<le> Suc (unat (snd b) - unat (snd ((b # h) ! n)))"
        using ih by blast
      have "k \<le> Suc (unat (snd a) - unat (snd ((a # b # h) ! Suc n)))"
        using n(3) low [OF n(2,1)] a by simp
      then show "\<exists>n < length (a # b # h). unbroken (take (Suc n) (a # b # h)) \<and>
          k \<le> Suc (unat (snd (hd (a # b # h))) - unat (snd ((a # b # h) ! n)))"
        using n(1,2) True by (intro exI [of _ "Suc n"]) simp
    next
      assume "\<exists>n < length (a # b # h). unbroken (take (Suc n) (a # b # h)) \<and>
          k \<le> Suc (unat (snd (hd (a # b # h))) - unat (snd ((a # b # h) ! n)))"
      then obtain n where n: "n < length (a # b # h)" "unbroken (take (Suc n) (a # b # h))"
        "k \<le> Suc (unat (snd a) - unat (snd ((a # b # h) ! n)))"
        by auto
      show "k \<le> streak (a # b # h)"
      proof (cases n)
        case 0
        then show ?thesis using n(3) streak_pos [of "a # b # h"] by simp
      next
        case (Suc m)
        have m: "m < length (b # h)" "unbroken (take (Suc m) (b # h))"
          using n(1,2) Suc True by simp_all
        have "k - d \<le> Suc (unat (snd b) - unat (snd ((b # h) ! m)))"
          using n(3) low [OF m(2,1)] a Suc by simp
        then have "k - d \<le> streak (b # h)" using ih m by blast
        then show ?thesis using s by simp
      qed
    qed
  qed
qed auto


subsection \<open>The state after a history\<close>

lemma geometry_matches_valid:
  "geometry_matches g h \<Longrightarrow> geometry_valid g" "geometry_matches g h \<Longrightarrow> geometry_valid h"
  by (simp_all add: geometry_matches_def)

lemma geometry_matches_refl: "geometry_valid g \<Longrightarrow> geometry_matches g g"
  by (auto simp: geometry_matches_def geometry_valid_def stream_matches_def)

lemma geometry_matches_sym: "geometry_matches g h \<Longrightarrow> geometry_matches h g"
  by (auto simp: geometry_matches_def stream_matches_def)

lemma geometry_matches_trans:
  "geometry_matches g h \<Longrightarrow> geometry_matches h k \<Longrightarrow> geometry_matches g k"
  by (auto simp: geometry_matches_def stream_matches_def)

lemma geometry_init_invalid [simp]: "\<not> geometry_valid geometry_init"
  by (simp add: geometry_valid_def geometry_init_def stream_valid_def stream_init_def)

definition tracks :: "War3ShadowGenerationStabilityState \<Rightarrow> observation list \<Rightarrow> bool" where
  "tracks s h \<longleftrightarrow>
     (if h = [] then s = stability_init
      else gs_lastObservedFrame s = snd (hd h) \<and> geometry_matches (gs_proof s) (fst (hd h)) \<and>
           unat (gs_distinctStableFrames s) = min 4294967295 (streak h))"

lemma observe_tracks:
  assumes s: "tracks s h" and adm: "list_all admissible h" and v: "admissible (p, f)" and r: "r \<noteq> 0"
  shows "tracks (snd (ObserveWar3ShadowGenerationStability p f r s)) ((p, f) # h) \<and>
    (or_promotionReady (fst (ObserveWar3ShadowGenerationStability p f r s)) \<longleftrightarrow>
       unat r \<le> streak ((p, f) # h))"
proof -
  have v': "geometry_valid p" "f \<noteq> 0" using v by (simp_all add: admissible_def)
  have r1: "r \<le> 1 \<longleftrightarrow> unat r \<le> 1" by (simp add: word_le_nat_alt)
  have restart: "tracks (snd (restartStability p f r x s)) ((p, f) # h) \<and>
      (or_promotionReady (fst (restartStability p f r x s)) \<longleftrightarrow> unat r \<le> streak ((p, f) # h))"
    if "streak ((p, f) # h) = 1" for x
    using that v' r1 by (simp add: restartStability_def tracks_def geometry_matches_refl)
  show ?thesis
  proof (cases h)
    case Nil
    then have "ObserveWar3ShadowGenerationStability p f r s = restartStability p f r ObservedFirst s"
      using s v' r by (simp add: ObserveWar3ShadowGenerationStability_def tracks_def stability_init_def)
    then show ?thesis using restart Nil by simp
  next
    case (Cons a t)
    have sa: "gs_lastObservedFrame s = snd a" "geometry_matches (gs_proof s) (fst a)"
        "unat (gs_distinctStableFrames s) = min 4294967295 (streak h)"
      using s Cons by (simp_all add: tracks_def)
    have a: "geometry_valid (gs_proof s)" "snd a \<noteq> 0"
      using sa(2) adm Cons by (auto simp: admissible_def geometry_matches_valid)
    have lk: "linked (p, f) a \<longleftrightarrow>
        geometry_matches (gs_proof s) p \<and> (f = snd a \<or> f = snd a + 1)"
    proof -
      have "geometry_matches (fst a) p \<longleftrightarrow> geometry_matches (gs_proof s) p"
        using sa(2) geometry_matches_sym geometry_matches_trans by meson
      then show ?thesis by (simp add: linked_def)
    qed
    have bound: "unat r \<le> min 4294967295 n \<longleftrightarrow> unat r \<le> n" for n
      using unat_u32_bound [of r] by linarith
    show ?thesis
    proof (cases "linked (p, f) a")
      case False
      then have "\<exists>x. ObserveWar3ShadowGenerationStability p f r s = restartStability p f r x s"
        using lk sa a v' r by (auto simp: ObserveWar3ShadowGenerationStability_def)
      then show ?thesis using restart False Cons by auto
    next
      case True
      then have m: "geometry_matches (gs_proof s) p" using lk by blast
      show ?thesis
      proof (cases "f = snd a")
        case same: True
        have "ObserveWar3ShadowGenerationStability p f r s =
            (\<lparr>or_observation = ObservedSameFrame,
              or_promotionReady = (r \<le> gs_distinctStableFrames s)\<rparr>, s)"
          using m same sa a v' r by (simp add: ObserveWar3ShadowGenerationStability_def)
        then show ?thesis
          using m same sa True Cons bound by (simp add: tracks_def word_le_nat_alt)
      next
        case other: False
        then have f: "f = snd a + 1" using True by (simp add: linked_def)
        define s' where "s' = (let q = s\<lparr>gs_lastObservedFrame := f\<rparr>
          in if gs_distinctStableFrames q \<noteq> UINT32_MAX
             then q\<lparr>gs_distinctStableFrames := gs_distinctStableFrames q + 1\<rparr> else q)"
        have obs: "ObserveWar3ShadowGenerationStability p f r s =
            (\<lparr>or_observation = ObservedAdvanced,
              or_promotionReady = (r \<le> gs_distinctStableFrames s')\<rparr>, s')"
          using m f other sa a v' r
          by (simp add: ObserveWar3ShadowGenerationStability_def s'_def Let_def)
        have fields: "gs_lastObservedFrame s' = f" "gs_proof s' = gs_proof s"
          by (simp_all add: s'_def Let_def)
        have st: "streak ((p, f) # h) = Suc (streak h)" using True other Cons by simp
        have "unat (gs_distinctStableFrames s') = min 4294967295 (Suc (streak h))"
        proof (cases "gs_distinctStableFrames s = UINT32_MAX")
          case True
          then show ?thesis using sa(3) by (simp add: s'_def Let_def)
        next
          case False
          then have "unat (gs_distinctStableFrames s) \<noteq> 4294967295"
            using unat_eq_iff [of "gs_distinctStableFrames s" UINT32_MAX] by simp
          moreover have "unat (gs_distinctStableFrames s + 1) = Suc (unat (gs_distinctStableFrames s))"
            using False by (intro unat_add_1) (simp add: add_eq_0_iff2)
          ultimately show ?thesis using False sa(3) by (simp add: s'_def Let_def min_def split: if_splits)
        qed
        then show ?thesis
          unfolding obs using fields m bound [of "Suc (streak h)"] st
          by (simp add: tracks_def word_le_nat_alt)
      qed
    qed
  qed
qed

lemma observed_tracks:
  assumes "r \<noteq> 0"
  shows "tracks (snd (observed r h)) (filter admissible h)"
proof (induction h)
  case Nil
  then show ?case by (simp add: tracks_def)
next
  case (Cons v h)
  show ?case
  proof (cases "admissible v")
    case True
    then show ?thesis
      using observe_tracks [OF Cons.IH, of "fst v" "snd v" r] assms
      by (simp add: list_all_iff del: streak.simps)
  next
    case False
    then have "snd (observed r (v # h)) = snd (observed r h)"
      by (auto simp: ObserveWar3ShadowGenerationStability_def admissible_def)
    then show ?thesis using Cons.IH False by simp
  qed
qed

lemma ready_iff_streak:
  assumes "r \<noteq> 0"
  shows "or_promotionReady (fst (observed r (v # h))) \<longleftrightarrow>
    admissible v \<and> unat r \<le> streak (v # filter admissible h)"
proof (cases "admissible v")
  case True
  then show ?thesis
    using observe_tracks [OF observed_tracks [OF assms, of h], of "fst v" "snd v" r] assms
    by (simp add: list_all_iff del: streak.simps)
next
  case False
  then show ?thesis by (auto simp: ObserveWar3ShadowGenerationStability_def admissible_def)
qed

text \<open>
  A source is reported ready for promotion exactly when the history of its admissible
  observations ends in an unbroken run, every observation matching the proof of the one before it
  on the same or the next frame, that spans at least the required number of frames.
\<close>

theorem promotion_needs_adjacent_frames:
  assumes "required \<noteq> 0"
  shows "or_promotionReady (fst (observed required (v # h))) \<longleftrightarrow>
    admissible v \<and>
    (\<exists>n < length (v # filter admissible h).
       unbroken (take (Suc n) (v # filter admissible h)) \<and>
       unat required \<le> Suc (unat (snd v) - unat (snd ((v # filter admissible h) ! n))))"
proof -
  have "admissible v \<Longrightarrow> list_all admissible (v # filter admissible h)"
    by (simp add: list_all_iff)
  from streak_iff [OF this, of "unat required"] show ?thesis
    unfolding ready_iff_streak [OF assms] by auto
qed

definition ex_stream :: "u64 \<Rightarrow> War3ShadowGenerationBackedGeometryProof" where
  "ex_stream content = \<lparr>gq_position = \<lparr>sq_ownerIdentity = 0x1000, sq_identityGeneration = 1,
     sq_allocationGeneration = 2, sq_contentGeneration = content, sq_sourceOffset = 64,
     sq_sourceLength = 320, sq_elementStride = 32, sq_elementSize = 12, sq_mapEpoch = 1,
     sq_deviceEpoch = 1, sq_streamKind = StreamPosition\<rparr>, gq_index = stream_init, gq_indexed = False\<rparr>"

lemma promotion_needs_adjacent_frames_witness:
  "or_promotionReady (fst (observed 2 [(ex_stream 3, 8), (ex_stream 3, 8), (ex_stream 3, 7)])) \<and>
   \<not> or_promotionReady (fst (observed 2 [(ex_stream 4, 8), (ex_stream 3, 7)]))"
proof -
  have "admissible (ex_stream 3, 8) \<and> admissible (ex_stream 3, 7) \<and> admissible (ex_stream 4, 8) \<and>
      linked (ex_stream 3, 8) (ex_stream 3, 8) \<and> linked (ex_stream 3, 8) (ex_stream 3, 7) \<and>
      \<not> linked (ex_stream 4, 8) (ex_stream 3, 7)"
    by code_simp
  note ex = this
  have "(2 :: u32) \<noteq> 0" by simp
  note iff = promotion_needs_adjacent_frames [OF this]
  have "unbroken (take (Suc 2) ((ex_stream 3, 8) # filter admissible [(ex_stream 3, 8), (ex_stream 3, 7)]))"
    using ex by (simp add: numeral_2_eq_2)
  then have "or_promotionReady (fst (observed 2 [(ex_stream 3, 8), (ex_stream 3, 8), (ex_stream 3, 7)]))"
    unfolding iff using ex by (intro conjI exI [of _ 2]) simp_all
  moreover have "\<not> or_promotionReady (fst (observed 2 [(ex_stream 4, 8), (ex_stream 3, 7)]))"
    unfolding iff using ex by (auto simp: less_Suc_eq nth_Cons split: nat.splits)
  ultimately show ?thesis by simp
qed

subsection \<open>Collection measures age against the wrong clock\<close>

text \<open>
  The collector subtracts the compressed observation serial of an entry from the render frame
  serial. Once the two clocks are further apart than the maximal age, the entry of a source that
  was drawn in the very frame being presented is erased, so its next observation starts over.
\<close>

theorem fresh_observation_is_collected:
  assumes keys: "distinct (map fst (so_observations w))" and valid: "geometry_valid source"
    and room: "length (so_observations w) < kMaxS1GenerationProofObservations"
    and clock: "cl_sourceFrameSerial (so_clock w) \<noteq> so_frameSerial w + 1" "so_frameSerial w \<noteq> UINT64_MAX"
      "cl_observationFrameSerial (so_clock w) \<noteq> UINT64_MAX"
    and due: "so_lastGcFrame w \<le> so_frameSerial w + 1" "120 \<le> so_frameSerial w + 1 - so_lastGcFrame w"
    and apart: "cl_observationFrameSerial (so_clock w) < so_frameSerial w"
      "maxAge < so_frameSerial w - cl_observationFrameSerial (so_clock w)"
  shows "map_of (so_observations (presentS1 maxAge (snd (observeS1Generation key source w)))) key = None"
proof -
  have frame: "so_frameSerial w + 1 \<noteq> 0" using clock(2) by (simp add: add_eq_0_iff2)
  have seen: "cl_observationFrameSerial (so_clock w) + 1 < so_frameSerial w + 1"
    using apart(1) clock(2,3) by (simp add: word_less_nat_alt unat_add_1 add_eq_0_iff2)
  define old where "old = (case map_of (so_observations w) key of
      Some e \<Rightarrow> e | None \<Rightarrow> \<lparr>oe_state = stability_init, oe_lastSeenFrame = 0\<rparr>)"
  define state where "state = snd (ObserveWar3ShadowGenerationStability source
      (cl_observationFrameSerial (so_clock w) + 1) 2 (oe_state old))"
  have state: "so_observations (snd (observeS1Generation key source w)) =
      AList.update key \<lparr>oe_state = state, oe_lastSeenFrame = cl_observationFrameSerial (so_clock w) + 1\<rparr>
        (so_observations w)"
    and same: "so_frameSerial (snd (observeS1Generation key source w)) = so_frameSerial w"
      "so_lastGcFrame (snd (observeS1Generation key source w)) = so_lastGcFrame w"
    using valid room clock frame
    by (simp_all add: observeS1Generation_def AdvanceWar3ShadowGenerationObservationClock_def Let_def
        case_prod_beta state_def old_def)
  have "\<not> (so_frameSerial w + 1 < so_lastGcFrame w \<or> so_frameSerial w + 1 - so_lastGcFrame w < 120)"
    using due by (simp add: not_less)
  moreover have "maxAge < so_frameSerial w + 1 - (cl_observationFrameSerial (so_clock w) + 1)"
    using apart(2) by simp
  moreover have uniq: "e = \<lparr>oe_state = state, oe_lastSeenFrame = cl_observationFrameSerial (so_clock w) + 1\<rparr>"
    if "(key, e) \<in> set (AList.update key \<lparr>oe_state = state,
        oe_lastSeenFrame = cl_observationFrameSerial (so_clock w) + 1\<rparr> (so_observations w))" for e
    using map_of_is_SomeI [OF distinct_update [OF keys] that] by (simp add: update_conv')
  ultimately show ?thesis
    using seen unfolding presentS1_def War3GcS1GenerationProofObservations_def
    by (auto simp: state same Let_def map_of_eq_None_iff dest!: uniq)
qed

text \<open>A table that is drawn from once in 400 presents: the clocks are already 300 apart.\<close>

definition ex_table :: S1Observations where
  "ex_table = \<lparr>so_frameSerial = 400, so_observations = [],
     so_clock = \<lparr>cl_sourceFrameSerial = 400, cl_observationFrameSerial = 100\<rparr>, so_lastGcFrame = 240\<rparr>"

lemma fresh_observation_is_collected_witness:
  "map_of (so_observations (snd (observeS1Generation 7 (ex_stream 3) ex_table))) 7 \<noteq> None \<and>
   map_of (so_observations (presentS1 240 (snd (observeS1Generation 7 (ex_stream 3) ex_table)))) 7 = None"
proof -
  have "geometry_valid (ex_stream 3)" by code_simp
  then have "map_of (so_observations (presentS1 240 (snd (observeS1Generation 7 (ex_stream 3) ex_table)))) 7
      = None"
    by (intro fresh_observation_is_collected)
      (simp_all add: ex_table_def kMaxS1GenerationProofObservations_def)
  moreover have "map_of (so_observations (snd (observeS1Generation 7 (ex_stream 3) ex_table))) 7 \<noteq> None"
    by code_simp
  ultimately show ?thesis by simp
qed

end
