(* ===== verification/MathValues.thy ===== *)
theory MathValues
  imports Complex_Main War3Prelude
begin

section \<open>Values and arithmetic of the expression language\<close>

text \<open>
  The value types of \<open>src/src/d3d9/war3/math/war3_math_expression.h\<close> and the helpers of
  \<open>war3_math_expression.cpp\<close> on them. The floating-point unit, the mathematical functions
  and \<open>std::from_chars\<close> are an argument \<open>F\<close> of the definitions: a record with one field for
  each operation the source uses, on \<open>float\<close> values \<open>'f\<close> and \<open>double\<close> values \<open>'d\<close>. Nothing
  is assumed about the fields, so the theorems hold for any rounding and any precision.
\<close>

record ('f, 'd) FloatOps =
  fo_literal :: "rat \<Rightarrow> 'f"
  fo_add :: "'f \<Rightarrow> 'f \<Rightarrow> 'f"
  fo_sub :: "'f \<Rightarrow> 'f \<Rightarrow> 'f"
  fo_mul :: "'f \<Rightarrow> 'f \<Rightarrow> 'f"
  fo_div :: "'f \<Rightarrow> 'f \<Rightarrow> 'f"
  fo_neg :: "'f \<Rightarrow> 'f"
  fo_less :: "'f \<Rightarrow> 'f \<Rightarrow> bool"
  fo_less_eq :: "'f \<Rightarrow> 'f \<Rightarrow> bool"
  fo_isfinite :: "'f \<Rightarrow> bool"
  fo_abs :: "'f \<Rightarrow> 'f"
  fo_sqrt :: "'f \<Rightarrow> 'f"
  fo_sin :: "'f \<Rightarrow> 'f"
  fo_cos :: "'f \<Rightarrow> 'f"
  fo_tan :: "'f \<Rightarrow> 'f"
  fo_asin :: "'f \<Rightarrow> 'f"
  fo_acos :: "'f \<Rightarrow> 'f"
  fo_atan :: "'f \<Rightarrow> 'f"
  fo_atan2 :: "'f \<Rightarrow> 'f \<Rightarrow> 'f"
  fo_exp :: "'f \<Rightarrow> 'f"
  fo_log :: "'f \<Rightarrow> 'f"
  fo_pow :: "'f \<Rightarrow> 'f \<Rightarrow> 'f"
  fo_floor :: "'f \<Rightarrow> 'f"
  fo_ceil :: "'f \<Rightarrow> 'f"
  fo_round :: "'f \<Rightarrow> 'f"
  fo_fmod :: "'f \<Rightarrow> 'f \<Rightarrow> 'f"
  fo_lround :: "'f \<Rightarrow> u32"
  fo_of_u32 :: "u32 \<Rightarrow> 'f"
  fo_to_i32 :: "'f \<Rightarrow> u32"
  fo_from_chars :: "string \<Rightarrow> ('f \<times> nat) option"
  fo_widen :: "'f \<Rightarrow> 'd"
  fo_narrow :: "'d \<Rightarrow> 'f"
  do_literal :: "rat \<Rightarrow> 'd"
  do_add :: "'d \<Rightarrow> 'd \<Rightarrow> 'd"
  do_abs :: "'d \<Rightarrow> 'd"
  do_fmod :: "'d \<Rightarrow> 'd \<Rightarrow> 'd"
  do_less :: "'d \<Rightarrow> 'd \<Rightarrow> bool"
  do_less_eq :: "'d \<Rightarrow> 'd \<Rightarrow> bool"
  do_isfinite :: "'d \<Rightarrow> bool"
  do_to_u32 :: "'d \<Rightarrow> u32"

text \<open>\<open>std::min\<close>, \<open>std::max\<close> and \<open>std::clamp\<close> are comparisons, whatever they compare.\<close>

definition std_min :: "('f, 'd) FloatOps \<Rightarrow> 'f \<Rightarrow> 'f \<Rightarrow> 'f" where
  "std_min F a b = (if fo_less F b a then b else a)"

definition std_max :: "('f, 'd) FloatOps \<Rightarrow> 'f \<Rightarrow> 'f \<Rightarrow> 'f" where
  "std_max F a b = (if fo_less F a b then b else a)"

definition std_clamp :: "('f, 'd) FloatOps \<Rightarrow> 'f \<Rightarrow> 'f \<Rightarrow> 'f \<Rightarrow> 'f" where
  "std_clamp F v lo hi = (if fo_less F v lo then lo else if fo_less F hi v then hi else v)"

subsection \<open>Values\<close>

record 'f Vec3 =
  vec_x :: 'f
  vec_y :: 'f
  vec_z :: 'f

datatype ValueType = InvalidType | Scalar | Vector2 | Vector3

record 'f Value =
  v_type :: ValueType
  v_x :: 'f
  v_y :: 'f
  v_z :: 'f

definition kPi :: rat where "kPi = 314159265358979323846 / 100000000000000000000"
definition kTau :: rat where "kTau = 628318530717958647692 / 100000000000000000000"
definition kEpsilon :: rat where "kEpsilon = 1 / 100000000"

definition MakeValue :: "('f, 'd) FloatOps \<Rightarrow> ValueType \<Rightarrow> 'f Value" where
  "MakeValue F t = \<lparr>v_type = t, v_x = fo_literal F 0, v_y = fo_literal F 0, v_z = fo_literal F 0\<rparr>"

definition Value_scalar :: "('f, 'd) FloatOps \<Rightarrow> 'f \<Rightarrow> 'f Value" where
  "Value_scalar F x = (MakeValue F InvalidType)\<lparr>v_type := Scalar, v_x := x\<rparr>"

definition Value_vec2 :: "('f, 'd) FloatOps \<Rightarrow> 'f \<Rightarrow> 'f \<Rightarrow> 'f Value" where
  "Value_vec2 F x y = (MakeValue F InvalidType)\<lparr>v_type := Vector2, v_x := x, v_y := y\<rparr>"

definition Value_vec3 :: "('f, 'd) FloatOps \<Rightarrow> 'f \<Rightarrow> 'f \<Rightarrow> 'f \<Rightarrow> 'f Value" where
  "Value_vec3 F x y z =
    (MakeValue F InvalidType)\<lparr>v_type := Vector3, v_x := x, v_y := y, v_z := z\<rparr>"

fun ComponentCount :: "ValueType \<Rightarrow> nat" where
  "ComponentCount Scalar = 1"
| "ComponentCount Vector2 = 2"
| "ComponentCount Vector3 = 3"
| "ComponentCount InvalidType = 0"

definition IsVector :: "ValueType \<Rightarrow> bool" where
  "IsVector t \<longleftrightarrow> t = Vector2 \<or> t = Vector3"

definition GetComponent :: "'f Value \<Rightarrow> nat \<Rightarrow> 'f" where
  "GetComponent v i =
    (if v_type v = Scalar then v_x v
     else if i = 0 then v_x v
     else if i = 1 then v_y v
     else v_z v)"

definition SetComponent :: "'f Value \<Rightarrow> nat \<Rightarrow> 'f \<Rightarrow> 'f Value" where
  "SetComponent v i c =
    (if i = 0 then v\<lparr>v_x := c\<rparr> else if i = 1 then v\<lparr>v_y := c\<rparr> else v\<lparr>v_z := c\<rparr>)"

definition IsFinite :: "('f, 'd) FloatOps \<Rightarrow> 'f Value \<Rightarrow> bool" where
  "IsFinite F v \<longleftrightarrow>
     ComponentCount (v_type v) \<noteq> 0 \<and>
     list_all (\<lambda>i. fo_isfinite F (GetComponent v i)) [0..<ComponentCount (v_type v)]"

definition Clamp01 :: "('f, 'd) FloatOps \<Rightarrow> 'f \<Rightarrow> 'f" where
  "Clamp01 F v = std_clamp F v (fo_literal F 0) (fo_literal F 1)"

definition SmoothStep01 :: "('f, 'd) FloatOps \<Rightarrow> 'f \<Rightarrow> 'f" where
  "SmoothStep01 F v =
    (let mul = fo_mul F; t = Clamp01 F v
     in mul (mul t t) (fo_sub F (fo_literal F 3) (mul (fo_literal F 2) t)))"

definition SmootherStep01 :: "('f, 'd) FloatOps \<Rightarrow> 'f \<Rightarrow> 'f" where
  "SmootherStep01 F v =
    (let mul = fo_mul F; t = Clamp01 F v
     in mul (mul (mul t t) t)
          (fo_add F (mul t (fo_sub F (mul t (fo_literal F 6)) (fo_literal F 15))) (fo_literal F 10)))"

definition HashU32 :: "u32 \<Rightarrow> u32" where
  "HashU32 value =
    (let value = value XOR drop_bit 16 value;
         value = value * 0x7feb352d;
         value = value XOR drop_bit 15 value;
         value = value * 0x846ca68b
     in value XOR drop_bit 16 value)"

definition HashSigned :: "('f, 'd) FloatOps \<Rightarrow> u32 \<Rightarrow> u32 \<Rightarrow> 'f" where
  "HashSigned F seed coordinate =
    (let hash = HashU32 (seed XOR (coordinate * 0x9e3779b9))
     in fo_sub F
          (fo_mul F (fo_div F (fo_of_u32 F (hash AND 0x00ffffff)) (fo_of_u32 F 0x00ffffff))
             (fo_literal F 2))
          (fo_literal F 1))"

definition Noise1 :: "('f, 'd) FloatOps \<Rightarrow> 'f \<Rightarrow> u32 \<Rightarrow> 'f" where
  "Noise1 F coordinate seed =
    (let wrapped = fo_fmod F coordinate (fo_literal F 1048576);
         baseValue = fo_floor F wrapped;
         base = fo_to_i32 F baseValue;
         fraction = fo_sub F wrapped baseValue;
         blend = SmoothStep01 F fraction;
         first = HashSigned F seed base;
         second = HashSigned F seed (base + 1)
     in fo_add F first (fo_mul F (fo_sub F second first) blend))"

definition FloatSeed :: "('f, 'd) FloatOps \<Rightarrow> 'f \<Rightarrow> u32 \<Rightarrow> u32" where
  "FloatSeed F value fallback =
    (if \<not> fo_isfinite F value then fallback
     else do_to_u32 F (do_fmod F (do_abs F (fo_widen F value)) (do_literal F 4294967296)))"

subsection \<open>Facts about values\<close>

lemma SetComponent_type [simp]: "v_type (SetComponent v i c) = v_type v"
  by (simp add: SetComponent_def)

lemma MakeValue_type [simp]: "v_type (MakeValue F t) = t"
  by (simp add: MakeValue_def)

lemma value_types [simp]:
  "v_type (Value_scalar F x) = Scalar"
  "v_type (Value_vec2 F x y) = Vector2"
  "v_type (Value_vec3 F x y z) = Vector3"
  by (simp_all add: Value_scalar_def Value_vec2_def Value_vec3_def)

lemma IsFinite_typed: "IsFinite F v \<Longrightarrow> v_type v \<noteq> InvalidType"
  by (auto simp: IsFinite_def)

lemma IsVector_valid: "IsVector t \<Longrightarrow> t \<noteq> InvalidType"
  by (auto simp: IsVector_def)

end
