(* ===== verification/MathExpression.thy ===== *)
theory MathExpression
  imports MathValues "HOL-Library.Monad_Syntax"
begin

section \<open>The expression compiler\<close>

text \<open>
  \<open>src/src/d3d9/war3/math/war3_math_expression.h\<close> and the \<open>Parser\<close> of
  \<open>war3_math_expression.cpp\<close>: a recursive-descent parser over byte positions that emits the
  instructions of a stack machine while it parses. Its state is the record \<open>Parser\<close>, an
  error is a non-empty \<open>m_error\<close>, and the first failure sticks. The parsing functions call
  each other through the whole input, so they take a fuel; running out of it is \<open>None\<close>, and
  \<open>parseFuel\<close> is enough for every input (\<open>MathParsing\<close>).
\<close>

definition kMaximumExpressionBytes :: nat where "kMaximumExpressionBytes = 384"
definition kMaximumExpressionParameters :: nat where "kMaximumExpressionParameters = 16"
definition kMaximumExpressionInstructions :: nat where "kMaximumExpressionInstructions = 256"
definition kMaximumExpressionStack :: nat where "kMaximumExpressionStack = 64"
definition kMaximumParseDepth :: nat where "kMaximumParseDepth = 32"

lemmas expression_limits =
  kMaximumExpressionBytes_def kMaximumExpressionParameters_def
  kMaximumExpressionInstructions_def kMaximumExpressionStack_def kMaximumParseDepth_def

datatype OpCode =
  PushConstant | PushVariable | PushParameter | OpAdd | OpSubtract | OpMultiply | OpDivide
  | OpNegate | OpCall

datatype VariableId =
  VarT | VarTime | VarLength | VarIndex | VarSegments | VarSeed | VarBranchIndex | VarBranchDepth
  | VarStart | VarEnd | VarCenter | VarDirection | VarForward | VarRight | VarUp

datatype FunctionId =
  FnVec2 | FnVec3 | FnX | FnY | FnZ | FnSin | FnCos | FnTan | FnAsin | FnAcos | FnAtan | FnAtan2
  | FnSqrt | FnPow | FnExp | FnLog | FnAbs | FnSign | FnFloor | FnCeil | FnRound | FnFract | FnMin
  | FnMax | FnClamp | FnSaturate | FnLerp | FnInverseLerp | FnRemap | FnStep | FnSmoothStep
  | FnSmootherStep | FnDot | FnCross | FnVectorLength | FnDistance | FnNormalize | FnProject
  | FnReject | FnRotateAroundAxis | FnEndpointMask | FnNoise1 | FnRepeat | FnPingPong | FnBezier2
  | FnBezier3

text \<open>
  An instruction keeps the identifier of its variable or function as a 16-bit number; the
  casts to and from the number follow the order of the enumerators.
\<close>

definition variableIds :: "VariableId list" where
  "variableIds =
    [VarT, VarTime, VarLength, VarIndex, VarSegments, VarSeed, VarBranchIndex, VarBranchDepth,
     VarStart, VarEnd, VarCenter, VarDirection, VarForward, VarRight, VarUp]"

definition functionIds :: "FunctionId list" where
  "functionIds =
    [FnVec2, FnVec3, FnX, FnY, FnZ, FnSin, FnCos, FnTan, FnAsin, FnAcos, FnAtan, FnAtan2, FnSqrt,
     FnPow, FnExp, FnLog, FnAbs, FnSign, FnFloor, FnCeil, FnRound, FnFract, FnMin, FnMax, FnClamp,
     FnSaturate, FnLerp, FnInverseLerp, FnRemap, FnStep, FnSmoothStep, FnSmootherStep, FnDot,
     FnCross, FnVectorLength, FnDistance, FnNormalize, FnProject, FnReject, FnRotateAroundAxis,
     FnEndpointMask, FnNoise1, FnRepeat, FnPingPong, FnBezier2, FnBezier3]"

definition enumCode :: "'a list \<Rightarrow> 'a \<Rightarrow> u16" where
  "enumCode ids i = of_nat (length (takeWhile (\<lambda>j. j \<noteq> i) ids))"

definition enumCast :: "'a list \<Rightarrow> u16 \<Rightarrow> 'a option" where
  "enumCast ids n = (if unat n < length ids then Some (ids ! unat n) else None)"

record 'f Instruction =
  in_op :: OpCode
  in_outputType :: ValueType
  in_operand :: u16
  in_argumentCount :: u8
  in_constant :: 'f

definition instruction_init :: "('f, 'd) FloatOps \<Rightarrow> 'f Instruction" where
  "instruction_init F = \<lparr>in_op = PushConstant, in_outputType = InvalidType, in_operand = 0,
     in_argumentCount = 0, in_constant = fo_literal F 0\<rparr>"

record 'f Program =
  pr_resultType :: ValueType
  pr_parameterNames :: "string list"
  pr_instructions :: "'f Instruction list"

subsection \<open>Names\<close>

definition isDigit :: "char \<Rightarrow> bool" where
  "isDigit c \<longleftrightarrow> 48 \<le> (of_char c :: nat) \<and> (of_char c :: nat) \<le> 57"

definition IsIdentifierStart :: "char \<Rightarrow> bool" where
  "IsIdentifierStart c \<longleftrightarrow>
     (65 \<le> (of_char c :: nat) \<and> (of_char c :: nat) \<le> 90) \<or>
     (97 \<le> (of_char c :: nat) \<and> (of_char c :: nat) \<le> 122) \<or> c = CHR ''_''"

definition IsIdentifierContinue :: "char \<Rightarrow> bool" where
  "IsIdentifierContinue c \<longleftrightarrow> IsIdentifierStart c \<or> isDigit c"

record FunctionResolution =
  fr_id :: FunctionId
  fr_output :: ValueType
  fr_valid :: bool

definition unresolved :: FunctionResolution where
  "unresolved = \<lparr>fr_id = FnSin, fr_output = InvalidType, fr_valid = False\<rparr>"

definition resolved :: "FunctionId \<Rightarrow> ValueType \<Rightarrow> FunctionResolution" where
  "resolved i t = \<lparr>fr_id = i, fr_output = t, fr_valid = True\<rparr>"

definition AllSame :: "ValueType list \<Rightarrow> nat \<Rightarrow> nat \<Rightarrow> bool" where
  "AllSame types begin stop \<longleftrightarrow>
     \<not> (begin \<ge> stop \<or> stop > length types) \<and>
     list_all (\<lambda>i. types ! i = types ! begin) [begin + 1..<stop]"

definition unaryAny :: "ValueType list \<Rightarrow> FunctionId \<Rightarrow> FunctionResolution" where
  "unaryAny arguments i =
    (if length arguments = 1 \<and> arguments ! 0 \<noteq> InvalidType then resolved i (arguments ! 0)
     else unresolved)"

definition binarySame :: "ValueType list \<Rightarrow> FunctionId \<Rightarrow> FunctionResolution" where
  "binarySame arguments i =
    (if length arguments = 2 \<and> arguments ! 0 = arguments ! 1 \<and> arguments ! 0 \<noteq> InvalidType
     then resolved i (arguments ! 0) else unresolved)"

text \<open>The chain of \<open>else if\<close> over the componentwise functions.\<close>

definition resolveComponentwise :: "string \<Rightarrow> ValueType list \<Rightarrow> FunctionResolution" where
  "resolveComponentwise name arguments =
    (if name = ''sin'' then unaryAny arguments FnSin
     else if name = ''cos'' then unaryAny arguments FnCos
     else if name = ''tan'' then unaryAny arguments FnTan
     else if name = ''asin'' then unaryAny arguments FnAsin
     else if name = ''acos'' then unaryAny arguments FnAcos
     else if name = ''atan'' then unaryAny arguments FnAtan
     else if name = ''sqrt'' then unaryAny arguments FnSqrt
     else if name = ''exp'' then unaryAny arguments FnExp
     else if name = ''log'' then unaryAny arguments FnLog
     else if name = ''abs'' then unaryAny arguments FnAbs
     else if name = ''sign'' then unaryAny arguments FnSign
     else if name = ''floor'' then unaryAny arguments FnFloor
     else if name = ''ceil'' then unaryAny arguments FnCeil
     else if name = ''round'' then unaryAny arguments FnRound
     else if name = ''fract'' then unaryAny arguments FnFract
     else if name = ''saturate'' then unaryAny arguments FnSaturate
     else if name = ''atan2'' then binarySame arguments FnAtan2
     else if name = ''pow'' then binarySame arguments FnPow
     else if name = ''min'' then binarySame arguments FnMin
     else if name = ''max'' then binarySame arguments FnMax
     else unresolved)"

text \<open>The functions after the chain, tried in order.\<close>

definition resolveMixed :: "string \<Rightarrow> ValueType list \<Rightarrow> FunctionResolution" where
  "resolveMixed name arguments =
    (let count = length arguments; a = (\<lambda>i. arguments ! i) in
     if name = ''clamp'' \<and> count = 3 \<and> AllSame arguments 0 3 then resolved FnClamp (a 0)
     else if name = ''lerp'' \<and> count = 3 \<and> a 0 = a 1 \<and> a 2 = Scalar then resolved FnLerp (a 0)
     else if name = ''inverseLerp'' \<and> count = 3 \<and> AllSame arguments 0 3 \<and> a 0 = Scalar
     then resolved FnInverseLerp Scalar
     else if name = ''remap'' \<and> count = 5 \<and> AllSame arguments 0 5 \<and> a 0 = Scalar
     then resolved FnRemap Scalar
     else if name = ''step'' \<and> count = 2 \<and> a 0 = Scalar \<and> a 1 \<noteq> InvalidType
     then resolved FnStep (a 1)
     else if (name = ''smoothstep'' \<or> name = ''smootherstep'') \<and> count = 3 \<and> a 0 = Scalar \<and>
       a 1 = Scalar \<and> a 2 \<noteq> InvalidType
     then resolved (if name = ''smoothstep'' then FnSmoothStep else FnSmootherStep) (a 2)
     else if name = ''dot'' \<and> count = 2 \<and> a 0 = a 1 \<and> IsVector (a 0) then resolved FnDot Scalar
     else if name = ''cross'' \<and> count = 2 \<and> a 0 = Vector3 \<and> a 1 = Vector3
     then resolved FnCross Vector3
     else if name = ''length'' \<and> count = 1 \<and> IsVector (a 0) then resolved FnVectorLength Scalar
     else if name = ''distance'' \<and> count = 2 \<and> a 0 = a 1 \<and> IsVector (a 0)
     then resolved FnDistance Scalar
     else if name = ''normalize'' \<and> count = 1 \<and> IsVector (a 0) then resolved FnNormalize (a 0)
     else if (name = ''project'' \<or> name = ''reject'') \<and> count = 2 \<and> a 0 = a 1 \<and> IsVector (a 0)
     then resolved (if name = ''project'' then FnProject else FnReject) (a 0)
     else if name = ''rotateAroundAxis'' \<and> count = 3 \<and> a 0 = Vector3 \<and> a 1 = Vector3 \<and>
       a 2 = Scalar
     then resolved FnRotateAroundAxis Vector3
     else if name = ''endpointMask'' \<and>
       ((count = 1 \<and> a 0 = Scalar) \<or> (count = 3 \<and> AllSame arguments 0 3 \<and> a 0 = Scalar))
     then resolved FnEndpointMask Scalar
     else if name = ''noise1'' \<and> (count = 1 \<or> count = 2) \<and> a 0 = Scalar \<and>
       (count = 1 \<or> a 1 = Scalar)
     then resolved FnNoise1 Scalar
     else if (name = ''repeat'' \<or> name = ''pingpong'') \<and> count = 2 \<and> a 0 = Scalar \<and> a 1 = Scalar
     then resolved (if name = ''repeat'' then FnRepeat else FnPingPong) Scalar
     else if name = ''bezier2'' \<and> count = 4 \<and> a 0 = a 1 \<and> a 1 = a 2 \<and> a 3 = Scalar
     then resolved FnBezier2 (a 0)
     else if name = ''bezier3'' \<and> count = 5 \<and> a 0 = a 1 \<and> a 1 = a 2 \<and> a 2 = a 3 \<and> a 4 = Scalar
     then resolved FnBezier3 (a 0)
     else unresolved)"

definition ResolveFunction :: "string \<Rightarrow> ValueType list \<Rightarrow> FunctionResolution" where
  "ResolveFunction name arguments =
    (let count = length arguments; a = (\<lambda>i. arguments ! i) in
     if name = ''vec2'' then
       (if count = 2 \<and> a 0 = Scalar \<and> a 1 = Scalar then resolved FnVec2 Vector2 else unresolved)
     else if name = ''vec3'' then
       (if count = 3 \<and> a 0 = Scalar \<and> a 1 = Scalar \<and> a 2 = Scalar
        then resolved FnVec3 Vector3 else unresolved)
     else if name = ''x'' \<or> name = ''y'' \<or> name = ''z'' then
       (if count = 1 \<and> IsVector (a 0) \<and> (name \<noteq> ''z'' \<or> a 0 = Vector3)
        then resolved (if name = ''x'' then FnX else if name = ''y'' then FnY else FnZ) Scalar
        else unresolved)
     else
       let result = resolveComponentwise name arguments
       in if fr_valid result then result else resolveMixed name arguments)"

definition ResolveVariable :: "string \<Rightarrow> (VariableId \<times> ValueType) option" where
  "ResolveVariable name =
    (if name = ''t'' then Some (VarT, Scalar)
     else if name = ''time'' then Some (VarTime, Scalar)
     else if name = ''length'' then Some (VarLength, Scalar)
     else if name = ''index'' then Some (VarIndex, Scalar)
     else if name = ''segments'' then Some (VarSegments, Scalar)
     else if name = ''seed'' then Some (VarSeed, Scalar)
     else if name = ''branchIndex'' then Some (VarBranchIndex, Scalar)
     else if name = ''branchDepth'' then Some (VarBranchDepth, Scalar)
     else if name = ''start'' then Some (VarStart, Vector3)
     else if name = ''end'' then Some (VarEnd, Vector3)
     else if name = ''center'' then Some (VarCenter, Vector3)
     else if name = ''direction'' then Some (VarDirection, Vector3)
     else if name = ''forward'' then Some (VarForward, Vector3)
     else if name = ''right'' then Some (VarRight, Vector3)
     else if name = ''up'' then Some (VarUp, Vector3)
     else None)"

subsection \<open>The state of the parser\<close>

record 'f Parser =
  ps_position :: nat
  ps_depth :: nat
  ps_error :: string
  ps_errorOffset :: nat
  ps_parameters :: "string list"
  ps_instructions :: "'f Instruction list"

definition parser_init :: "'f Parser" where
  "parser_init = \<lparr>ps_position = 0, ps_depth = 0, ps_error = [], ps_errorOffset = 0,
     ps_parameters = [], ps_instructions = []\<rparr>"

definition failed :: "'f Parser \<Rightarrow> bool" where
  "failed p \<longleftrightarrow> ps_error p \<noteq> []"

definition fail :: "string \<Rightarrow> 'f Parser \<Rightarrow> 'f Parser" where
  "fail message p =
    (if ps_error p \<noteq> [] then p
     else p\<lparr>ps_error := message, ps_errorOffset := ps_position p\<rparr>)"

text \<open>The end of the run of characters that satisfy a test, from a position on.\<close>

definition scan :: "(char \<Rightarrow> bool) \<Rightarrow> string \<Rightarrow> nat \<Rightarrow> nat" where
  "scan P e i = i + length (takeWhile P (List.drop i e))"

definition isBlank :: "char \<Rightarrow> bool" where
  "isBlank c \<longleftrightarrow> c = CHR '' '' \<or> c = CHR 0x09"

definition skipWhitespace :: "string \<Rightarrow> 'f Parser \<Rightarrow> 'f Parser" where
  "skipWhitespace e p = p\<lparr>ps_position := scan isBlank e (ps_position p)\<rparr>"

definition "consume" :: "string \<Rightarrow> char \<Rightarrow> 'f Parser \<Rightarrow> bool \<times> 'f Parser" where
  "consume e expected p =
    (if ps_position p \<ge> length e \<or> e ! ps_position p \<noteq> expected then (False, p)
     else (True, p\<lparr>ps_position := ps_position p + 1\<rparr>))"

text \<open>\<open>consume(a) || consume(b)\<close>\<close>

definition consumeEither :: "string \<Rightarrow> char \<Rightarrow> char \<Rightarrow> 'f Parser \<Rightarrow> bool \<times> 'f Parser" where
  "consumeEither e a b p =
    (case consume e a p of (True, q) \<Rightarrow> (True, q) | (False, q) \<Rightarrow> consume e b q)"

definition enterDepth :: "'f Parser \<Rightarrow> bool \<times> 'f Parser" where
  "enterDepth p =
    (if ps_depth p \<ge> kMaximumParseDepth then (False, fail ''expression nesting exceeds 32 levels'' p)
     else (True, p\<lparr>ps_depth := ps_depth p + 1\<rparr>))"

definition leaveDepth :: "'f Parser \<Rightarrow> 'f Parser" where
  "leaveDepth p = (if ps_depth p > 0 then p\<lparr>ps_depth := ps_depth p - 1\<rparr> else p)"

definition emit :: "'f Instruction \<Rightarrow> 'f Parser \<Rightarrow> bool \<times> 'f Parser" where
  "emit i p =
    (if length (ps_instructions p) \<ge> kMaximumExpressionInstructions
     then (False, fail ''expression exceeds 256 instructions'' p)
     else (True, p\<lparr>ps_instructions := ps_instructions p @ [i]\<rparr>))"

text \<open>\<open>return emit(instruction) ? type : ValueType::Invalid\<close>\<close>

definition emitTyped :: "'f Instruction \<Rightarrow> ValueType \<Rightarrow> 'f Parser \<Rightarrow> ValueType \<times> 'f Parser" where
  "emitTyped i t p = (case emit i p of (ok, p) \<Rightarrow> (if ok then t else InvalidType, p))"

definition emitConstant ::
  "('f, 'd) FloatOps \<Rightarrow> 'f \<Rightarrow> 'f Parser \<Rightarrow> ValueType \<times> 'f Parser" where
  "emitConstant F value p =
    emitTyped ((instruction_init F)\<lparr>in_op := PushConstant, in_outputType := Scalar,
      in_constant := value\<rparr>) Scalar p"

definition findOrCreateParameter :: "string \<Rightarrow> 'f Parser \<Rightarrow> int \<times> 'f Parser" where
  "findOrCreateParameter name p =
    (if length name > 31 then (-1, fail ''parameter name exceeds 31 bytes'' p)
     else
       case List.find (\<lambda>i. ps_parameters p ! i = name) [0..<length (ps_parameters p)] of
         Some i \<Rightarrow> (int i, p)
       | None \<Rightarrow>
           if length (ps_parameters p) \<ge> kMaximumExpressionParameters
           then (-1, fail ''expression exceeds 16 parameters'' p)
           else (int (length (ps_parameters p)), p\<lparr>ps_parameters := ps_parameters p @ [name]\<rparr>))"

definition parseIdentifier :: "string \<Rightarrow> 'f Parser \<Rightarrow> string \<times> 'f Parser" where
  "parseIdentifier e p =
    (let start = ps_position p; stop = scan IsIdentifierContinue e (start + 1)
     in (List.take (stop - start) (List.drop start e), p\<lparr>ps_position := stop\<rparr>))"

subsection \<open>Numbers\<close>

text \<open>
  The lexeme of a number: its end, or the position and the message of the failure.
\<close>

definition scanNumber :: "string \<Rightarrow> nat \<Rightarrow> (nat \<times> string) + nat" where
  "scanNumber e start =
    (let i = scan isDigit e start;
         hasDigit = (i \<noteq> start);
         (i, hasDigit) =
           (if i < length e \<and> e ! i = CHR ''.''
            then (let j = scan isDigit e (i + 1) in (j, hasDigit \<or> j \<noteq> i + 1))
            else (i, hasDigit))
     in if \<not> hasDigit then Inl (i, ''malformed number'')
        else if i < length e \<and> (e ! i = CHR ''e'' \<or> e ! i = CHR ''E'') then
          let i = i + 1;
              i = (if i < length e \<and> (e ! i = CHR ''+'' \<or> e ! i = CHR ''-'') then i + 1 else i);
              j = scan isDigit e i
          in if j = i then Inl (j, ''malformed exponent'') else Inr j
        else Inr i)"

definition parseNumber ::
  "('f, 'd) FloatOps \<Rightarrow> string \<Rightarrow> 'f Parser \<Rightarrow> ValueType \<times> 'f Parser" where
  "parseNumber F e p =
    (let start = ps_position p in
     case scanNumber e start of
       Inl (i, message) \<Rightarrow> (InvalidType, fail message (p\<lparr>ps_position := i\<rparr>))
     | Inr stop \<Rightarrow>
         let p = p\<lparr>ps_position := stop\<rparr>; token = List.take (stop - start) (List.drop start e) in
         case fo_from_chars F token of
           None \<Rightarrow> (InvalidType, fail ''number is outside finite float range'' p)
         | Some (value, used) \<Rightarrow>
             if used \<noteq> length token \<or> \<not> fo_isfinite F value
             then (InvalidType, fail ''number is outside finite float range'' p)
             else emitConstant F value p)"

subsection \<open>The recursive descent\<close>

text \<open>The leaves of \<open>parsePrimary\<close>: a name that is not a call.\<close>

definition parseName ::
  "('f, 'd) FloatOps \<Rightarrow> string \<Rightarrow> 'f Parser \<Rightarrow> ValueType \<times> 'f Parser" where
  "parseName F identifier p =
    (if identifier = ''pi'' then emitConstant F (fo_literal F kPi) p
     else if identifier = ''tau'' then emitConstant F (fo_literal F kTau) p
     else
       case ResolveVariable identifier of
         Some (i, t) \<Rightarrow>
           emitTyped ((instruction_init F)\<lparr>in_op := PushVariable, in_outputType := t,
             in_operand := enumCode variableIds i\<rparr>) t p
       | None \<Rightarrow>
           case findOrCreateParameter identifier p of
             (parameter, p) \<Rightarrow>
               if parameter < 0 then (InvalidType, p)
               else emitTyped ((instruction_init F)\<lparr>in_op := PushParameter, in_outputType := Scalar,
                 in_operand := word_of_int parameter\<rparr>) Scalar p)"

text \<open>The call instruction once the arguments are parsed, the end of \<open>parseFunction\<close>.\<close>

definition finishCall ::
  "('f, 'd) FloatOps \<Rightarrow> string \<Rightarrow> ValueType list \<Rightarrow> 'f Parser \<Rightarrow> ValueType \<times> 'f Parser" where
  "finishCall F name arguments p =
    (if failed p then (InvalidType, p)
     else
       let function = ResolveFunction name arguments
       in if \<not> fr_valid function
          then (InvalidType, fail ''unknown function or invalid function argument types'' p)
          else emitTyped ((instruction_init F)\<lparr>in_op := OpCall, in_outputType := fr_output function,
            in_operand := enumCode functionIds (fr_id function),
            in_argumentCount := of_nat (length arguments)\<rparr>) (fr_output function) p)"

text \<open>The output type of a multiplication or division.\<close>

definition productType :: "char \<Rightarrow> ValueType \<Rightarrow> ValueType \<Rightarrow> ValueType" where
  "productType opc left right =
    (let output =
       (if left = right then left
        else if left = Scalar \<and> IsVector right then right
        else if IsVector left \<and> right = Scalar then left
        else InvalidType)
     in if output = InvalidType \<or> (opc = CHR ''/'' \<and> left = Scalar \<and> IsVector right)
        then InvalidType else output)"

function (sequential) parseAddSubtract parseMultiplyDivide parseUnary parsePrimary ::
    "nat \<Rightarrow> ('f, 'd) FloatOps \<Rightarrow> string \<Rightarrow> 'f Parser \<Rightarrow> (ValueType \<times> 'f Parser) option"
  and addLoop mulLoop ::
    "nat \<Rightarrow> ('f, 'd) FloatOps \<Rightarrow> string \<Rightarrow> ValueType \<Rightarrow> 'f Parser \<Rightarrow> (ValueType \<times> 'f Parser) option"
  and parseFunction ::
    "nat \<Rightarrow> ('f, 'd) FloatOps \<Rightarrow> string \<Rightarrow> string \<Rightarrow> 'f Parser \<Rightarrow> (ValueType \<times> 'f Parser) option"
  and argumentLoop ::
    "nat \<Rightarrow> ('f, 'd) FloatOps \<Rightarrow> string \<Rightarrow> ValueType list \<Rightarrow> 'f Parser \<Rightarrow>
      (ValueType list \<times> 'f Parser) option"
where
  "parseAddSubtract 0 F e p = None"
| "parseAddSubtract (Suc n) F e p = do {
     (left, p) \<leftarrow> parseMultiplyDivide n F e p;
     addLoop n F e left p
   }"
| "addLoop 0 F e left p = None"
| "addLoop (Suc n) F e left p =
    (if failed p then Some (left, p)
     else case consumeEither e CHR ''+'' CHR ''-'' (skipWhitespace e p) of
       (False, p) \<Rightarrow> Some (left, p)
     | (True, p) \<Rightarrow>
         let opc = e ! (ps_position p - 1) in do {
           (right, p) \<leftarrow> parseMultiplyDivide n F e p;
           if left = InvalidType \<or> left \<noteq> right
           then Some (InvalidType, fail ''addition and subtraction require matching types'' p)
           else case emit ((instruction_init F)\<lparr>in_op := (if opc = CHR ''+'' then OpAdd else OpSubtract),
                       in_outputType := left\<rparr>) p of
             (False, p) \<Rightarrow> Some (InvalidType, p)
           | (True, p) \<Rightarrow> addLoop n F e left p
         })"
| "parseMultiplyDivide 0 F e p = None"
| "parseMultiplyDivide (Suc n) F e p = do {
     (left, p) \<leftarrow> parseUnary n F e p;
     mulLoop n F e left p
   }"
| "mulLoop 0 F e left p = None"
| "mulLoop (Suc n) F e left p =
    (if failed p then Some (left, p)
     else case consumeEither e CHR ''*'' CHR ''/'' (skipWhitespace e p) of
       (False, p) \<Rightarrow> Some (left, p)
     | (True, p) \<Rightarrow>
         let opc = e ! (ps_position p - 1) in do {
           (right, p) \<leftarrow> parseUnary n F e p;
           let output = productType opc left right in
           if output = InvalidType
           then Some (InvalidType, fail ''multiplication or division uses incompatible types'' p)
           else case emit ((instruction_init F)\<lparr>in_op := (if opc = CHR ''*'' then OpMultiply else OpDivide),
                       in_outputType := output\<rparr>) p of
             (False, p) \<Rightarrow> Some (InvalidType, p)
           | (True, p) \<Rightarrow> mulLoop n F e output p
         })"
| "parseUnary 0 F e p = None"
| "parseUnary (Suc n) F e p =
    (case consume e CHR ''+'' (skipWhitespace e p) of
       (True, p) \<Rightarrow> parseUnary n F e p
     | (False, p) \<Rightarrow>
         case consume e CHR ''-'' p of
           (True, p) \<Rightarrow> do {
             (t, p) \<leftarrow> parseUnary n F e p;
             if t = InvalidType then Some (t, p)
             else Some (emitTyped ((instruction_init F)\<lparr>in_op := OpNegate, in_outputType := t\<rparr>) t p)
           }
         | (False, p) \<Rightarrow> parsePrimary n F e p)"
| "parsePrimary 0 F e p = None"
| "parsePrimary (Suc n) F e p =
    (let p = skipWhitespace e p in
     if ps_position p \<ge> length e then Some (InvalidType, fail ''expected expression'' p)
     else
       let character = e ! ps_position p in
       if isDigit character \<or> character = CHR ''.'' then Some (parseNumber F e p)
       else if character = CHR ''('' then
         (case enterDepth (p\<lparr>ps_position := ps_position p + 1\<rparr>) of
            (False, p) \<Rightarrow> Some (InvalidType, p)
          | (True, p) \<Rightarrow> do {
              (t, p) \<leftarrow> parseAddSubtract n F e p;
              case consume e CHR '')'' (skipWhitespace e (leaveDepth p)) of
                (False, p) \<Rightarrow> Some (InvalidType, fail ''missing closing parenthesis'' p)
              | (True, p) \<Rightarrow> Some (t, p)
            })
       else if \<not> IsIdentifierStart character
       then Some (InvalidType, fail ''expected number, variable, or function'' p)
       else
         case parseIdentifier e p of (identifier, p) \<Rightarrow>
           (case consume e CHR ''('' (skipWhitespace e p) of
              (True, p) \<Rightarrow> parseFunction n F e identifier p
            | (False, p) \<Rightarrow> Some (parseName F identifier p)))"
| "parseFunction 0 F e name p = None"
| "parseFunction (Suc n) F e name p =
    (case enterDepth p of
       (False, p) \<Rightarrow> Some (InvalidType, p)
     | (True, p) \<Rightarrow>
         (case consume e CHR '')'' (skipWhitespace e p) of
            (True, p) \<Rightarrow> Some (finishCall F name [] (leaveDepth p))
          | (False, p) \<Rightarrow> do {
              (arguments, p) \<leftarrow> argumentLoop n F e [] p;
              Some (finishCall F name arguments (leaveDepth p))
            }))"
| "argumentLoop 0 F e arguments p = None"
| "argumentLoop (Suc n) F e arguments p =
    (if failed p then Some (arguments, p)
     else if length arguments \<ge> 5
     then Some (arguments, fail ''function has more than five arguments'' p)
     else do {
       (t, p) \<leftarrow> parseAddSubtract n F e p;
       let arguments = arguments @ [t];
       case consume e CHR '')'' (skipWhitespace e p) of
         (True, p) \<Rightarrow> Some (arguments, p)
       | (False, p) \<Rightarrow>
           (case consume e CHR '','' p of
              (False, p) \<Rightarrow> Some (arguments, fail ''expected comma or closing parenthesis'' p)
            | (True, p) \<Rightarrow> argumentLoop n F e arguments p)
     })"

  by pat_completeness auto

termination
  by (relation "measure (case_sum (case_sum (case_sum fst fst) (case_sum fst fst))
        (case_sum (case_sum fst fst) (case_sum fst fst)))") auto

text \<open>Eight calls for each byte: the calls between two bytes are at most eight deep.\<close>

definition parseFuel :: "string \<Rightarrow> nat" where
  "parseFuel e = 8 * length e + 8"

definition parse ::
  "('f, 'd) FloatOps \<Rightarrow> string \<Rightarrow> (ValueType \<times> 'f Parser) option" where
  "parse F e =
    (if e = [] then Some (InvalidType, fail ''expression is empty'' parser_init)
     else if length e > kMaximumExpressionBytes
     then Some (InvalidType, fail ''expression exceeds 384 bytes''
       (parser_init\<lparr>ps_position := kMaximumExpressionBytes\<rparr>))
     else do {
       (result, p) \<leftarrow> parseAddSubtract (parseFuel e) F e parser_init;
       let p = skipWhitespace e p;
       let p = (if \<not> failed p \<and> ps_position p \<noteq> length e
                then fail ''unexpected character'' p else p);
       Some (if failed p then InvalidType else result, p)
     })"

subsection \<open>The shape of the stack\<close>

fun stackShape :: "'f Instruction list \<Rightarrow> nat \<Rightarrow> nat \<Rightarrow> bool" where
  "stackShape [] depth deepest = (depth = 1)"
| "stackShape (i # is) depth deepest =
    (let step = (\<lambda>depth.
       let deepest = max deepest depth
       in if deepest > kMaximumExpressionStack then False else stackShape is depth deepest)
     in case in_op i of
          PushConstant \<Rightarrow> step (depth + 1)
        | PushVariable \<Rightarrow> step (depth + 1)
        | PushParameter \<Rightarrow> step (depth + 1)
        | OpNegate \<Rightarrow> (if depth < 1 then False else step depth)
        | OpCall \<Rightarrow>
            (if depth < unat (in_argumentCount i) then False
             else step (depth - unat (in_argumentCount i) + 1))
        | _ \<Rightarrow> (if depth < 2 then False else step (depth - 1)))"

definition ValidateStackShape :: "'f Instruction list \<Rightarrow> bool" where
  "ValidateStackShape instructions = stackShape instructions 0 0"

text \<open>The result is the error with its offset, or the program.\<close>

definition CompileExpression ::
  "('f, 'd) FloatOps \<Rightarrow> string \<Rightarrow> ((string \<times> nat) + 'f Program) option" where
  "CompileExpression F e = do {
     (resultType, p) \<leftarrow> parse F e;
     Some (if failed p then Inl (ps_error p, ps_errorOffset p)
           else if resultType = InvalidType \<or> \<not> ValidateStackShape (ps_instructions p)
           then Inl (''compiled expression has an invalid stack shape'', 0)
           else Inr \<lparr>pr_resultType = resultType, pr_parameterNames = ps_parameters p,
                     pr_instructions = ps_instructions p\<rparr>)
   }"

subsection \<open>The parameters of a program\<close>

definition parameterName :: "'f Program \<Rightarrow> nat \<Rightarrow> string" where
  "parameterName program i =
    (if i < length (pr_parameterNames program) then pr_parameterNames program ! i else [])"

definition findParameter :: "'f Program \<Rightarrow> string \<Rightarrow> int" where
  "findParameter program name =
    (case List.find (\<lambda>i. pr_parameterNames program ! i = name)
            [0..<length (pr_parameterNames program)] of
       Some i \<Rightarrow> int i
     | None \<Rightarrow> -1)"

end
