(* ===== verification/MathGrammar.thy ===== *)
theory MathGrammar
  imports MathExpression
begin

section \<open>The language and its code\<close>

text \<open>
  The expressions of the language as trees, their static types and their postfix code, and
  the grammar as an inductive relation on byte positions, against which the parser of
  \<open>MathExpression\<close> is proved in \<open>MathParsing\<close>; then what every primitive step of the parser
  keeps, and what its leaves and its calls emit.
\<close>

subsection \<open>Expressions\<close>

datatype 'f expr =
  Constant 'f
  | Variable VariableId
  | Parameter string
  | Binary OpCode "'f expr" "'f expr"
  | Negated "'f expr"
  | Invoke string "'f expr list"

definition variableType :: "VariableId \<Rightarrow> ValueType" where
  "variableType i =
    (if i \<in> {VarStart, VarEnd, VarCenter, VarDirection, VarForward, VarRight, VarUp}
     then Vector3 else Scalar)"

fun typeOf :: "'f expr \<Rightarrow> ValueType" where
  "typeOf (Constant c) = Scalar"
| "typeOf (Variable i) = variableType i"
| "typeOf (Parameter s) = Scalar"
| "typeOf (Binary opc x y) =
    (if opc = OpMultiply then productType CHR ''*'' (typeOf x) (typeOf y)
     else if opc = OpDivide then productType CHR ''/'' (typeOf x) (typeOf y)
     else if typeOf x = typeOf y then typeOf x else InvalidType)"
| "typeOf (Negated x) = typeOf x"
| "typeOf (Invoke name xs) = fr_output (ResolveFunction name (map typeOf xs))"

fun well_typed :: "'f expr \<Rightarrow> bool" where
  "well_typed (Constant c) = True"
| "well_typed (Variable i) = True"
| "well_typed (Parameter s) = (length s \<le> 31)"
| "well_typed (Binary opc x y) =
    (well_typed x \<and> well_typed y \<and> opc \<in> {OpAdd, OpSubtract, OpMultiply, OpDivide} \<and>
     typeOf (Binary opc x y) \<noteq> InvalidType)"
| "well_typed (Negated x) = well_typed x"
| "well_typed (Invoke name xs) =
    (list_all well_typed xs \<and> length xs \<le> 5 \<and>
     fr_valid (ResolveFunction name (map typeOf xs)))"

fun namesOf :: "'f expr \<Rightarrow> string set" where
  "namesOf (Constant c) = {}"
| "namesOf (Variable i) = {}"
| "namesOf (Parameter s) = {s}"
| "namesOf (Binary opc x y) = namesOf x \<union> namesOf y"
| "namesOf (Negated x) = namesOf x"
| "namesOf (Invoke name xs) = \<Union> (set (map namesOf xs))"

definition parameterIndex :: "string list \<Rightarrow> string \<Rightarrow> nat" where
  "parameterIndex names s = length (takeWhile (\<lambda>n. n \<noteq> s) names)"

fun code :: "('f, 'd) FloatOps \<Rightarrow> string list \<Rightarrow> 'f expr \<Rightarrow> 'f Instruction list" where
  "code F names (Constant c) =
    [(instruction_init F)\<lparr>in_op := PushConstant, in_outputType := Scalar, in_constant := c\<rparr>]"
| "code F names (Variable i) =
    [(instruction_init F)\<lparr>in_op := PushVariable, in_outputType := variableType i,
       in_operand := enumCode variableIds i\<rparr>]"
| "code F names (Parameter s) =
    [(instruction_init F)\<lparr>in_op := PushParameter, in_outputType := Scalar,
       in_operand := of_nat (parameterIndex names s)\<rparr>]"
| "code F names (Binary opc x y) =
    code F names x @ code F names y @
    [(instruction_init F)\<lparr>in_op := opc, in_outputType := typeOf (Binary opc x y)\<rparr>]"
| "code F names (Negated x) =
    code F names x @ [(instruction_init F)\<lparr>in_op := OpNegate, in_outputType := typeOf x\<rparr>]"
| "code F names (Invoke name xs) =
    concat (map (code F names) xs) @
    [(instruction_init F)\<lparr>in_op := OpCall, in_outputType := typeOf (Invoke name xs),
       in_operand := enumCode functionIds (fr_id (ResolveFunction name (map typeOf xs))),
       in_argumentCount := of_nat (length xs)\<rparr>]"

lemma parameterIndex_append:
  "s \<in> set names \<Longrightarrow> parameterIndex (names @ extra) s = parameterIndex names s"
  by (induction names) (auto simp: parameterIndex_def)

lemma parameterIndex_new: "s \<notin> set names \<Longrightarrow> parameterIndex (names @ [s]) s = length names"
  by (induction names) (auto simp: parameterIndex_def)

lemma code_append_names:
  "namesOf x \<subseteq> set names \<Longrightarrow> code F (names @ extra) x = code F names x"
proof (induction x)
  case (Invoke name xs)
  then have "map (code F (names @ extra)) xs = map (code F names) xs" by auto
  then show ?case by (simp only: code.simps)
qed (auto simp: parameterIndex_append)

subsection \<open>The grammar\<close>

definition identifierAt :: "string \<Rightarrow> nat \<Rightarrow> string" where
  "identifierAt e i =
    List.take (scan IsIdentifierContinue e (i + 1) - i) (List.drop i e)"

text \<open>The position after the blanks that follow the identifier at a position.\<close>

definition afterIdentifier :: "string \<Rightarrow> nat \<Rightarrow> nat" where
  "afterIdentifier e i = scan isBlank e (scan IsIdentifierContinue e (i + 1))"

definition charAt :: "string \<Rightarrow> nat \<Rightarrow> char \<Rightarrow> bool" where
  "charAt e i c \<longleftrightarrow> i < length e \<and> e ! i = c"

definition nameExpr :: "('f, 'd) FloatOps \<Rightarrow> string \<Rightarrow> 'f expr" where
  "nameExpr F name =
    (if name = ''pi'' then Constant (fo_literal F kPi)
     else if name = ''tau'' then Constant (fo_literal F kTau)
     else case ResolveVariable name of Some (i, t) \<Rightarrow> Variable i | None \<Rightarrow> Parameter name)"

inductive sumPhrase productPhrase unaryPhrase primaryPhrase ::
    "('f, 'd) FloatOps \<Rightarrow> string \<Rightarrow> nat \<Rightarrow> nat \<Rightarrow> 'f expr \<Rightarrow> bool"
  and argumentList :: "('f, 'd) FloatOps \<Rightarrow> string \<Rightarrow> nat \<Rightarrow> nat \<Rightarrow> 'f expr list \<Rightarrow> bool"
  for F :: "('f, 'd) FloatOps" and e :: string
where
  sum_one: "productPhrase F e i j x \<Longrightarrow> sumPhrase F e i j x"
| sum_blank: "sumPhrase F e i j x \<Longrightarrow> sumPhrase F e i (scan isBlank e j) x"
| sum_plus: "sumPhrase F e i j x \<Longrightarrow> charAt e j CHR ''+'' \<Longrightarrow> productPhrase F e (j + 1) k y \<Longrightarrow>
    sumPhrase F e i k (Binary OpAdd x y)"
| sum_minus: "sumPhrase F e i j x \<Longrightarrow> charAt e j CHR ''-'' \<Longrightarrow> productPhrase F e (j + 1) k y \<Longrightarrow>
    sumPhrase F e i k (Binary OpSubtract x y)"
| product_one: "unaryPhrase F e i j x \<Longrightarrow> productPhrase F e i j x"
| product_blank: "productPhrase F e i j x \<Longrightarrow> productPhrase F e i (scan isBlank e j) x"
| product_times: "productPhrase F e i j x \<Longrightarrow> charAt e j CHR ''*'' \<Longrightarrow> unaryPhrase F e (j + 1) k y \<Longrightarrow>
    productPhrase F e i k (Binary OpMultiply x y)"
| product_over: "productPhrase F e i j x \<Longrightarrow> charAt e j CHR ''/'' \<Longrightarrow> unaryPhrase F e (j + 1) k y \<Longrightarrow>
    productPhrase F e i k (Binary OpDivide x y)"
| sign_plus: "charAt e (scan isBlank e i) CHR ''+'' \<Longrightarrow> unaryPhrase F e (scan isBlank e i + 1) j x \<Longrightarrow>
    unaryPhrase F e i j x"
| sign_minus: "charAt e (scan isBlank e i) CHR ''-'' \<Longrightarrow> unaryPhrase F e (scan isBlank e i + 1) j x \<Longrightarrow>
    unaryPhrase F e i j (Negated x)"
| sign_none: "primaryPhrase F e (scan isBlank e i) j x \<Longrightarrow> unaryPhrase F e i j x"
| number: "i < length e \<Longrightarrow> isDigit (e ! i) \<or> e ! i = CHR ''.'' \<Longrightarrow> scanNumber e i = Inr j \<Longrightarrow>
    fo_from_chars F (List.take (j - i) (List.drop i e)) =
      Some (c, length (List.take (j - i) (List.drop i e))) \<Longrightarrow>
    fo_isfinite F c \<Longrightarrow> primaryPhrase F e i j (Constant c)"
| parenthesis: "charAt e i CHR ''('' \<Longrightarrow> sumPhrase F e (i + 1) j x \<Longrightarrow>
    charAt e (scan isBlank e j) CHR '')'' \<Longrightarrow> primaryPhrase F e i (scan isBlank e j + 1) x"
| name: "i < length e \<Longrightarrow> IsIdentifierStart (e ! i) \<Longrightarrow>
    \<not> charAt e (afterIdentifier e i) CHR ''('' \<Longrightarrow>
    primaryPhrase F e i (afterIdentifier e i) (nameExpr F (identifierAt e i))"
| call_none: "i < length e \<Longrightarrow> IsIdentifierStart (e ! i) \<Longrightarrow>
    charAt e (afterIdentifier e i) CHR ''('' \<Longrightarrow>
    charAt e (scan isBlank e (afterIdentifier e i + 1)) CHR '')'' \<Longrightarrow>
    primaryPhrase F e i (scan isBlank e (afterIdentifier e i + 1) + 1) (Invoke (identifierAt e i) [])"
| call_some: "i < length e \<Longrightarrow> IsIdentifierStart (e ! i) \<Longrightarrow>
    charAt e (afterIdentifier e i) CHR ''('' \<Longrightarrow>
    argumentList F e (scan isBlank e (afterIdentifier e i + 1)) j xs \<Longrightarrow>
    charAt e (scan isBlank e j) CHR '')'' \<Longrightarrow>
    primaryPhrase F e i (scan isBlank e j + 1) (Invoke (identifierAt e i) xs)"
| argument_one: "sumPhrase F e i j x \<Longrightarrow> argumentList F e i j [x]"
| argument_more: "argumentList F e i j xs \<Longrightarrow> charAt e (scan isBlank e j) CHR '','' \<Longrightarrow>
    sumPhrase F e (scan isBlank e j + 1) k x \<Longrightarrow> argumentList F e i k (xs @ [x])"

subsection \<open>What every step keeps\<close>

text \<open>The limits of the parser, and a recorded failure inside the input.\<close>

definition within_limits :: "string \<Rightarrow> 'f Parser \<Rightarrow> bool" where
  "within_limits e p \<longleftrightarrow>
     ps_position p \<le> length e \<and>
     length (ps_instructions p) \<le> kMaximumExpressionInstructions \<and>
     length (ps_parameters p) \<le> kMaximumExpressionParameters \<and>
     distinct (ps_parameters p) \<and> list_all (\<lambda>s. length s \<le> 31) (ps_parameters p) \<and>
     (failed p \<longrightarrow> ps_errorOffset p \<le> length e)"

definition grows :: "string \<Rightarrow> 'f Parser \<Rightarrow> 'f Parser \<Rightarrow> bool" where
  "grows e p q \<longleftrightarrow>
     ps_position p \<le> ps_position q \<and>
     (\<exists>is. ps_instructions q = ps_instructions p @ is) \<and>
     (\<exists>ns. ps_parameters q = ps_parameters p @ ns) \<and>
     (failed p \<longrightarrow> ps_error q = ps_error p \<and> ps_errorOffset q = ps_errorOffset p) \<and>
     (within_limits e p \<longrightarrow> within_limits e q)"

named_theorems growing "the steps of the parser only grow its state"

lemma grows_refl [growing]: "grows e p p"
  by (simp add: grows_def)

lemma grows_trans: "grows e p q \<Longrightarrow> grows e q r \<Longrightarrow> grows e p r"
  unfolding grows_def failed_def by (intro conjI) (auto intro: order_trans)

lemma grows_failed: "grows e p q \<Longrightarrow> failed p \<Longrightarrow> failed q"
  by (auto simp: grows_def failed_def)

lemma scan_bounds: "i \<le> scan P e i" "i \<le> length e \<Longrightarrow> scan P e i \<le> length e"
  using length_takeWhile_le [of P "List.drop i e"] by (simp_all add: scan_def)

lemma scan_idem [simp]: "scan P e (scan P e i) = scan P e i"
proof -
  have "takeWhile P (dropWhile P xs) = []" for xs by (induction xs) auto
  moreover have "List.drop (scan P e i) e = dropWhile P (List.drop i e)"
    by (metis add.commute drop_drop dropWhile_eq_drop scan_def)
  ultimately show ?thesis by (simp add: scan_def [of P e "scan P e i"])
qed

lemma grows_position:
  assumes "ps_position p \<le> i" and "ps_position p \<le> length e \<Longrightarrow> i \<le> length e"
  shows "grows e p (p\<lparr>ps_position := i\<rparr>)"
  using assms by (auto simp: grows_def within_limits_def failed_def)

lemma grows_skip [growing]: "grows e p (skipWhitespace e p)"
  unfolding skipWhitespace_def by (rule grows_position) (simp_all add: scan_bounds)

lemma grows_consume [growing]: "grows e p (snd (consume e c p))"
  by (auto simp: consume_def intro!: grows_position growing)

lemma grows_depth [growing]: "grows e p (p\<lparr>ps_depth := d\<rparr>)"
  by (auto simp: grows_def within_limits_def failed_def)

lemma grows_fail [growing]: "m \<noteq> [] \<Longrightarrow> grows e p (fail m p)"
  by (auto simp: grows_def within_limits_def failed_def fail_def)

lemma grows_leave [growing]: "grows e p (leaveDepth p)"
  by (simp add: leaveDepth_def growing)

lemma grows_enter [growing]: "grows e p (snd (enterDepth p))"
  by (simp add: enterDepth_def growing)

lemma grows_emit [growing]: "grows e p (snd (emit i p))"
  unfolding emit_def
  by (auto intro: grows_fail) (auto simp: grows_def within_limits_def failed_def)


lemma grows_emitTyped [growing]: "grows e p (snd (emitTyped i t p))"
  using grows_emit [of e p i] by (simp add: emitTyped_def case_prod_beta)

lemma grows_emitConstant [growing]: "grows e p (snd (emitConstant F c p))"
  by (simp add: emitConstant_def growing)

lemma parameterIndex_nth:
  "s \<in> set ns \<Longrightarrow> parameterIndex ns s < length ns \<and> ns ! parameterIndex ns s = s"
  by (induction ns) (auto simp: parameterIndex_def)

lemma parameterIndex_before: "i < parameterIndex ns s \<Longrightarrow> ns ! i \<noteq> s"
  by (induction ns arbitrary: i) (auto simp: parameterIndex_def nth_Cons split: if_splits nat.splits)

lemma find_index:
  "List.find (\<lambda>i. ns ! i = s) [0..<length ns] =
    (if s \<in> set ns then Some (parameterIndex ns s) else None)"
proof (cases "s \<in> set ns")
  case True
  have "List.find (\<lambda>i. ns ! i = s) [0..<length ns] = Some (parameterIndex ns s)"
  proof -
    have k: "parameterIndex ns s < length ns" "ns ! parameterIndex ns s = s"
      using parameterIndex_nth [OF True] by simp_all
    have "ns ! ([0..<length ns] ! j) \<noteq> s" if "j < parameterIndex ns s" for j
      using that k(1) parameterIndex_before [OF that] by simp
    then show ?thesis
      unfolding find_Some_iff by (intro exI [of _ "parameterIndex ns s"]) (simp add: k)
  qed
  then show ?thesis using True by simp
next
  case False
  then show ?thesis by (auto simp: find_None_iff in_set_conv_nth)
qed

lemma findOrCreateParameter_eq:
  "findOrCreateParameter s p =
    (if length s > 31 then (-1, fail ''parameter name exceeds 31 bytes'' p)
     else if s \<in> set (ps_parameters p) then (int (parameterIndex (ps_parameters p) s), p)
     else if length (ps_parameters p) \<ge> kMaximumExpressionParameters
     then (-1, fail ''expression exceeds 16 parameters'' p)
     else (int (length (ps_parameters p)), p\<lparr>ps_parameters := ps_parameters p @ [s]\<rparr>))"
  by (simp add: findOrCreateParameter_def find_index)

lemma grows_parameter [growing]: "grows e p (snd (findOrCreateParameter s p))"
  by (auto simp: findOrCreateParameter_eq intro!: growing)
    (auto simp: grows_def within_limits_def failed_def)

lemma grows_parseName [growing]: "grows e p (snd (parseName F s p))"
  using grows_parameter [of e p s]
  by (auto simp: parseName_def intro: growing grows_trans split: option.splits prod.splits)

lemma grows_finishCall [growing]: "grows e p (snd (finishCall F s ts p))"
  by (auto simp: finishCall_def Let_def intro: growing)

lemma scanNumber_bounds:
  assumes "i \<le> length e"
  shows "scanNumber e i = Inr j \<Longrightarrow> i \<le> j \<and> j \<le> length e"
    and "scanNumber e i = Inl (j, m) \<Longrightarrow> i \<le> j \<and> j \<le> length e \<and> m \<noteq> []"
proof -
  define a where "a = scan isDigit e i"
  define b where "b = (if a < length e \<and> e ! a = CHR ''.'' then scan isDigit e (a + 1) else a)"
  define c where "c = (if b + 1 < length e \<and> (e ! (b + 1) = CHR ''+'' \<or> e ! (b + 1) = CHR ''-'')
      then b + 2 else b + 1)"
  have a: "i \<le> a" "a \<le> length e" using scan_bounds assms by (simp_all add: a_def)
  have b: "a \<le> b" "b \<le> length e"
    using a scan_bounds [where i = "a + 1" and P = isDigit and e = e] by (auto simp: b_def)
  have c: "b \<le> scan isDigit e c" "b < length e \<Longrightarrow> scan isDigit e c \<le> length e"
    using scan_bounds [where i = c and P = isDigit and e = e] by (auto simp: c_def split: if_splits)
  have *: "scanNumber e i = Inr j \<Longrightarrow> j = b \<or> (b < length e \<and> j = scan isDigit e c)"
    "scanNumber e i = Inl (j, m) \<Longrightarrow> m \<noteq> [] \<and> (j = b \<or> (b < length e \<and> j = scan isDigit e c))"
    by (auto simp: scanNumber_def Let_def a_def [symmetric] b_def c_def split: if_splits)
  show "scanNumber e i = Inr j \<Longrightarrow> i \<le> j \<and> j \<le> length e"
    using *(1) a b c by auto
  show "scanNumber e i = Inl (j, m) \<Longrightarrow> i \<le> j \<and> j \<le> length e \<and> m \<noteq> []"
    using *(2) a b c by auto
qed


subsection \<open>What a parsing function establishes\<close>

definition typed :: "'f expr \<Rightarrow> ValueType \<Rightarrow> bool" where
  "typed x t \<longleftrightarrow> well_typed x \<and> typeOf x = t \<and> t \<noteq> InvalidType"

definition emits :: "('f, 'd) FloatOps \<Rightarrow> 'f Parser \<Rightarrow> 'f Parser \<Rightarrow> 'f expr \<Rightarrow> bool" where
  "emits F p q x \<longleftrightarrow>
     namesOf x \<subseteq> set (ps_parameters q) \<and>
     ps_instructions q = ps_instructions p @ code F (ps_parameters q) x"

definition emitsAll :: "('f, 'd) FloatOps \<Rightarrow> 'f Parser \<Rightarrow> 'f Parser \<Rightarrow> 'f expr list \<Rightarrow> bool" where
  "emitsAll F p q xs \<longleftrightarrow>
     \<Union> (set (map namesOf xs)) \<subseteq> set (ps_parameters q) \<and>
     ps_instructions q = ps_instructions p @ concat (map (code F (ps_parameters q)) xs)"

definition parsed ::
  "('f, 'd) FloatOps \<Rightarrow> string \<Rightarrow> (nat \<Rightarrow> nat \<Rightarrow> 'f expr \<Rightarrow> bool) \<Rightarrow> 'f Parser \<Rightarrow> ValueType \<Rightarrow>
    'f Parser \<Rightarrow> bool" where
  "parsed F e phrase p t q \<longleftrightarrow>
     grows e p q \<and>
     (\<not> failed q \<longrightarrow>
       (\<exists>x. phrase (ps_position p) (ps_position q) x \<and> typed x t \<and> emits F p q x))"

lemma parsed_grows: "parsed F e P p t q \<Longrightarrow> grows e p q"
  by (simp add: parsed_def)

lemma parsed_mono:
  "parsed F e P p t q \<Longrightarrow> (\<And>x. P (ps_position p) (ps_position q) x \<Longrightarrow> Q (ps_position p) (ps_position q) x) \<Longrightarrow>
    parsed F e Q p t q"
  by (auto simp: parsed_def)

lemma parsed_failed: "grows e p q \<Longrightarrow> failed q \<Longrightarrow> parsed F e P p t q"
  by (simp add: parsed_def)

text \<open>Steps that move only the position may come before or after.\<close>

definition quiet :: "'f Parser \<Rightarrow> 'f Parser \<Rightarrow> bool" where
  "quiet p q \<longleftrightarrow> ps_instructions q = ps_instructions p \<and> ps_parameters q = ps_parameters p \<and>
     ps_error q = ps_error p \<and> ps_errorOffset q = ps_errorOffset p"

lemma quiet_refl [simp]: "quiet p p"
  by (simp add: quiet_def)

lemma quiet_trans: "quiet p q \<Longrightarrow> quiet q r \<Longrightarrow> quiet p r"
  by (simp add: quiet_def)

lemma quiet_update [simp]:
  "quiet p (p\<lparr>ps_position := i\<rparr>)" "quiet p (p\<lparr>ps_depth := d\<rparr>)" "quiet p (skipWhitespace e p)"
  "quiet p (leaveDepth p)" "quiet p (snd (consume e c p))"
  by (auto simp: quiet_def skipWhitespace_def leaveDepth_def consume_def)

lemma quiet_failed: "quiet p q \<Longrightarrow> failed q = failed p"
  by (simp add: quiet_def failed_def)

lemma emits_quiet: "quiet p p' \<Longrightarrow> quiet q q' \<Longrightarrow> emits F p' q x \<Longrightarrow> emits F p q' x"
  by (simp add: emits_def quiet_def)

lemma emitsAll_quiet: "quiet p p' \<Longrightarrow> quiet q q' \<Longrightarrow> emitsAll F p' q xs \<Longrightarrow> emitsAll F p q' xs"
  by (simp add: emitsAll_def quiet_def)

lemma failed_fail [simp]: "m \<noteq> [] \<Longrightarrow> failed (fail m p)"
  by (simp add: failed_def fail_def)

lemma skip_position [simp]: "ps_position (skipWhitespace e p) = scan isBlank e (ps_position p)"
  by (simp add: skipWhitespace_def)

lemma consume_cases:
  obtains (hit) "charAt e (ps_position p) c" "consume e c p = (True, p\<lparr>ps_position := ps_position p + 1\<rparr>)"
  | (miss) "\<not> charAt e (ps_position p) c" "consume e c p = (False, p)"
  by (cases "charAt e (ps_position p) c") (auto simp: consume_def charAt_def)

lemma consumeEither_cases:
  obtains (hit) c where "c = a \<or> c = b" "charAt e (ps_position p) c"
    "consumeEither e a b p = (True, p\<lparr>ps_position := ps_position p + 1\<rparr>)"
  | (miss) "consumeEither e a b p = (False, p)"
  by (cases rule: consume_cases [of e p a]; cases rule: consume_cases [of e p b])
    (auto simp: consumeEither_def)

lemma emit_cases:
  obtains (full) q where "emit i p = (False, q)" "failed q" "grows e p q"
  | (room) "emit i p = (True, p\<lparr>ps_instructions := ps_instructions p @ [i]\<rparr>)"
    "grows e p (p\<lparr>ps_instructions := ps_instructions p @ [i]\<rparr>)"
  using grows_emit [of e p i] by (auto simp: emit_def split: if_splits intro: that)

text \<open>How much input is left, counted in calls.\<close>

definition room :: "string \<Rightarrow> 'f Parser \<Rightarrow> nat" where
  "room e p = 8 * (length e - ps_position p)"

lemma room_grows: "grows e p q \<Longrightarrow> room e q \<le> room e p"
  by (auto simp: room_def grows_def)

lemma room_consumed:
  "charAt e (ps_position p) c \<Longrightarrow> grows e (p\<lparr>ps_position := ps_position p + 1\<rparr>) q \<Longrightarrow> room e q + 8 \<le> room e p"
  by (auto simp: room_def charAt_def grows_def)

lemma grows_step: "charAt e (ps_position p) c \<Longrightarrow> grows e p (p\<lparr>ps_position := ps_position p + 1\<rparr>)"
  by (rule grows_position) (auto simp: charAt_def)

subsection \<open>Code grows with the state\<close>

lemma emits_later:
  assumes "emits F p q x" and "grows e q r"
  shows "namesOf x \<subseteq> set (ps_parameters r)" "code F (ps_parameters r) x = code F (ps_parameters q) x"
  using assms code_append_names [of x "ps_parameters q" F] by (auto simp: emits_def grows_def)

lemma emitsAll_later:
  assumes "emitsAll F p q xs" and "grows e q r"
  shows "\<Union> (set (map namesOf xs)) \<subseteq> set (ps_parameters r)"
    "map (code F (ps_parameters r)) xs = map (code F (ps_parameters q)) xs"
proof -
  obtain ns where ns: "ps_parameters r = ps_parameters q @ ns" using assms(2) by (auto simp: grows_def)
  have names: "namesOf x \<subseteq> set (ps_parameters q)" if "x \<in> set xs" for x
    using assms(1) that by (auto simp: emitsAll_def)
  then show "\<Union> (set (map namesOf xs)) \<subseteq> set (ps_parameters r)" using ns by auto
  show "map (code F (ps_parameters r)) xs = map (code F (ps_parameters q)) xs"
    using names by (simp add: ns code_append_names)
qed

lemma emits_Binary:
  assumes "emits F p q x" and "emits F q r y" and "grows e q r"
    and "i = (instruction_init F)\<lparr>in_op := opc, in_outputType := typeOf (Binary opc x y)\<rparr>"
  shows "emits F p (r\<lparr>ps_instructions := ps_instructions r @ [i]\<rparr>) (Binary opc x y)"
  using assms emits_later [OF assms(1,3)] by (simp add: emits_def)

lemma emits_Negated:
  assumes "emits F p q x"
    and "i = (instruction_init F)\<lparr>in_op := OpNegate, in_outputType := typeOf x\<rparr>"
  shows "emits F p (q\<lparr>ps_instructions := ps_instructions q @ [i]\<rparr>) (Negated x)"
  using assms by (simp add: emits_def)

lemma emitsAll_snoc:
  assumes "emitsAll F p q xs" and "emits F q r x" and "grows e q r"
  shows "emitsAll F p r (xs @ [x])"
  using assms(1,2) emitsAll_later(1) [OF assms(1,3)]
  by (simp add: emitsAll_def emits_def emitsAll_later(2) [OF assms(1,3)])


subsection \<open>Leaves\<close>

lemma emitTyped_parsed:
  assumes g: "grows e p q"
    and x: "\<not> failed q \<Longrightarrow> phrase (ps_position p) (ps_position q) x \<and> typed x t \<and>
      emits F p (q\<lparr>ps_instructions := ps_instructions q @ [i]\<rparr>) x"
    and r: "emitTyped i t q = (t', r)"
  shows "parsed F e phrase p t' r"
proof (cases rule: emit_cases [of i q e])
  case (full q')
  then show ?thesis
    using r grows_trans [OF g] by (auto simp: emitTyped_def intro: parsed_failed)
next
  case room
  then show ?thesis
    using r grows_trans [OF g] x by (auto simp: emitTyped_def parsed_def failed_def)
qed

lemma parseNumber_parsed:
  assumes start: "ps_position p < length e" "isDigit (e ! ps_position p) \<or> e ! ps_position p = CHR ''.''"
    and r: "parseNumber F e p = (t, q)"
  shows "parsed F e (primaryPhrase F e) p t q"
proof (cases "scanNumber e (ps_position p)")
  case (Inl a)
  then obtain i m where a: "scanNumber e (ps_position p) = Inl (i, m)" by (cases a) auto
  note b = scanNumber_bounds(2) [OF less_imp_le [OF start(1)] a]
  have "grows e p (p\<lparr>ps_position := i\<rparr>)" using b by (auto intro: grows_position)
  then have "grows e p (fail m (p\<lparr>ps_position := i\<rparr>))" using b grows_trans grows_fail by blast
  then show ?thesis using a r b by (auto simp: parseNumber_def intro: parsed_failed)
next
  case (Inr j)
  note b = scanNumber_bounds(1) [OF less_imp_le [OF start(1)] Inr]
  have g: "grows e p (p\<lparr>ps_position := j\<rparr>)" using b by (auto intro: grows_position)
  have f: "grows e p (fail ''number is outside finite float range'' (p\<lparr>ps_position := j\<rparr>))"
    using grows_trans [OF g grows_fail] by simp
  define token where "token = List.take (j - ps_position p) (List.drop (ps_position p) e)"
  show ?thesis
  proof (cases "\<exists>c. fo_from_chars F token = Some (c, length token) \<and> fo_isfinite F c")
    case True
    then obtain c where c: "fo_from_chars F token = Some (c, length token)" "fo_isfinite F c" by blast
    have r': "emitTyped ((instruction_init F)\<lparr>in_op := PushConstant, in_outputType := Scalar,
        in_constant := c\<rparr>) Scalar (p\<lparr>ps_position := j\<rparr>) = (t, q)"
      using r c Inr by (simp add: parseNumber_def Let_def emitConstant_def flip: token_def)
    have "primaryPhrase F e (ps_position p) j (Constant c)"
      using start Inr c unfolding token_def by (rule number)
    then show ?thesis
      by (intro emitTyped_parsed [OF g _ r', where x = "Constant c"]) (simp add: typed_def emits_def)
  next
    case False
    then have "(t, q) = (InvalidType, fail ''number is outside finite float range'' (p\<lparr>ps_position := j\<rparr>))"
      using r Inr by (auto simp: parseNumber_def Let_def simp flip: token_def
          split: option.splits if_splits)
    then show ?thesis using f by (simp add: parsed_failed)
  qed
qed

lemma ResolveVariable_type: "ResolveVariable s = Some (i, t) \<Longrightarrow> t = variableType i"
  by (auto simp: ResolveVariable_def variableType_def split: if_splits)

lemma variableType_valid: "variableType i \<noteq> InvalidType"
  by (simp add: variableType_def)

lemma parseName_parsed:
  assumes r: "parseName F s p = (t, q)"
    and phrase: "phrase (ps_position p) (ps_position p) (nameExpr F s)"
  shows "parsed F e phrase p t q"
proof -
  consider (const) c where "nameExpr F s = Constant c" "parseName F s p = emitConstant F c p"
    | (var) i where "nameExpr F s = Variable i" "parseName F s p =
        emitTyped ((instruction_init F)\<lparr>in_op := PushVariable, in_outputType := variableType i,
          in_operand := enumCode variableIds i\<rparr>) (variableType i) p"
    | (param) "nameExpr F s = Parameter s" "parseName F s p =
        (case findOrCreateParameter s p of
             (parameter, p) \<Rightarrow>
               if parameter < 0 then (InvalidType, p)
               else emitTyped ((instruction_init F)\<lparr>in_op := PushParameter, in_outputType := Scalar,
                 in_operand := word_of_int parameter\<rparr>) Scalar p)"
  proof -
    consider "s = ''pi''" | "s = ''tau''"
      | i where "s \<noteq> ''pi''" "s \<noteq> ''tau''" "ResolveVariable s = Some (i, variableType i)"
      | "s \<noteq> ''pi''" "s \<noteq> ''tau''" "ResolveVariable s = None"
    proof (cases "ResolveVariable s")
      case None
      then show thesis using that by blast
    next
      case (Some a)
      then have "ResolveVariable s = Some (fst a, variableType (fst a))"
        using ResolveVariable_type [of s "fst a" "snd a"] by (cases a) simp
      then show thesis using that by blast
    qed
    then show thesis
    proof cases
      case 1 then show thesis by (intro const) (simp_all add: nameExpr_def parseName_def)
    next
      case 2 then show thesis by (intro const) (simp_all add: nameExpr_def parseName_def)
    next
      case 3 then show thesis by (intro var) (simp_all add: nameExpr_def parseName_def)
    next
      case 4 then show thesis by (intro param) (simp_all add: nameExpr_def parseName_def)
    qed
  qed
  then show ?thesis
  proof cases
    case const
    then show ?thesis
      using emitTyped_parsed [OF grows_refl, of p phrase "Constant c" Scalar F] r phrase
      by (auto simp: emitConstant_def typed_def emits_def)
  next
    case var
    then show ?thesis
      using emitTyped_parsed [OF grows_refl, of p phrase "Variable i" "variableType i" F] r phrase
      by (auto simp: typed_def emits_def variableType_valid)
  next
    case param
    obtain k p' where k: "findOrCreateParameter s p = (k, p')" by (cases "findOrCreateParameter s p")
    have g: "grows e p p'" using grows_parameter [of e p s] k by simp
    show ?thesis
    proof (cases "k < 0")
      case True
      then have "failed p'"
        using k by (auto simp: findOrCreateParameter_eq split: if_splits)
      then show ?thesis using True param k r g by (auto intro: parsed_failed)
    next
      case False
      have len: "length s \<le> 31" using False k by (auto simp: findOrCreateParameter_eq split: if_splits)
      have same: "ps_position p' = ps_position p" "ps_instructions p' = ps_instructions p"
        using k False by (auto simp: findOrCreateParameter_eq split: if_splits)
      have names: "s \<in> set (ps_parameters p')" "k = int (parameterIndex (ps_parameters p') s)"
        using k False
        by (auto simp: findOrCreateParameter_eq parameterIndex_new split: if_splits)
      show ?thesis
        using emitTyped_parsed [OF g, of phrase "Parameter s" Scalar F] r param k False phrase len same names
        by (auto simp: typed_def emits_def)
    qed
  qed
qed


subsection \<open>Calls\<close>

lemma resolved_fields [simp]:
  "fr_valid (resolved i t)" "fr_output (resolved i t) = t" "fr_id (resolved i t) = i"
  "\<not> fr_valid unresolved"
  by (simp_all add: resolved_def unresolved_def)

text \<open>The output type of a function: fixed, or the type of one of its arguments.\<close>

fun outputOf :: "FunctionId \<Rightarrow> ValueType list \<Rightarrow> ValueType" where
  "outputOf f ts =
    (if f = FnVec2 then Vector2
     else if f \<in> {FnVec3, FnCross, FnRotateAroundAxis} then Vector3
     else if f \<in> {FnX, FnY, FnZ, FnInverseLerp, FnRemap, FnDot, FnVectorLength, FnDistance,
       FnEndpointMask, FnNoise1, FnRepeat, FnPingPong} then Scalar
     else if f = FnStep then ts ! 1
     else if f \<in> {FnSmoothStep, FnSmootherStep} then ts ! 2
     else ts ! 0)"

declare outputOf.simps [simp del]

definition sourceOf :: "FunctionId \<Rightarrow> nat" where
  "sourceOf f = (if f = FnStep then 1 else if f \<in> {FnSmoothStep, FnSmootherStep} then 2 else 0)"

lemma outputOf_valid:
  "(\<And>i. i < length ts \<Longrightarrow> ts ! i \<noteq> InvalidType) \<Longrightarrow> sourceOf f < length ts \<Longrightarrow>
    outputOf f ts \<noteq> InvalidType"
  by (cases f) (simp_all add: outputOf.simps sourceOf_def)

definition resolves :: "ValueType list \<Rightarrow> FunctionResolution \<Rightarrow> bool" where
  "resolves ts r \<longleftrightarrow> (fr_valid r \<longrightarrow>
     fr_output r = outputOf (fr_id r) ts \<and>
     sourceOf (fr_id r) < length ts)"

lemma resolves_if: "(c \<Longrightarrow> resolves ts x) \<Longrightarrow> resolves ts y \<Longrightarrow> resolves ts (if c then x else y)"
  by simp

lemma resolves_none: "resolves ts unresolved"
  by (simp add: resolves_def)

lemma resolves_leaf:
  "resolves ts (unaryAny ts f)" "resolves ts (binarySame ts f)"
  if "f \<notin> {FnVec2, FnVec3, FnCross, FnRotateAroundAxis, FnX, FnY, FnZ, FnInverseLerp, FnRemap, FnDot,
    FnVectorLength, FnDistance, FnEndpointMask, FnNoise1, FnRepeat, FnPingPong, FnStep, FnSmoothStep,
    FnSmootherStep}"
  using that by (simp_all add: resolves_def unaryAny_def binarySame_def outputOf.simps sourceOf_def)

lemma resolves_componentwise: "resolves ts (resolveComponentwise name ts)"
  unfolding resolveComponentwise_def
  by (intro resolves_if resolves_none resolves_leaf) simp_all

lemma resolves_mixed: "resolves ts (resolveMixed name ts)"
  unfolding resolveMixed_def Let_def
  by (intro resolves_if) (auto simp: resolves_def outputOf.simps sourceOf_def)

lemma resolves_function: "resolves ts (ResolveFunction name ts)"
  unfolding ResolveFunction_def Let_def
  by (intro resolves_if resolves_componentwise resolves_mixed) (auto simp: resolves_def outputOf.simps sourceOf_def)

lemma resolve_output:
  assumes "list_all (\<lambda>t. t \<noteq> InvalidType) ts" and "fr_valid (ResolveFunction name ts)"
  shows "fr_output (ResolveFunction name ts) \<noteq> InvalidType"
  using assms resolves_function [of ts name] outputOf_valid [of ts "fr_id (ResolveFunction name ts)"]
  by (simp add: resolves_def list_all_length)

definition typedAll :: "'f expr list \<Rightarrow> ValueType list \<Rightarrow> bool" where
  "typedAll xs ts \<longleftrightarrow> list_all2 typed xs ts"

lemma typedAll_iff:
  "typedAll xs ts \<longleftrightarrow> list_all well_typed xs \<and> map typeOf xs = ts \<and>
     list_all (\<lambda>t. t \<noteq> InvalidType) ts"
  unfolding typedAll_def list_all2_conv_all_nth list_all_length list_eq_iff_nth_eq typed_def length_map
  by (metis nth_map)

lemma finishCall_parsed:
  assumes g: "grows e p q"
    and x: "\<not> failed q \<Longrightarrow> phrase (ps_position p) (ps_position q) (Invoke name xs) \<and>
      typedAll xs ts \<and> length xs \<le> 5 \<and> emitsAll F p q xs"
    and r: "finishCall F name ts q = (t, r)"
  shows "parsed F e phrase p t r"
proof -
  have g': "grows e p r" using grows_trans [OF g] grows_finishCall [of e q F name ts] r by simp
  consider "failed q"
    | (bad) "\<not> failed q" "\<not> fr_valid (ResolveFunction name ts)"
    | (good) "\<not> failed q" "fr_valid (ResolveFunction name ts)" by blast
  then show ?thesis
  proof cases
    case 1
    then show ?thesis using r g by (simp add: finishCall_def parsed_failed)
  next
    case bad
    then have "failed r" using r by (auto simp: finishCall_def Let_def)
    then show ?thesis using g' by (simp add: parsed_failed)
  next
    case good
    note x = x [OF good(1)]
    have ts: "map typeOf xs = ts" using x by (simp add: typedAll_iff)
    have "typed (Invoke name xs) (fr_output (ResolveFunction name ts))"
      using x good(2) resolve_output [of ts name] by (auto simp: typed_def typedAll_iff)
    then show ?thesis
      using good x ts r
      by (intro emitTyped_parsed [OF g, where x = "Invoke name xs"])
        (auto simp: finishCall_def Let_def emits_def emitsAll_def)
  qed
qed

end
