(* ===== verification/MathParsing.thy ===== *)
theory MathParsing
  imports MathGrammar
begin

section \<open>The parser is correct and total\<close>

text \<open>
  Every function of the recursive descent, given eight calls for each byte that is left, returns,
  and without a failure has read a phrase of its nonterminal and emitted the code of its tree.
  The statement for all eight functions is proved by induction on the fuel.
\<close>

subsection \<open>The recursive descent is correct for any sufficient fuel\<close>

definition yields ::
  "('f, 'd) FloatOps \<Rightarrow> string \<Rightarrow> (nat \<Rightarrow> nat \<Rightarrow> 'f expr \<Rightarrow> bool) \<Rightarrow> 'f Parser \<Rightarrow>
    (ValueType \<times> 'f Parser) option \<Rightarrow> bool" where
  "yields F e phrase p r \<longleftrightarrow> (\<exists>t q. r = Some (t, q) \<and> parsed F e phrase p t q)"

text \<open>A loop extends a phrase that ends where it starts.\<close>

definition continues ::
  "('f, 'd) FloatOps \<Rightarrow> string \<Rightarrow> (nat \<Rightarrow> nat \<Rightarrow> 'f expr \<Rightarrow> bool) \<Rightarrow> ValueType \<Rightarrow> 'f Parser \<Rightarrow>
    (ValueType \<times> 'f Parser) option \<Rightarrow> bool" where
  "continues F e phrase left p r \<longleftrightarrow>
     (\<exists>t q. r = Some (t, q) \<and> grows e p q \<and>
       (\<not> failed q \<longrightarrow> (\<forall>p0 i x. phrase i (ps_position p) x \<and> typed x left \<and> emits F p0 p x \<longrightarrow>
          (\<exists>y. phrase i (ps_position q) y \<and> typed y t \<and> emits F p0 q y))))"

definition callTail ::
  "('f, 'd) FloatOps \<Rightarrow> string \<Rightarrow> nat \<Rightarrow> nat \<Rightarrow> 'f expr list \<Rightarrow> bool" where
  "callTail F e i j xs \<longleftrightarrow>
     (xs = [] \<and> charAt e (scan isBlank e i) CHR '')'' \<and> j = scan isBlank e i + 1) \<or>
     (\<exists>k. argumentList F e (scan isBlank e i) k xs \<and> charAt e (scan isBlank e k) CHR '')'' \<and>
          j = scan isBlank e k + 1)"

definition yieldsCall ::
  "('f, 'd) FloatOps \<Rightarrow> string \<Rightarrow> string \<Rightarrow> 'f Parser \<Rightarrow> (ValueType \<times> 'f Parser) option \<Rightarrow> bool" where
  "yieldsCall F e name p r \<longleftrightarrow>
     yields F e (\<lambda>i j x. \<exists>xs. x = Invoke name xs \<and> callTail F e i j xs) p r"

definition pending ::
  "('f, 'd) FloatOps \<Rightarrow> string \<Rightarrow> nat \<Rightarrow> nat \<Rightarrow> 'f expr list \<Rightarrow> bool" where
  "pending F e i j xs \<longleftrightarrow>
     (xs = [] \<and> j = i) \<or>
     (\<exists>k. argumentList F e i k xs \<and> charAt e (scan isBlank e k) CHR '','' \<and>
          j = scan isBlank e k + 1)"

definition continuesArguments ::
  "('f, 'd) FloatOps \<Rightarrow> string \<Rightarrow> ValueType list \<Rightarrow> 'f Parser \<Rightarrow>
    (ValueType list \<times> 'f Parser) option \<Rightarrow> bool" where
  "continuesArguments F e ts p r \<longleftrightarrow>
     (\<exists>us q. r = Some (us, q) \<and> grows e p q \<and>
       (\<not> failed q \<longrightarrow> length us \<le> 5 \<and>
         (\<forall>p0 i xs. pending F e i (ps_position p) xs \<and> typedAll xs ts \<and> emitsAll F p0 p xs \<longrightarrow>
          (\<exists>ys k. argumentList F e i k ys \<and> charAt e (scan isBlank e k) CHR '')'' \<and>
             ps_position q = scan isBlank e k + 1 \<and> typedAll ys us \<and> emitsAll F p0 q ys))))"

definition correct_at :: "('f, 'd) FloatOps \<Rightarrow> string \<Rightarrow> nat \<Rightarrow> bool" where
  "correct_at F e n \<longleftrightarrow>
     (\<forall>p. room e p + 4 \<le> n \<longrightarrow> yields F e (sumPhrase F e) p (parseAddSubtract n F e p)) \<and>
     (\<forall>p. room e p + 3 \<le> n \<longrightarrow> yields F e (productPhrase F e) p (parseMultiplyDivide n F e p)) \<and>
     (\<forall>p. room e p + 2 \<le> n \<longrightarrow> yields F e (unaryPhrase F e) p (parseUnary n F e p)) \<and>
     (\<forall>p. room e p + 1 \<le> n \<longrightarrow>
        yields F e (\<lambda>i. primaryPhrase F e (scan isBlank e i)) p (parsePrimary n F e p)) \<and>
     (\<forall>left p. room e p + 1 \<le> n \<longrightarrow> continues F e (sumPhrase F e) left p (addLoop n F e left p)) \<and>
     (\<forall>left p. room e p + 1 \<le> n \<longrightarrow> continues F e (productPhrase F e) left p (mulLoop n F e left p)) \<and>
     (\<forall>name p. room e p + 6 \<le> n \<longrightarrow> yieldsCall F e name p (parseFunction n F e name p)) \<and>
     (\<forall>ts p. room e p + 5 \<le> n \<longrightarrow> continuesArguments F e ts p (argumentLoop n F e ts p))"

lemma yields_continues:
  assumes "parsed F e P p t q" and "\<And>i j x. P i j x \<Longrightarrow> Q i j x" and "continues F e Q t q r"
  shows "yields F e Q p r"
proof -
  from assms(3) obtain u q' where r: "r = Some (u, q')" and g: "grows e q q'"
    and c: "\<not> failed q' \<Longrightarrow> Q i (ps_position q) x \<Longrightarrow> typed x t \<Longrightarrow> emits F p0 q x \<Longrightarrow>
      \<exists>y. Q i (ps_position q') y \<and> typed y u \<and> emits F p0 q' y" for p0 i x
    unfolding continues_def by blast
  have "grows e p q'" using grows_trans [OF parsed_grows [OF assms(1)] g] .
  moreover have "\<exists>x. Q (ps_position p) (ps_position q') x \<and> typed x u \<and> emits F p q' x" if "\<not> failed q'"
  proof -
    have "\<not> failed q" using that grows_failed [OF g] by blast
    then show ?thesis using assms(1,2) c [OF that] unfolding parsed_def by blast
  qed
  ultimately show ?thesis unfolding yields_def r parsed_def by blast
qed

lemma continues_failed:
  "grows e p q \<Longrightarrow> failed q \<Longrightarrow> continues F e P left p (Some (t, q))"
  by (simp add: continues_def)

lemma continues_quiet:
  assumes "quiet p q" and "grows e p q"
    and "\<And>i x. P i (ps_position p) x \<Longrightarrow> P i (ps_position q) x"
  shows "continues F e P left p (Some (left, q))"
  using assms emits_quiet [OF quiet_refl assms(1)] unfolding continues_def by blast

text \<open>One more operand: the loop goes on after the operator and the operand are read.\<close>

lemma continues_operand:
  fixes F :: "('f, 'd) FloatOps" and P :: "nat \<Rightarrow> nat \<Rightarrow> 'f expr \<Rightarrow> bool"
  assumes c: "charAt e (ps_position p) c"
    and y: "parsed F e Q (p\<lparr>ps_position := ps_position p + 1\<rparr>) right q"
    and t: "\<And>x y :: 'f expr. typed x left \<Longrightarrow> typed y right \<Longrightarrow> typed (Binary opc x y) t"
    and phrase: "\<And>i k x y. P i (ps_position p) x \<Longrightarrow> Q (ps_position p + 1) k y \<Longrightarrow> P i k (Binary opc x y)"
    and ins: "ins = (instruction_init F)\<lparr>in_op := opc, in_outputType := t\<rparr>"
    and r: "continues F e P t (q\<lparr>ps_instructions := ps_instructions q @ [ins]\<rparr>) r"
    and g: "grows e q (q\<lparr>ps_instructions := ps_instructions q @ [ins]\<rparr>)"
  shows "continues F e P left p r"
proof -
  define q1 where "q1 = q\<lparr>ps_instructions := ps_instructions q @ [ins]\<rparr>"
  from r obtain u q2 where r': "r = Some (u, q2)" and g2: "grows e q1 q2"
    and k: "\<not> failed q2 \<Longrightarrow> P i (ps_position q1) x \<Longrightarrow> typed x t \<Longrightarrow> emits F p0 q1 x \<Longrightarrow>
      \<exists>y. P i (ps_position q2) y \<and> typed y u \<and> emits F p0 q2 y" for p0 i x
    unfolding continues_def q1_def by blast
  have gq: "grows e p q" using grows_trans [OF grows_step [OF c] parsed_grows [OF y]] .
  have "\<exists>y. P i (ps_position q2) y \<and> typed y u \<and> emits F p0 q2 y"
    if ok: "\<not> failed q2" and x: "P i (ps_position p) x" "typed x left" "emits F p0 p x" for p0 i x
  proof -
    have "\<not> failed q" using ok grows_failed [OF g2] by (auto simp: q1_def failed_def)
    then obtain z where z: "Q (ps_position p + 1) (ps_position q) z" "typed z right"
      "emits F (p\<lparr>ps_position := ps_position p + 1\<rparr>) q z"
      using y unfolding parsed_def by auto
    have z': "emits F p q z" using emits_quiet [OF _ quiet_refl z(3)] by simp
    have "ins = (instruction_init F)\<lparr>in_op := opc, in_outputType := typeOf (Binary opc x z)\<rparr>"
      using ins t [OF x(2) z(2)] by (simp add: typed_def)
    from emits_Binary [OF x(3) z' gq this] have "emits F p0 q1 (Binary opc x z)"
      by (simp add: q1_def)
    then show ?thesis
      using k [OF ok, of i "Binary opc x z" p0] phrase [OF x(1) z(1)] t [OF x(2) z(2)]
      by (simp add: q1_def)
  qed
  then show ?thesis
    using grows_trans [OF grows_trans [OF gq g] g2 [unfolded q1_def]]
    unfolding continues_def r' by blast
qed

lemma continues_after:
  assumes "quiet p q" and "grows e p q"
    and "\<And>i x. P i (ps_position p) x \<Longrightarrow> P i (ps_position q) x"
    and "continues F e P left q r"
  shows "continues F e P left p r"
proof -
  from assms(4) obtain u q' where r: "r = Some (u, q')" and g: "grows e q q'"
    and k: "\<not> failed q' \<Longrightarrow> P i (ps_position q) x \<Longrightarrow> typed x left \<Longrightarrow> emits F p0 q x \<Longrightarrow>
      \<exists>y. P i (ps_position q') y \<and> typed y u \<and> emits F p0 q' y" for p0 i x
    unfolding continues_def by blast
  show ?thesis
    using grows_trans [OF assms(2) g] k assms(3) emits_quiet [OF quiet_refl assms(1)]
    unfolding continues_def r by blast
qed


lemma continues_emit:
  fixes F :: "('f, 'd) FloatOps" and P :: "nat \<Rightarrow> nat \<Rightarrow> 'f expr \<Rightarrow> bool"
  assumes c: "charAt e (ps_position p) c"
    and y: "parsed F e Q (p\<lparr>ps_position := ps_position p + 1\<rparr>) right q"
    and t: "\<And>x y :: 'f expr. typed x left \<Longrightarrow> typed y right \<Longrightarrow> typed (Binary opc x y) t"
    and phrase: "\<And>i k x y. P i (ps_position p) x \<Longrightarrow> Q (ps_position p + 1) k y \<Longrightarrow> P i k (Binary opc x y)"
    and loop: "\<And>q'. room e q' + 8 \<le> room e p \<Longrightarrow> continues F e P t q' (loop q')"
  shows "continues F e P left p
    (case emit ((instruction_init F)\<lparr>in_op := opc, in_outputType := t\<rparr>) q of
       (False, q) \<Rightarrow> Some (InvalidType, q) | (True, q) \<Rightarrow> loop q)"
    (is "continues F e P left p (case emit ?i q of (False, q) \<Rightarrow> _ q | (True, q) \<Rightarrow> loop q)")
proof (cases rule: emit_cases [of ?i q e])
  case (full q')
  have "grows e p q'"
    using grows_trans [OF grows_trans [OF grows_step [OF c] parsed_grows [OF y]] full(3)] .
  then show ?thesis using full by (simp add: continues_failed)
next
  case room
  have "room e (q\<lparr>ps_instructions := ps_instructions q @ [?i]\<rparr>) + 8 \<le> room e p"
    using room_consumed [OF c parsed_grows [OF y]] by (simp add: room_def)
  from continues_operand [where P = P, OF c y t phrase refl loop [OF this] room(2)] show ?thesis
    using room(1) by simp
qed

lemma typed_sum:
  "typed x left \<Longrightarrow> typed y left \<Longrightarrow> opc \<in> {OpAdd, OpSubtract} \<Longrightarrow> typed (Binary opc x y) left"
  by (auto simp: typed_def)

lemma typed_product:
  "typed x left \<Longrightarrow> typed y right \<Longrightarrow>
    (opc, c) \<in> {(OpMultiply, CHR ''*''), (OpDivide, CHR ''/'')} \<Longrightarrow>
    productType c left right \<noteq> InvalidType \<Longrightarrow> typed (Binary opc x y) (productType c left right)"
  by (auto simp: typed_def)

lemma correct_addLoop:
  assumes n: "correct_at F e n" and room: "room e p \<le> n"
  shows "continues F e (sumPhrase F e) left p (addLoop (Suc n) F e left p)"
proof (cases "failed p")
  case True
  then show ?thesis by (simp add: continues_failed growing)
next
  case False
  define p1 where "p1 = skipWhitespace e p"
  have r1: "room e p1 \<le> n" using room room_grows [OF grows_skip [of e p]] by (simp add: p1_def)
  have "continues F e (sumPhrase F e) left p1 (addLoop (Suc n) F e left p)"
  proof (cases rule: consumeEither_cases [of "CHR ''+''" "CHR ''-''" e p1])
    case miss
    then show ?thesis
      using False by (auto simp: p1_def [symmetric] intro: continues_quiet growing)
  next
    case (hit c)
    define p2 where "p2 = p1\<lparr>ps_position := ps_position p1 + 1\<rparr>"
    have c: "e ! (ps_position p2 - 1) = c" using hit(2) by (simp add: p2_def charAt_def)
    have "room e p2 + 3 \<le> n"
      using room_consumed [OF hit(2) grows_refl] r1 by (simp add: p2_def)
    then obtain right q where q: "parseMultiplyDivide n F e p2 = Some (right, q)"
      and parsed: "parsed F e (productPhrase F e) p2 right q"
      using n by (auto simp: correct_at_def yields_def)
    have eq: "addLoop (Suc n) F e left p =
      (if left = InvalidType \<or> left \<noteq> right
       then Some (InvalidType, fail ''addition and subtraction require matching types'' q)
       else case emit ((instruction_init F)\<lparr>in_op := (if c = CHR ''+'' then OpAdd else OpSubtract),
                   in_outputType := left\<rparr>) q of
         (False, q) \<Rightarrow> Some (InvalidType, q) | (True, q) \<Rightarrow> addLoop n F e left q)"
      using False hit(3) [folded p2_def] q c by (simp add: p1_def [symmetric] Let_def)
    show ?thesis
    proof (cases "left = InvalidType \<or> left \<noteq> right")
      case True
      have "grows e p1 (fail ''addition and subtraction require matching types'' q)"
        by (rule grows_trans [OF grows_trans [OF grows_step [OF hit(2)]
              parsed_grows [OF parsed [unfolded p2_def]]] grows_fail]) simp
      then show ?thesis using True unfolding eq by (simp add: continues_failed)
    next
      case False
      have "continues F e (sumPhrase F e) left p1
        (case emit ((instruction_init F)\<lparr>in_op := (if c = CHR ''+'' then OpAdd else OpSubtract),
                   in_outputType := left\<rparr>) q of
         (False, q) \<Rightarrow> Some (InvalidType, q) | (True, q) \<Rightarrow> addLoop n F e left q)"
      proof (rule continues_emit [OF hit(2) parsed [unfolded p2_def]])
        show "typed (Binary (if c = CHR ''+'' then OpAdd else OpSubtract) x y) left"
          if "typed x left" "typed y right" for x y :: "'a expr"
          using typed_sum [of x left y] that False by auto
        show "sumPhrase F e i k (Binary (if c = CHR ''+'' then OpAdd else OpSubtract) x y)"
          if "sumPhrase F e i (ps_position p1) x" "productPhrase F e (ps_position p1 + 1) k y" for i k x y
          using hit(1,2) sum_plus [OF that(1) _ that(2)] sum_minus [OF that(1) _ that(2)] by auto
        show "continues F e (sumPhrase F e) left q' (addLoop n F e left q')"
          if "room e q' + 8 \<le> room e p1" for q'
          using n that r1 by (simp add: correct_at_def)
      qed
      then show ?thesis unfolding eq if_not_P [OF False] .
    qed
  qed
  then show ?thesis
    by (rule continues_after [rotated 3]) (simp_all add: p1_def growing sum_blank)
qed

lemma correct_mulLoop:
  assumes n: "correct_at F e n" and room: "room e p \<le> n"
  shows "continues F e (productPhrase F e) left p (mulLoop (Suc n) F e left p)"
proof (cases "failed p")
  case True
  then show ?thesis by (simp add: continues_failed growing)
next
  case False
  define p1 where "p1 = skipWhitespace e p"
  have r1: "room e p1 \<le> n" using room room_grows [OF grows_skip [of e p]] by (simp add: p1_def)
  have "continues F e (productPhrase F e) left p1 (mulLoop (Suc n) F e left p)"
  proof (cases rule: consumeEither_cases [of "CHR ''*''" "CHR ''/''" e p1])
    case miss
    then show ?thesis
      using False by (auto simp: p1_def [symmetric] intro: continues_quiet growing)
  next
    case (hit c)
    define p2 where "p2 = p1\<lparr>ps_position := ps_position p1 + 1\<rparr>"
    have c: "e ! (ps_position p2 - 1) = c" using hit(2) by (simp add: p2_def charAt_def)
    have "room e p2 + 2 \<le> n"
      using room_consumed [OF hit(2) grows_refl] r1 by (simp add: p2_def)
    then obtain right q where q: "parseUnary n F e p2 = Some (right, q)"
      and parsed: "parsed F e (unaryPhrase F e) p2 right q"
      using n by (auto simp: correct_at_def yields_def)
    have eq_at: "mulLoop (Suc n) F e left p =
      (if productType (e ! (ps_position p2 - 1)) left right = InvalidType
       then Some (InvalidType, fail ''multiplication or division uses incompatible types'' q)
       else case emit ((instruction_init F)\<lparr>in_op := (if e ! (ps_position p2 - 1) = CHR ''*'' then OpMultiply else OpDivide),
                   in_outputType := productType (e ! (ps_position p2 - 1)) left right\<rparr>) q of
         (False, q) \<Rightarrow> Some (InvalidType, q) | (True, q) \<Rightarrow> mulLoop n F e (productType (e ! (ps_position p2 - 1)) left right) q)"
      using False hit(3) [folded p2_def] q by (simp add: p1_def [symmetric] Let_def cong: bool.case_cong)
    note eq = eq_at [unfolded c]
    show ?thesis
    proof (cases "productType c left right = InvalidType")
      case True
      have "grows e p1 (fail ''multiplication or division uses incompatible types'' q)"
        by (rule grows_trans [OF grows_trans [OF grows_step [OF hit(2)]
              parsed_grows [OF parsed [unfolded p2_def]]] grows_fail]) simp
      then show ?thesis using True unfolding eq by (simp add: continues_failed)
    next
      case False
      have "continues F e (productPhrase F e) left p1
        (case emit ((instruction_init F)\<lparr>in_op := (if c = CHR ''*'' then OpMultiply else OpDivide),
                   in_outputType := productType c left right\<rparr>) q of
         (False, q) \<Rightarrow> Some (InvalidType, q) | (True, q) \<Rightarrow> mulLoop n F e (productType c left right) q)"
      proof (rule continues_emit [OF hit(2) parsed [unfolded p2_def]])
        show "typed (Binary (if c = CHR ''*'' then OpMultiply else OpDivide) x y) (productType c left right)"
          if "typed x left" "typed y right" for x y :: "'a expr"
          using typed_product [OF that, of _ c] hit(1) False by auto
        show "productPhrase F e i k (Binary (if c = CHR ''*'' then OpMultiply else OpDivide) x y)"
          if "productPhrase F e i (ps_position p1) x" "unaryPhrase F e (ps_position p1 + 1) k y" for i k x y
          using hit(1,2) product_times [OF that(1) _ that(2)] product_over [OF that(1) _ that(2)] by auto
        show "continues F e (productPhrase F e) (productType c left right) q' (mulLoop n F e (productType c left right) q')"
          if "room e q' + 8 \<le> room e p1" for q'
          using n that r1 by (simp add: correct_at_def)
      qed
      then show ?thesis unfolding eq if_not_P [OF False] .
    qed
  qed
  then show ?thesis
    by (rule continues_after [rotated 3]) (simp_all add: p1_def growing product_blank)
qed


lemma correct_parseAddSubtract:
  assumes n: "correct_at F e n" and room: "room e p + 3 \<le> n"
  shows "yields F e (sumPhrase F e) p (parseAddSubtract (Suc n) F e p)"
proof -
  obtain left q where q: "parseMultiplyDivide n F e p = Some (left, q)"
    and parsed: "parsed F e (productPhrase F e) p left q"
    using n room by (auto simp: correct_at_def yields_def)
  have "room e q + 1 \<le> n" using room room_grows [OF parsed_grows [OF parsed]] by simp
  then have "continues F e (sumPhrase F e) left q (addLoop n F e left q)"
    using n by (simp add: correct_at_def)
  then show ?thesis using yields_continues [OF parsed sum_one] q by simp
qed

lemma correct_parseMultiplyDivide:
  assumes n: "correct_at F e n" and room: "room e p + 2 \<le> n"
  shows "yields F e (productPhrase F e) p (parseMultiplyDivide (Suc n) F e p)"
proof -
  obtain left q where q: "parseUnary n F e p = Some (left, q)"
    and parsed: "parsed F e (unaryPhrase F e) p left q"
    using n room by (auto simp: correct_at_def yields_def)
  have "room e q + 1 \<le> n" using room room_grows [OF parsed_grows [OF parsed]] by simp
  then have "continues F e (productPhrase F e) left q (mulLoop n F e left q)"
    using n by (simp add: correct_at_def)
  then show ?thesis using yields_continues [OF parsed product_one] q by simp
qed

lemma yields_after:
  assumes "quiet p q" and "grows e p q" and "yields F e Q q r"
    and "\<And>j x. Q (ps_position q) j x \<Longrightarrow> P (ps_position p) j x"
  shows "yields F e P p r"
proof -
  obtain t q' where r: "r = Some (t, q')" and parsed: "parsed F e Q q t q'"
    using assms(3) by (auto simp: yields_def)
  have "parsed F e P p t q'"
    using grows_trans [OF assms(2) parsed_grows [OF parsed]] parsed assms(4)
      emits_quiet [OF assms(1) quiet_refl]
    unfolding parsed_def by blast
  then show ?thesis by (auto simp: yields_def r)
qed

lemma yields_failed: "grows e p q \<Longrightarrow> failed q \<Longrightarrow> yields F e P p (Some (t, q))"
  by (auto simp: yields_def intro: parsed_failed)

lemma yields_fail: "grows e p q \<Longrightarrow> m \<noteq> [] \<Longrightarrow> yields F e P p (Some (t, fail m q))"
  by (rule yields_failed) (auto intro: grows_trans grows_fail)

lemma correct_parseUnary:
  assumes n: "correct_at F e n" and room: "room e p + 1 \<le> n"
  shows "yields F e (unaryPhrase F e) p (parseUnary (Suc n) F e p)"
proof -
  define p1 where "p1 = skipWhitespace e p"
  have g1: "grows e p p1" "quiet p p1" and pos: "ps_position p1 = scan isBlank e (ps_position p)"
    by (simp_all add: p1_def growing)
  have r1: "room e p1 + 1 \<le> n" using room room_grows [OF g1(1)] by simp
  show ?thesis
  proof (cases rule: consume_cases [of e p1 "CHR ''+''"])
    case hit
    define p2 where "p2 = p1\<lparr>ps_position := ps_position p1 + 1\<rparr>"
    have g2: "grows e p p2" "quiet p p2"
      using grows_trans [OF g1(1) grows_step [OF hit(1)]] quiet_trans [OF g1(2)]
      by (simp_all add: p2_def)
    have "room e p2 + 2 \<le> n" using room_consumed [OF hit(1) grows_refl] r1 by (simp add: p2_def)
    then have u: "yields F e (unaryPhrase F e) p2 (parseUnary n F e p2)" using n by (simp add: correct_at_def)
    have "unaryPhrase F e (ps_position p) j x" if "unaryPhrase F e (ps_position p2) j x" for j x
      using that hit(1) pos by (simp add: p2_def sign_plus)
    from yields_after [where P = "unaryPhrase F e", OF g2(2,1) u this] show ?thesis
      using hit(2) by (simp add: p1_def [symmetric] p2_def)
  next
    case noplus: miss
    show ?thesis
    proof (cases rule: consume_cases [of e p1 "CHR ''-''"])
      case hit
      define p2 where "p2 = p1\<lparr>ps_position := ps_position p1 + 1\<rparr>"
      have g2: "grows e p p2" "quiet p p2"
        using grows_trans [OF g1(1) grows_step [OF hit(1)]] quiet_trans [OF g1(2)]
        by (simp_all add: p2_def)
      have "room e p2 + 2 \<le> n" using room_consumed [OF hit(1) grows_refl] r1 by (simp add: p2_def)
      then obtain t q where q: "parseUnary n F e p2 = Some (t, q)" and parsed: "parsed F e (unaryPhrase F e) p2 t q"
        using n by (auto simp: correct_at_def yields_def)
      have g: "grows e p q" using grows_trans [OF g2(1) parsed_grows [OF parsed]] .
      have eq: "parseUnary (Suc n) F e p =
          (if t = InvalidType then Some (t, q)
           else Some (emitTyped ((instruction_init F)\<lparr>in_op := OpNegate, in_outputType := t\<rparr>) t q))"
        using noplus(2) hit(2) [folded p2_def] q by (simp add: p1_def [symmetric])
      show ?thesis
      proof (cases "failed q")
        case True
        then show ?thesis
          using g grows_emitTyped [of e q "(instruction_init F)\<lparr>in_op := OpNegate, in_outputType := t\<rparr>" t]
          unfolding eq
          by (cases "emitTyped ((instruction_init F)\<lparr>in_op := OpNegate, in_outputType := t\<rparr>) t q")
            (auto intro: yields_failed grows_trans dest: grows_failed)
      next
        case False
        then obtain x where x: "unaryPhrase F e (ps_position p2) (ps_position q) x" "typed x t" "emits F p2 q x"
          using parsed by (auto simp: parsed_def)
        have u: "unaryPhrase F e (ps_position p) (ps_position q) (Negated x)"
          using sign_minus hit(1) x(1) pos by (simp add: p2_def)
        have t: "typed (Negated x) t" "t \<noteq> InvalidType" using x(2) by (simp_all add: typed_def)
        have em: "emits F p (q\<lparr>ps_instructions := ps_instructions q @
            [(instruction_init F)\<lparr>in_op := OpNegate, in_outputType := t\<rparr>]\<rparr>) (Negated x)"
          using emits_Negated [OF emits_quiet [OF g2(2) quiet_refl x(3)]] x(2) by (simp add: typed_def)
        obtain t' r where r: "emitTyped ((instruction_init F)\<lparr>in_op := OpNegate, in_outputType := t\<rparr>) t q = (t', r)"
          by (metis surj_pair)
        from emitTyped_parsed [OF g _ r, where x = "Negated x"] u t em show ?thesis
          unfolding eq r by (auto simp: yields_def)
      qed
    next
      case miss
      have u: "yields F e (\<lambda>i. primaryPhrase F e (scan isBlank e i)) p1 (parsePrimary n F e p1)"
        using n r1 by (simp add: correct_at_def)
      have "unaryPhrase F e (ps_position p) j x" if "primaryPhrase F e (scan isBlank e (ps_position p1)) j x" for j x
        using that pos by (simp add: sign_none)
      from yields_after [where P = "unaryPhrase F e", OF g1(2,1) u this] show ?thesis
        using noplus(2) miss(2) by (simp add: p1_def [symmetric])
    qed
  qed
qed

lemma pending_snoc:
  assumes "pending F e i j xs" and "sumPhrase F e j k x"
  shows "argumentList F e i k (xs @ [x])"
  using assms argument_one [of F e j k x] by (auto simp: pending_def intro: argument_more)

lemma typedAll_snoc: "typedAll xs ts \<Longrightarrow> typed x t \<Longrightarrow> typedAll (xs @ [x]) (ts @ [t])"
  by (simp add: typedAll_def list_all2_appendI)

lemma continuesArgumentsI:
  assumes "r = Some (us, q)" and "grows e p q" and "\<not> failed q \<Longrightarrow> length us \<le> 5"
    and "\<And>i xs p0. \<not> failed q \<Longrightarrow> pending F e i (ps_position p) xs \<and> typedAll xs ts \<and> emitsAll F p0 p xs \<Longrightarrow>
      \<exists>ys k. argumentList F e i k ys \<and> charAt e (scan isBlank e k) CHR '')'' \<and>
        ps_position q = scan isBlank e k + 1 \<and> typedAll ys us \<and> emitsAll F p0 q ys"
  shows "continuesArguments F e ts p r"
  unfolding continuesArguments_def using assms by blast

lemma correct_argumentLoop:
  assumes n: "correct_at F e n" and room: "room e p + 4 \<le> n"
  shows "continuesArguments F e ts p (argumentLoop (Suc n) F e ts p)"
proof -
  consider (bad) "failed p" | (full) "\<not> failed p" "length ts \<ge> 5" | (go) "\<not> failed p" "length ts < 5"
    by linarith
  then show ?thesis
  proof cases
    case bad
    then show ?thesis by (simp add: continuesArguments_def growing)
  next
    case full
    then show ?thesis by (simp add: continuesArguments_def growing)
  next
    case go
    obtain t q where q: "parseAddSubtract n F e p = Some (t, q)" and parsed: "parsed F e (sumPhrase F e) p t q"
      using n room by (auto simp: correct_at_def yields_def)
    have g: "grows e p q" using parsed_grows [OF parsed] .
    define q1 where "q1 = skipWhitespace e q"
    have g1: "grows e p q1" "quiet q q1" and pos: "ps_position q1 = scan isBlank e (ps_position q)"
      using grows_trans [OF g grows_skip] by (simp_all add: q1_def)
    have snoc: "\<exists>x. argumentList F e i (ps_position q) (xs @ [x]) \<and> typedAll (xs @ [x]) (ts @ [t]) \<and>
        emitsAll F p0 r (xs @ [x])"
      if ok: "\<not> failed q" and r: "quiet q r"
        and xs: "pending F e i (ps_position p) xs" "typedAll xs ts" "emitsAll F p0 p xs" for i xs p0 r
    proof -
      obtain x where x: "sumPhrase F e (ps_position p) (ps_position q) x" "typed x t" "emits F p q x"
        using parsed ok by (auto simp: parsed_def)
      show ?thesis
        using pending_snoc [OF xs(1) x(1)] typedAll_snoc [OF xs(2) x(2)]
          emitsAll_quiet [OF quiet_refl r emitsAll_snoc [OF xs(3) x(3) g]] by blast
    qed
    show ?thesis
    proof (cases rule: consume_cases [of e q1 "CHR '')''"])
      case hit
      define q2 where "q2 = q1\<lparr>ps_position := ps_position q1 + 1\<rparr>"
      have g2: "grows e p q2" "quiet q q2"
        using grows_trans [OF g1(1) grows_step [OF hit(1)]] quiet_trans [OF g1(2)] by (simp_all add: q2_def)
      have eq: "argumentLoop (Suc n) F e ts p = Some (ts @ [t], q2)"
        using go q hit(2) by (simp add: q1_def [symmetric] q2_def)
      have "\<exists>ys k. argumentList F e i k ys \<and> charAt e (scan isBlank e k) CHR '')'' \<and>
          ps_position q2 = scan isBlank e k + 1 \<and> typedAll ys (ts @ [t]) \<and> emitsAll F p0 q2 ys"
        if "\<not> failed q2" "pending F e i (ps_position p) xs \<and> typedAll xs ts \<and> emitsAll F p0 p xs" for i xs p0
      proof -
        have "\<not> failed q" using that(1) quiet_failed [OF g2(2)] by simp
        from snoc [OF this g2(2)] that(2) obtain x where
          "argumentList F e i (ps_position q) (xs @ [x])" "typedAll (xs @ [x]) (ts @ [t])"
          "emitsAll F p0 q2 (xs @ [x])" by blast
        then show ?thesis using hit(1) pos by (fastforce simp: q2_def)
      qed
      from continuesArgumentsI [OF eq g2(1) _ this] go(2) show ?thesis by simp
    next
      case noclose: miss
      show ?thesis
      proof (cases rule: consume_cases [of e q1 "CHR '',''"])
        case miss
        have eq: "argumentLoop (Suc n) F e ts p =
            Some (ts @ [t], fail ''expected comma or closing parenthesis'' q1)"
          using go q noclose(2) miss(2) by (simp add: q1_def [symmetric])
        show ?thesis
          unfolding continuesArguments_def eq
          using grows_trans [OF g1(1) grows_fail [of "''expected comma or closing parenthesis''"]] by simp
      next
        case hit
        define q2 where "q2 = q1\<lparr>ps_position := ps_position q1 + 1\<rparr>"
        have g2: "grows e p q2" "quiet q q2"
          using grows_trans [OF g1(1) grows_step [OF hit(1)]] quiet_trans [OF g1(2)] by (simp_all add: q2_def)
        have eq: "argumentLoop (Suc n) F e ts p = argumentLoop n F e (ts @ [t]) q2"
          using go q noclose(2) hit(2) by (simp add: q1_def [symmetric] q2_def)
        have "room e q2 + 5 \<le> n"
          using room_consumed [OF hit(1) grows_refl] room room_grows [OF g1(1)] by (simp add: q2_def)
        then have "continuesArguments F e (ts @ [t]) q2 (argumentLoop n F e (ts @ [t]) q2)"
          using n by (simp add: correct_at_def)
        then obtain us r where r: "argumentLoop n F e (ts @ [t]) q2 = Some (us, r)" and gr: "grows e q2 r"
          and len: "\<not> failed r \<Longrightarrow> length us \<le> 5"
          and k: "\<not> failed r \<Longrightarrow> pending F e i (ps_position q2) xs \<and> typedAll xs (ts @ [t]) \<and>
            emitsAll F p0 q2 xs \<Longrightarrow>
            \<exists>ys k. argumentList F e i k ys \<and> charAt e (scan isBlank e k) CHR '')'' \<and>
             ps_position r = scan isBlank e k + 1 \<and> typedAll ys us \<and> emitsAll F p0 r ys" for i xs p0
          unfolding continuesArguments_def by blast
        have "\<exists>ys k. argumentList F e i k ys \<and> charAt e (scan isBlank e k) CHR '')'' \<and>
            ps_position r = scan isBlank e k + 1 \<and> typedAll ys us \<and> emitsAll F p0 r ys"
          if "\<not> failed r" "pending F e i (ps_position p) xs \<and> typedAll xs ts \<and> emitsAll F p0 p xs" for i xs p0
        proof -
          have "\<not> failed q2" using that(1) grows_failed [OF gr] by blast
          then have "\<not> failed q" using quiet_failed [OF g2(2)] by simp
          from snoc [OF this g2(2)] that(2) obtain x where
            x: "argumentList F e i (ps_position q) (xs @ [x])" "typedAll (xs @ [x]) (ts @ [t])"
            "emitsAll F p0 q2 (xs @ [x])" by blast
          have "pending F e i (ps_position q2) (xs @ [x])"
            using x(1) hit(1) pos by (auto simp: pending_def q2_def)
          then show ?thesis using k [OF that(1)] x(2,3) by blast
        qed
        from continuesArgumentsI [OF eq [unfolded r] grows_trans [OF g2(1) gr] len this]
        show ?thesis .
      qed
    qed
  qed
qed

lemma enterDepth_cases:
  obtains (full) q where "enterDepth p = (False, q)" "failed q" "grows e p q"
  | (entered) "enterDepth p = (True, p\<lparr>ps_depth := ps_depth p + 1\<rparr>)"
  using grows_enter [of e p] by (auto simp: enterDepth_def split: if_splits intro: that)

lemma finishCall_yields:
  assumes "grows e p q"
    and "\<not> failed q \<Longrightarrow> \<exists>xs. callTail F e (ps_position p) (ps_position q) xs \<and>
      typedAll xs ts \<and> length xs \<le> 5 \<and> emitsAll F p q xs"
  shows "yieldsCall F e name p (Some (finishCall F name ts q))"
proof -
  obtain t r where r: "finishCall F name ts q = (t, r)" by (metis surj_pair)
  show ?thesis
  proof (cases "failed q")
    case True
    then have "finishCall F name ts q = (InvalidType, q)" by (simp add: finishCall_def)
    then show ?thesis using assms(1) True by (simp add: yieldsCall_def yields_failed)
  next
    case False
    then obtain xs where xs: "callTail F e (ps_position p) (ps_position q) xs" "typedAll xs ts"
      "length xs \<le> 5" "emitsAll F p q xs" using assms(2) by blast
    then have "parsed F e (\<lambda>i j x. \<exists>xs. x = Invoke name xs \<and> callTail F e i j xs) p t r"
      by (intro finishCall_parsed [OF assms(1) _ r, where xs = xs]) auto
    then show ?thesis by (auto simp: yieldsCall_def yields_def r)
  qed
qed

lemma correct_parseFunction:
  assumes n: "correct_at F e n" and room: "room e p + 5 \<le> n"
  shows "yieldsCall F e name p (parseFunction (Suc n) F e name p)"
proof (cases rule: enterDepth_cases [of p e])
  case (full q)
  then show ?thesis by (simp add: yieldsCall_def yields_failed)
next
  case entered
  define p1 where "p1 = skipWhitespace e (p\<lparr>ps_depth := ps_depth p + 1\<rparr>)"
  have skip: "skipWhitespace e (p\<lparr>ps_depth := Suc (ps_depth p)\<rparr>) = p1" by (simp add: p1_def)
  have g1: "grows e p p1" using grows_trans [OF grows_depth grows_skip] by (simp add: p1_def)
  have q1: "quiet p p1" using quiet_trans [OF quiet_update(2) quiet_update(3)] by (simp add: p1_def)
  have pos: "ps_position p1 = scan isBlank e (ps_position p)" by (simp add: p1_def)
  show ?thesis
  proof (cases rule: consume_cases [of e p1 "CHR '')''"])
    case hit
    define p2 where "p2 = leaveDepth (p1\<lparr>ps_position := ps_position p1 + 1\<rparr>)"
    have g2: "grows e p p2"
      using grows_trans [OF grows_trans [OF g1 grows_step [OF hit(1)]] grows_leave] by (simp add: p2_def)
    have q2: "quiet p p2"
      using quiet_trans [OF quiet_trans [OF q1 quiet_update(1)] quiet_update(4)] by (simp add: p2_def)
    have "callTail F e (ps_position p) (ps_position p2) []"
      using hit(1) pos by (simp add: callTail_def p2_def leaveDepth_def)
    moreover have "emitsAll F p p2 []" using q2 by (simp add: emitsAll_def quiet_def)
    ultimately have "yieldsCall F e name p (Some (finishCall F name [] p2))"
      by (intro finishCall_yields [OF g2] exI [of _ "[]"]) (simp add: typedAll_def)
    then show ?thesis using entered hit(2) by (simp add: skip p2_def)
  next
    case miss
    have "room e p1 + 5 \<le> n" using room room_grows [OF g1] by simp
    then have "continuesArguments F e [] p1 (argumentLoop n F e [] p1)" using n by (simp add: correct_at_def)
    then obtain us q where q: "argumentLoop n F e [] p1 = Some (us, q)" and g: "grows e p1 q"
      and len: "\<not> failed q \<Longrightarrow> length us \<le> 5"
      and k: "\<not> failed q \<Longrightarrow> pending F e i (ps_position p1) xs \<and> typedAll xs [] \<and> emitsAll F p0 p1 xs \<Longrightarrow>
        \<exists>ys k. argumentList F e i k ys \<and> charAt e (scan isBlank e k) CHR '')'' \<and>
             ps_position q = scan isBlank e k + 1 \<and> typedAll ys us \<and> emitsAll F p0 q ys" for i xs p0
      unfolding continuesArguments_def by blast
    have gq: "grows e p (leaveDepth q)" using grows_trans [OF grows_trans [OF g1 g] grows_leave] .
    have "\<exists>ys. callTail F e (ps_position p) (ps_position (leaveDepth q)) ys \<and>
        typedAll ys us \<and> length ys \<le> 5 \<and> emitsAll F p (leaveDepth q) ys" if "\<not> failed (leaveDepth q)"
    proof -
      have ok: "\<not> failed q" using that quiet_failed [OF quiet_update(4)] by metis
      have start: "pending F e (ps_position p1) (ps_position p1) [] \<and> typedAll ([] :: 'a expr list) [] \<and>
          emitsAll F p p1 []"
        using q1 by (simp add: pending_def typedAll_def emitsAll_def quiet_def)
      obtain ys k where ys: "argumentList F e (ps_position p1) k ys" "charAt e (scan isBlank e k) CHR '')''"
        "ps_position q = scan isBlank e k + 1" "typedAll ys us" "emitsAll F p q ys"
        using k [OF ok start] by blast
      have "callTail F e (ps_position p) (ps_position (leaveDepth q)) ys"
        using ys(1-3) pos by (auto simp: callTail_def leaveDepth_def)
      moreover have "length ys \<le> 5" using ys(4) len [OF ok] by (auto simp: typedAll_def dest: list_all2_lengthD)
      ultimately show ?thesis
        using ys(4) emitsAll_quiet [OF quiet_refl quiet_update(4) ys(5)] by blast
    qed
    from finishCall_yields [OF gq this] have "yieldsCall F e name p (Some (finishCall F name us (leaveDepth q)))" .
    then show ?thesis using entered miss(2) q by (simp add: skip)
  qed
qed

text \<open>A parenthesised sum, once the parenthesis is consumed and the depth entered.\<close>

lemma correct_parenthesis:
  assumes n: "correct_at F e n" and room: "room e p2 + 4 \<le> n"
    and g: "grows e p p2" "quiet p p2" and c: "charAt e (ps_position p) CHR ''(''"
    and pos: "ps_position p2 = ps_position p + 1"
    and r: "r = do {
              (t, q) \<leftarrow> parseAddSubtract n F e p2;
              case consume e CHR '')'' (skipWhitespace e (leaveDepth q)) of
                (False, q) \<Rightarrow> Some (InvalidType, fail ''missing closing parenthesis'' q)
              | (True, q) \<Rightarrow> Some (t, q) }"
  shows "yields F e (primaryPhrase F e) p r"
proof -
  obtain t q where q: "parseAddSubtract n F e p2 = Some (t, q)"
    and parsed: "parsed F e (sumPhrase F e) p2 t q"
    using n room by (auto simp: correct_at_def yields_def)
  define q1 where "q1 = skipWhitespace e (leaveDepth q)"
  have g1: "grows e p q1"
    using grows_trans [OF grows_trans [OF grows_trans [OF g(1) parsed_grows [OF parsed]] grows_leave] grows_skip]
    by (simp add: q1_def)
  have quiet1: "quiet q q1"
    using quiet_trans [OF quiet_update(4) quiet_update(3)] by (simp add: q1_def)
  have pos1: "ps_position q1 = scan isBlank e (ps_position q)" by (simp add: q1_def leaveDepth_def)
  show ?thesis
  proof (cases rule: consume_cases [of e q1 "CHR '')''"])
    case miss
    then have "r = Some (InvalidType, fail ''missing closing parenthesis'' q1)"
      using r q by (simp add: q1_def [symmetric])
    then show ?thesis by (simp add: yields_fail g1)
  next
    case hit
    define q2 where "q2 = q1\<lparr>ps_position := ps_position q1 + 1\<rparr>"
    have r': "r = Some (t, q2)" using r q hit(2) by (simp add: q1_def [symmetric] q2_def)
    have quiet2: "quiet q q2" using quiet_trans [OF quiet1] by (simp add: q2_def)
    have g2: "grows e p q2" using grows_trans [OF g1 grows_step [OF hit(1)]] by (simp add: q2_def)
    have "\<exists>x. primaryPhrase F e (ps_position p) (ps_position q2) x \<and> typed x t \<and> emits F p q2 x"
      if ok: "\<not> failed q2"
    proof -
      have "\<not> failed q" using ok quiet_failed [OF quiet2] by simp
      then obtain x where x: "sumPhrase F e (ps_position p2) (ps_position q) x" "typed x t" "emits F p2 q x"
        using parsed by (auto simp: parsed_def)
      have "primaryPhrase F e (ps_position p) (scan isBlank e (ps_position q) + 1) x"
        using parenthesis [OF c] x(1) hit(1) pos pos1 by simp
      then show ?thesis
        using x(2) emits_quiet [OF g(2) quiet2 x(3)] pos1 by (auto simp: q2_def)
    qed
    then show ?thesis using g2 by (auto simp: yields_def r' parsed_def)
  qed
qed

lemma correct_parsePrimary:
  assumes n: "correct_at F e n" and room: "room e p \<le> n"
  shows "yields F e (\<lambda>i. primaryPhrase F e (scan isBlank e i)) p (parsePrimary (Suc n) F e p)"
proof -
  define p1 where "p1 = skipWhitespace e p"
  have g1: "grows e p p1" "quiet p p1" and pos: "ps_position p1 = scan isBlank e (ps_position p)"
    by (simp_all add: p1_def growing)
  have r1: "room e p1 \<le> n" using room room_grows [OF g1(1)] by simp
  note eq = parsePrimary.simps(2) [of n F e p, folded p1_def, unfolded Let_def]
  have "yields F e (primaryPhrase F e) p1 (parsePrimary (Suc n) F e p)"
  proof (cases "ps_position p1 \<ge> length e")
    case True
    then show ?thesis unfolding eq by (simp add: p1_def [symmetric] yields_fail growing)
  next
    case False
    then have inside: "ps_position p1 < length e" by simp
    define c where "c = e ! ps_position p1"
    have at: "charAt e (ps_position p1) c" using inside by (simp add: charAt_def c_def)
    consider (num) "isDigit c \<or> c = CHR ''.''"
      | (par) "\<not> (isDigit c \<or> c = CHR ''.'')" "c = CHR ''(''"
      | (bad) "\<not> (isDigit c \<or> c = CHR ''.'')" "c \<noteq> CHR ''(''" "\<not> IsIdentifierStart c"
      | (ident) "\<not> (isDigit c \<or> c = CHR ''.'')" "c \<noteq> CHR ''(''" "IsIdentifierStart c"
      by blast
    then show ?thesis
    proof cases
      case num
      obtain t q where r: "parseNumber F e p1 = (t, q)" by (metis surj_pair)
      have "parsePrimary (Suc n) F e p = Some (t, q)"
        using num False r unfolding eq by (simp add: p1_def [symmetric] c_def)
      then show ?thesis
        using parseNumber_parsed [OF inside _ r] num by (auto simp: c_def yields_def)
    next
      case par
      define p2 where "p2 = p1\<lparr>ps_position := ps_position p1 + 1\<rparr>"
      have g2: "grows e p1 p2" "quiet p1 p2" using grows_step [OF at] by (simp_all add: p2_def)
      have r2: "room e p2 + 4 \<le> n" using room_consumed [OF at grows_refl] r1 by (simp add: p2_def)
      have eq2: "parsePrimary (Suc n) F e p =
        (case enterDepth p2 of
            (False, p) \<Rightarrow> Some (InvalidType, p)
          | (True, p) \<Rightarrow> do {
              (t, p) \<leftarrow> parseAddSubtract n F e p;
              case consume e CHR '')'' (skipWhitespace e (leaveDepth p)) of
                (False, p) \<Rightarrow> Some (InvalidType, fail ''missing closing parenthesis'' p)
              | (True, p) \<Rightarrow> Some (t, p) })"
        using par False unfolding eq by (simp add: p1_def [symmetric] c_def p2_def)
      show ?thesis
      proof (cases rule: enterDepth_cases [of p2 e])
        case (full q)
        then show ?thesis unfolding eq2 using grows_trans [OF g2(1)] by (simp add: yields_failed)
      next
        case entered
        define p3 where "p3 = p2\<lparr>ps_depth := ps_depth p2 + 1\<rparr>"
        have g3: "grows e p1 p3" "quiet p1 p3"
          using grows_trans [OF g2(1) grows_depth] quiet_trans [OF g2(2) quiet_update(2)]
          by (simp_all add: p3_def)
        have "room e p3 + 4 \<le> n" using r2 by (simp add: p3_def room_def)
        moreover have "parsePrimary (Suc n) F e p = do {
              (t, q) \<leftarrow> parseAddSubtract n F e p3;
              case consume e CHR '')'' (skipWhitespace e (leaveDepth q)) of
                (False, q) \<Rightarrow> Some (InvalidType, fail ''missing closing parenthesis'' q)
              | (True, q) \<Rightarrow> Some (t, q) }"
          unfolding eq2 using entered by (simp add: p3_def)
        moreover have "ps_position p3 = ps_position p1 + 1" by (simp add: p3_def p2_def)
        ultimately show ?thesis
          using correct_parenthesis [OF n _ g3] at par(2) by blast
      qed
    next
      case bad
      then have "parsePrimary (Suc n) F e p =
          Some (InvalidType, fail ''expected number, variable, or function'' p1)"
        using False unfolding eq by (simp add: p1_def [symmetric] c_def)
      then show ?thesis by (simp only:) (simp add: yields_fail growing)
    next
      case ident
      define s where "s = identifierAt e (ps_position p1)"
      define p2 where "p2 = skipWhitespace e (snd (parseIdentifier e p1))"
      have pos2: "ps_position p2 = afterIdentifier e (ps_position p1)"
        by (simp add: p2_def parseIdentifier_def Let_def afterIdentifier_def)
      have "scan IsIdentifierContinue e (ps_position p1 + 1) \<le> length e"
        "ps_position p1 \<le> scan IsIdentifierContinue e (ps_position p1 + 1)"
        using inside scan_bounds [where i = "ps_position p1 + 1" and P = IsIdentifierContinue and e = e] by auto
      then have "grows e p1 (p1\<lparr>ps_position := scan IsIdentifierContinue e (ps_position p1 + 1)\<rparr>)"
        by (intro grows_position)
      then have g2: "grows e p1 p2"
        unfolding p2_def by (intro grows_trans [OF _ grows_skip]) (simp add: parseIdentifier_def Let_def)
      have quiet2: "quiet p1 p2" by (simp add: p2_def parseIdentifier_def Let_def quiet_def skipWhitespace_def)
      have eq2: "parsePrimary (Suc n) F e p =
          (case consume e CHR ''('' p2 of
              (True, p) \<Rightarrow> parseFunction n F e s p
            | (False, p) \<Rightarrow> Some (parseName F s p))"
        using ident False unfolding eq
        by (simp add: p1_def [symmetric] c_def p2_def s_def parseIdentifier_def Let_def identifierAt_def
          cong: bool.case_cong)
      have start: "ps_position p1 < length e" "IsIdentifierStart (e ! ps_position p1)"
        using inside ident by (simp_all add: c_def)
      show ?thesis
      proof (cases rule: consume_cases [of e p2 "CHR ''(''"])
        case miss
        obtain t q where r: "parseName F s p2 = (t, q)" by (metis surj_pair)
        have "primaryPhrase F e (ps_position p1) (ps_position p2) (nameExpr F s)"
          using name [OF start] miss(1) unfolding pos2 s_def by blast
        from parseName_parsed [OF r, where phrase = "\<lambda>i. primaryPhrase F e (ps_position p1)" and e = e, OF this]
        have "yields F e (\<lambda>i. primaryPhrase F e (ps_position p1)) p2 (Some (t, q))" by (auto simp: yields_def)
        then have "yields F e (primaryPhrase F e) p1 (Some (t, q))"
          by (rule yields_after [OF quiet2 g2])
        then show ?thesis unfolding eq2 using miss(2) r by simp
      next
        case hit
        define p3 where "p3 = p2\<lparr>ps_position := ps_position p2 + 1\<rparr>"
        have g3: "grows e p1 p3" "quiet p1 p3"
          using grows_trans [OF g2 grows_step [OF hit(1)]] quiet_trans [OF quiet2 quiet_update(1)]
          by (simp_all add: p3_def)
        have "room e p3 + 6 \<le> n"
          using room_consumed [OF hit(1) grows_refl] r1 room_grows [OF g2] by (simp add: p3_def)
        then have y: "yieldsCall F e s p3 (parseFunction n F e s p3)" using n by (simp add: correct_at_def)
        have "primaryPhrase F e (ps_position p1) j x"
          if "\<exists>xs. x = Invoke s xs \<and> callTail F e (ps_position p3) j xs" for j x
          using that hit(1) call_none [OF start] call_some [OF start] pos2
          by (auto simp: callTail_def p3_def s_def)
        from yields_after [where P = "primaryPhrase F e", OF g3(2,1) y [unfolded yieldsCall_def] this]
        show ?thesis unfolding eq2 using hit(2) by (simp add: p3_def)
      qed
    qed
  qed
  then show ?thesis
    by (rule yields_after [OF g1(2,1)]) (simp add: pos)
qed

lemma correct_at_all: "correct_at F e n"
proof (induction n)
  case 0
  then show ?case by (simp add: correct_at_def)
next
  case (Suc n)
  note rules = correct_parseAddSubtract [OF Suc] correct_parseMultiplyDivide [OF Suc]
    correct_parseUnary [OF Suc] correct_parsePrimary [OF Suc] correct_addLoop [OF Suc]
    correct_mulLoop [OF Suc] correct_parseFunction [OF Suc] correct_argumentLoop [OF Suc]
  show ?case
    unfolding correct_at_def by (intro conjI allI impI rules) simp_all
qed

subsection \<open>The whole input\<close>

lemma failed_skip [simp]: "failed (skipWhitespace e p) = failed p"
  by (simp add: failed_def skipWhitespace_def)

lemma within_limits_init: "within_limits e parser_init"
  by (simp add: within_limits_def parser_init_def failed_def)

lemma parse_returns:
  obtains t p where "parse F e = Some (t, p)" "failed p \<Longrightarrow> ps_errorOffset p \<le> length e"
    "\<not> failed p \<Longrightarrow> within_limits e p \<and> (\<exists>x. sumPhrase F e 0 (length e) x \<and> typed x t \<and>
      namesOf x \<subseteq> set (ps_parameters p) \<and> ps_instructions p = code F (ps_parameters p) x)"
proof -
  consider "e = []" | "e \<noteq> []" "length e > kMaximumExpressionBytes"
    | (short) "e \<noteq> []" "length e \<le> kMaximumExpressionBytes" by linarith
  then show thesis
  proof cases
    case 1
    then show thesis by (intro that) (auto simp: parse_def fail_def parser_init_def failed_def)
  next
    case 2
    then show thesis by (intro that) (auto simp: parse_def fail_def parser_init_def failed_def)
  next
    case short
    have "room e parser_init + 4 \<le> parseFuel e" by (simp add: room_def parser_init_def parseFuel_def)
    then obtain t q where q: "parseAddSubtract (parseFuel e) F e parser_init = Some (t, q)"
      and parsed: "parsed F e (sumPhrase F e) parser_init t q"
      using correct_at_all [of F e "parseFuel e"] unfolding correct_at_def yields_def by blast
    define q1 where "q1 = skipWhitespace e q"
    define q2 where "q2 = (if \<not> failed q1 \<and> ps_position q1 \<noteq> length e
        then fail ''unexpected character'' q1 else q1)"
    have eq: "parse F e = Some (if failed q2 then InvalidType else t, q2)"
      using short q by (simp add: parse_def q1_def q2_def)
    have g: "grows e parser_init q1"
      using grows_trans [OF parsed_grows [OF parsed] grows_skip] by (simp add: q1_def)
    then have w1: "within_limits e q1" by (simp add: grows_def within_limits_init)
    then have w: "within_limits e q2"
      using grows_fail [of "''unexpected character''" e q1] by (auto simp: q2_def grows_def)
    show thesis
    proof (rule that [OF eq])
      show "ps_errorOffset q2 \<le> length e" if "failed q2" using w that by (simp add: within_limits_def)
      assume ok: "\<not> failed q2"
      then have end_at: "q2 = q1" "ps_position q1 = length e" "\<not> failed q"
        by (auto simp: q2_def q1_def split: if_splits)
      then obtain x where x: "sumPhrase F e 0 (ps_position q) x" "typed x t" "emits F parser_init q x"
        using parsed by (auto simp: parsed_def parser_init_def)
      have "sumPhrase F e 0 (length e) x"
        using sum_blank [OF x(1)] end_at(2) by (simp add: q1_def)
      then show "within_limits e q2 \<and> (\<exists>x. sumPhrase F e 0 (length e) x \<and>
          typed x (if failed q2 then InvalidType else t) \<and>
          namesOf x \<subseteq> set (ps_parameters q2) \<and> ps_instructions q2 = code F (ps_parameters q2) x)"
        using w x ok end_at(1)
        by (auto simp: emits_def q1_def skipWhitespace_def parser_init_def intro!: exI [of _ x])
    qed
  qed
qed

end
