(* ===== verification/MathEvaluator.thy ===== *)
theory MathEvaluator
  imports MathExpression
begin

section \<open>The expression evaluator\<close>

text \<open>
  \<open>EvaluateArithmetic\<close>, \<open>EvaluateFunction\<close> and \<open>Program::evaluate\<close> of
  \<open>src/src/d3d9/war3/math/war3_math_expression.cpp\<close>. A failed step, a value that is not
  finite and an operand out of range are all \<open>None\<close>, as the source returns false. The stack is
  a list, top first; its capacity is checked where the source checks it.
\<close>

record 'f EvaluationContext =
  ec_t :: 'f
  ec_time :: 'f
  ec_length :: 'f
  ec_index :: 'f
  ec_segments :: 'f
  ec_seed :: u32
  ec_branchIndex :: 'f
  ec_branchDepth :: 'f
  ec_start :: "'f Vec3"
  ec_end :: "'f Vec3"
  ec_center :: "'f Vec3"
  ec_direction :: "'f Vec3"
  ec_forward :: "'f Vec3"
  ec_right :: "'f Vec3"
  ec_up :: "'f Vec3"

definition vec3Of :: "('f, 'd) FloatOps \<Rightarrow> 'f Vec3 \<Rightarrow> 'f Value" where
  "vec3Of F v = Value_vec3 F (vec_x v) (vec_y v) (vec_z v)"

definition ResolveVariableValue ::
  "('f, 'd) FloatOps \<Rightarrow> VariableId option \<Rightarrow> 'f EvaluationContext \<Rightarrow> 'f Value" where
  "ResolveVariableValue F variable context =
    (case variable of
       Some VarT \<Rightarrow> Value_scalar F (ec_t context)
     | Some VarTime \<Rightarrow> Value_scalar F (ec_time context)
     | Some VarLength \<Rightarrow> Value_scalar F (ec_length context)
     | Some VarIndex \<Rightarrow> Value_scalar F (ec_index context)
     | Some VarSegments \<Rightarrow> Value_scalar F (ec_segments context)
     | Some VarSeed \<Rightarrow> Value_scalar F (fo_of_u32 F (ec_seed context))
     | Some VarBranchIndex \<Rightarrow> Value_scalar F (ec_branchIndex context)
     | Some VarBranchDepth \<Rightarrow> Value_scalar F (ec_branchDepth context)
     | Some VarStart \<Rightarrow> vec3Of F (ec_start context)
     | Some VarEnd \<Rightarrow> vec3Of F (ec_end context)
     | Some VarCenter \<Rightarrow> vec3Of F (ec_center context)
     | Some VarDirection \<Rightarrow> vec3Of F (ec_direction context)
     | Some VarForward \<Rightarrow> vec3Of F (ec_forward context)
     | Some VarRight \<Rightarrow> vec3Of F (ec_right context)
     | Some VarUp \<Rightarrow> vec3Of F (ec_up context)
     | None \<Rightarrow> MakeValue F InvalidType)"

subsection \<open>Componentwise operations\<close>

text \<open>\<open>for (index ...) { if (!operation(...)) return false; SetComponent(output, index, value); }\<close>\<close>

fun componentLoop :: "(nat \<Rightarrow> 'f option) \<Rightarrow> nat list \<Rightarrow> 'f Value \<Rightarrow> 'f Value option" where
  "componentLoop operation [] output = Some output"
| "componentLoop operation (i # is) output =
    (case operation i of
       None \<Rightarrow> None
     | Some value \<Rightarrow> componentLoop operation is (SetComponent output i value))"

definition components ::
  "('f, 'd) FloatOps \<Rightarrow> ValueType \<Rightarrow> (nat \<Rightarrow> 'f option) \<Rightarrow> 'f Value option" where
  "components F t operation = componentLoop operation [0..<ComponentCount t] (MakeValue F t)"

text \<open>\<open>return IsFinite(output)\<close>\<close>

definition ifFinite :: "('f, 'd) FloatOps \<Rightarrow> 'f Value \<Rightarrow> 'f Value option" where
  "ifFinite F output = (if IsFinite F output then Some output else None)"

definition UnaryComponentwise ::
  "('f, 'd) FloatOps \<Rightarrow> 'f Value \<Rightarrow> ('f \<Rightarrow> 'f option) \<Rightarrow> 'f Value option" where
  "UnaryComponentwise F input operation =
    Option.bind (components F (v_type input) (\<lambda>i. operation (GetComponent input i))) (ifFinite F)"

definition BinaryComponentwise ::
  "('f, 'd) FloatOps \<Rightarrow> 'f Value \<Rightarrow> 'f Value \<Rightarrow> ('f \<Rightarrow> 'f \<Rightarrow> 'f option) \<Rightarrow> 'f Value option" where
  "BinaryComponentwise F a b operation =
    Option.bind (components F (v_type a) (\<lambda>i. operation (GetComponent a i) (GetComponent b i)))
      (ifFinite F)"

definition unaryStd ::
  "('f, 'd) FloatOps \<Rightarrow> 'f Value \<Rightarrow> ('f \<Rightarrow> 'f) \<Rightarrow> 'f Value option" where
  "unaryStd F a operation =
    UnaryComponentwise F a
      (\<lambda>v. let result = operation v in if fo_isfinite F result then Some result else None)"

definition ValueDot :: "('f, 'd) FloatOps \<Rightarrow> 'f Value \<Rightarrow> 'f Value \<Rightarrow> 'f" where
  "ValueDot F a b =
    fold (\<lambda>i result. fo_add F result (fo_mul F (GetComponent a i) (GetComponent b i)))
      [0..<ComponentCount (v_type a)] (fo_literal F 0)"

definition EvaluateArithmetic ::
  "('f, 'd) FloatOps \<Rightarrow> OpCode \<Rightarrow> 'f Value \<Rightarrow> 'f Value \<Rightarrow> ValueType \<Rightarrow> 'f Value option" where
  "EvaluateArithmetic F opc left right outputType =
    Option.bind
      (components F outputType (\<lambda>i.
         let a = GetComponent left i; b = GetComponent right i in
         case opc of
           OpAdd \<Rightarrow> Some (fo_add F a b)
         | OpSubtract \<Rightarrow> Some (fo_sub F a b)
         | OpMultiply \<Rightarrow> Some (fo_mul F a b)
         | OpDivide \<Rightarrow>
             if fo_less_eq F (fo_abs F b) (fo_literal F kEpsilon) then None
             else Some (fo_div F a b)
         | _ \<Rightarrow> None))
      (ifFinite F)"

subsection \<open>The functions\<close>

definition rotateAroundAxis ::
  "('f, 'd) FloatOps \<Rightarrow> 'f Value \<Rightarrow> 'f Value \<Rightarrow> 'f Value \<Rightarrow> 'f Value option" where
  "rotateAroundAxis F a b c =
    (let add = fo_add F; sub = fo_sub F; mul = fo_mul F; quot = fo_div F;
         axisLength = fo_sqrt F (std_max F (fo_literal F 0) (ValueDot F b b))
     in if fo_less_eq F axisLength (fo_literal F kEpsilon) then None
        else
          let ax = quot (v_x b) axisLength;
              ay = quot (v_y b) axisLength;
              az = quot (v_z b) axisLength;
              cosine = fo_cos F (v_x c);
              sine = fo_sin F (v_x c);
              projection = add (add (mul (v_x a) ax) (mul (v_y a) ay)) (mul (v_z a) az);
              rest = sub (fo_literal F 1) cosine
          in ifFinite F (Value_vec3 F
               (add (add (mul (v_x a) cosine)
                         (mul (sub (mul ay (v_z a)) (mul az (v_y a))) sine))
                    (mul (mul ax projection) rest))
               (add (add (mul (v_y a) cosine)
                         (mul (sub (mul az (v_x a)) (mul ax (v_z a))) sine))
                    (mul (mul ay projection) rest))
               (add (add (mul (v_z a) cosine)
                         (mul (sub (mul ax (v_y a)) (mul ay (v_x a))) sine))
                    (mul (mul az projection) rest))))"

definition bezierComponent ::
  "('f, 'd) FloatOps \<Rightarrow> FunctionId \<Rightarrow> 'f \<Rightarrow> 'f \<Rightarrow> 'f \<Rightarrow> 'f \<Rightarrow> 'f \<Rightarrow> 'f" where
  "bezierComponent F function t a b c d =
    (let add = fo_add F; mul = fo_mul F; oneMinus = fo_sub F (fo_literal F 1) t
     in if function = FnBezier2
        then add (add (mul (mul oneMinus oneMinus) a)
                      (mul (mul (mul (fo_literal F 2) oneMinus) t) b))
                 (mul (mul t t) c)
        else add (add (add (mul (mul (mul oneMinus oneMinus) oneMinus) a)
                           (mul (mul (mul (mul (fo_literal F 3) oneMinus) oneMinus) t) b))
                      (mul (mul (mul (mul (fo_literal F 3) oneMinus) t) t) c))
                 (mul (mul (mul t t) t) d))"

definition EvaluateFunction ::
  "('f, 'd) FloatOps \<Rightarrow> FunctionId option \<Rightarrow> 'f Value list \<Rightarrow> u8 \<Rightarrow> 'f EvaluationContext \<Rightarrow>
    'f Value option" where
  "EvaluateFunction F function arguments argumentCount context =
    (let a = arguments ! 0; b = arguments ! 1; c = arguments ! 2; d = arguments ! 3;
         e = arguments ! 4;
         add = fo_add F; sub = fo_sub F; mul = fo_mul F; quot = fo_div F; lit = fo_literal F;
         tiny = (\<lambda>x. fo_less_eq F (fo_abs F x) (fo_literal F kEpsilon))
     in case function of
       None \<Rightarrow> None
     | Some FnVec2 \<Rightarrow> Some (Value_vec2 F (v_x a) (v_x b))
     | Some FnVec3 \<Rightarrow> Some (Value_vec3 F (v_x a) (v_x b) (v_x c))
     | Some FnX \<Rightarrow> Some (Value_scalar F (v_x a))
     | Some FnY \<Rightarrow> Some (Value_scalar F (v_y a))
     | Some FnZ \<Rightarrow> Some (Value_scalar F (v_z a))
     | Some FnSin \<Rightarrow> unaryStd F a (fo_sin F)
     | Some FnCos \<Rightarrow> unaryStd F a (fo_cos F)
     | Some FnTan \<Rightarrow> unaryStd F a (fo_tan F)
     | Some FnAtan \<Rightarrow> unaryStd F a (fo_atan F)
     | Some FnExp \<Rightarrow> unaryStd F a (fo_exp F)
     | Some FnAbs \<Rightarrow> unaryStd F a (fo_abs F)
     | Some FnFloor \<Rightarrow> unaryStd F a (fo_floor F)
     | Some FnCeil \<Rightarrow> unaryStd F a (fo_ceil F)
     | Some FnRound \<Rightarrow> unaryStd F a (fo_round F)
     | Some FnFract \<Rightarrow> unaryStd F a (\<lambda>v. sub v (fo_floor F v))
     | Some FnSaturate \<Rightarrow> unaryStd F a (Clamp01 F)
     | Some FnSign \<Rightarrow>
         unaryStd F a (\<lambda>v. if fo_less F (lit 0) v then lit 1
                            else if fo_less F v (lit 0) then lit (-1) else lit 0)
     | Some FnAsin \<Rightarrow>
         UnaryComponentwise F a (\<lambda>v. if fo_less F v (lit (-1)) \<or> fo_less F (lit 1) v then None
                                      else Some (fo_asin F v))
     | Some FnAcos \<Rightarrow>
         UnaryComponentwise F a (\<lambda>v. if fo_less F v (lit (-1)) \<or> fo_less F (lit 1) v then None
                                      else Some (fo_acos F v))
     | Some FnSqrt \<Rightarrow>
         UnaryComponentwise F a (\<lambda>v. if fo_less F v (lit 0) then None else Some (fo_sqrt F v))
     | Some FnLog \<Rightarrow>
         UnaryComponentwise F a (\<lambda>v. if fo_less_eq F v (lit 0) then None else Some (fo_log F v))
     | Some FnAtan2 \<Rightarrow> BinaryComponentwise F a b (\<lambda>y x. Some (fo_atan2 F y x))
     | Some FnPow \<Rightarrow>
         BinaryComponentwise F a b (\<lambda>base exponent.
           let result = fo_pow F base exponent in if fo_isfinite F result then Some result else None)
     | Some FnMin \<Rightarrow> BinaryComponentwise F a b (\<lambda>x y. Some (std_min F x y))
     | Some FnMax \<Rightarrow> BinaryComponentwise F a b (\<lambda>x y. Some (std_max F x y))
     | Some FnClamp \<Rightarrow>
         components F (v_type a) (\<lambda>i.
           let low = GetComponent b i; high = GetComponent c i
           in if fo_less F high low then None else Some (std_clamp F (GetComponent a i) low high))
     | Some FnLerp \<Rightarrow>
         Option.bind (components F (v_type a) (\<lambda>i.
           let x = GetComponent a i in Some (add x (mul (sub (GetComponent b i) x) (v_x c)))))
           (ifFinite F)
     | Some FnInverseLerp \<Rightarrow>
         if tiny (sub (v_x b) (v_x a)) then None
         else ifFinite F (Value_scalar F (quot (sub (v_x c) (v_x a)) (sub (v_x b) (v_x a))))
     | Some FnRemap \<Rightarrow>
         if tiny (sub (v_x b) (v_x a)) then None
         else ifFinite F (Value_scalar F
           (add (v_x d) (quot (mul (sub (v_x e) (v_x d)) (sub (v_x c) (v_x a)))
              (sub (v_x b) (v_x a)))))
     | Some FnStep \<Rightarrow>
         components F (v_type b) (\<lambda>i.
           Some (if fo_less F (GetComponent b i) (v_x a) then lit 0 else lit 1))
     | Some FnSmoothStep \<Rightarrow>
         if tiny (sub (v_x b) (v_x a)) then None
         else components F (v_type c) (\<lambda>i.
           Some (SmoothStep01 F (quot (sub (GetComponent c i) (v_x a)) (sub (v_x b) (v_x a)))))
     | Some FnSmootherStep \<Rightarrow>
         if tiny (sub (v_x b) (v_x a)) then None
         else components F (v_type c) (\<lambda>i.
           Some (SmootherStep01 F (quot (sub (GetComponent c i) (v_x a)) (sub (v_x b) (v_x a)))))
     | Some FnDot \<Rightarrow> ifFinite F (Value_scalar F (ValueDot F a b))
     | Some FnCross \<Rightarrow>
         ifFinite F (Value_vec3 F
           (sub (mul (v_y a) (v_z b)) (mul (v_z a) (v_y b)))
           (sub (mul (v_z a) (v_x b)) (mul (v_x a) (v_z b)))
           (sub (mul (v_x a) (v_y b)) (mul (v_y a) (v_x b))))
     | Some FnVectorLength \<Rightarrow>
         ifFinite F (Value_scalar F (fo_sqrt F (std_max F (lit 0) (ValueDot F a a))))
     | Some FnDistance \<Rightarrow>
         ifFinite F (Value_scalar F (fo_sqrt F (std_max F (lit 0)
           (fold (\<lambda>i distanceSquared.
              let delta = sub (GetComponent a i) (GetComponent b i)
              in add distanceSquared (mul delta delta))
            [0..<ComponentCount (v_type a)] (lit 0)))))
     | Some FnNormalize \<Rightarrow>
         let magnitude = fo_sqrt F (std_max F (lit 0) (ValueDot F a a))
         in if fo_less_eq F magnitude (lit kEpsilon) then Some (MakeValue F (v_type a))
            else Option.bind
              (components F (v_type a) (\<lambda>i. Some (quot (GetComponent a i) magnitude))) (ifFinite F)
     | Some FnProject \<Rightarrow>
         let denominator = ValueDot F b b
         in if fo_less_eq F denominator (lit kEpsilon) then None
            else let scale = quot (ValueDot F a b) denominator
                 in Option.bind
                      (components F (v_type a) (\<lambda>i. Some (mul (GetComponent b i) scale)))
                      (ifFinite F)
     | Some FnReject \<Rightarrow>
         let denominator = ValueDot F b b
         in if fo_less_eq F denominator (lit kEpsilon) then None
            else let scale = quot (ValueDot F a b) denominator
                 in Option.bind
                      (components F (v_type a)
                        (\<lambda>i. Some (sub (GetComponent a i) (mul (GetComponent b i) scale))))
                      (ifFinite F)
     | Some FnRotateAroundAxis \<Rightarrow> rotateAroundAxis F a b c
     | Some FnEndpointMask \<Rightarrow>
         if argumentCount = 1
         then ifFinite F (Value_scalar F (fo_sin F (mul (Clamp01 F (v_x a)) (lit kPi))))
         else
           let startMask = (if fo_less_eq F (v_x b) (lit 0) then lit 1
                            else SmoothStep01 F (quot (v_x a) (v_x b)));
               endMask = (if fo_less_eq F (v_x c) (lit 0) then lit 1
                          else SmoothStep01 F (quot (sub (lit 1) (v_x a)) (v_x c)))
           in ifFinite F (Value_scalar F (std_min F startMask endMask))
     | Some FnNoise1 \<Rightarrow>
         ifFinite F (Value_scalar F (Noise1 F (v_x a)
           (if argumentCount = 2 then FloatSeed F (v_x b) (ec_seed context) else ec_seed context)))
     | Some FnRepeat \<Rightarrow>
         if fo_less_eq F (v_x b) (lit kEpsilon) then None
         else ifFinite F (Value_scalar F
           (sub (v_x a) (mul (fo_floor F (quot (v_x a) (v_x b))) (v_x b))))
     | Some FnPingPong \<Rightarrow>
         if fo_less_eq F (v_x b) (lit kEpsilon) then None
         else
           let double = mul (lit 2) (v_x b);
               repeated = sub (v_x a) (mul (fo_floor F (quot (v_x a) double)) double)
           in ifFinite F (Value_scalar F (sub (v_x b) (fo_abs F (sub repeated (v_x b)))))
     | Some FnBezier2 \<Rightarrow>
         Option.bind (components F (v_type a) (\<lambda>i.
           Some (bezierComponent F FnBezier2 (v_x d) (GetComponent a i) (GetComponent b i)
             (GetComponent c i) (GetComponent d i)))) (ifFinite F)
     | Some FnBezier3 \<Rightarrow>
         Option.bind (components F (v_type a) (\<lambda>i.
           Some (bezierComponent F FnBezier3 (v_x e) (GetComponent a i) (GetComponent b i)
             (GetComponent c i) (GetComponent d i)))) (ifFinite F))"

subsection \<open>The stack machine\<close>

definition pushValue ::
  "('f, 'd) FloatOps \<Rightarrow> 'f Value \<Rightarrow> 'f Value list \<Rightarrow> 'f Value list option" where
  "pushValue F value stack =
    (if length stack \<ge> kMaximumExpressionStack \<or> \<not> IsFinite F value then None
     else Some (value # stack))"

text \<open>\<open>Negate\<close> rewrites the components of the top in place.\<close>

definition negateValue :: "('f, 'd) FloatOps \<Rightarrow> 'f Value \<Rightarrow> 'f Value" where
  "negateValue F value =
    fold (\<lambda>i v. SetComponent v i (fo_neg F (GetComponent v i)))
      [0..<ComponentCount (v_type value)] value"

text \<open>The five argument slots: the popped values in order, then default values.\<close>

definition argumentSlots :: "('f, 'd) FloatOps \<Rightarrow> 'f Value list \<Rightarrow> 'f Value list" where
  "argumentSlots F values =
    values @ replicate (5 - length values) (MakeValue F InvalidType)"

definition evaluateStep ::
  "('f, 'd) FloatOps \<Rightarrow> 'f EvaluationContext \<Rightarrow> 'f list \<Rightarrow> 'f Instruction \<Rightarrow> 'f Value list \<Rightarrow>
    'f Value list option" where
  "evaluateStep F context parameters i stack =
    (case in_op i of
       PushConstant \<Rightarrow> pushValue F (Value_scalar F (in_constant i)) stack
     | PushVariable \<Rightarrow>
         pushValue F (ResolveVariableValue F (enumCast variableIds (in_operand i)) context) stack
     | PushParameter \<Rightarrow>
         if unat (in_operand i) \<ge> length parameters then None
         else pushValue F (Value_scalar F (parameters ! unat (in_operand i))) stack
     | OpNegate \<Rightarrow>
         (case stack of
            [] \<Rightarrow> None
          | value # rest \<Rightarrow>
              let value = negateValue F value
              in if IsFinite F value then Some (value # rest) else None)
     | OpCall \<Rightarrow>
         let n = unat (in_argumentCount i) in
         if n > 5 \<or> length stack < n then None
         else Option.bind
           (EvaluateFunction F (enumCast functionIds (in_operand i))
              (argumentSlots F (rev (List.take n stack))) (in_argumentCount i) context)
           (\<lambda>result. pushValue F result (List.drop n stack))
     | _ \<Rightarrow>
         (case stack of
            right # left # rest \<Rightarrow>
              Option.bind (EvaluateArithmetic F (in_op i) left right (in_outputType i))
                (\<lambda>result. pushValue F result rest)
          | _ \<Rightarrow> None))"

fun evaluateLoop ::
  "('f, 'd) FloatOps \<Rightarrow> 'f EvaluationContext \<Rightarrow> 'f list \<Rightarrow> 'f Instruction list \<Rightarrow> 'f Value list \<Rightarrow>
    'f Value list option" where
  "evaluateLoop F context parameters [] stack = Some stack"
| "evaluateLoop F context parameters (i # is) stack =
    Option.bind (evaluateStep F context parameters i stack) (evaluateLoop F context parameters is)"

definition evaluateProgram ::
  "('f, 'd) FloatOps \<Rightarrow> 'f Program \<Rightarrow> 'f EvaluationContext \<Rightarrow> 'f list \<Rightarrow> 'f Value option" where
  "evaluateProgram F program context parameters =
    (if pr_instructions program = [] \<or> pr_resultType program = InvalidType then None
     else
       case evaluateLoop F context parameters (pr_instructions program) [] of
         Some [value] \<Rightarrow>
           if v_type value \<noteq> pr_resultType program \<or> \<not> IsFinite F value then None else Some value
       | _ \<Rightarrow> None)"

end
