(* ===== verification/MathCorrectness.thy ===== *)
theory MathCorrectness
  imports MathParsing MathEvaluator
begin

section \<open>Compiled expressions mean what they say\<close>

text \<open>
  The value of an expression by recursion on its tree, and the static types of the
  instructions. A compiled program evaluates to the value of the tree of its source text: no
  underflow, overflow or type mismatch of the stack machine is reachable.
\<close>

subsection \<open>Types of values\<close>

lemma componentLoop_type: "componentLoop operation is v = Some w \<Longrightarrow> v_type w = v_type v"
  by (induction operation "is" v rule: componentLoop.induct) (auto split: option.splits)

lemma components_type: "components F t operation = Some v \<Longrightarrow> v_type v = t"
  by (auto simp: components_def dest: componentLoop_type)

lemma ifFinite_iff: "ifFinite F v = Some w \<longleftrightarrow> w = v \<and> IsFinite F v"
  by (auto simp: ifFinite_def)

lemma componentwise_type:
  "UnaryComponentwise F a f = Some v \<Longrightarrow> v_type v = v_type a"
  "unaryStd F a g = Some v \<Longrightarrow> v_type v = v_type a"
  "BinaryComponentwise F a b h = Some v \<Longrightarrow> v_type v = v_type a"
  "Option.bind (components F t k) (ifFinite F) = Some v \<Longrightarrow> v_type v = t"
  by (auto simp: UnaryComponentwise_def unaryStd_def BinaryComponentwise_def bind_eq_Some_conv
      ifFinite_iff dest: components_type)

lemma rotate_type: "rotateAroundAxis F a b c = Some v \<Longrightarrow> v_type v = Vector3"
  by (auto simp: rotateAroundAxis_def Let_def ifFinite_iff split: if_splits)

lemma EvaluateArithmetic_type: "EvaluateArithmetic F opc a b t = Some v \<Longrightarrow> v_type v = t"
  by (auto simp: EvaluateArithmetic_def dest: componentwise_type)

lemma EvaluateFunction_type:
  assumes "EvaluateFunction F (Some f) vs n context = Some v" and "length vs = 5"
  shows "v_type v = outputOf f (map v_type vs)"
proof -
  note eval = EvaluateFunction_def Let_def outputOf.simps nth_map
  note types = componentwise_type components_type rotate_type
  show ?thesis
    using assms
    by (cases f) (auto simp: eval ifFinite_iff dest: types split: if_splits)
qed

lemma negateValue_type: "v_type (negateValue F v) = v_type v"
proof -
  have "v_type (fold (\<lambda>i v. SetComponent v i (fo_neg F (GetComponent v i))) is w) = v_type w" for "is" w
    by (induction "is" arbitrary: w) simp_all
  then show ?thesis by (simp add: negateValue_def)
qed

lemma variable_type: "v_type (ResolveVariableValue F (Some i) context) = variableType i"
  by (cases i) (simp_all add: ResolveVariableValue_def variableType_def vec3Of_def)

subsection \<open>The numbers of the identifiers\<close>

lemma enum_roundtrip:
  assumes "i \<in> set ids" and "length ids < 2 ^ 16"
  shows "enumCast ids (enumCode ids i) = Some i"
proof -
  have k: "length (takeWhile (\<lambda>j. j \<noteq> i) ids) < length ids"
    "ids ! length (takeWhile (\<lambda>j. j \<noteq> i) ids) = i"
    using assms(1) by (induction ids) auto
  then show ?thesis
    using assms(2) by (simp add: enumCast_def enumCode_def unat_of_nat take_bit_nat_eq_self)
qed

lemma variable_roundtrip [simp]: "enumCast variableIds (enumCode variableIds i) = Some i"
  by (rule enum_roundtrip) (cases i, simp_all add: variableIds_def)

lemma function_roundtrip [simp]: "enumCast functionIds (enumCode functionIds f) = Some f"
  by (rule enum_roundtrip) (cases f, simp_all add: functionIds_def)

subsection \<open>The value of a tree\<close>

fun evalExpr ::
    "('f, 'd) FloatOps \<Rightarrow> 'f EvaluationContext \<Rightarrow> (string \<Rightarrow> 'f) \<Rightarrow> 'f expr \<Rightarrow> 'f Value option"
  and evalExprs ::
    "('f, 'd) FloatOps \<Rightarrow> 'f EvaluationContext \<Rightarrow> (string \<Rightarrow> 'f) \<Rightarrow> 'f expr list \<Rightarrow> 'f Value list option"
where
  "evalExpr F context env (Constant c) = ifFinite F (Value_scalar F c)"
| "evalExpr F context env (Variable i) = ifFinite F (ResolveVariableValue F (Some i) context)"
| "evalExpr F context env (Parameter s) = ifFinite F (Value_scalar F (env s))"
| "evalExpr F context env (Binary opc x y) = do {
     a \<leftarrow> evalExpr F context env x;
     b \<leftarrow> evalExpr F context env y;
     v \<leftarrow> EvaluateArithmetic F opc a b (typeOf (Binary opc x y));
     ifFinite F v
   }"
| "evalExpr F context env (Negated x) = do {
     a \<leftarrow> evalExpr F context env x;
     ifFinite F (negateValue F a)
   }"
| "evalExpr F context env (Invoke name xs) = do {
     vs \<leftarrow> evalExprs F context env xs;
     v \<leftarrow> EvaluateFunction F (Some (fr_id (ResolveFunction name (map typeOf xs))))
            (argumentSlots F vs) (of_nat (length xs)) context;
     ifFinite F v
   }"
| "evalExprs F context env [] = Some []"
| "evalExprs F context env (x # xs) = do {
     v \<leftarrow> evalExpr F context env x;
     vs \<leftarrow> evalExprs F context env xs;
     Some (v # vs)
   }"

lemma evalExprs_length: "evalExprs F context env xs = Some vs \<Longrightarrow> length vs = length xs"
  by (induction xs arbitrary: vs) (auto simp: bind_eq_Some_conv)

lemma outputOf_prefix:
  "sourceOf f < length ts \<Longrightarrow> outputOf f (ts @ us) = outputOf f ts"
  by (cases f) (simp_all add: outputOf.simps sourceOf_def nth_append)

lemma evalExpr_type:
  "well_typed x \<Longrightarrow> evalExpr F context env x = Some v \<Longrightarrow> v_type v = typeOf x \<and> IsFinite F v"
  "list_all well_typed xs \<Longrightarrow> evalExprs F context env xs = Some vs \<Longrightarrow> map v_type vs = map typeOf xs"
proof (induction F "context" env x and F "context" env xs arbitrary: v and vs
    rule: evalExpr_evalExprs.induct)
  case (6 F ctx env name xs)
  obtain vs where vs: "evalExprs F ctx env xs = Some vs"
    and v: "EvaluateFunction F (Some (fr_id (ResolveFunction name (map typeOf xs))))
      (argumentSlots F vs) (of_nat (length xs)) ctx = Some v" "IsFinite F v"
    using "6.prems" by (auto simp: bind_eq_Some_conv ifFinite_iff)
  have len: "length vs \<le> 5" using "6.prems" evalExprs_length [OF vs] by simp
  have types: "map v_type vs = map typeOf xs" using "6.IH" "6.prems" vs by simp
  have "fr_valid (ResolveFunction name (map typeOf xs))" using "6.prems" by simp
  then have out: "typeOf (Invoke name xs) = outputOf (fr_id (ResolveFunction name (map typeOf xs))) (map v_type vs)"
    "sourceOf (fr_id (ResolveFunction name (map typeOf xs))) < length (map v_type vs)"
    using resolves_function [of "map typeOf xs" name] types evalExprs_length [OF vs]
    by (simp_all add: resolves_def)
  have "v_type v = outputOf (fr_id (ResolveFunction name (map typeOf xs))) (map v_type (argumentSlots F vs))"
    by (rule EvaluateFunction_type [OF v(1)]) (simp add: argumentSlots_def len)
  then show ?case
    using out v(2) outputOf_prefix [OF out(2)] by (simp add: argumentSlots_def)
next
  case (4 F ctx env opc x y)
  from "4.prems" obtain a b where "EvaluateArithmetic F opc a b (typeOf (Binary opc x y)) = Some v" "IsFinite F v"
    by (auto simp: bind_eq_Some_conv ifFinite_iff simp del: typeOf.simps)
  then show ?case using EvaluateArithmetic_type by blast
next
  case (5 F ctx env x)
  from "5.prems" obtain a where "evalExpr F ctx env x = Some a" "v = negateValue F a" "IsFinite F v"
    by (auto simp: bind_eq_Some_conv ifFinite_iff)
  then show ?case using "5.IH" "5.prems" by (simp add: negateValue_type)
next
  case (8 F ctx env x xs)
  from "8.prems" obtain w ws where "evalExpr F ctx env x = Some w" "evalExprs F ctx env xs = Some ws" "vs = w # ws"
    by (auto simp: bind_eq_Some_conv)
  then show ?case using "8.IH" "8.prems" by simp
qed (simp_all add: ifFinite_iff variable_type)

subsection \<open>The stack a tree needs\<close>

fun need :: "'f expr \<Rightarrow> nat"
  and needs :: "'f expr list \<Rightarrow> nat" where
  "need (Constant c) = 1"
| "need (Variable i) = 1"
| "need (Parameter s) = 1"
| "need (Binary opc x y) = max (need x) (Suc (need y))"
| "need (Negated x) = need x"
| "need (Invoke name xs) = max 1 (needs xs)"
| "needs [] = 0"
| "needs (x # xs) = max (need x) (Suc (needs xs))"

lemma need_pos: "0 < need x"
  by (induction x) (auto simp: less_max_iff_disj)

lemma count_roundtrip: "n \<le> 5 \<Longrightarrow> unat (of_nat n :: u8) = n"
  by (simp add: unat_of_nat take_bit_nat_eq_self)

lemma max_limit: "m \<le> (64 :: nat) \<Longrightarrow> (64 < max m d) = (64 < d)"
  by (auto simp: max_def)

lemma stackShape_code:
  fixes x :: "'f expr" and xs :: "'f expr list" and "is" :: "'f Instruction list"
  shows "well_typed x \<Longrightarrow> d \<le> m \<Longrightarrow> m \<le> 64 \<Longrightarrow>
      stackShape (code F names x @ is) d m =
        (d + need x \<le> 64 \<and> stackShape is (d + 1) (max m (d + need x)))"
    and "list_all well_typed xs \<Longrightarrow> d \<le> m \<Longrightarrow> m \<le> 64 \<Longrightarrow>
      stackShape (concat (map (code F names) xs) @ is) d m =
        (d + needs xs \<le> 64 \<and> stackShape is (d + length xs) (max m (d + needs xs)))"
proof (induction x and xs arbitrary: d m "is" and d m "is" rule: need_needs.induct)
  case (4 opc x y)
  define i where "i = (instruction_init F)\<lparr>in_op := opc, in_outputType := typeOf (Binary opc x y)\<rparr>"
  have x: "stackShape (code F names x @ code F names y @ i # is) d m =
      (d + need x \<le> 64 \<and> stackShape (code F names y @ i # is) (d + 1) (max m (d + need x)))"
    using "4.IH"(1) "4.prems" by simp
  have y: "stackShape (code F names y @ i # is) (d + 1) (max m (d + need x)) =
      (d + 1 + need y \<le> 64 \<and> stackShape (i # is) (d + 2) (max (max m (d + need x)) (d + 1 + need y)))"
    if "d + need x \<le> 64"
    using "4.IH"(2) [of "d + 1" "max m (d + need x)" "i # is"] "4.prems" that need_pos [of x] by simp
  have i: "stackShape (i # is) (d + 2) k = stackShape is (d + 1) k"
    if "d + 2 \<le> k" "k \<le> 64" for k
    using that "4.prems"
    by (auto simp: i_def kMaximumExpressionStack_def Let_def max_def split: OpCode.splits)
  have k: "max (max m (d + need x)) (d + 1 + need y) = max m (d + max (need x) (Suc (need y)))"
    by (simp add: max_def)
  have "code F names (Binary opc x y) @ is = code F names x @ code F names y @ i # is"
    by (simp add: i_def del: typeOf.simps)
  then show ?case
    using x y i [of "max (max m (d + need x)) (d + 1 + need y)"] need_pos [of y] "4.prems"
    unfolding k need.simps by auto
next
  case (5 x)
  have m: "max (d + 1) (max m (d + need x)) = max m (d + need x)"
    "max (max m (d + need x)) (d + 1) = max m (d + need x)"
    using need_pos [of x] by (simp_all add: max_def)
  show ?case
    using "5.IH" [of d m "(instruction_init F)\<lparr>in_op := OpNegate, in_outputType := typeOf x\<rparr> # is"] "5.prems" m
    by (auto simp: Let_def kMaximumExpressionStack_def)
next
  case (6 name xs)
  then show ?case
    by (auto simp: Let_def kMaximumExpressionStack_def max_def count_roundtrip)
next
  case (8 x xs)
  have "stackShape (concat (map (code F names) (x # xs)) @ is) d m =
      (d + need x \<le> 64 \<and> stackShape (concat (map (code F names) xs) @ is) (d + 1) (max m (d + need x)))"
    using "8.IH"(1) "8.prems" by simp
  also have "\<dots> = (d + need x \<le> 64 \<and> d + 1 + needs xs \<le> 64 \<and>
      stackShape is (d + 1 + length xs) (max (max m (d + need x)) (d + 1 + needs xs)))"
    using "8.IH"(2) [of "d + 1" "max m (d + need x)" "is"] "8.prems" need_pos [of x] by auto
  finally show ?case by (auto simp: max_def)
qed (auto simp: Let_def kMaximumExpressionStack_def max_def)

subsection \<open>Running the code of a tree\<close>

lemma pushValue_bind:
  "length stack < 64 \<Longrightarrow> pushValue F v stack = Option.bind (ifFinite F v) (\<lambda>w. Some (w # stack))"
  by (simp add: pushValue_def ifFinite_def kMaximumExpressionStack_def)

lemma bind_assoc_option: "Option.bind (Option.bind a f) g = Option.bind a (\<lambda>x. Option.bind (f x) g)"
  by (cases a) auto

text \<open>The environment a list of parameter values and names gives.\<close>

definition environment :: "'f list \<Rightarrow> string list \<Rightarrow> string \<Rightarrow> 'f" where
  "environment parameters names s = parameters ! parameterIndex names s"

lemma evaluateLoop_code:
  fixes x :: "'f expr" and xs :: "'f expr list" and "is" :: "'f Instruction list"
  assumes names: "length names \<le> 16" and parameters: "length parameters = 16"
  shows "well_typed x \<Longrightarrow> namesOf x \<subseteq> set names \<Longrightarrow> length stack + need x \<le> 64 \<Longrightarrow>
      evaluateLoop F context parameters (code F names x @ is) stack =
        Option.bind (evalExpr F context (environment parameters names) x)
          (\<lambda>v. evaluateLoop F context parameters is (v # stack))"
    and "list_all well_typed xs \<Longrightarrow> \<Union> (set (map namesOf xs)) \<subseteq> set names \<Longrightarrow>
      length stack + needs xs \<le> 64 \<Longrightarrow>
      evaluateLoop F context parameters (concat (map (code F names) xs) @ is) stack =
        Option.bind (evalExprs F context (environment parameters names) xs)
          (\<lambda>vs. evaluateLoop F context parameters is (rev vs @ stack))"
proof (induction x and xs arbitrary: stack "is" and stack "is" rule: need_needs.induct)
  case (1 c)
  then show ?case by (simp add: evaluateStep_def pushValue_bind bind_assoc_option)
next
  case (2 i)
  then show ?case by (simp add: evaluateStep_def pushValue_bind bind_assoc_option)
next
  case (3 s)
  have "parameterIndex names s < length names" using "3.prems"(2) parameterIndex_nth [of s names] by simp
  then have k: "parameterIndex names s < 16" "unat (of_nat (parameterIndex names s) :: u16) = parameterIndex names s"
    using names by (simp_all add: unat_of_nat take_bit_nat_eq_self)
  then show ?case
    using "3.prems" parameters
    by (simp add: evaluateStep_def pushValue_bind bind_assoc_option environment_def not_le)
next
  case (4 opc x y)
  define t where "t = typeOf (Binary opc x y)"
  define i where "i = (instruction_init F)\<lparr>in_op := opc, in_outputType := t\<rparr>"
  have eq: "code F names (Binary opc x y) @ is = code F names x @ code F names y @ i # is"
    by (simp add: i_def t_def del: typeOf.simps)
  have step: "evaluateStep F context parameters i (b # a # stack) =
      Option.bind (EvaluateArithmetic F opc a b t) (\<lambda>v. Option.bind (ifFinite F v) (\<lambda>w. Some (w # stack)))" for a b
    using "4.prems" by (auto simp: evaluateStep_def i_def pushValue_bind)
  have x: "evaluateLoop F context parameters (code F names x @ code F names y @ i # is) stack =
      Option.bind (evalExpr F context (environment parameters names) x)
        (\<lambda>a. evaluateLoop F context parameters (code F names y @ i # is) (a # stack))"
    using "4.IH"(1) "4.prems" by simp
  have y: "evaluateLoop F context parameters (code F names y @ i # is) (a # stack) =
      Option.bind (evalExpr F context (environment parameters names) y)
        (\<lambda>b. evaluateLoop F context parameters (i # is) (b # a # stack))" for a
    using "4.IH"(2) [of "a # stack" "i # is"] "4.prems" by simp
  show ?case
    unfolding eq x y evalExpr.simps t_def [symmetric]
    by (simp add: step bind_assoc_option)
next
  case (5 x)
  then show ?case
    by (simp add: evaluateStep_def bind_assoc_option ifFinite_def Let_def if_distrib [of "\<lambda>r. Option.bind r _"]
        cong: if_cong)
next
  case (6 name xs)
  define f where "f = fr_id (ResolveFunction name (map typeOf xs))"
  define i where "i = (instruction_init F)\<lparr>in_op := OpCall, in_outputType := typeOf (Invoke name xs),
       in_operand := enumCode functionIds f, in_argumentCount := of_nat (length xs)\<rparr>"
  have eq: "code F names (Invoke name xs) @ is = concat (map (code F names) xs) @ i # is"
    by (simp add: i_def f_def)
  have len: "length xs \<le> 5" using "6.prems" by simp
  have step: "evaluateStep F context parameters i (rev vs @ stack) =
      Option.bind (EvaluateFunction F (Some f) (argumentSlots F vs) (of_nat (length xs)) context)
        (\<lambda>v. Option.bind (ifFinite F v) (\<lambda>w. Some (w # stack)))" if "length vs = length xs" for vs
    using "6.prems" that len
    by (simp add: evaluateStep_def i_def count_roundtrip Let_def pushValue_bind)
  have xs: "evaluateLoop F context parameters (concat (map (code F names) xs) @ i # is) stack =
      Option.bind (evalExprs F context (environment parameters names) xs)
        (\<lambda>vs. evaluateLoop F context parameters (i # is) (rev vs @ stack))"
    using "6.IH" "6.prems" by simp
  show ?case
    unfolding eq xs evalExpr.simps f_def [symmetric]
    by (cases "evalExprs F context (environment parameters names) xs")
      (simp_all add: step evalExprs_length bind_assoc_option)
next
  case 7
  then show ?case by simp
next
  case (8 x xs)
  have x: "evaluateLoop F context parameters (concat (map (code F names) (x # xs)) @ is) stack =
      Option.bind (evalExpr F context (environment parameters names) x)
        (\<lambda>v. evaluateLoop F context parameters (concat (map (code F names) xs) @ is) (v # stack))"
    using "8.IH"(1) "8.prems" by simp
  have xs: "evaluateLoop F context parameters (concat (map (code F names) xs) @ is) (v # stack) =
      Option.bind (evalExprs F context (environment parameters names) xs)
        (\<lambda>vs. evaluateLoop F context parameters is (rev vs @ v # stack))" for v
    using "8.IH"(2) [of "v # stack" "is"] "8.prems" by simp
  show ?case unfolding x xs by (simp add: bind_assoc_option)
qed

subsection \<open>Compiled programs\<close>

lemma code_nonempty: "code F names x \<noteq> []"
  by (cases x) simp_all

lemma compile_accepts:
  assumes "CompileExpression F e = Some (Inr program)"
  obtains x where "sumPhrase F e 0 (length e) x" "typed x (pr_resultType program)"
    "namesOf x \<subseteq> set (pr_parameterNames program)"
    "pr_instructions program = code F (pr_parameterNames program) x" "need x \<le> 64"
    "length (pr_instructions program) \<le> 256" "length (pr_parameterNames program) \<le> 16"
    "distinct (pr_parameterNames program)" "list_all (\<lambda>s. length s \<le> 31) (pr_parameterNames program)"
proof -
  obtain t p where parse: "parse F e = Some (t, p)"
    and good: "\<not> failed p \<Longrightarrow> within_limits e p \<and> (\<exists>x. sumPhrase F e 0 (length e) x \<and> typed x t \<and>
      namesOf x \<subseteq> set (ps_parameters p) \<and> ps_instructions p = code F (ps_parameters p) x)"
    by (rule parse_returns [of F e]) blast
  have p: "\<not> failed p" "ValidateStackShape (ps_instructions p)"
    "program = \<lparr>pr_resultType = t, pr_parameterNames = ps_parameters p, pr_instructions = ps_instructions p\<rparr>"
    using assms parse by (auto simp: CompileExpression_def split: if_splits)
  obtain x where x: "sumPhrase F e 0 (length e) x" "typed x t" "namesOf x \<subseteq> set (ps_parameters p)"
    "ps_instructions p = code F (ps_parameters p) x" and w: "within_limits e p"
    using good [OF p(1)] by blast
  have "stackShape (code F (ps_parameters p) x @ []) 0 0"
    using p(2) x(4) by (simp add: ValidateStackShape_def)
  then have "need x \<le> 64" using stackShape_code(1) [of x 0 0 F "ps_parameters p" "[]"] x(2)
    by (simp add: typed_def)
  then show thesis
    using that [of x] x w p(3) by (simp add: within_limits_def expression_limits)
qed

lemma evaluate_compiled:
  assumes "CompileExpression F e = Some (Inr program)" and "length parameters = 16"
    and "typed x (pr_resultType program)" "namesOf x \<subseteq> set (pr_parameterNames program)"
    "pr_instructions program = code F (pr_parameterNames program) x" "need x \<le> 64"
    "length (pr_parameterNames program) \<le> 16"
  shows "evaluateProgram F program context parameters =
    evalExpr F context (environment parameters (pr_parameterNames program)) x"
proof -
  have wt: "well_typed x" "typeOf x = pr_resultType program" "pr_resultType program \<noteq> InvalidType"
    using assms(3) by (simp_all add: typed_def)
  have run: "evaluateLoop F context parameters (pr_instructions program) [] =
      Option.bind (evalExpr F context (environment parameters (pr_parameterNames program)) x) (\<lambda>v. Some [v])"
    using evaluateLoop_code(1) [OF assms(7,2) wt(1) assms(4), of "[]" F "context" "[]"] assms(5,6) by simp
  show ?thesis
  proof (cases "evalExpr F context (environment parameters (pr_parameterNames program)) x")
    case None
    then show ?thesis using run by (simp add: evaluateProgram_def)
  next
    case (Some v)
    then show ?thesis
      using run wt evalExpr_type(1) [OF wt(1) Some] assms(5) code_nonempty [of F _ x]
      by (simp add: evaluateProgram_def)
  qed
qed

lemma evalExpr_cong:
  "(\<And>s. s \<in> namesOf x \<Longrightarrow> env s = env' s) \<Longrightarrow> evalExpr F context env x = evalExpr F context env' x"
  "(\<And>s. s \<in> \<Union> (set (map namesOf xs)) \<Longrightarrow> env s = env' s) \<Longrightarrow>
    evalExprs F context env xs = evalExprs F context env' xs"
  by (induction x and xs rule: need_needs.induct) simp_all

text \<open>
  C2. A compiled expression means its source text: the text is a sum of the grammar, whose tree
  is well typed with the type of the program, and evaluating the program under any context and
  parameter values gives the value of that tree, each parameter standing for the value at the
  index \<open>findParameter\<close> reports for its name. In particular the evaluator fails only where an
  operation of the tree fails or is not finite.
\<close>

theorem compiled_program_means_its_source:
  assumes "CompileExpression F e = Some (Inr program)"
  shows "\<exists>x. sumPhrase F e 0 (length e) x \<and> well_typed x \<and> typeOf x = pr_resultType program \<and>
    namesOf x \<subseteq> set (pr_parameterNames program) \<and>
    (\<forall>context parameters. length parameters = kMaximumExpressionParameters \<longrightarrow>
       evaluateProgram F program context parameters =
         evalExpr F context (\<lambda>s. parameters ! nat (findParameter program s)) x)"
proof -
  obtain x where x: "sumPhrase F e 0 (length e) x" "typed x (pr_resultType program)"
    "namesOf x \<subseteq> set (pr_parameterNames program)"
    "pr_instructions program = code F (pr_parameterNames program) x" "need x \<le> 64"
    "length (pr_parameterNames program) \<le> 16"
    using compile_accepts [OF assms] by metis
  have env: "evalExpr F context (environment parameters (pr_parameterNames program)) x =
      evalExpr F context (\<lambda>s. parameters ! nat (findParameter program s)) x" for "context" parameters
    by (rule evalExpr_cong(1)) (use x(3) in \<open>auto simp: environment_def findParameter_def find_index\<close>)
  have "evaluateProgram F program context parameters =
      evalExpr F context (\<lambda>s. parameters ! nat (findParameter program s)) x"
    if "length parameters = 16" for "context" parameters
    using evaluate_compiled [OF assms that x(2-6)] env by simp
  then show ?thesis
    using x by (intro exI [of _ x]) (simp add: typed_def kMaximumExpressionParameters_def)
qed

subsection \<open>Static types of the instructions\<close>









lemma compile_returns: "\<exists>r. CompileExpression F e = Some r"
proof -
  obtain t p where "parse F e = Some (t, p)" by (rule parse_returns [of F e])
  then show ?thesis by (simp add: CompileExpression_def)
qed


subsection \<open>Examples\<close>

text \<open>
  Rational arithmetic in the place of the floating-point unit: exact sums, products and
  comparisons, unsigned decimal integers as numbers, and identities for the mathematical
  functions, which the examples do not call.
\<close>

definition decimal :: "string \<Rightarrow> (rat \<times> nat) option" where
  "decimal s =
    (if s \<noteq> [] \<and> list_all isDigit s
     then Some (of_nat (fold (\<lambda>c n. 10 * n + (of_char c - 48)) s 0), length s) else None)"

definition exactOps :: "(rat, rat) FloatOps" where
  "exactOps = \<lparr>fo_literal = (\<lambda>r. r), fo_add = (+), fo_sub = (-), fo_mul = (*), fo_div = (/),
     fo_neg = uminus, fo_less = (<), fo_less_eq = (\<le>), fo_isfinite = (\<lambda>_. True), fo_abs = abs,
     fo_sqrt = id, fo_sin = id, fo_cos = id, fo_tan = id, fo_asin = id, fo_acos = id, fo_atan = id,
     fo_atan2 = (\<lambda>y x. y), fo_exp = id, fo_log = id, fo_pow = (\<lambda>x y. x), fo_floor = id, fo_ceil = id,
     fo_round = id, fo_fmod = (\<lambda>x y. x), fo_lround = (\<lambda>_. 0), fo_of_u32 = (\<lambda>n. of_nat (unat n)),
     fo_to_i32 = (\<lambda>_. 0), fo_from_chars = decimal, fo_widen = id, fo_narrow = id, do_literal = id,
     do_add = (+), do_abs = abs, do_fmod = (\<lambda>x y. x), do_less = (<), do_less_eq = (\<le>),
     do_isfinite = (\<lambda>_. True), do_to_u32 = (\<lambda>_. 0)\<rparr>"

definition ex_context :: "rat EvaluationContext" where
  "ex_context = \<lparr>ec_t = 3, ec_time = 0, ec_length = 0, ec_index = 0, ec_segments = 1, ec_seed = 0,
     ec_branchIndex = 0, ec_branchDepth = 0, ec_start = \<lparr>vec_x = 1, vec_y = 2, vec_z = 3\<rparr>,
     ec_end = \<lparr>vec_x = 0, vec_y = 0, vec_z = 0\<rparr>, ec_center = \<lparr>vec_x = 0, vec_y = 0, vec_z = 0\<rparr>,
     ec_direction = \<lparr>vec_x = 0, vec_y = 0, vec_z = 0\<rparr>, ec_forward = \<lparr>vec_x = 0, vec_y = 0, vec_z = 0\<rparr>,
     ec_right = \<lparr>vec_x = 0, vec_y = 0, vec_z = 0\<rparr>, ec_up = \<lparr>vec_x = 0, vec_y = 0, vec_z = 0\<rparr>\<rparr>"

definition ex_program :: "rat Program" where
  "ex_program = \<lparr>pr_resultType = Vector3, pr_parameterNames = [''k''],
     pr_instructions = code exactOps [''k'']
       (Binary OpSubtract (Variable VarStart)
         (Binary OpMultiply (Parameter ''k'') (Invoke ''vec3'' [Variable VarT, Constant 2, Constant 1])))\<rparr>"

definition ex_text :: string where
  "ex_text = ''start - k * vec3(t, 2, 1)''"

lemma ex_compiles:
  "CompileExpression exactOps ex_text = Some (Inr ex_program)"
  by code_simp

lemma compiled_program_means_its_source_witness:
  "(\<exists>x. sumPhrase exactOps ex_text 0 (length ex_text) x \<and> typeOf x = Vector3 \<and>
     evaluateProgram exactOps ex_program ex_context (replicate 16 2) =
       evalExpr exactOps ex_context (\<lambda>s. replicate 16 2 ! nat (findParameter ex_program s)) x) \<and>
   evaluateProgram exactOps ex_program ex_context (replicate 16 2) =
     Some \<lparr>v_type = Vector3, v_x = - 5, v_y = - 2, v_z = 1\<rparr>"
proof -
  have r: "pr_resultType ex_program = Vector3" by (simp add: ex_program_def)
  have "evaluateProgram exactOps ex_program ex_context (replicate 16 2) =
      Some \<lparr>v_type = Vector3, v_x = - 5, v_y = - 2, v_z = 1\<rparr>"
    by code_simp
  then show ?thesis
    using compiled_program_means_its_source [OF ex_compiles] r
    by (fastforce simp: kMaximumExpressionParameters_def)
qed


end
