(* ===== verification/CurveRuntime.thy ===== *)
theory CurveRuntime
  imports MathCorrectness "HOL-Library.AList"
begin

section \<open>The curve runtime\<close>

text \<open>
  \<open>src/src/d3d9/war3/math/war3_curve_runtime.h\<close> and \<open>war3_curve_runtime.cpp\<close>: the registries of
  compiled programs and of curves behind one mutex, the bounded upload of point curves, and the
  evaluation of a snapshot in world space. The state is the record \<open>CurveRuntime\<close>; an
  \<open>unordered_map\<close> is an association list with distinct keys, a shared immutable program is its
  value, and the operations are the sequence the mutex serialises.
\<close>

subsection \<open>Vectors\<close>

definition curveEpsilon :: rat where "curveEpsilon = 1 / 1000000"

text \<open>\<open>std::numeric_limits<float>::max()\<close> widened to a \<open>double\<close>.\<close>

definition floatMax :: rat where "floatMax = 340282346638528859811704183484516925440"

definition vec3 :: "'f \<Rightarrow> 'f \<Rightarrow> 'f \<Rightarrow> 'f Vec3" where
  "vec3 x y z = \<lparr>vec_x = x, vec_y = y, vec_z = z\<rparr>"

definition VecAdd :: "('f, 'd) FloatOps \<Rightarrow> 'f Vec3 \<Rightarrow> 'f Vec3 \<Rightarrow> 'f Vec3" where
  "VecAdd F a b =
    vec3 (fo_add F (vec_x a) (vec_x b)) (fo_add F (vec_y a) (vec_y b)) (fo_add F (vec_z a) (vec_z b))"

definition VecSubtract :: "('f, 'd) FloatOps \<Rightarrow> 'f Vec3 \<Rightarrow> 'f Vec3 \<Rightarrow> 'f Vec3" where
  "VecSubtract F a b =
    vec3 (fo_sub F (vec_x a) (vec_x b)) (fo_sub F (vec_y a) (vec_y b)) (fo_sub F (vec_z a) (vec_z b))"

definition VecScale :: "('f, 'd) FloatOps \<Rightarrow> 'f Vec3 \<Rightarrow> 'f \<Rightarrow> 'f Vec3" where
  "VecScale F v s = vec3 (fo_mul F (vec_x v) s) (fo_mul F (vec_y v) s) (fo_mul F (vec_z v) s)"

definition VecDot :: "('f, 'd) FloatOps \<Rightarrow> 'f Vec3 \<Rightarrow> 'f Vec3 \<Rightarrow> 'f" where
  "VecDot F a b =
    fo_add F (fo_add F (fo_mul F (vec_x a) (vec_x b)) (fo_mul F (vec_y a) (vec_y b)))
      (fo_mul F (vec_z a) (vec_z b))"

definition VecCross :: "('f, 'd) FloatOps \<Rightarrow> 'f Vec3 \<Rightarrow> 'f Vec3 \<Rightarrow> 'f Vec3" where
  "VecCross F a b =
    (let mul = fo_mul F; sub = fo_sub F in vec3
      (sub (mul (vec_y a) (vec_z b)) (mul (vec_z a) (vec_y b)))
      (sub (mul (vec_z a) (vec_x b)) (mul (vec_x a) (vec_z b)))
      (sub (mul (vec_x a) (vec_y b)) (mul (vec_y a) (vec_x b))))"

definition VecLength :: "('f, 'd) FloatOps \<Rightarrow> 'f Vec3 \<Rightarrow> 'f" where
  "VecLength F v = fo_sqrt F (std_max F (fo_literal F 0) (VecDot F v v))"

definition NormalizeOr :: "('f, 'd) FloatOps \<Rightarrow> 'f Vec3 \<Rightarrow> 'f Vec3 \<Rightarrow> 'f Vec3" where
  "NormalizeOr F v fallback =
    (let l = VecLength F v
     in if fo_less F (fo_literal F curveEpsilon) l then VecScale F v (fo_div F (fo_literal F 1) l)
        else fallback)"

definition VecLerp :: "('f, 'd) FloatOps \<Rightarrow> 'f Vec3 \<Rightarrow> 'f Vec3 \<Rightarrow> 'f \<Rightarrow> 'f Vec3" where
  "VecLerp F a b t = VecAdd F a (VecScale F (VecSubtract F b a) t)"

definition VecIsFinite :: "('f, 'd) FloatOps \<Rightarrow> 'f Vec3 \<Rightarrow> bool" where
  "VecIsFinite F v \<longleftrightarrow>
     fo_isfinite F (vec_x v) \<and> fo_isfinite F (vec_y v) \<and> fo_isfinite F (vec_z v)"

definition CurveSmoothStep01 :: "('f, 'd) FloatOps \<Rightarrow> 'f \<Rightarrow> 'f" where
  "CurveSmoothStep01 F value =
    (let mul = fo_mul F; t = std_clamp F value (fo_literal F 0) (fo_literal F 1)
     in mul (mul t t) (fo_sub F (fo_literal F 3) (mul (fo_literal F 2) t)))"

definition EndpointLockMask :: "('f, 'd) FloatOps \<Rightarrow> 'f \<Rightarrow> bool \<Rightarrow> bool \<Rightarrow> 'f" where
  "EndpointLockMask F t lockStart lockEnd =
    (let clamped = std_clamp F t (fo_literal F 0) (fo_literal F 1)
     in if lockStart \<and> lockEnd then fo_sin F (fo_mul F clamped (fo_literal F kPi))
        else if lockStart then CurveSmoothStep01 F clamped
        else if lockEnd then CurveSmoothStep01 F (fo_sub F (fo_literal F 1) clamped)
        else fo_literal F 1)"

subsection \<open>Snapshots\<close>

datatype CurveCoordinateMode = OffsetMode | LocalMode | WorldMode

definition kMinimumPointCurvePoints :: u32 where "kMinimumPointCurvePoints = 2"
definition kMaximumPointCurvePoints :: u32 where "kMaximumPointCurvePoints = 1024"
definition kMaximumPrograms :: nat where "kMaximumPrograms = 256"
definition kMaximumCurves :: nat where "kMaximumCurves = 512"

record 'f PointCurveData =
  pd_points :: "'f Vec3 list"
  pd_cumulativeLengths :: "'f list"
  pd_totalLength :: 'f

record 'f CurveSnapshot =
  cs_program :: "'f Program option"
  cs_pointCurve :: "'f PointCurveData option"
  cs_parameters :: "'f list"
  cs_coordinateMode :: CurveCoordinateMode
  cs_lockStart :: bool
  cs_lockEnd :: bool

definition snapshot_init :: "('f, 'd) FloatOps \<Rightarrow> 'f CurveSnapshot" where
  "snapshot_init F = \<lparr>cs_program = None, cs_pointCurve = None,
     cs_parameters = replicate kMaximumExpressionParameters (fo_literal F 0),
     cs_coordinateMode = OffsetMode, cs_lockStart = True, cs_lockEnd = True\<rparr>"

definition snapshot_valid :: "'f CurveSnapshot \<Rightarrow> bool" where
  "snapshot_valid c \<longleftrightarrow> cs_program c \<noteq> None \<or> cs_pointCurve c \<noteq> None"

definition isFormula :: "'f CurveSnapshot \<Rightarrow> bool" where
  "isFormula c \<longleftrightarrow> cs_program c \<noteq> None \<and> cs_pointCurve c = None"

definition isPointCurve :: "'f CurveSnapshot \<Rightarrow> bool" where
  "isPointCurve c \<longleftrightarrow> cs_pointCurve c \<noteq> None \<and> cs_program c = None"

definition renderable :: "('f, 'd) FloatOps \<Rightarrow> 'f CurveSnapshot \<Rightarrow> bool" where
  "renderable F c =
    (case cs_pointCurve c of
       Some data \<Rightarrow>
         cs_program c = None \<and> length (pd_points data) \<ge> unat kMinimumPointCurvePoints \<and>
         length (pd_points data) = length (pd_cumulativeLengths data) \<and>
         fo_less F (fo_literal F 0) (pd_totalLength data)
     | None \<Rightarrow>
         (case cs_program c of
            None \<Rightarrow> False
          | Some program \<Rightarrow>
              if cs_coordinateMode c = OffsetMode then pr_resultType program = Vector2
              else pr_resultType program = Vector3))"

record 'f CurveContext =
  cc_start :: "'f Vec3"
  cc_end :: "'f Vec3"
  cc_t :: 'f
  cc_time :: 'f
  cc_seed :: u32
  cc_index :: u32
  cc_segments :: u32
  cc_branchIndex :: u32
  cc_branchDepth :: u32

subsection \<open>Evaluation of a snapshot\<close>

definition curveEvaluationContext ::
  "('f, 'd) FloatOps \<Rightarrow> 'f CurveContext \<Rightarrow> 'f EvaluationContext" where
  "curveEvaluationContext F context =
    (let lit = fo_literal F;
         delta = VecSubtract F (cc_end context) (cc_start context);
         forward = NormalizeOr F delta (vec3 (lit 1) (lit 0) (lit 0));
         reference = (if fo_less F (fo_abs F (vec_z forward)) (lit (99 / 100))
                      then vec3 (lit 0) (lit 0) (lit 1) else vec3 (lit 0) (lit 1) (lit 0));
         right = NormalizeOr F (VecCross F reference forward) (vec3 (lit 0) (lit 1) (lit 0));
         up = NormalizeOr F (VecCross F forward right) (vec3 (lit 0) (lit 0) (lit 1))
     in \<lparr>ec_t = std_clamp F (cc_t context) (lit 0) (lit 1), ec_time = cc_time context,
         ec_length = VecLength F delta, ec_index = fo_of_u32 F (cc_index context),
         ec_segments = fo_of_u32 F (max (cc_segments context) 1), ec_seed = cc_seed context,
         ec_branchIndex = fo_of_u32 F (cc_branchIndex context),
         ec_branchDepth = fo_of_u32 F (cc_branchDepth context), ec_start = cc_start context,
         ec_end = cc_end context,
         ec_center = VecScale F (VecAdd F (cc_start context) (cc_end context)) (lit (1 / 2)),
         ec_direction = forward, ec_forward = forward, ec_right = right, ec_up = up\<rparr>)"

text \<open>The value together with the resolved context the caller may ask for.\<close>

definition EvaluateCurveRaw ::
  "('f, 'd) FloatOps \<Rightarrow> 'f CurveSnapshot \<Rightarrow> 'f CurveContext \<Rightarrow>
    ('f Value \<times> 'f EvaluationContext) option" where
  "EvaluateCurveRaw F curve context =
    (case cs_program curve of
       None \<Rightarrow> None
     | Some program \<Rightarrow>
         if \<not> VecIsFinite F (cc_start context) \<or> \<not> VecIsFinite F (cc_end context) \<or>
            \<not> fo_isfinite F (cc_t context) \<or> \<not> fo_isfinite F (cc_time context)
         then None
         else
           let evaluation = curveEvaluationContext F context
           in Option.bind (evaluateProgram F program evaluation (cs_parameters curve))
                (\<lambda>value. Some (value, evaluation)))"

text \<open>
  \<open>std::lower_bound\<close>: halve the range until it is empty.
\<close>

fun lowerBound :: "('a \<Rightarrow> bool) \<Rightarrow> 'a list \<Rightarrow> nat \<Rightarrow> nat \<Rightarrow> nat" where
  "lowerBound below xs begin 0 = begin"
| "lowerBound below xs begin (Suc n) =
    (let half = Suc n div 2; middle = begin + half
     in if below (xs ! middle) then lowerBound below xs (middle + 1) (Suc n - half - 1)
        else lowerBound below xs begin half)"

definition evaluatePolyline ::
  "('f, 'd) FloatOps \<Rightarrow> 'f PointCurveData \<Rightarrow> 'f \<Rightarrow> 'f Vec3 option" where
  "evaluatePolyline F data t =
    (let lengths = pd_cumulativeLengths data; points = pd_points data;
         target = fo_mul F (std_clamp F t (fo_literal F 0) (fo_literal F 1)) (pd_totalLength data);
         upper = lowerBound (\<lambda>l. fo_less F l target) lengths 0 (length lengths)
     in if upper = 0 then Some (hd points)
        else if upper = length lengths then Some (List.last points)
        else
          let lower = upper - 1;
              lowerLength = lengths ! lower;
              span = fo_sub F (lengths ! upper) lowerLength;
              localT = (if fo_less F (fo_literal F curveEpsilon) span
                        then std_clamp F (fo_div F (fo_sub F target lowerLength) span)
                               (fo_literal F 0) (fo_literal F 1)
                        else fo_literal F 0);
              output = VecLerp F (points ! lower) (points ! upper) localT
          in if VecIsFinite F output then Some output else None)"

definition EvaluateCurveWorld ::
  "('f, 'd) FloatOps \<Rightarrow> 'f CurveSnapshot \<Rightarrow> 'f CurveContext \<Rightarrow> 'f Vec3 option" where
  "EvaluateCurveWorld F curve context =
    (if isPointCurve curve then
       (if \<not> renderable F curve \<or> \<not> fo_isfinite F (cc_t context) then None
        else evaluatePolyline F (the (cs_pointCurve curve)) (cc_t context))
     else
       Option.bind (EvaluateCurveRaw F curve context) (\<lambda>(value, evaluation).
         let base = VecLerp F (ec_start evaluation) (ec_end evaluation) (ec_t evaluation);
             mask = EndpointLockMask F (ec_t evaluation) (cs_lockStart curve) (cs_lockEnd curve);
             output =
               (case cs_coordinateMode curve of
                  OffsetMode \<Rightarrow>
                    if v_type value \<noteq> Vector2 then None
                    else Some (VecAdd F base (VecAdd F
                           (VecScale F (ec_right evaluation) (fo_mul F (v_x value) mask))
                           (VecScale F (ec_up evaluation) (fo_mul F (v_y value) mask))))
                | LocalMode \<Rightarrow>
                    if v_type value \<noteq> Vector3 then None
                    else
                      let candidate = VecAdd F (ec_start evaluation) (VecAdd F
                            (VecScale F (ec_forward evaluation) (v_x value))
                            (VecAdd F (VecScale F (ec_right evaluation) (v_y value))
                                      (VecScale F (ec_up evaluation) (v_z value))))
                      in Some (VecLerp F base candidate mask)
                | WorldMode \<Rightarrow>
                    if v_type value \<noteq> Vector3 then None
                    else Some (VecLerp F base (vec3 (v_x value) (v_y value) (v_z value)) mask))
         in Option.bind output (\<lambda>p. if VecIsFinite F p then Some p else None)))"

definition EvaluateSnapshotComponent ::
  "('f, 'd) FloatOps \<Rightarrow> 'f CurveSnapshot \<Rightarrow> 'f CurveContext \<Rightarrow> int \<Rightarrow> 'f option" where
  "EvaluateSnapshotComponent F curve context component =
    (if component < 0 \<or> component > 2 then None
     else if \<not> snapshot_valid curve then None
     else if isFormula curve \<and> pr_resultType (the (cs_program curve)) = Scalar then
       (if component \<noteq> 0 then None
        else Option.bind (EvaluateCurveRaw F curve context) (\<lambda>(value, _).
          if fo_isfinite F (v_x value) then Some (v_x value) else None))
     else Option.bind (EvaluateCurveWorld F curve context) (\<lambda>point.
       let output = (if component = 0 then vec_x point
                     else if component = 1 then vec_y point else vec_z point)
       in if fo_isfinite F output then Some output else None))"

subsection \<open>The registries\<close>

record 'f CurveRecord =
  cr_id :: int
  cr_snapshot :: "'f CurveSnapshot"
  cr_expectedPointCount :: u32
  cr_pointBuilder :: "'f Vec3 list"

record 'f CurveRuntime =
  rt_nextProgramId :: int
  rt_nextCurveId :: int
  rt_programs :: "(int \<times> 'f Program) list"
  rt_curves :: "(int \<times> 'f CurveRecord) list"
  rt_lastCompileError :: string

definition runtime_init :: "'f CurveRuntime" where
  "runtime_init = \<lparr>rt_nextProgramId = 1, rt_nextCurveId = 1, rt_programs = [], rt_curves = [],
     rt_lastCompileError = []\<rparr>"

definition INT32_MAX :: int where "INT32_MAX = 2147483647"

text \<open>\<open>NextAvailableId\<close>: the loop with its remaining attempts; it returns the id, or 0, and the next id.\<close>

fun nextAvailableLoop :: "nat \<Rightarrow> int \<Rightarrow> (int \<times> 'a) list \<Rightarrow> int \<times> int" where
  "nextAvailableLoop 0 nextId records = (0, nextId)"
| "nextAvailableLoop (Suc n) nextId records =
    (let candidate = nextId;
         nextId = (if nextId = INT32_MAX then 1 else nextId + 1)
     in if candidate > 0 \<and> map_of records candidate = None then (candidate, nextId)
        else nextAvailableLoop n nextId records)"

definition NextAvailableId :: "int \<Rightarrow> nat \<Rightarrow> (int \<times> 'a) list \<Rightarrow> int \<times> int" where
  "NextAvailableId nextId currentSize records = nextAvailableLoop (currentSize + 1) nextId records"

text \<open>\<open>std::to_string\<close> of a byte offset.\<close>

fun decimalString :: "nat \<Rightarrow> string" where
  "decimalString n =
    (if n < 10 then [char_of (48 + n)] else decimalString (n div 10) @ [char_of (48 + n mod 10)])"

text \<open>Compilation returns on every input, so its result is never \<open>None\<close>.\<close>

definition compileProgram ::
  "('f, 'd) FloatOps \<Rightarrow> string \<Rightarrow> 'f CurveRuntime \<Rightarrow> int \<times> 'f CurveRuntime" where
  "compileProgram F expression rt =
    (case the (CompileExpression F expression) of
       Inl (message, offset) \<Rightarrow>
         (0, rt\<lparr>rt_lastCompileError := message @ '' at byte '' @ decimalString offset\<rparr>)
     | Inr program \<Rightarrow>
         if length (rt_programs rt) \<ge> kMaximumPrograms
         then (0, rt\<lparr>rt_lastCompileError := ''program registry reached the 256-program limit''\<rparr>)
         else
           case NextAvailableId (rt_nextProgramId rt) (length (rt_programs rt)) (rt_programs rt) of
             (i, nextId) \<Rightarrow>
               let rt = rt\<lparr>rt_nextProgramId := nextId\<rparr>
               in if i \<le> 0 \<or> map_of (rt_programs rt) i \<noteq> None
                  then (0, rt\<lparr>rt_lastCompileError := ''program id allocation failed''\<rparr>)
                  else (i, rt\<lparr>rt_programs := (i, program) # rt_programs rt,
                              rt_lastCompileError := []\<rparr>))"

definition destroyProgram :: "int \<Rightarrow> 'f CurveRuntime \<Rightarrow> bool \<times> 'f CurveRuntime" where
  "destroyProgram i rt =
    (map_of (rt_programs rt) i \<noteq> None, rt\<lparr>rt_programs := AList.delete i (rt_programs rt)\<rparr>)"

definition isProgramAlive :: "int \<Rightarrow> 'f CurveRuntime \<Rightarrow> bool" where
  "isProgramAlive i rt \<longleftrightarrow> map_of (rt_programs rt) i \<noteq> None"

text \<open>The common end of \<open>createCurve\<close> and \<open>createPointCurve\<close>: \<open>emplace\<close> the record under a new id.\<close>

definition insertCurve ::
  "(int \<Rightarrow> 'f CurveRecord) \<Rightarrow> 'f CurveRuntime \<Rightarrow> int \<times> 'f CurveRuntime" where
  "insertCurve mk rt =
    (case NextAvailableId (rt_nextCurveId rt) (length (rt_curves rt)) (rt_curves rt) of
       (i, nextId) \<Rightarrow>
         let rt = rt\<lparr>rt_nextCurveId := nextId\<rparr>
         in if i \<le> 0 then (0, rt)
            else if map_of (rt_curves rt) i \<noteq> None then (0, rt)
            else (i, rt\<lparr>rt_curves := (i, mk i) # rt_curves rt\<rparr>))"

definition createCurve ::
  "('f, 'd) FloatOps \<Rightarrow> int \<Rightarrow> 'f CurveRuntime \<Rightarrow> int \<times> 'f CurveRuntime" where
  "createCurve F programId rt =
    (case map_of (rt_programs rt) programId of
       None \<Rightarrow> (0, rt)
     | Some program \<Rightarrow>
         if length (rt_curves rt) \<ge> kMaximumCurves then (0, rt)
         else insertCurve
           (\<lambda>i. \<lparr>cr_id = i, cr_snapshot = (snapshot_init F)\<lparr>cs_program := Some program\<rparr>,
                 cr_expectedPointCount = 0, cr_pointBuilder = []\<rparr>) rt)"

definition createPointCurve ::
  "('f, 'd) FloatOps \<Rightarrow> u32 \<Rightarrow> 'f CurveRuntime \<Rightarrow> int \<times> 'f CurveRuntime" where
  "createPointCurve F expectedPointCount rt =
    (if expectedPointCount < kMinimumPointCurvePoints \<or> expectedPointCount > kMaximumPointCurvePoints
     then (0, rt)
     else if length (rt_curves rt) \<ge> kMaximumCurves then (0, rt)
     else insertCurve
       (\<lambda>i. \<lparr>cr_id = i, cr_snapshot = snapshot_init F, cr_expectedPointCount = expectedPointCount,
             cr_pointBuilder = []\<rparr>) rt)"

text \<open>Points are passed by pointer and count: a null pointer is \<open>None\<close>.\<close>

definition appendPointCurve ::
  "('f, 'd) FloatOps \<Rightarrow> int \<Rightarrow> 'f Vec3 list option \<Rightarrow> 'f CurveRuntime \<Rightarrow> bool \<times> 'f CurveRuntime" where
  "appendPointCurve F curveId points rt =
    (case points of
       None \<Rightarrow> (False, rt)
     | Some points \<Rightarrow>
         if length points = 0 \<or> length points > 4 then (False, rt)
         else if \<not> list_all (VecIsFinite F) points then (False, rt)
         else
           case map_of (rt_curves rt) curveId of
             None \<Rightarrow> (False, rt)
           | Some curve \<Rightarrow>
               if cr_expectedPointCount curve = 0 \<or> snapshot_valid (cr_snapshot curve) \<or>
                  length (cr_pointBuilder curve) + length points > unat (cr_expectedPointCount curve)
               then (False, rt)
               else (True, rt\<lparr>rt_curves := AList.update curveId
                 (curve\<lparr>cr_pointBuilder := cr_pointBuilder curve @ points\<rparr>) (rt_curves rt)\<rparr>))"

text \<open>The sums of the segment lengths: the running total and the lengths so far, or the failure.\<close>

fun accumulateLengths ::
  "('f, 'd) FloatOps \<Rightarrow> 'f Vec3 \<Rightarrow> 'f Vec3 list \<Rightarrow> 'd \<Rightarrow> ('d \<times> 'f list) option" where
  "accumulateLengths F previous [] acc = Some (acc, [])"
| "accumulateLengths F previous (p # ps) acc =
    (let acc = do_add F acc (fo_widen F (VecLength F (VecSubtract F p previous)))
     in if \<not> do_isfinite F acc \<or> do_less F (do_literal F floatMax) acc then None
        else Option.bind (accumulateLengths F p ps acc)
          (\<lambda>(final, lengths). Some (final, fo_narrow F acc # lengths)))"

definition buildPointCurve ::
  "('f, 'd) FloatOps \<Rightarrow> 'f Vec3 list \<Rightarrow> 'f PointCurveData option" where
  "buildPointCurve F points =
    (case points of
       [] \<Rightarrow> None
     | p # ps \<Rightarrow>
         (case accumulateLengths F p ps (do_literal F 0) of
            None \<Rightarrow> None
          | Some (acc, lengths) \<Rightarrow>
              if do_less_eq F acc (fo_widen F (fo_literal F curveEpsilon)) then None
              else Some \<lparr>pd_points = points, pd_cumulativeLengths = fo_literal F 0 # lengths,
                         pd_totalLength = fo_narrow F acc\<rparr>))"

definition finalizePointCurve ::
  "('f, 'd) FloatOps \<Rightarrow> int \<Rightarrow> 'f CurveRuntime \<Rightarrow> bool \<times> 'f CurveRuntime" where
  "finalizePointCurve F curveId rt =
    (case map_of (rt_curves rt) curveId of
       None \<Rightarrow> (False, rt)
     | Some curve \<Rightarrow>
         if cr_expectedPointCount curve = 0 \<or> snapshot_valid (cr_snapshot curve) \<or>
            length (cr_pointBuilder curve) \<noteq> unat (cr_expectedPointCount curve)
         then (False, rt)
         else
           case buildPointCurve F (cr_pointBuilder curve) of
             None \<Rightarrow> (False, rt)
           | Some data \<Rightarrow>
               (True, rt\<lparr>rt_curves := AList.update curveId
                 (curve\<lparr>cr_snapshot := (cr_snapshot curve)\<lparr>cs_pointCurve := Some data\<rparr>,
                        cr_pointBuilder := []\<rparr>) (rt_curves rt)\<rparr>))"

definition destroyCurve :: "int \<Rightarrow> 'f CurveRuntime \<Rightarrow> bool \<times> 'f CurveRuntime" where
  "destroyCurve i rt =
    (map_of (rt_curves rt) i \<noteq> None, rt\<lparr>rt_curves := AList.delete i (rt_curves rt)\<rparr>)"

definition isCurveAlive :: "int \<Rightarrow> 'f CurveRuntime \<Rightarrow> bool" where
  "isCurveAlive i rt \<longleftrightarrow> map_of (rt_curves rt) i \<noteq> None"

text \<open>Rewrite the snapshot of a curve.\<close>

definition updateSnapshot ::
  "int \<Rightarrow> 'f CurveRecord \<Rightarrow> 'f CurveSnapshot \<Rightarrow> 'f CurveRuntime \<Rightarrow> 'f CurveRuntime" where
  "updateSnapshot curveId curve c rt =
    rt\<lparr>rt_curves := AList.update curveId (curve\<lparr>cr_snapshot := c\<rparr>) (rt_curves rt)\<rparr>"

definition setCurveReal ::
  "('f, 'd) FloatOps \<Rightarrow> int \<Rightarrow> string \<Rightarrow> 'f \<Rightarrow> 'f CurveRuntime \<Rightarrow> bool \<times> 'f CurveRuntime" where
  "setCurveReal F curveId name value rt =
    (if \<not> fo_isfinite F value then (False, rt)
     else
       case map_of (rt_curves rt) curveId of
         None \<Rightarrow> (False, rt)
       | Some curve \<Rightarrow>
           (case cs_program (cr_snapshot curve) of
              None \<Rightarrow> (False, rt)
            | Some program \<Rightarrow>
                let parameter = findParameter program name; c = cr_snapshot curve
                in if parameter < 0 \<or> nat parameter \<ge> length (cs_parameters c) then (False, rt)
                   else (True, updateSnapshot curveId curve
                     (c\<lparr>cs_parameters := (cs_parameters c)[nat parameter := value]\<rparr>) rt)))"

definition setCurveCoordinateMode :: "int \<Rightarrow> int \<Rightarrow> 'f CurveRuntime \<Rightarrow> bool \<times> 'f CurveRuntime" where
  "setCurveCoordinateMode curveId mode rt =
    (if mode < 0 \<or> mode > 2 then (False, rt)
     else
       case map_of (rt_curves rt) curveId of
         None \<Rightarrow> (False, rt)
       | Some curve \<Rightarrow>
           (case cs_program (cr_snapshot curve) of
              None \<Rightarrow> (False, rt)
            | Some program \<Rightarrow>
                let coordinateMode = (if mode = 0 then OffsetMode else if mode = 1 then LocalMode
                                      else WorldMode);
                    resultType = pr_resultType program
                in if (coordinateMode = OffsetMode \<and> resultType \<noteq> Vector2) \<or>
                      (coordinateMode \<noteq> OffsetMode \<and> resultType \<noteq> Vector3)
                   then (False, rt)
                   else (True, updateSnapshot curveId curve
                     ((cr_snapshot curve)\<lparr>cs_coordinateMode := coordinateMode\<rparr>) rt)))"

definition setCurveEndpointLocks ::
  "int \<Rightarrow> bool \<Rightarrow> bool \<Rightarrow> 'f CurveRuntime \<Rightarrow> bool \<times> 'f CurveRuntime" where
  "setCurveEndpointLocks curveId lockStart lockEnd rt =
    (case map_of (rt_curves rt) curveId of
       None \<Rightarrow> (False, rt)
     | Some curve \<Rightarrow>
         if \<not> isFormula (cr_snapshot curve) then (False, rt)
         else (True, updateSnapshot curveId curve
           ((cr_snapshot curve)\<lparr>cs_lockStart := lockStart, cs_lockEnd := lockEnd\<rparr>) rt))"

definition snapshotCurve :: "int \<Rightarrow> 'f CurveRuntime \<Rightarrow> 'f CurveSnapshot option" where
  "snapshotCurve curveId rt =
    (case map_of (rt_curves rt) curveId of
       None \<Rightarrow> None
     | Some curve \<Rightarrow>
         if \<not> snapshot_valid (cr_snapshot curve) then None else Some (cr_snapshot curve))"

definition resetRuntime :: "'f CurveRuntime \<Rightarrow> 'f CurveRuntime" where
  "resetRuntime rt = runtime_init"

subsection \<open>Queries on a curve\<close>

definition evaluateComponent ::
  "('f, 'd) FloatOps \<Rightarrow> int \<Rightarrow> 'f CurveContext \<Rightarrow> int \<Rightarrow> 'f CurveRuntime \<Rightarrow> 'f option" where
  "evaluateComponent F curveId context component rt =
    Option.bind (snapshotCurve curveId rt)
      (\<lambda>curve. EvaluateSnapshotComponent F curve context component)"

definition evaluateDerivativeComponent ::
  "('f, 'd) FloatOps \<Rightarrow> int \<Rightarrow> 'f CurveContext \<Rightarrow> int \<Rightarrow> 'f CurveRuntime \<Rightarrow> 'f option" where
  "evaluateDerivativeComponent F curveId context component rt =
    Option.bind (snapshotCurve curveId rt) (\<lambda>curve.
      let lit = fo_literal F;
          segments = (if cc_segments context < 2 then 2 else min (cc_segments context) 256);
          step = std_clamp F (fo_div F (lit 1) (fo_mul F (fo_of_u32 F segments) (lit 4)))
                   (lit (1 / 10000)) (lit (1 / 100));
          beforeT = std_max F (lit 0) (fo_sub F (cc_t context) step);
          afterT = std_min F (lit 1) (fo_add F (cc_t context) step);
          span = fo_sub F afterT beforeT
      in if fo_less_eq F span (lit curveEpsilon) then None
         else do {
           first \<leftarrow> EvaluateSnapshotComponent F curve
             (context\<lparr>cc_t := beforeT, cc_index := fo_lround F (fo_mul F beforeT (fo_of_u32 F segments))\<rparr>)
             component;
           second \<leftarrow> EvaluateSnapshotComponent F curve
             (context\<lparr>cc_t := afterT, cc_index := fo_lround F (fo_mul F afterT (fo_of_u32 F segments))\<rparr>)
             component;
           let output = fo_div F (fo_sub F second first) span;
           if fo_isfinite F output then Some output else None
         })"

text \<open>The samples of a formula curve, from the point before the first of them.\<close>

fun arcLoop ::
  "('f, 'd) FloatOps \<Rightarrow> 'f CurveSnapshot \<Rightarrow> 'f CurveContext \<Rightarrow> u32 \<Rightarrow> u32 list \<Rightarrow> 'f Vec3 \<Rightarrow> 'd \<Rightarrow>
    'd option" where
  "arcLoop F curve context samples [] previous acc = Some acc"
| "arcLoop F curve context samples (i # is) previous acc =
    (case EvaluateCurveWorld F curve
            (context\<lparr>cc_index := i, cc_t := fo_div F (fo_of_u32 F i) (fo_of_u32 F samples)\<rparr>) of
       None \<Rightarrow> None
     | Some current \<Rightarrow>
         let acc = do_add F acc (fo_widen F (VecLength F (VecSubtract F current previous)))
         in if \<not> do_isfinite F acc \<or> do_less F (do_literal F floatMax) acc then None
            else arcLoop F curve context samples is current acc)"

definition evaluateArcLength ::
  "('f, 'd) FloatOps \<Rightarrow> int \<Rightarrow> 'f CurveContext \<Rightarrow> u32 \<Rightarrow> 'f CurveRuntime \<Rightarrow> 'f option" where
  "evaluateArcLength F curveId context samples rt =
    (if samples < 2 \<or> samples > 256 then None
     else Option.bind (snapshotCurve curveId rt) (\<lambda>curve.
       if \<not> renderable F curve then None
       else if isPointCurve curve then Some (pd_totalLength (the (cs_pointCurve curve)))
       else
         let context = context\<lparr>cc_segments := samples, cc_t := fo_literal F 0, cc_index := 0\<rparr>
         in do {
           previous \<leftarrow> EvaluateCurveWorld F curve context;
           acc \<leftarrow> arcLoop F curve context samples (map of_nat [1..<unat samples + 1]) previous
                     (do_literal F 0);
           let output = fo_narrow F acc;
           if fo_isfinite F output then Some output else None
         }))"

end
