(* ===== verification/CurveSafety.thy ===== *)
theory CurveSafety
  imports CurveRuntime
begin

section \<open>What the curve runtime guarantees\<close>

text \<open>
  The runtime as a machine whose steps are its operations: the invariant of its registries, the
  allocation of identifiers, the upload of point curves, and the evaluation of the snapshots it
  hands out.
\<close>

subsection \<open>Identifiers\<close>

lemma nextAvailable_positive:
  "nextAvailableLoop n i records = (c, j) \<Longrightarrow> c = 0 \<or> (c > 0 \<and> map_of records c = None)"
  by (induction n i records rule: nextAvailableLoop.induct) (auto simp: Let_def split: if_splits)

lemma nextAvailable_next:
  "nextAvailableLoop n i records = (c, j) \<Longrightarrow> 1 \<le> i \<Longrightarrow> i \<le> INT32_MAX \<Longrightarrow>
    1 \<le> j \<and> j \<le> INT32_MAX \<and> c \<le> INT32_MAX"
proof (induction n i records rule: nextAvailableLoop.induct)
  case (1 i records)
  then show ?case by (auto simp: INT32_MAX_def)
next
  case (2 n i records)
  then show ?case
    by (cases "i = INT32_MAX") (auto simp: Let_def INT32_MAX_def split: if_splits)
qed

text \<open>The candidate after a number of increments, cyclic in \<open>1 .. INT32_MAX\<close>.\<close>

definition candidateAt :: "int \<Rightarrow> nat \<Rightarrow> int" where
  "candidateAt i k = (i - 1 + int k) mod INT32_MAX + 1"

lemma candidate_Suc:
  assumes "1 \<le> i" and "i \<le> INT32_MAX"
  shows "candidateAt (if i = INT32_MAX then 1 else i + 1) k = candidateAt i (Suc k)"
proof (cases "i = INT32_MAX")
  case True
  have "(INT32_MAX - 1 + int (Suc k)) mod INT32_MAX = (int k + INT32_MAX) mod INT32_MAX"
    by (simp add: algebra_simps)
  then show ?thesis using True by (simp add: candidateAt_def)
qed (simp add: candidateAt_def algebra_simps)

lemma nextAvailable_fails:
  assumes "nextAvailableLoop n i records = (0, j)" and "1 \<le> i" and "i \<le> INT32_MAX" and "k < n"
  shows "map_of records (candidateAt i k) \<noteq> None"
  using assms
proof (induction n i records arbitrary: k rule: nextAvailableLoop.induct)
  case (2 n i records)
  let ?i = "if i = INT32_MAX then 1 else i + 1"
  have taken: "map_of records i \<noteq> None" "nextAvailableLoop n ?i records = (0, j)"
    using "2.prems" by (auto simp: Let_def split: if_splits)
  show ?case
  proof (cases k)
    case 0
    have "candidateAt i 0 = i" using "2.prems"(2,3) by (simp add: candidateAt_def)
    then show ?thesis using taken(1) 0 by simp
  next
    case (Suc m)
    have bounds: "1 \<le> ?i" "?i \<le> INT32_MAX" using "2.prems"(2,3) by (auto simp: INT32_MAX_def)
    have "\<not> (0 < i \<and> map_of records i = None)" using taken(1) by simp
    from "2.IH" [OF refl refl this taken(2) bounds, of m] show ?thesis
      using Suc "2.prems" candidate_Suc [OF "2.prems"(2,3), of m] by simp
  qed
qed simp

lemma candidates_distinct:
  assumes "j < n" and "k < n" and "int n \<le> INT32_MAX" and "candidateAt i j = candidateAt i k"
  shows "j = k"
proof -
  have "(i - 1 + int j) mod INT32_MAX = (i - 1 + int k) mod INT32_MAX"
    using assms(4) by (simp add: candidateAt_def)
  then have "INT32_MAX dvd (i - 1 + int j) - (i - 1 + int k)"
    by (simp add: mod_eq_dvd_iff)
  then have "INT32_MAX dvd int j - int k" by simp
  moreover have "\<bar>int j - int k\<bar> < INT32_MAX" using assms(1-3) by linarith
  ultimately show ?thesis using zdvd_not_zless [of "\<bar>int j - int k\<bar>" INT32_MAX] by fastforce
qed

lemma NextAvailableId_succeeds:
  assumes "1 \<le> i" and "i \<le> INT32_MAX" and "int (length records) < INT32_MAX"
    and r: "NextAvailableId i (length records) records = (c, j)"
  shows "1 \<le> c \<and> c \<le> INT32_MAX \<and> map_of records c = None \<and> 1 \<le> j \<and> j \<le> INT32_MAX"
proof -
  let ?n = "length records + 1"
  have "c \<noteq> 0"
  proof
    assume "c = 0"
    then have "map_of records (candidateAt i k) \<noteq> None" if "k < ?n" for k
      using nextAvailable_fails [of ?n i records j k] that assms by (simp add: NextAvailableId_def)
    then have "candidateAt i ` {..<?n} \<subseteq> fst ` set records"
      by (auto simp: map_of_eq_None_iff)
    then have "card (candidateAt i ` {..<?n}) \<le> card (fst ` set records)"
      by (rule card_mono [rotated]) simp
    also have "\<dots> \<le> length records"
      using card_length [of "map fst records"] by simp
    finally have "card (candidateAt i ` {..<?n}) \<le> length records" .
    moreover have "inj_on (candidateAt i) {..<?n}"
      by (rule inj_onI) (use assms(3) in \<open>auto intro: candidates_distinct [where n = ?n and i = i]\<close>)
    ultimately show False by (simp add: card_image)
  qed
  then show ?thesis
    using nextAvailable_positive [of ?n i records c j] nextAvailable_next [of ?n i records c j] assms
    by (auto simp: NextAvailableId_def)
qed

subsection \<open>The operations as steps\<close>

datatype 'f curveOp =
  CompileOp string
  | DestroyProgramOp int
  | CreateCurveOp int
  | CreatePointCurveOp u32
  | AppendOp int "'f Vec3 list option"
  | FinalizeOp int
  | DestroyCurveOp int
  | SetRealOp int string 'f
  | SetModeOp int int
  | SetLocksOp int bool bool
  | ResetOp

definition stepRuntime ::
  "('f, 'd) FloatOps \<Rightarrow> 'f curveOp \<Rightarrow> 'f CurveRuntime \<Rightarrow> 'f CurveRuntime" where
  "stepRuntime F opn rt =
    (case opn of
       CompileOp e \<Rightarrow> snd (compileProgram F e rt)
     | DestroyProgramOp i \<Rightarrow> snd (destroyProgram i rt)
     | CreateCurveOp i \<Rightarrow> snd (createCurve F i rt)
     | CreatePointCurveOp n \<Rightarrow> snd (createPointCurve F n rt)
     | AppendOp i ps \<Rightarrow> snd (appendPointCurve F i ps rt)
     | FinalizeOp i \<Rightarrow> snd (finalizePointCurve F i rt)
     | DestroyCurveOp i \<Rightarrow> snd (destroyCurve i rt)
     | SetRealOp i s v \<Rightarrow> snd (setCurveReal F i s v rt)
     | SetModeOp i m \<Rightarrow> snd (setCurveCoordinateMode i m rt)
     | SetLocksOp i a b \<Rightarrow> snd (setCurveEndpointLocks i a b rt)
     | ResetOp \<Rightarrow> resetRuntime rt)"

inductive reachable :: "('f, 'd) FloatOps \<Rightarrow> 'f CurveRuntime \<Rightarrow> bool" for F where
  reachable_init: "reachable F runtime_init"
| reachable_step: "reachable F rt \<Longrightarrow> reachable F (stepRuntime F opn rt)"

subsection \<open>The invariant\<close>

definition goodProgram :: "('f, 'd) FloatOps \<Rightarrow> 'f Program \<Rightarrow> bool" where
  "goodProgram F program \<longleftrightarrow> (\<exists>e. CompileExpression F e = Some (Inr program))"

definition formulaCurve :: "('f, 'd) FloatOps \<Rightarrow> 'f CurveRecord \<Rightarrow> bool" where
  "formulaCurve F c \<longleftrightarrow>
     (\<exists>program. cs_program (cr_snapshot c) = Some program \<and> goodProgram F program) \<and>
     cs_pointCurve (cr_snapshot c) = None \<and> cr_expectedPointCount c = 0 \<and> cr_pointBuilder c = []"

definition stagingCurve :: "('f, 'd) FloatOps \<Rightarrow> 'f CurveRecord \<Rightarrow> bool" where
  "stagingCurve F c \<longleftrightarrow>
     cs_program (cr_snapshot c) = None \<and> cs_pointCurve (cr_snapshot c) = None \<and>
     kMinimumPointCurvePoints \<le> cr_expectedPointCount c \<and>
     cr_expectedPointCount c \<le> kMaximumPointCurvePoints \<and>
     length (cr_pointBuilder c) \<le> unat (cr_expectedPointCount c) \<and>
     list_all (VecIsFinite F) (cr_pointBuilder c)"

definition publishedCurve :: "('f, 'd) FloatOps \<Rightarrow> 'f CurveRecord \<Rightarrow> bool" where
  "publishedCurve F c \<longleftrightarrow>
     cs_program (cr_snapshot c) = None \<and> cr_pointBuilder c = [] \<and>
     kMinimumPointCurvePoints \<le> cr_expectedPointCount c \<and>
     cr_expectedPointCount c \<le> kMaximumPointCurvePoints \<and>
     (\<exists>data. cs_pointCurve (cr_snapshot c) = Some data \<and>
        buildPointCurve F (pd_points data) = Some data \<and>
        length (pd_points data) = unat (cr_expectedPointCount c) \<and>
        list_all (VecIsFinite F) (pd_points data))"

definition goodCurve :: "('f, 'd) FloatOps \<Rightarrow> int \<Rightarrow> 'f CurveRecord \<Rightarrow> bool" where
  "goodCurve F i c \<longleftrightarrow>
     cr_id c = i \<and> length (cs_parameters (cr_snapshot c)) = kMaximumExpressionParameters \<and>
     (formulaCurve F c \<or> stagingCurve F c \<or> publishedCurve F c)"

definition registry :: "nat \<Rightarrow> (int \<Rightarrow> 'a \<Rightarrow> bool) \<Rightarrow> (int \<times> 'a) list \<Rightarrow> bool" where
  "registry limit P records \<longleftrightarrow>
     distinct (map fst records) \<and> length records \<le> limit \<and>
     (\<forall>(i, r) \<in> set records. 1 \<le> i \<and> i \<le> INT32_MAX \<and> P i r)"

definition well_formed :: "('f, 'd) FloatOps \<Rightarrow> 'f CurveRuntime \<Rightarrow> bool" where
  "well_formed F rt \<longleftrightarrow>
     1 \<le> rt_nextProgramId rt \<and> rt_nextProgramId rt \<le> INT32_MAX \<and>
     1 \<le> rt_nextCurveId rt \<and> rt_nextCurveId rt \<le> INT32_MAX \<and>
     registry kMaximumPrograms (\<lambda>i. goodProgram F) (rt_programs rt) \<and>
     registry kMaximumCurves (goodCurve F) (rt_curves rt)"

lemma registry_lookup: "registry n P records \<Longrightarrow> map_of records i = Some r \<Longrightarrow> 1 \<le> i \<and> P i r"
  unfolding registry_def by (fastforce dest: map_of_SomeD)

lemma registry_insert:
  "registry n P records \<Longrightarrow> map_of records i = None \<Longrightarrow> length records < n \<Longrightarrow> 1 \<le> i \<Longrightarrow>
    i \<le> INT32_MAX \<Longrightarrow> P i r \<Longrightarrow> registry n P ((i, r) # records)"
  by (auto simp: registry_def map_of_eq_None_iff)

lemma registry_delete: "registry n P records \<Longrightarrow> registry n P (AList.delete i records)"
proof -
  assume *: "registry n P records"
  have "set (AList.delete i records) \<subseteq> set records" "length (AList.delete i records) \<le> length records"
    by (auto simp: AList.delete_eq)
  then show ?thesis using * distinct_delete [of records i] unfolding registry_def by fastforce
qed

lemma registry_update:
  assumes r: "registry n P records" and old: "map_of records i = Some old" and new: "P i new"
  shows "registry n P (AList.update i new records)"
proof -
  have i: "i \<in> fst ` set records" using old by (force dest: map_of_SomeD)
  have "length (AList.update i new records) = length records"
    using i by (induction records) auto
  moreover have "distinct (map fst (AList.update i new records))"
    using r by (simp add: registry_def distinct_update)
  moreover have "1 \<le> j \<and> j \<le> INT32_MAX \<and> P j q" if "(j, q) \<in> set (AList.update i new records)" for j q
  proof -
    have "map_of (AList.update i new records) j = Some q"
      using map_of_is_SomeI [OF \<open>distinct (map fst (AList.update i new records))\<close> that] .
    then have "(if j = i then q = new else map_of records j = Some q)"
      by (auto simp: update_conv' split: if_splits)
    then show ?thesis
      using r old new unfolding registry_def by (cases "j = i") (fastforce dest: map_of_SomeD)+
  qed
  ultimately show ?thesis using r unfolding registry_def by auto
qed

lemma well_formed_curve:
  "well_formed F rt \<Longrightarrow> map_of (rt_curves rt) i = Some c \<Longrightarrow> goodCurve F i c"
  by (auto simp: well_formed_def dest: registry_lookup)

lemma well_formed_update:
  assumes "well_formed F rt" and "map_of (rt_curves rt) i = Some c" and "goodCurve F i c'"
  shows "well_formed F (rt\<lparr>rt_curves := AList.update i c' (rt_curves rt)\<rparr>)"
  using assms registry_update [of kMaximumCurves "goodCurve F" "rt_curves rt" i c c']
  by (simp add: well_formed_def)

lemma snapshot_kinds:
  "formulaCurve F c \<Longrightarrow> isFormula (cr_snapshot c)"
  "stagingCurve F c \<Longrightarrow> \<not> snapshot_valid (cr_snapshot c)"
  "publishedCurve F c \<Longrightarrow> isPointCurve (cr_snapshot c)"
  by (auto simp: formulaCurve_def stagingCurve_def publishedCurve_def isFormula_def snapshot_valid_def
      isPointCurve_def)

lemma expected_bounds [simp]:
  "\<not> kMinimumPointCurvePoints \<le> 0"
  by (simp add: kMinimumPointCurvePoints_def)

lemma inserted_well_formed:
  assumes wf: "well_formed F rt" and size: "length (rt_curves rt) < kMaximumCurves"
    and mk: "\<And>i. goodCurve F i (mk i)"
  shows "well_formed F (snd (insertCurve mk rt)) \<and> 1 \<le> fst (insertCurve mk rt) \<and>
    map_of (rt_curves rt) (fst (insertCurve mk rt)) = None \<and>
    map_of (rt_curves (snd (insertCurve mk rt))) (fst (insertCurve mk rt)) =
      Some (mk (fst (insertCurve mk rt)))"
proof -
  obtain i j where ij: "NextAvailableId (rt_nextCurveId rt) (length (rt_curves rt)) (rt_curves rt) = (i, j)"
    by (metis surj_pair)
  have "int (length (rt_curves rt)) < INT32_MAX" using size by (simp add: kMaximumCurves_def INT32_MAX_def)
  then have i: "1 \<le> i" "i \<le> INT32_MAX" "map_of (rt_curves rt) i = None" "1 \<le> j" "j \<le> INT32_MAX"
    using NextAvailableId_succeeds [OF _ _ _ ij] wf by (simp_all add: well_formed_def)
  then have eq: "insertCurve mk rt =
      (i, rt\<lparr>rt_nextCurveId := j, rt_curves := (i, mk i) # rt_curves rt\<rparr>)"
    by (simp add: insertCurve_def ij)
  show ?thesis
    using wf i registry_insert [of kMaximumCurves "goodCurve F" "rt_curves rt" i "mk i"] size mk
    unfolding eq by (simp add: well_formed_def)
qed

lemma compileProgram_well_formed:
  assumes wf: "well_formed F rt"
  shows "well_formed F (snd (compileProgram F e rt))"
proof -
  obtain r where r: "CompileExpression F e = Some r"
    using compile_returns by blast
  show ?thesis
  proof (cases r)
    case (Inl a)
    then show ?thesis using wf r by (cases a) (simp add: compileProgram_def well_formed_def)
  next
    case (Inr program)
    obtain i j where ij:
      "NextAvailableId (rt_nextProgramId rt) (length (rt_programs rt)) (rt_programs rt) = (i, j)"
      by (metis surj_pair)
    show ?thesis
    proof (cases "length (rt_programs rt) < kMaximumPrograms")
      case False
      then show ?thesis using wf r Inr by (simp add: compileProgram_def well_formed_def)
    next
      case True
      then have "int (length (rt_programs rt)) < INT32_MAX" by (simp add: kMaximumPrograms_def INT32_MAX_def)
      then have i: "1 \<le> i" "i \<le> INT32_MAX" "map_of (rt_programs rt) i = None" "1 \<le> j" "j \<le> INT32_MAX"
        using NextAvailableId_succeeds [OF _ _ _ ij] wf by (simp_all add: well_formed_def)
      have "goodProgram F program" using r Inr by (auto simp: goodProgram_def)
      then show ?thesis
        using wf i True r Inr
          registry_insert [of kMaximumPrograms "\<lambda>i. goodProgram F" "rt_programs rt" i program]
        by (simp add: compileProgram_def ij well_formed_def)
    qed
  qed
qed

lemma createCurve_good:
  assumes "goodProgram F program"
  shows "goodCurve F i \<lparr>cr_id = i, cr_snapshot = (snapshot_init F)\<lparr>cs_program := Some program\<rparr>,
    cr_expectedPointCount = 0, cr_pointBuilder = []\<rparr>"
  using assms by (simp add: goodCurve_def formulaCurve_def snapshot_init_def)

lemma createCurve_well_formed:
  assumes wf: "well_formed F rt"
  shows "well_formed F (snd (createCurve F i rt))"
proof (cases "map_of (rt_programs rt) i")
  case None
  then show ?thesis using wf by (simp add: createCurve_def)
next
  case (Some program)
  then have "goodProgram F program" using wf registry_lookup [of _ "\<lambda>i. goodProgram F"]
    by (auto simp: well_formed_def)
  then show ?thesis
    using wf Some inserted_well_formed [OF wf _ createCurve_good] by (simp add: createCurve_def)
qed

lemma createPointCurve_good:
  assumes "\<not> n < kMinimumPointCurvePoints" and "\<not> n > kMaximumPointCurvePoints"
  shows "goodCurve F i \<lparr>cr_id = i, cr_snapshot = snapshot_init F, cr_expectedPointCount = n,
    cr_pointBuilder = []\<rparr>"
  using assms by (simp add: goodCurve_def stagingCurve_def snapshot_init_def not_less)

lemma createPointCurve_well_formed:
  assumes wf: "well_formed F rt"
  shows "well_formed F (snd (createPointCurve F n rt))"
  using wf inserted_well_formed [OF wf _ createPointCurve_good] by (simp add: createPointCurve_def)

lemma staging_if_open:
  assumes "goodCurve F i c" and "\<not> snapshot_valid (cr_snapshot c)"
  shows "stagingCurve F c"
  using assms by (auto simp: goodCurve_def formulaCurve_def publishedCurve_def snapshot_valid_def)

lemma appendPointCurve_well_formed:
  assumes wf: "well_formed F rt"
  shows "well_formed F (snd (appendPointCurve F i ps rt))"
proof (cases "fst (appendPointCurve F i ps rt)")
  case False
  then show ?thesis using wf by (auto simp: appendPointCurve_def split: option.splits if_splits)
next
  case True
  then obtain points c where c: "ps = Some points" "map_of (rt_curves rt) i = Some c"
    "list_all (VecIsFinite F) points" "\<not> snapshot_valid (cr_snapshot c)"
    "length (cr_pointBuilder c) + length points \<le> unat (cr_expectedPointCount c)"
    "snd (appendPointCurve F i ps rt) = rt\<lparr>rt_curves := AList.update i
       (c\<lparr>cr_pointBuilder := cr_pointBuilder c @ points\<rparr>) (rt_curves rt)\<rparr>"
    by (auto simp: appendPointCurve_def split: option.splits if_splits)
  have good: "goodCurve F i c" using well_formed_curve [OF wf c(2)] .
  have "goodCurve F i (c\<lparr>cr_pointBuilder := cr_pointBuilder c @ points\<rparr>)"
    using good staging_if_open [OF good c(4)] c(3,5) by (auto simp: goodCurve_def stagingCurve_def)
  then show ?thesis using well_formed_update [OF wf c(2)] c(6) by simp
qed

lemma buildPointCurve_points: "buildPointCurve F ps = Some data \<Longrightarrow> pd_points data = ps"
  by (auto simp: buildPointCurve_def split: list.splits option.splits if_splits)

lemma finalizePointCurve_cases:
  assumes "fst (finalizePointCurve F i rt)"
  obtains c data where "map_of (rt_curves rt) i = Some c" "\<not> snapshot_valid (cr_snapshot c)"
    "length (cr_pointBuilder c) = unat (cr_expectedPointCount c)"
    "buildPointCurve F (cr_pointBuilder c) = Some data"
    "snd (finalizePointCurve F i rt) = rt\<lparr>rt_curves := AList.update i
       (c\<lparr>cr_snapshot := (cr_snapshot c)\<lparr>cs_pointCurve := Some data\<rparr>, cr_pointBuilder := []\<rparr>)
       (rt_curves rt)\<rparr>"
  using assms by (auto simp: finalizePointCurve_def split: option.splits if_splits)

lemma finalizePointCurve_well_formed:
  assumes wf: "well_formed F rt"
  shows "well_formed F (snd (finalizePointCurve F i rt))"
proof (cases "fst (finalizePointCurve F i rt)")
  case False
  then show ?thesis using wf by (auto simp: finalizePointCurve_def split: option.splits if_splits)
next
  case True
  then obtain c data where c: "map_of (rt_curves rt) i = Some c" "\<not> snapshot_valid (cr_snapshot c)"
    "length (cr_pointBuilder c) = unat (cr_expectedPointCount c)"
    "buildPointCurve F (cr_pointBuilder c) = Some data"
    "snd (finalizePointCurve F i rt) = rt\<lparr>rt_curves := AList.update i
       (c\<lparr>cr_snapshot := (cr_snapshot c)\<lparr>cs_pointCurve := Some data\<rparr>, cr_pointBuilder := []\<rparr>)
       (rt_curves rt)\<rparr>"
    by (rule finalizePointCurve_cases)
  have good: "goodCurve F i c" using well_formed_curve [OF wf c(1)] .
  have "goodCurve F i (c\<lparr>cr_snapshot := (cr_snapshot c)\<lparr>cs_pointCurve := Some data\<rparr>, cr_pointBuilder := []\<rparr>)"
    using good staging_if_open [OF good c(2)] c(3,4) buildPointCurve_points [OF c(4)]
    by (simp add: goodCurve_def stagingCurve_def publishedCurve_def)
  then show ?thesis using well_formed_update [OF wf c(1)] c(5) by simp
qed

text \<open>The setters rewrite only the parameters, the mode and the locks of a snapshot.\<close>

lemma updateSnapshot_well_formed:
  assumes wf: "well_formed F rt" and c: "map_of (rt_curves rt) i = Some c"
    and same: "cs_program s = cs_program (cr_snapshot c)" "cs_pointCurve s = cs_pointCurve (cr_snapshot c)"
      "length (cs_parameters s) = length (cs_parameters (cr_snapshot c))"
  shows "well_formed F (updateSnapshot i c s rt)"
proof -
  have "goodCurve F i (c\<lparr>cr_snapshot := s\<rparr>)"
    using well_formed_curve [OF wf c] same
    by (auto simp: goodCurve_def formulaCurve_def stagingCurve_def publishedCurve_def)
  then show ?thesis using well_formed_update [OF wf c] by (simp add: updateSnapshot_def)
qed

lemma setters_well_formed:
  assumes "well_formed F rt"
  shows "well_formed F (snd (setCurveReal F i s v rt))"
    and "well_formed F (snd (setCurveCoordinateMode i m rt))"
    and "well_formed F (snd (setCurveEndpointLocks i a b rt))"
  using assms
  by (auto simp: setCurveReal_def setCurveCoordinateMode_def setCurveEndpointLocks_def Let_def
      split: option.splits if_splits intro: updateSnapshot_well_formed)

lemma delete_well_formed:
  assumes "well_formed F rt"
  shows "well_formed F (snd (destroyProgram i rt))" and "well_formed F (snd (destroyCurve i rt))"
  using assms registry_delete by (auto simp: well_formed_def destroyProgram_def destroyCurve_def)

lemma init_well_formed: "well_formed F runtime_init"
  by (simp add: well_formed_def runtime_init_def registry_def INT32_MAX_def)

lemma stepRuntime_well_formed: "well_formed F rt \<Longrightarrow> well_formed F (stepRuntime F opn rt)"
  by (cases opn)
    (simp_all add: stepRuntime_def resetRuntime_def init_well_formed compileProgram_well_formed
      createCurve_well_formed createPointCurve_well_formed appendPointCurve_well_formed
      finalizePointCurve_well_formed setters_well_formed delete_well_formed)

lemma reachable_well_formed: "reachable F rt \<Longrightarrow> well_formed F rt"
  by (induction rule: reachable.induct) (simp_all add: init_well_formed stepRuntime_well_formed)

text \<open>
  Whatever sequence of operations has run, the registries hold at most 256 programs and 512
  curves under distinct positive identifiers, every program is the result of a compilation, and
  every curve is a formula, a polyline being uploaded that holds at most the announced number of
  finite points, or a published polyline with exactly the announced points and their lengths.
\<close>

theorem curve_registries_stay_well_formed:
  assumes "reachable F rt"
  shows "well_formed F rt"
  by (rule reachable_well_formed [OF assms])


subsection \<open>Uploading a polyline\<close>

fun runRuntime :: "('f, 'd) FloatOps \<Rightarrow> 'f curveOp list \<Rightarrow> 'f CurveRuntime \<Rightarrow> 'f CurveRuntime" where
  "runRuntime F [] rt = rt"
| "runRuntime F (opn # ops) rt = runRuntime F ops (stepRuntime F opn rt)"

text \<open>The points an operation uploads to a curve, and those of a run in order.\<close>

definition uploadedBy ::
  "('f, 'd) FloatOps \<Rightarrow> int \<Rightarrow> 'f curveOp \<Rightarrow> 'f CurveRuntime \<Rightarrow> 'f Vec3 list" where
  "uploadedBy F i opn rt =
    (case opn of
       AppendOp j (Some points) \<Rightarrow>
         if j = i \<and> fst (appendPointCurve F j (Some points) rt) then points else []
     | _ \<Rightarrow> [])"

fun uploaded :: "('f, 'd) FloatOps \<Rightarrow> int \<Rightarrow> 'f curveOp list \<Rightarrow> 'f CurveRuntime \<Rightarrow> 'f Vec3 list" where
  "uploaded F i [] rt = []"
| "uploaded F i (opn # ops) rt = uploadedBy F i opn rt @ uploaded F i ops (stepRuntime F opn rt)"

definition keeps :: "int \<Rightarrow> 'f curveOp \<Rightarrow> bool" where
  "keeps i opn \<longleftrightarrow> opn \<noteq> DestroyCurveOp i \<and> opn \<noteq> ResetOp"

definition tracked :: "int \<Rightarrow> u32 \<Rightarrow> 'f Vec3 list \<Rightarrow> 'f CurveRuntime \<Rightarrow> bool" where
  "tracked i n points rt \<longleftrightarrow>
     (\<exists>c. map_of (rt_curves rt) i = Some c \<and> cr_expectedPointCount c = n \<and>
        cs_program (cr_snapshot c) = None \<and>
        (case cs_pointCurve (cr_snapshot c) of
           None \<Rightarrow> cr_pointBuilder c = points
         | Some data \<Rightarrow> pd_points data = points \<and> length points = unat n))"

lemma tracked_same:
  "tracked i n points rt \<Longrightarrow> map_of (rt_curves rt') i = map_of (rt_curves rt) i \<Longrightarrow> tracked i n points rt'"
  by (simp add: tracked_def)

lemma insertCurve_same:
  "map_of (rt_curves rt) i \<noteq> None \<Longrightarrow> map_of (rt_curves (snd (insertCurve mk rt))) i = map_of (rt_curves rt) i"
  by (auto simp: insertCurve_def Let_def split: prod.splits)

lemma tracked_append:
  assumes "tracked i n points rt"
  shows "tracked i n (points @ uploadedBy F i (AppendOp j ps) rt) (snd (appendPointCurve F j ps rt))"
proof (cases "fst (appendPointCurve F j ps rt)")
  case False
  then show ?thesis
    using assms by (auto simp: appendPointCurve_def uploadedBy_def split: option.splits if_splits)
next
  case True
  then obtain q c where c: "ps = Some q" "map_of (rt_curves rt) j = Some c" "\<not> snapshot_valid (cr_snapshot c)"
    "snd (appendPointCurve F j ps rt) = rt\<lparr>rt_curves := AList.update j
       (c\<lparr>cr_pointBuilder := cr_pointBuilder c @ q\<rparr>) (rt_curves rt)\<rparr>"
    by (auto simp: appendPointCurve_def split: option.splits if_splits)
  show ?thesis
  proof (cases "j = i")
    case True
    then show ?thesis
      using assms c \<open>fst _\<close> by (auto simp: tracked_def uploadedBy_def update_conv' snapshot_valid_def)
  next
    case False
    then show ?thesis using assms c by (simp add: tracked_def uploadedBy_def update_conv')
  qed
qed

lemma tracked_finalize:
  assumes "tracked i n points rt"
  shows "tracked i n points (snd (finalizePointCurve F j rt))"
proof (cases "fst (finalizePointCurve F j rt)")
  case False
  then show ?thesis using assms by (auto simp: finalizePointCurve_def split: option.splits if_splits)
next
  case True
  then show ?thesis
  proof (rule finalizePointCurve_cases)
    fix c data
    assume c: "map_of (rt_curves rt) j = Some c" "\<not> snapshot_valid (cr_snapshot c)"
      "length (cr_pointBuilder c) = unat (cr_expectedPointCount c)"
      "buildPointCurve F (cr_pointBuilder c) = Some data"
      "snd (finalizePointCurve F j rt) = rt\<lparr>rt_curves := AList.update j
         (c\<lparr>cr_snapshot := (cr_snapshot c)\<lparr>cs_pointCurve := Some data\<rparr>, cr_pointBuilder := []\<rparr>)
         (rt_curves rt)\<rparr>"
    then show ?thesis
      using assms buildPointCurve_points [OF c(4)]
      by (cases "j = i") (auto simp: tracked_def update_conv' snapshot_valid_def)
  qed
qed

lemma setter_same:
  assumes "tracked i n points rt"
  shows "map_of (rt_curves (snd (setCurveReal F j s v rt))) i = map_of (rt_curves rt) i"
    and "map_of (rt_curves (snd (setCurveCoordinateMode j m rt))) i = map_of (rt_curves rt) i"
    and "map_of (rt_curves (snd (setCurveEndpointLocks j a b rt))) i = map_of (rt_curves rt) i"
proof -
  obtain c where c: "map_of (rt_curves rt) i = Some c" "cs_program (cr_snapshot c) = None"
    using assms by (auto simp: tracked_def)
  note defs = setCurveReal_def setCurveCoordinateMode_def setCurveEndpointLocks_def updateSnapshot_def
    update_conv' isFormula_def Let_def
  show "map_of (rt_curves (snd (setCurveReal F j s v rt))) i = map_of (rt_curves rt) i"
    by (cases "j = i") (simp_all add: c defs split: option.split)
  show "map_of (rt_curves (snd (setCurveCoordinateMode j m rt))) i = map_of (rt_curves rt) i"
    by (cases "j = i") (simp_all add: c defs split: option.split)
  show "map_of (rt_curves (snd (setCurveEndpointLocks j a b rt))) i = map_of (rt_curves rt) i"
    by (cases "j = i") (simp_all add: c defs split: option.split)
qed

lemma compile_same: "rt_curves (snd (compileProgram F e rt)) = rt_curves rt"
  by (auto simp: compileProgram_def Let_def split: sum.splits prod.splits)

lemma create_same:
  assumes "tracked i n points rt"
  shows "map_of (rt_curves (snd (createCurve F j rt))) i = map_of (rt_curves rt) i"
    and "map_of (rt_curves (snd (createPointCurve F m rt))) i = map_of (rt_curves rt) i"
  using assms insertCurve_same [of rt i]
  by (auto simp: createCurve_def createPointCurve_def tracked_def split: option.splits)

lemma tracked_step:
  assumes "tracked i n points rt" and "keeps i opn"
  shows "tracked i n (points @ uploadedBy F i opn rt) (stepRuntime F opn rt)"
proof (cases opn)
  case (AppendOp j ps)
  then show ?thesis using tracked_append [OF assms(1)] by (simp add: stepRuntime_def)
next
  case (FinalizeOp j)
  then show ?thesis using tracked_finalize [OF assms(1)] by (simp add: stepRuntime_def uploadedBy_def)
next
  case (DestroyCurveOp j)
  then have "j \<noteq> i" using assms(2) by (auto simp: keeps_def)
  then have "map_of (rt_curves (stepRuntime F opn rt)) i = map_of (rt_curves rt) i"
    unfolding DestroyCurveOp by (simp add: stepRuntime_def destroyCurve_def delete_conv')
  then show ?thesis unfolding DestroyCurveOp by (simp add: uploadedBy_def tracked_same [OF assms(1)])
next
  case ResetOp
  then show ?thesis using assms(2) by (simp add: keeps_def)
qed (simp_all add: stepRuntime_def uploadedBy_def destroyProgram_def tracked_same [OF assms(1)]
      compile_same setter_same [OF assms(1)] create_same [OF assms(1)])

lemma tracked_run:
  "tracked i n points rt \<Longrightarrow> list_all (keeps i) ops \<Longrightarrow>
    tracked i n (points @ uploaded F i ops rt) (runRuntime F ops rt)"
proof (induction ops arbitrary: points rt)
  case (Cons opn ops)
  have "tracked i n (points @ uploadedBy F i opn rt) (stepRuntime F opn rt)"
    using Cons.prems by (simp add: tracked_step)
  from Cons.IH [OF this] show ?case using Cons.prems(2) by simp
qed simp

text \<open>
  C26. A point curve is published whole or not at all: after its creation, whatever operations
  run that do not destroy it, its snapshot is either refused or is a polyline of exactly the
  announced number of points, namely the points of its accepted uploads in order.
\<close>

theorem published_points_are_the_uploaded_ones:
  assumes wf: "reachable F rt" and new: "createPointCurve F n rt = (i, rt1)" "i \<noteq> 0"
    and ops: "list_all (keeps i) ops"
    and c: "snapshotCurve i (runRuntime F ops rt1) = Some c"
  shows "cs_program c = None \<and>
    (\<exists>data. cs_pointCurve c = Some data \<and> pd_points data = uploaded F i ops rt1 \<and>
       length (pd_points data) = unat n)"
proof -
  let ?mk = "\<lambda>i. \<lparr>cr_id = i, cr_snapshot = snapshot_init F, cr_expectedPointCount = n, cr_pointBuilder = []\<rparr>"
  have b: "\<not> n < kMinimumPointCurvePoints" "\<not> n > kMaximumPointCurvePoints"
    and size: "length (rt_curves rt) < kMaximumCurves" and eq: "insertCurve ?mk rt = (i, rt1)"
    using new by (auto simp: createPointCurve_def split: if_splits)
  have "map_of (rt_curves rt1) i = Some (?mk i)"
    using inserted_well_formed [OF reachable_well_formed [OF wf] size createPointCurve_good [OF b]]
    unfolding eq by simp
  then have "tracked i n [] rt1" by (simp add: tracked_def snapshot_init_def)
  from tracked_run [OF this ops, of F] show ?thesis
    using c by (auto simp: tracked_def snapshotCurve_def snapshot_valid_def split: option.splits if_splits)
qed

subsection \<open>Points of a polyline\<close>

text \<open>The binary search of \<open>std::lower_bound\<close> on any list, sorted or not, ends at a change of sign.\<close>

lemma lowerBound_bracket:
  "lowerBound below xs begin n = u \<Longrightarrow> begin + n \<le> length xs \<Longrightarrow>
    begin = 0 \<or> below (xs ! (begin - 1)) \<Longrightarrow> begin + n = length xs \<or> \<not> below (xs ! (begin + n)) \<Longrightarrow>
    u \<le> length xs \<and> (u = 0 \<or> below (xs ! (u - 1))) \<and> (u = length xs \<or> \<not> below (xs ! u))"
proof (induction below xs "begin" n rule: lowerBound.induct)
  case (1 below xs "begin")
  then show ?case by simp
next
  case (2 below xs "begin" n)
  let ?half = "Suc n div 2"
  show ?case
  proof (cases "below (xs ! (begin + ?half))")
    case True
    then have "lowerBound below xs (begin + ?half + 1) (Suc n - ?half - 1) = u"
      using "2.prems"(1) by (simp add: Let_def)
    moreover have "begin + ?half + 1 + (Suc n - ?half - 1) = begin + Suc n" by linarith
    ultimately show ?thesis using "2.IH"(1) [OF refl refl True] "2.prems" True by simp
  next
    case False
    then have "lowerBound below xs begin ?half = u"
      using "2.prems"(1) by (simp add: Let_def)
    moreover have "begin + ?half \<le> length xs" using "2.prems"(2) by linarith
    ultimately show ?thesis using "2.IH"(2) [OF refl refl False] "2.prems"(3) False by simp
  qed
qed

lemma lowerBound_whole:
  "let u = lowerBound below xs 0 (length xs)
   in u \<le> length xs \<and> (u = 0 \<or> below (xs ! (u - 1))) \<and> (u = length xs \<or> \<not> below (xs ! u))"
  using lowerBound_bracket [OF refl, of 0 "length xs" xs below] by simp

lemma accumulateLengths_length:
  "accumulateLengths F q ps acc = Some (final, lengths) \<Longrightarrow> length lengths = length ps"
  by (induction ps arbitrary: q acc final lengths)
    (auto simp: Let_def bind_eq_Some_conv split: if_splits)

lemma buildPointCurve_lengths:
  "buildPointCurve F ps = Some data \<Longrightarrow>
    length (pd_cumulativeLengths data) = length (pd_points data) \<and>
    pd_cumulativeLengths data ! 0 = fo_literal F 0"
  by (auto simp: buildPointCurve_def accumulateLengths_length split: list.splits option.splits if_splits)

lemma published_polyline:
  assumes "reachable F rt" "snapshotCurve i rt = Some c" "cs_pointCurve c = Some data"
  shows "cs_program c = None" "length (pd_cumulativeLengths data) = length (pd_points data)"
    "2 \<le> length (pd_points data)"
proof -
  obtain r where r: "map_of (rt_curves rt) i = Some r" and c: "c = cr_snapshot r"
    using assms(2) by (auto simp: snapshotCurve_def split: option.splits if_splits)
  have "goodCurve F i r" using well_formed_curve [OF reachable_well_formed [OF assms(1)] r] by simp
  then have p: "publishedCurve F r"
    using assms(3) c by (auto simp: goodCurve_def formulaCurve_def stagingCurve_def)
  then show "cs_program c = None" by (simp add: publishedCurve_def c)
  from p assms(3) have b: "buildPointCurve F (pd_points data) = Some data"
    and n: "length (pd_points data) = unat (cr_expectedPointCount r)"
    by (auto simp: publishedCurve_def c)
  show "length (pd_cumulativeLengths data) = length (pd_points data)"
    using buildPointCurve_lengths [OF b] by simp
  have "kMinimumPointCurvePoints \<le> cr_expectedPointCount r" using p by (simp add: publishedCurve_def)
  then show "2 \<le> length (pd_points data)"
    unfolding n by (simp add: kMinimumPointCurvePoints_def word_le_nat_alt)
qed

text \<open>
  A point of a published polyline lies on the segment that holds its arc length: its indices
  are in range, the segment starts strictly below the target length and does not end below it, and
  the point is the interpolation of the two uploaded points; outside, it is an end point.
\<close>

theorem polyline_point_is_on_its_segment:
  assumes "reachable F rt" and "snapshotCurve i rt = Some c" and "cs_pointCurve c = Some data"
    and "EvaluateCurveWorld F c context = Some p"
  defines "target \<equiv> fo_mul F (std_clamp F (cc_t context) (fo_literal F 0) (fo_literal F 1)) (pd_totalLength data)"
    and "points \<equiv> pd_points data" and "lengths \<equiv> pd_cumulativeLengths data"
  shows "(p = points ! 0 \<and> \<not> fo_less F (lengths ! 0) target) \<or>
    (p = List.last points \<and> fo_less F (List.last lengths) target) \<or>
    (\<exists>k u. k + 1 < length points \<and> fo_less F (lengths ! k) target \<and>
       \<not> fo_less F (lengths ! (k + 1)) target \<and> p = VecLerp F (points ! k) (points ! (k + 1)) u \<and>
       VecIsFinite F p)"
proof -
  note published = published_polyline [OF assms(1-3)]
  have eval: "evaluatePolyline F data (cc_t context) = Some p"
    using assms(3,4) published(1)
    by (auto simp: EvaluateCurveWorld_def isPointCurve_def split: if_splits)
  define u where "u = lowerBound (\<lambda>l. fo_less F l target) lengths 0 (length lengths)"
  have n: "length lengths = length points" and pos: "points \<noteq> []"
    using published(2,3) by (auto simp: lengths_def points_def)
  have u: "u \<le> length lengths" "u = 0 \<or> fo_less F (lengths ! (u - 1)) target"
    "u = length lengths \<or> \<not> fo_less F (lengths ! u) target"
    using lowerBound_whole [of "\<lambda>l. fo_less F l target" lengths] by (simp_all add: u_def Let_def)
  consider (start) "u = 0" | (stop) "u = length lengths" "u \<noteq> 0"
    | (inside) "u \<noteq> 0" "u \<noteq> length lengths" by blast
  then show ?thesis
  proof cases
    case start
    then have "p = hd points"
      using eval by (simp add: evaluatePolyline_def Let_def flip: target_def lengths_def points_def u_def)
    then show ?thesis using start u(3) n pos by (simp add: hd_conv_nth)
  next
    case stop
    then have "p = List.last points"
      using eval by (simp add: evaluatePolyline_def Let_def flip: target_def lengths_def points_def u_def)
    moreover have "fo_less F (List.last lengths) target"
      using stop u(2) n pos by (metis last_conv_nth length_0_conv)
    ultimately show ?thesis by simp
  next
    case inside
    then obtain v where "p = VecLerp F (points ! (u - 1)) (points ! u) v" "VecIsFinite F p"
      using eval
      by (auto simp: evaluatePolyline_def Let_def simp flip: target_def lengths_def points_def u_def
          split: if_splits)
    moreover have "u - 1 + 1 = u" "u < length points" using inside u(1) n by simp_all
    ultimately show ?thesis using inside u(2,3) by (metis (no_types))
  qed
qed

subsection \<open>A sample run\<close>

definition ex_vec :: "rat \<Rightarrow> rat Vec3" where
  "ex_vec x = \<lparr>vec_x = x, vec_y = 0, vec_z = 0\<rparr>"

definition ex_ops :: "rat curveOp list" where
  "ex_ops = [AppendOp 1 (Some [ex_vec 1]), FinalizeOp 1, AppendOp 1 (Some [ex_vec 2]),
     AppendOp 1 (Some [ex_vec 4]), FinalizeOp 1]"

definition ex_created :: "rat CurveRuntime" where
  "ex_created = stepRuntime exactOps (CreatePointCurveOp 2) runtime_init"

definition ex_published :: "rat CurveRuntime" where
  "ex_published = runRuntime exactOps ex_ops ex_created"

lemma reachable_run: "reachable F rt \<Longrightarrow> reachable F (runRuntime F ops rt)"
  by (induction ops arbitrary: rt) (simp_all add: reachable_step)

lemma ex_created_reachable: "reachable exactOps ex_created"
  by (simp add: ex_created_def reachable_init reachable_step)

lemma ex_published_reachable: "reachable exactOps ex_published"
  by (simp add: ex_published_def reachable_run ex_created_reachable)


definition ex_data :: "rat PointCurveData" where
  "ex_data = \<lparr>pd_points = [ex_vec 1, ex_vec 2], pd_cumulativeLengths = [0, 1], pd_totalLength = 1\<rparr>"

definition ex_curve :: "rat CurveSnapshot" where
  "ex_curve = (snapshot_init exactOps)\<lparr>cs_pointCurve := Some ex_data\<rparr>"

definition ex_curve_context :: "rat CurveContext" where
  "ex_curve_context = \<lparr>cc_start = ex_vec 0, cc_end = ex_vec 0, cc_t = 1 / 2, cc_time = 0, cc_seed = 0,
     cc_index = 0, cc_segments = 1, cc_branchIndex = 0, cc_branchDepth = 0\<rparr>"

lemma ex_snapshot: "snapshotCurve 1 ex_published = Some ex_curve"
  by code_simp

lemma curve_registries_stay_well_formed_witness:
  "well_formed exactOps ex_published \<and> snapshotCurve 1 ex_published = Some ex_curve"
  by (simp add: ex_snapshot curve_registries_stay_well_formed [OF ex_published_reachable])


lemma published_points_are_the_uploaded_ones_witness:
  "cs_program ex_curve = None \<and>
   (\<exists>data. cs_pointCurve ex_curve = Some data \<and> pd_points data = uploaded exactOps 1 ex_ops ex_created \<and>
      length (pd_points data) = unat (2 :: u32))"
proof (rule published_points_are_the_uploaded_ones [OF reachable_init])
  show "createPointCurve exactOps 2 runtime_init = (1, ex_created)" by code_simp
  show "(1 :: int) \<noteq> 0" by simp
  show "list_all (keeps 1) ex_ops" by code_simp
  show "snapshotCurve 1 (runRuntime exactOps ex_ops ex_created) = Some ex_curve"
    using ex_snapshot by (simp add: ex_published_def)
qed

lemma polyline_point_is_on_its_segment_witness:
  "EvaluateCurveWorld exactOps ex_curve ex_curve_context = Some (ex_vec (3 / 2)) \<and>
   (ex_vec (3 / 2) = ex_vec 1 \<or> ex_vec (3 / 2) = ex_vec 2 \<or>
    (\<exists>k u. k + 1 < length (pd_points ex_data) \<and>
       ex_vec (3 / 2) = VecLerp exactOps (pd_points ex_data ! k) (pd_points ex_data ! (k + 1)) u))"
proof -
  have eval: "EvaluateCurveWorld exactOps ex_curve ex_curve_context = Some (ex_vec (3 / 2))"
    by code_simp
  have data: "cs_pointCurve ex_curve = Some ex_data" by (simp add: ex_curve_def)
  have ends: "pd_points ex_data ! 0 = ex_vec 1" "List.last (pd_points ex_data) = ex_vec 2"
    by (simp_all add: ex_data_def)
  from polyline_point_is_on_its_segment [OF ex_published_reachable ex_snapshot data eval]
  show ?thesis unfolding ends using eval by blast
qed

end
