(* ===== verification/SkinProofs.thy ===== *)
theory SkinProofs
  imports War3Prelude
begin

section \<open>CPU skinning controller: the proofs\<close>

text \<open>
  The value types of \<open>src/src/d3d9/war3/gpu_skin/war3_cpu_skin_mt_controller_contract.h\<close> and the
  predicates over them in \<open>war3_cpu_skin_mt_controller_contract.cpp\<close>, lines 26 to 750. The prefix
  \<open>CpuSkinMtController\<close> of the source is dropped. Each \<open>operator==\<close> compares every field, so it is
  the equality of the record. A pointer is its 32-bit address.
\<close>

subsection \<open>Constants\<close>

definition kFormat2SkinMode :: u32 where "kFormat2SkinMode = 1"
definition kFormat2OutputFormat :: u32 where "kFormat2OutputFormat = 2"
definition kFormat2Fvf :: u32 where "kFormat2Fvf = 0x112"
definition kFormat2OutputStride :: u32 where "kFormat2OutputStride = 32"
definition kFormat2MinVertices :: u32 where "kFormat2MinVertices = 193"
definition kFormat2MaxVertices :: u32 where "kFormat2MaxVertices = 448"
definition kFormat2MaxPaletteGroups :: u32 where "kFormat2MaxPaletteGroups = 64"
definition kPaletteMatrixBytes :: u32 where "kPaletteMatrixBytes = 48"
definition kMxcsrStatusMask :: u32 where "kMxcsrStatusMask = 0x003f"
definition kMxcsrControlMask :: u32 where "kMxcsrControlMask = 0xffc0"
definition kMxcsrExceptionMask :: u32 where "kMxcsrExceptionMask = 0x1f80"
definition kProducerResultProofVersion :: u32 where "kProducerResultProofVersion = 2"
definition kRenderCommitEnvelopeVersion :: u32 where "kRenderCommitEnvelopeVersion = 1"

lemmas format2_limits =
  kFormat2SkinMode_def kFormat2OutputFormat_def kFormat2Fvf_def kFormat2OutputStride_def
  kFormat2MinVertices_def kFormat2MaxVertices_def kFormat2MaxPaletteGroups_def kPaletteMatrixBytes_def

subsection \<open>The records\<close>

datatype ControllerPath = UnknownPath | CommonPath | SpecialPath

record OwnerSessionProof =
  os_controllerInstanceGeneration :: u64
  os_producerGeneration :: u64
  os_mapEpoch :: u64
  os_deviceEpoch :: u64
  os_bridgeResetGeneration :: u64
  os_renderThreadId :: u32

record FlushBindingProof =
  fb_frameTag :: u64
  fb_flushEpoch :: u64
  fb_batchId :: u64
  fb_renderablePart :: u32
  fb_geosetData :: u32
  fb_candidateToken :: u32
  fb_flushCandidateOrdinal :: u32
  fb_layerIndex :: u32
  fb_path :: ControllerPath
  fb_opaque :: bool

record ImmutableSourceProof =
  is_snapshotIdentity :: u32
  is_contentHash :: u64
  is_sealedContentToken :: u64
  is_sourceGeneration :: u64
  is_layoutGeneration :: u32
  is_vertexCount :: u32
  is_matrixGroupCount :: u32
  is_uvLayerCount :: u32
  is_maxGroupSlot :: u32
  is_positions :: u32
  is_normals :: u32
  is_groupSlots :: u32
  is_uv0 :: u32
  is_extra :: u32
  is_uv1 :: u32
  is_positionStride :: u32
  is_normalStride :: u32
  is_groupSlotStride :: u32
  is_uv0Stride :: u32
  is_extraStride :: u32
  is_uv1Stride :: u32
  is_positionByteCount :: u32
  is_normalByteCount :: u32
  is_groupSlotByteCount :: u32
  is_uv0ByteCount :: u32

record PaletteProof =
  pp_palettePointer :: u32
  pp_immutableBlobIdentity :: u32
  pp_paletteGeneration :: u64
  pp_paletteWriteSerial :: u64
  pp_paletteFrameTag :: u64
  pp_contentHash :: u64
  pp_sealedContentToken :: u64
  pp_groupCount :: u32
  pp_byteCount :: u32
  pp_floatingPointControl :: u32

record FrozenKey =
  fk_owner :: OwnerSessionProof
  fk_flush :: FlushBindingProof
  fk_source :: ImmutableSourceProof
  fk_palette :: PaletteProof

record OuterBindingProof =
  ob_controllerInstanceGeneration :: u64
  ob_producerGeneration :: u64
  ob_mapEpoch :: u64
  ob_deviceEpoch :: u64
  ob_bridgeResetGeneration :: u64
  ob_frameTag :: u64
  ob_flushEpoch :: u64
  ob_batchId :: u64
  ob_sourceGeneration :: u64
  ob_paletteGeneration :: u64
  ob_sourceSealedContentToken :: u64
  ob_paletteSealedContentToken :: u64
  ob_dispatchEpoch :: u64
  ob_uploadEpoch :: u64
  ob_gxDeviceD3d :: u32
  ob_renderablePart :: u32
  ob_geosetData :: u32
  ob_positions :: u32
  ob_normals :: u32
  ob_groupSlots :: u32
  ob_uv0 :: u32
  ob_extra :: u32
  ob_uv1 :: u32
  ob_palettePointer :: u32
  ob_uploadOrdinal :: u32
  ob_candidateToken :: u32
  ob_flushCandidateOrdinal :: u32
  ob_layerIndex :: u32
  ob_vertexCount :: u32
  ob_positionStride :: u32
  ob_normalStride :: u32
  ob_groupSlotStride :: u32
  ob_uv0Stride :: u32
  ob_extraStride :: u32
  ob_uv1Stride :: u32
  ob_paletteGroupCount :: u32
  ob_skinMode :: u32
  ob_outputFormat :: u32
  ob_fvf :: u32
  ob_outputStride :: u32

definition outer_init :: OuterBindingProof where
  "outer_init = \<lparr>ob_controllerInstanceGeneration = 0, ob_producerGeneration = 0, ob_mapEpoch = 0,
     ob_deviceEpoch = 0, ob_bridgeResetGeneration = 0, ob_frameTag = 0, ob_flushEpoch = 0,
     ob_batchId = 0, ob_sourceGeneration = 0, ob_paletteGeneration = 0,
     ob_sourceSealedContentToken = 0, ob_paletteSealedContentToken = 0, ob_dispatchEpoch = 0,
     ob_uploadEpoch = 0, ob_gxDeviceD3d = 0, ob_renderablePart = 0, ob_geosetData = 0,
     ob_positions = 0, ob_normals = 0, ob_groupSlots = 0, ob_uv0 = 0, ob_extra = 0, ob_uv1 = 0,
     ob_palettePointer = 0, ob_uploadOrdinal = 0, ob_candidateToken = 0,
     ob_flushCandidateOrdinal = 0, ob_layerIndex = 0, ob_vertexCount = 0, ob_positionStride = 0,
     ob_normalStride = 0, ob_groupSlotStride = 0, ob_uv0Stride = 0, ob_extraStride = 0,
     ob_uv1Stride = 0, ob_paletteGroupCount = 0, ob_skinMode = 0, ob_outputFormat = 0,
     ob_fvf = 0, ob_outputStride = 0\<rparr>"

record DestinationProof =
  dp_commonResource :: u32
  dp_comVertexBuffer :: u32
  dp_nativeD3DDevice :: u32
  dp_mappedAllocation :: u32
  dp_mappedAllocationBase :: u32
  dp_mappedPointer :: u32
  dp_resourceGeneration :: u64
  dp_realStorageGeneration :: u64
  dp_mappingStorageGeneration :: u64
  dp_mapAllocationGeneration :: u64
  dp_lockSerial :: u64
  dp_mappedAllocationByteSize :: u64
  dp_dispatchEpoch :: u64
  dp_uploadEpoch :: u64
  dp_offset :: u32
  dp_size :: u32
  dp_effectiveFlags :: u32
  dp_lockDepth :: u32
  dp_uploadOrdinal :: u32
  dp_outputFormat :: u32
  dp_fvf :: u32
  dp_lockSucceeded :: bool
  dp_lockActive :: bool

definition destination_init :: DestinationProof where
  "destination_init = \<lparr>dp_commonResource = 0, dp_comVertexBuffer = 0, dp_nativeD3DDevice = 0,
     dp_mappedAllocation = 0, dp_mappedAllocationBase = 0, dp_mappedPointer = 0,
     dp_resourceGeneration = 0, dp_realStorageGeneration = 0, dp_mappingStorageGeneration = 0,
     dp_mapAllocationGeneration = 0, dp_lockSerial = 0, dp_mappedAllocationByteSize = 0,
     dp_dispatchEpoch = 0, dp_uploadEpoch = 0, dp_offset = 0, dp_size = 0,
     dp_effectiveFlags = 0, dp_lockDepth = 0, dp_uploadOrdinal = 0, dp_outputFormat = 0,
     dp_fvf = 0, dp_lockSucceeded = False, dp_lockActive = False\<rparr>"

record UnlockProof =
  up_commonResource :: u32
  up_comVertexBuffer :: u32
  up_mappedAllocation :: u32
  up_mappedPointer :: u32
  up_resourceGeneration :: u64
  up_mapAllocationGeneration :: u64
  up_lockSerial :: u64
  up_unlockSerial :: u64
  up_result :: "32 word"

definition unlock_init :: UnlockProof where
  "unlock_init = \<lparr>up_commonResource = 0, up_comVertexBuffer = 0, up_mappedAllocation = 0,
     up_mappedPointer = 0, up_resourceGeneration = 0, up_mapAllocationGeneration = 0,
     up_lockSerial = 0, up_unlockSerial = 0, up_result = 0\<rparr>"

record MxcsrStatusDelta =
  md_normalizedControl :: u32
  md_statusBefore :: u32
  md_statusAfter :: u32
  md_raisedStatus :: u32
  md_clearedStatus :: u32
  md_valid :: bool

definition delta_init :: MxcsrStatusDelta where
  "delta_init = \<lparr>md_normalizedControl = 0, md_statusBefore = 0, md_statusAfter = 0, md_raisedStatus = 0,
     md_clearedStatus = 0, md_valid = False\<rparr>"

subsection \<open>The floating-point control word\<close>

definition NormalizeMxcsrControl :: "u32 \<Rightarrow> u32" where
  "NormalizeMxcsrControl mxcsr = mxcsr AND kMxcsrControlMask"

definition HasSafeMxcsrControl :: "u32 \<Rightarrow> bool" where
  "HasSafeMxcsrControl mxcsr \<longleftrightarrow>
     mxcsr AND NOT kMxcsrControlMask = 0 \<and> mxcsr AND kMxcsrExceptionMask = kMxcsrExceptionMask"

definition CaptureMxcsrStatusDelta :: "u32 \<Rightarrow> u32 \<Rightarrow> MxcsrStatusDelta" where
  "CaptureMxcsrStatusDelta before after =
    (let allowed = kMxcsrControlMask OR kMxcsrStatusMask;
         beforeControl = NormalizeMxcsrControl before;
         afterControl = NormalizeMxcsrControl after;
         statusBefore = before AND kMxcsrStatusMask;
         statusAfter = after AND kMxcsrStatusMask
     in \<lparr>md_normalizedControl = beforeControl, md_statusBefore = statusBefore,
         md_statusAfter = statusAfter, md_raisedStatus = statusAfter AND NOT statusBefore,
         md_clearedStatus = statusBefore AND NOT statusAfter,
         md_valid = (before AND NOT allowed = 0 \<and> after AND NOT allowed = 0 \<and>
                     beforeControl = afterControl \<and> HasSafeMxcsrControl beforeControl)\<rparr>)"

definition MxcsrStatusDeltaConsistent :: "MxcsrStatusDelta \<Rightarrow> bool" where
  "MxcsrStatusDeltaConsistent delta \<longleftrightarrow>
     md_valid delta \<and> HasSafeMxcsrControl (md_normalizedControl delta) \<and>
     md_statusBefore delta AND NOT kMxcsrStatusMask = 0 \<and>
     md_statusAfter delta AND NOT kMxcsrStatusMask = 0 \<and>
     md_raisedStatus delta = md_statusAfter delta AND NOT (md_statusBefore delta) \<and>
     md_clearedStatus delta = md_statusBefore delta AND NOT (md_statusAfter delta)"

subsection \<open>The frozen key and what is bound to it\<close>

definition ExpectedOutputBytes :: "FrozenKey \<Rightarrow> u32" where
  "ExpectedOutputBytes frozen =
    (let expected = (ucast (is_vertexCount (fk_source frozen)) :: u64) * ucast kFormat2OutputStride
     in if expected = 0 \<or> expected > ucast UINT32_MAX then 0 else ucast expected)"

definition ownerValid :: "OwnerSessionProof \<Rightarrow> bool" where
  "ownerValid owner \<longleftrightarrow>
     os_controllerInstanceGeneration owner \<noteq> 0 \<and> os_producerGeneration owner \<noteq> 0 \<and>
     os_mapEpoch owner \<noteq> 0 \<and> os_deviceEpoch owner \<noteq> 0 \<and> os_bridgeResetGeneration owner \<noteq> 0 \<and>
     os_renderThreadId owner \<noteq> 0"

definition flushValid :: "FlushBindingProof \<Rightarrow> bool" where
  "flushValid flush \<longleftrightarrow>
     fb_frameTag flush \<noteq> 0 \<and> fb_flushEpoch flush \<noteq> 0 \<and> fb_batchId flush \<noteq> 0 \<and>
     fb_renderablePart flush \<noteq> 0 \<and> fb_geosetData flush \<noteq> 0 \<and> fb_candidateToken flush \<noteq> 0 \<and>
     fb_path flush = CommonPath \<and> fb_opaque flush"

definition sourceValid :: "ImmutableSourceProof \<Rightarrow> bool" where
  "sourceValid source \<longleftrightarrow>
     is_snapshotIdentity source \<noteq> 0 \<and> is_contentHash source \<noteq> 0 \<and>
     is_sealedContentToken source \<noteq> 0 \<and> is_sourceGeneration source \<noteq> 0 \<and>
     is_layoutGeneration source \<noteq> 0 \<and> \<not> is_vertexCount source < kFormat2MinVertices \<and>
     \<not> is_vertexCount source > kFormat2MaxVertices \<and> is_matrixGroupCount source \<noteq> 0 \<and>
     \<not> is_matrixGroupCount source > kFormat2MaxPaletteGroups \<and> is_uvLayerCount source = 1 \<and>
     \<not> is_maxGroupSlot source \<ge> is_matrixGroupCount source \<and>
     is_positions source \<noteq> 0 \<and> is_normals source \<noteq> 0 \<and> is_groupSlots source \<noteq> 0 \<and>
     is_uv0 source \<noteq> 0 \<and> is_extra source = 0 \<and> is_uv1 source = 0 \<and>
     is_positionStride source = 12 \<and> is_normalStride source = 12 \<and>
     is_groupSlotStride source = 1 \<and> is_uv0Stride source = 8 \<and> is_extraStride source = 0 \<and>
     is_uv1Stride source = 0 \<and> is_positionByteCount source = is_vertexCount source * 12 \<and>
     is_normalByteCount source = is_vertexCount source * 12 \<and>
     is_groupSlotByteCount source = is_vertexCount source \<and>
     is_uv0ByteCount source = is_vertexCount source * 8"

definition paletteValid :: "FlushBindingProof \<Rightarrow> ImmutableSourceProof \<Rightarrow> PaletteProof \<Rightarrow> bool" where
  "paletteValid flush source palette \<longleftrightarrow>
     pp_palettePointer palette \<noteq> 0 \<and> pp_immutableBlobIdentity palette \<noteq> 0 \<and>
     pp_paletteGeneration palette \<noteq> 0 \<and> pp_paletteWriteSerial palette \<noteq> 0 \<and>
     pp_paletteFrameTag palette \<noteq> 0 \<and> pp_contentHash palette \<noteq> 0 \<and>
     pp_sealedContentToken palette \<noteq> 0 \<and> pp_groupCount palette = is_matrixGroupCount source \<and>
     pp_byteCount palette = pp_groupCount palette * kPaletteMatrixBytes \<and>
     pp_paletteFrameTag palette = fb_frameTag flush \<and>
     HasSafeMxcsrControl (pp_floatingPointControl palette)"

definition FrozenKeyValid :: "FrozenKey \<Rightarrow> bool" where
  "FrozenKeyValid key \<longleftrightarrow>
     ownerValid (fk_owner key) \<and> flushValid (fk_flush key) \<and> sourceValid (fk_source key) \<and>
     paletteValid (fk_flush key) (fk_source key) (fk_palette key) \<and> ExpectedOutputBytes key \<noteq> 0"

definition OuterMatchesFrozen :: "FrozenKey \<Rightarrow> OuterBindingProof \<Rightarrow> bool" where
  "OuterMatchesFrozen frozen outer \<longleftrightarrow>
     FrozenKeyValid frozen \<and>
     (let own = fk_owner frozen; flush = fk_flush frozen; source = fk_source frozen;
          palette = fk_palette frozen
      in ob_controllerInstanceGeneration outer = os_controllerInstanceGeneration own \<and>
         ob_producerGeneration outer = os_producerGeneration own \<and>
         ob_mapEpoch outer = os_mapEpoch own \<and> ob_deviceEpoch outer = os_deviceEpoch own \<and>
         ob_bridgeResetGeneration outer = os_bridgeResetGeneration own \<and>
         ob_frameTag outer = fb_frameTag flush \<and> ob_flushEpoch outer = fb_flushEpoch flush \<and>
         ob_batchId outer = fb_batchId flush \<and> ob_sourceGeneration outer = is_sourceGeneration source \<and>
         ob_paletteGeneration outer = pp_paletteGeneration palette \<and>
         ob_sourceSealedContentToken outer = is_sealedContentToken source \<and>
         ob_paletteSealedContentToken outer = pp_sealedContentToken palette \<and>
         ob_dispatchEpoch outer \<noteq> 0 \<and> ob_uploadEpoch outer \<noteq> 0 \<and> ob_gxDeviceD3d outer \<noteq> 0 \<and>
         ob_renderablePart outer = fb_renderablePart flush \<and>
         ob_geosetData outer = fb_geosetData flush \<and> ob_positions outer = is_positions source \<and>
         ob_normals outer = is_normals source \<and> ob_groupSlots outer = is_groupSlots source \<and>
         ob_uv0 outer = is_uv0 source \<and> ob_extra outer = is_extra source \<and>
         ob_uv1 outer = is_uv1 source \<and> ob_palettePointer outer = pp_palettePointer palette \<and>
         ob_candidateToken outer = fb_candidateToken flush \<and>
         ob_flushCandidateOrdinal outer = fb_flushCandidateOrdinal flush \<and>
         ob_layerIndex outer = fb_layerIndex flush \<and> ob_vertexCount outer = is_vertexCount source \<and>
         ob_positionStride outer = is_positionStride source \<and>
         ob_normalStride outer = is_normalStride source \<and>
         ob_groupSlotStride outer = is_groupSlotStride source \<and>
         ob_uv0Stride outer = is_uv0Stride source \<and> ob_extraStride outer = is_extraStride source \<and>
         ob_uv1Stride outer = is_uv1Stride source \<and>
         ob_paletteGroupCount outer = pp_groupCount palette \<and>
         ob_skinMode outer = kFormat2SkinMode \<and> ob_outputFormat outer = kFormat2OutputFormat \<and>
         ob_fvf outer = kFormat2Fvf \<and> ob_outputStride outer = kFormat2OutputStride)"

definition DestinationValid :: "FrozenKey \<Rightarrow> OuterBindingProof \<Rightarrow> DestinationProof \<Rightarrow> bool" where
  "DestinationValid frozen outer destination \<longleftrightarrow>
     OuterMatchesFrozen frozen outer \<and>
     (let expectedSize = ExpectedOutputBytes frozen;
          pointerOffset = dp_mappedPointer destination - dp_mappedAllocationBase destination;
          writeEnd = (ucast (dp_offset destination) :: u64) + ucast (dp_size destination)
      in expectedSize \<noteq> 0 \<and> dp_commonResource destination \<noteq> 0 \<and>
         dp_comVertexBuffer destination \<noteq> 0 \<and> dp_nativeD3DDevice destination \<noteq> 0 \<and>
         dp_mappedAllocation destination \<noteq> 0 \<and> dp_mappedAllocationBase destination \<noteq> 0 \<and>
         dp_mappedPointer destination \<noteq> 0 \<and> dp_resourceGeneration destination \<noteq> 0 \<and>
         dp_realStorageGeneration destination \<noteq> 0 \<and> dp_mappingStorageGeneration destination \<noteq> 0 \<and>
         dp_mapAllocationGeneration destination \<noteq> 0 \<and> dp_lockSerial destination \<noteq> 0 \<and>
         dp_mappedAllocationByteSize destination \<noteq> 0 \<and>
         dp_dispatchEpoch destination = ob_dispatchEpoch outer \<and>
         dp_uploadEpoch destination = ob_uploadEpoch outer \<and>
         dp_uploadOrdinal destination = ob_uploadOrdinal outer \<and>
         dp_lockSucceeded destination \<and> dp_lockActive destination \<and> dp_lockDepth destination = 1 \<and>
         dp_outputFormat destination = kFormat2OutputFormat \<and> dp_fvf destination = kFormat2Fvf \<and>
         dp_size destination = expectedSize \<and>
         \<not> dp_mappedPointer destination < dp_mappedAllocationBase destination \<and>
         pointerOffset = dp_offset destination \<and>
         writeEnd \<le> dp_mappedAllocationByteSize destination)"

definition UnlockMatchesDestination :: "DestinationProof \<Rightarrow> UnlockProof \<Rightarrow> bool" where
  "UnlockMatchesDestination destination unlock \<longleftrightarrow>
     up_unlockSerial unlock \<noteq> 0 \<and> up_commonResource unlock = dp_commonResource destination \<and>
     up_comVertexBuffer unlock = dp_comVertexBuffer destination \<and>
     up_mappedAllocation unlock = dp_mappedAllocation destination \<and>
     up_mappedPointer unlock = dp_mappedPointer destination \<and>
     up_resourceGeneration unlock = dp_resourceGeneration destination \<and>
     up_mapAllocationGeneration unlock = dp_mapAllocationGeneration destination \<and>
     up_lockSerial unlock = dp_lockSerial destination"

end
