(* ===== verification/SkinResults.thy ===== *)
theory SkinResults
  imports SkinProofs
begin

section \<open>CPU skinning controller: eligibility, results and leases\<close>

text \<open>
  \<open>war3_cpu_skin_mt_controller_contract.cpp\<close>, lines 26 to 84 and 447 to 769: the eligibility mask
  of a draw, the producer result that owns its bytes, the envelope minted under the lock and the
  lease of the native body. The memory the input points to is the argument \<open>m\<close>.
\<close>

subsection \<open>Eligibility\<close>

datatype EligibilityFailure =
    NotCommon | NotOpaque | SpecialDispatch | SkinMode | OutputFormat | Fvf | OutputStride |
  VertexRange | MissingStream | UnexpectedExtra | UnexpectedUv1 | PositionStride |
  NormalStride | GroupStride | Uv0Stride | UvLayerCount | PaletteRange | GroupSlotRange |
  PositionCount | NormalCount | GroupCount | Uv0Count | PaletteCount | NonFinitePosition |
  NonFiniteNormal | NonFinitePalette | UnsafeMxcsr | MxcsrMismatchFailure | SourceUnsealed |
  PaletteUnsealed

definition eligibilityFailures :: "EligibilityFailure list" where
  "eligibilityFailures =
     [NotCommon, NotOpaque, SpecialDispatch, SkinMode, OutputFormat, Fvf, OutputStride,
      VertexRange, MissingStream, UnexpectedExtra, UnexpectedUv1, PositionStride,
      NormalStride, GroupStride, Uv0Stride, UvLayerCount, PaletteRange, GroupSlotRange,
      PositionCount, NormalCount, GroupCount, Uv0Count, PaletteCount, NonFinitePosition,
      NonFiniteNormal, NonFinitePalette, UnsafeMxcsr, MxcsrMismatchFailure, SourceUnsealed,
      PaletteUnsealed]"

text \<open>The enumerator of a failure: bit \<open>k\<close> for the \<open>k\<close>-th of the declaration.\<close>

definition failureBit :: "EligibilityFailure \<Rightarrow> u64" where
  "failureBit f = push_bit (length (takeWhile (\<lambda>g. g \<noteq> f) eligibilityFailures)) 1"

record EligibilityInput =
  ei_path :: ControllerPath
  ei_opaque :: bool
  ei_specialDispatch :: bool
  ei_skinMode :: u32
  ei_outputFormat :: u32
  ei_fvf :: u32
  ei_outputStride :: u32
  ei_vertexCount :: u32
  ei_positionStride :: u32
  ei_normalStride :: u32
  ei_groupSlotStride :: u32
  ei_uv0Stride :: u32
  ei_uvLayerCount :: u32
  ei_paletteGroupCount :: u32
  ei_extra :: u32
  ei_uv1 :: u32
  ei_positions :: u32
  ei_positionFloatCount :: u32
  ei_normals :: u32
  ei_normalFloatCount :: u32
  ei_groupSlots :: u32
  ei_groupSlotCount :: u32
  ei_uv0 :: u32
  ei_uv0FloatCount :: u32
  ei_palette :: u32
  ei_paletteFloatCount :: u32
  ei_immutableSourceSealedToken :: u64
  ei_paletteSealedToken :: u64
  ei_frozenMxcsr :: u32
  ei_currentMxcsr :: u32

text \<open>The memory behind the pointers: which floats are finite, and the bytes.\<close>

record Memory =
  mem_isfinite :: "u32 \<Rightarrow> nat \<Rightarrow> bool"
  mem_byte :: "u32 \<Rightarrow> nat \<Rightarrow> u8"

definition IsFiniteSpan :: "Memory \<Rightarrow> u32 \<Rightarrow> u32 \<Rightarrow> bool" where
  "IsFiniteSpan m values n \<longleftrightarrow> values \<noteq> 0 \<and> list_all (mem_isfinite m values) [0..<unat n]"

text \<open>The tests in their order, each with the failure it reports.\<close>

definition eligibilityTests :: "Memory \<Rightarrow> EligibilityInput \<Rightarrow> (bool \<times> EligibilityFailure) list" where
  "eligibilityTests m i =
    (let vertexCount = ei_vertexCount i;
         positionFloats = vertexCount * 3; normalFloats = vertexCount * 3;
         groups = vertexCount; uv0Floats = vertexCount * 2;
         paletteFloats = ei_paletteGroupCount i * 12;
         frozenControl = NormalizeMxcsrControl (ei_frozenMxcsr i);
         currentControl = NormalizeMxcsrControl (ei_currentMxcsr i)
     in [(ei_path i \<noteq> CommonPath, NotCommon),
         (\<not> ei_opaque i, NotOpaque),
         (ei_specialDispatch i, SpecialDispatch),
         (ei_skinMode i \<noteq> kFormat2SkinMode, SkinMode),
         (ei_outputFormat i \<noteq> kFormat2OutputFormat, OutputFormat),
         (ei_fvf i \<noteq> kFormat2Fvf, Fvf),
         (ei_outputStride i \<noteq> kFormat2OutputStride, OutputStride),
         (vertexCount < kFormat2MinVertices \<or> vertexCount > kFormat2MaxVertices, VertexRange),
         (ei_positions i = 0 \<or> ei_normals i = 0 \<or> ei_groupSlots i = 0 \<or> ei_uv0 i = 0 \<or>
            ei_palette i = 0, MissingStream),
         (ei_extra i \<noteq> 0, UnexpectedExtra),
         (ei_uv1 i \<noteq> 0, UnexpectedUv1),
         (ei_positionStride i \<noteq> 12, PositionStride),
         (ei_normalStride i \<noteq> 12, NormalStride),
         (ei_groupSlotStride i \<noteq> 1, GroupStride),
         (ei_uv0Stride i \<noteq> 8, Uv0Stride),
         (ei_uvLayerCount i \<noteq> 1, UvLayerCount),
         (ei_paletteGroupCount i = 0 \<or> ei_paletteGroupCount i > kFormat2MaxPaletteGroups, PaletteRange),
         (ei_positionFloatCount i \<noteq> positionFloats, PositionCount),
         (ei_normalFloatCount i \<noteq> normalFloats, NormalCount),
         (ei_groupSlotCount i \<noteq> groups, GroupCount),
         (ei_uv0FloatCount i \<noteq> uv0Floats, Uv0Count),
         (ei_paletteFloatCount i \<noteq> paletteFloats, PaletteCount),
         (ei_groupSlots i \<noteq> 0 \<and> ei_groupSlotCount i = groups \<and>
            ei_paletteGroupCount i \<le> kFormat2MaxPaletteGroups \<and>
            list_ex (\<lambda>k. ucast (mem_byte m (ei_groupSlots i) k) \<ge> ei_paletteGroupCount i)
              [0..<unat (ei_groupSlotCount i)], GroupSlotRange),
         (ei_positions i \<noteq> 0 \<and> ei_positionFloatCount i = positionFloats \<and>
            \<not> IsFiniteSpan m (ei_positions i) (ei_positionFloatCount i), NonFinitePosition),
         (ei_normals i \<noteq> 0 \<and> ei_normalFloatCount i = normalFloats \<and>
            \<not> IsFiniteSpan m (ei_normals i) (ei_normalFloatCount i), NonFiniteNormal),
         (ei_palette i \<noteq> 0 \<and> ei_paletteFloatCount i = paletteFloats \<and>
            \<not> IsFiniteSpan m (ei_palette i) (ei_paletteFloatCount i), NonFinitePalette),
         (ei_immutableSourceSealedToken i = 0, SourceUnsealed),
         (ei_paletteSealedToken i = 0, PaletteUnsealed),
         (\<not> HasSafeMxcsrControl frozenControl \<or> \<not> HasSafeMxcsrControl currentControl, UnsafeMxcsr),
         (frozenControl \<noteq> currentControl, MxcsrMismatchFailure)])"

text \<open>The mask of the failed tests, and whether there is none.\<close>

definition ValidateFormat2Eligibility :: "Memory \<Rightarrow> EligibilityInput \<Rightarrow> u64 \<times> bool" where
  "ValidateFormat2Eligibility m i =
    (let failures = fold (\<lambda>(failed, f) mask. if failed then mask OR failureBit f else mask)
                      (eligibilityTests m i) 0
     in (failures, failures = 0))"

definition ByteCountMatches :: "u32 \<Rightarrow> u32 \<Rightarrow> u32 \<Rightarrow> bool" where
  "ByteCountMatches elementCount elementSize expectedBytes \<longleftrightarrow>
     \<not> elementCount > UINT32_MAX div elementSize \<and> elementCount * elementSize = expectedBytes"

definition EligibilityMatchesFrozenKey :: "Memory \<Rightarrow> FrozenKey \<Rightarrow> EligibilityInput \<Rightarrow> bool" where
  "EligibilityMatchesFrozenKey m key i \<longleftrightarrow>
     snd (ValidateFormat2Eligibility m i) \<and> FrozenKeyValid key \<and>
     (let flush = fk_flush key; source = fk_source key; palette = fk_palette key;
          frozenControl = NormalizeMxcsrControl (ei_frozenMxcsr i);
          currentControl = NormalizeMxcsrControl (ei_currentMxcsr i)
      in ei_path i = fb_path flush \<and> ei_opaque i = fb_opaque flush \<and>
         ei_skinMode i = kFormat2SkinMode \<and> ei_outputFormat i = kFormat2OutputFormat \<and>
         ei_fvf i = kFormat2Fvf \<and> ei_outputStride i = kFormat2OutputStride \<and>
         ei_vertexCount i = is_vertexCount source \<and>
         ei_positionStride i = is_positionStride source \<and>
         ei_normalStride i = is_normalStride source \<and>
         ei_groupSlotStride i = is_groupSlotStride source \<and>
         ei_uv0Stride i = is_uv0Stride source \<and> ei_uvLayerCount i = is_uvLayerCount source \<and>
         ei_paletteGroupCount i = pp_groupCount palette \<and> ei_extra i = is_extra source \<and>
         ei_uv1 i = is_uv1 source \<and> ei_positions i = is_positions source \<and>
         ei_normals i = is_normals source \<and> ei_groupSlots i = is_groupSlots source \<and>
         ei_uv0 i = is_uv0 source \<and> ei_palette i = pp_palettePointer palette \<and>
         ei_immutableSourceSealedToken i = is_sealedContentToken source \<and>
         ei_paletteSealedToken i = pp_sealedContentToken palette \<and>
         ByteCountMatches (ei_positionFloatCount i) 4 (is_positionByteCount source) \<and>
         ByteCountMatches (ei_normalFloatCount i) 4 (is_normalByteCount source) \<and>
         ByteCountMatches (ei_groupSlotCount i) 1 (is_groupSlotByteCount source) \<and>
         ByteCountMatches (ei_uv0FloatCount i) 4 (is_uv0ByteCount source) \<and>
         ByteCountMatches (ei_paletteFloatCount i) 4 (pp_byteCount palette) \<and>
         frozenControl = pp_floatingPointControl palette \<and> currentControl = frozenControl)"

subsection \<open>The producer result\<close>

record ProducerResultProof =
  pf_frozenKey :: FrozenKey
  pf_mxcsrStatusDelta :: MxcsrStatusDelta
  pf_resultSerial :: u64
  pf_producerGeneration :: u64
  pf_outputContentHash :: u64
  pf_ownedBytesIdentity :: u32
  pf_outputByteSize :: u32
  pf_normalizedMxcsr :: u32
  pf_proofVersion :: u32

definition HashBytes :: "u8 list \<Rightarrow> u64" where
  "HashBytes bytes =
    fold (\<lambda>b hash. (hash XOR ucast b) * 1099511628211) bytes 1469598103934665603"

definition ProducerResultProofStructurallyComplete :: "ProducerResultProof \<Rightarrow> bool" where
  "ProducerResultProofStructurallyComplete p \<longleftrightarrow>
     FrozenKeyValid (pf_frozenKey p) \<and> MxcsrStatusDeltaConsistent (pf_mxcsrStatusDelta p) \<and>
     pf_resultSerial p \<noteq> 0 \<and>
     pf_producerGeneration p = os_producerGeneration (fk_owner (pf_frozenKey p)) \<and>
     pf_ownedBytesIdentity p \<noteq> 0 \<and> pf_outputByteSize p \<noteq> 0 \<and>
     pf_outputByteSize p = ExpectedOutputBytes (pf_frozenKey p) \<and>
     pf_normalizedMxcsr p = md_normalizedControl (pf_mxcsrStatusDelta p) \<and>
     pf_normalizedMxcsr p = pp_floatingPointControl (fk_palette (pf_frozenKey p)) \<and>
     pf_proofVersion p = kProducerResultProofVersion"

text \<open>
  The object: its own address, for a \<open>shared_ptr\<close> compares addresses, and the address and the
  contents of the byte vector it owns.
\<close>

record OwnedProducerResult =
  or_address :: u32
  or_proof :: ProducerResultProof
  or_data :: u32
  or_bytes :: "u8 list"

text \<open>The allocator's two addresses are arguments.\<close>

definition Create ::
  "Memory \<Rightarrow> u32 \<Rightarrow> u32 \<Rightarrow> FrozenKey \<Rightarrow> EligibilityInput \<Rightarrow> u64 \<Rightarrow> u8 list \<Rightarrow> u32 \<Rightarrow> u32 \<Rightarrow>
    OwnedProducerResult option" where
  "Create m address data frozenKey eligibility resultSerial bytes mxcsrBefore mxcsrAfter =
    (let statusDelta = CaptureMxcsrStatusDelta mxcsrBefore mxcsrAfter;
         expectedBytes = ExpectedOutputBytes frozenKey
     in if resultSerial = 0 \<or> \<not> EligibilityMatchesFrozenKey m frozenKey eligibility \<or>
           \<not> md_valid statusDelta \<or>
           md_normalizedControl statusDelta \<noteq> pp_floatingPointControl (fk_palette frozenKey) \<or>
           bytes = [] \<or> length bytes > unat UINT32_MAX \<or> length bytes \<noteq> unat expectedBytes
        then None
        else Some \<lparr>or_address = address,
          or_proof = \<lparr>pf_frozenKey = frozenKey, pf_mxcsrStatusDelta = statusDelta,
            pf_resultSerial = resultSerial,
            pf_producerGeneration = os_producerGeneration (fk_owner frozenKey),
            pf_outputContentHash = HashBytes bytes, pf_ownedBytesIdentity = data,
            pf_outputByteSize = of_nat (length bytes),
            pf_normalizedMxcsr = md_normalizedControl statusDelta,
            pf_proofVersion = kProducerResultProofVersion\<rparr>,
          or_data = data, or_bytes = bytes\<rparr>)"

definition proofComplete :: "OwnedProducerResult \<Rightarrow> bool" where
  "proofComplete r \<longleftrightarrow>
     ProducerResultProofStructurallyComplete (or_proof r) \<and>
     pf_ownedBytesIdentity (or_proof r) = or_data r \<and>
     unat (pf_outputByteSize (or_proof r)) = length (or_bytes r) \<and>
     pf_outputContentHash (or_proof r) = HashBytes (or_bytes r)"

subsection \<open>The commit envelope\<close>

record RenderCommitEnvelopeProof =
  ce_frozenKey :: FrozenKey
  ce_outer :: OuterBindingProof
  ce_destination :: DestinationProof
  ce_producerResult :: ProducerResultProof
  ce_commitSerial :: u64
  ce_normalizedOwnerMxcsr :: u32
  ce_proofVersion :: u32

definition RenderCommitEnvelopeComplete :: "RenderCommitEnvelopeProof \<Rightarrow> bool" where
  "RenderCommitEnvelopeComplete p \<longleftrightarrow>
     ce_commitSerial p \<noteq> 0 \<and> ce_commitSerial p = dp_lockSerial (ce_destination p) \<and>
     ce_proofVersion p = kRenderCommitEnvelopeVersion \<and> FrozenKeyValid (ce_frozenKey p) \<and>
     OuterMatchesFrozen (ce_frozenKey p) (ce_outer p) \<and>
     DestinationValid (ce_frozenKey p) (ce_outer p) (ce_destination p) \<and>
     pf_frozenKey (ce_producerResult p) = ce_frozenKey p \<and>
     ProducerResultProofStructurallyComplete (ce_producerResult p) \<and>
     pf_outputByteSize (ce_producerResult p) = dp_size (ce_destination p) \<and>
     pf_normalizedMxcsr (ce_producerResult p) = ce_normalizedOwnerMxcsr p \<and>
     ce_normalizedOwnerMxcsr p = pp_floatingPointControl (fk_palette (ce_frozenKey p))"

text \<open>An envelope is its proof and the result it holds; the default one holds nothing: \<open>None\<close>.\<close>

type_synonym RenderCommitEnvelope = "(RenderCommitEnvelopeProof \<times> OwnedProducerResult) option"

definition MintAfterLock ::
  "FrozenKey \<Rightarrow> OuterBindingProof \<Rightarrow> DestinationProof \<Rightarrow> OwnedProducerResult option \<Rightarrow> u64 \<Rightarrow> u32 \<Rightarrow>
    RenderCommitEnvelope" where
  "MintAfterLock frozenKey outer destination result commitSerial ownerMxcsr =
    (let normalizedOwnerMxcsr = NormalizeMxcsrControl ownerMxcsr
     in case result of
          None \<Rightarrow> None
        | Some r \<Rightarrow>
            if \<not> proofComplete r \<or> commitSerial = 0 \<or> pf_frozenKey (or_proof r) \<noteq> frozenKey \<or>
               \<not> DestinationValid frozenKey outer destination \<or>
               \<not> HasSafeMxcsrControl normalizedOwnerMxcsr \<or>
               normalizedOwnerMxcsr \<noteq> pf_normalizedMxcsr (or_proof r)
            then None
            else
              let p = \<lparr>ce_frozenKey = frozenKey, ce_outer = outer, ce_destination = destination,
                       ce_producerResult = or_proof r, ce_commitSerial = commitSerial,
                       ce_normalizedOwnerMxcsr = normalizedOwnerMxcsr,
                       ce_proofVersion = kRenderCommitEnvelopeVersion\<rparr>
              in if \<not> RenderCommitEnvelopeComplete p then None else Some (p, r))"

definition envelope_valid :: "RenderCommitEnvelope \<Rightarrow> bool" where
  "envelope_valid e =
    (case e of
       None \<Rightarrow> False
     | Some (p, r) \<Rightarrow>
         proofComplete r \<and> or_proof r = ce_producerResult p \<and> RenderCommitEnvelopeComplete p)"

subsection \<open>The lease of the native body\<close>

record NativeBodyLease =
  bl_controllerInstanceGeneration :: u64
  bl_producerGeneration :: u64
  bl_activeGeneration :: u64
  bl_frameTag :: u64
  bl_batchId :: u64
  bl_lockSerial :: u64

definition bodyLease_init :: NativeBodyLease where
  "bodyLease_init = \<lparr>bl_controllerInstanceGeneration = 0, bl_producerGeneration = 0,
     bl_activeGeneration = 0, bl_frameTag = 0, bl_batchId = 0, bl_lockSerial = 0\<rparr>"

definition lease_valid :: "NativeBodyLease \<Rightarrow> bool" where
  "lease_valid l \<longleftrightarrow>
     bl_controllerInstanceGeneration l \<noteq> 0 \<and> bl_producerGeneration l \<noteq> 0 \<and>
     bl_activeGeneration l \<noteq> 0 \<and> bl_frameTag l \<noteq> 0 \<and> bl_batchId l \<noteq> 0 \<and> bl_lockSerial l \<noteq> 0"

end
