(* ===== verification/SkinController.thy ===== *)
theory SkinController
  imports SkinResults
begin

section \<open>CPU skinning controller: the job\<close>

text \<open>
  The class \<open>CpuSkinMtControllerJob\<close> and its ledger
  (\<open>war3_cpu_skin_mt_controller_contract.cpp\<close>, lines 771 to 1666). Every operation but the contended
  path of \<open>trySelectKernelRoute\<close> runs under the mutex of the job, so it is one function on the job
  and the ledger. The contended path takes no lock: its compare-and-swap on the route may land inside
  another operation. Each operation therefore has an argument \<open>race\<close> that says at which of its
  numbered gaps, between two accesses to the atomics, such a selection lands.
\<close>

subsection \<open>Enumerations\<close>

datatype ControllerState = InvalidState | Frozen | Submitted | BoundToOuter | AwaitingKernel
  | CommitClaimed | CopyBodyInProgress | CopyAwaitingUnlock | NativeBodyInProgress
  | NativeAwaitingUnlock | CopiedNormalState | OriginalNormalState | OriginalFaultState
  | CopyFaultState | TemplateMismatchState | ResetCancelledState | OuterCancelledState

datatype Terminal = NoTerminal | CopiedNormal | OriginalNormal | OriginalFault | CopyFault
  | TemplateMismatch | ResetCancelled | OuterCancelled

datatype ControllerResult = Applied | AlreadyApplied | Published | AlreadyPublished | Consumed
  | Deferred | StaleGeneration | InvalidTransition | KeyMismatch | ProducerNotReady
  | CopyAfterUnlock | DoubleTerminal | LateProducerReady | MxcsrMismatch
  | MxcsrStatusDeltaMismatch | MissingCopyCallback | InvalidNativeLease

datatype KernelRoute = NoRoute | CopyRoute | NativeRoute | CancelledRoute

datatype KernelReason = NoReason | ReadyProducerResult | ProducerNotReadyReason
  | StateLockContended | MxcsrMismatchReason | EnvelopeMismatch | AlreadyDecided | WindowClosed

text \<open>The counters of the ledger; a ledger, and a snapshot of it, gives each its value.\<close>

datatype Counter =
  jobsCreated | liveJobs | producerResultPublications | liveProducerResults |
  producerResultClaims | liveProducerClaims | producerResultConsumptions |
  producerResultAbandoned | producerClaimAbandoned | copySelections | nativeSelections |
  liveCopyJobs | liveNativeJobs | nativeBodyLeases | liveNativeBodyLeases |
  nativeBodiesCompleted | nativeBodyLeasesAbandoned | outerSettlementsOpened |
  liveOuterSettlements | outerSettlementsCompleted | guardedCopies | guardedCopyBodyFaults |
  mxcsrStatusDeltasRecorded | mxcsrStatusDeltaMismatches | successfulUnlocks |
  failedUnlocks | deferredResetCancellations | deferredOuterCancellations |
  deferredTemplateCancellations | copiedNormal | originalNormal | originalFault | copyFault |
  templateMismatch | resetCancelled | outerCancelled | copyCancelled | nativeCancelled |
  unselectedCancelled | staleGenerationRejects | invalidTransitionRejects |
  keyMismatchRejects | producerNotReadyRejects | lateProducerReadyRejects |
  copyAfterUnlockRejects | doubleTerminalRejects | mxcsrMismatchRejects |
  invalidNativeLeaseRejects

type_synonym Ledger = "Counter \<Rightarrow> u64"

definition ledger_init :: Ledger where "ledger_init = (\<lambda>_. 0)"

definition terminalJobs :: "Ledger \<Rightarrow> u64" where
  "terminalJobs l = l copiedNormal + l originalNormal + l originalFault + l copyFault +
     l templateMismatch + l resetCancelled + l outerCancelled"

definition closureHolds :: "Ledger \<Rightarrow> bool" where
  "closureHolds l \<longleftrightarrow>
     l jobsCreated = l liveJobs + terminalJobs l \<and>
     l producerResultPublications =
       l liveProducerResults + l producerResultConsumptions + l producerResultAbandoned \<and>
     l producerResultClaims =
       l liveProducerClaims + l producerResultConsumptions + l producerClaimAbandoned \<and>
     l copySelections = l liveCopyJobs + l copiedNormal + l copyFault + l copyCancelled \<and>
     l nativeSelections = l liveNativeJobs + l originalNormal + l originalFault + l nativeCancelled \<and>
     l nativeBodyLeases =
       l liveNativeBodyLeases + l nativeBodiesCompleted + l nativeBodyLeasesAbandoned \<and>
     l outerSettlementsOpened = l copySelections + l nativeSelections \<and>
     l outerSettlementsOpened = l liveOuterSettlements + l outerSettlementsCompleted"

subsection \<open>The job\<close>

record BodyCompletion =
  bc_succeeded :: bool
  bc_mxcsrBefore :: u32
  bc_mxcsrAfter :: u32

definition completion_init :: BodyCompletion where
  "completion_init = \<lparr>bc_succeeded = False, bc_mxcsrBefore = 0, bc_mxcsrAfter = 0\<rparr>"

record KernelDecision =
  kd_result :: ControllerResult
  kd_route :: KernelRoute
  kd_reason :: KernelReason
  kd_nativeBodyLease :: NativeBodyLease
  kd_stateLockAcquired :: bool
  kd_selectedNow :: bool

record Job =
  jb_frozen :: FrozenKey
  jb_outer :: OuterBindingProof
  jb_destination :: DestinationProof
  jb_unlock :: UnlockProof
  jb_bodyCompletion :: BodyCompletion
  jb_bodyMxcsrStatusDelta :: MxcsrStatusDelta
  jb_commitEnvelope :: RenderCommitEnvelope
  jb_state :: ControllerState
  jb_terminal :: Terminal
  jb_deferredTerminal :: Terminal
  jb_pendingResetGeneration :: u64
  jb_activeGeneration :: u64
  jb_unlockObserved :: bool
  jb_bodyCompleted :: bool
  jb_bodySucceeded :: bool
  jb_producerPublicationSettled :: bool
  jb_producerClaimed :: bool
  jb_producerConsumed :: bool
  jb_outerSettlementOpen :: bool
  jb_nativeBodyLeaseLive :: bool
  jb_route :: KernelRoute
  jb_routeAuthority :: KernelRoute
  jb_activeGenerationAtomic :: u64
  jb_kernelWindowOpen :: bool
  jb_producerResult :: "OwnedProducerResult option"

text \<open>A job with the ledger it points to.\<close>

type_synonym JobLedger = "Job \<times> Ledger"

fun Increment :: "Counter \<Rightarrow> JobLedger \<Rightarrow> JobLedger" where
  "Increment c (j, l) = (j, l(c := l c + 1))"

fun Decrement :: "Counter \<Rightarrow> JobLedger \<Rightarrow> JobLedger" where
  "Decrement c (j, l) = (j, l(c := l c - 1))"

fun setJob :: "(Job \<Rightarrow> Job) \<Rightarrow> JobLedger \<Rightarrow> JobLedger" where
  "setJob f (j, l) = (f j, l)"

definition incrementAll :: "Counter list \<Rightarrow> JobLedger \<Rightarrow> JobLedger" where
  "incrementAll = fold Increment"

definition job_init :: "FrozenKey \<Rightarrow> u64 \<Rightarrow> Job" where
  "job_init frozen activeGeneration =
    \<lparr>jb_frozen = frozen, jb_outer = outer_init, jb_destination = destination_init,
     jb_unlock = unlock_init, jb_bodyCompletion = completion_init,
     jb_bodyMxcsrStatusDelta = delta_init, jb_commitEnvelope = None, jb_state = InvalidState,
     jb_terminal = NoTerminal, jb_deferredTerminal = NoTerminal, jb_pendingResetGeneration = 0,
     jb_activeGeneration = activeGeneration, jb_unlockObserved = False, jb_bodyCompleted = False,
     jb_bodySucceeded = False, jb_producerPublicationSettled = False, jb_producerClaimed = False,
     jb_producerConsumed = False, jb_outerSettlementOpen = False, jb_nativeBodyLeaseLive = False,
     jb_route = NoRoute, jb_routeAuthority = NoRoute, jb_activeGenerationAtomic = activeGeneration,
     jb_kernelWindowOpen = False, jb_producerResult = None\<rparr>"

definition construct :: "FrozenKey \<Rightarrow> u64 \<Rightarrow> Ledger \<Rightarrow> JobLedger" where
  "construct frozen activeGeneration l =
    (let j = job_init frozen activeGeneration
     in if activeGeneration = 0 \<or>
           activeGeneration \<noteq> os_controllerInstanceGeneration (fk_owner frozen) \<or>
           \<not> FrozenKeyValid frozen
        then (j, l)
        else incrementAll [jobsCreated, liveJobs] (j\<lparr>jb_state := Frozen\<rparr>, l))"

definition isTerminal :: "Job \<Rightarrow> bool" where
  "isTerminal j \<longleftrightarrow> jb_terminal j \<noteq> NoTerminal"

definition leaseOf :: "Job \<Rightarrow> u64 \<Rightarrow> NativeBodyLease" where
  "leaseOf j activeGeneration =
    \<lparr>bl_controllerInstanceGeneration = os_controllerInstanceGeneration (fk_owner (jb_frozen j)),
     bl_producerGeneration = os_producerGeneration (fk_owner (jb_frozen j)),
     bl_activeGeneration = activeGeneration, bl_frameTag = fb_frameTag (fk_flush (jb_frozen j)),
     bl_batchId = fb_batchId (fk_flush (jb_frozen j)),
     bl_lockSerial = dp_lockSerial (jb_destination j)\<rparr>"

definition makeNativeBodyLease :: "Job \<Rightarrow> NativeBodyLease" where
  "makeNativeBodyLease j = leaseOf j (jb_activeGenerationAtomic j)"

definition nativeBodyLeaseMatches :: "NativeBodyLease \<Rightarrow> Job \<Rightarrow> bool" where
  "nativeBodyLeaseMatches lease j \<longleftrightarrow> lease_valid lease \<and> lease = leaseOf j (jb_activeGeneration j)"

subsection \<open>Settlement of the producer result\<close>

definition settleProducerConsumed :: "JobLedger \<Rightarrow> JobLedger" where
  "settleProducerConsumed s =
    (let j = fst s in
     if jb_producerResult j = None \<or> jb_producerPublicationSettled j then s
     else
       let s = setJob (\<lambda>j. j\<lparr>jb_producerPublicationSettled := True, jb_producerConsumed := True\<rparr>) s;
           s = Increment producerResultConsumptions (Decrement liveProducerResults s)
       in if jb_producerClaimed j then Decrement liveProducerClaims s else s)"

definition settleProducerAbandoned :: "JobLedger \<Rightarrow> JobLedger" where
  "settleProducerAbandoned s =
    (let s = (if jb_producerResult (fst s) \<noteq> None \<and> \<not> jb_producerPublicationSettled (fst s)
              then Increment producerResultAbandoned (Decrement liveProducerResults
                     (setJob (\<lambda>j. j\<lparr>jb_producerPublicationSettled := True\<rparr>) s))
              else s)
     in if jb_producerClaimed (fst s) \<and> \<not> jb_producerConsumed (fst s)
        then Increment producerClaimAbandoned (Decrement liveProducerClaims
               (setJob (\<lambda>j. j\<lparr>jb_producerClaimed := False\<rparr>) s))
        else s)"

definition materializeAtomicRoute :: "JobLedger \<Rightarrow> JobLedger" where
  "materializeAtomicRoute s =
    (if jb_route (fst s) \<noteq> NoRoute then s
     else
       case jb_routeAuthority (fst s) of
         NativeRoute \<Rightarrow>
           setJob (\<lambda>j. j\<lparr>jb_commitEnvelope := None, jb_producerResult := None\<rparr>)
             (settleProducerAbandoned
               (setJob (\<lambda>j. j\<lparr>jb_route := NativeRoute, jb_state := NativeBodyInProgress,
                             jb_outerSettlementOpen := True, jb_nativeBodyLeaseLive := True\<rparr>) s))
       | CopyRoute \<Rightarrow> setJob (\<lambda>j. j\<lparr>jb_route := CopyRoute\<rparr>) s
       | _ \<Rightarrow> s)"

subsection \<open>The selection that takes no lock\<close>

definition selectNativeWithoutWaiting ::
  "KernelReason \<Rightarrow> bool \<Rightarrow> JobLedger \<Rightarrow> KernelDecision \<times> JobLedger" where
  "selectNativeWithoutWaiting reason stateLockAcquired s =
    (case jb_routeAuthority (fst s) of
       NoRoute \<Rightarrow>
         let s = setJob (\<lambda>j. j\<lparr>jb_routeAuthority := NativeRoute, jb_kernelWindowOpen := False\<rparr>) s;
             s = incrementAll [nativeSelections, liveNativeJobs, nativeBodyLeases,
                   liveNativeBodyLeases, outerSettlementsOpened, liveOuterSettlements] s
         in (\<lparr>kd_result = Applied, kd_route = NativeRoute, kd_reason = reason,
              kd_nativeBodyLease = makeNativeBodyLease (fst s),
              kd_stateLockAcquired = stateLockAcquired, kd_selectedNow = True\<rparr>, s)
     | CancelledRoute \<Rightarrow>
         (\<lparr>kd_result = InvalidTransition, kd_route = CancelledRoute, kd_reason = WindowClosed,
           kd_nativeBodyLease = bodyLease_init, kd_stateLockAcquired = stateLockAcquired,
           kd_selectedNow = False\<rparr>, s)
     | expected \<Rightarrow>
         (\<lparr>kd_result = AlreadyApplied, kd_route = expected, kd_reason = AlreadyDecided,
           kd_nativeBodyLease = bodyLease_init, kd_stateLockAcquired = stateLockAcquired,
           kd_selectedNow = False\<rparr>, s))"

text \<open>A contended selection that lands in a gap of an operation.\<close>

definition contend :: "bool \<Rightarrow> JobLedger \<Rightarrow> JobLedger" where
  "contend b s = (if b then snd (selectNativeWithoutWaiting StateLockContended False s) else s)"

subsection \<open>Rejections, deferral and the end of a job\<close>

definition rejectStale :: "JobLedger \<Rightarrow> ControllerResult \<times> JobLedger" where
  "rejectStale s = (StaleGeneration, Increment staleGenerationRejects s)"

definition rejectInvalid :: "JobLedger \<Rightarrow> ControllerResult \<times> JobLedger" where
  "rejectInvalid s = (InvalidTransition, Increment invalidTransitionRejects s)"

definition rejectKey :: "JobLedger \<Rightarrow> ControllerResult \<times> JobLedger" where
  "rejectKey s = (KeyMismatch, Increment keyMismatchRejects s)"

definition rejectDoubleTerminal :: "JobLedger \<Rightarrow> ControllerResult \<times> JobLedger" where
  "rejectDoubleTerminal s = (DoubleTerminal, Increment doubleTerminalRejects s)"

definition shouldDeferCancellation :: "Job \<Rightarrow> bool" where
  "shouldDeferCancellation j \<longleftrightarrow>
     (if jb_route j = NativeRoute \<and> \<not> jb_bodyCompleted j then True
      else jb_route j \<noteq> NoRoute \<and> jb_bodyCompleted j \<and> \<not> jb_unlockObserved j)"

definition queueDeferredCancellation ::
  "Terminal \<Rightarrow> u64 \<Rightarrow> JobLedger \<Rightarrow> ControllerResult \<times> JobLedger" where
  "queueDeferredCancellation terminal nextGeneration s =
    (let j = fst s in
     if jb_deferredTerminal j \<noteq> NoTerminal then
       (if jb_deferredTerminal j = terminal \<and>
           (terminal \<noteq> ResetCancelled \<or> jb_pendingResetGeneration j = nextGeneration)
        then (AlreadyApplied, s) else rejectInvalid s)
     else
       let s = setJob (\<lambda>j. j\<lparr>jb_deferredTerminal := terminal,
                  jb_pendingResetGeneration := nextGeneration, jb_kernelWindowOpen := False\<rparr>) s
       in (Deferred,
           if terminal = ResetCancelled then Increment deferredResetCancellations s
           else if terminal = OuterCancelled then Increment deferredOuterCancellations s
           else if terminal = TemplateMismatch then Increment deferredTemplateCancellations s
           else s))"

fun terminalCounter :: "Terminal \<Rightarrow> Counter option" where
  "terminalCounter NoTerminal = None"
| "terminalCounter CopiedNormal = Some copiedNormal"
| "terminalCounter OriginalNormal = Some originalNormal"
| "terminalCounter OriginalFault = Some originalFault"
| "terminalCounter CopyFault = Some copyFault"
| "terminalCounter TemplateMismatch = Some templateMismatch"
| "terminalCounter ResetCancelled = Some resetCancelled"
| "terminalCounter OuterCancelled = Some outerCancelled"

text \<open>The compare-and-swap of the route from none to cancelled.\<close>

definition cancelAuthority :: "Job \<Rightarrow> Job" where
  "cancelAuthority j =
    (if jb_routeAuthority j = NoRoute then j\<lparr>jb_routeAuthority := CancelledRoute\<rparr> else j)"

definition abandonLease :: "JobLedger \<Rightarrow> JobLedger" where
  "abandonLease s =
    (if jb_nativeBodyLeaseLive (fst s)
     then Increment nativeBodyLeasesAbandoned (Decrement liveNativeBodyLeases
            (setJob (\<lambda>j. j\<lparr>jb_nativeBodyLeaseLive := False\<rparr>) s))
     else s)"

definition closeSettlement :: "JobLedger \<Rightarrow> JobLedger" where
  "closeSettlement s =
    (if jb_outerSettlementOpen (fst s)
     then Increment outerSettlementsCompleted (Decrement liveOuterSettlements
            (setJob (\<lambda>j. j\<lparr>jb_outerSettlementOpen := False\<rparr>) s))
     else s)"

definition settleRoute :: "Terminal \<Rightarrow> JobLedger \<Rightarrow> JobLedger" where
  "settleRoute terminal s =
    (case jb_route (fst s) of
       CopyRoute \<Rightarrow>
         let s = Decrement liveCopyJobs s
         in if terminal \<noteq> CopiedNormal \<and> terminal \<noteq> CopyFault then Increment copyCancelled s else s
     | NativeRoute \<Rightarrow>
         let s = Decrement liveNativeJobs s
         in if terminal \<noteq> OriginalNormal \<and> terminal \<noteq> OriginalFault
            then Increment nativeCancelled s else s
     | _ \<Rightarrow> Increment unselectedCancelled s)"

definition applyReset :: "Terminal \<Rightarrow> Job \<Rightarrow> Job" where
  "applyReset terminal j =
    (if terminal = ResetCancelled \<and> jb_pendingResetGeneration j > jb_activeGeneration j
     then j\<lparr>jb_activeGeneration := jb_pendingResetGeneration j,
            jb_activeGenerationAtomic := jb_pendingResetGeneration j\<rparr>
     else j)"

text \<open>Gap 1 lies between the read of the route and its compare-and-swap.\<close>

definition finish ::
  "(nat \<Rightarrow> bool) \<Rightarrow> ControllerState \<Rightarrow> Terminal \<Rightarrow> JobLedger \<Rightarrow> ControllerResult \<times> JobLedger" where
  "finish race state terminal s =
    (if isTerminal (fst s) then rejectDoubleTerminal s
     else if terminal = NoTerminal then rejectInvalid s
     else
       let s = materializeAtomicRoute s;
           s = contend (race 1) s;
           s = setJob (\<lambda>j. cancelAuthority (j\<lparr>jb_kernelWindowOpen := False\<rparr>)) s;
           s = closeSettlement (abandonLease (settleProducerAbandoned s));
           s = Decrement liveJobs (setJob (\<lambda>j. j\<lparr>jb_state := state, jb_terminal := terminal\<rparr>) s);
           s = (case terminalCounter terminal of None \<Rightarrow> s | Some c \<Rightarrow> Increment c s);
           s = settleRoute terminal s;
           s = setJob (\<lambda>j. (applyReset terminal j)\<lparr>jb_deferredTerminal := NoTerminal,
                 jb_pendingResetGeneration := 0, jb_commitEnvelope := None,
                 jb_producerResult := None\<rparr>) s
       in (Applied, s))"

definition deferredState :: "Terminal \<Rightarrow> ControllerState" where
  "deferredState terminal =
    (if terminal = ResetCancelled then ResetCancelledState
     else if terminal = TemplateMismatch then TemplateMismatchState else OuterCancelledState)"

definition finalizeRouteAfterUnlock ::
  "(nat \<Rightarrow> bool) \<Rightarrow> JobLedger \<Rightarrow> ControllerResult \<times> JobLedger" where
  "finalizeRouteAfterUnlock race s =
    (let j = fst s; unlockSucceeded = sint (up_result (jb_unlock j)) \<ge> 0 in
     if \<not> jb_unlockObserved j \<or> \<not> jb_bodyCompleted j then (Applied, s)
     else if jb_deferredTerminal j \<noteq> NoTerminal
     then finish race (deferredState (jb_deferredTerminal j)) (jb_deferredTerminal j) s
     else
       case jb_route j of
         CopyRoute \<Rightarrow>
           if jb_bodySucceeded j \<and> unlockSucceeded then finish race CopiedNormalState CopiedNormal s
           else finish race CopyFaultState CopyFault s
       | NativeRoute \<Rightarrow>
           if jb_bodySucceeded j \<and> unlockSucceeded
           then finish race OriginalNormalState OriginalNormal s
           else finish race OriginalFaultState OriginalFault s
       | _ \<Rightarrow> rejectInvalid s)"

definition destruct :: "(nat \<Rightarrow> bool) \<Rightarrow> JobLedger \<Rightarrow> JobLedger" where
  "destruct race s =
    (if jb_state (fst s) \<noteq> InvalidState \<and> \<not> isTerminal (fst s)
     then snd (finish race OuterCancelledState OuterCancelled s) else s)"

subsection \<open>The operations\<close>

definition submit :: "u64 \<Rightarrow> JobLedger \<Rightarrow> ControllerResult \<times> JobLedger" where
  "submit generation s =
    (let j = fst s in
     if generation \<noteq> jb_activeGeneration j then rejectStale s
     else if isTerminal j then rejectDoubleTerminal s
     else if jb_state j = Submitted then (AlreadyApplied, s)
     else if jb_state j \<noteq> Frozen then rejectInvalid s
     else (Applied, setJob (\<lambda>j. j\<lparr>jb_state := Submitted\<rparr>) s))"

text \<open>The two reads before the lock and the locked part are one step; gap 2 follows the read of the route.\<close>

definition publishProducerResult ::
  "(nat \<Rightarrow> bool) \<Rightarrow> u64 \<Rightarrow> OwnedProducerResult option \<Rightarrow> JobLedger \<Rightarrow> ControllerResult \<times> JobLedger" where
  "publishProducerResult race generation result s =
    (let j = fst s in
     if generation \<noteq> jb_activeGenerationAtomic j then rejectStale s
     else if jb_routeAuthority j = NativeRoute \<or> jb_routeAuthority j = CancelledRoute
     then (LateProducerReady, Increment lateProducerReadyRejects s)
     else
       case result of
         None \<Rightarrow> rejectKey s
       | Some r \<Rightarrow>
           if \<not> proofComplete r then rejectKey s
           else if generation \<noteq> jb_activeGeneration j then rejectStale s
           else
             let s = contend (race 2) (materializeAtomicRoute s); j = fst s in
             if jb_route j = NativeRoute \<or> isTerminal j
             then (LateProducerReady, Increment lateProducerReadyRejects s)
             else
               case jb_producerResult j of
                 Some p \<Rightarrow> if or_address p = or_address r then (AlreadyPublished, s) else rejectKey s
               | None \<Rightarrow>
                   if jb_state j \<noteq> Submitted \<and> jb_state j \<noteq> BoundToOuter \<and> jb_state j \<noteq> AwaitingKernel
                   then rejectInvalid s
                   else if pf_frozenKey (or_proof r) \<noteq> jb_frozen j \<or>
                      pf_producerGeneration (or_proof r) \<noteq>
                        os_producerGeneration (fk_owner (jb_frozen j)) \<or>
                      pf_outputByteSize (or_proof r) \<noteq> ExpectedOutputBytes (jb_frozen j)
                   then rejectKey s
                   else (Published, incrementAll [producerResultPublications, liveProducerResults]
                          (setJob (\<lambda>j. j\<lparr>jb_producerResult := Some r,
                                        jb_producerPublicationSettled := False\<rparr>) s)))"

definition bindOuter :: "u64 \<Rightarrow> OuterBindingProof \<Rightarrow> JobLedger \<Rightarrow> ControllerResult \<times> JobLedger" where
  "bindOuter generation outer s =
    (let j = fst s in
     if generation \<noteq> jb_activeGeneration j then rejectStale s
     else if isTerminal j then rejectDoubleTerminal s
     else if jb_state j = BoundToOuter then
       (if jb_outer j = outer then (AlreadyApplied, s) else rejectKey s)
     else if jb_state j \<noteq> Submitted then rejectInvalid s
     else if \<not> OuterMatchesFrozen (jb_frozen j) outer then rejectKey s
     else (Applied, setJob (\<lambda>j. j\<lparr>jb_outer := outer, jb_state := BoundToOuter\<rparr>) s))"

definition awaitKernel :: "u64 \<Rightarrow> DestinationProof \<Rightarrow> JobLedger \<Rightarrow> ControllerResult \<times> JobLedger" where
  "awaitKernel generation destination s =
    (let j = fst s in
     if generation \<noteq> jb_activeGeneration j then rejectStale s
     else if isTerminal j then rejectDoubleTerminal s
     else if jb_state j = AwaitingKernel then
       (if jb_destination j = destination then (AlreadyApplied, s) else rejectKey s)
     else if jb_state j \<noteq> BoundToOuter then rejectInvalid s
     else if \<not> DestinationValid (jb_frozen j) (jb_outer j) destination then rejectKey s
     else (Applied, setJob (\<lambda>j. j\<lparr>jb_destination := destination, jb_state := AwaitingKernel,
                                  jb_kernelWindowOpen := True\<rparr>) s))"

text \<open>The decisions that grant no lease.\<close>

definition decision :: "ControllerResult \<Rightarrow> KernelRoute \<Rightarrow> KernelReason \<Rightarrow> bool \<Rightarrow> KernelDecision" where
  "decision result route reason acquired =
    \<lparr>kd_result = result, kd_route = route, kd_reason = reason, kd_nativeBodyLease = bodyLease_init,
     kd_stateLockAcquired = acquired, kd_selectedNow = False\<rparr>"

definition decided :: "KernelRoute \<Rightarrow> KernelDecision" where
  "decided authority =
    (if authority = CancelledRoute then decision InvalidTransition authority WindowClosed True
     else decision AlreadyApplied authority AlreadyDecided True)"

definition selectNativeLocked :: "KernelReason \<Rightarrow> JobLedger \<Rightarrow> KernelDecision \<times> JobLedger" where
  "selectNativeLocked reason s =
    (case selectNativeWithoutWaiting reason True s of (d, s) \<Rightarrow> (d, materializeAtomicRoute s))"

text \<open>
  The part under the lock. Gap 3 lies between the read of the route and the compare-and-swap.
\<close>

definition selectLocked ::
  "(nat \<Rightarrow> bool) \<Rightarrow> u64 \<Rightarrow> u32 \<Rightarrow> JobLedger \<Rightarrow> KernelDecision \<times> JobLedger" where
  "selectLocked race generation currentMxcsr s =
    (let j = fst s; normalizedCurrent = NormalizeMxcsrControl currentMxcsr in
     if generation \<noteq> jb_activeGeneration j \<or> isTerminal j \<or> \<not> jb_kernelWindowOpen j
     then (decision InvalidTransition NoRoute WindowClosed True, Increment invalidTransitionRejects s)
     else if jb_routeAuthority j \<noteq> NoRoute
     then (decided (jb_routeAuthority j), materializeAtomicRoute s)
     else if jb_state j \<noteq> AwaitingKernel
     then (decision InvalidTransition NoRoute WindowClosed True, Increment invalidTransitionRejects s)
     else
       let s = contend (race 3) s in
       case jb_producerResult j of
         None \<Rightarrow> selectNativeLocked ProducerNotReadyReason (Increment producerNotReadyRejects s)
       | Some r \<Rightarrow>
           if \<not> HasSafeMxcsrControl normalizedCurrent \<or>
              normalizedCurrent \<noteq> pf_normalizedMxcsr (or_proof r)
           then selectNativeLocked MxcsrMismatchReason (Increment mxcsrMismatchRejects s)
           else
             let envelope = MintAfterLock (jb_frozen j) (jb_outer j) (jb_destination j) (Some r)
                              (dp_lockSerial (jb_destination j)) currentMxcsr in
             if \<not> envelope_valid envelope then selectNativeLocked EnvelopeMismatch s
             else if jb_routeAuthority (fst s) \<noteq> NoRoute
             then (decided (jb_routeAuthority (fst s)), materializeAtomicRoute s)
             else
               (\<lparr>kd_result = Applied, kd_route = CopyRoute, kd_reason = ReadyProducerResult,
                 kd_nativeBodyLease = bodyLease_init, kd_stateLockAcquired = True, kd_selectedNow = True\<rparr>,
                incrementAll [producerResultClaims, liveProducerClaims, copySelections, liveCopyJobs,
                    outerSettlementsOpened, liveOuterSettlements]
                  (setJob (\<lambda>j. j\<lparr>jb_routeAuthority := CopyRoute, jb_kernelWindowOpen := False,
                      jb_route := CopyRoute, jb_state := CommitClaimed,
                      jb_commitEnvelope := envelope, jb_producerClaimed := True,
                      jb_outerSettlementOpen := True\<rparr>) s)))"

text \<open>\<open>acquired\<close> is the outcome of \<open>try_lock\<close>.\<close>

definition trySelectKernelRoute ::
  "(nat \<Rightarrow> bool) \<Rightarrow> bool \<Rightarrow> u64 \<Rightarrow> u32 \<Rightarrow> JobLedger \<Rightarrow> KernelDecision \<times> JobLedger" where
  "trySelectKernelRoute race acquired generation currentMxcsr s =
    (let j = fst s in
     if generation \<noteq> jb_activeGenerationAtomic j
     then (decision StaleGeneration NoRoute WindowClosed False, Increment staleGenerationRejects s)
     else if \<not> jb_kernelWindowOpen j
     then (decision InvalidTransition NoRoute WindowClosed False, Increment invalidTransitionRejects s)
     else if \<not> acquired then selectNativeWithoutWaiting StateLockContended False s
     else selectLocked race generation currentMxcsr s)"

text \<open>What the copy callback is shown: the bytes, the producer's proof and the envelope.\<close>

record ProducerResultView =
  rv_data :: u32
  rv_bytes :: "u8 list"
  rv_producerProof :: ProducerResultProof
  rv_commitEnvelope :: RenderCommitEnvelopeProof

type_synonym CopyCallback = "ProducerResultView \<Rightarrow> DestinationProof \<Rightarrow> BodyCompletion"

text \<open>The guard of the copy, and the view it then shows.\<close>

definition copyView :: "Job \<Rightarrow> ProducerResultView option" where
  "copyView j =
    (case (jb_producerResult j, jb_commitEnvelope j) of
       (Some r, Some (p, held)) \<Rightarrow>
         if jb_state j \<noteq> CommitClaimed \<or> jb_route j \<noteq> CopyRoute \<or> \<not> proofComplete r \<or>
            \<not> envelope_valid (jb_commitEnvelope j) \<or> ce_producerResult p \<noteq> or_proof r
         then None
         else Some \<lparr>rv_data = or_data r, rv_bytes = or_bytes r, rv_producerProof = or_proof r,
                    rv_commitEnvelope = p\<rparr>
     | _ \<Rightarrow> None)"

definition copyProducerResultUnderLease ::
  "(nat \<Rightarrow> bool) \<Rightarrow> u64 \<Rightarrow> CopyCallback option \<Rightarrow> JobLedger \<Rightarrow> ControllerResult \<times> JobLedger" where
  "copyProducerResultUnderLease race generation callback s =
    (let j = fst s in
     if generation \<noteq> jb_activeGeneration j then rejectStale s
     else if jb_unlockObserved j then (CopyAfterUnlock, Increment copyAfterUnlockRejects s)
     else if isTerminal j then rejectDoubleTerminal s
     else
       case callback of
         None \<Rightarrow> (MissingCopyCallback, s)
       | Some call \<Rightarrow>
           (case copyView j of
              None \<Rightarrow> rejectInvalid s
            | Some view \<Rightarrow>
                let completion = call view (jb_destination j);
                    delta = CaptureMxcsrStatusDelta (bc_mxcsrBefore completion) (bc_mxcsrAfter completion);
                    statusMatches =
                      (md_valid delta \<and> delta = pf_mxcsrStatusDelta (rv_producerProof view));
                    succeeded = (bc_succeeded completion \<and> statusMatches);
                    s = setJob (\<lambda>j. j\<lparr>jb_bodyCompletion := completion, jb_bodyMxcsrStatusDelta := delta,
                          jb_bodySucceeded := succeeded, jb_bodyCompleted := True,
                          jb_state := CopyAwaitingUnlock\<rparr>) s;
                    s = Increment guardedCopies (settleProducerConsumed s);
                    s = (if md_valid delta then Increment mxcsrStatusDeltasRecorded s else s);
                    s = (if \<not> statusMatches then Increment mxcsrStatusDeltaMismatches s else s);
                    s = (if \<not> succeeded then Increment guardedCopyBodyFaults s else s)
                in case finalizeRouteAfterUnlock race s of
                     (finalize, s) \<Rightarrow>
                       if finalize \<noteq> Applied then (finalize, s)
                       else (if statusMatches then Consumed else MxcsrStatusDeltaMismatch, s)))"

text \<open>Gap 2 follows the read of the route.\<close>

definition completeNativeBody ::
  "(nat \<Rightarrow> bool) \<Rightarrow> u64 \<Rightarrow> NativeBodyLease \<Rightarrow> BodyCompletion \<Rightarrow> JobLedger \<Rightarrow>
    ControllerResult \<times> JobLedger" where
  "completeNativeBody race generation lease completion s =
    (if generation \<noteq> jb_activeGeneration (fst s) then rejectStale s
     else
       let s = contend (race 2) (materializeAtomicRoute s); j = fst s in
       if isTerminal j then rejectDoubleTerminal s
       else if jb_route j \<noteq> NativeRoute \<or> \<not> nativeBodyLeaseMatches lease j
       then (InvalidNativeLease, Increment invalidNativeLeaseRejects s)
       else if jb_bodyCompleted j then
         (if jb_bodyCompletion j = completion then (AlreadyApplied, s) else rejectInvalid s)
       else if jb_state j \<noteq> NativeBodyInProgress then rejectInvalid s
       else
         let delta = CaptureMxcsrStatusDelta (bc_mxcsrBefore completion) (bc_mxcsrAfter completion);
             statusValid = (md_valid delta \<and>
               md_normalizedControl delta = pp_floatingPointControl (fk_palette (jb_frozen j)));
             s = setJob (\<lambda>j. j\<lparr>jb_bodyCompletion := completion, jb_bodyMxcsrStatusDelta := delta,
                   jb_bodySucceeded := (bc_succeeded completion \<and> statusValid),
                   jb_bodyCompleted := True, jb_state := NativeAwaitingUnlock\<rparr>) s;
             s = (if jb_nativeBodyLeaseLive (fst s)
                  then Increment nativeBodiesCompleted (Decrement liveNativeBodyLeases
                         (setJob (\<lambda>j. j\<lparr>jb_nativeBodyLeaseLive := False\<rparr>) s))
                  else s);
             s = (if md_valid delta then Increment mxcsrStatusDeltasRecorded s else s);
             s = (if \<not> statusValid then Increment mxcsrStatusDeltaMismatches s else s)
         in case finalizeRouteAfterUnlock race s of
              (finalize, s) \<Rightarrow>
                if finalize \<noteq> Applied then (finalize, s)
                else (if statusValid then Applied else MxcsrStatusDeltaMismatch, s))"

definition noteUnlock ::
  "(nat \<Rightarrow> bool) \<Rightarrow> u64 \<Rightarrow> UnlockProof \<Rightarrow> JobLedger \<Rightarrow> ControllerResult \<times> JobLedger" where
  "noteUnlock race generation unlock s =
    (if generation \<noteq> jb_activeGeneration (fst s) then rejectStale s
     else
       let s = contend (race 2) (materializeAtomicRoute s); j = fst s in
       if \<not> UnlockMatchesDestination (jb_destination j) unlock then rejectKey s
       else if jb_unlockObserved j then
         (if jb_unlock j = unlock then (AlreadyApplied, s) else rejectKey s)
       else
         let s = setJob (\<lambda>j. j\<lparr>jb_unlock := unlock, jb_unlockObserved := True\<rparr>) s;
             s = (if sint (up_result unlock) \<ge> 0 then Increment successfulUnlocks s
                  else Increment failedUnlocks s)
         in if isTerminal j then (Applied, s)
            else
              case jb_route j of
                CopyRoute \<Rightarrow>
                  finalizeRouteAfterUnlock race
                    (if \<not> jb_bodyCompleted j
                     then settleProducerAbandoned (setJob (\<lambda>j. j\<lparr>jb_bodyCompleted := True,
                            jb_bodySucceeded := False, jb_bodyCompletion := completion_init,
                            jb_state := CopyAwaitingUnlock\<rparr>) s)
                     else s)
              | NativeRoute \<Rightarrow> finalizeRouteAfterUnlock race s
              | _ \<Rightarrow> finish race OuterCancelledState OuterCancelled s)"

text \<open>Gap 2 lies between the decision not to defer and the end.\<close>

definition cancelWith ::
  "(nat \<Rightarrow> bool) \<Rightarrow> Terminal \<Rightarrow> u64 \<Rightarrow> JobLedger \<Rightarrow> ControllerResult \<times> JobLedger" where
  "cancelWith race terminal nextGeneration s =
    (let s = materializeAtomicRoute s in
     if shouldDeferCancellation (fst s) then queueDeferredCancellation terminal nextGeneration s
     else
       let s = contend (race 2) s;
           s = (if terminal = ResetCancelled
                then setJob (\<lambda>j. j\<lparr>jb_pendingResetGeneration := nextGeneration\<rparr>) s else s)
       in finish race (deferredState terminal) terminal s)"

definition cancelTemplateMismatch ::
  "(nat \<Rightarrow> bool) \<Rightarrow> u64 \<Rightarrow> JobLedger \<Rightarrow> ControllerResult \<times> JobLedger" where
  "cancelTemplateMismatch race generation s =
    (if generation \<noteq> jb_activeGeneration (fst s) then rejectStale s
     else if isTerminal (fst s) then rejectDoubleTerminal s
     else cancelWith race TemplateMismatch 0 s)"

definition cancelOuter :: "(nat \<Rightarrow> bool) \<Rightarrow> u64 \<Rightarrow> JobLedger \<Rightarrow> ControllerResult \<times> JobLedger" where
  "cancelOuter race generation s =
    (if generation \<noteq> jb_activeGeneration (fst s) then rejectStale s
     else if isTerminal (fst s) then rejectDoubleTerminal s
     else cancelWith race OuterCancelled 0 s)"

definition cancelForReset ::
  "(nat \<Rightarrow> bool) \<Rightarrow> u64 \<Rightarrow> u64 \<Rightarrow> JobLedger \<Rightarrow> ControllerResult \<times> JobLedger" where
  "cancelForReset race generation nextGeneration s =
    (if generation \<noteq> jb_activeGeneration (fst s) then rejectStale s
     else if nextGeneration \<le> generation then rejectInvalid s
     else if isTerminal (fst s) then rejectDoubleTerminal s
     else cancelWith race ResetCancelled nextGeneration s)"

end
