(* ===== verification/SkinInvariant.thy ===== *)
theory SkinInvariant
  imports SkinController
begin

section \<open>CPU skinning controller: the invariant of a job\<close>

text \<open>
  What every operation keeps of one job, whatever selections land in its gaps: how the route, the
  producer result, the destination and the outcome are related. The ledger plays no part here.
\<close>

subsection \<open>What the helpers do to the job\<close>

named_theorems job_parts "the job after a helper, without the ledger"

lemma fst_Increment [simp]: "fst (Increment c s) = fst s" by (cases s) simp
lemma fst_Decrement [simp]: "fst (Decrement c s) = fst s" by (cases s) simp
lemma fst_setJob [simp]: "fst (setJob f s) = f (fst s)" by (cases s) simp

lemma fst_incrementAll [simp]: "fst (incrementAll cs s) = fst s"
  by (induction cs arbitrary: s) (simp_all add: incrementAll_def)

definition abandoned :: "Job \<Rightarrow> Job" where
  "abandoned j =
    j\<lparr>jb_producerPublicationSettled :=
        (jb_producerPublicationSettled j \<or> jb_producerResult j \<noteq> None),
      jb_producerClaimed := (jb_producerClaimed j \<and> jb_producerConsumed j)\<rparr>"

lemma fst_settleProducerAbandoned [job_parts]: "fst (settleProducerAbandoned s) = abandoned (fst s)"
  by (cases "fst s") (auto simp: settleProducerAbandoned_def abandoned_def Let_def)

lemma fst_settleProducerConsumed [job_parts]:
  "fst (settleProducerConsumed s) =
    (if jb_producerResult (fst s) = None \<or> jb_producerPublicationSettled (fst s) then fst s
     else (fst s)\<lparr>jb_producerPublicationSettled := True, jb_producerConsumed := True\<rparr>)"
  by (simp add: settleProducerConsumed_def Let_def)

definition materialized :: "Job \<Rightarrow> Job" where
  "materialized j =
    (if jb_route j \<noteq> NoRoute then j
     else
       case jb_routeAuthority j of
         NativeRoute \<Rightarrow>
           (abandoned (j\<lparr>jb_route := NativeRoute, jb_state := NativeBodyInProgress,
                         jb_outerSettlementOpen := True, jb_nativeBodyLeaseLive := True\<rparr>))
             \<lparr>jb_commitEnvelope := None, jb_producerResult := None\<rparr>
       | CopyRoute \<Rightarrow> j\<lparr>jb_route := CopyRoute\<rparr>
       | _ \<Rightarrow> j)"

lemma fst_materializeAtomicRoute [job_parts]:
  "fst (materializeAtomicRoute s) = materialized (fst s)"
  by (simp add: materializeAtomicRoute_def materialized_def job_parts split: KernelRoute.split)

definition nativeSelected :: "Job \<Rightarrow> Job" where
  "nativeSelected j =
    (if jb_routeAuthority j = NoRoute
     then j\<lparr>jb_routeAuthority := NativeRoute, jb_kernelWindowOpen := False\<rparr> else j)"

lemma fst_selectNative [job_parts]:
  "fst (snd (selectNativeWithoutWaiting reason acquired s)) = nativeSelected (fst s)"
  by (simp add: selectNativeWithoutWaiting_def nativeSelected_def Let_def split: KernelRoute.split)

lemma fst_contend [job_parts]: "fst (contend b s) = (if b then nativeSelected (fst s) else fst s)"
  by (simp add: contend_def job_parts)

lemma fst_abandonLease [job_parts]:
  "fst (abandonLease s) = (fst s)\<lparr>jb_nativeBodyLeaseLive := False\<rparr>"
  by (cases "fst s") (simp add: abandonLease_def)

lemma fst_closeSettlement [job_parts]:
  "fst (closeSettlement s) = (fst s)\<lparr>jb_outerSettlementOpen := False\<rparr>"
  by (cases "fst s") (simp add: closeSettlement_def)

lemma fst_settleRoute [job_parts]: "fst (settleRoute t s) = fst s"
  by (simp add: settleRoute_def Let_def split: KernelRoute.split)

lemma fst_reject [job_parts]:
  "fst (snd (rejectStale s)) = fst s" "fst (snd (rejectInvalid s)) = fst s"
  "fst (snd (rejectKey s)) = fst s" "fst (snd (rejectDoubleTerminal s)) = fst s"
  by (simp_all add: rejectStale_def rejectInvalid_def rejectKey_def rejectDoubleTerminal_def)

text \<open>The job at the end of \<open>finish\<close>, when it ends one.\<close>

definition finished :: "bool \<Rightarrow> ControllerState \<Rightarrow> Terminal \<Rightarrow> Job \<Rightarrow> Job" where
  "finished raced state terminal j =
    (let j = materialized j;
         j = (if raced then nativeSelected j else j);
         j = cancelAuthority (j\<lparr>jb_kernelWindowOpen := False\<rparr>);
         j = (abandoned j)\<lparr>jb_nativeBodyLeaseLive := False, jb_outerSettlementOpen := False,
               jb_state := state, jb_terminal := terminal\<rparr>
     in (applyReset terminal j)\<lparr>jb_deferredTerminal := NoTerminal, jb_pendingResetGeneration := 0,
           jb_commitEnvelope := None, jb_producerResult := None\<rparr>)"

lemma fst_finish [job_parts]:
  "fst (snd (finish race state terminal s)) =
    (if isTerminal (fst s) \<or> terminal = NoTerminal then fst s
     else finished (race 1) state terminal (fst s))"
  by (simp add: finish_def finished_def job_parts Let_def split: option.split)

subsection \<open>The invariant\<close>

definition destinationBound :: "Job \<Rightarrow> bool" where
  "destinationBound j \<longleftrightarrow> DestinationValid (jb_frozen j) (jb_outer j) (jb_destination j)"

definition routes_ok :: "Job \<Rightarrow> bool" where
  "routes_ok j \<longleftrightarrow>
     jb_route j \<noteq> CancelledRoute \<and> (jb_route j = CopyRoute \<longleftrightarrow> jb_routeAuthority j = CopyRoute) \<and>
     (jb_route j = NativeRoute \<longrightarrow> jb_routeAuthority j = NativeRoute) \<and>
     (jb_nativeBodyLeaseLive j \<longrightarrow> jb_route j = NativeRoute) \<and>
     (jb_outerSettlementOpen j \<longrightarrow> jb_route j \<noteq> NoRoute) \<and>
     (jb_bodyCompleted j \<longrightarrow> jb_route j \<noteq> NoRoute) \<and>
     (jb_terminal j \<noteq> NoTerminal \<longrightarrow> jb_routeAuthority j \<noteq> NoRoute) \<and>
     jb_activeGenerationAtomic j = jb_activeGeneration j \<and>
     jb_deferredTerminal j \<in> {NoTerminal, TemplateMismatch, ResetCancelled, OuterCancelled}"

definition producer_ok :: "Job \<Rightarrow> bool" where
  "producer_ok j \<longleftrightarrow>
     (jb_producerClaimed j \<longrightarrow> jb_route j = CopyRoute) \<and>
     (jb_producerConsumed j \<longrightarrow> jb_producerClaimed j \<and> jb_producerPublicationSettled j) \<and>
     (jb_terminal j \<noteq> NoTerminal \<longrightarrow> jb_producerResult j = None \<and>
        (jb_producerClaimed j \<longrightarrow> jb_producerConsumed j)) \<and>
     (jb_route j = NativeRoute \<longrightarrow> jb_producerResult j = None) \<and>
     (jb_route j = NoRoute \<and> jb_producerResult j \<noteq> None \<longrightarrow> \<not> jb_producerPublicationSettled j) \<and>
     (\<forall>r. jb_producerResult j = Some r \<longrightarrow> proofComplete r \<and> pf_frozenKey (or_proof r) = jb_frozen j) \<and>
     (jb_state j = CommitClaimed \<longrightarrow>
        jb_route j = CopyRoute \<and> jb_producerClaimed j \<and> \<not> jb_producerConsumed j \<and>
        \<not> jb_producerPublicationSettled j \<and> jb_terminal j = NoTerminal \<and> \<not> jb_bodyCompleted j \<and>
        (\<exists>r p. jb_producerResult j = Some r \<and> jb_commitEnvelope j = Some (p, r) \<and>
           ce_destination p = jb_destination j \<and> ce_outer p = jb_outer j \<and>
           ce_frozenKey p = jb_frozen j))"

definition window_ok :: "Job \<Rightarrow> bool" where
  "window_ok j \<longleftrightarrow>
     (jb_kernelWindowOpen j \<longrightarrow> jb_routeAuthority j = NoRoute \<and> jb_state j = AwaitingKernel) \<and>
     (jb_state j = AwaitingKernel \<longrightarrow> jb_route j = NoRoute) \<and>
     (jb_state j \<in> {InvalidState, Frozen, Submitted, BoundToOuter} \<longrightarrow>
        jb_routeAuthority j \<noteq> CopyRoute \<and> jb_routeAuthority j \<noteq> NativeRoute) \<and>
     (jb_state j = AwaitingKernel \<or> jb_routeAuthority j = CopyRoute \<or>
      jb_routeAuthority j = NativeRoute \<longrightarrow> destinationBound j)"

definition unlockedWell :: "Job \<Rightarrow> bool" where
  "unlockedWell j \<longleftrightarrow> jb_unlockObserved j \<and> sint (up_result (jb_unlock j)) \<ge> 0"

definition outcome_ok :: "Job \<Rightarrow> bool" where
  "outcome_ok j \<longleftrightarrow>
     (jb_unlockObserved j \<longrightarrow> UnlockMatchesDestination (jb_destination j) (jb_unlock j)) \<and>
     (jb_bodySucceeded j \<longrightarrow> jb_bodyCompleted j \<and> bc_succeeded (jb_bodyCompletion j) \<and>
        md_valid (jb_bodyMxcsrStatusDelta j)) \<and>
     (jb_route j = CopyRoute \<and> jb_bodySucceeded j \<longrightarrow> jb_producerConsumed j) \<and>
     (jb_terminal j = CopiedNormal \<longrightarrow>
        jb_route j = CopyRoute \<and> jb_bodySucceeded j \<and> unlockedWell j) \<and>
     (jb_terminal j = OriginalNormal \<longrightarrow>
        jb_route j = NativeRoute \<and> jb_bodySucceeded j \<and> unlockedWell j) \<and>
     (jb_terminal j = CopyFault \<longrightarrow> jb_route j = CopyRoute \<and> jb_unlockObserved j) \<and>
     (jb_terminal j = OriginalFault \<longrightarrow> jb_route j = NativeRoute \<and> jb_unlockObserved j)"

definition job_ok :: "Job \<Rightarrow> bool" where
  "job_ok j \<longleftrightarrow> routes_ok j \<and> producer_ok j \<and> window_ok j \<and> outcome_ok j"

text \<open>What holds besides between two operations: only a job that ended is cancelled.\<close>

definition between_ok :: "Job \<Rightarrow> bool" where
  "between_ok j \<longleftrightarrow> (jb_terminal j = NoTerminal \<longrightarrow>
     jb_routeAuthority j \<noteq> CancelledRoute \<and> (jb_unlockObserved j \<longrightarrow> jb_route j \<noteq> NoRoute))"

definition job_inv :: "Job \<Rightarrow> bool" where
  "job_inv j \<longleftrightarrow> job_ok j \<and> between_ok j"

lemmas job_ok_defs =
  job_ok_def routes_ok_def producer_ok_def window_ok_def outcome_ok_def destinationBound_def unlockedWell_def

lemma construct_inv: "job_inv (fst (construct frozen generation l))"
  by (simp add: construct_def job_init_def job_inv_def between_ok_def job_ok_defs Let_def)

subsection \<open>Steps every operation is made of\<close>

lemma materialized_ok:
  assumes "job_ok j"
  shows "job_ok (materialized j)"
proof (cases "jb_route j = NoRoute \<and> jb_routeAuthority j = NativeRoute")
  case True
  then have "\<not> jb_producerClaimed j" "\<not> jb_producerConsumed j" "\<not> jb_bodySucceeded j"
    using assms by (auto simp: job_ok_def producer_ok_def routes_ok_def outcome_ok_def)
  with True show ?thesis using assms by (simp add: materialized_def abandoned_def job_ok_defs)
next
  case False
  then have "materialized j = j"
    using assms by (auto simp: materialized_def job_ok_def routes_ok_def split: KernelRoute.split)
  with assms show ?thesis by simp
qed

lemma job_okI: "routes_ok j \<Longrightarrow> producer_ok j \<Longrightarrow> window_ok j \<Longrightarrow> outcome_ok j \<Longrightarrow> job_ok j"
  by (simp add: job_ok_def)

lemma nativeSelected_ok:
  assumes "job_ok j" and "jb_kernelWindowOpen j \<or> jb_routeAuthority j \<noteq> NoRoute"
  shows "job_ok (nativeSelected j)"
proof (cases "jb_routeAuthority j = NoRoute")
  case True
  then have w: "jb_kernelWindowOpen j" using assms(2) by simp
  show ?thesis
  proof (rule job_okI)
    show "routes_ok (nativeSelected j)"
      using assms(1) True by (cases j) (auto simp: job_ok_def routes_ok_def nativeSelected_def)
    show "producer_ok (nativeSelected j)"
      using assms(1) True by (cases j) (auto simp: job_ok_def producer_ok_def nativeSelected_def)
    show "window_ok (nativeSelected j)"
      using assms(1) True w
      by (cases j) (auto simp: job_ok_def window_ok_def nativeSelected_def destinationBound_def)
    show "outcome_ok (nativeSelected j)"
      using assms(1) True
      by (cases j) (simp add: job_ok_def outcome_ok_def nativeSelected_def unlockedWell_def)
  qed
qed (use assms in \<open>simp add: nativeSelected_def\<close>)

lemma materialized_same [simp]:
  "jb_frozen (materialized j) = jb_frozen j" "jb_outer (materialized j) = jb_outer j"
  "jb_destination (materialized j) = jb_destination j" "jb_terminal (materialized j) = jb_terminal j"
  "jb_unlock (materialized j) = jb_unlock j" "jb_unlockObserved (materialized j) = jb_unlockObserved j"
  "jb_bodySucceeded (materialized j) = jb_bodySucceeded j"
  "jb_bodyCompleted (materialized j) = jb_bodyCompleted j"
  "jb_activeGeneration (materialized j) = jb_activeGeneration j"
  "jb_routeAuthority (materialized j) = jb_routeAuthority j"
  "jb_kernelWindowOpen (materialized j) = jb_kernelWindowOpen j"
  by (simp_all add: materialized_def abandoned_def split: KernelRoute.split)

lemma nativeSelected_same [simp]:
  "jb_frozen (nativeSelected j) = jb_frozen j" "jb_outer (nativeSelected j) = jb_outer j"
  "jb_destination (nativeSelected j) = jb_destination j"
  "jb_terminal (nativeSelected j) = jb_terminal j" "jb_route (nativeSelected j) = jb_route j"
  "jb_unlock (nativeSelected j) = jb_unlock j"
  "jb_unlockObserved (nativeSelected j) = jb_unlockObserved j"
  "jb_bodySucceeded (nativeSelected j) = jb_bodySucceeded j"
  "jb_bodyCompleted (nativeSelected j) = jb_bodyCompleted j"
  "jb_activeGeneration (nativeSelected j) = jb_activeGeneration j"
  "jb_state (nativeSelected j) = jb_state j"
  "jb_producerResult (nativeSelected j) = jb_producerResult j"
  by (simp_all add: nativeSelected_def)

lemma destinationBound_same [simp]:
  "destinationBound (materialized j) = destinationBound j"
  "destinationBound (nativeSelected j) = destinationBound j"
  by (simp_all add: destinationBound_def)

text \<open>A selection lands in an operation only while the window was open at its start.\<close>

definition race_ok :: "(nat \<Rightarrow> bool) \<Rightarrow> Job \<Rightarrow> bool" where
  "race_ok race j \<longleftrightarrow> (\<forall>k. race k \<longrightarrow> jb_kernelWindowOpen j \<or> jb_routeAuthority j \<noteq> NoRoute)"

lemma contend_ok: "job_ok (fst s) \<Longrightarrow> race_ok race (fst s) \<Longrightarrow> job_ok (fst (contend (race k) s))"
  by (auto simp: job_parts race_ok_def nativeSelected_ok)

lemma race_ok_same [simp]:
  "race_ok race (materialized j) = race_ok race j" "race_ok race (nativeSelected j)"
  by (simp_all add: race_ok_def nativeSelected_def)

subsection \<open>The end of a job\<close>

text \<open>What must hold of a job before it ends with a given outcome.\<close>

definition outcomeDue :: "Terminal \<Rightarrow> Job \<Rightarrow> bool" where
  "outcomeDue terminal j \<longleftrightarrow>
     (terminal = CopiedNormal \<longrightarrow> jb_route j = CopyRoute \<and> jb_bodySucceeded j \<and> unlockedWell j) \<and>
     (terminal = OriginalNormal \<longrightarrow> jb_route j = NativeRoute \<and> jb_bodySucceeded j \<and> unlockedWell j) \<and>
     (terminal = CopyFault \<longrightarrow> jb_route j = CopyRoute \<and> jb_unlockObserved j) \<and>
     (terminal = OriginalFault \<longrightarrow> jb_route j = NativeRoute \<and> jb_unlockObserved j)"

definition endState :: "ControllerState \<Rightarrow> bool" where
  "endState state \<longleftrightarrow> state \<notin>
     {InvalidState, Frozen, Submitted, BoundToOuter, AwaitingKernel, CommitClaimed}"

lemma cancelAuthority_ok:
  assumes "job_ok j"
  shows "job_ok (cancelAuthority (j\<lparr>jb_kernelWindowOpen := False\<rparr>))" (is "job_ok ?j")
proof -
  have "routes_ok ?j" using assms by (cases j) (auto simp: job_ok_def routes_ok_def cancelAuthority_def)
  moreover have "producer_ok ?j"
    using assms by (cases j) (auto simp: job_ok_def producer_ok_def cancelAuthority_def)
  moreover have "window_ok ?j"
    using assms by (cases j) (simp add: job_ok_def window_ok_def cancelAuthority_def destinationBound_def)
  moreover have "outcome_ok ?j"
    using assms by (cases j) (simp add: job_ok_def outcome_ok_def cancelAuthority_def unlockedWell_def)
  ultimately show ?thesis by (simp add: job_ok_def)
qed

lemma cancelAuthority_same [simp]:
  "jb_routeAuthority (cancelAuthority j) \<noteq> NoRoute" "jb_route (cancelAuthority j) = jb_route j"
  "jb_terminal (cancelAuthority j) = jb_terminal j"
  "jb_bodySucceeded (cancelAuthority j) = jb_bodySucceeded j"
  "jb_unlock (cancelAuthority j) = jb_unlock j"
  "jb_unlockObserved (cancelAuthority j) = jb_unlockObserved j"
  "jb_kernelWindowOpen (cancelAuthority j) = jb_kernelWindowOpen j"
  by (simp_all add: cancelAuthority_def)

lemma end_ok:
  assumes "job_ok j" and "outcomeDue terminal j" and "endState state" and "terminal \<noteq> NoTerminal"
    and "jb_routeAuthority j \<noteq> NoRoute" and "\<not> jb_kernelWindowOpen j"
  shows "job_ok ((applyReset terminal ((abandoned j)\<lparr>jb_nativeBodyLeaseLive := False,
    jb_outerSettlementOpen := False, jb_state := state, jb_terminal := terminal\<rparr>))
      \<lparr>jb_deferredTerminal := NoTerminal, jb_pendingResetGeneration := 0,
       jb_commitEnvelope := None, jb_producerResult := None\<rparr>)" (is "job_ok ?j")
proof -
  note defs = applyReset_def abandoned_def endState_def job_ok_def
  have "routes_ok ?j" using assms by (cases j) (auto simp: defs routes_ok_def)
  moreover have "producer_ok ?j" using assms by (cases j) (auto simp: defs producer_ok_def)
  moreover have "window_ok ?j"
    using assms by (cases j) (simp add: defs window_ok_def destinationBound_def)
  moreover have "outcome_ok ?j"
    using assms by (cases j) (simp add: defs outcome_ok_def outcomeDue_def unlockedWell_def)
  ultimately show ?thesis by (simp add: job_ok_def)
qed

lemma outcomeDue_cong:
  "jb_route j' = jb_route j \<Longrightarrow> jb_bodySucceeded j' = jb_bodySucceeded j \<Longrightarrow>
    jb_unlock j' = jb_unlock j \<Longrightarrow> jb_unlockObserved j' = jb_unlockObserved j \<Longrightarrow>
    outcomeDue terminal j' = outcomeDue terminal j"
  by (simp add: outcomeDue_def unlockedWell_def)

lemma outcomeDue_materialized: "outcomeDue terminal j \<Longrightarrow> outcomeDue terminal (materialized j)"
  by (auto simp: outcomeDue_def unlockedWell_def materialized_def)

lemma finished_ok:
  assumes ok: "job_ok j" and race: "raced \<longrightarrow> jb_kernelWindowOpen j \<or> jb_routeAuthority j \<noteq> NoRoute"
    and due: "outcomeDue terminal j" "endState state" "terminal \<noteq> NoTerminal"
  shows "job_ok (finished raced state terminal j)"
proof -
  define k where "k = (if raced then nativeSelected (materialized j) else materialized j)"
  have k: "job_ok k" "outcomeDue terminal k"
    using materialized_ok [OF ok] nativeSelected_ok [of "materialized j"] race
      outcomeDue_materialized [OF due(1)]
    by (simp_all add: k_def outcomeDue_def unlockedWell_def)
  let ?m = "cancelAuthority (k\<lparr>jb_kernelWindowOpen := False\<rparr>)"
  have "job_ok ?m" by (rule cancelAuthority_ok [OF k(1)])
  moreover have "outcomeDue terminal ?m" using k(2) by (simp add: outcomeDue_def unlockedWell_def)
  ultimately show ?thesis
    using end_ok [of ?m terminal state] due(2,3) by (simp add: finished_def Let_def k_def)
qed

lemma finish_ok:
  assumes "job_ok (fst s)" and "race_ok race (fst s)" and "outcomeDue terminal (fst s)"
    and "endState state"
  shows "job_ok (fst (snd (finish race state terminal s)))"
  using assms finished_ok [of "fst s" "race 1" terminal state]
  by (auto simp: job_parts race_ok_def)

lemma deferredState_end [simp]: "endState (deferredState terminal)"
  by (simp add: deferredState_def endState_def)

lemma cancellation_due:
  "terminal \<in> {NoTerminal, TemplateMismatch, ResetCancelled, OuterCancelled} \<Longrightarrow> outcomeDue terminal j"
  by (auto simp: outcomeDue_def)

lemma finalize_ok:
  assumes "job_ok (fst s)" and "race_ok race (fst s)"
  shows "job_ok (fst (snd (finalizeRouteAfterUnlock race s)))"
proof -
  let ?j = "fst s"
  have d: "jb_deferredTerminal ?j \<in> {NoTerminal, TemplateMismatch, ResetCancelled, OuterCancelled}"
    using assms(1) by (auto simp: job_ok_def routes_ok_def)
  note fin = finish_ok [OF assms]
  have ends: "endState CopiedNormalState" "endState CopyFaultState" "endState OriginalNormalState"
    "endState OriginalFaultState" by (simp_all add: endState_def)
  have "job_ok (fst (snd (finish race (deferredState (jb_deferredTerminal ?j)) (jb_deferredTerminal ?j) s)))"
    by (rule fin [OF cancellation_due [OF d] deferredState_end])
  then show ?thesis
    by (simp add: finalizeRouteAfterUnlock_def Let_def fst_reject assms(1) outcomeDue_def
        unlockedWell_def fin ends split: KernelRoute.split)
qed


subsection \<open>The operations\<close>

lemma finish_terminal:
  "t \<noteq> NoTerminal \<Longrightarrow> jb_terminal (fst (snd (finish race st t s))) \<noteq> NoTerminal"
  by (simp add: job_parts isTerminal_def finished_def Let_def applyReset_def)

lemma finish_inv:
  assumes "job_ok (fst s)" and "race_ok race (fst s)" and "outcomeDue terminal (fst s)"
    and "endState state" and "terminal \<noteq> NoTerminal"
  shows "job_inv (fst (snd (finish race state terminal s)))"
  using finish_ok [OF assms(1-4)] finish_terminal [OF assms(5)] by (simp add: job_inv_def between_ok_def)

lemma finalize_inv:
  assumes "job_inv (fst s)" and "race_ok race (fst s)"
  shows "job_inv (fst (snd (finalizeRouteAfterUnlock race s)))"
proof -
  have ok: "job_ok (fst s)" using assms(1) by (simp add: job_inv_def)
  have "jb_terminal (fst (snd (finalizeRouteAfterUnlock race s))) \<noteq> NoTerminal \<or>
      fst (snd (finalizeRouteAfterUnlock race s)) = fst s"
    by (simp add: finalizeRouteAfterUnlock_def Let_def fst_reject finish_terminal split: KernelRoute.split)
  then show ?thesis
    using finalize_ok [OF ok assms(2)] assms(1) by (auto simp: job_inv_def between_ok_def)
qed

lemma destruct_inv:
  assumes "job_inv (fst s)" and "race_ok race (fst s)"
  shows "job_inv (fst (destruct race s))"
  using assms finish_inv [of s race OuterCancelled OuterCancelledState] cancellation_due [of OuterCancelled]
  by (simp add: destruct_def job_inv_def endState_def)

lemma submit_inv:
  assumes "job_inv (fst s)"
  shows "job_inv (fst (snd (submit generation s)))"
proof -
  have "job_ok (j\<lparr>jb_state := Submitted\<rparr>)" (is "job_ok ?j") if j: "job_ok j" "jb_state j = Frozen" for j
  proof (rule job_okI)
    show "routes_ok ?j" using j by (simp add: job_ok_def routes_ok_def)
    show "producer_ok ?j" using j by (simp add: job_ok_def producer_ok_def)
    show "window_ok ?j" using j by (simp add: job_ok_def window_ok_def destinationBound_def)
    show "outcome_ok ?j" using j by (simp add: job_ok_def outcome_ok_def unlockedWell_def)
  qed
  then show ?thesis using assms by (simp add: submit_def Let_def job_parts job_inv_def between_ok_def)
qed

lemma bindOuter_inv:
  assumes "job_inv (fst s)"
  shows "job_inv (fst (snd (bindOuter generation outer s)))"
proof -
  have "job_ok (j\<lparr>jb_outer := outer, jb_state := BoundToOuter\<rparr>)" (is "job_ok ?j")
    if j: "job_ok j" "jb_state j = Submitted" for j
  proof (rule job_okI)
    show "routes_ok ?j" using j by (simp add: job_ok_def routes_ok_def)
    show "producer_ok ?j" using j by (simp add: job_ok_def producer_ok_def)
    show "window_ok ?j" using j by (simp add: job_ok_def window_ok_def destinationBound_def)
    show "outcome_ok ?j" using j by (simp add: job_ok_def outcome_ok_def unlockedWell_def)
  qed
  then show ?thesis
    using assms by (simp add: bindOuter_def Let_def job_parts job_inv_def between_ok_def)
qed

lemma early_open:
  assumes "job_inv j" and "jb_state j \<in> {InvalidState, Frozen, Submitted, BoundToOuter}"
    and "jb_terminal j = NoTerminal"
  shows "jb_routeAuthority j = NoRoute" "jb_route j = NoRoute" "\<not> jb_unlockObserved j"
proof -
  show a: "jb_routeAuthority j = NoRoute"
    using assms by (cases "jb_routeAuthority j") (auto simp: job_inv_def between_ok_def job_ok_def window_ok_def)
  then show r: "jb_route j = NoRoute"
    using assms by (cases "jb_route j") (auto simp: job_inv_def job_ok_def routes_ok_def)
  then show "\<not> jb_unlockObserved j" using assms by (simp add: job_inv_def between_ok_def)
qed

lemma awaitKernel_inv:
  assumes "job_inv (fst s)"
  shows "job_inv (fst (snd (awaitKernel generation destination s)))"
proof -
  have "job_inv (j\<lparr>jb_destination := destination, jb_state := AwaitingKernel, jb_kernelWindowOpen := True\<rparr>)"
    (is "job_inv ?j")
    if j: "job_inv j" "jb_state j = BoundToOuter" "jb_terminal j = NoTerminal"
      "DestinationValid (jb_frozen j) (jb_outer j) destination" for j
  proof -
    have e: "jb_routeAuthority j = NoRoute" "jb_route j = NoRoute" "\<not> jb_unlockObserved j"
      using early_open [of j] j by simp_all
    have ok: "job_ok j" using j(1) by (simp add: job_inv_def)
    have "job_ok ?j"
    proof (rule job_okI)
      show "routes_ok ?j" using ok e by (simp add: job_ok_def routes_ok_def)
      show "producer_ok ?j" using ok e by (auto simp: job_ok_def producer_ok_def)
      show "window_ok ?j" using j(4) e by (simp add: window_ok_def destinationBound_def)
      show "outcome_ok ?j" using ok e by (simp add: job_ok_def outcome_ok_def unlockedWell_def)
    qed
    then show ?thesis using e j(3) by (simp add: job_inv_def between_ok_def)
  qed
  then show ?thesis using assms by (simp add: awaitKernel_def Let_def job_parts isTerminal_def)
qed

subsection \<open>Operations with gaps\<close>

lemma materialize_inv: "job_inv j \<Longrightarrow> job_inv (materialized j)"
proof -
  assume j: "job_inv j"
  then have "jb_route (materialized j) = NoRoute \<Longrightarrow> jb_route j = NoRoute"
    by (auto simp: materialized_def abandoned_def split: if_splits KernelRoute.splits)
  with j show ?thesis
    by (auto simp: job_inv_def between_ok_def materialized_ok)
qed

lemma nativeSelected_inv:
  assumes "job_inv j" and "jb_kernelWindowOpen j \<or> jb_routeAuthority j \<noteq> NoRoute"
  shows "job_inv (nativeSelected j)"
  using assms nativeSelected_ok [of j] by (simp add: job_inv_def between_ok_def nativeSelected_def)

lemma contend_inv:
  "job_inv (fst s) \<Longrightarrow> race_ok race (fst s) \<Longrightarrow> job_inv (fst (contend (race k) s))"
  by (auto simp: job_parts race_ok_def nativeSelected_inv)

lemma gap_inv:
  assumes "job_inv (fst s)" and "race_ok race (fst s)"
  shows "job_inv (fst (contend (race k) (materializeAtomicRoute s)))"
    and "race_ok race (fst (contend (race k) (materializeAtomicRoute s)))"
proof -
  have m: "job_inv (fst (materializeAtomicRoute s))" "race_ok race (fst (materializeAtomicRoute s))"
    using assms by (simp_all add: job_parts materialize_inv)
  show "job_inv (fst (contend (race k) (materializeAtomicRoute s)))" by (rule contend_inv [OF m])
  show "race_ok race (fst (contend (race k) (materializeAtomicRoute s)))"
    using m(2) by (simp add: job_parts)
qed

lemma unrouted:
  assumes "job_inv j" and "jb_route j = NoRoute"
  shows "\<not> jb_producerConsumed j" "\<not> jb_producerClaimed j" "\<not> jb_bodyCompleted j"
    "\<not> jb_bodySucceeded j" "jb_terminal j = NoTerminal \<Longrightarrow> \<not> jb_unlockObserved j"
  using assms by (auto simp: job_inv_def between_ok_def job_ok_def producer_ok_def routes_ok_def outcome_ok_def)

lemma publish_inv:
  assumes "job_inv (fst s)" and "race_ok race (fst s)"
  shows "job_inv (fst (snd (publishProducerResult race generation result s)))"
proof -
  note gap = gap_inv [OF assms, of 2]
  have "job_inv (j\<lparr>jb_producerResult := Some r, jb_producerPublicationSettled := False\<rparr>)" (is "job_inv ?j")
    if j: "job_inv j" "jb_terminal j = NoTerminal" "proofComplete r"
      "pf_frozenKey (or_proof r) = jb_frozen j"
      "jb_state j \<noteq> Submitted \<longrightarrow> jb_state j \<noteq> BoundToOuter \<longrightarrow> jb_state j = AwaitingKernel" for j r
  proof -
    have ok: "job_ok j" using j(1) by (simp add: job_inv_def)
    have r: "jb_route j = NoRoute"
      using early_open [OF j(1) _ j(2)] j(5) ok by (cases "jb_state j = AwaitingKernel") (auto simp: job_ok_def window_ok_def)
    note u = unrouted [OF j(1) r]
    have "job_ok ?j"
    proof (rule job_okI)
      show "routes_ok ?j" using ok by (simp add: job_ok_def routes_ok_def)
      show "producer_ok ?j" using u r j(2-5) by (auto simp: producer_ok_def)
      show "window_ok ?j" using ok by (simp add: job_ok_def window_ok_def destinationBound_def)
      show "outcome_ok ?j" using ok by (simp add: job_ok_def outcome_ok_def unlockedWell_def)
    qed
    then show ?thesis using j(1) by (simp add: job_inv_def between_ok_def)
  qed
  then show ?thesis
    using gap(1) assms(1)
    by (simp add: publishProducerResult_def Let_def fst_reject isTerminal_def split: option.split)
qed


lemma MintAfterLock_some:
  "MintAfterLock key outer destination result serial mxcsr = Some (p, r) \<Longrightarrow>
    result = Some r \<and> ce_frozenKey p = key \<and> ce_outer p = outer \<and> ce_destination p = destination \<and>
    ce_producerResult p = or_proof r"
  by (auto simp: MintAfterLock_def Let_def split: option.splits if_splits)

lemma copySelected_inv:
  assumes inv: "job_inv j" and j: "jb_state j = AwaitingKernel" "jb_terminal j = NoTerminal"
    and r: "jb_producerResult j = Some r" "\<not> jb_producerPublicationSettled j"
    and e: "envelope = MintAfterLock (jb_frozen j) (jb_outer j) (jb_destination j) (Some r) serial mxcsr"
      "envelope_valid envelope"
  shows "job_inv (j\<lparr>jb_routeAuthority := CopyRoute, jb_kernelWindowOpen := False,
    jb_route := CopyRoute, jb_state := CommitClaimed, jb_commitEnvelope := envelope,
    jb_producerClaimed := True, jb_outerSettlementOpen := True\<rparr>)" (is "job_inv ?j")
proof -
  have ok: "job_ok j" using inv by (simp add: job_inv_def)
  obtain p where p: "envelope = Some (p, r)" "ce_frozenKey p = jb_frozen j" "ce_outer p = jb_outer j"
    "ce_destination p = jb_destination j"
    using e MintAfterLock_some by (cases envelope) (fastforce simp: envelope_valid_def)+
  have route: "jb_route j = NoRoute" using ok j(1) by (simp add: job_ok_def window_ok_def)
  note u = unrouted [OF inv route]
  have "job_ok ?j"
  proof (rule job_okI)
    show "routes_ok ?j" using ok route by (simp add: job_ok_def routes_ok_def)
    show "producer_ok ?j" using ok u r j p by (simp add: job_ok_def producer_ok_def)
    show "window_ok ?j" using ok j by (simp add: job_ok_def window_ok_def destinationBound_def)
    show "outcome_ok ?j" using ok u j by (simp add: job_ok_def outcome_ok_def unlockedWell_def)
  qed
  then show ?thesis by (simp add: job_inv_def between_ok_def)
qed

lemma fst_selectNativeLocked [job_parts]:
  "fst (snd (selectNativeLocked reason s)) = materialized (nativeSelected (fst s))"
  by (simp add: selectNativeLocked_def case_prod_beta job_parts)

lemma selectNativeLocked_inv:
  assumes "job_inv (fst s)" and "jb_kernelWindowOpen (fst s) \<or> jb_routeAuthority (fst s) \<noteq> NoRoute"
  shows "job_inv (fst (snd (selectNativeLocked reason s)))"
  unfolding fst_selectNativeLocked by (rule materialize_inv [OF nativeSelected_inv [OF assms]])

lemma select_inv:
  assumes "job_inv (fst s)" and "race_ok race (fst s)"
  shows "job_inv (fst (snd (trySelectKernelRoute race acquired generation mxcsr s)))"
proof -
  have ok: "job_ok (fst s)" using assms(1) by (simp add: job_inv_def)
  let ?s = "contend (race 3) s"
  have gap: "job_inv (fst ?s)" by (rule contend_inv [OF assms])
  have free: "jb_kernelWindowOpen (fst ?s) \<or> jb_routeAuthority (fst ?s) \<noteq> NoRoute"
    if "jb_kernelWindowOpen (fst s)"
    using that by (simp add: job_parts nativeSelected_def)
  have native: "job_inv (fst (snd (selectNativeLocked reason t)))"
    if "fst t = fst ?s" "jb_kernelWindowOpen (fst s)" for reason t
    using selectNativeLocked_inv [of t] gap free [OF that(2)] that(1) by simp
  have copied: "job_inv ((fst ?s)\<lparr>jb_routeAuthority := CopyRoute, jb_kernelWindowOpen := False,
      jb_route := CopyRoute, jb_state := CommitClaimed, jb_commitEnvelope := e,
      jb_producerClaimed := True, jb_outerSettlementOpen := True\<rparr>)"
    if "jb_state (fst s) = AwaitingKernel" "jb_terminal (fst s) = NoTerminal"
      "jb_producerResult (fst s) = Some r" "jb_routeAuthority (fst ?s) = NoRoute"
      "e = MintAfterLock (jb_frozen (fst s)) (jb_outer (fst s)) (jb_destination (fst s)) (Some r)
         (dp_lockSerial (jb_destination (fst s))) mxcsr" "envelope_valid e" for r e
  proof -
    have "\<not> race 3" using that(4) by (auto simp: job_parts nativeSelected_def split: if_splits)
    then have same: "fst ?s = fst s" by (simp add: job_parts)
    have "\<not> jb_producerPublicationSettled (fst s)"
      using ok that(1,3) by (auto simp: job_ok_def producer_ok_def window_ok_def)
    then show ?thesis unfolding same using copySelected_inv assms(1) that by blast
  qed
  have selected: "job_inv (fst (snd (selectNativeWithoutWaiting reason b s)))"
    if "jb_kernelWindowOpen (fst s)" for reason b
    using nativeSelected_inv [OF assms(1)] that by (simp add: job_parts)
  have locked: "job_inv (fst (snd (selectLocked race g mxcsr s)))" for g
    using assms(1) gap native copied materialize_inv
    by (auto simp: selectLocked_def Let_def isTerminal_def fst_materializeAtomicRoute split: option.split)
  show ?thesis
    using assms(1) selected locked by (simp add: trySelectKernelRoute_def Let_def)
qed

text \<open>The end of a body: the job moves to its last state before the unlock.\<close>

lemma copied_inv:
  assumes inv: "job_inv j" and j: "jb_state j = CommitClaimed"
    and ok: "succeeded \<longrightarrow> bc_succeeded completion \<and> md_valid delta"
  shows "job_inv (j\<lparr>jb_bodyCompletion := completion, jb_bodyMxcsrStatusDelta := delta,
    jb_bodySucceeded := succeeded, jb_bodyCompleted := True, jb_state := CopyAwaitingUnlock,
    jb_producerPublicationSettled := True, jb_producerConsumed := True\<rparr>)" (is "job_inv ?j")
proof -
  have "job_ok j" using inv by (simp add: job_inv_def)
  then have c: "jb_route j = CopyRoute" "jb_producerClaimed j" "jb_terminal j = NoTerminal"
    and r: "routes_ok j" "producer_ok j" "window_ok j" "outcome_ok j"
    using j by (auto simp: job_ok_def producer_ok_def)
  have "job_ok ?j"
  proof (rule job_okI)
    show "routes_ok ?j" using r(1) c by (simp add: routes_ok_def)
    show "producer_ok ?j" using r(2) c by (simp add: producer_ok_def)
    show "window_ok ?j" using r(3) j by (simp add: window_ok_def destinationBound_def)
    show "outcome_ok ?j" using r(4) c ok by (simp add: outcome_ok_def unlockedWell_def)
  qed
  then show ?thesis using inv by (simp add: job_inv_def between_ok_def)
qed

lemma fst_when [simp]: "fst (if b then Increment c s else s) = fst s"
  by simp

lemma copy_inv:
  assumes "job_inv (fst s)" and "race_ok race (fst s)"
  shows "job_inv (fst (snd (copyProducerResultUnderLease race generation callback s)))"
proof (cases "\<exists>call view. callback = Some call \<and> copyView (fst s) = Some view")
  case False
  then show ?thesis
    using assms(1)
    by (auto simp: copyProducerResultUnderLease_def Let_def fst_reject split: option.split)
next
  case True
  then obtain call view where cv: "callback = Some call" "copyView (fst s) = Some view" by blast
  define completion where "completion = call view (jb_destination (fst s))"
  define delta where
    "delta = CaptureMxcsrStatusDelta (bc_mxcsrBefore completion) (bc_mxcsrAfter completion)"
  define matches where
    "matches \<longleftrightarrow> md_valid delta \<and> delta = pf_mxcsrStatusDelta (rv_producerProof view)"
  define succeeded where "succeeded \<longleftrightarrow> bc_succeeded completion \<and> matches"
  define t where "t = setJob (\<lambda>j. j\<lparr>jb_bodyCompletion := completion, jb_bodyMxcsrStatusDelta := delta,
     jb_bodySucceeded := succeeded, jb_bodyCompleted := True, jb_state := CopyAwaitingUnlock\<rparr>) s"
  have st: "jb_state (fst s) = CommitClaimed"
    using cv(2) by (auto simp: copyView_def split: option.splits if_splits)
  have ok: "producer_ok (fst s)" using assms(1) by (simp add: job_inv_def job_ok_def)
  have u: "fst (settleProducerConsumed t) = (fst s)\<lparr>jb_bodyCompletion := completion,
      jb_bodyMxcsrStatusDelta := delta, jb_bodySucceeded := succeeded, jb_bodyCompleted := True,
      jb_state := CopyAwaitingUnlock, jb_producerPublicationSettled := True, jb_producerConsumed := True\<rparr>"
    using ok st by (auto simp: job_parts t_def producer_ok_def)
  have inv: "job_inv (fst (settleProducerConsumed t))"
    unfolding u by (rule copied_inv [OF assms(1) st]) (auto simp: succeeded_def matches_def)
  have race: "race_ok race (fst (settleProducerConsumed t))"
    using assms(2) unfolding u by (simp add: race_ok_def)
  have "job_inv (fst (snd (finalizeRouteAfterUnlock race v)))"
    if "fst v = fst (settleProducerConsumed t)" for v
    using finalize_inv [of v race] inv race that by simp
  then show ?thesis
    using assms(1)
    by (simp add: copyProducerResultUnderLease_def Let_def fst_reject cv case_prod_beta
        flip: completion_def delta_def matches_def succeeded_def t_def)
qed


lemma nativeDone_inv:
  assumes inv: "job_inv j" and j: "jb_state j = NativeBodyInProgress" "jb_route j = NativeRoute"
      "jb_terminal j = NoTerminal"
    and ok: "succeeded \<longrightarrow> bc_succeeded completion \<and> md_valid delta"
  shows "job_inv (j\<lparr>jb_bodyCompletion := completion, jb_bodyMxcsrStatusDelta := delta,
    jb_bodySucceeded := succeeded, jb_bodyCompleted := True, jb_state := NativeAwaitingUnlock,
    jb_nativeBodyLeaseLive := False\<rparr>)" (is "job_inv ?j")
proof -
  have r: "routes_ok j" "producer_ok j" "window_ok j" "outcome_ok j"
    using inv by (simp_all add: job_inv_def job_ok_def)
  have "job_ok ?j"
  proof (rule job_okI)
    show "routes_ok ?j" using r(1) j by (simp add: routes_ok_def)
    show "producer_ok ?j" using r(2) by (simp add: producer_ok_def)
    show "window_ok ?j" using r(3) j by (simp add: window_ok_def destinationBound_def)
    show "outcome_ok ?j" using r(4) j ok by (simp add: outcome_ok_def unlockedWell_def)
  qed
  then show ?thesis using inv by (simp add: job_inv_def between_ok_def)
qed

lemma complete_inv:
  assumes "job_inv (fst s)" and "race_ok race (fst s)"
  shows "job_inv (fst (snd (completeNativeBody race generation lease completion s)))"
proof -
  define u where "u = contend (race 2) (materializeAtomicRoute s)"
  have u: "job_inv (fst u)" "race_ok race (fst u)"
    unfolding u_def by (rule gap_inv [OF assms])+
  define delta where
    "delta = CaptureMxcsrStatusDelta (bc_mxcsrBefore completion) (bc_mxcsrAfter completion)"
  define valid where "valid \<longleftrightarrow> md_valid delta \<and>
    md_normalizedControl delta = pp_floatingPointControl (fk_palette (jb_frozen (fst u)))"
  define j where "j = (fst u)\<lparr>jb_bodyCompletion := completion, jb_bodyMxcsrStatusDelta := delta,
    jb_bodySucceeded := (bc_succeeded completion \<and> valid), jb_bodyCompleted := True,
    jb_state := NativeAwaitingUnlock\<rparr>"
  have "job_inv (fst (snd (finalizeRouteAfterUnlock race v)))"
    if "jb_state (fst u) = NativeBodyInProgress" "jb_route (fst u) = NativeRoute"
      "jb_terminal (fst u) = NoTerminal" "fst v = j\<lparr>jb_nativeBodyLeaseLive := False\<rparr>" for v
  proof (rule finalize_inv)
    show "job_inv (fst v)"
      unfolding that(4) j_def
      using nativeDone_inv [OF u(1) that(1-3), of "bc_succeeded completion \<and> valid" completion delta]
      by (simp add: valid_def)
    show "race_ok race (fst v)" using u(2) unfolding that(4) by (simp add: race_ok_def j_def)
  qed
  moreover have "fst (if jb_nativeBodyLeaseLive (fst w)
      then Increment nativeBodiesCompleted (Decrement liveNativeBodyLeases
             (setJob (\<lambda>j. j\<lparr>jb_nativeBodyLeaseLive := False\<rparr>) w)) else w) =
      (fst w)\<lparr>jb_nativeBodyLeaseLive := False\<rparr>" for w
    by (cases "fst w") simp
  ultimately show ?thesis
    using assms(1) u(1)
    by (simp add: completeNativeBody_def Let_def fst_reject case_prod_beta isTerminal_def j_def
        flip: u_def delta_def valid_def)
qed

lemma unlocked_inv:
  assumes inv: "job_inv j" and "UnlockMatchesDestination (jb_destination j) unlock"
    and "\<not> jb_unlockObserved j"
  shows "job_ok (j\<lparr>jb_unlock := unlock, jb_unlockObserved := True\<rparr>)" (is "job_ok ?j")
proof (rule job_okI)
  have r: "routes_ok j" "producer_ok j" "window_ok j" "outcome_ok j"
    using inv by (simp_all add: job_inv_def job_ok_def)
  show "routes_ok ?j" using r(1) by (simp add: routes_ok_def)
  show "producer_ok ?j" using r(2) by (simp add: producer_ok_def)
  show "window_ok ?j" using r(3) by (simp add: window_ok_def destinationBound_def)
  show "outcome_ok ?j" using r(4) assms(2,3) by (auto simp: outcome_ok_def unlockedWell_def)
qed

lemma copyless_inv:
  assumes inv: "job_inv j" and j: "jb_route j = CopyRoute" "\<not> jb_bodyCompleted j"
      "jb_terminal j = NoTerminal"
  shows "job_inv (abandoned (j\<lparr>jb_bodyCompleted := True, jb_bodySucceeded := False,
    jb_bodyCompletion := completion_init, jb_state := CopyAwaitingUnlock\<rparr>))" (is "job_inv ?j")
proof -
  have r: "routes_ok j" "producer_ok j" "window_ok j" "outcome_ok j"
    using inv by (simp_all add: job_inv_def job_ok_def)
  have "job_ok ?j"
  proof (rule job_okI)
    show "routes_ok ?j" using r(1) j by (simp add: routes_ok_def abandoned_def)
    show "producer_ok ?j" using r(2) j by (auto simp: producer_ok_def abandoned_def)
    show "window_ok ?j" using r(3) j by (auto simp: window_ok_def destinationBound_def abandoned_def)
    show "outcome_ok ?j" using r(4) j by (simp add: outcome_ok_def unlockedWell_def abandoned_def)
  qed
  then show ?thesis using inv by (simp add: job_inv_def between_ok_def abandoned_def)
qed

text \<open>The job and the ledger after an unlock is recorded, and the rest of \<open>noteUnlock\<close>.\<close>

definition unlockCounted :: "UnlockProof \<Rightarrow> JobLedger \<Rightarrow> JobLedger" where
  "unlockCounted unlock u =
    Increment (if 0 \<le> sint (up_result unlock) then successfulUnlocks else failedUnlocks)
      (setJob (\<lambda>j. j\<lparr>jb_unlock := unlock, jb_unlockObserved := True\<rparr>) u)"

definition withoutBody :: "Job \<Rightarrow> Job" where
  "withoutBody j = j\<lparr>jb_bodyCompleted := True, jb_bodySucceeded := False,
     jb_bodyCompletion := completion_init, jb_state := CopyAwaitingUnlock\<rparr>"

lemma fst_unlockCounted [job_parts]:
  "fst (unlockCounted unlock u) = (fst u)\<lparr>jb_unlock := unlock, jb_unlockObserved := True\<rparr>"
  by (simp add: unlockCounted_def)

lemma noteUnlock_rejected:
  assumes "u = contend (race 2) (materializeAtomicRoute s)"
    and "\<not> UnlockMatchesDestination (jb_destination (fst u)) unlock \<or> jb_unlockObserved (fst u)"
  shows "snd (noteUnlock race generation unlock s) \<in> {Increment staleGenerationRejects s,
    Increment keyMismatchRejects u, u}"
  using assms by (auto simp: noteUnlock_def Let_def rejectStale_def rejectKey_def)

lemma noteUnlock_recorded:
  assumes "u = contend (race 2) (materializeAtomicRoute s)"
    and "UnlockMatchesDestination (jb_destination (fst u)) unlock" and "\<not> jb_unlockObserved (fst u)"
  shows "snd (noteUnlock race generation unlock s) =
    (if generation \<noteq> jb_activeGeneration (fst s) then Increment staleGenerationRejects s
     else if isTerminal (fst u) then unlockCounted unlock u
     else
       case jb_route (fst u) of
         CopyRoute \<Rightarrow> snd (finalizeRouteAfterUnlock race
           (if \<not> jb_bodyCompleted (fst u)
            then settleProducerAbandoned (setJob withoutBody (unlockCounted unlock u)) else unlockCounted unlock u))
       | NativeRoute \<Rightarrow> snd (finalizeRouteAfterUnlock race (unlockCounted unlock u))
       | _ \<Rightarrow> snd (finish race OuterCancelledState OuterCancelled (unlockCounted unlock u)))"
proof -
  have w: "withoutBody = (\<lambda>j. j\<lparr>jb_bodyCompleted := True, jb_bodySucceeded := False,
     jb_bodyCompletion := completion_init, jb_state := CopyAwaitingUnlock\<rparr>)"
    by (simp add: withoutBody_def fun_eq_iff)
  show ?thesis
    using assms(2,3)
    by (cases "jb_route (fst u)"; cases "0 \<le> sint (up_result unlock)")
      (simp_all add: noteUnlock_def Let_def isTerminal_def unlockCounted_def w rejectStale_def flip: assms(1))
qed

lemma unlock_inv:
  assumes "job_inv (fst s)" and "race_ok race (fst s)"
  shows "job_inv (fst (snd (noteUnlock race generation unlock s)))"
proof -
  define u where "u = contend (race 2) (materializeAtomicRoute s)"
  have u: "job_inv (fst u)" "race_ok race (fst u)"
    unfolding u_def by (rule gap_inv [OF assms])+
  show ?thesis
  proof (cases "UnlockMatchesDestination (jb_destination (fst u)) unlock \<and> \<not> jb_unlockObserved (fst u)")
    case False
    then show ?thesis
      using noteUnlock_rejected [where race = race and s = s and u = u, OF u_def, of unlock generation] assms(1) u(1) by auto
  next
    case True
    let ?c = "unlockCounted unlock u"
    have ok: "job_ok (fst ?c)" unfolding fst_unlockCounted using True by (intro unlocked_inv [OF u(1)]) simp_all
    have race: "race_ok race (fst ?c)" using u(2) by (simp add: race_ok_def fst_unlockCounted)
    have inv: "job_inv (fst ?c)" if "jb_route (fst u) \<noteq> NoRoute \<or> jb_terminal (fst u) \<noteq> NoTerminal"
      using ok u(1) that by (auto simp: job_inv_def between_ok_def fst_unlockCounted)
    have f: "job_inv (fst (snd (finalizeRouteAfterUnlock race ?c)))" if "jb_route (fst u) \<noteq> NoRoute"
      using finalize_inv inv race that by blast
    have g: "job_inv (fst (snd (finalizeRouteAfterUnlock race (settleProducerAbandoned (setJob withoutBody ?c)))))"
      if "jb_route (fst u) = CopyRoute" "\<not> jb_bodyCompleted (fst u)" "jb_terminal (fst u) = NoTerminal"
    proof (rule finalize_inv)
      show "job_inv (fst (settleProducerAbandoned (setJob withoutBody ?c)))"
        using copyless_inv [of "fst ?c"] inv that by (simp add: job_parts withoutBody_def)
      show "race_ok race (fst (settleProducerAbandoned (setJob withoutBody ?c)))"
        using race by (simp add: job_parts race_ok_def abandoned_def withoutBody_def)
    qed
    have h: "job_inv (fst (snd (finish race OuterCancelledState OuterCancelled ?c)))"
      using finish_inv [of ?c race OuterCancelled OuterCancelledState] ok race
      by (simp add: cancellation_due endState_def)
    show ?thesis
      using True assms(1) f g h inv
      by (cases "jb_route (fst u)") (simp_all add: noteUnlock_recorded [where race = race and s = s and u = u, OF u_def] isTerminal_def)
  qed
qed

lemma queue_inv:
  assumes "job_inv (fst s)" and "jb_route (fst s) \<noteq> NoRoute"
    and "terminal \<in> {TemplateMismatch, ResetCancelled, OuterCancelled}"
  shows "job_inv (fst (snd (queueDeferredCancellation terminal next s)))"
proof -
  have "job_inv (j\<lparr>jb_deferredTerminal := terminal, jb_pendingResetGeneration := next,
      jb_kernelWindowOpen := False\<rparr>)" (is "job_inv ?j") if inv: "job_inv j" for j
  proof -
    have r: "routes_ok j" "producer_ok j" "window_ok j" "outcome_ok j"
      using inv by (simp_all add: job_inv_def job_ok_def)
    have "job_ok ?j"
    proof (rule job_okI)
      show "routes_ok ?j" using r(1) assms(3) by (simp add: routes_ok_def)
      show "producer_ok ?j" using r(2) by (simp add: producer_ok_def)
      show "window_ok ?j" using r(3) by (simp add: window_ok_def destinationBound_def)
      show "outcome_ok ?j" using r(4) by (simp add: outcome_ok_def unlockedWell_def)
    qed
    then show ?thesis using inv by (simp add: job_inv_def between_ok_def)
  qed
  moreover have "fst (snd (queueDeferredCancellation terminal next s)) \<in> {fst s,
      (fst s)\<lparr>jb_deferredTerminal := terminal, jb_pendingResetGeneration := next, jb_kernelWindowOpen := False\<rparr>}"
    by (simp add: queueDeferredCancellation_def Let_def fst_reject)
  ultimately show ?thesis using assms(1) by (metis empty_iff insert_iff)
qed

lemma cancelWith_inv:
  assumes "job_inv (fst s)" and "race_ok race (fst s)"
    and t: "terminal \<in> {TemplateMismatch, ResetCancelled, OuterCancelled}"
  shows "job_inv (fst (snd (cancelWith race terminal next s)))"
proof -
  let ?m = "materializeAtomicRoute s"
  note gap = gap_inv [OF assms(1,2), of 2]
  have m: "job_inv (fst ?m)" using assms(1) by (simp add: fst_materializeAtomicRoute materialize_inv)
  have q: "job_inv (fst (snd (queueDeferredCancellation terminal next ?m)))"
    if "shouldDeferCancellation (fst ?m)"
    using queue_inv [OF m _ t] that by (auto simp: shouldDeferCancellation_def split: if_splits)
  have pending: "job_ok (j\<lparr>jb_pendingResetGeneration := next\<rparr>) = job_ok j" for j
    by (simp add: job_ok_def routes_ok_def producer_ok_def window_ok_def outcome_ok_def
        destinationBound_def unlockedWell_def)
  have f: "job_inv (fst (snd (finish race (deferredState terminal) terminal v)))"
    if "job_ok (fst v)" "race_ok race (fst v)" for v
    using that t by (intro finish_inv cancellation_due) auto
  show ?thesis
    using q f gap pending by (simp add: cancelWith_def Let_def job_inv_def race_ok_def)
qed

lemma cancel_inv:
  assumes "job_inv (fst s)" and "race_ok race (fst s)"
  shows "job_inv (fst (snd (cancelTemplateMismatch race generation s)))"
    and "job_inv (fst (snd (cancelOuter race generation s)))"
    and "job_inv (fst (snd (cancelForReset race generation next s)))"
  using assms by (simp_all add: cancelTemplateMismatch_def cancelOuter_def cancelForReset_def fst_reject
      cancelWith_inv)


end
