(* ===== verification/SkinLedger.thy ===== *)
theory SkinLedger
  imports SkinInvariant
begin

section \<open>CPU skinning controller: the ledger\<close>

text \<open>
  Every operation keeps the equations of the ledger, and, unless a selection lands in gap 1 of the
  end of a job, it keeps each live counter equal to what the jobs still owe to it.
\<close>

lemma snd_setJob [simp]: "snd (setJob f s) = snd s" by (cases s) simp
lemma snd_Increment [simp]: "snd (Increment c s) = (snd s)(c := snd s c + 1)" by (cases s) simp
lemma snd_Decrement [simp]: "snd (Decrement c s) = (snd s)(c := snd s c - 1)" by (cases s) simp

lemma incrementAll_simps [simp]:
  "incrementAll [] s = s" "incrementAll (c # cs) s = incrementAll cs (Increment c s)"
  by (simp_all add: incrementAll_def)

subsection \<open>What a job owes\<close>

definition liveCounters :: "Counter list" where
  "liveCounters = [liveJobs, liveProducerResults, liveProducerClaims, liveCopyJobs, liveNativeJobs,
     liveNativeBodyLeases, liveOuterSettlements]"

text \<open>A native selection that the job has not noticed yet.\<close>

definition inFlight :: "Job \<Rightarrow> bool" where
  "inFlight j \<longleftrightarrow> jb_routeAuthority j = NativeRoute \<and> jb_route j = NoRoute"

definition owes :: "Job \<Rightarrow> Counter \<Rightarrow> bool" where
  "owes j c =
    (case c of
       liveJobs \<Rightarrow> jb_state j \<noteq> InvalidState \<and> jb_terminal j = NoTerminal
     | liveProducerResults \<Rightarrow> jb_producerResult j \<noteq> None \<and> \<not> jb_producerPublicationSettled j
     | liveProducerClaims \<Rightarrow> jb_producerClaimed j \<and> \<not> jb_producerConsumed j
     | liveCopyJobs \<Rightarrow> jb_route j = CopyRoute \<and> jb_terminal j = NoTerminal
     | liveNativeJobs \<Rightarrow> jb_routeAuthority j = NativeRoute \<and> jb_terminal j = NoTerminal
     | liveNativeBodyLeases \<Rightarrow> jb_nativeBodyLeaseLive j \<or> inFlight j
     | liveOuterSettlements \<Rightarrow> jb_outerSettlementOpen j \<or> inFlight j
     | _ \<Rightarrow> False)"

text \<open>
  The books of a job: the equations hold and, if \<open>exact\<close>, each live counter is what the other
  jobs owe, \<open>B\<close>, and what this one does.
\<close>

definition books :: "bool \<Rightarrow> (Counter \<Rightarrow> u64) \<Rightarrow> JobLedger \<Rightarrow> bool" where
  "books exact B s \<longleftrightarrow> closureHolds (snd s) \<and>
     (exact \<longrightarrow> (\<forall>c \<in> set liveCounters. snd s c = B c + of_bool (owes (fst s) c)))"

lemmas books_defs = books_def closureHolds_def terminalJobs_def liveCounters_def

definition neutralCounters :: "Counter list" where
  "neutralCounters = [guardedCopies, guardedCopyBodyFaults, mxcsrStatusDeltasRecorded,
     mxcsrStatusDeltaMismatches, successfulUnlocks, failedUnlocks, deferredResetCancellations,
     deferredOuterCancellations, deferredTemplateCancellations, unselectedCancelled,
     staleGenerationRejects, invalidTransitionRejects, keyMismatchRejects, producerNotReadyRejects,
     lateProducerReadyRejects, copyAfterUnlockRejects, doubleTerminalRejects, mxcsrMismatchRejects,
     invalidNativeLeaseRejects]"

lemma books_neutral:
  assumes "c \<in> set neutralCounters"
  shows "books exact B (Increment c s) = books exact B s"
proof -
  have "closureHolds (l(c := x)) = closureHolds l" for l x
    using assms unfolding neutralCounters_def set_simps insert_iff
    by (elim disjE emptyE) (simp_all add: closureHolds_def terminalJobs_def)
  moreover have "c \<notin> set liveCounters"
    using assms unfolding neutralCounters_def set_simps insert_iff
    by (elim disjE emptyE) (simp_all add: liveCounters_def)
  ultimately show ?thesis by (auto simp: books_def)
qed

lemma books_reject [simp]:
  "books exact B (Increment guardedCopies s) = books exact B s"
  "books exact B (Increment guardedCopyBodyFaults s) = books exact B s"
  "books exact B (Increment mxcsrStatusDeltasRecorded s) = books exact B s"
  "books exact B (Increment mxcsrStatusDeltaMismatches s) = books exact B s"
  "books exact B (Increment successfulUnlocks s) = books exact B s"
  "books exact B (Increment failedUnlocks s) = books exact B s"
  "books exact B (Increment deferredResetCancellations s) = books exact B s"
  "books exact B (Increment deferredOuterCancellations s) = books exact B s"
  "books exact B (Increment deferredTemplateCancellations s) = books exact B s"
  "books exact B (Increment unselectedCancelled s) = books exact B s"
  "books exact B (Increment staleGenerationRejects s) = books exact B s"
  "books exact B (Increment invalidTransitionRejects s) = books exact B s"
  "books exact B (Increment keyMismatchRejects s) = books exact B s"
  "books exact B (Increment producerNotReadyRejects s) = books exact B s"
  "books exact B (Increment lateProducerReadyRejects s) = books exact B s"
  "books exact B (Increment copyAfterUnlockRejects s) = books exact B s"
  "books exact B (Increment doubleTerminalRejects s) = books exact B s"
  "books exact B (Increment mxcsrMismatchRejects s) = books exact B s"
  "books exact B (Increment invalidNativeLeaseRejects s) = books exact B s"
  by (rule books_neutral, simp add: neutralCounters_def)+

text \<open>A change of the job that leaves what it owes.\<close>

lemma books_setJob:
  assumes "books exact B s" and "\<And>c. c \<in> set liveCounters \<Longrightarrow> owes (f (fst s)) c = owes (fst s) c"
  shows "books exact B (setJob f s)"
  using assms by (simp add: books_def)

subsection \<open>The settlements\<close>

lemma books_settleProducerAbandoned:
  "books exact B s \<Longrightarrow> books exact B (settleProducerAbandoned s)"
  by (cases s) (auto simp: settleProducerAbandoned_def Let_def books_defs owes_def inFlight_def algebra_simps)

lemma books_settleProducerConsumed:
  assumes "books exact B s" and "jb_producerClaimed (fst s)" "\<not> jb_producerConsumed (fst s)"
  shows "books exact B (settleProducerConsumed s)"
  using assms
  by (cases s) (auto simp: settleProducerConsumed_def Let_def books_defs owes_def inFlight_def algebra_simps)

lemma books_abandonLease:
  assumes "books exact B s" and "exact \<longrightarrow> \<not> inFlight (fst s)"
  shows "books exact B (abandonLease s)"
  using assms by (cases s) (auto simp: abandonLease_def books_defs owes_def inFlight_def algebra_simps)

lemma books_closeSettlement:
  assumes "books exact B s" and "exact \<longrightarrow> \<not> inFlight (fst s)"
  shows "books exact B (closeSettlement s)"
  using assms by (cases s) (auto simp: closeSettlement_def books_defs owes_def inFlight_def algebra_simps)

lemma books_materialize:
  assumes "books exact B s" and "job_ok (fst s)"
  shows "books exact B (materializeAtomicRoute s)"
proof (cases "jb_route (fst s) = NoRoute \<and> jb_routeAuthority (fst s) = NativeRoute")
  case True
  let ?t = "setJob (\<lambda>j. j\<lparr>jb_route := NativeRoute, jb_state := NativeBodyInProgress,
    jb_outerSettlementOpen := True, jb_nativeBodyLeaseLive := True\<rparr>) s"
  have "jb_state (fst s) \<noteq> InvalidState"
    using True assms(2) by (auto simp: job_ok_def window_ok_def)
  then have "books exact B ?t"
    using True by (intro books_setJob [OF assms(1)]) (auto simp: liveCounters_def owes_def inFlight_def)
  from books_settleProducerAbandoned [OF this]
  have "books exact B (setJob (\<lambda>j. j\<lparr>jb_commitEnvelope := None, jb_producerResult := None\<rparr>)
      (settleProducerAbandoned ?t))"
    by (rule books_setJob) (auto simp: liveCounters_def owes_def inFlight_def job_parts abandoned_def)
  with True show ?thesis by (simp add: materializeAtomicRoute_def)
next
  case False
  then have "materializeAtomicRoute s = s \<or>
      jb_route (fst s) = NoRoute \<and> jb_routeAuthority (fst s) = CopyRoute"
    by (auto simp: materializeAtomicRoute_def split: KernelRoute.split)
  with assms show ?thesis by (auto simp: job_ok_def routes_ok_def)
qed

lemma books_selectNative:
  assumes "books exact B s" and "job_ok (fst s)"
  shows "books exact B (snd (selectNativeWithoutWaiting reason acquired s))"
proof (cases "jb_routeAuthority (fst s) = NoRoute")
  case True
  then have "jb_terminal (fst s) = NoTerminal" "jb_route (fst s) = NoRoute"
    "\<not> jb_nativeBodyLeaseLive (fst s)" "\<not> jb_outerSettlementOpen (fst s)"
    using assms(2) by (cases "jb_route (fst s)"; auto simp: job_ok_def routes_ok_def)+
  with True assms(1) show ?thesis
    by (cases s) (auto simp: selectNativeWithoutWaiting_def Let_def books_defs owes_def inFlight_def
        algebra_simps)
qed (use assms in \<open>auto simp: selectNativeWithoutWaiting_def split: KernelRoute.split\<close>)

lemma books_contend:
  "books exact B s \<Longrightarrow> job_ok (fst s) \<Longrightarrow> books exact B (contend b s)"
  by (simp add: contend_def books_selectNative)

lemma books_gap:
  assumes "books exact B s" and "job_inv (fst s)"
  shows "books exact B (contend b (materializeAtomicRoute s))"
  using assms books_materialize [of exact B s] materialized_ok [of "fst s"]
  by (intro books_contend) (simp_all add: job_inv_def job_parts)

subsection \<open>The end of a job\<close>

definition endCounters :: "Terminal \<Rightarrow> JobLedger \<Rightarrow> JobLedger" where
  "endCounters terminal s =
    settleRoute terminal
      (case terminalCounter terminal of None \<Rightarrow> Decrement liveJobs s
       | Some c \<Rightarrow> Increment c (Decrement liveJobs s))"

lemma closure_end:
  assumes "closureHolds (snd s)" and "terminal \<noteq> NoTerminal" and "outcomeDue terminal (fst s)"
    and "jb_route (fst s) \<noteq> CancelledRoute"
  shows "closureHolds (snd (endCounters terminal s))"
  using assms
  by (cases s; cases terminal; cases "jb_route (fst s)")
    (simp_all add: endCounters_def settleRoute_def closureHolds_def terminalJobs_def outcomeDue_def
      algebra_simps)

lemma live_end:
  "snd (endCounters terminal s) c = snd s c - of_bool (c = liveJobs)
     - of_bool (c = liveCopyJobs \<and> jb_route (fst s) = CopyRoute)
     - of_bool (c = liveNativeJobs \<and> jb_route (fst s) = NativeRoute)"
  if "c \<in> set liveCounters"
  using that
  by (cases terminal; cases "jb_route (fst s)")
    (auto simp: endCounters_def settleRoute_def liveCounters_def Let_def)

lemma fst_endCounters [job_parts]: "fst (endCounters terminal s) = fst s"
  by (simp add: endCounters_def job_parts split: option.split)

lemma books_end:
  assumes b: "books exact B s" and t: "terminal \<noteq> NoTerminal" "outcomeDue terminal (fst s)"
    and ok: "jb_terminal (fst s) = NoTerminal" "jb_route (fst s) \<noteq> CancelledRoute"
    and exact: "exact \<longrightarrow> jb_state (fst s) \<noteq> InvalidState \<and>
       (jb_routeAuthority (fst s) = NativeRoute \<longleftrightarrow> jb_route (fst s) = NativeRoute)"
  shows "books exact B (endCounters terminal (setJob (\<lambda>j. j\<lparr>jb_state := state, jb_terminal := terminal\<rparr>) s))"
    (is "books exact B (endCounters terminal ?t)")
proof -
  have "closureHolds (snd (endCounters terminal ?t))"
    using b t ok by (intro closure_end) (simp_all add: books_def outcomeDue_def unlockedWell_def)
  moreover have "snd (endCounters terminal ?t) c = B c + of_bool (owes (fst ?t) c)"
    if "exact" "c \<in> set liveCounters" for c
  proof -
    have "snd s c = B c + of_bool (owes (fst s) c)" using b that by (simp add: books_def)
    then show ?thesis
      using live_end [OF that(2), of terminal ?t] exact that t ok
      by (auto simp: liveCounters_def owes_def inFlight_def)
  qed
  ultimately show ?thesis by (simp add: books_def job_parts)
qed

lemma books_finish:
  assumes b: "books exact B s" and ok: "job_ok (fst s)" and race: "race_ok race (fst s)"
    and due: "outcomeDue terminal (fst s)"
    and exact: "exact \<longrightarrow> \<not> race 1 \<and> jb_state (fst s) \<noteq> InvalidState"
  shows "books exact B (snd (finish race state terminal s))"
proof (cases "isTerminal (fst s) \<or> terminal = NoTerminal")
  case True
  then show ?thesis using b by (auto simp: finish_def rejectDoubleTerminal_def rejectInvalid_def)
next
  case False
  let ?m = "materializeAtomicRoute s"
  let ?c = "contend (race 1) ?m"
  let ?a = "setJob (\<lambda>j. cancelAuthority (j\<lparr>jb_kernelWindowOpen := False\<rparr>)) ?c"
  let ?p = "settleProducerAbandoned ?a"
  let ?e = "closeSettlement (abandonLease ?p)"
  have mj: "fst ?m = materialized (fst s)" by (simp add: job_parts)
  have m_ok: "job_ok (fst ?m)" unfolding mj by (rule materialized_ok [OF ok])
  have c_ok: "job_ok (fst ?c)" by (rule contend_ok [OF m_ok]) (use race in \<open>simp add: mj\<close>)
  have c: "books exact B ?c" by (rule books_contend [OF books_materialize [OF b ok] m_ok])
  have "owes (cancelAuthority (j\<lparr>jb_kernelWindowOpen := False\<rparr>)) x = owes j x" for j x
    by (cases x) (auto simp: cancelAuthority_def owes_def inFlight_def)
  then have "books exact B ?a" by (intro books_setJob [OF c]) simp
  then have p: "books exact B ?p" by (rule books_settleProducerAbandoned)
  have pj: "fst ?p = abandoned (cancelAuthority ((fst ?c)\<lparr>jb_kernelWindowOpen := False\<rparr>))"
    by (simp add: job_parts)
  have flight: "\<not> inFlight (fst ?p)" "jb_state (fst ?p) \<noteq> InvalidState"
    "jb_routeAuthority (fst ?p) = NativeRoute \<longleftrightarrow> jb_route (fst ?p) = NativeRoute" if exact
  proof -
    have fc: "fst ?c = materialized (fst s)" using exact that by (simp add: job_parts)
    have st: "jb_state (materialized (fst s)) \<noteq> InvalidState"
      using exact that by (auto simp: materialized_def abandoned_def split: KernelRoute.split)
    have native: "jb_routeAuthority (materialized (fst s)) = NativeRoute \<longleftrightarrow>
        jb_route (materialized (fst s)) = NativeRoute"
      using m_ok unfolding mj job_ok_def routes_ok_def
      by (cases "jb_route (fst s)")
        (auto simp: materialized_def abandoned_def split: KernelRoute.splits if_splits)
    show "\<not> inFlight (fst ?p)" "jb_state (fst ?p) \<noteq> InvalidState"
      "jb_routeAuthority (fst ?p) = NativeRoute \<longleftrightarrow> jb_route (fst ?p) = NativeRoute"
      using st native unfolding inFlight_def pj fc by (auto simp: cancelAuthority_def abandoned_def)
  qed
  have e: "books exact B ?e"
    using flight by (intro books_closeSettlement books_abandonLease [OF p]) (auto simp: job_parts inFlight_def)
  have ej: "fst ?e = (fst ?p)\<lparr>jb_nativeBodyLeaseLive := False, jb_outerSettlementOpen := False\<rparr>"
    by (simp add: job_parts)
  have route: "jb_route (fst ?e) = jb_route (materialized (fst s))"
    "jb_terminal (fst ?e) = jb_terminal (fst s)"
    unfolding ej pj by (simp_all add: job_parts abandoned_def)
  have due_e: "outcomeDue terminal (fst ?e)"
    using outcomeDue_materialized [OF due] unfolding ej pj
    by (simp add: job_parts abandoned_def outcomeDue_def unlockedWell_def)
  let ?n = "endCounters terminal (setJob (\<lambda>j. j\<lparr>jb_state := state, jb_terminal := terminal\<rparr>) ?e)"
  have "books exact B ?n"
  proof (rule books_end [OF e _ due_e])
    show "terminal \<noteq> NoTerminal" using False by simp
    show "jb_terminal (fst ?e) = NoTerminal" using False route(2) by (simp add: isTerminal_def)
    show "jb_route (fst ?e) \<noteq> CancelledRoute"
      using m_ok unfolding route(1) mj by (simp add: job_ok_def routes_ok_def)
    show "exact \<longrightarrow> jb_state (fst ?e) \<noteq> InvalidState \<and>
        (jb_routeAuthority (fst ?e) = NativeRoute) = (jb_route (fst ?e) = NativeRoute)"
      using flight unfolding ej by simp
  qed
  moreover have "jb_producerResult (fst ?e) \<noteq> None \<longrightarrow> jb_producerPublicationSettled (fst ?e)"
    unfolding ej pj by (simp add: abandoned_def)
  ultimately have "books exact B (setJob (\<lambda>j. (applyReset terminal j)\<lparr>jb_deferredTerminal := NoTerminal,
      jb_pendingResetGeneration := 0, jb_commitEnvelope := None, jb_producerResult := None\<rparr>) ?n)"
    by (intro books_setJob) (auto simp: liveCounters_def owes_def inFlight_def applyReset_def job_parts)
  then show ?thesis using False by (simp add: finish_def Let_def endCounters_def)
qed

text \<open>What an operation needs of the books: the job is in order and, if they are exact, counted.\<close>

definition entry_ok :: "bool \<Rightarrow> (nat \<Rightarrow> bool) \<Rightarrow> Job \<Rightarrow> bool" where
  "entry_ok exact race j \<longleftrightarrow> job_inv j \<and> race_ok race j \<and>
     (exact \<longrightarrow> \<not> race 1 \<and> jb_state j \<noteq> InvalidState)"

lemma books_finalize:
  assumes b: "books exact B s" and e: "entry_ok exact race (fst s)"
  shows "books exact B (snd (finalizeRouteAfterUnlock race s))"
proof -
  let ?j = "fst s"
  have ok: "job_ok ?j" using e by (simp add: entry_ok_def job_inv_def)
  have d: "jb_deferredTerminal ?j \<in> {NoTerminal, TemplateMismatch, ResetCancelled, OuterCancelled}"
    using ok by (auto simp: job_ok_def routes_ok_def)
  have fin: "books exact B (snd (finish race st t s))" if "outcomeDue t ?j" for t st
    using books_finish [OF b ok _ that] e by (simp add: entry_ok_def)
  have "books exact B (snd (finish race (deferredState (jb_deferredTerminal ?j)) (jb_deferredTerminal ?j) s))"
    by (rule fin [OF cancellation_due [OF d]])
  then show ?thesis
    by (simp add: finalizeRouteAfterUnlock_def Let_def b rejectInvalid_def outcomeDue_def
        unlockedWell_def fin split: KernelRoute.split)
qed

lemma entry_materialized:
  assumes "entry_ok exact race j"
  shows "entry_ok exact race (materialized j)"
proof -
  have "jb_state (materialized j) = InvalidState \<Longrightarrow> jb_state j = InvalidState"
    by (auto simp: materialized_def abandoned_def split: KernelRoute.splits if_splits)
  with assms show ?thesis by (auto simp: entry_ok_def materialize_inv)
qed

lemma entry_gap:
  assumes "entry_ok exact race (fst s)"
  shows "entry_ok exact race (fst (contend (race k) (materializeAtomicRoute s)))"
proof -
  have m: "entry_ok exact race (fst (materializeAtomicRoute s))"
    using entry_materialized [OF assms] by (simp add: job_parts)
  moreover have "job_inv (fst (contend (race k) (materializeAtomicRoute s)))"
    by (rule gap_inv(1)) (use assms in \<open>simp_all add: entry_ok_def\<close>)
  ultimately show ?thesis by (auto simp: entry_ok_def job_parts)
qed

subsection \<open>The operations\<close>

lemma books_destruct:
  assumes "books exact B s" and "entry_ok exact race (fst s)"
  shows "books exact B (destruct race s)"
  using assms books_finish [of exact B s race OuterCancelled OuterCancelledState]
  by (simp add: destruct_def entry_ok_def job_inv_def cancellation_due)

lemma books_submit:
  "books exact B s \<Longrightarrow> books exact B (snd (submit generation s))"
  by (auto simp: submit_def Let_def rejectStale_def rejectDoubleTerminal_def rejectInvalid_def
      intro!: books_setJob) (auto simp: liveCounters_def owes_def inFlight_def)

lemma books_bindOuter:
  "books exact B s \<Longrightarrow> books exact B (snd (bindOuter generation outer s))"
  by (auto simp: bindOuter_def Let_def rejectStale_def rejectDoubleTerminal_def rejectInvalid_def
      rejectKey_def intro!: books_setJob) (auto simp: liveCounters_def owes_def inFlight_def)

lemma books_awaitKernel:
  "books exact B s \<Longrightarrow> books exact B (snd (awaitKernel generation destination s))"
  by (auto simp: awaitKernel_def Let_def rejectStale_def rejectDoubleTerminal_def rejectInvalid_def
      rejectKey_def intro!: books_setJob) (auto simp: liveCounters_def owes_def inFlight_def)

lemma books_publish:
  assumes b: "books exact B s" and e: "entry_ok exact race (fst s)"
  shows "books exact B (snd (publishProducerResult race generation result s))"
proof -
  let ?s = "contend (race 2) (materializeAtomicRoute s)"
  have g: "books exact B ?s" by (rule books_gap [OF b]) (use e in \<open>simp add: entry_ok_def\<close>)
  have p: "books exact B (Increment liveProducerResults (Increment producerResultPublications
      (setJob (\<lambda>j. j\<lparr>jb_producerResult := Some r, jb_producerPublicationSettled := False\<rparr>) t)))"
    if "books exact B t" "jb_producerResult (fst t) = None" for t r
    using that by (cases t) (auto simp: books_defs owes_def inFlight_def algebra_simps)
  show ?thesis
    using g b p
    by (simp add: publishProducerResult_def Let_def rejectStale_def rejectKey_def rejectInvalid_def
        split: option.split)
qed

lemma books_selectNativeLocked:
  assumes "books exact B s" and "job_inv (fst s)"
    and "jb_kernelWindowOpen (fst s) \<or> jb_routeAuthority (fst s) \<noteq> NoRoute"
  shows "books exact B (snd (selectNativeLocked reason s))"
proof -
  have "books exact B (snd (selectNativeWithoutWaiting reason True s))"
    using assms by (intro books_selectNative) (simp_all add: job_inv_def)
  then have "books exact B (materializeAtomicRoute (snd (selectNativeWithoutWaiting reason True s)))"
    by (rule books_materialize)
      (use nativeSelected_ok [of "fst s"] assms in \<open>simp add: job_parts job_inv_def\<close>)
  then show ?thesis by (simp add: selectNativeLocked_def case_prod_beta)
qed

lemma books_select:
  assumes b: "books exact B s" and e: "entry_ok exact race (fst s)"
  shows "books exact B (snd (trySelectKernelRoute race acquired generation mxcsr s))"
proof -
  have inv: "job_inv (fst s)" and race: "race_ok race (fst s)" using e by (simp_all add: entry_ok_def)
  then have ok: "job_ok (fst s)" by (simp add: job_inv_def)
  let ?s = "contend (race 3) s"
  have gap: "books exact B ?s" "job_inv (fst ?s)"
    using books_contend [OF b ok] contend_inv [OF inv race] by simp_all
  have free: "jb_kernelWindowOpen (fst ?s) \<or> jb_routeAuthority (fst ?s) \<noteq> NoRoute"
    if "jb_kernelWindowOpen (fst s)"
    using that by (simp add: job_parts nativeSelected_def)
  have native: "books exact B (snd (selectNativeLocked reason t))"
    if "books exact B t" "fst t = fst ?s" "jb_kernelWindowOpen (fst s)" for reason t
    using books_selectNativeLocked [OF that(1)] gap(2) free [OF that(3)] that(2) by simp
  have mat: "books exact B (materializeAtomicRoute ?s)"
    using books_materialize [OF gap(1)] gap(2) by (simp add: job_inv_def)
  have copied: "books exact B (incrementAll [producerResultClaims, liveProducerClaims, copySelections,
        liveCopyJobs, outerSettlementsOpened, liveOuterSettlements]
      (setJob (\<lambda>j. j\<lparr>jb_routeAuthority := CopyRoute, jb_kernelWindowOpen := False,
         jb_route := CopyRoute, jb_state := CommitClaimed, jb_commitEnvelope := env,
         jb_producerClaimed := True, jb_outerSettlementOpen := True\<rparr>) ?s))"
    if "jb_state (fst s) = AwaitingKernel" "jb_terminal (fst s) = NoTerminal" 
      "jb_routeAuthority (fst ?s) = NoRoute" for env
  proof -
    have "\<not> race 3" using that(3) by (auto simp: job_parts nativeSelected_def split: if_splits)
    then have same: "?s = s" by (simp add: contend_def)
    have r: "jb_route (fst s) = NoRoute" using ok that(1) by (simp add: job_ok_def window_ok_def)
    note u = unrouted [OF inv r]
    have n: "\<not> jb_nativeBodyLeaseLive (fst s)" "\<not> jb_outerSettlementOpen (fst s)"
      using ok r by (auto simp: job_ok_def routes_ok_def)
    show ?thesis
      using b that r u n unfolding same
      by (cases s) (auto simp: books_defs owes_def inFlight_def algebra_simps)
  qed
  have selected: "books exact B (snd (selectNativeWithoutWaiting reason a s))" for reason a
    by (rule books_selectNative [OF b ok])
  have locked: "books exact B (snd (selectLocked race g mxcsr s))" for g
    using b gap native copied mat books_materialize [OF b ok]
    by (auto simp: selectLocked_def Let_def isTerminal_def split: option.split)
  show ?thesis
    using b selected locked by (simp add: trySelectKernelRoute_def Let_def)
qed


lemma books_copy:
  assumes b: "books exact B s" and e: "entry_ok exact race (fst s)"
  shows "books exact B (snd (copyProducerResultUnderLease race generation callback s))"
proof (cases "\<exists>call view. callback = Some call \<and> copyView (fst s) = Some view")
  case False
  then show ?thesis
    using b
    by (auto simp: copyProducerResultUnderLease_def Let_def rejectStale_def rejectDoubleTerminal_def
        rejectInvalid_def split: option.split)
next
  case True
  then obtain call view where cv: "callback = Some call" "copyView (fst s) = Some view" by blast
  define completion where "completion = call view (jb_destination (fst s))"
  define delta where
    "delta = CaptureMxcsrStatusDelta (bc_mxcsrBefore completion) (bc_mxcsrAfter completion)"
  define matches where
    "matches \<longleftrightarrow> md_valid delta \<and> delta = pf_mxcsrStatusDelta (rv_producerProof view)"
  define succeeded where "succeeded \<longleftrightarrow> bc_succeeded completion \<and> matches"
  define t where "t = setJob (\<lambda>j. j\<lparr>jb_bodyCompletion := completion, jb_bodyMxcsrStatusDelta := delta,
     jb_bodySucceeded := succeeded, jb_bodyCompleted := True, jb_state := CopyAwaitingUnlock\<rparr>) s"
  have inv: "job_inv (fst s)" and race: "race_ok race (fst s)" using e by (simp_all add: entry_ok_def)
  have st: "jb_state (fst s) = CommitClaimed"
    using cv(2) by (auto simp: copyView_def split: option.splits if_splits)
  have ok: "producer_ok (fst s)" using inv by (simp add: job_inv_def job_ok_def)
  have "books exact B t"
    unfolding t_def using st by (intro books_setJob [OF b]) (auto simp: liveCounters_def owes_def inFlight_def)
  then have c: "books exact B (settleProducerConsumed t)"
    by (rule books_settleProducerConsumed) (use ok st in \<open>auto simp: t_def producer_ok_def\<close>)
  have u: "fst (settleProducerConsumed t) = (fst s)\<lparr>jb_bodyCompletion := completion,
      jb_bodyMxcsrStatusDelta := delta, jb_bodySucceeded := succeeded, jb_bodyCompleted := True,
      jb_state := CopyAwaitingUnlock, jb_producerPublicationSettled := True, jb_producerConsumed := True\<rparr>"
    using ok st by (auto simp: job_parts t_def producer_ok_def)
  have "job_inv (fst (settleProducerConsumed t))"
    unfolding u by (rule copied_inv [OF inv st]) (auto simp: succeeded_def matches_def)
  then have "entry_ok exact race (fst (settleProducerConsumed t))"
    using e unfolding u by (simp add: entry_ok_def race_ok_def)
  then have f: "books exact B (snd (finalizeRouteAfterUnlock race v))"
    if "books exact B v" "fst v = fst (settleProducerConsumed t)" for v
    using books_finalize [OF that(1)] that(2) by simp
  define z where "z = (let x = Increment guardedCopies (settleProducerConsumed t);
      x = (if md_valid delta then Increment mxcsrStatusDeltasRecorded x else x);
      x = (if \<not> matches then Increment mxcsrStatusDeltaMismatches x else x)
    in if \<not> succeeded then Increment guardedCopyBodyFaults x else x)"
  have "books exact B z = books exact B (settleProducerConsumed t)" "fst z = fst (settleProducerConsumed t)"
    by (simp_all add: z_def Let_def)
  moreover have "snd (copyProducerResultUnderLease race generation callback s) =
      (if jb_unlockObserved (fst s) then Increment copyAfterUnlockRejects s
       else if isTerminal (fst s) then Increment doubleTerminalRejects s
       else snd (finalizeRouteAfterUnlock race z))" if "generation = jb_activeGeneration (fst s)"
    using that
    by (cases "delta = pf_mxcsrStatusDelta (rv_producerProof view)")
      (simp_all add: copyProducerResultUnderLease_def Let_def rejectDoubleTerminal_def cv case_prod_beta
        z_def t_def succeeded_def matches_def flip: completion_def delta_def)
  ultimately show ?thesis
    using b c f
    by (cases "generation = jb_activeGeneration (fst s)")
      (simp_all add: copyProducerResultUnderLease_def rejectStale_def)
qed

lemma books_nativeDone:
  assumes "books exact B s" and "exact \<longrightarrow> \<not> inFlight (fst s)"
  shows "books exact B
    (if jb_nativeBodyLeaseLive (fst s)
     then Increment nativeBodiesCompleted (Decrement liveNativeBodyLeases
            (setJob (\<lambda>j. j\<lparr>jb_nativeBodyLeaseLive := False\<rparr>) s))
     else s)"
  using assms by (cases s) (auto simp: books_defs owes_def inFlight_def algebra_simps)

lemma books_complete:
  assumes b: "books exact B s" and e: "entry_ok exact race (fst s)"
  shows "books exact B (snd (completeNativeBody race generation lease completion s))"
proof -
  define u where "u = contend (race 2) (materializeAtomicRoute s)"
  have u: "books exact B u"
    unfolding u_def by (rule books_gap [OF b]) (use e in \<open>simp add: entry_ok_def\<close>)
  have eu: "entry_ok exact race (fst u)" unfolding u_def by (rule entry_gap [OF e])
  define delta where
    "delta = CaptureMxcsrStatusDelta (bc_mxcsrBefore completion) (bc_mxcsrAfter completion)"
  define valid where "valid \<longleftrightarrow> md_valid delta \<and>
    md_normalizedControl delta = pp_floatingPointControl (fk_palette (jb_frozen (fst u)))"
  define t where "t = setJob (\<lambda>j. j\<lparr>jb_bodyCompletion := completion, jb_bodyMxcsrStatusDelta := delta,
    jb_bodySucceeded := (bc_succeeded completion \<and> valid), jb_bodyCompleted := True,
    jb_state := NativeAwaitingUnlock\<rparr>) u"
  define w where "w =
    (if jb_nativeBodyLeaseLive (fst t)
     then Increment nativeBodiesCompleted (Decrement liveNativeBodyLeases
            (setJob (\<lambda>j. j\<lparr>jb_nativeBodyLeaseLive := False\<rparr>) t)) else t)"
  have fw: "fst w = (fst u)\<lparr>jb_bodyCompletion := completion, jb_bodyMxcsrStatusDelta := delta,
      jb_bodySucceeded := (bc_succeeded completion \<and> valid), jb_bodyCompleted := True,
      jb_state := NativeAwaitingUnlock, jb_nativeBodyLeaseLive := False\<rparr>"
    by (cases "fst u") (simp add: w_def t_def)
  have "books exact B (snd (finalizeRouteAfterUnlock race v))"
    if "jb_state (fst u) = NativeBodyInProgress" "jb_route (fst u) = NativeRoute"
      "jb_terminal (fst u) = NoTerminal" "books exact B v = books exact B w" "fst v = fst w" for v
  proof (rule books_finalize)
    have "books exact B t"
      unfolding t_def using that(1) by (intro books_setJob [OF u]) (auto simp: liveCounters_def owes_def inFlight_def)
    then have "books exact B w"
      unfolding w_def by (rule books_nativeDone) (simp add: t_def inFlight_def that(2))
    then show "books exact B v" using that(4) by simp
    have "job_inv (fst w)"
      unfolding fw using eu by (intro nativeDone_inv that) (auto simp: valid_def entry_ok_def)
    then show "entry_ok exact race (fst v)"
      using eu unfolding that(5) by (simp add: entry_ok_def fw race_ok_def)
  qed
  moreover define z where "z = (let x = (if md_valid delta then Increment mxcsrStatusDeltasRecorded w else w)
    in if \<not> valid then Increment mxcsrStatusDeltaMismatches x else x)"
  moreover have "books exact B z = books exact B w" "fst z = fst w" by (simp_all add: z_def Let_def)
  moreover have "snd (completeNativeBody race generation lease completion s) =
      (if jb_terminal (fst u) \<noteq> NoTerminal then Increment doubleTerminalRejects u
       else if jb_route (fst u) \<noteq> NativeRoute \<or> \<not> nativeBodyLeaseMatches lease (fst u)
       then Increment invalidNativeLeaseRejects u
       else if jb_bodyCompleted (fst u) then
         (if jb_bodyCompletion (fst u) = completion then u else Increment invalidTransitionRejects u)
       else if jb_state (fst u) \<noteq> NativeBodyInProgress then Increment invalidTransitionRejects u
       else snd (finalizeRouteAfterUnlock race z))" if "generation = jb_activeGeneration (fst s)"
    using that
    by (simp add: completeNativeBody_def Let_def rejectDoubleTerminal_def rejectInvalid_def
        case_prod_beta isTerminal_def z_def w_def t_def valid_def flip: u_def delta_def)
  ultimately show ?thesis
    using b u
    by (cases "generation = jb_activeGeneration (fst s)") (simp_all add: completeNativeBody_def rejectStale_def)
qed

lemma books_unlock:
  assumes b: "books exact B s" and e: "entry_ok exact race (fst s)"
  shows "books exact B (snd (noteUnlock race generation unlock s))"
proof -
  define u where "u = contend (race 2) (materializeAtomicRoute s)"
  have bu: "books exact B u"
    unfolding u_def by (rule books_gap [OF b]) (use e in \<open>simp add: entry_ok_def\<close>)
  have eu: "entry_ok exact race (fst u)" unfolding u_def by (rule entry_gap [OF e])
  let ?c = "unlockCounted unlock u"
  have "books exact B (setJob (\<lambda>j. j\<lparr>jb_unlock := unlock, jb_unlockObserved := True\<rparr>) u)"
    by (intro books_setJob [OF bu]) (auto simp: liveCounters_def owes_def inFlight_def)
  then have bc: "books exact B ?c" by (simp add: unlockCounted_def)
  show ?thesis
  proof (cases "UnlockMatchesDestination (jb_destination (fst u)) unlock \<and> \<not> jb_unlockObserved (fst u)")
    case False
    then show ?thesis
      using noteUnlock_rejected [where race = race and s = s and u = u, OF u_def, of unlock generation] b bu by auto
  next
    case True
    have inv: "job_inv (fst u)" using eu by (simp add: entry_ok_def)
    then have ok: "job_ok (fst ?c)" unfolding fst_unlockCounted using True by (intro unlocked_inv) simp_all
    have ec: "entry_ok exact race (fst ?c)" if "jb_route (fst u) \<noteq> NoRoute"
      using ok eu that inv by (simp add: entry_ok_def job_inv_def between_ok_def fst_unlockCounted race_ok_def)
    have f: "books exact B (snd (finalizeRouteAfterUnlock race ?c))" if "jb_route (fst u) \<noteq> NoRoute"
      by (rule books_finalize [OF bc ec [OF that]])
    have g: "books exact B (snd (finalizeRouteAfterUnlock race (settleProducerAbandoned (setJob withoutBody ?c))))"
      if r: "jb_route (fst u) = CopyRoute" "\<not> jb_bodyCompleted (fst u)" "jb_terminal (fst u) = NoTerminal"
    proof (rule books_finalize)
      have st: "jb_state (fst u) \<noteq> InvalidState"
        using inv r(1) by (auto simp: job_inv_def job_ok_def routes_ok_def window_ok_def)
      have "books exact B (setJob withoutBody ?c)"
        by (intro books_setJob [OF bc])
          (auto simp: liveCounters_def owes_def inFlight_def fst_unlockCounted st withoutBody_def)
      then show "books exact B (settleProducerAbandoned (setJob withoutBody ?c))"
        by (rule books_settleProducerAbandoned)
      have "job_inv (abandoned (withoutBody (fst ?c)))"
        using copyless_inv [of "fst ?c"] ec r by (simp add: fst_unlockCounted entry_ok_def withoutBody_def)
      then show "entry_ok exact race (fst (settleProducerAbandoned (setJob withoutBody ?c)))"
        using ec r(1) by (simp add: entry_ok_def job_parts abandoned_def race_ok_def withoutBody_def)
    qed
    have h: "books exact B (snd (finish race OuterCancelledState OuterCancelled ?c))"
      using eu by (intro books_finish [OF bc ok]) (auto simp: cancellation_due entry_ok_def fst_unlockCounted race_ok_def)
    show ?thesis
      using True b bc f g h
      by (cases "jb_route (fst u)") (simp_all add: noteUnlock_recorded [where race = race and s = s and u = u, OF u_def] isTerminal_def)
  qed
qed

lemma books_cancelWith:
  assumes b: "books exact B s" and e: "entry_ok exact race (fst s)"
    and t: "terminal \<in> {TemplateMismatch, ResetCancelled, OuterCancelled}"
  shows "books exact B (snd (cancelWith race terminal next s))"
proof -
  have ok: "job_ok (fst s)" using e by (simp add: entry_ok_def job_inv_def)
  let ?m = "materializeAtomicRoute s"
  let ?u = "contend (race 2) ?m"
  have m: "books exact B ?m" by (rule books_materialize [OF b ok])
  have u: "books exact B ?u" by (rule books_gap [OF b]) (use e in \<open>simp add: entry_ok_def\<close>)
  have eu: "entry_ok exact race (fst ?u)" by (rule entry_gap [OF e])
  have q: "books exact B (snd (queueDeferredCancellation terminal next ?m))"
  proof -
    have "books exact B (setJob (\<lambda>j. j\<lparr>jb_deferredTerminal := terminal,
        jb_pendingResetGeneration := next, jb_kernelWindowOpen := False\<rparr>) ?m)"
      by (intro books_setJob [OF m]) (auto simp: liveCounters_def owes_def inFlight_def)
    then show ?thesis
      using m by (cases terminal) (simp_all add: queueDeferredCancellation_def Let_def rejectInvalid_def)
  qed
  have p: "books exact B (setJob (\<lambda>j. j\<lparr>jb_pendingResetGeneration := next\<rparr>) ?u)"
    by (intro books_setJob [OF u]) (auto simp: liveCounters_def owes_def inFlight_def)
  have pending: "job_ok (j\<lparr>jb_pendingResetGeneration := next\<rparr>) = job_ok j" for j
    by (simp add: job_ok_def routes_ok_def producer_ok_def window_ok_def outcome_ok_def
        destinationBound_def unlockedWell_def)
  have f: "books exact B (snd (finish race (deferredState terminal) terminal v))"
    if "books exact B v" "job_ok (fst v)" "race_ok race (fst v)" "exact \<longrightarrow> \<not> race 1 \<and> jb_state (fst v) \<noteq> InvalidState" for v
    using that t by (intro books_finish cancellation_due) auto
  show ?thesis
    using q f [OF u] f [OF p] eu pending
    by (cases "terminal = ResetCancelled")
      (simp_all add: cancelWith_def Let_def entry_ok_def job_inv_def race_ok_def)
qed

lemma books_cancel:
  assumes "books exact B s" and "entry_ok exact race (fst s)"
  shows "books exact B (snd (cancelTemplateMismatch race generation s))"
    and "books exact B (snd (cancelOuter race generation s))"
    and "books exact B (snd (cancelForReset race generation next s))"
  using assms by (simp_all add: cancelTemplateMismatch_def cancelOuter_def cancelForReset_def
      rejectStale_def rejectInvalid_def rejectDoubleTerminal_def books_cancelWith)


end
