(* ===== verification/SkinSafety.thy ===== *)
theory SkinSafety
  imports SkinLedger
begin

section \<open>CPU skinning controller: jobs over one ledger\<close>

text \<open>
  The runs of any number of jobs that share a ledger, and what holds in all of them: the equations of
  the ledger, the single outcome of a job, the write window of the copy, the protection of a native
  body; and the two runs in which the code does not keep its accounts.
\<close>

subsection \<open>Runs\<close>

datatype jobOp =
    SubmitOp u64
  | PublishOp u64 "OwnedProducerResult option"
  | BindOp u64 OuterBindingProof
  | AwaitOp u64 DestinationProof
  | SelectOp bool u64 u32
  | CopyOp u64 "CopyCallback option"
  | CompleteOp u64 NativeBodyLease BodyCompletion
  | UnlockOp u64 UnlockProof
  | CancelTemplateOp u64
  | CancelOuterOp u64
  | CancelResetOp u64 u64
  | DestructOp

definition stepJob :: "(nat \<Rightarrow> bool) \<Rightarrow> jobOp \<Rightarrow> JobLedger \<Rightarrow> JobLedger" where
  "stepJob race opn s =
    (case opn of
       SubmitOp g \<Rightarrow> snd (submit g s)
     | PublishOp g r \<Rightarrow> snd (publishProducerResult race g r s)
     | BindOp g outer \<Rightarrow> snd (bindOuter g outer s)
     | AwaitOp g destination \<Rightarrow> snd (awaitKernel g destination s)
     | SelectOp acquired g mxcsr \<Rightarrow> snd (trySelectKernelRoute race acquired g mxcsr s)
     | CopyOp g callback \<Rightarrow> snd (copyProducerResultUnderLease race g callback s)
     | CompleteOp g lease completion \<Rightarrow> snd (completeNativeBody race g lease completion s)
     | UnlockOp g unlock \<Rightarrow> snd (noteUnlock race g unlock s)
     | CancelTemplateOp g \<Rightarrow> snd (cancelTemplateMismatch race g s)
     | CancelOuterOp g \<Rightarrow> snd (cancelOuter race g s)
     | CancelResetOp g n \<Rightarrow> snd (cancelForReset race g n s)
     | DestructOp \<Rightarrow> destruct race s)"

text \<open>
  A run with \<open>orderly\<close> has no selection in gap 1 of the end of a job and operates only on jobs that
  their constructor accepted.
\<close>

inductive run :: "bool \<Rightarrow> Job list \<times> Ledger \<Rightarrow> bool" for orderly where
  run_init: "run orderly ([], ledger_init)"
| run_create: "run orderly (js, l) \<Longrightarrow> construct frozen g l = (j, l') \<Longrightarrow> run orderly (js @ [j], l')"
| run_step: "run orderly (js, l) \<Longrightarrow> i < length js \<Longrightarrow> race_ok race (js ! i) \<Longrightarrow>
    orderly \<longrightarrow> \<not> race 1 \<and> jb_state (js ! i) \<noteq> InvalidState \<Longrightarrow>
    stepJob race opn (js ! i, l) = (j, l') \<Longrightarrow> run orderly (js[i := j], l')"

inductive_cases run_stepE: "run orderly (js, l)"

lemma stepJob_inv:
  assumes "job_inv (fst s)" and "race_ok race (fst s)"
  shows "job_inv (fst (stepJob race opn s))"
  using assms
  by (cases opn) (simp_all add: stepJob_def submit_inv publish_inv bindOuter_inv awaitKernel_inv
      select_inv copy_inv complete_inv unlock_inv cancel_inv destruct_inv)

lemma stepJob_books:
  assumes "books exact B s" and "entry_ok exact race (fst s)"
  shows "books exact B (stepJob race opn s)"
  using assms
  by (cases opn) (simp_all add: stepJob_def books_submit books_publish books_bindOuter books_awaitKernel
      books_select books_copy books_complete books_unlock books_cancel books_destruct)

lemma construct_books:
  assumes "books exact B (j, l)" and "\<And>c. c \<in> set liveCounters \<Longrightarrow> \<not> owes j c"
  shows "books exact B (construct frozen g l)"
proof -
  have "\<not> owes (job_init frozen g) c" for c
    by (simp add: owes_def job_init_def inFlight_def split: Counter.split)
  moreover have "c \<in> set liveCounters \<Longrightarrow>
      owes ((job_init frozen g)\<lparr>jb_state := Frozen\<rparr>) c \<longleftrightarrow> c = liveJobs" for c
    by (auto simp: liveCounters_def owes_def job_init_def inFlight_def)
  ultimately show ?thesis
    using assms by (auto simp: construct_def Let_def books_def closureHolds_def terminalJobs_def
        liveCounters_def algebra_simps)
qed

definition owed :: "Job list \<Rightarrow> Counter \<Rightarrow> u64" where
  "owed js c = (\<Sum>j\<leftarrow>js. of_bool (owes j c))"

lemma owed_update:
  assumes "i < length js"
  shows "owed (js[i := j]) c = owed js c - of_bool (owes (js ! i) c) + of_bool (owes j c)"
  using assms
proof (induction js arbitrary: i)
  case (Cons k js)
  then show ?case by (cases i) (simp_all add: owed_def)
qed simp

definition accounts :: "bool \<Rightarrow> Job list \<times> Ledger \<Rightarrow> bool" where
  "accounts exact w \<longleftrightarrow> list_all job_inv (fst w) \<and> closureHolds (snd w) \<and>
     (exact \<longrightarrow> (\<forall>c \<in> set liveCounters. snd w c = owed (fst w) c))"

lemma run_accounts: "run exact w \<Longrightarrow> accounts exact w"
proof (induction rule: run.induct)
  case run_init
  show ?case by (simp add: accounts_def owed_def ledger_init_def closureHolds_def terminalJobs_def)
next
  case (run_create js l frozen g j l')
  have "books exact (owed js) (construct frozen g l)"
  proof (rule construct_books)
    show "books exact (owed js) (job_init frozen g, l)"
      using run_create.IH by (simp add: accounts_def books_def owes_def job_init_def inFlight_def split: Counter.split)
    show "\<not> owes (job_init frozen g) c" for c
      by (simp add: owes_def job_init_def inFlight_def split: Counter.split)
  qed
  then show ?case
    using run_create.IH run_create.hyps(2) construct_inv [of frozen g l]
    by (simp add: accounts_def books_def owed_def)
next
  case (run_step js l i race opn j l')
  have inv: "job_inv (js ! i)" using run_step.IH run_step.hyps(2) by (simp add: accounts_def list_all_length)
  let ?B = "\<lambda>c. owed js c - of_bool (owes (js ! i) c)"
  have "books exact ?B (stepJob race opn (js ! i, l))"
    using run_step inv by (intro stepJob_books) (simp_all add: accounts_def books_def entry_ok_def)
  moreover have "job_inv j"
    using stepJob_inv [of "(js ! i, l)" race opn] inv run_step.hyps by simp
  ultimately show ?case
    using run_step.IH run_step.hyps(2,5)
    by (auto simp: accounts_def books_def owed_update list_all_length nth_list_update)
qed

text \<open>
  C5. The ledger closes: in every run of any number of jobs over one ledger, whatever selections land
  inside other operations, the eight equations between the counters hold modulo \<open>2 ^ 64\<close> after each
  operation.
\<close>

theorem ledger_always_closes:
  assumes "run orderly (js, l)"
  shows "closureHolds l"
  using run_accounts [OF assms] by (simp add: accounts_def)

subsection \<open>A job ends once\<close>

text \<open>The parts of a job that are fixed once it has ended, and once its route is decided.\<close>

definition decidedSame :: "Job \<Rightarrow> Job \<Rightarrow> bool" where
  "decidedSame j j' \<longleftrightarrow>
     jb_frozen j' = jb_frozen j \<and>
     (jb_terminal j \<noteq> NoTerminal \<longrightarrow> jb_terminal j' = jb_terminal j \<and>
        jb_activeGeneration j' = jb_activeGeneration j) \<and>
     (jb_routeAuthority j \<noteq> NoRoute \<longrightarrow> jb_routeAuthority j' = jb_routeAuthority j)"

lemma decided_refl [simp]: "decidedSame j j"
  by (simp add: decidedSame_def)

lemma decided_trans: "decidedSame j j' \<Longrightarrow> decidedSame j' j'' \<Longrightarrow> decidedSame j j''"
  by (simp add: decidedSame_def)

lemma decided_materialized [simp]: "decidedSame j (materialized j)"
  by (simp add: decidedSame_def)

lemma decided_nativeSelected [simp]: "decidedSame j (nativeSelected j)"
  by (simp add: decidedSame_def) (simp add: nativeSelected_def)

lemma nativeSelected_idem [simp]: "nativeSelected (nativeSelected j) = nativeSelected j"
  by (simp add: nativeSelected_def)

lemma decided_gap: "decidedSame (fst s) (fst (contend b (materializeAtomicRoute s)))"
  by (auto simp: job_parts intro: decided_trans [OF decided_materialized])

lemma decided_finished:
  "jb_terminal j = NoTerminal \<Longrightarrow> decidedSame j (finished raced st t j)"
proof -
  assume n: "jb_terminal j = NoTerminal"
  let ?k = "if raced then nativeSelected (materialized j) else materialized j"
  have "jb_routeAuthority j \<noteq> NoRoute \<Longrightarrow> jb_routeAuthority ?k = jb_routeAuthority j"
    by (simp add: nativeSelected_def)
  with n show ?thesis
    by (auto simp: decidedSame_def finished_def Let_def applyReset_def abandoned_def cancelAuthority_def)
qed

lemma decided_finish: "decidedSame (fst s) (fst (snd (finish race st t s)))"
  by (simp add: job_parts isTerminal_def decided_finished)

lemma decided_finalize: "decidedSame (fst s) (fst (snd (finalizeRouteAfterUnlock race s)))"
  by (simp add: finalizeRouteAfterUnlock_def Let_def fst_reject decided_finish split: KernelRoute.split)

text \<open>An update of the job that leaves these parts, and a helper after it.\<close>

lemma decided_via:
  "decidedSame j (fst s) \<Longrightarrow> decidedSame (fst s) (fst t) \<Longrightarrow> decidedSame j (fst t)"
  by (rule decided_trans)

lemma decided_fields:
  "jb_frozen j' = jb_frozen j \<Longrightarrow> jb_terminal j' = jb_terminal j \<Longrightarrow>
    jb_activeGeneration j' = jb_activeGeneration j \<Longrightarrow> jb_routeAuthority j' = jb_routeAuthority j \<Longrightarrow>
    decidedSame j j'"
  by (simp add: decidedSame_def)

lemma decided_select:
  "decidedSame (fst s) (fst (snd (trySelectKernelRoute race acquired g mxcsr s)))"
proof -
  have s: "decidedSame (fst s) (materialized (nativeSelected (fst (contend b s))))" for b
    by (auto simp: job_parts intro: decided_trans [OF decided_nativeSelected] decided_trans [OF _ decided_materialized])
  have m: "decidedSame (fst s) (materialized (fst (contend b s)))" for b
    by (auto simp: job_parts intro: decided_trans [OF decided_nativeSelected])
  show ?thesis
    using s m
    by (auto simp: trySelectKernelRoute_def selectLocked_def Let_def job_parts(1-13) fst_selectNativeLocked
        split: option.split)
       (auto simp: decidedSame_def)
qed


lemma decided_copy: "decidedSame (fst s) (fst (snd (copyProducerResultUnderLease race g callback s)))"
proof -
  have f: "decidedSame (fst s) (fst (snd (finalizeRouteAfterUnlock race t)))"
    if "decidedSame (fst s) (fst t)" for t
    by (rule decided_trans [OF that decided_finalize])
  show ?thesis
    by (auto simp: copyProducerResultUnderLease_def Let_def fst_reject case_prod_beta job_parts(2)
        split: option.split intro!: f decided_fields)
qed

lemma decided_complete: "decidedSame (fst s) (fst (snd (completeNativeBody race g lease completion s)))"
proof -
  have f: "decidedSame (fst s) (fst (snd (finalizeRouteAfterUnlock race t)))"
    if "decidedSame (fst (contend (race 2) (materializeAtomicRoute s))) (fst t)" for t
    by (rule decided_trans [OF decided_trans [OF decided_gap that] decided_finalize])
  show ?thesis
    by (auto simp: completeNativeBody_def Let_def fst_reject case_prod_beta decided_gap
        intro!: f decided_fields)
qed

lemma decided_unlock: "decidedSame (fst s) (fst (snd (noteUnlock race g unlock s)))"
proof -
  define u where "u = contend (race 2) (materializeAtomicRoute s)"
  have u: "decidedSame (fst s) (fst u)" unfolding u_def by (rule decided_gap)
  have "decidedSame (fst u) (fst (unlockCounted unlock u))"
    by (rule decided_fields) (simp_all add: fst_unlockCounted)
  then have c: "decidedSame (fst s) (fst (unlockCounted unlock u))" by (rule decided_trans [OF u])
  have "decidedSame j (abandoned (withoutBody j))" for j
    by (rule decided_fields) (simp_all add: abandoned_def withoutBody_def)
  then have w: "decidedSame (fst s) (fst (settleProducerAbandoned (setJob withoutBody (unlockCounted unlock u))))"
    using decided_trans [OF c] by (simp add: job_parts(1))
  show ?thesis
  proof (cases "UnlockMatchesDestination (jb_destination (fst u)) unlock \<and> \<not> jb_unlockObserved (fst u)")
    case False
    then show ?thesis using noteUnlock_rejected [where race = race and s = s and u = u, OF u_def, of unlock g] u by auto
  next
    case True
    then show ?thesis
      using c w decided_trans [OF c decided_finalize] decided_trans [OF w decided_finalize]
        decided_trans [OF c decided_finish]
      by (cases "jb_route (fst u)") (simp_all add: noteUnlock_recorded [where race = race and s = s and u = u, OF u_def])
  qed
qed

lemma decided_cancelWith: "decidedSame (fst s) (fst (snd (cancelWith race t n s)))"
proof -
  have m: "decidedSame (fst s) (fst (materializeAtomicRoute s))" by (simp add: job_parts)
  have q: "decidedSame (fst v) (fst (snd (queueDeferredCancellation t n v)))" for v
    by (simp add: queueDeferredCancellation_def Let_def fst_reject decided_fields)
  have f: "decidedSame (fst s) (fst (snd (finish race a b v)))"
    if "decidedSame (fst (contend (race 2) (materializeAtomicRoute s))) (fst v)" for a b v
    by (rule decided_trans [OF decided_trans [OF decided_gap that] decided_finish])
  have p: "decidedSame j (j\<lparr>jb_pendingResetGeneration := n\<rparr>)" for j by (rule decided_fields) simp_all
  show ?thesis
    using f [OF decided_refl] f [of "setJob (\<lambda>j. j\<lparr>jb_pendingResetGeneration := n\<rparr>)
        (contend (race 2) (materializeAtomicRoute s))"] p decided_trans [OF m q]
    by (cases "t = ResetCancelled") (simp_all add: cancelWith_def Let_def)
qed

lemma decided_step: "decidedSame (fst s) (fst (stepJob race opn s))"
proof (cases opn)
  case (PublishOp g r)
  let ?u = "contend (race 2) (materializeAtomicRoute s)"
  have "decidedSame (fst s) ((fst ?u)\<lparr>jb_producerResult := Some q, jb_producerPublicationSettled := False\<rparr>)"
    for q
    by (rule decided_trans [OF decided_gap [of s "race 2"]]) (simp add: decided_fields)
  then show ?thesis
    unfolding PublishOp
    by (simp add: stepJob_def publishProducerResult_def Let_def fst_reject decided_gap split: option.split)
qed (auto simp: stepJob_def submit_def bindOuter_def awaitKernel_def Let_def fst_reject decided_select
    decided_copy decided_complete decided_unlock cancelTemplateMismatch_def cancelOuter_def
    cancelForReset_def decided_cancelWith destruct_def decided_finish intro!: decided_fields)


subsection \<open>Nothing is left behind\<close>

text \<open>A job that ended owes no lease and no settlement, and cannot come to owe one.\<close>

definition quietJob :: "Job \<Rightarrow> bool" where
  "quietJob j \<longleftrightarrow> (jb_terminal j \<noteq> NoTerminal \<longrightarrow>
     \<not> jb_nativeBodyLeaseLive j \<and> \<not> jb_outerSettlementOpen j \<and> jb_routeAuthority j \<noteq> NoRoute \<and>
     \<not> inFlight j)"

lemma quiet_fields:
  "jb_terminal j' = jb_terminal j \<Longrightarrow> jb_nativeBodyLeaseLive j' = jb_nativeBodyLeaseLive j \<Longrightarrow>
    jb_outerSettlementOpen j' = jb_outerSettlementOpen j \<Longrightarrow>
    jb_routeAuthority j' = jb_routeAuthority j \<Longrightarrow> jb_route j' = jb_route j \<Longrightarrow> quietJob j \<Longrightarrow> quietJob j'"
  by (simp add: quietJob_def inFlight_def)

lemma quiet_open: "jb_terminal j = NoTerminal \<Longrightarrow> quietJob j"
  by (simp add: quietJob_def)

lemma quiet_materialized: "quietJob j \<Longrightarrow> quietJob (materialized j)"
  by (auto simp: quietJob_def inFlight_def materialized_def abandoned_def split: KernelRoute.split)

lemma quiet_nativeSelected: "quietJob j \<Longrightarrow> quietJob (nativeSelected j)"
  by (auto simp: quietJob_def inFlight_def nativeSelected_def)

lemma quiet_contend: "quietJob (fst s) \<Longrightarrow> quietJob (fst (contend b s))"
  by (simp add: job_parts quiet_nativeSelected)

lemma quiet_gap: "quietJob (fst s) \<Longrightarrow> quietJob (fst (contend b (materializeAtomicRoute s)))"
  by (intro quiet_contend) (simp add: job_parts quiet_materialized)

lemma materialized_not_inFlight: "\<not> inFlight (materialized j)"
  by (auto simp: inFlight_def materialized_def abandoned_def split: KernelRoute.split)

lemma quiet_finish:
  assumes "quietJob (fst s)" and "\<not> race 1"
  shows "quietJob (fst (snd (finish race st t s)))"
proof -
  have "quietJob (finished False st t j)" for j
    using materialized_not_inFlight [of j]
    by (auto simp: quietJob_def inFlight_def finished_def Let_def applyReset_def abandoned_def cancelAuthority_def)
  then show ?thesis using assms by (simp add: job_parts)
qed

lemma quiet_finalize:
  "quietJob (fst s) \<Longrightarrow> \<not> race 1 \<Longrightarrow> quietJob (fst (snd (finalizeRouteAfterUnlock race s)))"
  by (simp add: finalizeRouteAfterUnlock_def Let_def fst_reject quiet_finish split: KernelRoute.split)

lemma quiet_select:
  assumes "quietJob (fst s)"
  shows "quietJob (fst (snd (trySelectKernelRoute race acquired g mxcsr s)))"
proof -
  have c: "quietJob (fst (contend b s))" for b by (rule quiet_contend [OF assms])
  have s: "quietJob (materialized (nativeSelected (fst (contend b s))))" for b
    by (intro quiet_materialized quiet_nativeSelected c)
  have m: "quietJob (materialized (fst (contend b s)))" for b by (intro quiet_materialized c)
  have "jb_terminal (fst (contend b s)) = jb_terminal (fst s)" for b by (simp add: job_parts)
  then show ?thesis
    using s m quiet_materialized [OF assms] quiet_nativeSelected [OF assms] assms
    by (auto simp: trySelectKernelRoute_def selectLocked_def Let_def job_parts(1-13) fst_selectNativeLocked
        isTerminal_def split: option.split intro!: quiet_open)
qed


lemma quiet_copy:
  assumes "quietJob (fst s)" and "\<not> race 1"
  shows "quietJob (fst (snd (copyProducerResultUnderLease race g callback s)))"
proof -
  have f: "quietJob (fst (snd (finalizeRouteAfterUnlock race t)))" if "jb_terminal (fst t) = NoTerminal" for t
    using that assms(2) by (intro quiet_finalize quiet_open)
  show ?thesis
    using assms(1)
    by (auto simp: copyProducerResultUnderLease_def Let_def fst_reject case_prod_beta job_parts(2)
        isTerminal_def split: option.split intro!: f)
qed

lemma quiet_complete:
  assumes "quietJob (fst s)" and "\<not> race 1"
  shows "quietJob (fst (snd (completeNativeBody race g lease completion s)))"
proof -
  have f: "quietJob (fst (snd (finalizeRouteAfterUnlock race t)))" if "jb_terminal (fst t) = NoTerminal" for t
    using that assms(2) by (intro quiet_finalize quiet_open)
  show ?thesis
    using assms(1)
    by (auto simp: completeNativeBody_def Let_def fst_reject case_prod_beta quiet_gap isTerminal_def
        intro!: f)
qed

lemma quiet_unlock:
  assumes "quietJob (fst s)" and "\<not> race 1"
  shows "quietJob (fst (snd (noteUnlock race g unlock s)))"
proof -
  define u where "u = contend (race 2) (materializeAtomicRoute s)"
  have u: "quietJob (fst u)" unfolding u_def by (rule quiet_gap [OF assms(1)])
  then have c: "quietJob (fst (unlockCounted unlock u))" by (rule quiet_fields [rotated 5]) (simp_all add: fst_unlockCounted)
  have w: "quietJob (fst (settleProducerAbandoned (setJob withoutBody (unlockCounted unlock u))))"
    if "jb_terminal (fst u) = NoTerminal"
    using that by (intro quiet_open) (simp add: job_parts fst_unlockCounted abandoned_def withoutBody_def)
  have f: "quietJob (fst t) \<Longrightarrow> quietJob (fst (snd (finalizeRouteAfterUnlock race t)))"
    "quietJob (fst t) \<Longrightarrow> quietJob (fst (snd (finish race a b t)))" for t a b
    using assms(2) by (simp_all add: quiet_finalize quiet_finish)
  show ?thesis
  proof (cases "UnlockMatchesDestination (jb_destination (fst u)) unlock \<and> \<not> jb_unlockObserved (fst u)")
    case False
    then show ?thesis
      using noteUnlock_rejected [where race = race and s = s and u = u, OF u_def, of unlock g] u assms(1) by auto
  next
    case True
    then show ?thesis
      using c f(1) [OF c] f(1) [OF w] f(2) [OF c] assms(1)
      by (cases "jb_route (fst u)")
        (simp_all add: noteUnlock_recorded [where race = race and s = s and u = u, OF u_def] isTerminal_def)
  qed
qed

lemma quiet_cancelWith:
  assumes "quietJob (fst s)" and "\<not> race 1"
  shows "quietJob (fst (snd (cancelWith race t n s)))"
proof -
  let ?m = "materializeAtomicRoute s"
  have m: "quietJob (fst ?m)" using assms(1) by (simp add: job_parts quiet_materialized)
  have "quietJob (fst (snd (queueDeferredCancellation t n ?m)))"
    by (rule quiet_fields [OF _ _ _ _ _ m]) (simp_all add: queueDeferredCancellation_def Let_def fst_reject)
  moreover have "quietJob ((fst (contend b ?m))\<lparr>jb_pendingResetGeneration := n\<rparr>)" for b
    by (rule quiet_fields [OF _ _ _ _ _ quiet_gap [OF assms(1), of b]]) simp_all
  moreover have f: "quietJob (fst u) \<Longrightarrow> quietJob (fst (snd (finish race a e u)))" for a e u
    by (rule quiet_finish) (use assms(2) in simp_all)
  ultimately show ?thesis
    using f [OF quiet_gap [OF assms(1)]] by (simp add: cancelWith_def Let_def f)
qed

lemma quiet_step:
  assumes "quietJob (fst s)" and "\<not> race 1"
  shows "quietJob (fst (stepJob race opn s))"
proof (cases opn)
  case (PublishOp g r)
  have g: "quietJob (fst (contend b (materializeAtomicRoute s)))" for b by (rule quiet_gap [OF assms(1)])
  have p: "quietJob ((fst (contend b (materializeAtomicRoute s)))\<lparr>jb_producerResult := Some q,
      jb_producerPublicationSettled := False\<rparr>)" for b q
    by (rule quiet_fields [OF _ _ _ _ _ g]) simp_all
  show ?thesis
    using g p assms(1) unfolding PublishOp
    by (simp add: stepJob_def publishProducerResult_def Let_def fst_reject split: option.split)
qed (use assms in \<open>auto simp: stepJob_def submit_def bindOuter_def awaitKernel_def Let_def fst_reject
    isTerminal_def quiet_select quiet_copy quiet_complete quiet_unlock cancelTemplateMismatch_def
    cancelOuter_def cancelForReset_def quiet_cancelWith destruct_def quiet_finish intro!: quiet_open\<close>)

lemma run_jobs_quiet: "run orderly w \<Longrightarrow> orderly \<Longrightarrow> list_all quietJob (fst w)"
proof (induction rule: run.induct)
  case (run_create js l frozen g j l')
  have "quietJob (fst (construct frozen g l))"
    by (intro quiet_open) (simp add: construct_def Let_def job_init_def)
  with run_create show ?case by simp
next
  case (run_step js l i race opn j l')
  then have "quietJob (fst (stepJob race opn (js ! i, l)))"
    by (intro quiet_step) (simp_all add: list_all_length)
  with run_step show ?case by (simp add: list_all_length nth_list_update)
qed simp

text \<open>
  C11. Nothing is left behind: when every job of an orderly run has ended, no counter of live jobs,
  producer results, claims, copies, native bodies, leases or settlements is above zero.
\<close>

theorem ended_jobs_leave_nothing_live:
  assumes "run True (js, l)" and "\<And>j. j \<in> set js \<Longrightarrow> jb_terminal j \<noteq> NoTerminal"
    and "c \<in> {liveJobs, liveProducerResults, liveProducerClaims, liveCopyJobs, liveNativeJobs,
      liveNativeBodyLeases, liveOuterSettlements}"
  shows "l c = 0"
proof -
  have acc: "accounts True (js, l)" by (rule run_accounts [OF assms(1)])
  have "\<not> owes j c" if "j \<in> set js" for j
  proof -
    have "job_inv j" "quietJob j" "jb_terminal j \<noteq> NoTerminal"
      using acc run_jobs_quiet [OF assms(1)] assms(2) that by (auto simp: accounts_def list_all_iff)
    then show ?thesis
      using assms(3) by (auto simp: owes_def quietJob_def job_inv_def job_ok_def producer_ok_def)
  qed
  then have "owed js c = 0" by (induction js) (simp_all add: owed_def)
  then show ?thesis using acc assms(3) by (auto simp: accounts_def liveCounters_def)
qed

end
