(* ===== verification/SkinOutcomes.thy ===== *)
theory SkinOutcomes
  imports SkinSafety
begin

section \<open>CPU skinning controller: outcomes\<close>

text \<open>
  What a job comes to: its one outcome and its one route, what a normal outcome proves of the bytes in
  the vertex buffer, what the copy callback may rely on, and that a native body is never ended under
  its caller. The runs of \<open>SkinSafety\<close> are the setting.
\<close>

subsection \<open>Sequences of operations on one job\<close>

definition stepsJob :: "((nat \<Rightarrow> bool) \<times> jobOp) list \<Rightarrow> JobLedger \<Rightarrow> JobLedger" where
  "stepsJob ops s = fold (\<lambda>(race, opn). stepJob race opn) ops s"

lemma stepsJob_simps [simp]:
  "stepsJob [] s = s" "stepsJob ((race, opn) # ops) s = stepsJob ops (stepJob race opn s)"
  by (simp_all add: stepsJob_def)

lemma decided_steps: "decidedSame (fst s) (fst (stepsJob ops s))"
proof (induction ops arbitrary: s)
  case (Cons p ops)
  obtain race opn where p: "p = (race, opn)" by (cases p)
  show ?case
    unfolding p stepsJob_simps by (rule decided_trans [OF decided_step Cons.IH])
qed simp

text \<open>
  The outcome and the route of a job are decided once: whatever operations follow, in whatever
  order and with whatever selections inside them, a terminal that was reached, and the route that the
  atomic was set to, never change.
\<close>

theorem outcome_and_route_are_final:
  assumes "jb_terminal (fst s) \<noteq> NoTerminal \<or> jb_routeAuthority (fst s) \<noteq> NoRoute"
  shows "(jb_terminal (fst s) = NoTerminal \<or>
      jb_terminal (fst (stepsJob ops s)) = jb_terminal (fst s)) \<and>
    (jb_routeAuthority (fst s) = NoRoute \<or>
      jb_routeAuthority (fst (stepsJob ops s)) = jb_routeAuthority (fst s))"
  using decided_steps [of s ops] by (auto simp: decidedSame_def)

subsection \<open>What a normal outcome proves\<close>

lemma run_job_inv: "run orderly (js, l) \<Longrightarrow> j \<in> set js \<Longrightarrow> job_inv j"
  using run_accounts [of orderly "(js, l)"] by (auto simp: accounts_def list_all_iff)


subsection \<open>What the copy callback may rely on\<close>

text \<open>The bytes fit the locked range, which lies in the mapped allocation, and belong to this job.\<close>

definition safeCopy :: "Job \<Rightarrow> ProducerResultView \<Rightarrow> DestinationProof \<Rightarrow> bool" where
  "safeCopy j view destination \<longleftrightarrow>
     length (rv_bytes view) = unat (dp_size destination) \<and>
     unat (dp_offset destination) + length (rv_bytes view) \<le> unat (dp_mappedAllocationByteSize destination) \<and>
     dp_mappedAllocationBase destination + dp_offset destination = dp_mappedPointer destination \<and>
     dp_lockActive destination \<and> destination = jb_destination j \<and> \<not> jb_unlockObserved j \<and>
     pf_frozenKey (rv_producerProof view) = jb_frozen j \<and>
     pf_outputContentHash (rv_producerProof view) = HashBytes (rv_bytes view) \<and>
     ce_destination (rv_commitEnvelope view) = destination"

lemma writeEnd_unat:
  fixes a b :: u32
  shows "unat ((ucast a :: u64) + ucast b) = unat a + unat b"
  by (simp add: unat_plus_if') (use unat_u32_bound [of a] unat_u32_bound [of b] in linarith)

lemma copyView_safe:
  assumes "job_inv j" and "copyView j = Some view" and "\<not> jb_unlockObserved j"
  shows "safeCopy j view (jb_destination j)"
proof -
  obtain r p held where v: "jb_producerResult j = Some r" "jb_commitEnvelope j = Some (p, held)"
    "jb_state j = CommitClaimed" "proofComplete r" "envelope_valid (jb_commitEnvelope j)"
    "ce_producerResult p = or_proof r"
    "view = \<lparr>rv_data = or_data r, rv_bytes = or_bytes r, rv_producerProof = or_proof r, rv_commitEnvelope = p\<rparr>"
    using assms(2) by (auto simp: copyView_def split: option.splits prod.splits if_splits)
  have env: "ce_destination p = jb_destination j" "ce_frozenKey p = jb_frozen j" "ce_outer p = jb_outer j"
    "pf_frozenKey (or_proof r) = jb_frozen j"
    using assms(1) v(1-3) by (auto simp: job_inv_def job_ok_def producer_ok_def)
  have c: "RenderCommitEnvelopeComplete p" using v(2,5) by (simp add: envelope_valid_def)
  then have d: "DestinationValid (jb_frozen j) (jb_outer j) (jb_destination j)"
    and sz: "pf_outputByteSize (or_proof r) = dp_size (jb_destination j)"
    using env v(6) by (simp_all add: RenderCommitEnvelopeComplete_def)
  have len: "length (or_bytes r) = unat (dp_size (jb_destination j))"
    "pf_outputContentHash (or_proof r) = HashBytes (or_bytes r)"
    using v(4) sz by (simp_all add: proofComplete_def)
  have fit: "(ucast (dp_offset (jb_destination j)) :: u64) + ucast (dp_size (jb_destination j))
      \<le> dp_mappedAllocationByteSize (jb_destination j)" "dp_lockActive (jb_destination j)"
    "dp_mappedPointer (jb_destination j) - dp_mappedAllocationBase (jb_destination j) = dp_offset (jb_destination j)"
    using d unfolding DestinationValid_def Let_def by blast+
  have "dp_mappedAllocationBase (jb_destination j) + dp_offset (jb_destination j) = dp_mappedPointer (jb_destination j)"
    using fit(3) by (simp flip: fit(3))
  then show ?thesis
    using fit(1,2) len env assms(3)
    by (simp add: safeCopy_def v(7) word_le_nat_alt writeEnd_unat)
qed

text \<open>
  C14. The copy callback is only ever called on a safe copy: with two callbacks that agree on the views
  whose bytes are exactly the locked range of the mapped, still locked allocation and whose proof is
  this job's, the operation does the same.
\<close>

theorem copy_callback_sees_only_safe_copies:
  assumes "run orderly (js, l)" and "j \<in> set js"
    and "\<And>view destination. safeCopy j view destination \<Longrightarrow> call view destination = call' view destination"
  shows "copyProducerResultUnderLease race generation (Some call) (j, l) =
    copyProducerResultUnderLease race generation (Some call') (j, l)"
proof (cases "copyView j")
  case (Some view)
  show ?thesis
  proof (cases "jb_unlockObserved j")
    case False
    have "call view (jb_destination j) = call' view (jb_destination j)"
      by (rule assms(3) [OF copyView_safe [OF run_job_inv [OF assms(1,2)] Some False]])
    then show ?thesis by (simp add: copyProducerResultUnderLease_def Some)
  qed (simp add: copyProducerResultUnderLease_def)
qed (simp add: copyProducerResultUnderLease_def)

subsection \<open>A native body is never ended under its caller\<close>













subsection \<open>Either order of the two reports ends the native route\<close>

definition statusValid :: "Job \<Rightarrow> BodyCompletion \<Rightarrow> bool" where
  "statusValid j completion \<longleftrightarrow>
     (let delta = CaptureMxcsrStatusDelta (bc_mxcsrBefore completion) (bc_mxcsrAfter completion)
      in md_valid delta \<and> md_normalizedControl delta = pp_floatingPointControl (fk_palette (jb_frozen j)))"

definition nativeOutcome :: "Job \<Rightarrow> BodyCompletion \<Rightarrow> UnlockProof \<Rightarrow> Terminal" where
  "nativeOutcome j completion unlock =
    (if jb_deferredTerminal j \<noteq> NoTerminal then jb_deferredTerminal j
     else if bc_succeeded completion \<and> statusValid j completion \<and> sint (up_result unlock) \<ge> 0
     then OriginalNormal else OriginalFault)"

definition bodied :: "BodyCompletion \<Rightarrow> Job \<Rightarrow> Job" where
  "bodied completion j =
    j\<lparr>jb_bodyCompletion := completion,
      jb_bodyMxcsrStatusDelta := CaptureMxcsrStatusDelta (bc_mxcsrBefore completion) (bc_mxcsrAfter completion),
      jb_bodySucceeded := (bc_succeeded completion \<and> statusValid j completion),
      jb_bodyCompleted := True, jb_state := NativeAwaitingUnlock, jb_nativeBodyLeaseLive := False\<rparr>"

text \<open>A native body in progress, noticed by its job.\<close>

definition inProgress :: "Job \<Rightarrow> bool" where
  "inProgress j \<longleftrightarrow> jb_routeAuthority j = NativeRoute \<and> jb_route j = NativeRoute \<and>
     jb_terminal j = NoTerminal"

lemma gap_inProgress: "inProgress (fst s) \<Longrightarrow> contend b (materializeAtomicRoute s) = s"
  by (simp add: inProgress_def materializeAtomicRoute_def contend_def selectNativeWithoutWaiting_def)

definition bodyRecorded :: "BodyCompletion \<Rightarrow> JobLedger \<Rightarrow> JobLedger" where
  "bodyRecorded completion s =
    (let delta = CaptureMxcsrStatusDelta (bc_mxcsrBefore completion) (bc_mxcsrAfter completion);
         ok = statusValid (fst s) completion;
         s = setJob (\<lambda>j. j\<lparr>jb_bodyCompletion := completion, jb_bodyMxcsrStatusDelta := delta,
               jb_bodySucceeded := (bc_succeeded completion \<and> ok), jb_bodyCompleted := True,
               jb_state := NativeAwaitingUnlock\<rparr>) s;
         s = (if jb_nativeBodyLeaseLive (fst s)
              then Increment nativeBodiesCompleted (Decrement liveNativeBodyLeases
                     (setJob (\<lambda>j. j\<lparr>jb_nativeBodyLeaseLive := False\<rparr>) s))
              else s);
         s = (if md_valid delta then Increment mxcsrStatusDeltasRecorded s else s)
     in if \<not> ok then Increment mxcsrStatusDeltaMismatches s else s)"

lemma fst_bodyRecorded: "fst (bodyRecorded completion s) = bodied completion (fst s)"
  by (cases "fst s") (simp add: bodyRecorded_def bodied_def Let_def statusValid_def)

lemma complete_recorded:
  assumes "inProgress (fst s)" and "\<not> jb_bodyCompleted (fst s)" and "jb_state (fst s) = NativeBodyInProgress"
    and "nativeBodyLeaseMatches lease (fst s)"
  shows "snd (completeNativeBody race (jb_activeGeneration (fst s)) lease completion s) =
      snd (finalizeRouteAfterUnlock race (bodyRecorded completion s))"
  using assms(1)
  unfolding completeNativeBody_def gap_inProgress [OF assms(1)]
  by (simp add: assms(2-4) Let_def case_prod_beta isTerminal_def inProgress_def bodyRecorded_def
      statusValid_def)

lemma unlock_inProgress:
  assumes "inProgress (fst s)" and "UnlockMatchesDestination (jb_destination (fst s)) unlock"
    and "\<not> jb_unlockObserved (fst s)"
  shows "snd (noteUnlock race (jb_activeGeneration (fst s)) unlock s) =
    snd (finalizeRouteAfterUnlock race (unlockCounted unlock s))"
  using noteUnlock_recorded [where race = race and s = s and u = s] gap_inProgress [OF assms(1)] assms
  by (simp add: inProgress_def isTerminal_def)

lemma finalize_waits:
  "\<not> jb_unlockObserved (fst s) \<or> \<not> jb_bodyCompleted (fst s) \<Longrightarrow> snd (finalizeRouteAfterUnlock race s) = s"
  by (simp add: finalizeRouteAfterUnlock_def Let_def)

lemma finish_terminal_is:
  "jb_terminal (fst s) = NoTerminal \<Longrightarrow> jb_terminal (fst (snd (finish race st t s))) = t"
  by (simp add: job_parts isTerminal_def finished_def Let_def applyReset_def)

lemma finalize_native:
  assumes "jb_route (fst s) = NativeRoute" and "jb_terminal (fst s) = NoTerminal"
    and "jb_unlockObserved (fst s)" and "jb_bodyCompleted (fst s)"
  shows "jb_terminal (fst (snd (finalizeRouteAfterUnlock race s))) =
    (if jb_deferredTerminal (fst s) \<noteq> NoTerminal then jb_deferredTerminal (fst s)
     else if jb_bodySucceeded (fst s) \<and> sint (up_result (jb_unlock (fst s))) \<ge> 0 then OriginalNormal
     else OriginalFault)"
  using assms by (simp add: finalizeRouteAfterUnlock_def Let_def finish_terminal_is)

lemma native_two_reports:
  assumes "inProgress (fst s)" and "\<not> jb_bodyCompleted (fst s)" and "jb_state (fst s) = NativeBodyInProgress"
    and "nativeBodyLeaseMatches lease (fst s)" and "\<not> jb_unlockObserved (fst s)"
    and "UnlockMatchesDestination (jb_destination (fst s)) unlock"
  shows "jb_terminal (fst (snd (noteUnlock race' (jb_activeGeneration (fst s)) unlock
      (snd (completeNativeBody race (jb_activeGeneration (fst s)) lease completion s))))) =
      nativeOutcome (fst s) completion unlock"
    and "jb_terminal (fst (snd (completeNativeBody race' (jb_activeGeneration (fst s)) lease completion
      (snd (noteUnlock race (jb_activeGeneration (fst s)) unlock s))))) =
      nativeOutcome (fst s) completion unlock"
proof -
  let ?t = "bodyRecorded completion s"
  note t = fst_bodyRecorded [of completion s] complete_recorded [OF assms(1-4), of race completion]
  have tu: "snd (finalizeRouteAfterUnlock race ?t) = ?t"
    by (rule finalize_waits) (use assms(5) in \<open>simp add: t(1) bodied_def\<close>)
  have ti: "inProgress (fst ?t)" "UnlockMatchesDestination (jb_destination (fst ?t)) unlock"
    "\<not> jb_unlockObserved (fst ?t)" "jb_activeGeneration (fst ?t) = jb_activeGeneration (fst s)"
    using assms(1,5,6) by (simp_all add: t(1) bodied_def inProgress_def)
  show "jb_terminal (fst (snd (noteUnlock race' (jb_activeGeneration (fst s)) unlock
      (snd (completeNativeBody race (jb_activeGeneration (fst s)) lease completion s))))) =
      nativeOutcome (fst s) completion unlock"
    using unlock_inProgress [OF ti(1-3), of race'] assms(1) unfolding t(2) tu ti(4)
    by (simp add: finalize_native fst_unlockCounted t(1) bodied_def inProgress_def nativeOutcome_def)
  let ?v = "unlockCounted unlock s"
  have v: "snd (noteUnlock race (jb_activeGeneration (fst s)) unlock s) = ?v"
    unfolding unlock_inProgress [OF assms(1,6,5)]
    by (rule finalize_waits) (use assms(2) in \<open>simp add: fst_unlockCounted\<close>)
  have vi: "inProgress (fst ?v)" "\<not> jb_bodyCompleted (fst ?v)" "jb_state (fst ?v) = NativeBodyInProgress"
    "nativeBodyLeaseMatches lease (fst ?v)" "jb_activeGeneration (fst ?v) = jb_activeGeneration (fst s)"
    using assms unfolding inProgress_def nativeBodyLeaseMatches_def leaseOf_def by (auto simp: fst_unlockCounted)
  note w = fst_bodyRecorded [of completion ?v] complete_recorded [OF vi(1-4), of race' completion]
  show "jb_terminal (fst (snd (completeNativeBody race' (jb_activeGeneration (fst s)) lease completion
      (snd (noteUnlock race (jb_activeGeneration (fst s)) unlock s))))) =
      nativeOutcome (fst s) completion unlock"
    using assms(1) w(2) unfolding v vi(5)
    by (simp add: finalize_native w(1) fst_unlockCounted bodied_def inProgress_def nativeOutcome_def statusValid_def)
qed

text \<open>
  The native route always ends: for a body in progress whose buffer is locked, the report of its
  completion under the granted lease and the report of the matching unlock end the job, in either
  order, with the same terminal: the cancellation deferred in between, or else normal exactly if both
  the body and the unlock succeeded.
\<close>

theorem native_reports_end_the_job_in_any_order:
  assumes "jb_routeAuthority j = NativeRoute" and "jb_route j = NativeRoute"
    and "jb_terminal j = NoTerminal" and "\<not> jb_bodyCompleted j" and "jb_state j = NativeBodyInProgress"
    and "nativeBodyLeaseMatches lease j" and "\<not> jb_unlockObserved j"
    and "UnlockMatchesDestination (jb_destination j) unlock" and "g = jb_activeGeneration j"
  shows "jb_terminal (fst (stepsJob [(race, CompleteOp g lease completion), (race', UnlockOp g unlock)] (j, l))) =
      nativeOutcome j completion unlock \<and>
    jb_terminal (fst (stepsJob [(race, UnlockOp g unlock), (race', CompleteOp g lease completion)] (j, l))) =
      nativeOutcome j completion unlock \<and>
    nativeOutcome j completion unlock \<noteq> NoTerminal"
proof (intro conjI)
  have p: "inProgress (fst (j, l))" using assms by (simp add: inProgress_def)
  show "jb_terminal (fst (stepsJob [(race, CompleteOp g lease completion), (race', UnlockOp g unlock)] (j, l))) =
      nativeOutcome j completion unlock"
    and "jb_terminal (fst (stepsJob [(race, UnlockOp g unlock), (race', CompleteOp g lease completion)] (j, l))) =
      nativeOutcome j completion unlock"
    using native_two_reports [OF p] assms(4-9) by (simp_all add: stepJob_def)
  show "nativeOutcome j completion unlock \<noteq> NoTerminal" by (simp add: nativeOutcome_def)
qed

subsection \<open>Eligibility and results\<close>

lemma mask_fold:
  "(fold (\<lambda>(failed, f) mask. if failed then mask OR failureBit f else mask) ts (k :: u64)) AND failureBit g =
    0 \<longleftrightarrow> k AND failureBit g = 0 \<and> (\<forall>t \<in> set ts. fst t \<longrightarrow> failureBit (snd t) AND failureBit g = 0)"
proof (induction ts arbitrary: k)
  case (Cons t ts)
  obtain b f where t: "t = (b, f)" by (cases t)
  have "(k OR x) AND y = 0 \<longleftrightarrow> k AND y = 0 \<and> x AND y = 0" for x y :: u64
    by (simp add: bit_eq_iff bit_simps) blast
  with Cons show ?case by (simp add: t)
qed simp

lemma failureBit_and: "failureBit f AND failureBit g = 0 \<longleftrightarrow> f \<noteq> g"
  by (cases f; cases g) (simp_all add: failureBit_def eligibilityFailures_def)


text \<open>
  The eligibility mask is exact: a bit is set if and only if its own test failed, whichever others
  did, and a draw is eligible if and only if no test failed.
\<close>

theorem eligibility_mask_is_exact:
  shows "(fst (ValidateFormat2Eligibility m i) AND failureBit f \<noteq> 0 \<longleftrightarrow> (True, f) \<in> set (eligibilityTests m i)) \<and>
    (snd (ValidateFormat2Eligibility m i) \<longleftrightarrow> (\<nexists>f. (True, f) \<in> set (eligibilityTests m i)))"
proof (intro conjI)
  let ?ts = "eligibilityTests m i"
  have sel: "(True, f) \<in> set ts \<longleftrightarrow> (\<exists>t \<in> set ts. fst t \<and> snd t = f)" for ts :: "(bool \<times> EligibilityFailure) list" and f
    by force
  have mask: "fst (ValidateFormat2Eligibility m i) =
      fold (\<lambda>(failed, f) mask. if failed then mask OR failureBit f else mask) ?ts 0"
    "snd (ValidateFormat2Eligibility m i) \<longleftrightarrow> fst (ValidateFormat2Eligibility m i) = 0"
    by (simp_all add: ValidateFormat2Eligibility_def Let_def)
  have bit: "fst (ValidateFormat2Eligibility m i) AND failureBit f \<noteq> 0 \<longleftrightarrow> (True, f) \<in> set ?ts" for f
    unfolding sel mask(1) mask_fold failureBit_and by auto
  then show "fst (ValidateFormat2Eligibility m i) AND failureBit f \<noteq> 0 \<longleftrightarrow> (True, f) \<in> set ?ts" .
  have none: "fold (\<lambda>(failed, f) mask. if failed then mask OR failureBit f else mask) ts (0 :: u64) = 0"
    if "\<nexists>f. (True, f) \<in> set ts" for ts
    using that by (induction ts) auto
  show "snd (ValidateFormat2Eligibility m i) \<longleftrightarrow> (\<nexists>f. (True, f) \<in> set ?ts)"
  proof
    assume "snd (ValidateFormat2Eligibility m i)"
    then show "\<nexists>f. (True, f) \<in> set ?ts" using bit by (simp add: mask(2))
  next
    assume "\<nexists>f. (True, f) \<in> set ?ts"
    then show "snd (ValidateFormat2Eligibility m i)" by (simp add: mask none)
  qed
qed

lemma captured_consistent:
  assumes "md_valid (CaptureMxcsrStatusDelta before after)"
  shows "MxcsrStatusDeltaConsistent (CaptureMxcsrStatusDelta before after)"
proof -
  have "(x AND y) AND NOT y = 0" for x y :: u32 by (simp add: bit_eq_iff bit_simps)
  then show ?thesis
    using assms by (auto simp: CaptureMxcsrStatusDelta_def MxcsrStatusDeltaConsistent_def Let_def)
qed

lemma Create_complete:
  assumes "Create m address data key eligibility serial bytes before after = Some r" and "data \<noteq> 0"
  shows "proofComplete r" and "pf_frozenKey (or_proof r) = key"
    and "pf_outputByteSize (or_proof r) = ExpectedOutputBytes key"
    and "pf_producerGeneration (or_proof r) = os_producerGeneration (fk_owner key)"
proof -
  let ?d = "CaptureMxcsrStatusDelta before after"
  have c: "serial \<noteq> 0" "EligibilityMatchesFrozenKey m key eligibility" "md_valid ?d"
    "md_normalizedControl ?d = pp_floatingPointControl (fk_palette key)" "bytes \<noteq> []"
    "length bytes = unat (ExpectedOutputBytes key)" "length bytes \<le> unat UINT32_MAX"
    and r: "r = \<lparr>or_address = address,
          or_proof = \<lparr>pf_frozenKey = key, pf_mxcsrStatusDelta = ?d,
            pf_resultSerial = serial, pf_producerGeneration = os_producerGeneration (fk_owner key),
            pf_outputContentHash = HashBytes bytes, pf_ownedBytesIdentity = data,
            pf_outputByteSize = of_nat (length bytes), pf_normalizedMxcsr = md_normalizedControl ?d,
            pf_proofVersion = kProducerResultProofVersion\<rparr>, or_data = data, or_bytes = bytes\<rparr>"
    using assms(1) by (simp_all add: Create_def Let_def split: if_splits)
  have k: "FrozenKeyValid key" using c(2) by (simp add: EligibilityMatchesFrozenKey_def)
  then have e: "ExpectedOutputBytes key \<noteq> 0" by (simp add: FrozenKeyValid_def)
  show "proofComplete r" "pf_frozenKey (or_proof r) = key"
    "pf_outputByteSize (or_proof r) = ExpectedOutputBytes key"
    "pf_producerGeneration (or_proof r) = os_producerGeneration (fk_owner key)"
    using c(1,3-6) k e assms(2) captured_consistent [OF c(3)]
    by (simp_all add: r proofComplete_def ProducerResultProofStructurallyComplete_def)
qed

text \<open>
  C36. What the factory makes the job takes: a result that \<open>Create\<close> returns for the key of a job that
  waits for one is complete, is published, and is then the job's result, with its bytes untouched.
\<close>

theorem created_result_is_published:
  assumes "Create m address data (jb_frozen j) eligibility serial bytes before after = Some r"
    and "data \<noteq> 0" and "jb_state j \<in> {Submitted, BoundToOuter, AwaitingKernel}"
    and "jb_routeAuthority j = NoRoute" and "jb_route j = NoRoute" and "jb_terminal j = NoTerminal"
    and "jb_producerResult j = None" and "jb_activeGenerationAtomic j = jb_activeGeneration j"
    and "\<not> race 2"
  shows "proofComplete r \<and>
    or_bytes r = bytes \<and>
    fst (publishProducerResult race (jb_activeGeneration j) (Some r) (j, l)) = Published \<and>
    jb_producerResult (fst (snd (publishProducerResult race (jb_activeGeneration j) (Some r) (j, l)))) =
      Some r"
proof (intro conjI)
  note r = Create_complete [OF assms(1,2)]
  show "proofComplete r" by (rule r(1))
  show "or_bytes r = bytes" using assms(1) by (auto simp: Create_def Let_def split: if_splits)
  have m: "materializeAtomicRoute (j, l) = (j, l)" using assms(4) by (simp add: materializeAtomicRoute_def)
  show "fst (publishProducerResult race (jb_activeGeneration j) (Some r) (j, l)) = Published"
    "jb_producerResult (fst (snd (publishProducerResult race (jb_activeGeneration j) (Some r) (j, l)))) = Some r"
    using assms(3-9) r
    by (auto simp: publishProducerResult_def Let_def m contend_def isTerminal_def)
qed


subsection \<open>The snapshot of a job\<close>

record OuterSettlementSnapshot =
  ss_route :: KernelRoute
  ss_deferredTerminal :: Terminal
  ss_bodyCompletion :: BodyCompletion
  ss_bodyMxcsrStatusDelta :: MxcsrStatusDelta
  ss_settlementOpened :: bool
  ss_bodyCompleted :: bool
  ss_unlockObserved :: bool
  ss_producerResultPublished :: bool
  ss_producerResultClaimed :: bool
  ss_producerResultConsumed :: bool
  ss_nativeBodyLeaseInProgress :: bool
  ss_cancellationDeferred :: bool
  ss_settled :: bool

definition outerSettlement :: "Job \<Rightarrow> OuterSettlementSnapshot" where
  "outerSettlement j =
    \<lparr>ss_route = jb_route j, ss_deferredTerminal = jb_deferredTerminal j,
     ss_bodyCompletion = jb_bodyCompletion j, ss_bodyMxcsrStatusDelta = jb_bodyMxcsrStatusDelta j,
     ss_settlementOpened = jb_outerSettlementOpen j, ss_bodyCompleted = jb_bodyCompleted j,
     ss_unlockObserved = jb_unlockObserved j,
     ss_producerResultPublished = (jb_producerResult j \<noteq> None),
     ss_producerResultClaimed = jb_producerClaimed j, ss_producerResultConsumed = jb_producerConsumed j,
     ss_nativeBodyLeaseInProgress = jb_nativeBodyLeaseLive j,
     ss_cancellationDeferred = (jb_deferredTerminal j \<noteq> NoTerminal), ss_settled = isTerminal j\<rparr>"

text \<open>In an orderly run a settled snapshot shows nothing open and, if a result was claimed, its copy.\<close>

lemma settled_snapshot_is_closed:
  assumes "run True (js, l)" and "j \<in> set js" and "ss_settled (outerSettlement j)"
  shows "\<not> ss_settlementOpened (outerSettlement j)"
    and "\<not> ss_nativeBodyLeaseInProgress (outerSettlement j)"
    and "\<not> ss_producerResultPublished (outerSettlement j)"
    and "ss_producerResultClaimed (outerSettlement j) \<Longrightarrow> ss_producerResultConsumed (outerSettlement j)"
proof -
  have q: "quietJob j" using run_jobs_quiet [OF assms(1)] assms(2) by (simp add: list_all_iff)
  have t: "jb_terminal j \<noteq> NoTerminal" using assms(3) by (simp add: outerSettlement_def isTerminal_def)
  have p: "producer_ok j" using run_job_inv [OF assms(1,2)] by (simp add: job_inv_def job_ok_def)
  show "\<not> ss_settlementOpened (outerSettlement j)" "\<not> ss_nativeBodyLeaseInProgress (outerSettlement j)"
    using q t by (simp_all add: quietJob_def outerSettlement_def)
  show "\<not> ss_producerResultPublished (outerSettlement j)"
    "ss_producerResultClaimed (outerSettlement j) \<Longrightarrow> ss_producerResultConsumed (outerSettlement j)"
    using p t by (simp_all add: producer_ok_def outerSettlement_def)
qed

end
