(* ===== verification/SkinWitnesses.thy ===== *)
theory SkinWitnesses
  imports SkinOutcomes
begin

section \<open>CPU skinning controller: runs\<close>

text \<open>
  Concrete runs of one job: the native route, the copy route, and the two runs in which the ledger
  leaves its accounts, a selection inside a cancellation and a cancellation of a refused job.
\<close>

subsection \<open>A job\<close>

definition sampleKey :: FrozenKey where
  "sampleKey =
    \<lparr>fk_owner = \<lparr>os_controllerInstanceGeneration = 1, os_producerGeneration = 1, os_mapEpoch = 1,
       os_deviceEpoch = 1, os_bridgeResetGeneration = 1, os_renderThreadId = 1\<rparr>,
     fk_flush = \<lparr>fb_frameTag = 1, fb_flushEpoch = 1, fb_batchId = 1, fb_renderablePart = 1,
       fb_geosetData = 1, fb_candidateToken = 1, fb_flushCandidateOrdinal = 0, fb_layerIndex = 0,
       fb_path = CommonPath, fb_opaque = True\<rparr>,
     fk_source = \<lparr>is_snapshotIdentity = 1, is_contentHash = 1, is_sealedContentToken = 1,
       is_sourceGeneration = 1, is_layoutGeneration = 1, is_vertexCount = 193,
       is_matrixGroupCount = 1, is_uvLayerCount = 1, is_maxGroupSlot = 0, is_positions = 1,
       is_normals = 1, is_groupSlots = 1, is_uv0 = 1, is_extra = 0, is_uv1 = 0,
       is_positionStride = 12, is_normalStride = 12, is_groupSlotStride = 1, is_uv0Stride = 8,
       is_extraStride = 0, is_uv1Stride = 0, is_positionByteCount = 2316,
       is_normalByteCount = 2316, is_groupSlotByteCount = 193, is_uv0ByteCount = 1544\<rparr>,
     fk_palette = \<lparr>pp_palettePointer = 1, pp_immutableBlobIdentity = 1, pp_paletteGeneration = 1,
       pp_paletteWriteSerial = 1, pp_paletteFrameTag = 1, pp_contentHash = 1,
       pp_sealedContentToken = 1, pp_groupCount = 1, pp_byteCount = 48,
       pp_floatingPointControl = 0x1f80\<rparr>\<rparr>"

definition sampleOuter :: OuterBindingProof where
  "sampleOuter =
    \<lparr>ob_controllerInstanceGeneration = 1, ob_producerGeneration = 1, ob_mapEpoch = 1,
     ob_deviceEpoch = 1, ob_bridgeResetGeneration = 1, ob_frameTag = 1, ob_flushEpoch = 1,
     ob_batchId = 1, ob_sourceGeneration = 1, ob_paletteGeneration = 1,
     ob_sourceSealedContentToken = 1, ob_paletteSealedContentToken = 1, ob_dispatchEpoch = 1,
     ob_uploadEpoch = 1, ob_gxDeviceD3d = 1, ob_renderablePart = 1, ob_geosetData = 1,
     ob_positions = 1, ob_normals = 1, ob_groupSlots = 1, ob_uv0 = 1, ob_extra = 0, ob_uv1 = 0,
     ob_palettePointer = 1, ob_uploadOrdinal = 0, ob_candidateToken = 1,
     ob_flushCandidateOrdinal = 0, ob_layerIndex = 0, ob_vertexCount = 193,
     ob_positionStride = 12, ob_normalStride = 12, ob_groupSlotStride = 1, ob_uv0Stride = 8,
     ob_extraStride = 0, ob_uv1Stride = 0, ob_paletteGroupCount = 1, ob_skinMode = 1,
     ob_outputFormat = 2, ob_fvf = 0x112, ob_outputStride = 32\<rparr>"

definition sampleDestination :: DestinationProof where
  "sampleDestination =
    \<lparr>dp_commonResource = 1, dp_comVertexBuffer = 1, dp_nativeD3DDevice = 1, dp_mappedAllocation = 1,
     dp_mappedAllocationBase = 4096, dp_mappedPointer = 4160, dp_resourceGeneration = 1,
     dp_realStorageGeneration = 1, dp_mappingStorageGeneration = 1,
     dp_mapAllocationGeneration = 1, dp_lockSerial = 7, dp_mappedAllocationByteSize = 8192,
     dp_dispatchEpoch = 1, dp_uploadEpoch = 1, dp_offset = 64, dp_size = 6176,
     dp_effectiveFlags = 0, dp_lockDepth = 1, dp_uploadOrdinal = 0, dp_outputFormat = 2,
     dp_fvf = 0x112, dp_lockSucceeded = True, dp_lockActive = True\<rparr>"

definition sampleUnlock :: UnlockProof where
  "sampleUnlock =
    \<lparr>up_commonResource = 1, up_comVertexBuffer = 1, up_mappedAllocation = 1,
     up_mappedPointer = 4160, up_resourceGeneration = 1, up_mapAllocationGeneration = 1,
     up_lockSerial = 7, up_unlockSerial = 1, up_result = 0\<rparr>"

definition sampleLease :: NativeBodyLease where
  "sampleLease =
    \<lparr>bl_controllerInstanceGeneration = 1, bl_producerGeneration = 1, bl_activeGeneration = 1,
     bl_frameTag = 1, bl_batchId = 1, bl_lockSerial = 7\<rparr>"

definition sampleCompletion :: BodyCompletion where
  "sampleCompletion = \<lparr>bc_succeeded = True, bc_mxcsrBefore = 0x1f80, bc_mxcsrAfter = 0x1fa0\<rparr>"

abbreviation noRace :: "nat \<Rightarrow> bool" where "noRace \<equiv> (\<lambda>_. False)"

definition awaitingOps :: "((nat \<Rightarrow> bool) \<times> jobOp) list" where
  "awaitingOps = [(noRace, SubmitOp 1), (noRace, BindOp 1 sampleOuter), (noRace, AwaitOp 1 sampleDestination)]"

definition nativeOps :: "((nat \<Rightarrow> bool) \<times> jobOp) list" where
  "nativeOps = awaitingOps @ [(noRace, SelectOp True 1 0x1f80)]"

definition nativeEndOps :: "((nat \<Rightarrow> bool) \<times> jobOp) list" where
  "nativeEndOps = nativeOps @
     [(noRace, CompleteOp 1 sampleLease sampleCompletion), (noRace, UnlockOp 1 sampleUnlock)]"

definition created :: JobLedger where
  "created = construct sampleKey 1 ledger_init"

subsection \<open>Runs of one job\<close>

fun orderlyOps :: "((nat \<Rightarrow> bool) \<times> jobOp) list \<Rightarrow> JobLedger \<Rightarrow> bool" where
  "orderlyOps [] s = True"
| "orderlyOps ((race, opn) # ops) s \<longleftrightarrow>
     jb_state (fst s) \<noteq> InvalidState \<and> orderlyOps ops (stepJob race opn s)"

lemma run_ops:
  assumes "run orderly ([fst s], snd s)" and "orderlyOps ops s" and "list_all (\<lambda>p. fst p = noRace) ops"
  shows "run orderly ([fst (stepsJob ops s)], snd (stepsJob ops s))"
  using assms
proof (induction ops arbitrary: s)
  case (Cons p ops)
  obtain opn where p: "p = (noRace, opn)" using Cons.prems(3) by (cases p) simp
  let ?t = "stepJob noRace opn s"
  have "run orderly ([fst s][0 := fst ?t], snd ?t)"
    by (rule run_step [where race = noRace and opn = opn and l = "snd s"])
      (use Cons.prems in \<open>simp_all add: p race_ok_def\<close>)
  then show ?case using Cons.IH [of ?t] Cons.prems by (simp add: p)
qed simp

lemma run_created: "run orderly ([fst created], snd created)"
  using run_create [OF run_init, of sampleKey 1 "fst created" "snd created"] by (simp add: created_def)

lemma run_sample:
  assumes "orderlyOps ops created" and "list_all (\<lambda>p. fst p = noRace) ops"
  shows "run orderly ([fst (stepsJob ops created)], snd (stepsJob ops created))"
  by (rule run_ops [OF run_created assms])

lemma nativeEnd_orderly: "orderlyOps nativeEndOps created" by code_simp
lemma awaiting_orderly: "orderlyOps awaitingOps created" by code_simp

lemma ops_noRace:
  "list_all (\<lambda>p. fst p = noRace) awaitingOps" "list_all (\<lambda>p. fst p = noRace) nativeOps"
  "list_all (\<lambda>p. fst p = noRace) nativeEndOps"
  by (simp_all add: nativeEndOps_def nativeOps_def awaitingOps_def)

lemmas native_run = run_sample [OF nativeEnd_orderly ops_noRace(3)]

lemma native_terminal: "jb_terminal (fst (stepsJob nativeEndOps created)) = OriginalNormal" by code_simp

theorem ledger_always_closes_witness: "closureHolds (snd (stepsJob nativeEndOps created))"
  by (rule ledger_always_closes [OF native_run])

theorem ended_jobs_leave_nothing_live_witness: "snd (stepsJob nativeEndOps created) liveNativeBodyLeases = 0"
  by (rule ended_jobs_leave_nothing_live [OF native_run]) (simp_all add: native_terminal)

theorem outcome_and_route_are_final_witness:
  "jb_terminal (fst (stepsJob [(noRace, CancelOuterOp 1)] (stepsJob nativeEndOps created))) = OriginalNormal"
  using outcome_and_route_are_final [of "stepsJob nativeEndOps created" "[(noRace, CancelOuterOp 1)]"]
  by (simp add: native_terminal)




theorem native_reports_end_the_job_in_any_order_witness:
  "jb_terminal (fst (stepsJob [(noRace, UnlockOp 1 sampleUnlock), (noRace, CompleteOp 1 sampleLease sampleCompletion)]
     (fst (stepsJob nativeOps created), ledger_init))) = OriginalNormal"
proof -
  let ?j = "fst (stepsJob nativeOps created)"
  have "jb_routeAuthority ?j = NativeRoute" "jb_route ?j = NativeRoute" "jb_terminal ?j = NoTerminal"
    "\<not> jb_bodyCompleted ?j" "jb_state ?j = NativeBodyInProgress" "nativeBodyLeaseMatches sampleLease ?j"
    "\<not> jb_unlockObserved ?j" "UnlockMatchesDestination (jb_destination ?j) sampleUnlock"
    "1 = jb_activeGeneration ?j" by code_simp+
  moreover have "nativeOutcome ?j sampleCompletion sampleUnlock = OriginalNormal" by code_simp
  ultimately show ?thesis
    using native_reports_end_the_job_in_any_order [where j = ?j and lease = sampleLease and
        unlock = sampleUnlock and g = 1 and race = noRace and race' = noRace and
        completion = sampleCompletion and l = ledger_init] by simp
qed

subsection \<open>A copied job\<close>

definition sampleBytes :: "u8 list" where "sampleBytes = replicate 6176 0"

definition sampleProof :: "u64 \<Rightarrow> ProducerResultProof" where
  "sampleProof hash =
    \<lparr>pf_frozenKey = sampleKey, pf_mxcsrStatusDelta = CaptureMxcsrStatusDelta 0x1f80 0x1fa0,
     pf_resultSerial = 1, pf_producerGeneration = 1, pf_outputContentHash = hash,
     pf_ownedBytesIdentity = 32, pf_outputByteSize = 6176, pf_normalizedMxcsr = 0x1f80,
     pf_proofVersion = 2\<rparr>"

definition sampleResult :: OwnedProducerResult where
  "sampleResult = \<lparr>or_address = 16, or_proof = sampleProof (HashBytes sampleBytes), or_data = 32,
     or_bytes = sampleBytes\<rparr>"

lemma sample_complete: "proofComplete sampleResult"
proof -
  have "ProducerResultProofStructurallyComplete (sampleProof 0)" by code_simp
  then have "ProducerResultProofStructurallyComplete (sampleProof (HashBytes sampleBytes))"
    by (simp add: ProducerResultProofStructurallyComplete_def sampleProof_def)
  then show ?thesis by (simp add: proofComplete_def sampleResult_def sampleBytes_def sampleProof_def)
qed

definition awaitingJob :: Job where
  "awaitingJob = (job_init sampleKey 1)\<lparr>jb_state := AwaitingKernel, jb_outer := sampleOuter,
     jb_destination := sampleDestination, jb_kernelWindowOpen := True\<rparr>"

lemma awaiting_job: "fst (stepsJob awaitingOps created) = awaitingJob" by code_simp


definition sampleEnvelope :: "u64 \<Rightarrow> RenderCommitEnvelopeProof" where
  "sampleEnvelope hash =
    \<lparr>ce_frozenKey = sampleKey, ce_outer = sampleOuter, ce_destination = sampleDestination,
     ce_producerResult = sampleProof hash, ce_commitSerial = 7, ce_normalizedOwnerMxcsr = 0x1f80,
     ce_proofVersion = 1\<rparr>"

lemma sample_minted:
  "MintAfterLock sampleKey sampleOuter sampleDestination (Some sampleResult) 7 0x1f80 =
    Some (sampleEnvelope (HashBytes sampleBytes), sampleResult)"
  and sample_envelope: "envelope_valid (Some (sampleEnvelope (HashBytes sampleBytes), sampleResult))"
proof -
  have "RenderCommitEnvelopeComplete (sampleEnvelope 0)" by code_simp
  then have c: "RenderCommitEnvelopeComplete (sampleEnvelope (HashBytes sampleBytes))"
    using sample_complete
    by (simp add: RenderCommitEnvelopeComplete_def sampleEnvelope_def sampleProof_def
        ProducerResultProofStructurallyComplete_def)
  have d: "DestinationValid sampleKey sampleOuter sampleDestination" by code_simp
  have n: "NormalizeMxcsrControl 0x1f80 = 0x1f80" "HasSafeMxcsrControl 0x1f80" by code_simp+
  have p: "pf_frozenKey (or_proof sampleResult) = sampleKey" "pf_normalizedMxcsr (or_proof sampleResult) = 0x1f80"
    "or_proof sampleResult = sampleProof (HashBytes sampleBytes)"
    by (simp_all add: sampleResult_def sampleProof_def)
  have e: "\<lparr>ce_frozenKey = sampleKey, ce_outer = sampleOuter, ce_destination = sampleDestination,
     ce_producerResult = sampleProof h, ce_commitSerial = 7, ce_normalizedOwnerMxcsr = 0x1f80,
     ce_proofVersion = kRenderCommitEnvelopeVersion\<rparr> = sampleEnvelope h" for h
    by (simp add: sampleEnvelope_def kRenderCommitEnvelopeVersion_def)
  show "MintAfterLock sampleKey sampleOuter sampleDestination (Some sampleResult) 7 0x1f80 =
      Some (sampleEnvelope (HashBytes sampleBytes), sampleResult)"
    using p(1,2) by (simp add: MintAfterLock_def Let_def n d sample_complete p(3) e c)
  show "envelope_valid (Some (sampleEnvelope (HashBytes sampleBytes), sampleResult))"
    by (simp add: envelope_valid_def sample_complete c p(3)) (simp add: sampleEnvelope_def)
qed

lemma awaiting_fields:
  "jb_activeGeneration awaitingJob = 1" "jb_activeGenerationAtomic awaitingJob = 1"
  "jb_state awaitingJob = AwaitingKernel" "jb_route awaitingJob = NoRoute"
  "jb_routeAuthority awaitingJob = NoRoute" "jb_terminal awaitingJob = NoTerminal"
  "jb_producerResult awaitingJob = None" "jb_frozen awaitingJob = sampleKey"
  "jb_outer awaitingJob = sampleOuter" "jb_destination awaitingJob = sampleDestination"
  "jb_kernelWindowOpen awaitingJob"
  by (simp_all add: awaitingJob_def job_init_def)

definition copyOps :: "((nat \<Rightarrow> bool) \<times> jobOp) list" where
  "copyOps = awaitingOps @ [(noRace, PublishOp 1 (Some sampleResult)), (noRace, SelectOp True 1 0x1f80)]"

lemma copy_published:
  assumes "fst s = awaitingJob"
  shows "fst (stepJob noRace (PublishOp 1 (Some sampleResult)) s) = awaitingJob\<lparr>jb_producerResult := Some sampleResult\<rparr>"
proof -
  have "pf_frozenKey (or_proof sampleResult) = sampleKey" "pf_producerGeneration (or_proof sampleResult) = 1"
    "pf_outputByteSize (or_proof sampleResult) = 6176"
    by (simp_all add: sampleResult_def sampleProof_def)
  moreover have "os_producerGeneration (fk_owner sampleKey) = 1" "ExpectedOutputBytes sampleKey = 6176"
    by code_simp+
  moreover have "awaitingJob\<lparr>jb_producerPublicationSettled := False\<rparr> = awaitingJob"
    by (simp add: awaitingJob_def job_init_def)
  ultimately show ?thesis
    using assms
    by (simp add: stepJob_def publishProducerResult_def Let_def materializeAtomicRoute_def contend_def
        awaiting_fields sample_complete isTerminal_def) (simp add: awaitingJob_def job_init_def)
qed

lemma copy_selected:
  assumes "fst s = awaitingJob\<lparr>jb_producerResult := Some sampleResult\<rparr>"
  shows "jb_state (fst (stepJob noRace (SelectOp True 1 0x1f80) s)) = CommitClaimed"
proof -
  have "NormalizeMxcsrControl 0x1f80 = 0x1f80" "HasSafeMxcsrControl 0x1f80"
    "dp_lockSerial sampleDestination = 7" by code_simp+
  moreover have "pf_normalizedMxcsr (or_proof sampleResult) = 0x1f80"
    by (simp add: sampleResult_def sampleProof_def)
  ultimately show ?thesis
    using assms
    by (simp add: stepJob_def trySelectKernelRoute_def selectLocked_def Let_def contend_def awaiting_fields
        isTerminal_def sample_minted sample_envelope)
qed

lemma copy_claimed: "jb_state (fst (stepsJob copyOps created)) = CommitClaimed"
  and copy_orderly: "orderlyOps copyOps created"
proof -
  have s: "stepsJob copyOps created = stepJob noRace (SelectOp True 1 0x1f80)
      (stepJob noRace (PublishOp 1 (Some sampleResult)) (stepsJob awaitingOps created))"
    by (simp add: copyOps_def awaitingOps_def)
  show "jb_state (fst (stepsJob copyOps created)) = CommitClaimed"
    unfolding s by (rule copy_selected [OF copy_published [OF awaiting_job]])
  have "orderlyOps (xs @ ys) t \<longleftrightarrow> orderlyOps xs t \<and> orderlyOps ys (stepsJob xs t)" for xs ys t
    by (induction xs t rule: orderlyOps.induct) (simp_all add: conj_assoc)
  then show "orderlyOps copyOps created"
    unfolding copyOps_def
    by (simp add: awaiting_orderly awaiting_job copy_published awaiting_fields)
qed

text \<open>Two callbacks that differ on unsafe views only.\<close>

definition boldCallback :: CopyCallback where "boldCallback = (\<lambda>_ _. sampleCompletion)"

definition carefulCallback :: CopyCallback where
  "carefulCallback = (\<lambda>view destination.
     if length (rv_bytes view) = unat (dp_size destination) \<and> dp_lockActive destination
     then sampleCompletion else completion_init)"

theorem copy_callback_sees_only_safe_copies_witness:
  "jb_state (fst (stepsJob copyOps created)) = CommitClaimed \<and>
   copyProducerResultUnderLease noRace 1 (Some boldCallback) (stepsJob copyOps created) =
   copyProducerResultUnderLease noRace 1 (Some carefulCallback) (stepsJob copyOps created)"
proof -
  let ?s = "stepsJob copyOps created"
  have "run True ([fst ?s], snd ?s)"
    by (rule run_sample [OF copy_orderly]) (simp add: copyOps_def ops_noRace)
  from copy_callback_sees_only_safe_copies [OF this, of "fst ?s" boldCallback carefulCallback noRace 1]
  show ?thesis using copy_claimed by (simp add: safeCopy_def boldCallback_def carefulCallback_def)
qed

subsection \<open>The run that leaks\<close>




text \<open>A key as the factory sees it.\<close>

definition sampleEligibility :: EligibilityInput where
  "sampleEligibility =
    \<lparr>ei_path = CommonPath, ei_opaque = True, ei_specialDispatch = False, ei_skinMode = 1,
     ei_outputFormat = 2, ei_fvf = 0x112, ei_outputStride = 32, ei_vertexCount = 193,
     ei_positionStride = 12, ei_normalStride = 12, ei_groupSlotStride = 1, ei_uv0Stride = 8,
     ei_uvLayerCount = 1, ei_paletteGroupCount = 1, ei_extra = 0, ei_uv1 = 0, ei_positions = 1,
     ei_positionFloatCount = 579, ei_normals = 1, ei_normalFloatCount = 579, ei_groupSlots = 1,
     ei_groupSlotCount = 193, ei_uv0 = 1, ei_uv0FloatCount = 386, ei_palette = 1,
     ei_paletteFloatCount = 12, ei_immutableSourceSealedToken = 1, ei_paletteSealedToken = 1,
     ei_frozenMxcsr = 0x1f80, ei_currentMxcsr = 0x1f80\<rparr>"

definition eligibleMemory :: Memory where
  "eligibleMemory = \<lparr>mem_isfinite = (\<lambda>_ _. True), mem_byte = (\<lambda>_ _. 0)\<rparr>"

theorem created_result_is_published_witness:
  "\<exists>r. or_bytes r = sampleBytes \<and>
     fst (publishProducerResult noRace 1 (Some r) (awaitingJob, ledger_init)) = Published"
proof -
  have finite: "IsFiniteSpan eligibleMemory v n \<longleftrightarrow> v \<noteq> 0" for v n
    by (simp add: IsFiniteSpan_def eligibleMemory_def list_all_iff)
  have slots: "\<not> list_ex (\<lambda>k. ucast (mem_byte eligibleMemory p k) \<ge> (1 :: u32)) ks" for p ks
    by (induction ks) (simp_all add: eligibleMemory_def)
  have control: "NormalizeMxcsrControl 0x1f80 = 0x1f80" "HasSafeMxcsrControl 0x1f80" by code_simp+
  have "snd (ValidateFormat2Eligibility eligibleMemory sampleEligibility)"
    using slots
    by (simp add: ValidateFormat2Eligibility_def eligibilityTests_def sampleEligibility_def Let_def finite
        control format2_limits)
  moreover have "FrozenKeyValid sampleKey" by code_simp
  ultimately have e: "EligibilityMatchesFrozenKey eligibleMemory sampleKey sampleEligibility"
    by (simp add: EligibilityMatchesFrozenKey_def sampleEligibility_def sampleKey_def Let_def control
        format2_limits ByteCountMatches_def)
  have x: "ExpectedOutputBytes sampleKey = 6176" "md_valid (CaptureMxcsrStatusDelta 0x1f80 0x1fa0)"
    "md_normalizedControl (CaptureMxcsrStatusDelta 0x1f80 0x1fa0) = pp_floatingPointControl (fk_palette sampleKey)"
    by code_simp+
  have len: "length sampleBytes = 6176" "sampleBytes \<noteq> []" by (simp_all add: sampleBytes_def)
  obtain r where r: "Create eligibleMemory 16 32 (jb_frozen awaitingJob) sampleEligibility 1 sampleBytes 0x1f80 0x1fa0 =
      Some r"
    using e x len by (simp add: Create_def Let_def awaiting_fields)
  have "proofComplete r \<and> or_bytes r = sampleBytes \<and>
      fst (publishProducerResult noRace (jb_activeGeneration awaitingJob) (Some r)
        (awaitingJob, ledger_init)) = Published \<and>
      jb_producerResult (fst (snd (publishProducerResult noRace (jb_activeGeneration awaitingJob) (Some r)
        (awaitingJob, ledger_init)))) = Some r"
    by (rule created_result_is_published [OF r]) (simp_all add: awaiting_fields)
  then show ?thesis by (auto simp: awaiting_fields)
qed

end
