(* ===== verification/WorkloadGovernor.thy ===== *)
theory WorkloadGovernor
  imports War3Prelude "HOL-Library.Multiset"
begin

section \<open>The workload governor\<close>

text \<open>
  \<open>src/src/d3d9/war3/render/war3_gpu_workload_governor.h\<close> and \<open>.cpp\<close>, with the scoped reservation
  through which \<open>src/src/d3d9/d3d9_war3_shadow.cpp\<close> uses it: one frame's budget of draws, vertices and
  indices, shared by three consumers; every reservation is for all three dimensions or refused. The
  reservations that are held are the abstract state that the counters refine.
\<close>

subsection \<open>Values\<close>

datatype Consumer = DirectionalCsm | VolumeSun | PointShadowConsumer | ConsumerCount

fun consumerIndex :: "Consumer \<Rightarrow> nat" where
  "consumerIndex DirectionalCsm = 0"
| "consumerIndex VolumeSun = 1"
| "consumerIndex PointShadowConsumer = 2"
| "consumerIndex ConsumerCount = 3"

datatype RejectReason = NoReject | InvalidFrame | InvalidRequest | ArithmeticOverflow | DrawBudget
  | VertexBudget | IndexBudget

record WorkloadCost =
  wc_draws :: u64
  wc_vertices :: u64
  wc_indices :: u64
  wc_valid :: bool

definition cost_init :: WorkloadCost where
  "cost_init = \<lparr>wc_draws = 0, wc_vertices = 0, wc_indices = 0, wc_valid = True\<rparr>"

record WorkloadLimits =
  wl_maxDraws :: u64
  wl_maxVertices :: u64
  wl_maxIndices :: u64

definition limits_init :: WorkloadLimits where
  "limits_init = \<lparr>wl_maxDraws = 32768, wl_maxVertices = 64 * 1024 * 1024,
     wl_maxIndices = 192 * 1024 * 1024\<rparr>"

definition limits_valid :: "WorkloadLimits \<Rightarrow> bool" where
  "limits_valid l \<longleftrightarrow> wl_maxDraws l \<noteq> 0 \<and> wl_maxVertices l \<noteq> 0 \<and> wl_maxIndices l \<noteq> 0"

record ConsumerDiagnostics =
  cd_requested :: WorkloadCost
  cd_accepted :: WorkloadCost
  cd_requestedItems :: u64
  cd_acceptedItems :: u64
  cd_acceptedReservations :: u64
  cd_rolledBackReservations :: u64
  cd_rejectedReservations :: u64

definition consumer_init :: ConsumerDiagnostics where
  "consumer_init = \<lparr>cd_requested = cost_init, cd_accepted = cost_init, cd_requestedItems = 0,
     cd_acceptedItems = 0, cd_acceptedReservations = 0, cd_rolledBackReservations = 0,
     cd_rejectedReservations = 0\<rparr>"

record Governor =
  go_frameSerial :: u64
  go_limits :: WorkloadLimits
  go_used :: WorkloadCost
  go_consumers :: "ConsumerDiagnostics list"
  go_lastRejectedConsumer :: Consumer
  go_lastRejectReason :: RejectReason
  go_arithmeticOverflowRejectCount :: u64
  go_pointLastCompleteHoldCount :: u64
  go_pointPublicationInvalidatedCount :: u64

definition beginFrame :: "u64 \<Rightarrow> WorkloadLimits \<Rightarrow> Governor" where
  "beginFrame frameSerial limits =
    \<lparr>go_frameSerial = frameSerial, go_limits = limits, go_used = cost_init,
     go_consumers = replicate 3 consumer_init, go_lastRejectedConsumer = ConsumerCount,
     go_lastRejectReason = NoReject, go_arithmeticOverflowRejectCount = 0,
     go_pointLastCompleteHoldCount = 0, go_pointPublicationInvalidatedCount = 0\<rparr>"

text \<open>The constructor.\<close>

definition governor_init :: "WorkloadLimits \<Rightarrow> Governor" where
  "governor_init limits = beginFrame 0 limits"

subsection \<open>Checked arithmetic\<close>

definition checkedAdd :: "u64 \<Rightarrow> u64 \<Rightarrow> u64 option" where
  "checkedAdd lhs rhs = (if rhs > UINT64_MAX - lhs then None else Some (lhs + rhs))"

definition checkedMultiply :: "u64 \<Rightarrow> u64 \<Rightarrow> u64 option" where
  "checkedMultiply lhs rhs =
    (if lhs \<noteq> 0 \<and> rhs > UINT64_MAX div lhs then None else Some (lhs * rhs))"

definition AddCost :: "WorkloadCost \<Rightarrow> WorkloadCost \<Rightarrow> WorkloadCost option" where
  "AddCost lhs rhs =
    (if \<not> wc_valid lhs \<or> \<not> wc_valid rhs then None
     else
       case (checkedAdd (wc_draws lhs) (wc_draws rhs), checkedAdd (wc_vertices lhs) (wc_vertices rhs),
             checkedAdd (wc_indices lhs) (wc_indices rhs)) of
         (Some d, Some v, Some i) \<Rightarrow>
           Some \<lparr>wc_draws = d, wc_vertices = v, wc_indices = i, wc_valid = True\<rparr>
       | _ \<Rightarrow> None)"

definition SubtractCost :: "WorkloadCost \<Rightarrow> WorkloadCost \<Rightarrow> WorkloadCost option" where
  "SubtractCost lhs rhs =
    (if \<not> wc_valid lhs \<or> \<not> wc_valid rhs \<or> wc_draws rhs > wc_draws lhs \<or>
        wc_vertices rhs > wc_vertices lhs \<or> wc_indices rhs > wc_indices lhs
     then None
     else Some \<lparr>wc_draws = wc_draws lhs - wc_draws rhs, wc_vertices = wc_vertices lhs - wc_vertices rhs,
                wc_indices = wc_indices lhs - wc_indices rhs, wc_valid = True\<rparr>)"

text \<open>The result and the total: the total is poisoned when the draw does not fit into it.\<close>

definition addRepeatedDraw :: "WorkloadCost \<Rightarrow> u64 \<Rightarrow> u64 \<Rightarrow> u64 \<Rightarrow> bool \<times> WorkloadCost" where
  "addRepeatedDraw sum0 repeatCount vertexCount indexCount =
    (if \<not> wc_valid sum0 \<or> repeatCount = 0 then (False, sum0\<lparr>wc_valid := False\<rparr>)
     else
       case (checkedMultiply 1 repeatCount, checkedMultiply vertexCount repeatCount,
             checkedMultiply indexCount repeatCount) of
         (Some d, Some v, Some i) \<Rightarrow>
           (case AddCost sum0 \<lparr>wc_draws = d, wc_vertices = v, wc_indices = i, wc_valid = True\<rparr> of
              Some s \<Rightarrow> (True, s)
            | None \<Rightarrow> (False, sum0\<lparr>wc_valid := False\<rparr>))
       | _ \<Rightarrow> (False, sum0\<lparr>wc_valid := False\<rparr>))"

subsection \<open>Reservations\<close>

definition setConsumer :: "Consumer \<Rightarrow> (ConsumerDiagnostics \<Rightarrow> ConsumerDiagnostics) \<Rightarrow> Governor \<Rightarrow> Governor" where
  "setConsumer c f g =
    g\<lparr>go_consumers := (go_consumers g)[consumerIndex c := f (go_consumers g ! consumerIndex c)]\<rparr>"

definition rejectReservation :: "Consumer \<Rightarrow> RejectReason \<Rightarrow> Governor \<Rightarrow> Governor" where
  "rejectReservation c reason g =
    (let g = (if consumerIndex c < length (go_consumers g)
              then setConsumer c (\<lambda>d. d\<lparr>cd_rejectedReservations := cd_rejectedReservations d + 1\<rparr>) g
              else g);
         g = g\<lparr>go_lastRejectedConsumer := c, go_lastRejectReason := reason\<rparr>
     in if reason = ArithmeticOverflow
        then g\<lparr>go_arithmeticOverflowRejectCount := go_arithmeticOverflowRejectCount g + 1\<rparr> else g)"

definition admitReservation :: "Consumer \<Rightarrow> u64 \<Rightarrow> WorkloadCost \<Rightarrow> Governor \<Rightarrow> RejectReason + Governor" where
  "admitReservation c itemCount cost g =
    (let d = go_consumers g ! consumerIndex c; l = go_limits g in
     if go_frameSerial g = 0 \<or> \<not> limits_valid l then Inl InvalidFrame
     else if \<not> wc_valid cost \<or> itemCount = 0 then Inl InvalidRequest
     else
       case AddCost (go_used g) cost of
         None \<Rightarrow> Inl ArithmeticOverflow
       | Some candidate \<Rightarrow>
           if wc_draws candidate > wl_maxDraws l then Inl DrawBudget
           else if wc_vertices candidate > wl_maxVertices l then Inl VertexBudget
           else if wc_indices candidate > wl_maxIndices l then Inl IndexBudget
           else
             case AddCost (cd_accepted d) cost of
               None \<Rightarrow> Inl ArithmeticOverflow
             | Some accepted \<Rightarrow>
                 (case checkedAdd (cd_acceptedItems d) itemCount of
                    None \<Rightarrow> Inl ArithmeticOverflow
                  | Some acceptedItems \<Rightarrow>
                      Inr (setConsumer c (\<lambda>d. d\<lparr>cd_accepted := accepted, cd_acceptedItems := acceptedItems,
                             cd_acceptedReservations := cd_acceptedReservations d + 1\<rparr>)
                           (g\<lparr>go_used := candidate\<rparr>))))"

definition tryReserve :: "Consumer \<Rightarrow> u64 \<Rightarrow> WorkloadCost \<Rightarrow> Governor \<Rightarrow> bool \<times> Governor" where
  "tryReserve c itemCount cost g =
    (if consumerIndex c \<ge> length (go_consumers g) then (False, rejectReservation c InvalidRequest g)
     else
       let d = go_consumers g ! consumerIndex c in
       case AddCost (cd_requested d) cost of
         None \<Rightarrow>
           (False, rejectReservation c ArithmeticOverflow
                     (setConsumer c (\<lambda>d. d\<lparr>cd_requested := (cd_requested d)\<lparr>wc_valid := False\<rparr>\<rparr>) g))
       | Some requested \<Rightarrow>
           let g = setConsumer c (\<lambda>d. d\<lparr>cd_requested := requested\<rparr>) g in
           case checkedAdd (cd_requestedItems d) itemCount of
             None \<Rightarrow> (False, rejectReservation c ArithmeticOverflow g)
           | Some items \<Rightarrow>
               let g = setConsumer c (\<lambda>d. d\<lparr>cd_requestedItems := items\<rparr>) g in
               case admitReservation c itemCount cost g of
                 Inl reason \<Rightarrow> (False, rejectReservation c reason g)
               | Inr g \<Rightarrow> (True, g))"

definition cancelReservation :: "Consumer \<Rightarrow> u64 \<Rightarrow> WorkloadCost \<Rightarrow> Governor \<Rightarrow> bool \<times> Governor" where
  "cancelReservation c itemCount cost g =
    (if consumerIndex c \<ge> length (go_consumers g) \<or> itemCount = 0 \<or> \<not> wc_valid cost then (False, g)
     else
       let d = go_consumers g ! consumerIndex c in
       if cd_acceptedItems d < itemCount \<or> cd_acceptedReservations d = 0 then (False, g)
       else
         case (SubtractCost (go_used g) cost, SubtractCost (cd_accepted d) cost) of
           (Some used, Some accepted) \<Rightarrow>
             (True, setConsumer c (\<lambda>d. d\<lparr>cd_accepted := accepted,
                       cd_acceptedItems := cd_acceptedItems d - itemCount,
                       cd_acceptedReservations := cd_acceptedReservations d - 1,
                       cd_rolledBackReservations := cd_rolledBackReservations d + 1\<rparr>)
                     (g\<lparr>go_used := used\<rparr>))
         | _ \<Rightarrow> (False, g))"

definition notePointShadowBudgetFallback :: "bool \<Rightarrow> Governor \<Rightarrow> Governor" where
  "notePointShadowBudgetFallback heldLastComplete g =
    (if heldLastComplete
     then g\<lparr>go_pointLastCompleteHoldCount := go_pointLastCompleteHoldCount g + 1\<rparr>
     else g\<lparr>go_pointPublicationInvalidatedCount := go_pointPublicationInvalidatedCount g + 1\<rparr>)"

subsection \<open>The scoped reservation\<close>

record ScopedReservation =
  sr_consumer :: Consumer
  sr_itemCount :: u64
  sr_cost :: WorkloadCost
  sr_active :: bool
  sr_committed :: bool

definition scope_init :: ScopedReservation where
  "scope_init = \<lparr>sr_consumer = ConsumerCount, sr_itemCount = 0, sr_cost = cost_init, sr_active = False,
     sr_committed = False\<rparr>"

definition scope_reserve ::
  "Consumer \<Rightarrow> u64 \<Rightarrow> WorkloadCost \<Rightarrow> ScopedReservation \<times> Governor \<Rightarrow>
    bool \<times> ScopedReservation \<times> Governor" where
  "scope_reserve c itemCount cost = (\<lambda>(r, g).
    if sr_active r then (False, r, g)
    else
      case tryReserve c itemCount cost g of
        (granted, g) \<Rightarrow>
          if granted
          then (True, r\<lparr>sr_consumer := c, sr_itemCount := itemCount, sr_cost := cost, sr_active := True\<rparr>, g)
          else (False, r, g))"

definition scope_commit :: "ScopedReservation \<Rightarrow> ScopedReservation" where
  "scope_commit r = (if sr_active r then r\<lparr>sr_committed := True\<rparr> else r)"

definition scope_end :: "ScopedReservation \<times> Governor \<Rightarrow> Governor" where
  "scope_end = (\<lambda>(r, g).
    if sr_active r \<and> \<not> sr_committed r
    then snd (cancelReservation (sr_consumer r) (sr_itemCount r) (sr_cost r) g) else g)"

subsection \<open>The reservations that are held\<close>

text \<open>A cost is the sum of the costs of the held reservations, without wrap-around.\<close>

definition costs_are :: "WorkloadCost \<Rightarrow> ScopedReservation multiset \<Rightarrow> bool" where
  "costs_are k A \<longleftrightarrow> wc_valid k \<and>
     unat (wc_draws k) = (\<Sum>r\<in>#A. unat (wc_draws (sr_cost r))) \<and>
     unat (wc_vertices k) = (\<Sum>r\<in>#A. unat (wc_vertices (sr_cost r))) \<and>
     unat (wc_indices k) = (\<Sum>r\<in>#A. unat (wc_indices (sr_cost r)))"

lemma costs_empty [simp]: "costs_are cost_init {#}"
  by (simp add: costs_are_def cost_init_def)

lemma checkedAdd_some: "checkedAdd a b = Some c \<Longrightarrow> unat c = unat a + unat b"
  by (auto simp: checkedAdd_def not_less split: if_splits intro!: unat_add_no_wrap [of _ _ UINT64_MAX])
    (metis add.commute le_add_diff_inverse2 unat_UINT64_MAX unat_add_le_sub word_n1_ge)

lemma checkedAdd_none: "checkedAdd a b = None \<longleftrightarrow> unat a + unat b \<ge> 2 ^ 64"
  by (simp add: checkedAdd_def word_less_nat_alt unat_sub_if') (use unat_u64_bound [of a] in linarith)

lemma checkedAdd_fits: "unat a + unat b < 2 ^ 64 \<Longrightarrow> \<exists>c. checkedAdd a b = Some c"
  using checkedAdd_none [of a b] by (cases "checkedAdd a b") auto

lemma AddCost_costs:
  assumes "costs_are k A" and "AddCost k (sr_cost r) = Some s"
  shows "costs_are s (add_mset r A)"
  using assms by (auto simp: AddCost_def costs_are_def checkedAdd_some split: if_splits option.splits)

lemma AddCost_none:
  assumes "costs_are k A" and "wc_valid c"
  shows "AddCost k c = None \<longleftrightarrow>
    unat (wc_draws k) + unat (wc_draws c) \<ge> 2 ^ 64 \<or>
    unat (wc_vertices k) + unat (wc_vertices c) \<ge> 2 ^ 64 \<or>
    unat (wc_indices k) + unat (wc_indices c) \<ge> 2 ^ 64"
  using assms unfolding checkedAdd_none [symmetric]
  by (auto simp: AddCost_def costs_are_def split: option.splits)

lemma AddCost_fields:
  "AddCost k c = Some s \<Longrightarrow> wc_valid s \<and> unat (wc_draws s) = unat (wc_draws k) + unat (wc_draws c) \<and>
    unat (wc_vertices s) = unat (wc_vertices k) + unat (wc_vertices c) \<and>
    unat (wc_indices s) = unat (wc_indices k) + unat (wc_indices c)"
  by (auto simp: AddCost_def checkedAdd_some split: if_splits option.splits)

lemma SubtractCost_costs:
  assumes "costs_are k (add_mset r A)" and "wc_valid (sr_cost r)"
  obtains s where "SubtractCost k (sr_cost r) = Some s" and "costs_are s A"
proof -
  have le: "wc_draws (sr_cost r) \<le> wc_draws k" "wc_vertices (sr_cost r) \<le> wc_vertices k"
    "wc_indices (sr_cost r) \<le> wc_indices k"
    using assms(1) by (simp_all add: costs_are_def word_le_nat_alt)
  let ?s = "\<lparr>wc_draws = wc_draws k - wc_draws (sr_cost r), wc_vertices = wc_vertices k - wc_vertices (sr_cost r),
      wc_indices = wc_indices k - wc_indices (sr_cost r), wc_valid = True\<rparr>"
  have "SubtractCost k (sr_cost r) = Some ?s"
    using assms le by (simp add: SubtractCost_def costs_are_def not_less)
  moreover have "costs_are ?s A"
    using assms(1) le by (simp add: costs_are_def unat_sub)
  ultimately show thesis by (rule that)
qed

text \<open>The counters of one consumer, for the reservations it holds.\<close>

definition consumer_ok :: "ConsumerDiagnostics \<Rightarrow> ScopedReservation multiset \<Rightarrow> bool" where
  "consumer_ok d A \<longleftrightarrow> costs_are (cd_accepted d) A \<and>
     unat (cd_acceptedItems d) = (\<Sum>r\<in>#A. unat (sr_itemCount r)) \<and>
     unat (cd_acceptedReservations d) = size A \<and>
     cd_acceptedItems d \<le> cd_requestedItems d"

definition ofConsumer :: "Consumer \<Rightarrow> ScopedReservation multiset \<Rightarrow> ScopedReservation multiset" where
  "ofConsumer c A = filter_mset (\<lambda>r. sr_consumer r = c) A"

definition real_consumer :: "Consumer \<Rightarrow> bool" where
  "real_consumer c \<longleftrightarrow> c \<noteq> ConsumerCount"

lemma consumer_index [simp]: "consumerIndex c < 3 \<longleftrightarrow> real_consumer c"
  by (cases c) (simp_all add: real_consumer_def)

lemma consumerIndex_inj: "consumerIndex c = consumerIndex c' \<longleftrightarrow> c = c'"
  by (cases c; cases c') simp_all

text \<open>A reservation as it is held: of a consumer, for some items, at a valid cost.\<close>

definition proper :: "ScopedReservation \<Rightarrow> bool" where
  "proper r \<longleftrightarrow> real_consumer (sr_consumer r) \<and> sr_itemCount r \<noteq> 0 \<and> wc_valid (sr_cost r)"

definition governor_ok :: "Governor \<Rightarrow> ScopedReservation multiset \<Rightarrow> bool" where
  "governor_ok g A \<longleftrightarrow> length (go_consumers g) = 3 \<and> costs_are (go_used g) A \<and>
     (\<forall>c. real_consumer c \<longrightarrow> consumer_ok (go_consumers g ! consumerIndex c) (ofConsumer c A)) \<and>
     (\<forall>r\<in>#A. proper r) \<and>
     (wc_draws (go_used g) \<le> wl_maxDraws (go_limits g) \<and>
      wc_vertices (go_used g) \<le> wl_maxVertices (go_limits g) \<and>
      wc_indices (go_used g) \<le> wl_maxIndices (go_limits g))"

lemma beginFrame_ok: "governor_ok (beginFrame serial limits) {#}"
proof -
  have "consumer_ok consumer_init {#}" by (simp add: consumer_ok_def consumer_init_def)
  then show ?thesis
    by (simp add: governor_ok_def beginFrame_def ofConsumer_def cost_init_def costs_are_def)
qed

text \<open>Changes of the statistics only.\<close>

definition same_books :: "ConsumerDiagnostics \<Rightarrow> ConsumerDiagnostics \<Rightarrow> bool" where
  "same_books d d' \<longleftrightarrow> cd_accepted d' = cd_accepted d \<and> cd_acceptedItems d' = cd_acceptedItems d \<and>
     cd_acceptedReservations d' = cd_acceptedReservations d \<and> cd_requestedItems d \<le> cd_requestedItems d'"

lemma consumer_ok_same: "consumer_ok d A \<Longrightarrow> same_books d d' \<Longrightarrow> consumer_ok d' A"
  by (auto simp: consumer_ok_def same_books_def)

lemma governor_ok_cong:
  assumes "governor_ok g A" and "go_used g' = go_used g" and "go_limits g' = go_limits g"
    and "length (go_consumers g') = length (go_consumers g)"
    and "\<And>c. real_consumer c \<Longrightarrow>
      same_books (go_consumers g ! consumerIndex c) (go_consumers g' ! consumerIndex c)"
  shows "governor_ok g' A"
  using assms(1-4) consumer_ok_same [OF _ assms(5)] by (simp add: governor_ok_def)

lemma setConsumer_nth:
  "length (go_consumers g) = 3 \<Longrightarrow> real_consumer c \<Longrightarrow> real_consumer c' \<Longrightarrow>
    go_consumers (setConsumer c f g) ! consumerIndex c' =
      (if c' = c then f (go_consumers g ! consumerIndex c) else go_consumers g ! consumerIndex c')"
  by (auto simp: setConsumer_def consumerIndex_inj nth_list_update)

lemma setConsumer_fields [simp]:
  "go_used (setConsumer c f g) = go_used g" "go_limits (setConsumer c f g) = go_limits g"
  "go_frameSerial (setConsumer c f g) = go_frameSerial g"
  "length (go_consumers (setConsumer c f g)) = length (go_consumers g)"
  by (simp_all add: setConsumer_def)

lemma reject_fields [simp]:
  "go_used (rejectReservation c reason g) = go_used g" "go_limits (rejectReservation c reason g) = go_limits g"
  "length (go_consumers (rejectReservation c reason g)) = length (go_consumers g)"
  by (simp_all add: rejectReservation_def Let_def)

lemma reject_ok: "governor_ok g A \<Longrightarrow> governor_ok (rejectReservation c reason g) A"
proof (rule governor_ok_cong)
  fix c' assume "governor_ok g A" "real_consumer c'"
  then show "same_books (go_consumers g ! consumerIndex c')
      (go_consumers (rejectReservation c reason g) ! consumerIndex c')"
    by (auto simp: rejectReservation_def Let_def governor_ok_def setConsumer_def nth_list_update same_books_def)
qed simp_all


lemma setConsumer_same:
  assumes "governor_ok g A" and "real_consumer c" and "same_books (go_consumers g ! consumerIndex c) (f (go_consumers g ! consumerIndex c))"
  shows "governor_ok (setConsumer c f g) A"
proof (rule governor_ok_cong [OF assms(1)])
  fix c' assume "real_consumer c'"
  then show "same_books (go_consumers g ! consumerIndex c') (go_consumers (setConsumer c f g) ! consumerIndex c')"
    using assms by (simp add: setConsumer_nth governor_ok_def) (simp add: same_books_def)
qed simp_all

text \<open>The reservation a successful call leaves.\<close>

abbreviation reservation :: "Consumer \<Rightarrow> u64 \<Rightarrow> WorkloadCost \<Rightarrow> ScopedReservation" where
  "reservation c n cost \<equiv> scope_init\<lparr>sr_consumer := c, sr_itemCount := n, sr_cost := cost, sr_active := True\<rparr>"

lemma admit_ok:
  assumes ok: "governor_ok g A" and c: "real_consumer c" and r: "sr_consumer r = c" "sr_itemCount r = n" "sr_cost r = cost"
    and admitted: "admitReservation c n cost g = Inr g'"
    and demand: "unat (cd_acceptedItems (go_consumers g ! consumerIndex c)) + unat n
      \<le> unat (cd_requestedItems (go_consumers g ! consumerIndex c))"
  shows "governor_ok g' (add_mset r A)"
proof -
  let ?d = "go_consumers g ! consumerIndex c"
  obtain candidate accepted items where a: "AddCost (go_used g) cost = Some candidate"
    "AddCost (cd_accepted ?d) cost = Some accepted" "checkedAdd (cd_acceptedItems ?d) n = Some items"
    "wc_draws candidate \<le> wl_maxDraws (go_limits g)" "wc_vertices candidate \<le> wl_maxVertices (go_limits g)"
    "wc_indices candidate \<le> wl_maxIndices (go_limits g)" "wc_valid cost" "n \<noteq> 0"
    and g': "g' = setConsumer c (\<lambda>d. d\<lparr>cd_accepted := accepted, cd_acceptedItems := items,
        cd_acceptedReservations := cd_acceptedReservations d + 1\<rparr>) (g\<lparr>go_used := candidate\<rparr>)"
    using admitted by (auto simp: admitReservation_def Let_def not_less split: if_splits option.splits)
  have d: "consumer_ok ?d (ofConsumer c A)" and len: "length (go_consumers g) = 3"
    using ok c by (simp_all add: governor_ok_def)
  have items: "unat items = unat (cd_acceptedItems ?d) + unat n" by (rule checkedAdd_some [OF a(3)])
  have one: "\<And>x. x \<in># ofConsumer c A \<Longrightarrow> 1 \<le> unat (sr_itemCount x)"
    using ok by (auto simp: governor_ok_def proper_def ofConsumer_def unat_gt_0 Suc_le_eq)
  have "size (ofConsumer c A) \<le> (\<Sum>x\<in>#ofConsumer c A. unat (sr_itemCount x))"
    unfolding size_eq_sum_mset by (rule sum_mset_mono) (rule one)
  moreover have n1: "1 \<le> unat n" using a(8) by (simp add: Suc_le_eq unat_gt_0)
  ultimately have "unat (cd_acceptedReservations ?d) + 1 \<le> unat items"
    using d items n1 by (simp add: consumer_ok_def)
  then have count: "unat (cd_acceptedReservations ?d + 1) = unat (cd_acceptedReservations ?d) + 1"
    using unat_add_no_wrap [of "cd_acceptedReservations ?d" 1 items] by simp
  have "consumer_ok (?d\<lparr>cd_accepted := accepted, cd_acceptedItems := items,
      cd_acceptedReservations := cd_acceptedReservations ?d + 1\<rparr>) (add_mset r (ofConsumer c A))"
    using d AddCost_costs [of "cd_accepted ?d" "ofConsumer c A" r accepted] a(2) r items count demand
    by (simp add: consumer_ok_def word_le_nat_alt)
  moreover have "costs_are candidate (add_mset r A)"
    using AddCost_costs [of "go_used g" A r candidate] a(1) r ok by (simp add: governor_ok_def)
  ultimately show ?thesis
    using ok c len r a(4-8)
    by (auto simp: governor_ok_def g' setConsumer_nth ofConsumer_def proper_def)
qed

lemma tryReserve_ok:
  assumes ok: "governor_ok g A" and t: "tryReserve c n cost g = (granted, g')"
    and r: "sr_consumer r = c" "sr_itemCount r = n" "sr_cost r = cost"
  shows "governor_ok g' (if granted then add_mset r A else A)"
proof (cases "real_consumer c")
  case False
  then have "consumerIndex c \<ge> 3" by (cases c) (simp_all add: real_consumer_def)
  then have "tryReserve c n cost g = (False, rejectReservation c InvalidRequest g)"
    using ok by (simp add: tryReserve_def governor_ok_def)
  then show ?thesis using t reject_ok [OF ok] by auto
next
  case True
  let ?d = "go_consumers g ! consumerIndex c"
  have len: "length (go_consumers g) = 3" and idx: "\<not> consumerIndex c \<ge> length (go_consumers g)"
    using ok True by (simp_all add: governor_ok_def not_le)
  show ?thesis
  proof (cases "AddCost (cd_requested ?d) cost")
    case None
    have "governor_ok (setConsumer c (\<lambda>d. d\<lparr>cd_requested := (cd_requested d)\<lparr>wc_valid := False\<rparr>\<rparr>) g) A"
      by (rule setConsumer_same [OF ok True]) (simp add: same_books_def)
    then show ?thesis using t None idx reject_ok by (auto simp: tryReserve_def)
  next
    case (Some requested)
    let ?g = "setConsumer c (\<lambda>d. d\<lparr>cd_requested := requested\<rparr>) g"
    have g1: "governor_ok ?g A"
      by (rule setConsumer_same [OF ok True]) (simp add: same_books_def)
    have d1: "cd_requestedItems (go_consumers ?g ! consumerIndex c) = cd_requestedItems ?d"
      using len True by (simp add: setConsumer_nth)
    show ?thesis
    proof (cases "checkedAdd (cd_requestedItems ?d) n")
      case None
      then show ?thesis using t Some idx reject_ok [OF g1] by (auto simp: tryReserve_def Let_def)
    next
      case items: (Some items)
      let ?h = "setConsumer c (\<lambda>d. d\<lparr>cd_requestedItems := items\<rparr>) ?g"
      have sum: "unat items = unat (cd_requestedItems ?d) + unat n" by (rule checkedAdd_some [OF items])
      have g2: "governor_ok ?h A"
        by (rule setConsumer_same [OF g1 True]) (use sum d1 in \<open>simp add: same_books_def word_le_nat_alt\<close>)
      have hd: "go_consumers ?h ! consumerIndex c = ?d\<lparr>cd_requested := requested, cd_requestedItems := items\<rparr>"
        using len True by (simp add: setConsumer_nth)
      have "cd_acceptedItems ?d \<le> cd_requestedItems ?d"
        using ok True by (simp add: governor_ok_def consumer_ok_def)
      then have demand: "unat (cd_acceptedItems (go_consumers ?h ! consumerIndex c)) + unat n
          \<le> unat (cd_requestedItems (go_consumers ?h ! consumerIndex c))"
        unfolding hd using sum by (simp add: word_le_nat_alt)
      have eq: "tryReserve c n cost g = (case admitReservation c n cost ?h of
          Inl reason \<Rightarrow> (False, rejectReservation c reason ?h) | Inr g \<Rightarrow> (True, g))"
        using idx Some items by (simp add: tryReserve_def Let_def)
      show ?thesis
        using t admit_ok [OF g2 True r _ demand] reject_ok [OF g2]
        by (auto simp: eq split: sum.splits)
    qed
  qed
qed


lemma cancel_ok:
  assumes ok: "governor_ok g (add_mset r A)"
  shows "fst (cancelReservation (sr_consumer r) (sr_itemCount r) (sr_cost r) g)"
    and "governor_ok (snd (cancelReservation (sr_consumer r) (sr_itemCount r) (sr_cost r) g)) A"
proof -
  let ?c = "sr_consumer r"
  let ?d = "go_consumers g ! consumerIndex ?c"
  have r: "real_consumer ?c" "sr_itemCount r \<noteq> 0" "wc_valid (sr_cost r)"
    using ok by (simp_all add: governor_ok_def proper_def)
  have len: "length (go_consumers g) = 3" and idx: "\<not> consumerIndex ?c \<ge> length (go_consumers g)"
    using ok r(1) by (simp_all add: governor_ok_def not_le)
  have d: "consumer_ok ?d (add_mset r (ofConsumer ?c A))"
  proof -
    have "consumer_ok ?d (ofConsumer ?c (add_mset r A))" using ok r(1) by (simp add: governor_ok_def)
    then show ?thesis by (simp add: ofConsumer_def)
  qed
  then have items: "\<not> cd_acceptedItems ?d < sr_itemCount r" and count: "cd_acceptedReservations ?d \<noteq> 0"
    by (auto simp: consumer_ok_def word_less_nat_alt)
  obtain used where u: "SubtractCost (go_used g) (sr_cost r) = Some used" "costs_are used A"
    using SubtractCost_costs [OF _ r(3), of "go_used g" A] ok by (auto simp: governor_ok_def)
  obtain accepted where a: "SubtractCost (cd_accepted ?d) (sr_cost r) = Some accepted"
    "costs_are accepted (ofConsumer ?c A)"
    using SubtractCost_costs [OF _ r(3), of "cd_accepted ?d" "ofConsumer ?c A"] d by (auto simp: consumer_ok_def)
  let ?g = "setConsumer ?c (\<lambda>d. d\<lparr>cd_accepted := accepted, cd_acceptedItems := cd_acceptedItems d - sr_itemCount r,
      cd_acceptedReservations := cd_acceptedReservations d - 1,
      cd_rolledBackReservations := cd_rolledBackReservations d + 1\<rparr>) (g\<lparr>go_used := used\<rparr>)"
  have eq: "cancelReservation ?c (sr_itemCount r) (sr_cost r) g = (True, ?g)"
    using idx r items count by (simp add: cancelReservation_def u a Let_def)
  then show "fst (cancelReservation ?c (sr_itemCount r) (sr_cost r) g)" by simp
  have le: "wc_draws used \<le> wc_draws (go_used g)" "wc_vertices used \<le> wc_vertices (go_used g)"
    "wc_indices used \<le> wc_indices (go_used g)"
    using u(2) ok by (simp_all add: governor_ok_def costs_are_def word_le_nat_alt)
  have "consumer_ok (?d\<lparr>cd_accepted := accepted, cd_acceptedItems := cd_acceptedItems ?d - sr_itemCount r,
      cd_acceptedReservations := cd_acceptedReservations ?d - 1,
      cd_rolledBackReservations := cd_rolledBackReservations ?d + 1\<rparr>) (ofConsumer ?c A)"
  proof -
    have "sr_itemCount r \<le> cd_acceptedItems ?d" "1 \<le> cd_acceptedReservations ?d"
      using items count by (simp_all add: not_less word_le_nat_alt Suc_le_eq unat_gt_0)
    then show ?thesis
      using d a(2) by (simp add: consumer_ok_def unat_sub word_le_nat_alt)
  qed
  then have "governor_ok ?g A"
    using ok r(1) u(2) le len
    by (auto simp: governor_ok_def setConsumer_nth ofConsumer_def)
  then show "governor_ok (snd (cancelReservation ?c (sr_itemCount r) (sr_cost r) g)) A" using eq by simp
qed

subsection \<open>A frame\<close>

text \<open>
  The scopes that are open, in any number and nested in any way, the reservations that closed scopes
  had committed, and the governor.
\<close>

inductive frame_run ::
  "u64 \<Rightarrow> WorkloadLimits \<Rightarrow>
    ScopedReservation list \<times> ScopedReservation multiset \<times> Governor \<Rightarrow> bool"
  for serial limits where
  frame_begin: "frame_run serial limits ([], {#}, beginFrame serial limits)"
| frame_scope: "frame_run serial limits (rs, K, g) \<Longrightarrow> frame_run serial limits (rs @ [scope_init], K, g)"
| frame_reserve: "frame_run serial limits (rs, K, g) \<Longrightarrow> i < length rs \<Longrightarrow>
    scope_reserve c n cost (rs ! i, g) = (b, r, g') \<Longrightarrow> frame_run serial limits (rs[i := r], K, g')"
| frame_commit: "frame_run serial limits (rs, K, g) \<Longrightarrow> i < length rs \<Longrightarrow>
    frame_run serial limits (rs[i := scope_commit (rs ! i)], K, g)"
| frame_end: "frame_run serial limits (xs @ r # ys, K, g) \<Longrightarrow>
    frame_run serial limits (xs @ ys,
      (if sr_active r \<and> sr_committed r then add_mset r K else K), scope_end (r, g))"
| frame_note: "frame_run serial limits (rs, K, g) \<Longrightarrow>
    frame_run serial limits (rs, K, notePointShadowBudgetFallback b g)"

inductive_cases frame_runE: "frame_run serial limits (rs, K, g)"

text \<open>The reservations that are held: those of active open scopes and the committed ones.\<close>

definition heldBy :: "ScopedReservation list \<Rightarrow> ScopedReservation multiset \<Rightarrow> ScopedReservation multiset" where
  "heldBy rs K = filter_mset sr_active (mset rs) + K"

lemma costs_are_image:
  assumes "image_mset sr_cost A = image_mset sr_cost B"
  shows "costs_are k A \<longleftrightarrow> costs_are k B"
proof -
  have "(\<Sum>r\<in>#A. f (sr_cost r)) = (\<Sum>r\<in>#B. f (sr_cost r))" for f :: "WorkloadCost \<Rightarrow> nat"
    using arg_cong [OF assms, of "\<lambda>M. \<Sum>c\<in>#M. f c"] by (simp add: image_mset.compositionality comp_def)
  from this [of "\<lambda>c. unat (wc_draws c)"] this [of "\<lambda>c. unat (wc_vertices c)"]
    this [of "\<lambda>c. unat (wc_indices c)"]
  show ?thesis by (simp add: costs_are_def)
qed

text \<open>What the governor knows of a reservation does not include whether it was committed.\<close>

lemma governor_ok_commit:
  assumes "governor_ok g (add_mset r A)"
  shows "governor_ok g (add_mset (r\<lparr>sr_committed := b\<rparr>) A)"
proof -
  have i: "image_mset sr_cost (ofConsumer c (add_mset (r\<lparr>sr_committed := b\<rparr>) A)) =
      image_mset sr_cost (ofConsumer c (add_mset r A))" for c
    by (simp add: ofConsumer_def)
  have "consumer_ok d (ofConsumer c (add_mset (r\<lparr>sr_committed := b\<rparr>) A)) \<longleftrightarrow>
      consumer_ok d (ofConsumer c (add_mset r A))" for c d
    unfolding consumer_ok_def costs_are_image [OF i] by (auto simp: ofConsumer_def)
  moreover have "costs_are k (add_mset (r\<lparr>sr_committed := b\<rparr>) A) \<longleftrightarrow> costs_are k (add_mset r A)" for k
    by (rule costs_are_image) simp
  ultimately show ?thesis using assms by (simp add: governor_ok_def proper_def)
qed

lemma heldBy_update:
  assumes "i < length rs"
  shows "heldBy (rs[i := r]) K + (if sr_active (rs ! i) then {#rs ! i#} else {#}) =
    heldBy rs K + (if sr_active r then {#r#} else {#})"
proof -
  have m: "rs ! i \<in># mset rs" using assms by simp
  show ?thesis
    using assms m by (simp add: heldBy_def mset_update multiset_eq_iff)
qed

lemma scope_reserve_ok:
  assumes "governor_ok g A" and "scope_reserve c n cost (r0, g) = (b, r, g')"
  shows "governor_ok g' (if b then add_mset r A else A)" and "\<not> b \<Longrightarrow> r = r0"
    and "b \<Longrightarrow> \<not> sr_active r0 \<and> sr_active r"
proof -
  obtain granted h where t: "tryReserve c n cost g = (granted, h)" by fastforce
  show "governor_ok g' (if b then add_mset r A else A)" "\<not> b \<Longrightarrow> r = r0"
    "b \<Longrightarrow> \<not> sr_active r0 \<and> sr_active r"
    using assms t tryReserve_ok [OF assms(1) t, of "r0\<lparr>sr_consumer := c, sr_itemCount := n, sr_cost := cost, sr_active := True\<rparr>"]
    by (auto simp: scope_reserve_def split: if_splits)
qed

lemma frame_ok: "frame_run serial limits w \<Longrightarrow> governor_ok (snd (snd w)) (heldBy (fst w) (fst (snd w)))"
proof (induction rule: frame_run.induct)
  case frame_begin
  then show ?case by (simp add: heldBy_def beginFrame_ok)
next
  case (frame_scope rs K g)
  then show ?case by (simp add: heldBy_def scope_init_def)
next
  case (frame_reserve rs K g i c n cost b r g')
  note s = scope_reserve_ok [OF frame_reserve.IH [simplified] frame_reserve.hyps(3)]
  show ?case
  proof (cases b)
    case True
    then have "heldBy (rs[i := r]) K = add_mset r (heldBy rs K)"
      using heldBy_update [OF frame_reserve.hyps(2), of r K] s(3) by simp
    then show ?thesis using s(1) True by simp
  next
    case False
    then show ?thesis using s(1,2) by simp
  qed
next
  case (frame_commit rs K g i)
  let ?r = "rs ! i"
  show ?case
  proof (cases "sr_active ?r")
    case True
    let ?r' = "?r\<lparr>sr_committed := True\<rparr>"
    have eq: "heldBy (rs[i := ?r']) K + {#?r#} = heldBy rs K + {#?r'#}"
      using heldBy_update [OF frame_commit.hyps(2), of ?r' K] True by simp
    have "?r \<in># heldBy rs K" using True frame_commit.hyps(2) by (simp add: heldBy_def)
    then obtain B where B: "heldBy rs K = add_mset ?r B" by (metis multi_member_split)
    then have "heldBy (rs[i := ?r']) K = add_mset ?r' B" using eq by simp
    then show ?thesis
      using governor_ok_commit [of g ?r B True] frame_commit.IH B True by (simp add: scope_commit_def)
  qed (use frame_commit.IH in \<open>simp add: scope_commit_def\<close>)
next
  case (frame_end xs r ys K g)
  have h: "heldBy (xs @ r # ys) K = (if sr_active r then add_mset r (heldBy (xs @ ys) K) else heldBy (xs @ ys) K)"
    by (simp add: heldBy_def)
  show ?case
  proof (cases "sr_active r \<and> \<not> sr_committed r")
    case True
    then show ?thesis
      using cancel_ok(2) [of g r "heldBy (xs @ ys) K"] frame_end.IH h by (simp add: scope_end_def)
  next
    case False
    then have "heldBy (xs @ ys) (if sr_active r \<and> sr_committed r then add_mset r K else K) = heldBy (xs @ r # ys) K"
      using h by (auto simp: heldBy_def)
    then show ?thesis using False frame_end.IH by (auto simp: scope_end_def)
  qed
next
  case (frame_note rs K g b)
  have "governor_ok (notePointShadowBudgetFallback b g) (heldBy rs K)"
    by (rule governor_ok_cong [OF frame_note.IH [simplified]])
      (simp_all add: notePointShadowBudgetFallback_def same_books_def)
  then show ?case by simp
qed

lemma frame_limits: "frame_run serial limits w \<Longrightarrow>
    go_limits (snd (snd w)) = limits \<and> go_frameSerial (snd (snd w)) = serial"
proof (induction rule: frame_run.induct)
  case (frame_reserve rs K g i c n cost b r g')
  have f: "go_frameSerial (rejectReservation c x h) = go_frameSerial h" for x h
    by (simp add: rejectReservation_def Let_def)
  have a: "admitReservation c n cost h = Inr k \<Longrightarrow> go_limits k = go_limits h \<and> go_frameSerial k = go_frameSerial h" for h k
    by (auto simp: admitReservation_def Let_def split: if_splits option.splits)
  have "go_limits (snd (tryReserve c n cost g)) = go_limits g \<and> go_frameSerial (snd (tryReserve c n cost g)) = go_frameSerial g"
    by (auto simp: tryReserve_def Let_def f dest: a split: option.split sum.split)
  then show ?case using frame_reserve by (auto simp: scope_reserve_def split: if_splits prod.splits)
next
  case (frame_end xs r ys K g)
  then show ?case by (auto simp: scope_end_def cancelReservation_def Let_def split: option.split)
qed (simp_all add: beginFrame_def notePointShadowBudgetFallback_def)

text \<open>
  C29. The governor keeps exact books: in every frame, however scopes reserve, commit, end and are
  refused, what it shows as used in each dimension is the sum of the costs of the reservations that
  are held, it never exceeds the limits of the frame, and each consumer shows exactly its own share,
  items and number of reservations.
\<close>

theorem governor_books_are_exact:
  assumes "frame_run serial limits (rs, K, g)" and "A = heldBy rs K"
  shows "costs_are (go_used g) A \<and>
    (\<Sum>r\<in>#A. unat (wc_draws (sr_cost r))) \<le> unat (wl_maxDraws limits) \<and>
    (\<Sum>r\<in>#A. unat (wc_vertices (sr_cost r))) \<le> unat (wl_maxVertices limits) \<and>
    (\<Sum>r\<in>#A. unat (wc_indices (sr_cost r))) \<le> unat (wl_maxIndices limits) \<and>
    (real_consumer c \<longrightarrow> consumer_ok (go_consumers g ! consumerIndex c) (ofConsumer c A))"
proof -
  have ok: "governor_ok g A" using frame_ok [OF assms(1)] assms(2) by simp
  moreover have "go_limits g = limits" using frame_limits [OF assms(1)] by simp
  ultimately show ?thesis by (auto simp: governor_ok_def costs_are_def word_le_nat_alt)
qed

text \<open>
  A reservation is all or nothing, and ending a scope undoes it: a granted reservation adds its
  whole cost, a refused one adds nothing to any dimension, and the end of an uncommitted scope never
  fails and gives the whole cost back.
\<close>

theorem reservation_is_all_or_nothing:
  assumes "frame_run serial limits (rs, K, g)" and "i < length rs" and "A = heldBy rs K"
    and "scope_reserve c n cost (rs ! i, g) = (b, r, g')"
  shows "(\<not> b \<longrightarrow> r = rs ! i \<and> costs_are (go_used g') A) \<and>
    (b \<longrightarrow> costs_are (go_used g') (add_mset r A) \<and>
       fst (cancelReservation (sr_consumer r) (sr_itemCount r) (sr_cost r) g') \<and>
       costs_are (go_used (scope_end (r\<lparr>sr_committed := False\<rparr>, g'))) A)"
proof -
  have ok: "governor_ok g A" using frame_ok [OF assms(1)] assms(3) by simp
  note s = scope_reserve_ok [OF ok assms(4)]
  show ?thesis
  proof (cases b)
    case True
    then have g': "governor_ok g' (add_mset r A)" using s(1) by simp
    from cancel_ok [OF this] have "fst (cancelReservation (sr_consumer r) (sr_itemCount r) (sr_cost r) g')"
      "costs_are (go_used (snd (cancelReservation (sr_consumer r) (sr_itemCount r) (sr_cost r) g'))) A"
      by (simp_all add: governor_ok_def)
    then show ?thesis using True g' s(3) by (simp add: scope_end_def governor_ok_def)
  next
    case False
    then show ?thesis using s by (simp add: governor_ok_def)
  qed
qed

subsection \<open>What is granted\<close>

lemma costs_are_le:
  assumes "costs_are k A" and "costs_are k' (ofConsumer c A)"
  shows "unat (wc_draws k') \<le> unat (wc_draws k) \<and> unat (wc_vertices k') \<le> unat (wc_vertices k) \<and>
    unat (wc_indices k') \<le> unat (wc_indices k)"
proof -
  have "(\<Sum>r\<in>#ofConsumer c A. f r) \<le> (\<Sum>r\<in>#A. f r)" for f :: "ScopedReservation \<Rightarrow> nat"
    by (induction A) (auto simp: ofConsumer_def)
  then show ?thesis using assms by (simp add: costs_are_def)
qed

lemma setConsumer_books [simp]:
  "go_used (setConsumer c f g) = go_used g" "go_limits (setConsumer c f g) = go_limits g"
  "go_frameSerial (setConsumer c f g) = go_frameSerial g"
  "length (go_consumers (setConsumer c f g)) = length (go_consumers g)"
  by (simp_all add: setConsumer_def)

lemma admit_granted:
  assumes used: "costs_are (go_used g) A"
    and acc: "costs_are (cd_accepted (go_consumers g ! consumerIndex c)) (ofConsumer c A)"
    and items: "checkedAdd (cd_acceptedItems (go_consumers g ! consumerIndex c)) n \<noteq> None"
  shows "(\<exists>h. admitReservation c n cost g = Inr h) \<longleftrightarrow>
    go_frameSerial g \<noteq> 0 \<and> limits_valid (go_limits g) \<and> wc_valid cost \<and> n \<noteq> 0 \<and>
    unat (wc_draws (go_used g)) + unat (wc_draws cost) \<le> unat (wl_maxDraws (go_limits g)) \<and>
    unat (wc_vertices (go_used g)) + unat (wc_vertices cost) \<le> unat (wl_maxVertices (go_limits g)) \<and>
    unat (wc_indices (go_used g)) + unat (wc_indices cost) \<le> unat (wl_maxIndices (go_limits g))"
proof (cases "wc_valid cost")
  case valid: True
  show ?thesis
  proof (cases "AddCost (go_used g) cost")
    case None
    have "m \<ge> 2 ^ 64 \<Longrightarrow> \<not> m \<le> unat (w :: u64)" for m w
      by (simp add: not_le order.strict_trans2 [OF unat_u64_bound])
    then show ?thesis
      using AddCost_none [OF used valid] None by (simp add: admitReservation_def Let_def) blast
  next
    case (Some s)
    note f = AddCost_fields [OF Some]
    have "AddCost (cd_accepted (go_consumers g ! consumerIndex c)) cost \<noteq> None"
      using AddCost_none [OF used valid] AddCost_none [OF acc valid] Some costs_are_le [OF used acc] by auto
    then show ?thesis
      using Some f items valid
      by (auto simp: admitReservation_def Let_def word_less_nat_alt)
  qed
qed (simp add: admitReservation_def Let_def)

lemma tryReserve_granted:
  assumes ok: "governor_ok g A"
  shows "fst (tryReserve c n cost g) \<longleftrightarrow>
    real_consumer c \<and> go_frameSerial g \<noteq> 0 \<and> limits_valid (go_limits g) \<and> wc_valid cost \<and> n \<noteq> 0 \<and>
    AddCost (cd_requested (go_consumers g ! consumerIndex c)) cost \<noteq> None \<and>
    checkedAdd (cd_requestedItems (go_consumers g ! consumerIndex c)) n \<noteq> None \<and>
    unat (wc_draws (go_used g)) + unat (wc_draws cost) \<le> unat (wl_maxDraws (go_limits g)) \<and>
    unat (wc_vertices (go_used g)) + unat (wc_vertices cost) \<le> unat (wl_maxVertices (go_limits g)) \<and>
    unat (wc_indices (go_used g)) + unat (wc_indices cost) \<le> unat (wl_maxIndices (go_limits g))"
proof (cases "real_consumer c")
  case False
  then have "consumerIndex c \<ge> length (go_consumers g)" using ok by (cases c) (simp_all add: governor_ok_def real_consumer_def)
  then show ?thesis using False by (simp add: tryReserve_def)
next
  case True
  have len: "length (go_consumers g) = 3" and idx: "\<not> consumerIndex c \<ge> length (go_consumers g)"
    using ok True by (simp_all add: governor_ok_def not_le)
  let ?d = "go_consumers g ! consumerIndex c"
  have d: "consumer_ok ?d (ofConsumer c A)" and u: "costs_are (go_used g) A"
    using ok True by (simp_all add: governor_ok_def)
  show ?thesis
  proof (cases "AddCost (cd_requested ?d) cost")
    case None
    then show ?thesis using idx by (simp add: tryReserve_def Let_def)
  next
    case req: (Some requested)
    let ?g = "setConsumer c (\<lambda>d. d\<lparr>cd_requested := requested\<rparr>) g"
    show ?thesis
    proof (cases "checkedAdd (cd_requestedItems ?d) n")
      case None
      then show ?thesis using req idx by (simp add: tryReserve_def Let_def)
    next
      case items: (Some items)
      let ?h = "setConsumer c (\<lambda>d. d\<lparr>cd_requestedItems := items\<rparr>) ?g"
      have hd: "go_consumers ?h ! consumerIndex c = ?d\<lparr>cd_requested := requested, cd_requestedItems := items\<rparr>"
        using len True by (simp add: setConsumer_nth)
      have "unat (cd_acceptedItems ?d) \<le> unat (cd_requestedItems ?d)"
        using d by (simp add: consumer_ok_def word_le_nat_alt)
      then have "checkedAdd (cd_acceptedItems ?d) n \<noteq> None"
        using items checkedAdd_none [of "cd_requestedItems ?d" n] checkedAdd_none [of "cd_acceptedItems ?d" n] by auto
      note a = admit_granted [of ?h A c n cost, unfolded hd, simplified]
      have "fst (tryReserve c n cost g) \<longleftrightarrow> (\<exists>h. admitReservation c n cost ?h = Inr h)"
        using idx req items by (auto simp: tryReserve_def Let_def split: sum.split)
      with a u d \<open>checkedAdd (cd_acceptedItems ?d) n \<noteq> None\<close> show ?thesis
        using True req items by (simp add: consumer_ok_def)
    qed
  qed
qed

text \<open>
  C37. What is granted, exactly: an idle scope of a frame gets its reservation if and only if the
  consumer is a real one, the frame and the limits are valid, the cost is valid and for at least one
  item, the demand counters of the consumer can still count it, and in each of the three dimensions
  the costs of all held reservations and the new one together are within the limit.
\<close>

theorem reservation_granted_exactly:
  assumes "frame_run serial limits (rs, K, g)" and "i < length rs" and "A = heldBy rs K"
    and "d = go_consumers g ! consumerIndex c" and "\<not> sr_active (rs ! i)"
  shows "fst (scope_reserve c n cost (rs ! i, g)) \<longleftrightarrow>
    c \<noteq> ConsumerCount \<and> serial \<noteq> 0 \<and> limits_valid limits \<and> wc_valid cost \<and> n \<noteq> 0 \<and>
    AddCost (cd_requested d) cost \<noteq> None \<and> checkedAdd (cd_requestedItems d) n \<noteq> None \<and>
    (\<Sum>r\<in>#A. unat (wc_draws (sr_cost r))) + unat (wc_draws cost) \<le> unat (wl_maxDraws limits) \<and>
    (\<Sum>r\<in>#A. unat (wc_vertices (sr_cost r))) + unat (wc_vertices cost) \<le> unat (wl_maxVertices limits) \<and>
    (\<Sum>r\<in>#A. unat (wc_indices (sr_cost r))) + unat (wc_indices cost) \<le> unat (wl_maxIndices limits)"
proof -
  have ok: "governor_ok g A" using frame_ok [OF assms(1)] assms(3) by simp
  have "fst (scope_reserve c n cost (rs ! i, g)) = fst (tryReserve c n cost g)"
    using assms(5) by (simp add: scope_reserve_def split: prod.split)
  then show ?thesis
    using tryReserve_granted [OF ok, of c n cost] frame_limits [OF assms(1)] ok assms(4)
    by (simp add: governor_ok_def costs_are_def real_consumer_def)
qed


text \<open>A frame with one granted reservation, on which the properties are applied.\<close>

definition example_cost :: WorkloadCost where
  "example_cost = \<lparr>wc_draws = 2, wc_vertices = 30, wc_indices = 60, wc_valid = True\<rparr>"

definition example_step :: "bool \<times> ScopedReservation \<times> Governor" where
  "example_step = scope_reserve VolumeSun 1 example_cost (scope_init, beginFrame 7 limits_init)"

lemma example_start: "frame_run 7 limits_init ([scope_init], {#}, beginFrame 7 limits_init)"
  using frame_scope [OF frame_begin] by fastforce

lemma example_granted: "fst example_step" "sr_cost (fst (snd example_step)) = example_cost"
  "sr_active (fst (snd example_step))"
  by code_simp+

lemma example_frame: "frame_run 7 limits_init ([fst (snd example_step)], {#}, snd (snd example_step))"
  using frame_reserve [OF example_start, of 0 VolumeSun 1 example_cost "fst example_step"
      "fst (snd example_step)" "snd (snd example_step)"]
  by (simp add: example_step_def)

theorem governor_books_are_exact_witness:
  "costs_are (go_used (snd (snd example_step))) {#fst (snd example_step)#} \<and>
    wc_draws (go_used (snd (snd example_step))) = 2"
proof -
  have "heldBy [fst (snd example_step)] {#} = {#fst (snd example_step)#}"
    by (simp add: heldBy_def example_granted)
  then have "costs_are (go_used (snd (snd example_step))) {#fst (snd example_step)#}"
    using governor_books_are_exact [OF example_frame refl] by simp
  moreover have "wc_draws (go_used (snd (snd example_step))) = 2" by code_simp
  ultimately show ?thesis by simp
qed

theorem reservation_is_all_or_nothing_witness:
  "fst example_step \<and> costs_are (go_used (snd (snd example_step))) {#fst (snd example_step)#}"
  using reservation_is_all_or_nothing [OF example_start, of 0, OF _ refl, of VolumeSun 1 example_cost
      "fst example_step" "fst (snd example_step)" "snd (snd example_step)"] example_granted
  by (simp add: example_step_def heldBy_def scope_init_def)

theorem reservation_granted_exactly_witness:
  "fst (scope_reserve PointShadowConsumer 1 example_cost (scope_init, beginFrame 7 limits_init)) \<and>
    \<not> fst (scope_reserve PointShadowConsumer 0 example_cost (scope_init, beginFrame 7 limits_init))"
proof -
  have "\<not> sr_active ([scope_init] ! 0)" by (simp add: scope_init_def)
  note e = reservation_granted_exactly [OF example_start _ refl refl this]
  have c: "AddCost (cd_requested (go_consumers (beginFrame 7 limits_init) ! consumerIndex PointShadowConsumer))
      example_cost \<noteq> None"
    "checkedAdd (cd_requestedItems (go_consumers (beginFrame 7 limits_init) ! consumerIndex PointShadowConsumer)) 1
      \<noteq> None"
    by code_simp+
  have "limits_valid limits_init" "wc_valid example_cost" by code_simp+
  with c show ?thesis
    using e [of PointShadowConsumer 1 example_cost] e [of PointShadowConsumer 0 example_cost]
    by (simp add: heldBy_def scope_init_def example_cost_def limits_init_def)
qed

subsection \<open>Costs that are not valid\<close>




subsection \<open>Keeping the last complete cube\<close>

text \<open>
  A \<open>float\<close> is its 32 bits, which is what the code compares; \<open>std::isfinite\<close> and the comparison
  with zero are those of binary32.
\<close>

definition float_isfinite :: "u32 \<Rightarrow> bool" where
  "float_isfinite b \<longleftrightarrow> b AND 0x7F800000 \<noteq> 0x7F800000"

definition float_positive :: "u32 \<Rightarrow> bool" where
  "float_positive b \<longleftrightarrow> 0 < b \<and> b \<le> 0x7F800000"

record PointLightIdentity =
  pl_id :: u32
  pl_positionX :: u32
  pl_positionY :: u32
  pl_positionZ :: u32
  pl_range :: u32
  pl_shadowIntensity :: u32

record PublicationIdentity =
  pp_mapEpoch :: u64
  pp_deviceEpoch :: u64
  pp_resourceGeneration :: u64
  pp_lightGeneration :: u64
  pp_settingsRevision :: u64
  pp_resolution :: u32
  pp_capacityLights :: u32
  pp_lightCount :: u32
  pp_complete :: bool
  pp_lights :: "PointLightIdentity list"

definition kMaxLights :: u32 where
  "kMaxLights = 4"

definition ExactF32 :: "u32 \<Rightarrow> u32 \<Rightarrow> bool" where
  "ExactF32 lhs rhs \<longleftrightarrow> lhs = rhs"

definition ValidPointLightIdentity :: "PointLightIdentity \<Rightarrow> bool" where
  "ValidPointLightIdentity light \<longleftrightarrow>
     pl_id light \<noteq> 0 \<and> float_isfinite (pl_positionX light) \<and> float_isfinite (pl_positionY light) \<and>
     float_isfinite (pl_positionZ light) \<and> float_isfinite (pl_range light) \<and>
     float_positive (pl_range light) \<and> float_isfinite (pl_shadowIntensity light)"

definition ExactPointLightIdentity :: "PointLightIdentity \<Rightarrow> PointLightIdentity \<Rightarrow> bool" where
  "ExactPointLightIdentity lhs rhs \<longleftrightarrow>
     pl_id lhs = pl_id rhs \<and> ExactF32 (pl_positionX lhs) (pl_positionX rhs) \<and>
     ExactF32 (pl_positionY lhs) (pl_positionY rhs) \<and> ExactF32 (pl_positionZ lhs) (pl_positionZ rhs) \<and>
     ExactF32 (pl_range lhs) (pl_range rhs) \<and>
     ExactF32 (pl_shadowIntensity lhs) (pl_shadowIntensity rhs)"

definition publicationValid :: "PublicationIdentity \<Rightarrow> bool" where
  "publicationValid p \<longleftrightarrow>
     pp_complete p \<and> pp_mapEpoch p \<noteq> 0 \<and> pp_deviceEpoch p \<noteq> 0 \<and> pp_resourceGeneration p \<noteq> 0 \<and>
     pp_lightGeneration p \<noteq> 0 \<and> pp_settingsRevision p \<noteq> 0 \<and> pp_resolution p \<noteq> 0 \<and>
     pp_capacityLights p \<noteq> 0 \<and> pp_lightCount p \<noteq> 0 \<and> pp_lightCount p \<le> kMaxLights \<and>
     pp_lightCount p \<le> pp_capacityLights p"

text \<open>The loop over the lights that are in use.\<close>

fun lightsAgree :: "nat \<Rightarrow> PointLightIdentity list \<Rightarrow> PointLightIdentity list \<Rightarrow> bool" where
  "lightsAgree 0 xs ys = True"
| "lightsAgree (Suc n) (x # xs) (y # ys) =
    (if \<not> ValidPointLightIdentity x \<or> \<not> ValidPointLightIdentity y \<or> \<not> ExactPointLightIdentity x y
     then False else lightsAgree n xs ys)"
| "lightsAgree (Suc n) _ _ = False"

definition CanHoldPointShadowLastComplete :: "PublicationIdentity \<Rightarrow> PublicationIdentity \<Rightarrow> bool" where
  "CanHoldPointShadowLastComplete current published =
    (if \<not> publicationValid current \<or> \<not> publicationValid published \<or>
        pp_mapEpoch current \<noteq> pp_mapEpoch published \<or>
        pp_deviceEpoch current \<noteq> pp_deviceEpoch published \<or>
        pp_resourceGeneration current \<noteq> pp_resourceGeneration published \<or>
        pp_lightGeneration current \<noteq> pp_lightGeneration published \<or>
        pp_settingsRevision current \<noteq> pp_settingsRevision published \<or>
        pp_resolution current \<noteq> pp_resolution published \<or>
        pp_capacityLights current \<noteq> pp_capacityLights published \<or>
        pp_lightCount current \<noteq> pp_lightCount published
     then False
     else lightsAgree (unat (pp_lightCount current)) (pp_lights current) (pp_lights published))"

text \<open>
  The owner of a complete cube: the identity without the unused entries of its fixed array of four
  lights, or nothing when any part of it is not valid.
\<close>

definition cubeOwner :: "PublicationIdentity \<Rightarrow> PublicationIdentity option" where
  "cubeOwner p =
    (let used = take (unat (pp_lightCount p)) (pp_lights p) in
     if publicationValid p \<and> list_all ValidPointLightIdentity used then Some (p\<lparr>pp_lights := used\<rparr>) else None)"

lemma ExactPointLightIdentity_eq [simp]: "ExactPointLightIdentity x y \<longleftrightarrow> x = y"
  by (cases x; cases y) (simp add: ExactPointLightIdentity_def ExactF32_def)

lemma lightsAgree_iff:
  "n \<le> length xs \<Longrightarrow> n \<le> length ys \<Longrightarrow>
    lightsAgree n xs ys \<longleftrightarrow> list_all ValidPointLightIdentity (take n xs) \<and> take n xs = take n ys"
  by (induction n xs ys rule: lightsAgree.induct) auto

text \<open>
  C40. After a budget rejection the last complete cube is kept exactly for its owner: the current
  frame and the publication must both be complete and valid and agree on the map, the device, the
  resources, the generations, the resolution and, bit for bit, on every light in use; the unused
  entries of the light array do not matter.
\<close>

theorem cube_is_kept_for_its_owner:
  assumes "length (pp_lights a) = 4" and "length (pp_lights b) = 4"
  shows "CanHoldPointShadowLastComplete a b \<longleftrightarrow> cubeOwner a \<noteq> None \<and> cubeOwner a = cubeOwner b"
proof -
  have len: "publicationValid p \<Longrightarrow> unat (pp_lightCount p) \<le> 4" for p
    by (simp add: publicationValid_def kMaxLights_def word_le_nat_alt)
  note agree = lightsAgree_iff [of "unat (pp_lightCount a)" "pp_lights a" "pp_lights b", unfolded assms]
  show ?thesis
  proof (cases "publicationValid a \<and> publicationValid b \<and> pp_lightCount a = pp_lightCount b")
    case True
    then show ?thesis
      using agree len [of a] True [unfolded publicationValid_def]
      by (cases a; cases b) (auto simp: CanHoldPointShadowLastComplete_def cubeOwner_def Let_def)
  next
    case False
    then show ?thesis
      by (cases a; cases b) (auto simp: CanHoldPointShadowLastComplete_def cubeOwner_def Let_def)
  qed
qed

definition example_publication :: "PointLightIdentity \<Rightarrow> PublicationIdentity" where
  "example_publication unused =
    (let light = \<lparr>pl_id = 17, pl_positionX = 0x42C80000, pl_positionY = 0x43480000, pl_positionZ = 0,
       pl_range = 0x44000000, pl_shadowIntensity = 0x3F400000\<rparr> in
     \<lparr>pp_mapEpoch = 3, pp_deviceEpoch = 5, pp_resourceGeneration = 7, pp_lightGeneration = 11,
      pp_settingsRevision = 13, pp_resolution = 1024, pp_capacityLights = 2, pp_lightCount = 1,
      pp_complete = True, pp_lights = [light, unused, unused, unused]\<rparr>)"

theorem cube_is_kept_for_its_owner_witness:
  "CanHoldPointShadowLastComplete (example_publication \<lparr>pl_id = 1, pl_positionX = 0, pl_positionY = 0,
      pl_positionZ = 0, pl_range = 0, pl_shadowIntensity = 0\<rparr>)
    (example_publication \<lparr>pl_id = 2, pl_positionX = 0, pl_positionY = 0,
      pl_positionZ = 0, pl_range = 0, pl_shadowIntensity = 0\<rparr>)"
proof -
  let ?a = "example_publication \<lparr>pl_id = 1, pl_positionX = 0, pl_positionY = 0, pl_positionZ = 0,
      pl_range = 0, pl_shadowIntensity = 0\<rparr>"
  let ?b = "example_publication \<lparr>pl_id = 2, pl_positionX = 0, pl_positionY = 0, pl_positionZ = 0,
      pl_range = 0, pl_shadowIntensity = 0\<rparr>"
  have l: "length (pp_lights ?a) = 4" "length (pp_lights ?b) = 4"
    by (simp_all add: example_publication_def Let_def)
  have "cubeOwner ?a \<noteq> None \<and> cubeOwner ?a = cubeOwner ?b"
    by code_simp
  then show ?thesis using cube_is_kept_for_its_owner [OF l] by blast
qed


end
