(* ===== verification/PrepareWorker.thy ===== *)
theory PrepareWorker
  imports War3Prelude
begin

section \<open>The point-shadow preparation worker\<close>

text \<open>
  \<open>src/src/d3d9/war3/render/war3_point_shadow_prepare_worker.h\<close>: one persistent thread with one
  request slot and one result slot. Every block that holds the mutex is one definition, and a run of
  the mailbox interleaves the blocks of the owner, of the callers of \<open>shutdown\<close> and of the worker
  in any order. The payloads, the exceptions and the processor, a stateless function object of the
  client, are parameters; the processor returns a payload or throws.
\<close>

subsection \<open>Values\<close>

record Generation =
  gn_jobSerial :: u64
  gn_rendererEpoch :: u64
  gn_frameSerial :: u64
  gn_lightGeneration :: u64

definition generation_init :: Generation where
  "generation_init = \<lparr>gn_jobSerial = 0, gn_rendererEpoch = 0, gn_frameSerial = 0, gn_lightGeneration = 0\<rparr>"

definition generation_valid :: "Generation \<Rightarrow> bool" where
  "generation_valid g \<longleftrightarrow> gn_jobSerial g \<noteq> 0 \<and> gn_rendererEpoch g \<noteq> 0 \<and> gn_frameSerial g \<noteq> 0 \<and>
     gn_lightGeneration g \<noteq> 0"

definition generation_eq :: "Generation \<Rightarrow> Generation \<Rightarrow> bool" where
  "generation_eq lhs rhs \<longleftrightarrow> gn_jobSerial lhs = gn_jobSerial rhs \<and>
     gn_rendererEpoch lhs = gn_rendererEpoch rhs \<and> gn_frameSerial lhs = gn_frameSerial rhs \<and>
     gn_lightGeneration lhs = gn_lightGeneration rhs"

datatype SubmitStatus = SubmitAccepted | SubmitInvalidGeneration | SubmitStaleGeneration | SubmitBusy
  | SubmitStopping | SubmitUnavailable

datatype ResultState = EmptyState | NotReadyState | ReadyState | FailedState | CancelledState | StaleState
  | InvalidGenerationState | StoppingState | UnavailableState

record 'q PrepareRequest =
  rq_generation :: Generation
  rq_payload :: 'q

record ('r, 'e) PrepareResult =
  rs_generation :: Generation
  rs_state :: ResultState
  rs_payload :: "'r option"
  rs_failure :: "'e option"

definition result_init :: "('r, 'e) PrepareResult" where
  "result_init = \<lparr>rs_generation = generation_init, rs_state = EmptyState, rs_payload = None, rs_failure = None\<rparr>"

definition failClosed :: "('r, 'e) PrepareResult \<Rightarrow> bool" where
  "failClosed r \<longleftrightarrow> rs_state r \<noteq> ReadyState \<or> rs_payload r = None"

record WorkerDiagnostics =
  wd_threadStarts :: u64
  wd_threadJoins :: u64
  wd_submittedJobs :: u64
  wd_startedJobs :: u64
  wd_readyJobs :: u64
  wd_failedJobs :: u64
  wd_cancelledJobs :: u64
  wd_exactCollections :: u64
  wd_staleCollections :: u64
  wd_busyRejections :: u64
  wd_maximumInFlight :: u32
  wd_available :: bool
  wd_stopping :: bool
  wd_requestOccupied :: bool
  wd_workerRunning :: bool
  wd_resultOccupied :: bool

definition workerDiagnostics_init :: WorkerDiagnostics where
  "workerDiagnostics_init = \<lparr>wd_threadStarts = 0, wd_threadJoins = 0, wd_submittedJobs = 0, wd_startedJobs = 0,
     wd_readyJobs = 0, wd_failedJobs = 0, wd_cancelledJobs = 0, wd_exactCollections = 0,
     wd_staleCollections = 0, wd_busyRejections = 0, wd_maximumInFlight = 0, wd_available = False,
     wd_stopping = False, wd_requestOccupied = False, wd_workerRunning = False, wd_resultOccupied = False\<rparr>"

record ('q, 'r, 'e) SharedState =
  sh_available :: bool
  sh_stopping :: bool
  sh_workerRunning :: bool
  sh_requestSlot :: "'q PrepareRequest option"
  sh_resultSlot :: "('r, 'e) PrepareResult option"
  sh_lastSubmitted :: Generation
  sh_startupFailure :: "'e option"
  sh_diagnostics :: WorkerDiagnostics

definition shared_init :: "('q, 'r, 'e) SharedState" where
  "shared_init = \<lparr>sh_available = False, sh_stopping = False, sh_workerRunning = False, sh_requestSlot = None,
     sh_resultSlot = None, sh_lastSubmitted = generation_init, sh_startupFailure = None,
     sh_diagnostics = workerDiagnostics_init\<rparr>"

definition noteJob :: "(WorkerDiagnostics \<Rightarrow> WorkerDiagnostics) \<Rightarrow> ('q, 'r, 'e) SharedState \<Rightarrow>
    ('q, 'r, 'e) SharedState" where
  "noteJob f s = s\<lparr>sh_diagnostics := f (sh_diagnostics s)\<rparr>"

subsection \<open>The owner\<close>

definition isStaleSubmission :: "Generation \<Rightarrow> Generation \<Rightarrow> bool" where
  "isStaleSubmission previous candidate =
    (if \<not> generation_valid previous then False
     else if gn_rendererEpoch candidate \<noteq> gn_rendererEpoch previous
     then gn_rendererEpoch candidate < gn_rendererEpoch previous
     else gn_jobSerial candidate \<le> gn_jobSerial previous)"

definition makeStateResult :: "Generation \<Rightarrow> ResultState \<Rightarrow> ('r, 'e) PrepareResult" where
  "makeStateResult generation resultState =
    result_init\<lparr>rs_generation := generation, rs_state := resultState\<rparr>"

definition submitRequest :: "'q PrepareRequest \<Rightarrow> ('q, 'r, 'e) SharedState \<Rightarrow>
    SubmitStatus \<times> ('q, 'r, 'e) SharedState" where
  "submitRequest request s =
    (if \<not> generation_valid (rq_generation request) then (SubmitInvalidGeneration, s)
     else if \<not> sh_available s \<and> sh_startupFailure s \<noteq> None \<and> wd_threadStarts (sh_diagnostics s) = 0
     then (SubmitUnavailable, s)
     else if sh_stopping s then (SubmitStopping, s)
     else if \<not> sh_available s then (SubmitUnavailable, s)
     else if isStaleSubmission (sh_lastSubmitted s) (rq_generation request)
     then (SubmitStaleGeneration, s)
     else if sh_requestSlot s \<noteq> None \<or> sh_workerRunning s \<or> sh_resultSlot s \<noteq> None
     then (SubmitBusy, noteJob (\<lambda>d. d\<lparr>wd_busyRejections := wd_busyRejections d + 1\<rparr>) s)
     else (SubmitAccepted,
           noteJob (\<lambda>d. d\<lparr>wd_submittedJobs := wd_submittedJobs d + 1,
                       wd_maximumInFlight := max (wd_maximumInFlight d) 1\<rparr>)
             (s\<lparr>sh_lastSubmitted := rq_generation request, sh_requestSlot := Some request\<rparr>)))"

text \<open>Called with a result in the slot.\<close>

definition consumeResult :: "('r, 'e) PrepareResult \<Rightarrow> Generation \<Rightarrow> ('q, 'r, 'e) SharedState \<Rightarrow>
    ('r, 'e) PrepareResult \<times> ('q, 'r, 'e) SharedState" where
  "consumeResult result expected s =
    (let s = s\<lparr>sh_resultSlot := None\<rparr> in
     if \<not> generation_eq (rs_generation result) expected
     then (result\<lparr>rs_state := StaleState, rs_payload := None, rs_failure := None\<rparr>,
           noteJob (\<lambda>d. d\<lparr>wd_staleCollections := wd_staleCollections d + 1\<rparr>) s)
     else (result, noteJob (\<lambda>d. d\<lparr>wd_exactCollections := wd_exactCollections d + 1\<rparr>) s))"

definition tryCollectExact :: "Generation \<Rightarrow> ('q, 'r, 'e) SharedState \<Rightarrow>
    ('r, 'e) PrepareResult \<times> ('q, 'r, 'e) SharedState" where
  "tryCollectExact expected s =
    (if \<not> generation_valid expected then (makeStateResult expected InvalidGenerationState, s)
     else
       case sh_resultSlot s of
         None \<Rightarrow> (makeStateResult expected NotReadyState, s)
       | Some result \<Rightarrow> consumeResult result expected s)"

text \<open>\<open>None\<close> while the caller has to wait: the predicate of the condition variable is false.\<close>

definition waitAndCollectExact :: "Generation \<Rightarrow> ('q, 'r, 'e) SharedState \<Rightarrow>
    (('r, 'e) PrepareResult \<times> ('q, 'r, 'e) SharedState) option" where
  "waitAndCollectExact expected s =
    (if \<not> generation_valid expected then Some (makeStateResult expected InvalidGenerationState, s)
     else
       case sh_resultSlot s of
         Some result \<Rightarrow> Some (consumeResult result expected s)
       | None \<Rightarrow>
           if \<not> sh_available s \<and> \<not> sh_workerRunning s \<and> sh_requestSlot s = None
           then Some (makeStateResult expected
                  (if sh_startupFailure s \<noteq> None then UnavailableState else StoppingState), s)
           else None)"

definition isAvailable :: "('q, 'r, 'e) SharedState \<Rightarrow> bool" where
  "isAvailable s \<longleftrightarrow> sh_available s \<and> \<not> sh_stopping s"

definition workerDiagnostics :: "('q, 'r, 'e) SharedState \<Rightarrow> WorkerDiagnostics" where
  "workerDiagnostics s = (sh_diagnostics s)\<lparr>wd_available := sh_available s, wd_stopping := sh_stopping s,
     wd_requestOccupied := (sh_requestSlot s \<noteq> None), wd_workerRunning := sh_workerRunning s,
     wd_resultOccupied := (sh_resultSlot s \<noteq> None)\<rparr>"

subsection \<open>The worker thread\<close>

text \<open>
  Where the thread is: before its wait, processing a request it has taken, about to publish a result,
  or at its end. The generation of the job it has is the local variable \<open>activeGeneration\<close>.
\<close>

datatype ('q, 'r, 'e) WorkerAt = NoThread | AtWait | Processing "'q PrepareRequest"
  | Publishing "('r, 'e) PrepareResult" | Exited

text \<open>The first block, entered when the predicate of its wait holds.\<close>

definition workerTake :: "('q, 'r, 'e) SharedState \<Rightarrow> ('q, 'r, 'e) WorkerAt \<times> ('q, 'r, 'e) SharedState" where
  "workerTake s =
    (case sh_requestSlot s of
       None \<Rightarrow> (Exited, s)
     | Some request \<Rightarrow>
         (Processing request,
          noteJob (\<lambda>d. d\<lparr>wd_startedJobs := wd_startedJobs d + 1\<rparr>)
            (s\<lparr>sh_requestSlot := None, sh_workerRunning := True\<rparr>)))"

definition workerWaits :: "('q, 'r, 'e) SharedState \<Rightarrow> bool" where
  "workerWaits s \<longleftrightarrow> \<not> (sh_stopping s \<or> sh_requestSlot s \<noteq> None)"

text \<open>The processor runs without the mutex.\<close>

definition workerProcess :: "('q PrepareRequest \<Rightarrow> 'e + 'r) \<Rightarrow> 'q PrepareRequest \<Rightarrow> ('r, 'e) PrepareResult" where
  "workerProcess processor request =
    (let result = result_init\<lparr>rs_generation := rq_generation request\<rparr> in
     case processor request of
       Inr payload \<Rightarrow> result\<lparr>rs_payload := Some payload, rs_state := ReadyState\<rparr>
     | Inl failure \<Rightarrow> result\<lparr>rs_failure := Some failure, rs_state := FailedState\<rparr>)"

definition workerPublish :: "('r, 'e) PrepareResult \<Rightarrow> ('q, 'r, 'e) SharedState \<Rightarrow> ('q, 'r, 'e) SharedState" where
  "workerPublish result s =
    (let s = s\<lparr>sh_workerRunning := False\<rparr> in
     if sh_stopping s
     then noteJob (\<lambda>d. d\<lparr>wd_cancelledJobs := wd_cancelledJobs d + 1\<rparr>)
            (s\<lparr>sh_resultSlot := Some (result\<lparr>rs_payload := None, rs_failure := None, rs_state := CancelledState\<rparr>)\<rparr>)
     else if rs_state result = ReadyState
     then noteJob (\<lambda>d. d\<lparr>wd_readyJobs := wd_readyJobs d + 1\<rparr>) (s\<lparr>sh_resultSlot := Some result\<rparr>)
     else noteJob (\<lambda>d. d\<lparr>wd_failedJobs := wd_failedJobs d + 1\<rparr>) (s\<lparr>sh_resultSlot := Some result\<rparr>))"

text \<open>The handler of an exception that leaves the loop, such as a failing lock.\<close>

definition workerFail :: "'e \<Rightarrow> Generation option \<Rightarrow> ('q, 'r, 'e) SharedState \<Rightarrow> ('q, 'r, 'e) SharedState" where
  "workerFail failure activeGeneration s =
    (let s = s\<lparr>sh_available := False, sh_stopping := True, sh_workerRunning := False\<rparr>;
         failed = (\<lambda>g s. noteJob (\<lambda>d. d\<lparr>wd_failedJobs := wd_failedJobs d + 1\<rparr>)
           (s\<lparr>sh_resultSlot := Some ((makeStateResult g FailedState)\<lparr>rs_failure := Some failure\<rparr>)\<rparr>));
         s = (if activeGeneration \<noteq> None \<and> sh_resultSlot s = None
              then failed (the activeGeneration) s
              else if sh_requestSlot s \<noteq> None \<and> sh_resultSlot s = None
              then failed (rq_generation (the (sh_requestSlot s))) (s\<lparr>sh_requestSlot := None\<rparr>)
              else s)
     in s\<lparr>sh_startupFailure := Some failure\<rparr>)"

subsection \<open>Construction and shutdown\<close>

text \<open>
  \<open>shutdown\<close> holds a mutex of its own, so the blocks of two calls do not interleave; the phase is
  that of the call that is under way.
\<close>

datatype ShutdownPhase = NoShutdown | Joining | Finishing

record ('q, 'r, 'e) Mailbox =
  mb_state :: "('q, 'r, 'e) SharedState"
  mb_worker :: "('q, 'r, 'e) WorkerAt"
  mb_joinable :: bool
  mb_constructed :: bool
  mb_shutdown :: ShutdownPhase

text \<open>The constructor up to the launch of the thread, which may throw.\<close>

definition launch :: "'e option \<Rightarrow> ('q, 'r, 'e) Mailbox" where
  "launch failure =
    (case failure of
       None \<Rightarrow> \<lparr>mb_state = shared_init\<lparr>sh_available := True\<rparr>, mb_worker = AtWait, mb_joinable = True,
                mb_constructed = False, mb_shutdown = NoShutdown\<rparr>
     | Some e \<Rightarrow> \<lparr>mb_state = noteJob (\<lambda>d. d\<lparr>wd_threadStarts := 0\<rparr>)
                  (shared_init\<lparr>sh_available := False, sh_stopping := True, sh_startupFailure := Some e\<rparr>),
                mb_worker = NoThread, mb_joinable = False, mb_constructed = True, mb_shutdown = NoShutdown\<rparr>)"

text \<open>The rest of the constructor, with the thread already running.\<close>

definition launched :: "('q, 'r, 'e) Mailbox \<Rightarrow> ('q, 'r, 'e) Mailbox" where
  "launched m = m\<lparr>mb_state := noteJob (\<lambda>d. d\<lparr>wd_threadStarts := 1\<rparr>) (mb_state m), mb_constructed := True\<rparr>"

definition cancelPendingRequest :: "('q, 'r, 'e) SharedState \<Rightarrow> ('q, 'r, 'e) SharedState" where
  "cancelPendingRequest s =
    (case sh_requestSlot s of
       None \<Rightarrow> s
     | Some request \<Rightarrow>
         noteJob (\<lambda>d. d\<lparr>wd_cancelledJobs := wd_cancelledJobs d + 1\<rparr>)
           (s\<lparr>sh_requestSlot := None,
              sh_resultSlot := Some (makeStateResult (rq_generation request) CancelledState)\<rparr>))"

definition cancelCompletedResult :: "('q, 'r, 'e) SharedState \<Rightarrow> ('q, 'r, 'e) SharedState" where
  "cancelCompletedResult s =
    (case sh_resultSlot s of
       None \<Rightarrow> s
     | Some result \<Rightarrow>
         if sh_workerRunning s \<or> rs_state result = CancelledState then s
         else noteJob (\<lambda>d. d\<lparr>wd_cancelledJobs := wd_cancelledJobs d + 1\<rparr>)
                (s\<lparr>sh_resultSlot :=
                     Some (result\<lparr>rs_payload := None, rs_failure := None, rs_state := CancelledState\<rparr>)\<rparr>))"

definition shutdownStop :: "('q, 'r, 'e) Mailbox \<Rightarrow> ('q, 'r, 'e) Mailbox" where
  "shutdownStop m =
    (let s = mb_state m in
     m\<lparr>mb_state := (if \<not> sh_stopping s
          then cancelCompletedResult (cancelPendingRequest (s\<lparr>sh_stopping := True\<rparr>)) else s),
       mb_shutdown := Joining\<rparr>)"

text \<open>The join returns once the thread has ended.\<close>

definition shutdownJoin :: "('q, 'r, 'e) Mailbox \<Rightarrow> ('q, 'r, 'e) Mailbox" where
  "shutdownJoin m =
    (if mb_joinable m
     then m\<lparr>mb_state := noteJob (\<lambda>d. d\<lparr>wd_threadJoins := 1\<rparr>) (mb_state m), mb_joinable := False,
            mb_shutdown := Finishing\<rparr>
     else m\<lparr>mb_shutdown := Finishing\<rparr>)"

definition shutdownEnd :: "('q, 'r, 'e) Mailbox \<Rightarrow> ('q, 'r, 'e) Mailbox" where
  "shutdownEnd m = m\<lparr>mb_state := (mb_state m)\<lparr>sh_available := False\<rparr>, mb_shutdown := NoShutdown\<rparr>"

subsection \<open>Runs\<close>

text \<open>What goes on by itself: the blocks of the thread and the rest of a shutdown under way.\<close>

inductive background ::
  "('q PrepareRequest \<Rightarrow> 'e + 'r) \<Rightarrow> ('q, 'r, 'e) Mailbox \<Rightarrow> ('q, 'r, 'e) Mailbox \<Rightarrow> bool"
  for processor where
  bg_take: "mb_worker m = AtWait \<Longrightarrow> \<not> workerWaits (mb_state m) \<Longrightarrow>
    workerTake (mb_state m) = (w, s) \<Longrightarrow> background processor m (m\<lparr>mb_state := s, mb_worker := w\<rparr>)"
| bg_process: "mb_worker m = Processing request \<Longrightarrow>
    background processor m (m\<lparr>mb_worker := Publishing (workerProcess processor request)\<rparr>)"
| bg_publish: "mb_worker m = Publishing result \<Longrightarrow>
    background processor m (m\<lparr>mb_state := workerPublish result (mb_state m), mb_worker := AtWait\<rparr>)"
| bg_fail_idle: "mb_worker m = AtWait \<Longrightarrow>
    background processor m (m\<lparr>mb_state := workerFail e None (mb_state m), mb_worker := Exited\<rparr>)"
| bg_fail_active: "mb_worker m = Publishing result \<Longrightarrow>
    background processor m
      (m\<lparr>mb_state := workerFail e (Some (rs_generation result)) (mb_state m), mb_worker := Exited\<rparr>)"
| bg_join: "mb_shutdown m = Joining \<Longrightarrow> mb_joinable m \<Longrightarrow> mb_worker m = Exited \<Longrightarrow>
    background processor m (shutdownJoin m)"
| bg_nojoin: "mb_shutdown m = Joining \<Longrightarrow> \<not> mb_joinable m \<Longrightarrow> background processor m (shutdownJoin m)"
| bg_end: "mb_shutdown m = Finishing \<Longrightarrow> background processor m (shutdownEnd m)"

text \<open>
  A run, with the requests that were accepted and the results that left the slot, each with the
  generation its collector expected.
\<close>

inductive mailbox_run ::
  "('q PrepareRequest \<Rightarrow> 'e + 'r) \<Rightarrow>
    ('q, 'r, 'e) Mailbox \<times> 'q PrepareRequest list \<times> (Generation \<times> ('r, 'e) PrepareResult) list \<Rightarrow> bool"
  for processor where
  run_launch: "mailbox_run processor (launch failure, [], [])"
| run_launched: "mailbox_run processor (m, A, C) \<Longrightarrow> \<not> mb_constructed m \<Longrightarrow>
    mailbox_run processor (launched m, A, C)"
| run_background: "mailbox_run processor (m, A, C) \<Longrightarrow> background processor m m' \<Longrightarrow>
    mailbox_run processor (m', A, C)"
| run_submit: "mailbox_run processor (m, A, C) \<Longrightarrow> mb_constructed m \<Longrightarrow>
    submitRequest request (mb_state m) = (status, s) \<Longrightarrow>
    mailbox_run processor (m\<lparr>mb_state := s\<rparr>, if status = SubmitAccepted then A @ [request] else A, C)"
| run_try: "mailbox_run processor (m, A, C) \<Longrightarrow> mb_constructed m \<Longrightarrow>
    tryCollectExact expected (mb_state m) = (result, s) \<Longrightarrow>
    mailbox_run processor (m\<lparr>mb_state := s\<rparr>, A,
      if sh_resultSlot s \<noteq> sh_resultSlot (mb_state m) then C @ [(expected, result)] else C)"
| run_wait: "mailbox_run processor (m, A, C) \<Longrightarrow> mb_constructed m \<Longrightarrow>
    waitAndCollectExact expected (mb_state m) = Some (result, s) \<Longrightarrow>
    mailbox_run processor (m\<lparr>mb_state := s\<rparr>, A,
      if sh_resultSlot s \<noteq> sh_resultSlot (mb_state m) then C @ [(expected, result)] else C)"
| run_shutdown: "mailbox_run processor (m, A, C) \<Longrightarrow> mb_constructed m \<Longrightarrow> mb_shutdown m = NoShutdown \<Longrightarrow>
    mailbox_run processor (shutdownStop m, A, C)"

subsection \<open>The invariant\<close>

text \<open>The result of a request: what the processor gave, its failure, or nothing when it was cancelled.\<close>

definition answers :: "('q PrepareRequest \<Rightarrow> 'e + 'r) \<Rightarrow> 'q PrepareRequest \<Rightarrow> ('r, 'e) PrepareResult \<Rightarrow> bool" where
  "answers processor request r \<longleftrightarrow> rs_generation r = rq_generation request \<and>
    (case rs_state r of
       ReadyState \<Rightarrow> \<exists>p. processor request = Inr p \<and> rs_payload r = Some p \<and> rs_failure r = None
     | FailedState \<Rightarrow> rs_payload r = None \<and> rs_failure r \<noteq> None
     | CancelledState \<Rightarrow> rs_payload r = None \<and> rs_failure r = None
     | _ \<Rightarrow> False)"

text \<open>As it is delivered: an answer to the very request, or an empty one when another was expected.\<close>

definition delivered :: "('q PrepareRequest \<Rightarrow> 'e + 'r) \<Rightarrow> 'q PrepareRequest \<Rightarrow>
    Generation \<times> ('r, 'e) PrepareResult \<Rightarrow> bool" where
  "delivered processor request = (\<lambda>(expected, r).
    if rq_generation request = expected then answers processor request r
    else rs_generation r = rq_generation request \<and> rs_state r = StaleState \<and> rs_payload r = None \<and>
      rs_failure r = None)"

definition inFlight :: "('q PrepareRequest \<Rightarrow> 'e + 'r) \<Rightarrow> ('q, 'r, 'e) Mailbox \<Rightarrow> 'q PrepareRequest list \<Rightarrow> bool" where
  "inFlight processor m F \<longleftrightarrow>
    (let s = mb_state m in
     case F of
       [] \<Rightarrow> sh_requestSlot s = None \<and> sh_resultSlot s = None \<and> mb_worker m \<in> {NoThread, AtWait, Exited}
     | [rq] \<Rightarrow>
         sh_requestSlot s = Some rq \<and> sh_resultSlot s = None \<and> mb_worker m = AtWait \<or>
         sh_requestSlot s = None \<and> sh_resultSlot s = None \<and> mb_worker m = Processing rq \<or>
         (\<exists>r. sh_requestSlot s = None \<and> sh_resultSlot s = None \<and> mb_worker m = Publishing r \<and>
           answers processor rq r) \<or>
         (\<exists>r. sh_requestSlot s = None \<and> sh_resultSlot s = Some r \<and> mb_worker m \<in> {AtWait, Exited} \<and>
           answers processor rq r)
     | _ \<Rightarrow> False)"

definition newer :: "'q PrepareRequest \<Rightarrow> 'q PrepareRequest \<Rightarrow> bool" where
  "newer a b \<longleftrightarrow> \<not> isStaleSubmission (rq_generation a) (rq_generation b)"

definition thread_ok :: "('q, 'r, 'e) Mailbox \<Rightarrow> bool" where
  "thread_ok m \<longleftrightarrow>
    (let s = mb_state m in
     (sh_workerRunning s \<longleftrightarrow> mb_worker m \<notin> {NoThread, AtWait, Exited}) \<and>
     (sh_stopping s \<longrightarrow> sh_requestSlot s = None) \<and>
     (mb_worker m \<in> {NoThread, Exited} \<longrightarrow> sh_stopping s) \<and>
     (\<not> sh_available s \<longrightarrow> mb_worker m \<in> {NoThread, Exited}) \<and>
     (\<not> mb_joinable m \<longrightarrow> mb_worker m \<in> {NoThread, Exited}) \<and>
     (mb_worker m = NoThread \<longrightarrow> \<not> mb_joinable m \<and> \<not> sh_available s) \<and>
     (mb_shutdown m = Finishing \<longrightarrow> \<not> mb_joinable m) \<and>
     (sh_stopping s \<and> sh_available s \<longrightarrow> mb_shutdown m \<noteq> NoShutdown) \<and>
     (mb_shutdown m \<noteq> NoShutdown \<longrightarrow> sh_stopping s))"

definition mailbox_ok :: "('q PrepareRequest \<Rightarrow> 'e + 'r) \<Rightarrow>
    ('q, 'r, 'e) Mailbox \<times> 'q PrepareRequest list \<times> (Generation \<times> ('r, 'e) PrepareResult) list \<Rightarrow> bool" where
  "mailbox_ok processor = (\<lambda>(m, A, C).
    thread_ok m \<and> length C \<le> length A \<and> inFlight processor m (drop (length C) A) \<and>
    list_all2 (delivered processor) (take (length C) A) C)"


lemma noteJob_simps [simp]:
  "sh_available (noteJob f s) = sh_available s" "sh_stopping (noteJob f s) = sh_stopping s"
  "sh_workerRunning (noteJob f s) = sh_workerRunning s" "sh_requestSlot (noteJob f s) = sh_requestSlot s"
  "sh_resultSlot (noteJob f s) = sh_resultSlot s" "sh_lastSubmitted (noteJob f s) = sh_lastSubmitted s"
  "sh_startupFailure (noteJob f s) = sh_startupFailure s"
  "sh_diagnostics (noteJob f s) = f (sh_diagnostics s)"
  by (simp_all add: noteJob_def)

lemma generation_eq_iff [simp]: "generation_eq a b \<longleftrightarrow> a = b"
  by (cases a; cases b) (auto simp: generation_eq_def)

lemma makeStateResult_simps [simp]:
  "rs_generation (makeStateResult g st) = g" "rs_state (makeStateResult g st) = st"
  "rs_payload (makeStateResult g st) = None" "rs_failure (makeStateResult g st) = None"
  by (simp_all add: makeStateResult_def result_init_def)

lemma inFlight_none: "inFlight processor m [] \<longleftrightarrow>
    sh_requestSlot (mb_state m) = None \<and> sh_resultSlot (mb_state m) = None \<and>
    mb_worker m \<in> {NoThread, AtWait, Exited}"
  by (simp add: inFlight_def Let_def)

lemma inFlight_one: "inFlight processor m [rq] \<longleftrightarrow>
    (let s = mb_state m in
     sh_requestSlot s = Some rq \<and> sh_resultSlot s = None \<and> mb_worker m = AtWait \<or>
     sh_requestSlot s = None \<and> sh_resultSlot s = None \<and> mb_worker m = Processing rq \<or>
     (\<exists>r. sh_requestSlot s = None \<and> sh_resultSlot s = None \<and> mb_worker m = Publishing r \<and>
       answers processor rq r) \<or>
     (\<exists>r. sh_requestSlot s = None \<and> sh_resultSlot s = Some r \<and> mb_worker m \<in> {AtWait, Exited} \<and>
       answers processor rq r))"
  by (simp add: inFlight_def Let_def)

lemma inFlight_oneE:
  assumes "inFlight processor m [rq]"
  obtains (pending) "sh_requestSlot (mb_state m) = Some rq" "sh_resultSlot (mb_state m) = None"
      "mb_worker m = AtWait"
  | (processing) "sh_requestSlot (mb_state m) = None" "sh_resultSlot (mb_state m) = None"
      "mb_worker m = Processing rq"
  | (publishing) r where "sh_requestSlot (mb_state m) = None" "sh_resultSlot (mb_state m) = None"
      "mb_worker m = Publishing r" "answers processor rq r"
  | (published) r where "sh_requestSlot (mb_state m) = None" "sh_resultSlot (mb_state m) = Some r"
      "mb_worker m = AtWait \<or> mb_worker m = Exited" "answers processor rq r"
  using assms unfolding inFlight_one Let_def by (elim disjE conjE exE) (auto intro: that)

lemma inFlight_two: "\<not> inFlight processor m (a # b # F)"
  by (simp add: inFlight_def Let_def)

lemma inFlight_cases:
  assumes "inFlight processor m F"
  obtains "F = []" | rq where "F = [rq]"
  using assms inFlight_two by (metis list.exhaust)

lemma flight_slots:
  assumes "inFlight processor m F"
  shows "(sh_requestSlot (mb_state m) = None \<or> sh_resultSlot (mb_state m) = None) \<and>
    (mb_worker m \<noteq> AtWait \<longrightarrow> sh_requestSlot (mb_state m) = None)"
  using assms by (cases rule: inFlight_cases) (use assms in \<open>auto simp: inFlight_none inFlight_one Let_def\<close>)

text \<open>Each of the six places a request or nothing can be at.\<close>

lemma process_answers: "answers processor rq (workerProcess processor rq)"
  by (auto simp: answers_def workerProcess_def result_init_def Let_def split: sum.split)

lemma cancelled_answers:
  "answers processor rq r \<Longrightarrow> answers processor rq (r\<lparr>rs_payload := None, rs_failure := None, rs_state := CancelledState\<rparr>)"
  by (simp add: answers_def)

lemma failed_answers: "answers processor rq ((makeStateResult (rq_generation rq) FailedState)\<lparr>rs_failure := Some e\<rparr>)"
  by (simp add: answers_def)

lemma answers_state: "answers processor rq r \<Longrightarrow> rs_state r \<in> {ReadyState, FailedState, CancelledState}"
  by (auto simp: answers_def split: ResultState.splits)

lemma answers_generation: "answers processor rq r \<Longrightarrow> rs_generation r = rq_generation rq"
  by (simp add: answers_def)

lemma bg_thread:
  assumes "background processor m m'" and "thread_ok m" and "inFlight processor m F"
  shows "thread_ok m'"
  using assms
proof (induction rule: background.induct)
  case (bg_take m w s)
  then show ?case
    by (auto simp: thread_ok_def Let_def workerTake_def workerWaits_def split: option.splits)
next
  case (bg_process m request)
  then show ?case by (auto simp: thread_ok_def Let_def)
next
  case (bg_publish m result)
  then show ?case by (auto simp: thread_ok_def Let_def workerPublish_def)
next
  case (bg_fail_idle m e)
  then show ?case using flight_slots [OF bg_fail_idle.prems(2)] by (auto simp: thread_ok_def workerFail_def Let_def)
next
  case (bg_fail_active m result e)
  then show ?case using flight_slots [OF bg_fail_active.prems(2)] by (auto simp: thread_ok_def workerFail_def Let_def)
next
  case (bg_join m)
  then show ?case by (auto simp: thread_ok_def shutdownJoin_def Let_def)
next
  case (bg_nojoin m)
  then show ?case by (auto simp: thread_ok_def shutdownJoin_def Let_def)
next
  case (bg_end m)
  then show ?case by (auto simp: thread_ok_def shutdownEnd_def Let_def)
qed

lemma bg_flight:
  assumes "background processor m m'" and "thread_ok m" and "inFlight processor m F"
  shows "inFlight processor m' F"
  using assms(3)
proof (cases rule: inFlight_cases)
  case 1
  then show ?thesis using assms
    by (auto elim!: background.cases simp: inFlight_none workerTake_def workerFail_def shutdownJoin_def
        shutdownEnd_def workerWaits_def Let_def)
next
  case (2 rq)
  have flight: "inFlight processor m [rq]" using assms(3) 2 by simp
  from assms(1) have "inFlight processor m' [rq]"
  proof (cases rule: background.cases)
    case (bg_take w s)
    then show ?thesis using flight
      by (auto simp: inFlight_one Let_def workerTake_def split: option.splits)
  next
    case (bg_process request)
    then show ?thesis using flight by (auto simp: inFlight_one Let_def process_answers)
  next
    case (bg_publish result)
    then have "answers processor rq result" using flight by (simp add: inFlight_one Let_def)
    then show ?thesis using bg_publish flight
      by (auto simp: inFlight_one Let_def workerPublish_def cancelled_answers)
  next
    case (bg_fail_idle e)
    then show ?thesis using flight
      by (auto simp: inFlight_one Let_def workerFail_def failed_answers)
  next
    case (bg_fail_active result e)
    then have a: "answers processor rq result" using flight by (simp add: inFlight_one Let_def)
    then show ?thesis using bg_fail_active flight failed_answers [of processor rq e]
      by (auto simp: inFlight_one Let_def workerFail_def answers_generation [OF a])
  qed (use flight in \<open>auto simp: inFlight_one Let_def shutdownJoin_def shutdownEnd_def\<close>)
  then show ?thesis using 2 by simp
qed


lemma thread_ok_cong:
  "thread_ok m \<Longrightarrow> sh_available s = sh_available (mb_state m) \<Longrightarrow> sh_stopping s = sh_stopping (mb_state m) \<Longrightarrow>
    sh_workerRunning s = sh_workerRunning (mb_state m) \<Longrightarrow> sh_requestSlot s = sh_requestSlot (mb_state m) \<Longrightarrow>
    thread_ok (m\<lparr>mb_state := s\<rparr>)"
  by (simp add: thread_ok_def Let_def)

lemma submit_ok:
  assumes "thread_ok m" and "inFlight processor m F" and "submitRequest rq (mb_state m) = (status, s)"
  shows "thread_ok (m\<lparr>mb_state := s\<rparr>)"
    and "status \<noteq> SubmitAccepted \<Longrightarrow> inFlight processor (m\<lparr>mb_state := s\<rparr>) F"
    and "status = SubmitAccepted \<Longrightarrow> F = [] \<and> inFlight processor (m\<lparr>mb_state := s\<rparr>) [rq]"
proof -
  show "thread_ok (m\<lparr>mb_state := s\<rparr>)"
    using assms(1,3) by (auto simp: submitRequest_def thread_ok_def Let_def split: if_splits)
  show "inFlight processor (m\<lparr>mb_state := s\<rparr>) F" if "status \<noteq> SubmitAccepted"
    using assms(2)
  proof (cases rule: inFlight_cases)
    case 1
    then show ?thesis using assms(2,3) that
      by (auto simp: submitRequest_def inFlight_none split: if_splits)
  next
    case (2 rq')
    have "sh_requestSlot s = sh_requestSlot (mb_state m) \<and> sh_resultSlot s = sh_resultSlot (mb_state m)"
      using assms(3) that by (auto simp: submitRequest_def split: if_splits)
    then show ?thesis using assms(2) 2 by (simp add: inFlight_one Let_def)
  qed
  show "F = [] \<and> inFlight processor (m\<lparr>mb_state := s\<rparr>) [rq]" if "status = SubmitAccepted"
    using assms(2)
  proof (cases rule: inFlight_cases)
    case 1
    then show ?thesis using assms that
      by (auto simp: submitRequest_def inFlight_none inFlight_one thread_ok_def Let_def split: if_splits)
  next
    case (2 rq')
    then have "inFlight processor m [rq']" using assms(2) by simp
    then have "sh_requestSlot (mb_state m) \<noteq> None \<or> sh_resultSlot (mb_state m) \<noteq> None \<or>
        sh_workerRunning (mb_state m)"
      by (rule inFlight_oneE) (use assms(1) in \<open>simp_all add: thread_ok_def Let_def\<close>)
    then show ?thesis using assms(3) that by (simp add: submitRequest_def split: if_splits)
  qed
qed

text \<open>A collection takes the result out of the slot: the flight ends with it.\<close>

lemma consume_ok:
  assumes "thread_ok m" and "inFlight processor m F" and "sh_resultSlot (mb_state m) = Some r"
    and "consumeResult r expected (mb_state m) = (result, s)"
  shows "thread_ok (m\<lparr>mb_state := s\<rparr>) \<and> sh_resultSlot s = None \<and>
    (\<exists>rq. F = [rq] \<and> inFlight processor (m\<lparr>mb_state := s\<rparr>) [] \<and> delivered processor rq (expected, result))"
proof -
  obtain rq where rq: "F = [rq]" using assms(2,3)
    by (cases rule: inFlight_cases [OF assms(2)]) (auto simp: inFlight_none)
  then have "inFlight processor m [rq]" using assms(2) by simp
  then have a: "answers processor rq r" "mb_worker m \<in> {NoThread, AtWait, Exited}"
      "sh_requestSlot (mb_state m) = None"
    by (rule inFlight_oneE; use assms(3) in simp)+
  have s: "sh_resultSlot s = None" "sh_requestSlot s = None"
    using assms(4) a(3) by (auto simp: consumeResult_def Let_def split: if_splits)
  have "thread_ok (m\<lparr>mb_state := s\<rparr>)"
    by (rule thread_ok_cong [OF assms(1)])
      (use assms(4) in \<open>auto simp: consumeResult_def Let_def split: if_splits\<close>)
  moreover have "delivered processor rq (expected, result)"
    using assms(4) a(1) answers_generation [OF a(1)]
    by (simp add: consumeResult_def Let_def delivered_def split: if_splits) auto
  ultimately show ?thesis using rq s a(2) by (simp add: inFlight_none)
qed

lemma wait_is_try:
  "waitAndCollectExact expected s = Some (result, s') \<Longrightarrow>
    s' = s \<or> (\<exists>r. sh_resultSlot s = Some r \<and> consumeResult r expected s = (result, s'))"
  by (auto simp: waitAndCollectExact_def split: if_splits option.splits)

lemma try_cases:
  "tryCollectExact expected s = (result, s') \<Longrightarrow>
    s' = s \<or> (\<exists>r. sh_resultSlot s = Some r \<and> consumeResult r expected s = (result, s'))"
  by (auto simp: tryCollectExact_def split: if_splits option.splits)

lemma mailbox_ok_collect:
  assumes ok: "mailbox_ok processor (m, A, C)"
    and c: "s = mb_state m \<or> (\<exists>r. sh_resultSlot (mb_state m) = Some r \<and>
      consumeResult r expected (mb_state m) = (result, s))"
  shows "mailbox_ok processor (m\<lparr>mb_state := s\<rparr>, A,
    if sh_resultSlot s \<noteq> sh_resultSlot (mb_state m) then C @ [(expected, result)] else C)"
  using c
proof
  assume "s = mb_state m"
  then show ?thesis using ok by simp
next
  assume "\<exists>r. sh_resultSlot (mb_state m) = Some r \<and> consumeResult r expected (mb_state m) = (result, s)"
  then obtain r where r: "sh_resultSlot (mb_state m) = Some r" "consumeResult r expected (mb_state m) = (result, s)"
    by blast
  have "thread_ok m" "inFlight processor m (drop (length C) A)" using ok by (simp_all add: mailbox_ok_def)
  from consume_ok [OF this r] obtain rq where rq: "drop (length C) A = [rq]" "sh_resultSlot s = None"
      "thread_ok (m\<lparr>mb_state := s\<rparr>)" "inFlight processor (m\<lparr>mb_state := s\<rparr>) []"
      "delivered processor rq (expected, result)"
    by blast
  have A: "A = take (length C) A @ [rq]" using rq(1) by (metis append_take_drop_id)
  have "length C \<le> length A" using ok by (simp add: mailbox_ok_def)
  then have len: "length A = Suc (length C)" using arg_cong [OF rq(1), of length] by simp
  have "list_all2 (delivered processor) (take (length C) A @ [rq]) (C @ [(expected, result)])"
    using ok rq(5) by (simp add: mailbox_ok_def list_all2_appendI)
  then show ?thesis using r rq len A by (simp add: mailbox_ok_def)
qed

lemma stop_ok:
  assumes "thread_ok m" and "mb_shutdown m = NoShutdown" and "inFlight processor m F"
  shows "thread_ok (shutdownStop m) \<and> inFlight processor (shutdownStop m) F"
proof
  show "thread_ok (shutdownStop m)"
    using assms(1,2) flight_slots [OF assms(3)]
    by (auto simp: thread_ok_def shutdownStop_def cancelPendingRequest_def cancelCompletedResult_def Let_def
        split: option.splits)
  show "inFlight processor (shutdownStop m) F"
    using assms(3)
  proof (cases rule: inFlight_cases)
    case 1
    then show ?thesis using assms(3)
      by (auto simp: inFlight_none shutdownStop_def cancelPendingRequest_def cancelCompletedResult_def Let_def)
  next
    case (2 rq)
    have c: "answers processor rq (makeStateResult (rq_generation rq) CancelledState)"
      by (simp add: answers_def)
    have "inFlight processor m [rq]" using assms(3) 2 by simp
    then have "inFlight processor (shutdownStop m) [rq]"
    proof (cases rule: inFlight_oneE)
      case pending
      then show ?thesis using c
        by (simp add: inFlight_one shutdownStop_def cancelPendingRequest_def cancelCompletedResult_def Let_def)
    next
      case (published r)
      then show ?thesis using cancelled_answers [OF published(4)]
        by (auto simp: inFlight_one shutdownStop_def cancelPendingRequest_def cancelCompletedResult_def Let_def)
    qed (simp_all add: inFlight_one shutdownStop_def cancelPendingRequest_def cancelCompletedResult_def Let_def)
    then show ?thesis using 2 by simp
  qed
qed

lemma mailbox_run_ok: "mailbox_run processor w \<Longrightarrow> mailbox_ok processor w"
proof (induction rule: mailbox_run.induct)
  case (run_launch failure)
  then show ?case
    by (cases failure) (auto simp: mailbox_ok_def launch_def thread_ok_def inFlight_none shared_init_def Let_def)
next
  case (run_launched m A C)
  have "inFlight processor (launched m) F = inFlight processor m F" for F
    by (simp add: inFlight_def launched_def Let_def split: list.split)
  then show ?case using run_launched by (simp add: mailbox_ok_def thread_ok_def launched_def Let_def)
next
  case (run_background m A C m')
  then show ?case using bg_thread bg_flight by (simp add: mailbox_ok_def) blast
next
  case (run_submit m A C request status s)
  note ok = run_submit.IH [unfolded mailbox_ok_def, simplified]
  note sub = submit_ok [OF ok [THEN conjunct1] ok [THEN conjunct2, THEN conjunct2, THEN conjunct1]
      run_submit.hyps(3)]
  show ?case
  proof (cases "status = SubmitAccepted")
    case True
    then have "drop (length C) A = []" using sub(3) by blast
    then have "length A = length C" using ok by simp
    then show ?thesis using True sub ok by (simp add: mailbox_ok_def)
  next
    case False
    then show ?thesis using sub ok by (simp add: mailbox_ok_def)
  qed
next
  case (run_try m A C expected result s)
  then show ?case by (intro mailbox_ok_collect try_cases)
next
  case (run_wait m A C expected result s)
  then show ?case by (intro mailbox_ok_collect wait_is_try)
next
  case (run_shutdown m A C)
  then show ?case using stop_ok [of m processor "drop (length C) A"] by (simp add: mailbox_ok_def)
qed

lemma delivered_means:
  assumes "delivered processor rq (expected, r)"
  shows "rs_generation r = rq_generation rq \<and>
    (if rs_state r = ReadyState
     then expected = rq_generation rq \<and> processor rq = Inr (the (rs_payload r)) \<and> \<not> failClosed r
     else rs_payload r = None \<and> failClosed r \<and> rs_state r \<in> {FailedState, CancelledState, StaleState} \<and>
       (rs_state r = StaleState \<longleftrightarrow> expected \<noteq> rq_generation rq))"
  using assms by (cases "rs_state r") (auto simp: delivered_def failClosed_def answers_def split: if_splits)

text \<open>
  C15. Every accepted request gets exactly one result, in the order of acceptance: whatever the owner,
  the callers of shutdown and the worker interleave, and also when the thread fails, the results that
  were collected answer the accepted requests one by one, and at most one request is still on its
  way. A ready result carries what the processor gave for that very request and is handed out only to
  a collector that expected its exact generation; every other result carries no payload.
\<close>

theorem every_request_gets_its_result:
  assumes "mailbox_run processor (m, A, C)"
  shows "length C \<le> length A \<and> length A \<le> length C + 1 \<and>
    list_all2 (\<lambda>rq (expected, r). rs_generation r = rq_generation rq \<and>
      (if rs_state r = ReadyState
       then expected = rq_generation rq \<and> processor rq = Inr (the (rs_payload r)) \<and> \<not> failClosed r
       else rs_payload r = None \<and> failClosed r \<and> rs_state r \<in> {FailedState, CancelledState, StaleState} \<and>
         (rs_state r = StaleState \<longleftrightarrow> expected \<noteq> rq_generation rq)))
      (take (length C) A) C"
proof -
  note ok = mailbox_run_ok [OF assms, unfolded mailbox_ok_def, simplified]
  have "length (drop (length C) A) \<le> 1"
    by (rule inFlight_cases [of processor m "drop (length C) A"]) (use ok in auto)
  moreover have "list_all2 (\<lambda>rq (expected, r). rs_generation r = rq_generation rq \<and>
      (if rs_state r = ReadyState
       then expected = rq_generation rq \<and> processor rq = Inr (the (rs_payload r)) \<and> \<not> failClosed r
       else rs_payload r = None \<and> failClosed r \<and> rs_state r \<in> {FailedState, CancelledState, StaleState} \<and>
         (rs_state r = StaleState \<longleftrightarrow> expected \<noteq> rq_generation rq)))
      (take (length C) A) C"
    using ok [THEN conjunct2, THEN conjunct2, THEN conjunct2]
    by (rule list_all2_mono) (use delivered_means in fast)
  ultimately show ?thesis using ok by auto
qed


subsection \<open>The order of the generations\<close>

definition later :: "'q PrepareRequest \<Rightarrow> 'q PrepareRequest \<Rightarrow> bool" where
  "later a b \<longleftrightarrow>
    (let x = rq_generation a; y = rq_generation b in
     gn_rendererEpoch x < gn_rendererEpoch y \<or>
     gn_rendererEpoch x = gn_rendererEpoch y \<and> gn_jobSerial x < gn_jobSerial y)"

lemma later_trans: "later a b \<Longrightarrow> later b c \<Longrightarrow> later a c"
  by (auto simp: later_def Let_def)

lemma not_stale_later:
  "generation_valid (rq_generation a) \<Longrightarrow> \<not> isStaleSubmission (rq_generation a) (rq_generation b) \<Longrightarrow> later a b"
  by (auto simp: isStaleSubmission_def later_def Let_def not_le not_less split: if_splits)

definition order_ok :: "('q, 'r, 'e) Mailbox \<times> 'q PrepareRequest list \<times> 'c \<Rightarrow> bool" where
  "order_ok = (\<lambda>(m, A, C). (\<forall>rq\<in>set A. generation_valid (rq_generation rq)) \<and> sorted_wrt later A \<and>
    (A \<noteq> [] \<longrightarrow> sh_lastSubmitted (mb_state m) = rq_generation (last A)))"

lemma background_last: "background processor m m' \<Longrightarrow>
    sh_lastSubmitted (mb_state m') = sh_lastSubmitted (mb_state m)"
  by (induction rule: background.induct)
    (auto simp: workerTake_def workerPublish_def workerFail_def shutdownJoin_def shutdownEnd_def Let_def
      split: option.splits)

lemma consume_last: "consumeResult r expected s = (result, s') \<Longrightarrow> sh_lastSubmitted s' = sh_lastSubmitted s"
  by (auto simp: consumeResult_def Let_def split: if_splits)

lemma order_ok_cong: "order_ok (m, A, C) \<Longrightarrow> sh_lastSubmitted (mb_state m') = sh_lastSubmitted (mb_state m) \<Longrightarrow>
    order_ok (m', A, C')"
  by (simp add: order_ok_def)

lemma mailbox_run_order: "mailbox_run processor w \<Longrightarrow> order_ok w"
proof (induction rule: mailbox_run.induct)
  case (run_submit m A C request status s)
  show ?case
  proof (cases "status = SubmitAccepted")
    case True
    then have s: "sh_lastSubmitted s = rq_generation request" "generation_valid (rq_generation request)"
      "\<not> isStaleSubmission (sh_lastSubmitted (mb_state m)) (rq_generation request)"
      using run_submit.hyps(3) by (auto simp: submitRequest_def split: if_splits)
    have "later a request" if "a \<in> set A" for a
    proof -
      from that have ne: "A \<noteq> []" by auto
      then have l: "later (last A) request"
        using s(3) run_submit.IH by (intro not_stale_later) (simp_all add: order_ok_def)
      have "a = last A \<or> later a (last A)"
        using that run_submit.IH ne sorted_wrt_append [of later "butlast A" "[last A]"]
        by (cases A rule: rev_cases) (auto simp: order_ok_def)
      then show ?thesis using l later_trans by blast
    qed
    then show ?thesis using True s run_submit.IH by (auto simp: order_ok_def sorted_wrt_append)
  next
    case False
    then have "sh_lastSubmitted s = sh_lastSubmitted (mb_state m)"
      using run_submit.hyps(3) by (auto simp: submitRequest_def split: if_splits)
    then show ?thesis using False run_submit.IH by (simp add: order_ok_def)
  qed
next
  case (run_background m A C m')
  then show ?case using background_last [OF run_background.hyps(2)] by (simp add: order_ok_def)
next
  case (run_try m A C expected result s)
  from try_cases [OF run_try.hyps(3)] show ?case
    by (intro order_ok_cong [OF run_try.IH]) (auto dest: consume_last)
next
  case (run_wait m A C expected result s)
  from wait_is_try [OF run_wait.hyps(3)] show ?case
    by (intro order_ok_cong [OF run_wait.IH]) (auto dest: consume_last)
next
  case (run_shutdown m A C)
  show ?case
    by (rule order_ok_cong [OF run_shutdown.IH])
      (simp add: shutdownStop_def cancelPendingRequest_def cancelCompletedResult_def Let_def split: option.split)
next
  case (run_launched m A C)
  then show ?case by (simp add: order_ok_def launched_def)
qed (simp add: order_ok_def)

text \<open>
  Generations only go forward: the accepted requests are strictly increasing by renderer epoch
  and, within one epoch, by job serial, so no generation is ever accepted twice and a result that
  answers an older epoch cannot follow one of a newer.
\<close>

theorem accepted_generations_increase:
  assumes "mailbox_run processor (m, A, C)" and "i < j" and "j < length A"
  shows "later (A ! i) (A ! j) \<and> rq_generation (A ! i) \<noteq> rq_generation (A ! j)"
proof -
  have "sorted_wrt later A" using mailbox_run_order [OF assms(1)] by (simp add: order_ok_def)
  then have "later (A ! i) (A ! j)" using assms(2,3) by (simp add: sorted_wrt_iff_nth_less)
  moreover from this have "rq_generation (A ! i) \<noteq> rq_generation (A ! j)" by (auto simp: later_def Let_def)
  ultimately show ?thesis by simp
qed

subsection \<open>Waiting ends\<close>

fun workerWeight :: "('q, 'r, 'e) WorkerAt \<Rightarrow> nat" where
  "workerWeight NoThread = 0"
| "workerWeight Exited = 0"
| "workerWeight AtWait = 1"
| "workerWeight (Publishing r) = 2"
| "workerWeight (Processing rq) = 3"

fun phaseWeight :: "ShutdownPhase \<Rightarrow> nat" where
  "phaseWeight NoShutdown = 0"
| "phaseWeight Finishing = 1"
| "phaseWeight Joining = 2"

definition pending :: "('q, 'r, 'e) Mailbox \<Rightarrow> nat" where
  "pending m = workerWeight (mb_worker m) + (if sh_requestSlot (mb_state m) = None then 0 else 3) +
     phaseWeight (mb_shutdown m)"



lemma background_run: "(background processor ^^ n) m m' \<Longrightarrow> mailbox_run processor (m, A, C) \<Longrightarrow>
    mailbox_run processor (m', A, C)"
  by (induction n arbitrary: m') (auto intro: run_background)








subsection \<open>A concrete run\<close>

text \<open>
  Payloads are numbers; the processor refuses zero and doubles the rest. One request is submitted,
  taken, processed, published and collected.
\<close>

definition exampleProcessor :: "nat PrepareRequest \<Rightarrow> nat + nat" where
  "exampleProcessor rq = (if rq_payload rq = 0 then Inl 13 else Inr (2 * rq_payload rq))"

definition exampleRequest :: "nat PrepareRequest" where
  "exampleRequest = \<lparr>rq_generation = \<lparr>gn_jobSerial = 4, gn_rendererEpoch = 2, gn_frameSerial = 9,
     gn_lightGeneration = 3\<rparr>, rq_payload = 21\<rparr>"

definition nextRequest :: "nat PrepareRequest" where
  "nextRequest = \<lparr>rq_generation = \<lparr>gn_jobSerial = 5, gn_rendererEpoch = 2, gn_frameSerial = 9,
     gn_lightGeneration = 3\<rparr>, rq_payload = 0\<rparr>"

definition exampleIdle :: "(nat, nat, nat) Mailbox" where
  "exampleIdle = launched (launch None)"

definition afterSubmit :: "nat PrepareRequest \<Rightarrow> (nat, nat, nat) Mailbox \<Rightarrow> (nat, nat, nat) Mailbox" where
  "afterSubmit rq m = m\<lparr>mb_state := snd (submitRequest rq (mb_state m))\<rparr>"

definition afterTake :: "(nat, nat, nat) Mailbox \<Rightarrow> (nat, nat, nat) Mailbox" where
  "afterTake m = m\<lparr>mb_state := snd (workerTake (mb_state m)), mb_worker := fst (workerTake (mb_state m))\<rparr>"

definition afterProcess :: "nat PrepareRequest \<Rightarrow> (nat, nat, nat) Mailbox \<Rightarrow> (nat, nat, nat) Mailbox" where
  "afterProcess rq m = m\<lparr>mb_worker := Publishing (workerProcess exampleProcessor rq)\<rparr>"

definition afterPublish :: "nat PrepareRequest \<Rightarrow> (nat, nat, nat) Mailbox \<Rightarrow> (nat, nat, nat) Mailbox" where
  "afterPublish rq m = m\<lparr>mb_state := workerPublish (workerProcess exampleProcessor rq) (mb_state m),
     mb_worker := AtWait\<rparr>"

definition afterCollect :: "nat PrepareRequest \<Rightarrow> (nat, nat, nat) Mailbox \<Rightarrow> (nat, nat, nat) Mailbox" where
  "afterCollect rq m = m\<lparr>mb_state := snd (tryCollectExact (rq_generation rq) (mb_state m))\<rparr>"

definition exampleTaken :: "(nat, nat, nat) Mailbox" where
  "exampleTaken = afterTake (afterSubmit exampleRequest exampleIdle)"

definition examplePublished :: "(nat, nat, nat) Mailbox" where
  "examplePublished = afterPublish exampleRequest (afterProcess exampleRequest exampleTaken)"

lemma example_idle: "mailbox_run exampleProcessor (exampleIdle, [], [])"
  unfolding exampleIdle_def by (rule run_launched [OF run_launch]) (simp add: launch_def)

lemma example_submitted: "mailbox_run exampleProcessor (afterSubmit exampleRequest exampleIdle, [exampleRequest], [])"
proof -
  have a: "fst (submitRequest exampleRequest (mb_state exampleIdle)) = SubmitAccepted" by code_simp
  have c: "mb_constructed exampleIdle" by code_simp
  show ?thesis
    using run_submit [OF example_idle c surjective_pairing [of "submitRequest exampleRequest (mb_state exampleIdle)"]] a
    by (simp add: afterSubmit_def)
qed

lemma example_taken: "background exampleProcessor (afterSubmit exampleRequest exampleIdle) exampleTaken"
  unfolding exampleTaken_def afterTake_def
  by (rule bg_take [OF _ _ surjective_pairing]) code_simp+

lemma example_processed: "background exampleProcessor exampleTaken (afterProcess exampleRequest exampleTaken)"
  unfolding afterProcess_def by (rule bg_process) code_simp

lemma example_published: "background exampleProcessor (afterProcess exampleRequest exampleTaken) examplePublished"
  unfolding examplePublished_def afterPublish_def
  by (rule bg_publish) (simp add: afterProcess_def)

lemma example_three: "(background exampleProcessor ^^ 3) (afterSubmit exampleRequest exampleIdle) examplePublished"
  using example_taken example_processed example_published by (auto simp: numeral_3_eq_3 relcompp_apply)

lemma example_collected:
  "mailbox_run exampleProcessor (afterCollect exampleRequest examplePublished, [exampleRequest],
    [(rq_generation exampleRequest, fst (tryCollectExact (rq_generation exampleRequest) (mb_state examplePublished)))])"
proof -
  have r: "mailbox_run exampleProcessor (examplePublished, [exampleRequest], [])"
    by (rule background_run [OF example_three example_submitted])
  have c: "mb_constructed examplePublished" by code_simp
  have d: "sh_resultSlot (snd (tryCollectExact (rq_generation exampleRequest) (mb_state examplePublished))) = None"
    "sh_resultSlot (mb_state examplePublished) \<noteq> None"
    by code_simp+
  show ?thesis
    using run_try [OF r c surjective_pairing [of "tryCollectExact (rq_generation exampleRequest) (mb_state examplePublished)"]] d
    by (simp add: afterCollect_def)
qed

theorem every_request_gets_its_result_witness:
  "rs_generation (fst (tryCollectExact (rq_generation exampleRequest) (mb_state examplePublished))) =
      rq_generation exampleRequest \<and>
    rs_payload (fst (tryCollectExact (rq_generation exampleRequest) (mb_state examplePublished))) = Some 42"
proof -
  have "rs_payload (fst (tryCollectExact (rq_generation exampleRequest) (mb_state examplePublished))) = Some 42"
    by code_simp
  then show ?thesis using every_request_gets_its_result [OF example_collected] by simp
qed

theorem accepted_generations_increase_witness:
  "later exampleRequest nextRequest \<and> rq_generation exampleRequest \<noteq> rq_generation nextRequest"
proof -
  let ?m = "afterCollect exampleRequest examplePublished"
  have c: "mb_constructed ?m" by code_simp
  have a: "fst (submitRequest nextRequest (mb_state ?m)) = SubmitAccepted" by code_simp
  have "\<exists>C. mailbox_run exampleProcessor (afterSubmit nextRequest ?m, [exampleRequest, nextRequest], C)"
    using run_submit [OF example_collected c surjective_pairing [of "submitRequest nextRequest (mb_state ?m)"]] a
    by (auto simp: afterSubmit_def)
  then obtain C where "mailbox_run exampleProcessor (afterSubmit nextRequest ?m, [exampleRequest, nextRequest], C)" ..
  from accepted_generations_increase [OF this, of 0 1] show ?thesis by simp
qed


end
