(* ===== verification/DrawTimeCache.thy ===== *)
theory DrawTimeCache
  imports StreamStability "HOL-Library.Multiset" "HOL-Library.Product_Lexorder"
begin

section \<open>The draw-time snapshot cache\<close>

text \<open>
  The cache of vertex snapshots of \<open>src/src/d3d9/d3d9_device.cpp\<close> with
  \<open>war3/render/war3_drawtime_active_ledger.h\<close> (which entries this frame has published),
  \<open>war3_draw_time_snapshot_lifetime.h\<close> (what an entry owns, and the attempt to fill it) and
  \<open>war3_shadow_drawtime_cache_policy.h\<close> with the collection of the device. The hash map is the list of
  its entries in the order of iteration; any step may put them into another order. What a capture
  copies is not modelled: the backing it leaves in the entry is an argument.
\<close>

subsection \<open>Keys\<close>

record DrawTimeKey =
  dk_mapEpoch :: u64
  dk_instanceIdentity :: u32
  dk_meshPayloadPtr :: u32
  dk_renderablePart :: u32
  dk_jHandle :: u32
  dk_layerIndex :: u32
  dk_payloadWord108 :: u32
  dk_payloadWord11C :: u32

definition drawTimeKey_eq :: "DrawTimeKey \<Rightarrow> DrawTimeKey \<Rightarrow> bool" where
  "drawTimeKey_eq a b \<longleftrightarrow> dk_mapEpoch a = dk_mapEpoch b \<and> dk_instanceIdentity a = dk_instanceIdentity b \<and>
     dk_meshPayloadPtr a = dk_meshPayloadPtr b \<and> dk_renderablePart a = dk_renderablePart b \<and>
     dk_jHandle a = dk_jHandle b \<and> dk_layerIndex a = dk_layerIndex b \<and>
     dk_payloadWord108 a = dk_payloadWord108 b \<and> dk_payloadWord11C a = dk_payloadWord11C b"

lemma drawTimeKey_eq_iff [simp]: "drawTimeKey_eq a b \<longleftrightarrow> a = b"
  by (cases a; cases b) (auto simp: drawTimeKey_eq_def)

text \<open>The order by which ties between victims are broken.\<close>

definition stableKeyLess :: "DrawTimeKey \<Rightarrow> DrawTimeKey \<Rightarrow> bool" where
  "stableKeyLess a b =
    (if dk_mapEpoch a \<noteq> dk_mapEpoch b then dk_mapEpoch a < dk_mapEpoch b
     else if dk_instanceIdentity a \<noteq> dk_instanceIdentity b then dk_instanceIdentity a < dk_instanceIdentity b
     else if dk_meshPayloadPtr a \<noteq> dk_meshPayloadPtr b then dk_meshPayloadPtr a < dk_meshPayloadPtr b
     else if dk_renderablePart a \<noteq> dk_renderablePart b then dk_renderablePart a < dk_renderablePart b
     else if dk_jHandle a \<noteq> dk_jHandle b then dk_jHandle a < dk_jHandle b
     else if dk_layerIndex a \<noteq> dk_layerIndex b then dk_layerIndex a < dk_layerIndex b
     else if dk_payloadWord108 a \<noteq> dk_payloadWord108 b then dk_payloadWord108 a < dk_payloadWord108 b
     else dk_payloadWord11C a < dk_payloadWord11C b)"

definition keyTuple :: "DrawTimeKey \<Rightarrow> u64 \<times> u32 \<times> u32 \<times> u32 \<times> u32 \<times> u32 \<times> u32 \<times> u32" where
  "keyTuple k = (dk_mapEpoch k, dk_instanceIdentity k, dk_meshPayloadPtr k, dk_renderablePart k,
     dk_jHandle k, dk_layerIndex k, dk_payloadWord108 k, dk_payloadWord11C k)"

lemma stableKeyLess_tuple: "stableKeyLess a b \<longleftrightarrow> keyTuple a < keyTuple b"
  by (auto simp: stableKeyLess_def keyTuple_def less_prod_def less_eq_prod_def)

lemma keyTuple_inj: "keyTuple a = keyTuple b \<Longrightarrow> a = b"
  by (cases a; cases b) (simp add: keyTuple_def)

subsection \<open>The ledger of active entries\<close>

record EntryStamp =
  es_frameSerial :: u64
  es_activationOrdinal :: u64

definition stamp_init :: EntryStamp where
  "stamp_init = \<lparr>es_frameSerial = 0, es_activationOrdinal = 0\<rparr>"

record ActiveRecord =
  ar_key :: DrawTimeKey
  ar_frameSerial :: u64
  ar_activationOrdinal :: u64

record ActiveLedger =
  al_records :: "ActiveRecord list"
  al_frameSerial :: u64
  al_nextActivationOrdinal :: u64
  al_usable :: bool

definition ledger_start :: "u64 \<Rightarrow> ActiveLedger" where
  "ledger_start nextActivationOrdinal =
    \<lparr>al_records = [], al_frameSerial = 0,
     al_nextActivationOrdinal = (if nextActivationOrdinal \<noteq> 0 then nextActivationOrdinal else UINT64_MAX),
     al_usable = True\<rparr>"

definition ledgerBeginFrame :: "u64 \<Rightarrow> ActiveLedger \<Rightarrow> ActiveLedger" where
  "ledgerBeginFrame frameSerial l =
    (if \<not> al_usable l \<or> frameSerial = 0 \<or> al_frameSerial l = frameSerial then l
     else l\<lparr>al_records := [], al_frameSerial := frameSerial\<rparr>)"

definition usableForFrame :: "u64 \<Rightarrow> ActiveLedger \<Rightarrow> bool" where
  "usableForFrame frameSerial l \<longleftrightarrow> al_usable l \<and> frameSerial \<noteq> 0 \<and> al_frameSerial l = frameSerial"

definition activate :: "u64 \<Rightarrow> DrawTimeKey \<Rightarrow> EntryStamp \<Rightarrow> ActiveLedger \<Rightarrow> bool \<times> EntryStamp \<times> ActiveLedger" where
  "activate frameSerial key stamp l =
    (let l = ledgerBeginFrame frameSerial l in
     if \<not> usableForFrame frameSerial l then (False, stamp, l)
     else if es_frameSerial stamp = frameSerial \<and> es_activationOrdinal stamp \<noteq> 0 then (True, stamp, l)
     else if al_nextActivationOrdinal l = UINT64_MAX
     then (False, stamp, l\<lparr>al_records := [], al_usable := False\<rparr>)
     else
       let ordinal = al_nextActivationOrdinal l in
       (True, stamp\<lparr>es_frameSerial := frameSerial, es_activationOrdinal := ordinal\<rparr>,
        l\<lparr>al_nextActivationOrdinal := ordinal + 1,
          al_records := al_records l @ [\<lparr>ar_key = key, ar_frameSerial = frameSerial,
            ar_activationOrdinal = ordinal\<rparr>]\<rparr>))"


definition ledgerReset :: "ActiveLedger \<Rightarrow> ActiveLedger" where
  "ledgerReset l = l\<lparr>al_records := [], al_frameSerial := 0\<rparr>"

subsection \<open>Entries\<close>

record BufferInfo =
  bi_buffer :: u64
  bi_offset :: u64
  bi_size :: u64

definition bufferInfo_init :: BufferInfo where
  "bufferInfo_init = \<lparr>bi_buffer = 0, bi_offset = 0, bi_size = 0\<rparr>"

text \<open>What a capture leaves in an entry: the references, ranges and capacities. Null is zero.\<close>

record Backing =
  bk_vertexCount :: u32
  bk_positionBuffer :: u32
  bk_positionPinnedAllocation :: u32
  bk_positionSnapshotPage :: u32
  bk_positionSnapshotLease :: u32
  bk_positionSnapshotOffset :: u64
  bk_positionInfo :: BufferInfo
  bk_positionCapacity :: u64
  bk_indexed :: bool
  bk_indexBuffer :: u32
  bk_indexInfo :: BufferInfo
  bk_indexCount :: u32
  bk_indexCapacity :: u64
  bk_uvBuffer :: u32
  bk_uvPinnedAllocation :: u32
  bk_uvSnapshotPage :: u32
  bk_uvSnapshotLease :: u32
  bk_uvSnapshotOffset :: u64
  bk_uvInfo :: BufferInfo
  bk_uvStride :: u32
  bk_uvOffset :: u32
  bk_uvFormat :: u32
  bk_uvCapacity :: u64
  bk_uvSharesPositionBuffer :: bool
  bk_uvSourceProof :: War3ShadowGenerationBackedStreamProof
  bk_captureComplete :: bool

definition backing_init :: Backing where
  "backing_init =
    \<lparr>bk_vertexCount = 0, bk_positionBuffer = 0, bk_positionPinnedAllocation = 0,
     bk_positionSnapshotPage = 0, bk_positionSnapshotLease = 0, bk_positionSnapshotOffset = 0,
     bk_positionInfo = bufferInfo_init, bk_positionCapacity = 0, bk_indexed = False, bk_indexBuffer = 0,
     bk_indexInfo = bufferInfo_init, bk_indexCount = 0, bk_indexCapacity = 0, bk_uvBuffer = 0,
     bk_uvPinnedAllocation = 0, bk_uvSnapshotPage = 0, bk_uvSnapshotLease = 0, bk_uvSnapshotOffset = 0,
     bk_uvInfo = bufferInfo_init, bk_uvStride = 0, bk_uvOffset = 0, bk_uvFormat = 0, bk_uvCapacity = 0,
     bk_uvSharesPositionBuffer = False, bk_uvSourceProof = stream_init, bk_captureComplete = False\<rparr>"

record DrawTimeEntry =
  de_backing :: Backing
  de_activeLedgerStamp :: EntryStamp
  de_frameSerial :: u64
  de_lastAttemptFrameSerial :: u64
  de_isStaticGeometry :: bool
  de_lastAccessFrameSerial :: u64
  de_ownedGpuBytes :: u64

definition drawEntry_init :: DrawTimeEntry where
  "drawEntry_init = \<lparr>de_backing = backing_init, de_activeLedgerStamp = stamp_init, de_frameSerial = 0,
     de_lastAttemptFrameSerial = 0, de_isStaticGeometry = False, de_lastAccessFrameSerial = 0,
     de_ownedGpuBytes = 0\<rparr>"

definition HasCompleteBacking :: "Backing \<Rightarrow> bool" where
  "HasCompleteBacking b \<longleftrightarrow>
     bk_captureComplete b \<and> bk_vertexCount b \<noteq> 0 \<and> bk_positionBuffer b \<noteq> 0 \<and>
     bi_buffer (bk_positionInfo b) \<noteq> 0 \<and> bi_size (bk_positionInfo b) \<noteq> 0 \<and>
     (\<not> bk_indexed b \<or>
      bk_indexBuffer b \<noteq> 0 \<and> bi_buffer (bk_indexInfo b) \<noteq> 0 \<and> bi_size (bk_indexInfo b) \<noteq> 0 \<and>
      bk_indexCount b \<noteq> 0)"

definition OwnedSnapshotBytes :: "Backing \<Rightarrow> u64" where
  "OwnedSnapshotBytes b = bk_positionCapacity b + bk_indexCapacity b +
     (if bk_uvSharesPositionBuffer b then 0 else bk_uvCapacity b)"

datatype UvSpanStatus = UvNone | UvIndependent | UvPositionAlias | UvInvalid

text \<open>The span is the pair of its offset and capacity.\<close>

definition ResolveUvCensusSpan :: "Backing \<Rightarrow> UvSpanStatus \<times> u64 \<times> u64" where
  "ResolveUvCensusSpan b =
    (if bk_uvSharesPositionBuffer b then
       if bk_uvSnapshotPage b \<noteq> bk_positionSnapshotPage b \<or>
          bk_uvSnapshotOffset b \<noteq> bk_positionSnapshotOffset b
       then (UvInvalid, 0, 0)
       else if bk_positionSnapshotPage b = 0
       then (if bk_positionCapacity b \<noteq> 0 \<or> bk_positionSnapshotOffset b \<noteq> 0
             then (UvInvalid, 0, 0) else (UvNone, 0, 0))
       else if bk_positionCapacity b = 0 then (UvInvalid, 0, 0)
       else (UvPositionAlias, bk_positionSnapshotOffset b, bk_positionCapacity b)
     else if bk_uvSnapshotPage b = 0
     then (if bk_uvCapacity b \<noteq> 0 \<or> bk_uvSnapshotOffset b \<noteq> 0 then (UvInvalid, 0, 0) else (UvNone, 0, 0))
     else if bk_uvCapacity b = 0 then (UvInvalid, 0, 0)
     else (UvIndependent, bk_uvSnapshotOffset b, bk_uvCapacity b))"

definition dropUv :: "Backing \<Rightarrow> Backing" where
  "dropUv b = b\<lparr>bk_uvBuffer := 0, bk_uvPinnedAllocation := 0, bk_uvSnapshotPage := 0,
     bk_uvSnapshotLease := 0, bk_uvSnapshotOffset := 0, bk_uvInfo := bufferInfo_init, bk_uvStride := 0,
     bk_uvOffset := 0, bk_uvFormat := 0, bk_uvCapacity := 0, bk_uvSharesPositionBuffer := False\<rparr>"

definition releasePosition :: "Backing \<Rightarrow> Backing" where
  "releasePosition b =
    (let b = (if bk_uvSharesPositionBuffer b then dropUv b else b) in
     b\<lparr>bk_positionBuffer := 0, bk_positionPinnedAllocation := 0, bk_positionSnapshotPage := 0,
       bk_positionSnapshotLease := 0, bk_positionSnapshotOffset := 0,
       bk_positionInfo := bufferInfo_init, bk_positionCapacity := 0\<rparr>)"

definition ReleasePositionBacking :: "DrawTimeEntry \<Rightarrow> DrawTimeEntry" where
  "ReleasePositionBacking e =
    (let b = releasePosition (de_backing e) in e\<lparr>de_backing := b, de_ownedGpuBytes := OwnedSnapshotBytes b\<rparr>)"

definition ReleaseUvBacking :: "DrawTimeEntry \<Rightarrow> DrawTimeEntry" where
  "ReleaseUvBacking e =
    (let b = (dropUv (de_backing e))\<lparr>bk_uvSourceProof := stream_init\<rparr> in
     e\<lparr>de_backing := b, de_ownedGpuBytes := OwnedSnapshotBytes b\<rparr>)"

subsection \<open>The capture attempt\<close>

definition attemptBegin :: "u64 \<Rightarrow> DrawTimeEntry \<Rightarrow> DrawTimeEntry" where
  "attemptBegin frame e = e\<lparr>de_backing := (de_backing e)\<lparr>bk_captureComplete := False\<rparr>,
     de_lastAttemptFrameSerial := frame\<rparr>"

definition attemptCommit :: "u64 \<Rightarrow> DrawTimeEntry \<Rightarrow> bool \<times> DrawTimeEntry" where
  "attemptCommit frame e =
    (if \<not> HasCompleteBacking (de_backing e) then (False, e)
     else (True, e\<lparr>de_frameSerial := frame, de_lastAccessFrameSerial := frame,
             de_ownedGpuBytes := OwnedSnapshotBytes (de_backing e)\<rparr>))"

text \<open>The destructor.\<close>

definition attemptEnd :: "bool \<Rightarrow> DrawTimeEntry \<Rightarrow> DrawTimeEntry" where
  "attemptEnd committed e =
    (let b = (if committed then de_backing e else (de_backing e)\<lparr>bk_captureComplete := False\<rparr>) in
     e\<lparr>de_backing := b, de_ownedGpuBytes := OwnedSnapshotBytes b\<rparr>)"

subsection \<open>The device\<close>

record DrawTimeDevice =
  dt_cache :: "(DrawTimeKey \<times> DrawTimeEntry) list"
  dt_ledger :: ActiveLedger
  dt_frameSerial :: u64
  dt_lastCleanFrame :: u64
  dt_overCapFrameCount :: u64

definition device_start :: DrawTimeDevice where
  "device_start = \<lparr>dt_cache = [], dt_ledger = ledger_start 1, dt_frameSerial = 0, dt_lastCleanFrame = 0,
     dt_overCapFrameCount = 0\<rparr>"

text \<open>\<open>operator[]\<close>: the entry of a key, created when it is missing.\<close>

definition cacheGet :: "DrawTimeKey \<Rightarrow> DrawTimeDevice \<Rightarrow> DrawTimeEntry" where
  "cacheGet k d = (case map_of (dt_cache d) k of Some e \<Rightarrow> e | None \<Rightarrow> drawEntry_init)"

definition cachePut :: "DrawTimeKey \<Rightarrow> DrawTimeEntry \<Rightarrow> DrawTimeDevice \<Rightarrow> DrawTimeDevice" where
  "cachePut k e d = d\<lparr>dt_cache := AList.update k e (dt_cache d)\<rparr>"

definition cacheErase :: "(DrawTimeKey \<times> DrawTimeEntry \<Rightarrow> bool) \<Rightarrow> DrawTimeDevice \<Rightarrow> DrawTimeDevice" where
  "cacheErase gone d = d\<lparr>dt_cache := filter (\<lambda>x. \<not> gone x) (dt_cache d)\<rparr>"

definition ActivateDrawTimeCacheEntry :: "DrawTimeKey \<Rightarrow> DrawTimeEntry \<Rightarrow> ActiveLedger \<Rightarrow> u64 \<Rightarrow>
    DrawTimeEntry \<times> ActiveLedger" where
  "ActivateDrawTimeCacheEntry k e l serial =
    (case activate serial k (de_activeLedgerStamp e) l of
       (granted, stamp, l) \<Rightarrow> (e\<lparr>de_activeLedgerStamp := stamp\<rparr>, l))"

text \<open>
  A capture. \<open>filled\<close> is the backing and the classification the copying has left in the entry, and
  whether it has come to the commit.
\<close>

definition captureDraw :: "DrawTimeKey \<Rightarrow> Backing \<Rightarrow> bool \<Rightarrow> bool \<Rightarrow> bool \<Rightarrow> DrawTimeDevice \<Rightarrow> DrawTimeDevice" where
  "captureDraw k filled isStatic reachesCommit uvUsable d =
    (let now = dt_frameSerial d;
         e = attemptBegin now (cacheGet k d);
         e = e\<lparr>de_backing := filled, de_isStaticGeometry := isStatic\<rparr>;
         (committed, e) = (if reachesCommit then attemptCommit now e else (False, e));
         e = (if committed \<and> \<not> uvUsable then ReleaseUvBacking e else e);
         (e, l) = (if committed then ActivateDrawTimeCacheEntry k e (dt_ledger d) now else (e, dt_ledger d))
     in (cachePut k (attemptEnd committed e) d)\<lparr>dt_ledger := l\<rparr>)"

text \<open>The reuse of an unchanged snapshot of a key that is in the cache.\<close>

definition refreshCached :: "DrawTimeKey \<Rightarrow> DrawTimeDevice \<Rightarrow> DrawTimeDevice" where
  "refreshCached k d =
    (let now = dt_frameSerial d;
         (e, l) = ActivateDrawTimeCacheEntry k ((cacheGet k d)\<lparr>de_frameSerial := now\<rparr>) (dt_ledger d) now
     in (cachePut k (e\<lparr>de_lastAccessFrameSerial := now\<rparr>) d)\<lparr>dt_ledger := l\<rparr>)"

definition nextFrame :: "DrawTimeDevice \<Rightarrow> DrawTimeDevice" where
  "nextFrame d =
    (let serial = dt_frameSerial d + 1
     in d\<lparr>dt_frameSerial := serial, dt_ledger := ledgerBeginFrame serial (dt_ledger d)\<rparr>)"

definition sessionReset :: "DrawTimeDevice \<Rightarrow> DrawTimeDevice" where
  "sessionReset d = d\<lparr>dt_cache := [], dt_ledger := ledgerReset (dt_ledger d)\<rparr>"




subsection \<open>The collection\<close>

definition kGcIntervalFrames :: u64 where "kGcIntervalFrames = 60"
definition kRecentProtectFrames :: u64 where "kRecentProtectFrames = 2 * kGcIntervalFrames"
definition kDynamicMaxAgeFrames :: u64 where "kDynamicMaxAgeFrames = 16"
definition kStaticMaxIdleFrames :: u64 where "kStaticMaxIdleFrames = 108000"
definition kStaticPersistMaxBytes :: u64 where "kStaticPersistMaxBytes = 64 * 1024 * 1024"

definition IsStaticWorkingSetProtected :: "u64 \<Rightarrow> u64 \<Rightarrow> bool" where
  "IsStaticWorkingSetProtected lastAccessFrame currentFrame \<longleftrightarrow>
     lastAccessFrame \<noteq> 0 \<and> lastAccessFrame \<le> currentFrame \<and>
     currentFrame - lastAccessFrame \<le> kRecentProtectFrames"

definition StaticOverCapBytes :: "u64 \<Rightarrow> u64 \<Rightarrow> u64" where
  "StaticOverCapBytes protectedBytes inactiveTargetBytes =
    (if protectedBytes > inactiveTargetBytes then protectedBytes - inactiveTargetBytes else 0)"

record GcCounters =
  gc_live :: u64
  gc_protected :: u64
  gc_inactive :: u64
  gc_evictedEntries :: u64
  gc_evictedBytes :: u64

definition gcCounters_init :: GcCounters where
  "gcCounters_init = \<lparr>gc_live = 0, gc_protected = 0, gc_inactive = 0, gc_evictedEntries = 0, gc_evictedBytes = 0\<rparr>"

text \<open>The pass by age.\<close>

fun gcPass :: "u64 \<Rightarrow> (DrawTimeKey \<times> DrawTimeEntry) list \<Rightarrow> GcCounters \<Rightarrow>
    (DrawTimeKey \<times> DrawTimeEntry) list \<times> GcCounters" where
  "gcPass now [] c = ([], c)"
| "gcPass now ((k, e) # xs) c =
    (if de_isStaticGeometry e then
       let idleAge = (if now \<ge> de_lastAccessFrameSerial e then now - de_lastAccessFrameSerial e else 0) in
       if idleAge > kStaticMaxIdleFrames
       then gcPass now xs (c\<lparr>gc_evictedEntries := gc_evictedEntries c + 1,
              gc_evictedBytes := gc_evictedBytes c + de_ownedGpuBytes e\<rparr>)
       else
         let c = c\<lparr>gc_live := gc_live c + de_ownedGpuBytes e\<rparr>;
             c = (if IsStaticWorkingSetProtected (de_lastAccessFrameSerial e) now
                  then c\<lparr>gc_protected := gc_protected c + de_ownedGpuBytes e\<rparr>
                  else c\<lparr>gc_inactive := gc_inactive c + de_ownedGpuBytes e\<rparr>);
             (ys, c) = gcPass now xs c
         in ((k, e) # ys, c)
     else if de_frameSerial e + kDynamicMaxAgeFrames < now then gcPass now xs c
     else
       let (ys, c) = gcPass now xs c in ((k, e) # ys, c))"

text \<open>The scan for the least recently used entry that is not protected.\<close>

fun scanVictim :: "u64 \<Rightarrow> (DrawTimeKey \<times> DrawTimeEntry) list \<Rightarrow> u64 \<Rightarrow> (DrawTimeKey \<times> DrawTimeEntry) option \<Rightarrow>
    (DrawTimeKey \<times> DrawTimeEntry) option" where
  "scanVictim now [] oldestAccess victim = victim"
| "scanVictim now ((k, e) # xs) oldestAccess victim =
    (if \<not> de_isStaticGeometry e \<or> IsStaticWorkingSetProtected (de_lastAccessFrameSerial e) now
     then scanVictim now xs oldestAccess victim
     else if de_lastAccessFrameSerial e < oldestAccess \<or>
       de_lastAccessFrameSerial e = oldestAccess \<and>
       (case victim of None \<Rightarrow> True | Some v \<Rightarrow> stableKeyLess k (fst v))
     then scanVictim now xs (de_lastAccessFrameSerial e) (Some (k, e))
     else scanVictim now xs oldestAccess victim)"

lemma scanVictim_from: "scanVictim now xs t v = Some w \<Longrightarrow> w \<in> set xs \<or> v = Some w"
  by (induction now xs t v rule: scanVictim.induct) (auto split: if_splits)

function evictLoop :: "u64 \<Rightarrow> (DrawTimeKey \<times> DrawTimeEntry) list \<Rightarrow> GcCounters \<Rightarrow>
    (DrawTimeKey \<times> DrawTimeEntry) list \<times> GcCounters" where
  "evictLoop now xs c =
    (if gc_inactive c > kStaticPersistMaxBytes then
       case scanVictim now xs UINT64_MAX None of
         None \<Rightarrow> (xs, c)
       | Some v \<Rightarrow>
           evictLoop now (filter (\<lambda>x. fst x \<noteq> fst v) xs)
             (c\<lparr>gc_live := gc_live c - de_ownedGpuBytes (snd v),
                gc_inactive := gc_inactive c - de_ownedGpuBytes (snd v),
                gc_evictedEntries := gc_evictedEntries c + 1,
                gc_evictedBytes := gc_evictedBytes c + de_ownedGpuBytes (snd v)\<rparr>)
     else (xs, c))"
  by pat_completeness auto
termination
  by (relation "measure (\<lambda>(now, xs, c). length xs)")
    (auto intro!: length_filter_less dest!: scanVictim_from)

declare evictLoop.simps [simp del]

definition collectEntries :: "u64 \<Rightarrow> (DrawTimeKey \<times> DrawTimeEntry) list \<Rightarrow>
    (DrawTimeKey \<times> DrawTimeEntry) list \<times> GcCounters" where
  "collectEntries now xs = (case gcPass now xs gcCounters_init of (ys, c) \<Rightarrow> evictLoop now ys c)"

definition collectGarbage :: "DrawTimeDevice \<Rightarrow> DrawTimeDevice" where
  "collectGarbage d =
    (let now = dt_frameSerial d in
     if now \<ge> dt_lastCleanFrame d + kGcIntervalFrames then
       case collectEntries now (dt_cache d) of
         (ys, c) \<Rightarrow>
           d\<lparr>dt_cache := ys, dt_lastCleanFrame := now,
             dt_overCapFrameCount := dt_overCapFrameCount d +
               (if StaticOverCapBytes (gc_live c) kStaticPersistMaxBytes \<noteq> 0 then 1 else 0)\<rparr>
     else d)"

subsection \<open>What the collection keeps\<close>

definition agedOut :: "u64 \<Rightarrow> DrawTimeEntry \<Rightarrow> bool" where
  "agedOut now e \<longleftrightarrow>
    (if de_isStaticGeometry e
     then now \<ge> de_lastAccessFrameSerial e \<and> now - de_lastAccessFrameSerial e > kStaticMaxIdleFrames
     else de_frameSerial e + kDynamicMaxAgeFrames < now)"

definition inactive :: "u64 \<Rightarrow> DrawTimeEntry \<Rightarrow> bool" where
  "inactive now e \<longleftrightarrow> de_isStaticGeometry e \<and> \<not> IsStaticWorkingSetProtected (de_lastAccessFrameSerial e) now"

definition age :: "DrawTimeKey \<times> DrawTimeEntry \<Rightarrow> u64 \<times> u64 \<times> u32 \<times> u32 \<times> u32 \<times> u32 \<times> u32 \<times> u32 \<times> u32" where
  "age x = (de_lastAccessFrameSerial (snd x), keyTuple (fst x))"

text \<open>The bytes of the inactive entries that are used as recently as a given one, or more recently.\<close>

definition recentBytes :: "u64 \<Rightarrow> (DrawTimeKey \<times> DrawTimeEntry) list \<Rightarrow> DrawTimeKey \<times> DrawTimeEntry \<Rightarrow> nat" where
  "recentBytes now xs x = (\<Sum>y\<leftarrow>filter (\<lambda>y. inactive now (snd y) \<and> age x \<le> age y) xs. unat (de_ownedGpuBytes (snd y)))"

definition inactiveBytes :: "u64 \<Rightarrow> (DrawTimeKey \<times> DrawTimeEntry) list \<Rightarrow> nat" where
  "inactiveBytes now xs = (\<Sum>y\<leftarrow>filter (\<lambda>y. inactive now (snd y)) xs. unat (de_ownedGpuBytes (snd y)))"

lemma gcPass_kept: "fst (gcPass now xs c) = filter (\<lambda>x. \<not> agedOut now (snd x)) xs"
proof (induction xs arbitrary: c)
  case (Cons x xs)
  obtain k e where x: "x = (k, e)" by fastforce
  show ?case using Cons.IH unfolding x by (simp add: Let_def agedOut_def case_prod_unfold)
qed simp

lemma gcPass_inactive: "gc_inactive (snd (gcPass now xs c)) =
    gc_inactive c + (\<Sum>x\<leftarrow>filter (\<lambda>x. inactive now (snd x)) (fst (gcPass now xs c)). de_ownedGpuBytes (snd x))"
  by (induction now xs c rule: gcPass.induct) (auto simp: Let_def inactive_def split: prod.split)

lemma sum_words_unat:
  "(\<Sum>x\<leftarrow>xs. unat (f x :: u64)) < 2 ^ 64 \<Longrightarrow> unat (\<Sum>x\<leftarrow>xs. f x) = (\<Sum>x\<leftarrow>xs. unat (f x))"
  by (induction xs) (auto simp: unat_add_no_wrap unat_plus_if')


lemma age_less: "age (k, e) < age v \<longleftrightarrow>
    de_lastAccessFrameSerial e < de_lastAccessFrameSerial (snd v) \<or>
    de_lastAccessFrameSerial e = de_lastAccessFrameSerial (snd v) \<and> stableKeyLess k (fst v)"
  by (auto simp: age_def stableKeyLess_tuple less_prod_def)

lemma age_eq: "age x = age y \<Longrightarrow> fst x = fst y"
  using keyTuple_inj by (auto simp: age_def)

lemma max_word_less: "\<not> x < UINT64_MAX \<Longrightarrow> x = (UINT64_MAX :: u64)"
  using word_n1_ge [of x] by auto

lemma scanVictim_least:
  assumes "case victim of None \<Rightarrow> oldest = UINT64_MAX | Some v \<Rightarrow> oldest = de_lastAccessFrameSerial (snd v)"
  shows "case scanVictim now xs oldest victim of
      None \<Rightarrow> victim = None \<and> (\<forall>x\<in>set xs. \<not> inactive now (snd x))
    | Some w \<Rightarrow> (victim = Some w \<or> w \<in> set xs \<and> inactive now (snd w)) \<and>
        (\<forall>v. victim = Some v \<longrightarrow> age w \<le> age v) \<and>
        (\<forall>x\<in>set xs. inactive now (snd x) \<longrightarrow> age w \<le> age x)"
  using assms
proof (induction xs arbitrary: oldest victim)
  case Nil
  then show ?case by (simp split: option.split)
next
  case (Cons x xs)
  obtain k e where x: "x = (k, e)" by fastforce
  show ?case
  proof (cases "inactive now e")
    case False
    then have eq: "scanVictim now (x # xs) oldest victim = scanVictim now xs oldest victim"
      by (simp add: x inactive_def)
    have "set (x # xs) = insert (k, e) (set xs)" by (simp add: x)
    then show ?thesis using Cons.IH [OF Cons.prems] False unfolding eq by (auto split: option.splits)
  next
    case ina: True
    define taken where "taken \<longleftrightarrow> (de_lastAccessFrameSerial e < oldest \<or>
       de_lastAccessFrameSerial e = oldest \<and> (case victim of None \<Rightarrow> True | Some v \<Rightarrow> stableKeyLess k (fst v)))"
    have t: "taken \<longleftrightarrow> (case victim of None \<Rightarrow> True | Some v \<Rightarrow> age (k, e) < age v)"
      using Cons.prems max_word_less [of "de_lastAccessFrameSerial e"]
      by (cases victim) (auto simp: taken_def age_less)
    show ?thesis
    proof (cases taken)
      case True
      then have eq: "scanVictim now (x # xs) oldest victim =
          scanVictim now xs (de_lastAccessFrameSerial e) (Some (k, e))"
        using ina by (simp add: x inactive_def taken_def)
      have "\<forall>v. victim = Some v \<longrightarrow> age (k, e) \<le> age v" using True t by auto
      then show ?thesis
        using Cons.IH [where victim = "Some (k, e)" and oldest = "de_lastAccessFrameSerial e"] ina unfolding eq
        by (auto simp: x split: option.splits dest: order.trans)
    next
      case False
      then have eq: "scanVictim now (x # xs) oldest victim = scanVictim now xs oldest victim"
        using ina by (auto simp: x inactive_def taken_def)
      obtain v where v: "victim = Some v" "age v \<le> age (k, e)" using False t by (cases victim) auto
      then show ?thesis
        using Cons.IH [OF Cons.prems] unfolding eq by (auto simp: x split: option.splits dest: order.trans)
    qed
  qed
qed

lemma scanVictim_none: "scanVictim now xs UINT64_MAX None = None \<Longrightarrow> x \<in> set xs \<Longrightarrow> \<not> inactive now (snd x)"
  using scanVictim_least [where victim = None and oldest = UINT64_MAX and now = now and xs = xs] by simp

lemma scanVictim_some:
  "scanVictim now xs UINT64_MAX None = Some w \<Longrightarrow> w \<in> set xs \<and> inactive now (snd w) \<and>
    (\<forall>x\<in>set xs. inactive now (snd x) \<longrightarrow> age w \<le> age x)"
  using scanVictim_least [where victim = None and oldest = UINT64_MAX and now = now and xs = xs] by simp

text \<open>Sums over the entries that are left when one key is removed.\<close>

lemma distinct_key_filter:
  "distinct (map fst xs) \<Longrightarrow> v \<in> set xs \<Longrightarrow>
    (\<Sum>y\<leftarrow>filter P xs. f y :: 'a :: comm_monoid_add) =
    (if P v then f v else 0) + (\<Sum>y\<leftarrow>filter P (filter (\<lambda>x. fst x \<noteq> fst v) xs). f y)"
proof (induction xs)
  case (Cons x xs)
  show ?case
  proof (cases "x = v")
    case True
    then have "\<forall>y\<in>set xs. fst y \<noteq> fst v" using Cons.prems by (auto simp: image_iff)
    then have "filter (\<lambda>x. fst x \<noteq> fst v) xs = xs" by (simp add: filter_id_conv)
    then show ?thesis using True by simp
  next
    case False
    then have "v \<in> set xs" "fst x \<noteq> fst v" using Cons.prems by force+
    then show ?thesis using Cons by (simp add: add.left_commute)
  qed
qed simp

lemma evictLoop_kept:
  assumes "distinct (map fst xs)" and "inactiveBytes now xs < 2 ^ 64"
    and "gc_inactive c = (\<Sum>x\<leftarrow>filter (\<lambda>x. inactive now (snd x)) xs. de_ownedGpuBytes (snd x))"
  shows "fst (evictLoop now xs c) =
    filter (\<lambda>x. inactive now (snd x) \<longrightarrow> recentBytes now xs x \<le> unat kStaticPersistMaxBytes) xs"
  using assms
proof (induction now xs c rule: evictLoop.induct)
  case (1 now xs c)
  let ?cap = "kStaticPersistMaxBytes"
  have all: "unat (gc_inactive c) = inactiveBytes now xs"
    unfolding 1(4) inactiveBytes_def by (rule sum_words_unat) (use 1(3) in \<open>simp add: inactiveBytes_def\<close>)
  have part: "recentBytes now xs x \<le> inactiveBytes now xs" for x
    unfolding recentBytes_def inactiveBytes_def by (induction xs) auto
  show ?case
  proof (cases "gc_inactive c > ?cap")
    case False
    then have "inactiveBytes now xs \<le> unat ?cap" using all by (simp add: not_less word_le_nat_alt)
    then have "recentBytes now xs x \<le> unat ?cap" for x using part [of x] by simp
    then show ?thesis using False by (simp add: evictLoop.simps filter_id_conv)
  next
    case over: True
    then have big: "inactiveBytes now xs > unat ?cap" using all by (simp add: word_less_nat_alt)
    show ?thesis
    proof (cases "scanVictim now xs UINT64_MAX None")
      case None
      then show ?thesis using over scanVictim_none [OF None]
        by (simp add: evictLoop.simps [of now xs c] filter_id_conv)
    next
      case (Some v)
      note v = scanVictim_some [OF Some]
      let ?ys = "filter (\<lambda>x. fst x \<noteq> fst v) xs"
      let ?c = "c\<lparr>gc_live := gc_live c - de_ownedGpuBytes (snd v),
          gc_inactive := gc_inactive c - de_ownedGpuBytes (snd v),
          gc_evictedEntries := gc_evictedEntries c + 1,
          gc_evictedBytes := gc_evictedBytes c + de_ownedGpuBytes (snd v)\<rparr>"
      have eq: "evictLoop now xs c = evictLoop now ?ys ?c"
        using over Some by (simp add: evictLoop.simps [of now xs c])
      have d: "distinct (map fst ?ys)" using 1(2) by (simp add: distinct_map_filter)
      have small: "inactiveBytes now ?ys < 2 ^ 64"
        using distinct_key_filter [OF 1(2), where v = v and P = "\<lambda>x. inactive now (snd x)"
            and f = "\<lambda>y. unat (de_ownedGpuBytes (snd y))"]
          v 1(3) by (simp add: inactiveBytes_def)
      have cnt: "gc_inactive ?c = (\<Sum>x\<leftarrow>filter (\<lambda>x. inactive now (snd x)) ?ys. de_ownedGpuBytes (snd x))"
        using distinct_key_filter [OF 1(2), where v = v and P = "\<lambda>x. inactive now (snd x)"
            and f = "\<lambda>y. de_ownedGpuBytes (snd y)"] v 1(4)
        by simp
      have same: "recentBytes now ?ys x = recentBytes now xs x"
        if "x \<in> set xs" "fst x \<noteq> fst v" "inactive now (snd x)" for x
      proof -
        have "age v < age x" using v that age_eq [of v x] by (metis order.not_eq_order_implies_strict)
        then have "\<not> age x \<le> age v" by (simp add: not_le)
        then show ?thesis
          using distinct_key_filter [OF 1(2), where v = v and P = "\<lambda>y. inactive now (snd y) \<and> age x \<le> age y"
            and f = "\<lambda>y. unat (de_ownedGpuBytes (snd y))"] v
          by (simp add: recentBytes_def)
      qed
      have gone: "recentBytes now xs v = inactiveBytes now xs"
        unfolding recentBytes_def inactiveBytes_def
        by (rule arg_cong [where f = "\<lambda>zs. \<Sum>y\<leftarrow>zs. unat (de_ownedGpuBytes (snd y))"], rule filter_cong)
          (use v in auto)
      have key: "fst x = fst v \<longleftrightarrow> x = v" if "x \<in> set xs" for x
        using that v 1(2) by (auto simp: distinct_map dest: inj_onD)
      have "filter (\<lambda>x. inactive now (snd x) \<longrightarrow> recentBytes now ?ys x \<le> unat ?cap) ?ys =
          filter (\<lambda>x. inactive now (snd x) \<longrightarrow> recentBytes now xs x \<le> unat ?cap) xs"
        unfolding filter_filter
      proof (rule filter_cong)
        fix x assume x: "x \<in> set xs"
        show "(fst x \<noteq> fst v \<and> (inactive now (snd x) \<longrightarrow> recentBytes now ?ys x \<le> unat ?cap)) =
            (inactive now (snd x) \<longrightarrow> recentBytes now xs x \<le> unat ?cap)"
        proof (cases "fst x = fst v")
          case True
          then have "x = v" using key [OF x] by simp
          then show ?thesis using gone big v by simp
        qed (use same [OF x] in auto)
      qed simp
      then show ?thesis using "1.IH"[OF over Some d small cnt] by (simp add: eq)
    qed
  qed
qed


lemma collectEntries_kept:
  assumes "distinct (map fst xs)" and "inactiveBytes now xs < 2 ^ 64"
    and "ys = filter (\<lambda>x. \<not> agedOut now (snd x)) xs"
  shows "fst (collectEntries now xs) =
    filter (\<lambda>x. inactive now (snd x) \<longrightarrow> recentBytes now ys x \<le> unat kStaticPersistMaxBytes) ys"
proof -
  have y: "fst (gcPass now xs gcCounters_init) = ys" using assms(3) gcPass_kept by simp
  have zero: "gc_inactive gcCounters_init = 0" by (simp add: gcCounters_init_def)
  have "distinct (map fst ys)" using assms(1,3) by (simp add: distinct_map_filter)
  moreover have "inactiveBytes now ys \<le> inactiveBytes now xs"
    unfolding assms(3) inactiveBytes_def by (induction xs) auto
  ultimately show ?thesis
    using evictLoop_kept [of ys now "snd (gcPass now xs gcCounters_init)"] assms(2)
      gcPass_inactive [of now xs gcCounters_init, unfolded y] zero
    by (simp add: collectEntries_def y case_prod_unfold)
qed

lemma collected_below_target:
  assumes "zs = filter (\<lambda>x. inactive now (snd x) \<longrightarrow> recentBytes now ys x \<le> n) ys"
  shows "inactiveBytes now zs \<le> n"
proof (cases "scanVictim now zs UINT64_MAX None")
  case None
  then have "filter (\<lambda>x. inactive now (snd x)) zs = []"
    using scanVictim_none [OF None] by (simp add: filter_empty_conv)
  then show ?thesis by (simp add: inactiveBytes_def)
next
  case (Some w)
  note w = scanVictim_some [OF Some]
  have "filter (\<lambda>y. inactive now (snd y)) zs =
      filter (\<lambda>y. inactive now (snd y) \<and> recentBytes now ys y \<le> n) ys"
    unfolding assms by (simp add: filter_filter) (rule filter_cong, auto)
  moreover have "(\<Sum>y\<leftarrow>filter (\<lambda>y. inactive now (snd y) \<and> recentBytes now ys y \<le> n) vs. unat (de_ownedGpuBytes (snd y)))
      \<le> (\<Sum>y\<leftarrow>filter (\<lambda>y. inactive now (snd y) \<and> age w \<le> age y) vs. unat (de_ownedGpuBytes (snd y)))"
    if "set vs \<subseteq> set ys" for vs
    using that by (induction vs) (use w assms in auto)
  from this [OF order_refl] have "(\<Sum>y\<leftarrow>filter (\<lambda>y. inactive now (snd y) \<and> recentBytes now ys y \<le> n) ys. unat (de_ownedGpuBytes (snd y)))
      \<le> recentBytes now ys w" by (simp add: recentBytes_def)
  ultimately have "inactiveBytes now zs \<le> recentBytes now ys w" by (simp add: inactiveBytes_def)
  moreover have "recentBytes now ys w \<le> n" using w assms by auto
  ultimately show ?thesis by simp
qed

subsection \<open>Runs\<close>

inductive draw_run :: "DrawTimeDevice \<Rightarrow> bool" where
  run_start: "draw_run device_start"
| run_rehash: "draw_run d \<Longrightarrow> mset xs = mset (dt_cache d) \<Longrightarrow> draw_run (d\<lparr>dt_cache := xs\<rparr>)"
| run_capture: "draw_run d \<Longrightarrow> draw_run (captureDraw k filled isStatic reachesCommit uvUsable d)"
| run_refresh: "draw_run d \<Longrightarrow> map_of (dt_cache d) k \<noteq> None \<Longrightarrow> draw_run (refreshCached k d)"
| run_erase: "draw_run d \<Longrightarrow> draw_run (cacheErase gone d)"
| run_collect: "draw_run d \<Longrightarrow> draw_run (collectGarbage d)"
| run_frame: "draw_run d \<Longrightarrow> dt_frameSerial d \<noteq> UINT64_MAX \<Longrightarrow> draw_run (nextFrame d)"
| run_reset: "draw_run d \<Longrightarrow> draw_run (sessionReset d)"

text \<open>The ledger and one entry, in the frame \<open>now\<close>.\<close>

definition ledger_fits :: "u64 \<Rightarrow> ActiveLedger \<Rightarrow> bool" where
  "ledger_fits now l \<longleftrightarrow> al_frameSerial l \<le> now \<and> al_nextActivationOrdinal l \<noteq> 0 \<and>
     distinct (map ar_activationOrdinal (al_records l)) \<and>
     (\<forall>r\<in>set (al_records l). ar_frameSerial r = al_frameSerial l \<and> ar_activationOrdinal r \<noteq> 0 \<and>
        ar_activationOrdinal r < al_nextActivationOrdinal l)"

definition stampRecord :: "DrawTimeKey \<Rightarrow> DrawTimeEntry \<Rightarrow> ActiveRecord" where
  "stampRecord k e = \<lparr>ar_key = k, ar_frameSerial = es_frameSerial (de_activeLedgerStamp e),
     ar_activationOrdinal = es_activationOrdinal (de_activeLedgerStamp e)\<rparr>"

definition entry_fits :: "u64 \<Rightarrow> ActiveLedger \<Rightarrow> DrawTimeKey \<Rightarrow> DrawTimeEntry \<Rightarrow> bool" where
  "entry_fits now l k e \<longleftrightarrow>
    (let s = de_activeLedgerStamp e in
     de_frameSerial e \<le> now \<and> es_frameSerial s \<le> now \<and>
     de_lastAccessFrameSerial e = de_frameSerial e \<and>
     de_ownedGpuBytes e = OwnedSnapshotBytes (de_backing e) \<and>
     (al_usable l \<and> now \<noteq> 0 \<and> de_frameSerial e = now \<longrightarrow>
        es_frameSerial s = now \<and> es_activationOrdinal s \<noteq> 0) \<and>
     (al_usable l \<and> now \<noteq> 0 \<and> es_frameSerial s = now \<and> es_activationOrdinal s \<noteq> 0 \<longrightarrow>
        al_frameSerial l = now \<and> stampRecord k e \<in> set (al_records l)))"

definition device_ok :: "DrawTimeDevice \<Rightarrow> bool" where
  "device_ok d \<longleftrightarrow> distinct (map fst (dt_cache d)) \<and> ledger_fits (dt_frameSerial d) (dt_ledger d) \<and>
     (\<forall>(k, e)\<in>set (dt_cache d). entry_fits (dt_frameSerial d) (dt_ledger d) k e)"

lemma entry_fits_init: "entry_fits now l k drawEntry_init"
  by (simp add: entry_fits_def drawEntry_init_def stamp_init_def OwnedSnapshotBytes_def backing_init_def Let_def)

lemma ledgerBegin_fits:
  assumes "ledger_fits now l"
  shows "ledger_fits now (ledgerBeginFrame now l)"
    and "entry_fits now l k e \<Longrightarrow> entry_fits now (ledgerBeginFrame now l) k e"
    and "al_usable (ledgerBeginFrame now l) = al_usable l"
    and "al_usable l \<Longrightarrow> now \<noteq> 0 \<Longrightarrow> al_frameSerial (ledgerBeginFrame now l) = now"
  using assms by (auto simp: ledger_fits_def ledgerBeginFrame_def entry_fits_def Let_def)

lemma word_Suc:
  assumes "x \<noteq> (UINT64_MAX :: u64)"
  shows "unat (x + 1) = unat x + 1"
proof -
  have "unat x \<noteq> unat UINT64_MAX" using assms unat_eq_iff by blast
  then have "unat x < unat UINT64_MAX" using unat_u64_bound [of x] unat_UINT64_MAX by linarith
  then have "unat x + unat (1 :: u64) \<le> unat UINT64_MAX" by simp
  from unat_add_no_wrap [OF this] show ?thesis by simp
qed

lemma word_Suc_less: "x \<noteq> UINT64_MAX \<Longrightarrow> y < (x :: u64) \<Longrightarrow> y < x + 1"
  by (simp add: word_less_nat_alt word_Suc)

text \<open>An entry as it is published in the frame \<open>now\<close> with a stamp.\<close>

definition publishAs :: "u64 \<Rightarrow> EntryStamp \<Rightarrow> DrawTimeEntry \<Rightarrow> DrawTimeEntry" where
  "publishAs now stamp e = e\<lparr>de_activeLedgerStamp := stamp, de_frameSerial := now, de_lastAccessFrameSerial := now\<rparr>"

lemma entry_fits_grow: "entry_fits now l k e \<Longrightarrow>
    entry_fits now (l\<lparr>al_nextActivationOrdinal := n, al_records := al_records l @ rs\<rparr>) k e"
  by (simp add: entry_fits_def Let_def)

lemma publish_fits:
  assumes "entry_fits now l k e" and "es_frameSerial stamp \<le> now"
    and "al_usable l \<Longrightarrow> now \<noteq> 0 \<Longrightarrow> es_frameSerial stamp = now \<and> es_activationOrdinal stamp \<noteq> 0 \<and>
      al_frameSerial l = now \<and> \<lparr>ar_key = k, ar_frameSerial = es_frameSerial stamp,
        ar_activationOrdinal = es_activationOrdinal stamp\<rparr> \<in> set (al_records l)"
  shows "entry_fits now l k (publishAs now stamp e)"
proof (cases "al_usable l \<and> now \<noteq> 0")
  case True
  then show ?thesis using assms(1,2) assms(3) [THEN conjunct1] assms(3) [THEN conjunct2]
    by (simp add: entry_fits_def publishAs_def stampRecord_def Let_def)
next
  case False
  then show ?thesis using assms(1,2) by (auto simp: entry_fits_def publishAs_def Let_def)
qed

lemma activate_fits:
  assumes fits: "ledger_fits now l" and act: "activate now k (de_activeLedgerStamp e) l = (granted, stamp, l')"
    and e: "entry_fits now l k e"
  shows "ledger_fits now l' \<and> (entry_fits now l k' e' \<longrightarrow> entry_fits now l' k' e') \<and>
    entry_fits now l' k (publishAs now stamp e)"
proof -
  let ?l = "ledgerBeginFrame now l" and ?s = "de_activeLedgerStamp e"
  note b = ledgerBegin_fits [OF fits]
  have e1: "entry_fits now ?l k e" by (rule b(2) [OF e])
  show ?thesis
  proof (cases "usableForFrame now ?l")
    case False
    then have "stamp = ?s" "l' = ?l" using act by (simp_all add: activate_def Let_def)
    moreover have "\<not> (al_usable ?l \<and> now \<noteq> 0)" using False b(3,4) by (auto simp: usableForFrame_def)
    moreover have "es_frameSerial ?s \<le> now" using e by (simp add: entry_fits_def Let_def)
    ultimately show ?thesis using b(1) b(2) [of k' e'] publish_fits [OF e1] by blast
  next
    case usable: True
    show ?thesis
    proof (cases "es_frameSerial ?s = now \<and> es_activationOrdinal ?s \<noteq> 0")
      case True
      then have "stamp = ?s" "l' = ?l" using act usable by (simp_all add: activate_def Let_def)
      moreover have "entry_fits now ?l k (publishAs now ?s e)"
        by (rule publish_fits [OF e1]) (use True e1 in \<open>simp_all add: entry_fits_def stampRecord_def Let_def\<close>)
      ultimately show ?thesis using b(1) b(2) [of k' e'] by blast
    next
      case fresh: False
      show ?thesis
      proof (cases "al_nextActivationOrdinal ?l = UINT64_MAX")
        case True
        then have "stamp = ?s" "l' = ?l\<lparr>al_records := [], al_usable := False\<rparr>"
          using act usable fresh by (auto simp: activate_def Let_def)
        moreover have "ledger_fits now (?l\<lparr>al_records := [], al_usable := False\<rparr>)"
          using b(1) by (simp add: ledger_fits_def)
        moreover have off: "entry_fits now ?l k e \<Longrightarrow> entry_fits now (?l\<lparr>al_records := [], al_usable := False\<rparr>) k e" for k e
          by (simp add: entry_fits_def Let_def)
        moreover have "entry_fits now (?l\<lparr>al_records := [], al_usable := False\<rparr>) k (publishAs now ?s e)"
          by (rule publish_fits [OF off [OF e1]]) (use e1 in \<open>simp_all add: entry_fits_def Let_def\<close>)
        ultimately show ?thesis using b(2) [of k' e'] by blast
      next
        case False
        let ?n = "al_nextActivationOrdinal ?l"
        have st: "stamp = ?s\<lparr>es_frameSerial := now, es_activationOrdinal := ?n\<rparr>"
          and l': "l' = ?l\<lparr>al_nextActivationOrdinal := ?n + 1, al_records := al_records ?l @
            [\<lparr>ar_key = k, ar_frameSerial = now, ar_activationOrdinal = ?n\<rparr>]\<rparr>"
          using act usable fresh False by (auto simp: activate_def Let_def)
        have frame: "al_frameSerial ?l = now" using usable by (simp add: usableForFrame_def)
        have n: "?n \<noteq> 0" "?n < ?n + 1" "?n + 1 \<noteq> 0"
          using b(1) False by (auto simp: ledger_fits_def word_less_nat_alt word_Suc unat_eq_iff)
        have "ledger_fits now l'"
          using b(1) n frame word_Suc_less [OF False] unfolding l' by (auto simp: ledger_fits_def)
        moreover have "entry_fits now l k' e' \<longrightarrow> entry_fits now l' k' e'"
          using b(2) [of k' e'] entry_fits_grow unfolding l' by blast
        moreover have "entry_fits now l' k (publishAs now stamp e)"
        proof (rule publish_fits)
          show "entry_fits now l' k e" using entry_fits_grow [OF e1] unfolding l' .
        qed (use n frame in \<open>simp_all add: l' st\<close>)
        ultimately show ?thesis by simp
      qed
    qed
  qed
qed

lemma set_update: "set (AList.update k e xs) \<subseteq> insert (k, e) (set xs)"
  by (induction xs) auto

lemma device_ok_put:
  assumes "device_ok d" and "ledger_fits (dt_frameSerial d) l"
    and "\<And>k' e'. entry_fits (dt_frameSerial d) (dt_ledger d) k' e' \<Longrightarrow> entry_fits (dt_frameSerial d) l k' e'"
    and "entry_fits (dt_frameSerial d) l k e"
  shows "device_ok ((cachePut k e d)\<lparr>dt_ledger := l\<rparr>)"
proof -
  have "\<forall>(k', e')\<in>set (AList.update k e (dt_cache d)). entry_fits (dt_frameSerial d) l k' e'"
    using set_update [of k e "dt_cache d"] assms(1,3,4) by (fastforce simp: device_ok_def)
  then show ?thesis using assms(1,2) by (simp add: device_ok_def cachePut_def distinct_update)
qed

lemma cacheGet_fits: "device_ok d \<Longrightarrow> entry_fits (dt_frameSerial d) (dt_ledger d) k (cacheGet k d)"
  by (auto simp: cacheGet_def device_ok_def entry_fits_init split: option.split dest!: map_of_SomeD)

lemma entry_fits_cong:
  "entry_fits now l k e \<Longrightarrow> de_activeLedgerStamp e' = de_activeLedgerStamp e \<Longrightarrow> de_frameSerial e' = de_frameSerial e \<Longrightarrow>
    de_lastAccessFrameSerial e' = de_lastAccessFrameSerial e \<Longrightarrow>
    de_ownedGpuBytes e' = OwnedSnapshotBytes (de_backing e') \<Longrightarrow> entry_fits now l k e'"
  by (simp add: entry_fits_def stampRecord_def Let_def)

text \<open>What a capture stores: the entry of the key, published exactly when it is committed.\<close>

lemma capture_shape:
  assumes "committed \<longleftrightarrow> reachesCommit \<and> HasCompleteBacking filled"
    and "activate (dt_frameSerial d) k (de_activeLedgerStamp (cacheGet k d)) (dt_ledger d) = (granted, stamp, l)"
  obtains e where "captureDraw k filled isStatic reachesCommit uvUsable d =
      (cachePut k e d)\<lparr>dt_ledger := (if committed then l else dt_ledger d)\<rparr>"
    and "de_activeLedgerStamp e = (if committed then stamp else de_activeLedgerStamp (cacheGet k d))"
    and "de_frameSerial e = (if committed then dt_frameSerial d else de_frameSerial (cacheGet k d))"
    and "de_lastAccessFrameSerial e = (if committed then dt_frameSerial d else de_lastAccessFrameSerial (cacheGet k d))"
    and "de_ownedGpuBytes e = OwnedSnapshotBytes (de_backing e)"
    and "committed \<Longrightarrow> uvUsable \<Longrightarrow> de_backing e = filled"
    and "\<not> committed \<Longrightarrow> \<not> bk_captureComplete (de_backing e)"
    and "de_isStaticGeometry e = isStatic"
proof -
  let ?e = "(attemptBegin (dt_frameSerial d) (cacheGet k d))\<lparr>de_backing := filled, de_isStaticGeometry := isStatic\<rparr>"
  show ?thesis
  proof (cases committed)
    case False
    then show ?thesis using assms
      by (intro that [of "attemptEnd False ?e"])
        (auto simp: captureDraw_def attemptCommit_def attemptEnd_def attemptBegin_def Let_def)
  next
    case True
    define p where "p = ?e\<lparr>de_frameSerial := dt_frameSerial d, de_lastAccessFrameSerial := dt_frameSerial d,
      de_ownedGpuBytes := OwnedSnapshotBytes filled\<rparr>"
    define q where "q = (if uvUsable then p else ReleaseUvBacking p)"
    have c: "attemptCommit (dt_frameSerial d) ?e = (True, p)"
      using True assms(1) by (simp add: attemptCommit_def p_def)
    have s: "de_activeLedgerStamp q = de_activeLedgerStamp (cacheGet k d)"
      by (simp add: q_def p_def ReleaseUvBacking_def attemptBegin_def Let_def)
    have "captureDraw k filled isStatic reachesCommit uvUsable d =
        (cachePut k (attemptEnd True (q\<lparr>de_activeLedgerStamp := stamp\<rparr>)) d)\<lparr>dt_ledger := l\<rparr>"
      using True assms c s by (auto simp: captureDraw_def ActivateDrawTimeCacheEntry_def q_def Let_def)
    then show ?thesis using True
      by (intro that [of "attemptEnd True (q\<lparr>de_activeLedgerStamp := stamp\<rparr>)"])
        (auto simp: attemptEnd_def q_def p_def ReleaseUvBacking_def Let_def)
  qed
qed

lemma device_ok_capture:
  assumes ok: "device_ok d"
  shows "device_ok (captureDraw k filled isStatic reachesCommit uvUsable d)"
proof -
  obtain granted stamp l where act:
    "activate (dt_frameSerial d) k (de_activeLedgerStamp (cacheGet k d)) (dt_ledger d) = (granted, stamp, l)"
    by (metis prod_cases3)
  note get = cacheGet_fits [OF ok, of k]
  have fits: "ledger_fits (dt_frameSerial d) (dt_ledger d)" using ok by (simp add: device_ok_def)
  note a = activate_fits [OF fits act get]
  obtain e where e: "captureDraw k filled isStatic reachesCommit uvUsable d =
      (cachePut k e d)\<lparr>dt_ledger := (if reachesCommit \<and> HasCompleteBacking filled then l else dt_ledger d)\<rparr>"
    "de_activeLedgerStamp e = (if reachesCommit \<and> HasCompleteBacking filled then stamp
       else de_activeLedgerStamp (cacheGet k d))"
    "de_frameSerial e = (if reachesCommit \<and> HasCompleteBacking filled then dt_frameSerial d
       else de_frameSerial (cacheGet k d))"
    "de_lastAccessFrameSerial e = (if reachesCommit \<and> HasCompleteBacking filled then dt_frameSerial d
       else de_lastAccessFrameSerial (cacheGet k d))"
    "de_ownedGpuBytes e = OwnedSnapshotBytes (de_backing e)"
    by (rule capture_shape [OF refl act])
  show ?thesis
  proof (cases "reachesCommit \<and> HasCompleteBacking filled")
    case True
    have "entry_fits (dt_frameSerial d) l k e"
      by (rule entry_fits_cong [OF a [THEN conjunct2, THEN conjunct2]])
        (use e True in \<open>simp_all add: publishAs_def\<close>)
    then show ?thesis using device_ok_put [OF ok, of l k e] a True unfolding e(1) by simp
  next
    case False
    have "entry_fits (dt_frameSerial d) (dt_ledger d) k e"
      by (rule entry_fits_cong [OF get]) (use e False in simp_all)
    then show ?thesis using device_ok_put [OF ok fits, of k e] False unfolding e(1) by auto
  qed
qed

lemma device_ok_refresh:
  assumes ok: "device_ok d"
  shows "device_ok (refreshCached k d)"
proof -
  obtain granted stamp l where act:
    "activate (dt_frameSerial d) k (de_activeLedgerStamp (cacheGet k d)) (dt_ledger d) = (granted, stamp, l)"
    by (metis prod_cases3)
  have fits: "ledger_fits (dt_frameSerial d) (dt_ledger d)" using ok by (simp add: device_ok_def)
  note a = activate_fits [OF fits act cacheGet_fits [OF ok]]
  have "refreshCached k d = (cachePut k (publishAs (dt_frameSerial d) stamp (cacheGet k d)) d)\<lparr>dt_ledger := l\<rparr>"
    using act by (cases "cacheGet k d") (simp add: refreshCached_def ActivateDrawTimeCacheEntry_def publishAs_def Let_def)
  then show ?thesis using device_ok_put [OF ok, of l] a by simp
qed

lemma device_ok_subset:
  assumes "device_ok d" and "distinct (map fst xs)" and "set xs \<subseteq> set (dt_cache d)"
  shows "device_ok (d\<lparr>dt_cache := xs\<rparr>)"
  using assms by (auto simp: device_ok_def)

lemma entry_fits_next:
  assumes "entry_fits now l k e" and "now < now'" and "ledger_fits now l"
  shows "entry_fits now' (ledgerBeginFrame now' l) k e"
  using assms by (auto simp: entry_fits_def ledgerBeginFrame_def Let_def)

lemma device_ok_frame:
  assumes ok: "device_ok d" and "dt_frameSerial d \<noteq> UINT64_MAX"
  shows "device_ok (nextFrame d)"
proof -
  have lt: "dt_frameSerial d < dt_frameSerial d + 1"
    using word_Suc [OF assms(2)] by (simp add: word_less_nat_alt)
  have fits: "ledger_fits (dt_frameSerial d) (dt_ledger d)" using ok by (simp add: device_ok_def)
  then have "ledger_fits (dt_frameSerial d + 1) (dt_ledger d)" using lt by (auto simp: ledger_fits_def)
  then have "ledger_fits (dt_frameSerial d + 1) (ledgerBeginFrame (dt_frameSerial d + 1) (dt_ledger d))"
    by (rule ledgerBegin_fits)
  then show ?thesis
    using ok entry_fits_next [OF _ lt fits] by (auto simp: device_ok_def nextFrame_def Let_def)
qed

lemma gc_cache: "dt_cache (collectGarbage d) =
    (if dt_frameSerial d \<ge> dt_lastCleanFrame d + kGcIntervalFrames
     then fst (collectEntries (dt_frameSerial d) (dt_cache d)) else dt_cache d)"
  "dt_ledger (collectGarbage d) = dt_ledger d" "dt_frameSerial (collectGarbage d) = dt_frameSerial d"
  by (simp_all add: collectGarbage_def Let_def case_prod_unfold)

lemma evictLoop_sub: "distinct (map fst xs) \<Longrightarrow>
    distinct (map fst (fst (evictLoop now xs c))) \<and> set (fst (evictLoop now xs c)) \<subseteq> set xs"
proof (induction now xs c rule: evictLoop.induct)
  case (1 now xs c)
  show ?case
  proof (cases "gc_inactive c > kStaticPersistMaxBytes \<and> scanVictim now xs UINT64_MAX None \<noteq> None")
    case True
    then obtain v where v: "scanVictim now xs UINT64_MAX None = Some v" by auto
    have "distinct (map fst (filter (\<lambda>x. fst x \<noteq> fst v) xs))" using "1.prems" by (simp add: distinct_map_filter)
    from "1.IH" [OF _ v this] True v show ?thesis by (auto simp: evictLoop.simps [of now xs c])
  qed (use "1.prems" in \<open>auto simp: evictLoop.simps [of now xs c] split: option.split\<close>)
qed

lemma collect_sub: "distinct (map fst xs) \<Longrightarrow>
    distinct (map fst (fst (collectEntries now xs))) \<and> set (fst (collectEntries now xs)) \<subseteq> set xs"
  using evictLoop_sub [of "fst (gcPass now xs gcCounters_init)" now "snd (gcPass now xs gcCounters_init)"]
  by (auto simp: collectEntries_def case_prod_unfold gcPass_kept distinct_map_filter)

lemma device_ok_collect: "device_ok d \<Longrightarrow> device_ok (collectGarbage d)"
  using collect_sub [of "dt_cache d" "dt_frameSerial d"]
  by (auto simp: device_ok_def gc_cache)

lemma draw_run_ok: "draw_run d \<Longrightarrow> device_ok d"
proof (induction rule: draw_run.induct)
  case run_start
  then show ?case by (simp add: device_ok_def device_start_def ledger_fits_def ledger_start_def)
next
  case (run_rehash d xs)
  have "mset (map fst xs) = mset (map fst (dt_cache d))" using run_rehash.hyps(2) by simp
  then have "distinct (map fst xs)"
    using run_rehash.IH mset_eq_imp_distinct_iff [of "map fst xs" "map fst (dt_cache d)"] by (simp add: device_ok_def)
  then show ?case using run_rehash mset_eq_setD [OF run_rehash.hyps(2)] by (intro device_ok_subset) auto
next
  case (run_erase d gone)
  then show ?case unfolding cacheErase_def
    by (intro device_ok_subset) (auto simp: device_ok_def distinct_map_filter)
next
  case (run_reset d)
  then show ?case by (simp add: device_ok_def sessionReset_def ledger_fits_def ledgerReset_def)
qed (simp_all add: device_ok_capture device_ok_refresh device_ok_frame device_ok_collect)


subsection \<open>What the producer visits\<close>







text \<open>
  The books of an entry: what it counts as owned is the sum of its capacities, an aliased UV range
  counted once, after failed and complete captures alike; and its last access is always the frame of
  its last complete capture or reuse, never later, since no consumer refreshes it.
\<close>

theorem entry_books_are_kept:
  assumes "draw_run d" and "(k, e) \<in> set (dt_cache d)"
  shows "de_ownedGpuBytes e = OwnedSnapshotBytes (de_backing e) \<and>
    de_lastAccessFrameSerial e = de_frameSerial e \<and> de_frameSerial e \<le> dt_frameSerial d"
  using draw_run_ok [OF assms(1)] assms(2) by (auto simp: device_ok_def entry_fits_def Let_def)

text \<open>
  C32. The collection, exactly: when it is due, it keeps an entry unless it is too old for its kind or
  is an inactive static one and the inactive entries that were used as recently or later, ties broken
  by key, hold more than the target; so the result does not depend on the order of the hash map, the
  inactive entries that are left are within the target, and a static entry of the recent frames is
  never evicted.
\<close>

theorem collection_keeps_the_recent:
  assumes "draw_run d" and "now = dt_frameSerial d" and "now \<ge> dt_lastCleanFrame d + kGcIntervalFrames"
    and "inactiveBytes now (dt_cache d) < 2 ^ 64"
    and "ys = filter (\<lambda>x. \<not> agedOut now (snd x)) (dt_cache d)"
  shows "dt_cache (collectGarbage d) =
      filter (\<lambda>x. inactive now (snd x) \<longrightarrow> recentBytes now ys x \<le> unat kStaticPersistMaxBytes) ys \<and>
    inactiveBytes now (dt_cache (collectGarbage d)) \<le> unat kStaticPersistMaxBytes \<and>
    (\<forall>(k, e)\<in>set (dt_cache d). de_isStaticGeometry e \<and>
      IsStaticWorkingSetProtected (de_lastAccessFrameSerial e) now \<longrightarrow> (k, e) \<in> set (dt_cache (collectGarbage d)))"
proof -
  have keys: "distinct (map fst (dt_cache d))" using draw_run_ok [OF assms(1)] by (simp add: device_ok_def)
  have kept: "dt_cache (collectGarbage d) =
      filter (\<lambda>x. inactive now (snd x) \<longrightarrow> recentBytes now ys x \<le> unat kStaticPersistMaxBytes) ys"
    using collectEntries_kept [OF keys assms(4,5)] assms(2,3) by (simp add: gc_cache)
  have "\<not> agedOut now e" if "IsStaticWorkingSetProtected (de_lastAccessFrameSerial e) now" "de_isStaticGeometry e" for e
    using that by (auto simp: IsStaticWorkingSetProtected_def agedOut_def kRecentProtectFrames_def
        kGcIntervalFrames_def kStaticMaxIdleFrames_def word_less_nat_alt word_le_nat_alt)
  then show ?thesis
    using kept collected_below_target [OF kept] assms(5) by (auto simp: inactive_def)
qed


subsection \<open>Concrete runs\<close>

definition exampleKey :: "u32 \<Rightarrow> DrawTimeKey" where
  "exampleKey part = \<lparr>dk_mapEpoch = 1, dk_instanceIdentity = 0x1000, dk_meshPayloadPtr = 0x2000,
     dk_renderablePart = part, dk_jHandle = 0, dk_layerIndex = 0, dk_payloadWord108 = 0, dk_payloadWord11C = 0\<rparr>"

text \<open>A complete backing of the given capacity.\<close>

definition exampleBacking :: "u64 \<Rightarrow> Backing" where
  "exampleBacking capacity = backing_init\<lparr>bk_vertexCount := 3, bk_positionBuffer := 0x500,
     bk_positionSnapshotPage := 7, bk_positionInfo := \<lparr>bi_buffer = 9, bi_offset = 0, bi_size = 36\<rparr>,
     bk_positionCapacity := capacity, bk_captureComplete := True\<rparr>"

text \<open>Two captures in one frame, the first key erased and captured again.\<close>

definition exampleFrame :: DrawTimeDevice where
  "exampleFrame =
    captureDraw (exampleKey 1) (exampleBacking 64) True True True
      (cacheErase (\<lambda>x. fst x = exampleKey 1)
        (captureDraw (exampleKey 2) (exampleBacking 128) True True False
          (captureDraw (exampleKey 1) (exampleBacking 64) True True True (nextFrame device_start))))"

lemma example_run: "draw_run exampleFrame"
proof -
  have "dt_frameSerial device_start \<noteq> UINT64_MAX" by code_simp
  then show ?thesis
    unfolding exampleFrame_def
    by (intro run_capture run_erase run_frame run_start)
qed


theorem entry_books_are_kept_witness:
  "\<exists>e. (exampleKey 2, e) \<in> set (dt_cache exampleFrame) \<and> de_ownedGpuBytes e = OwnedSnapshotBytes (de_backing e) \<and>
    de_ownedGpuBytes e = 128"
proof -
  have m: "map_of (dt_cache exampleFrame) (exampleKey 2) \<noteq> None \<and>
      de_ownedGpuBytes (the (map_of (dt_cache exampleFrame) (exampleKey 2))) = 128" by code_simp
  then obtain e where "map_of (dt_cache exampleFrame) (exampleKey 2) = Some e" "de_ownedGpuBytes e = 128" by auto
  then have e: "(exampleKey 2, e) \<in> set (dt_cache exampleFrame)" "de_ownedGpuBytes e = 128"
    by (simp_all add: map_of_SomeD)
  from entry_books_are_kept [OF example_run e(1)] e show ?thesis by blast
qed

text \<open>Long after, two entries of 40 MiB are inactive: only the more recently used one is kept.\<close>

definition exampleCaptured :: DrawTimeDevice where
  "exampleCaptured =
    captureDraw (exampleKey 2) (exampleBacking (40 * 1024 * 1024)) True True True
      (nextFrame
        (captureDraw (exampleKey 1) (exampleBacking (40 * 1024 * 1024)) True True True
          (nextFrame device_start)))"

definition exampleOld :: DrawTimeDevice where
  "exampleOld = (nextFrame ^^ 190) exampleCaptured"

lemma nextFrame_fields:
  "dt_cache (nextFrame d) = dt_cache d" "dt_lastCleanFrame (nextFrame d) = dt_lastCleanFrame d"
  "dt_frameSerial (nextFrame d) = dt_frameSerial d + 1"
  by (simp_all add: nextFrame_def Let_def)

lemma nextFrame_iterate_fields:
  "dt_cache ((nextFrame ^^ n) d) = dt_cache d" "dt_lastCleanFrame ((nextFrame ^^ n) d) = dt_lastCleanFrame d"
  "dt_frameSerial ((nextFrame ^^ n) d) = dt_frameSerial d + of_nat n"
  by (induction n) (simp_all add: nextFrame_fields)

lemma nextFrame_iterate:
  assumes "draw_run d"
  shows "unat (dt_frameSerial d) + n < 2 ^ 64 \<Longrightarrow> draw_run ((nextFrame ^^ n) d)"
proof (induction n)
  case (Suc n)
  have "unat (dt_frameSerial d + of_nat n) = unat (dt_frameSerial d) + n"
    using Suc.prems by (simp add: unat_plus_if' unat_of_nat take_bit_nat_eq_self)
  then have "dt_frameSerial ((nextFrame ^^ n) d) \<noteq> UINT64_MAX"
    using Suc.prems by (auto simp: nextFrame_iterate_fields unat_eq_iff)
  with Suc show ?case by (simp add: run_frame)
qed (use assms in simp)

lemma example_captured_frame: "dt_frameSerial exampleCaptured = 2" "dt_lastCleanFrame exampleCaptured = 0"
  by code_simp+

lemma example_old_run: "draw_run exampleOld"
proof -
  have "dt_frameSerial device_start \<noteq> UINT64_MAX"
    "dt_frameSerial (captureDraw (exampleKey 1) (exampleBacking (40 * 1024 * 1024)) True True True
       (nextFrame device_start)) \<noteq> UINT64_MAX"
    by code_simp+
  then have "draw_run exampleCaptured"
    unfolding exampleCaptured_def by (intro run_capture run_frame run_start)
  then show ?thesis
    unfolding exampleOld_def by (rule nextFrame_iterate) (simp add: example_captured_frame)
qed

lemma example_old_fields: "dt_cache exampleOld = dt_cache exampleCaptured" "dt_frameSerial exampleOld = 192"
  "dt_lastCleanFrame exampleOld = 0"
  by (simp_all add: exampleOld_def nextFrame_iterate_fields example_captured_frame)

text \<open>What the collection reads of the two entries.\<close>

lemma example_entries: "map (\<lambda>x. (fst x, de_isStaticGeometry (snd x), de_lastAccessFrameSerial (snd x),
      de_ownedGpuBytes (snd x))) (dt_cache exampleCaptured) =
    [(exampleKey 1, True, 1, 41943040), (exampleKey 2, True, 2, 41943040)]"
  by code_simp

lemma example_two:
  obtains e f where "dt_cache exampleCaptured = [(exampleKey 1, e), (exampleKey 2, f)]"
    and "inactive 192 e" "inactive 192 f" and "\<not> agedOut 192 e" "\<not> agedOut 192 f"
    and "de_ownedGpuBytes e = 41943040" "de_ownedGpuBytes f = 41943040"
    and "age (exampleKey 1, e) < age (exampleKey 2, f)"
proof -
  from example_entries obtain e f where
    c: "dt_cache exampleCaptured = [(exampleKey 1, e), (exampleKey 2, f)]"
    and s: "de_isStaticGeometry e" "de_isStaticGeometry f"
    and l: "de_lastAccessFrameSerial e = 1" "de_lastAccessFrameSerial f = 2"
    and b: "de_ownedGpuBytes e = 41943040" "de_ownedGpuBytes f = 41943040"
    by (auto simp: map_eq_Cons_conv)
  show ?thesis
    by (rule that [OF c _ _ _ _ b])
      (use s l in \<open>simp_all add: inactive_def agedOut_def IsStaticWorkingSetProtected_def kRecentProtectFrames_def
        kGcIntervalFrames_def kStaticMaxIdleFrames_def age_less\<close>)
qed

theorem collection_keeps_the_recent_witness:
  "inactiveBytes 192 (dt_cache (collectGarbage exampleOld)) \<le> unat kStaticPersistMaxBytes \<and>
    map fst (dt_cache exampleOld) = [exampleKey 1, exampleKey 2] \<and>
    map fst (dt_cache (collectGarbage exampleOld)) = [exampleKey 2]"
proof -
  have due: "dt_frameSerial exampleOld \<ge> dt_lastCleanFrame exampleOld + kGcIntervalFrames"
    by (simp add: example_old_fields kGcIntervalFrames_def)
  obtain e f where c: "dt_cache exampleCaptured = [(exampleKey 1, e), (exampleKey 2, f)]"
    and ef: "inactive 192 e" "inactive 192 f" "\<not> agedOut 192 e" "\<not> agedOut 192 f"
    and b: "de_ownedGpuBytes e = 41943040" "de_ownedGpuBytes f = 41943040"
    and a: "age (exampleKey 1, e) < age (exampleKey 2, f)"
    by (rule example_two)
  have small: "inactiveBytes 192 (dt_cache exampleCaptured) < 2 ^ 64"
    using ef b by (simp add: c inactiveBytes_def)
  have r: "recentBytes 192 (dt_cache exampleCaptured) (exampleKey 1, e) = 83886080"
    "recentBytes 192 (dt_cache exampleCaptured) (exampleKey 2, f) = 41943040"
    using ef b a by (simp_all add: c recentBytes_def)
  have y: "filter (\<lambda>x. \<not> agedOut 192 (snd x)) (dt_cache exampleCaptured) = dt_cache exampleCaptured"
    using ef by (simp add: c)
  note t = collection_keeps_the_recent [OF example_old_run refl due _ refl, unfolded example_old_fields y, OF small]
  have "dt_cache (collectGarbage exampleOld) = [(exampleKey 2, f)]"
    using t [THEN conjunct1] r ef by (simp add: c kStaticPersistMaxBytes_def)
  moreover have "inactiveBytes 192 (dt_cache (collectGarbage exampleOld)) \<le> unat kStaticPersistMaxBytes"
    by (rule t [THEN conjunct2, THEN conjunct1])
  moreover have "map fst (dt_cache exampleOld) = [exampleKey 1, exampleKey 2]" by (simp add: example_old_fields c)
  ultimately show ?thesis by simp
qed

end
